(* ===== verification/Prelude.thy ===== *)
theory Prelude
  imports Main "HOL-Library.Word" "HOL-Library.List_Lexorder" "HOL-Library.Char_ord"
    "HOL-Library.Product_Lexorder"
begin

unbundle bit_operations_syntax

section \<open>Shared vocabulary\<close>

text \<open>
  What every component theory uses: the machine integer types with the checked
  operations of Rust's standard library, the error-as-value combinators that stand for
  \<open>?\<close>, \<open>ok_or\<close> and the early \<open>return Err(..)\<close>, the fallible iterator
  \<open>try_fold\<close>, and the collections of rewrite rules for them.
  Unsigned machine integers are natural numbers: every operation of the modelled code is
  a checked one (\<open>checked_add\<close>, \<open>checked_sub\<close>, \<open>checked_mul\<close>, \<open>try_from\<close>) or
  stands behind a comparison that excludes wrap-around, and the checked operations have
  the width as an argument. Entity identifiers are 128-bit words, so that their
  big-endian byte order is the order of the word.
\<close>

named_theorems result_simps \<open>inversion rules for the error combinators\<close>
named_theorems checked_simps \<open>unfolding rules for the checked integer operations\<close>

subsection \<open>Machine integers\<close>

type_synonym u8 = nat
type_synonym u16 = nat
type_synonym u32 = nat
type_synonym u64 = nat
type_synonym usize = nat

definition u16_max :: nat where "u16_max = 2 ^ 16 - 1"
definition u32_max :: nat where "u32_max = 2 ^ 32 - 1"
definition u64_max :: nat where "u64_max = 2 ^ 64 - 1"
definition usize_max :: nat where "usize_max = 2 ^ 64 - 1"

lemma max_code [code]:
  "u16_max = 65535" "u32_max = 4294967295" "u64_max = 18446744073709551615"
  "usize_max = 18446744073709551615"
  by (simp_all add: u16_max_def u32_max_def u64_max_def usize_max_def)

text \<open>The first argument of the checked operations is the largest value of the type.\<close>

definition checked_add :: "nat \<Rightarrow> nat \<Rightarrow> nat \<Rightarrow> nat option" where
  "checked_add hi a b = (if a + b \<le> hi then Some (a + b) else None)"

definition checked_mul :: "nat \<Rightarrow> nat \<Rightarrow> nat \<Rightarrow> nat option" where
  "checked_mul hi a b = (if a * b \<le> hi then Some (a * b) else None)"

definition checked_sub :: "nat \<Rightarrow> nat \<Rightarrow> nat option" where
  "checked_sub a b = (if b \<le> a then Some (a - b) else None)"

definition try_from :: "nat \<Rightarrow> nat \<Rightarrow> nat option" where
  "try_from hi a = (if a \<le> hi then Some a else None)"

lemma checked_add_Some [checked_simps]:
  "checked_add hi a b = Some c \<longleftrightarrow> c = a + b \<and> a + b \<le> hi"
  by (auto simp: checked_add_def)

lemma checked_mul_Some [checked_simps]:
  "checked_mul hi a b = Some c \<longleftrightarrow> c = a * b \<and> a * b \<le> hi"
  by (auto simp: checked_mul_def)

lemma checked_sub_Some [checked_simps]:
  "checked_sub a b = Some c \<longleftrightarrow> c = a - b \<and> b \<le> a"
  by (auto simp: checked_sub_def)

lemma try_from_Some [checked_simps]: "try_from hi a = Some c \<longleftrightarrow> c = a \<and> a \<le> hi"
  by (auto simp: try_from_def)

subsection \<open>Errors as values\<close>

definition and_then :: "'e + 'a \<Rightarrow> ('a \<Rightarrow> 'e + 'b) \<Rightarrow> 'e + 'b" where
  "and_then r f = (case r of Inl e \<Rightarrow> Inl e | Inr a \<Rightarrow> f a)"

definition ok_or :: "'a option \<Rightarrow> 'e \<Rightarrow> 'e + 'a" where
  "ok_or m e = (case m of None \<Rightarrow> Inl e | Some a \<Rightarrow> Inr a)"

definition ensure :: "bool \<Rightarrow> 'e \<Rightarrow> 'e + unit" where
  "ensure b e = (if b then Inr () else Inl e)"

definition is_ok :: "'e + 'a \<Rightarrow> bool" where
  "is_ok r = (case r of Inl _ \<Rightarrow> False | Inr _ \<Rightarrow> True)"

lemma and_then_simps [simp]:
  "and_then (Inl e) f = Inl e"
  "and_then (Inr a) f = f a"
  by (simp_all add: and_then_def)

lemma and_then_Inr [result_simps]:
  "and_then r f = Inr b \<longleftrightarrow> (\<exists>a. r = Inr a \<and> f a = Inr b)"
  by (cases r) auto

lemma and_then_Inl [result_simps]:
  "and_then r f = Inl e \<longleftrightarrow> r = Inl e \<or> (\<exists>a. r = Inr a \<and> f a = Inl e)"
  by (cases r) auto

lemma and_then_assoc: "and_then (and_then r f) g = and_then r (\<lambda>a. and_then (f a) g)"
  by (cases r) auto

lemma and_then_cong [fundef_cong]:
  "r = r' \<Longrightarrow> (\<And>a. r' = Inr a \<Longrightarrow> f a = f' a) \<Longrightarrow> and_then r f = and_then r' f'"
  by (cases r') auto

lemma ok_or_simps [simp]: "ok_or None e = Inl e" "ok_or (Some a) e = Inr a"
  by (simp_all add: ok_or_def)

lemma ok_or_Inr [result_simps]: "ok_or m e = Inr a \<longleftrightarrow> m = Some a"
  by (cases m) auto

lemma ok_or_Inl [result_simps]: "ok_or m e = Inl e' \<longleftrightarrow> m = None \<and> e' = e"
  by (cases m) auto

lemma ensure_simps [simp]: "ensure True e = Inr ()" "ensure False e = Inl e"
  by (simp_all add: ensure_def)

lemma ensure_Inr [result_simps]: "ensure b e = Inr u \<longleftrightarrow> b"
  by (cases b) auto

lemma ensure_Inl [result_simps]: "ensure b e = Inl e' \<longleftrightarrow> \<not> b \<and> e' = e"
  by (cases b) auto

lemma is_ok_simps [simp]: "is_ok (Inr a)" "\<not> is_ok (Inl e)"
  by (simp_all add: is_ok_def)

lemma is_ok_iff: "is_ok r \<longleftrightarrow> (\<exists>a. r = Inr a)"
  by (cases r) auto

subsection \<open>Fallible iteration\<close>

text \<open>
  \<open>for x in xs { .. ? .. }\<close> with a mutable accumulator is \<open>try_fold\<close>; a loop that
  only checks is \<open>try_each\<close>.
\<close>

fun try_fold :: "('a \<Rightarrow> 's \<Rightarrow> 'e + 's) \<Rightarrow> 'a list \<Rightarrow> 's \<Rightarrow> 'e + 's" where
  "try_fold f [] s = Inr s"
| "try_fold f (x # xs) s = and_then (f x s) (try_fold f xs)"

fun try_each :: "('a \<Rightarrow> 'e + unit) \<Rightarrow> 'a list \<Rightarrow> 'e + unit" where
  "try_each f [] = Inr ()"
| "try_each f (x # xs) = and_then (f x) (\<lambda>_. try_each f xs)"

lemma try_each_Inr [result_simps]: "try_each f xs = Inr u \<longleftrightarrow> (\<forall>x \<in> set xs. f x = Inr ())"
  by (induction xs) (auto simp: result_simps)

lemma try_each_cong [fundef_cong]:
  "xs = ys \<Longrightarrow> (\<And>x. x \<in> set ys \<Longrightarrow> f x = g x) \<Longrightarrow> try_each f xs = try_each g ys"
  by (induction ys arbitrary: xs) auto

lemma try_fold_append:
  "try_fold f (xs @ ys) s = and_then (try_fold f xs s) (try_fold f ys)"
  by (induction xs arbitrary: s) (auto simp: and_then_def split: sum.splits)

lemma try_fold_invariant:
  assumes "try_fold f xs s = Inr t" and "P s"
    and "\<And>x s t. x \<in> set xs \<Longrightarrow> P s \<Longrightarrow> f x s = Inr t \<Longrightarrow> P t"
  shows "P t"
  using assms
proof (induction xs arbitrary: s)
  case Nil
  then show ?case by simp
next
  case (Cons x xs)
  then obtain r where "f x s = Inr r" "try_fold f xs r = Inr t"
    by (auto simp: result_simps)
  with Cons show ?case by (metis list.set_intros)
qed

subsection \<open>Lists\<close>

text \<open>
  \<open>slots.get(i)\<close> of a Rust slice; an index past the end is \<open>None\<close>.
\<close>

definition get_index :: "'a list \<Rightarrow> nat \<Rightarrow> 'a option" where
  "get_index xs i = (if i < length xs then Some (xs ! i) else None)"

lemma get_index_Some [result_simps]:
  "get_index xs i = Some x \<longleftrightarrow> i < length xs \<and> x = xs ! i"
  by (auto simp: get_index_def)

lemma get_index_None [result_simps]: "get_index xs i = None \<longleftrightarrow> length xs \<le> i"
  by (auto simp: get_index_def)

lemma get_index_Cons_0 [simp]: "get_index (x # xs) 0 = Some x"
  by (simp add: get_index_def)

lemma get_index_Cons_Suc [simp]: "get_index (x # xs) (Suc i) = get_index xs i"
  by (simp add: get_index_def)

text \<open>\<open>BTreeSet::insert\<close> in a loop that rejects duplicates is distinctness.\<close>

lemma sum_list_update_nat:
  fixes f :: "'a \<Rightarrow> nat"
  assumes "i < length xs"
  shows "sum_list (map f (xs[i := x])) + f (xs ! i) = sum_list (map f xs) + f x"
  using assms
proof (induction xs arbitrary: i)
  case Nil
  then show ?case by simp
next
  case (Cons y ys)
  then show ?case by (cases i) (auto simp: add.assoc add.left_commute)
qed

end
