(* ===== verification/BTree_Map.thy ===== *)
theory BTree_Map
  imports Prelude
begin

section \<open>Ordered maps\<close>

text \<open>
  \<open>std::collections::BTreeMap\<close> as the modelled code uses it: lookup, insertion that
  replaces, removal, the number of entries and iteration in key order. The abstract
  interface is the locale \<open>ordered_map\<close>; the model is the type \<open>btree\<close> of
  association lists sorted strictly by key, so that two maps with the same lookups are
  equal, iteration order is part of the value, and all operations compute.
\<close>

subsection \<open>The interface\<close>

locale ordered_map =
  fixes empty :: "'m"
    and insert :: "'k::linorder \<Rightarrow> 'v \<Rightarrow> 'm \<Rightarrow> 'm"
    and remove :: "'k \<Rightarrow> 'm \<Rightarrow> 'm"
    and get :: "'m \<Rightarrow> 'k \<Rightarrow> 'v option"
    and entries :: "'m \<Rightarrow> ('k \<times> 'v) list"
  assumes get_empty: "get empty k = None"
    and get_insert: "get (insert k v m) k' = (if k' = k then Some v else get m k')"
    and get_remove: "get (remove k m) k' = (if k' = k then None else get m k')"
    and entries_sorted: "sorted_wrt (<) (map fst (entries m))"
    and entries_get: "(k, v) \<in> set (entries m) \<longleftrightarrow> get m k = Some v"
    and get_inject: "(\<And>k. get m k = get m' k) \<Longrightarrow> m = m'"
begin

text \<open>\<open>replace_map\<close> of the gameplay kernel: write an optional value.\<close>

definition put :: "'k \<Rightarrow> 'v option \<Rightarrow> 'm \<Rightarrow> 'm" where
  "put k v m = (case v of Some x \<Rightarrow> insert k x m | None \<Rightarrow> remove k m)"

lemma get_put: "get (put k v m) k' = (if k' = k then v else get m k')"
  by (auto simp: put_def get_insert get_remove split: option.splits)

lemma put_undo: "get m k = old \<Longrightarrow> put k old (put k new m) = m"
  by (rule get_inject) (auto simp: get_put)

lemma put_same: "get m k = v \<Longrightarrow> put k v m = m"
  by (rule get_inject) (auto simp: get_put)

lemma put_commute: "k \<noteq> k' \<Longrightarrow> put k v (put k' v' m) = put k' v' (put k v m)"
  by (rule get_inject) (auto simp: get_put)

lemma entries_distinct: "distinct (map fst (entries m))"
  using entries_sorted [of m] by (auto simp: strict_sorted_iff)

lemma keys_iff: "k \<in> set (map fst (entries m)) \<longleftrightarrow> get m k \<noteq> None"
proof -
  have "k \<in> set (map fst (entries m)) \<longleftrightarrow> (\<exists>v. (k, v) \<in> set (entries m))"
    by force
  then show ?thesis by (auto simp: entries_get)
qed

lemma length_insert:
  "length (entries (insert k v m)) =
     (if get m k = None then Suc (length (entries m)) else length (entries m))"
proof -
  let ?ks = "\<lambda>m. set (map fst (entries m))"
  have len: "length (entries m) = card (?ks m)" for m
    by (metis entries_distinct distinct_card length_map)
  have "?ks (insert k v m) = Set.insert k (?ks m)"
    by (auto simp only: keys_iff get_insert Set.insert_iff split: if_splits)
  moreover have "finite (?ks m)" by simp
  ultimately show ?thesis
    using keys_iff [of k m] by (simp only: len card_insert_if) auto
qed

lemma length_remove:
  "length (entries (remove k m)) =
     (if get m k = None then length (entries m) else length (entries m) - 1)"
proof -
  let ?ks = "\<lambda>m. set (map fst (entries m))"
  have len: "length (entries m) = card (?ks m)" for m
    by (metis entries_distinct distinct_card length_map)
  have "?ks (remove k m) = ?ks m - {k}"
    by (auto simp only: keys_iff get_remove split: if_splits)
  then show ?thesis
    using keys_iff [of k m] by (simp only: len card_Diff_singleton_if) auto
qed

end

subsection \<open>The sorted association list\<close>

fun al_insert :: "'k::linorder \<Rightarrow> 'v \<Rightarrow> ('k \<times> 'v) list \<Rightarrow> ('k \<times> 'v) list" where
  "al_insert k v [] = [(k, v)]"
| "al_insert k v ((k', v') # xs) =
     (if k < k' then (k, v) # (k', v') # xs
      else if k = k' then (k, v) # xs
      else (k', v') # al_insert k v xs)"

definition al_remove :: "'k \<Rightarrow> ('k \<times> 'v) list \<Rightarrow> ('k \<times> 'v) list" where
  "al_remove k xs = filter (\<lambda>e. fst e \<noteq> k) xs"

lemma keys_al_insert: "set (map fst (al_insert k v xs)) = Set.insert k (set (map fst xs))"
  by (induction xs rule: al_insert.induct [of _ k v]) (auto split: if_splits)

lemma sorted_al_insert:
  "sorted_wrt (<) (map fst xs) \<Longrightarrow> sorted_wrt (<) (map fst (al_insert k v xs))"
proof (induction k v xs rule: al_insert.induct)
  case (1 k v)
  then show ?case by simp
next
  case (2 k v k' v' xs)
  show ?case
  proof (cases "k < k'")
    case True
    with 2 show ?thesis by (auto intro: less_trans)
  next
    case False
    with 2 show ?thesis using keys_al_insert [of k v xs] by (auto simp: not_less)
  qed
qed

lemma map_of_al_insert:
  "sorted_wrt (<) (map fst xs) \<Longrightarrow> map_of (al_insert k v xs) = (map_of xs)(k \<mapsto> v)"
  by (induction k v xs rule: al_insert.induct) (auto simp: fun_eq_iff)

lemma sorted_al_remove:
  "sorted_wrt (<) (map fst xs) \<Longrightarrow> sorted_wrt (<) (map fst (al_remove k xs))"
  by (induction xs) (auto simp: al_remove_def)

lemma map_of_al_remove: "map_of (al_remove k xs) = (map_of xs)(k := None)"
  by (induction xs) (auto simp: al_remove_def fun_eq_iff)

lemma sorted_keys_distinct: "sorted_wrt (<) (map fst xs) \<Longrightarrow> distinct (map fst xs)"
  for xs :: "('k::linorder \<times> 'v) list"
  by (simp only: strict_sorted_iff)

lemma sorted_map_of_inject:
  fixes xs ys :: "('k::linorder \<times> 'v) list"
  assumes "sorted_wrt (<) (map fst xs)" and "sorted_wrt (<) (map fst ys)"
    and "map_of xs = map_of ys"
  shows "xs = ys"
proof -
  note dx = sorted_keys_distinct [OF assms(1)] and dy = sorted_keys_distinct [OF assms(2)]
  have "(k, v) \<in> set xs \<longleftrightarrow> (k, v) \<in> set ys" for k v
    by (metis assms(3) map_of_eq_Some_iff dx dy)
  then have same: "set xs = set ys" by auto
  have "sorted (map fst xs)" "sorted (map fst ys)"
    using assms(1,2) by (simp_all only: strict_sorted_iff)
  moreover have "inj_on fst (set xs \<union> set ys)"
    using dx same by (simp add: distinct_map)
  ultimately show ?thesis
    using dx dy same by (metis distinct_map map_sorted_distinct_set_unique)
qed

subsection \<open>The type\<close>

typedef (overloaded) ('k, 'v) btree =
  "{xs :: ('k::linorder \<times> 'v) list. sorted_wrt (<) (map fst xs)}"
  morphisms entries BTree
  by (rule exI [of _ "[]"]) simp

setup_lifting type_definition_btree

lift_definition bt_empty :: "('k::linorder, 'v) btree" is "[]" by simp

lift_definition bt_insert :: "'k::linorder \<Rightarrow> 'v \<Rightarrow> ('k, 'v) btree \<Rightarrow> ('k, 'v) btree"
  is al_insert by (rule sorted_al_insert)

lift_definition bt_remove :: "'k::linorder \<Rightarrow> ('k, 'v) btree \<Rightarrow> ('k, 'v) btree"
  is al_remove by (rule sorted_al_remove)

lift_definition bt_get :: "('k::linorder, 'v) btree \<Rightarrow> 'k \<Rightarrow> 'v option" is map_of .

lift_definition bt_retain :: "('k::linorder \<times> 'v \<Rightarrow> bool) \<Rightarrow> ('k, 'v) btree \<Rightarrow> ('k, 'v) btree"
  is filter
proof -
  fix P and xs :: "('k \<times> 'v) list"
  show "sorted_wrt (<) (map fst xs) \<Longrightarrow> sorted_wrt (<) (map fst (filter P xs))"
    by (induction xs) auto
qed

definition bt_keys :: "('k::linorder, 'v) btree \<Rightarrow> 'k list" where
  "bt_keys m = map fst (entries m)"

definition bt_values :: "('k::linorder, 'v) btree \<Rightarrow> 'v list" where
  "bt_values m = map snd (entries m)"

definition bt_len :: "('k::linorder, 'v) btree \<Rightarrow> nat" where
  "bt_len m = length (entries m)"

definition bt_contains :: "('k::linorder, 'v) btree \<Rightarrow> 'k \<Rightarrow> bool" where
  "bt_contains m k \<longleftrightarrow> bt_get m k \<noteq> None"

interpretation bt: ordered_map bt_empty bt_insert bt_remove bt_get entries
proof
  fix k k' :: "'k::linorder" and v :: 'v and m m' :: "('k, 'v) btree"
  show "bt_get bt_empty k = (None :: 'v option)" by transfer simp
  show "bt_get (bt_insert k v m) k' = (if k' = k then Some v else bt_get m k')"
    by transfer (simp add: map_of_al_insert)
  show "bt_get (bt_remove k m) k' = (if k' = k then None else bt_get m k')"
    by transfer (simp add: map_of_al_remove)
  show "sorted_wrt (<) (map fst (entries m))" by transfer
  show "((k, v) \<in> set (entries m)) = (bt_get m k = Some v)"
    by transfer (auto intro: map_of_is_SomeI map_of_SomeD simp: strict_sorted_iff)
  show "m = m'" if "\<And>k. bt_get m k = bt_get m' k"
    using that by transfer (auto intro: sorted_map_of_inject)
qed

abbreviation bt_put :: "'k::linorder \<Rightarrow> 'v option \<Rightarrow> ('k, 'v) btree \<Rightarrow> ('k, 'v) btree" where
  "bt_put \<equiv> bt.put"

text \<open>Maps with the same bindings are equal, so equality compares the sorted lists.\<close>

instantiation btree :: (linorder, equal) equal
begin

definition equal_btree :: "('a, 'b) btree \<Rightarrow> ('a, 'b) btree \<Rightarrow> bool" where
  "equal_btree m m' \<longleftrightarrow> entries m = entries m'"

instance
  by standard (simp add: equal_btree_def entries_inject)

end

lemma bt_contains_iff: "bt_contains m k \<longleftrightarrow> k \<in> set (bt_keys m)"
  unfolding bt_contains_def bt_keys_def bt.keys_iff ..

lemma distinct_bt_keys [simp]: "distinct (bt_keys m)"
  by (simp add: bt_keys_def bt.entries_distinct)

lemma bt_len_card: "bt_len m = card (set (bt_keys m))"
  using distinct_card [OF distinct_bt_keys [of m]] by (simp add: bt_len_def bt_keys_def)

lemma bt_values_iff: "v \<in> set (bt_values m) \<longleftrightarrow> (\<exists>k. bt_get m k = Some v)"
  by (force simp: bt_values_def bt.entries_get [symmetric] image_iff)

lemma bt_len_insert:
  "bt_len (bt_insert k v m) = (if bt_get m k = None then Suc (bt_len m) else bt_len m)"
  by (simp add: bt_len_def bt.length_insert)

lemma bt_all_entries:
  "(\<forall>k v. bt_get m k = Some v \<longrightarrow> P k v) \<longleftrightarrow> list_all (\<lambda>(k, v). P k v) (entries m)"
  by (auto simp: list_all_iff bt.entries_get)

end
