(* ===== verification/Scope.thy ===== *)
theory Scope
  imports BTree_Map
begin

section \<open>Identifiers, positions and storage targets\<close>

text \<open>
  The key types of the gameplay state: \<open>storage_scope.rs\<close>, the position and item-stack
  part of \<open>model.rs\<close>, the byte identifiers of \<open>latticeaxiom-storage\<close>, and the
  rejection enum that every operation returns. Structs that are map keys are datatypes
  with an instance of \<^theory_text>\<open>linorder\<close>, the derived lexicographic \<open>Ord\<close> of the code;
  the other structs are records.
\<close>

subsection \<open>Identifiers\<close>

text \<open>
  Registration identifiers are validated stable-ID texts. Byte identifiers
  (\<open>[u8; 16]\<close> in network order) are 128-bit words.
\<close>

type_synonym item_id = string
type_synonym block_id = string
type_synonym item_tag_id = string
type_synonym item_category_id = string
type_synonym item_role_id = string
type_synonym recipe_id = string
type_synonym workstation_id = string
type_synonym process_id = string
type_synonym tool_class_id = string
type_synonym dimension_id = string
type_synonym schema_id = string

type_synonym persistent_entity_id = "128 word"
type_synonym player_id = persistent_entity_id
type_synonym drop_entity_id = persistent_entity_id
type_synonym container_id = persistent_entity_id
type_synonym transaction_id = "128 word"
type_synonym continuation_id = "128 word"
type_synonym world_id = "128 word"

type_synonym world_revision = u64
type_synonym chunk_revision = u64
type_synonym authority_tick = u64
type_synonym slot_index = u16

subsection \<open>Positions and chunk keys\<close>

datatype chunk_coordinate = ChunkCoordinate (cc_x: int) (cc_y: int) (cc_z: int)

instantiation chunk_coordinate :: linorder
begin

definition less_eq_chunk_coordinate :: "chunk_coordinate \<Rightarrow> chunk_coordinate \<Rightarrow> bool" where
  "a \<le> b \<longleftrightarrow> (cc_x a, cc_y a, cc_z a) \<le> (cc_x b, cc_y b, cc_z b)"

definition less_chunk_coordinate :: "chunk_coordinate \<Rightarrow> chunk_coordinate \<Rightarrow> bool" where
  "a < b \<longleftrightarrow> (cc_x a, cc_y a, cc_z a) < (cc_x b, cc_y b, cc_z b)"

instance
  by standard
    (auto simp: less_eq_chunk_coordinate_def less_chunk_coordinate_def chunk_coordinate.expand)

end

datatype block_position = BlockPosition (bp_x: int) (bp_y: int) (bp_z: int)

instantiation block_position :: linorder
begin

definition less_eq_block_position :: "block_position \<Rightarrow> block_position \<Rightarrow> bool" where
  "a \<le> b \<longleftrightarrow> (bp_x a, bp_y a, bp_z a) \<le> (bp_x b, bp_y b, bp_z b)"

definition less_block_position :: "block_position \<Rightarrow> block_position \<Rightarrow> bool" where
  "a < b \<longleftrightarrow> (bp_x a, bp_y a, bp_z a) < (bp_x b, bp_y b, bp_z b)"

instance
  by standard
    (auto simp: less_eq_block_position_def less_block_position_def block_position.expand)

end

text \<open>
  \<open>i32::div_euclid\<close> with a positive divisor rounds towards minus infinity, which is
  \<open>div\<close> on \<open>int\<close>; the edge is a \<open>u16\<close>, so no quotient leaves the \<open>i32\<close> range.
\<close>

definition chunk_in_position :: "block_position \<Rightarrow> u16 \<Rightarrow> chunk_coordinate" where
  "chunk_in_position p edge =
     (let e = int (max edge 1)
      in ChunkCoordinate (bp_x p div e) (bp_y p div e) (bp_z p div e))"

datatype dimension_chunk_key =
  DimensionChunkKey (dck_dimension: dimension_id) (dck_coordinate: chunk_coordinate)

instantiation dimension_chunk_key :: linorder
begin

definition less_eq_dimension_chunk_key where
  "a \<le> b \<longleftrightarrow> (dck_dimension a, dck_coordinate a) \<le> (dck_dimension b, dck_coordinate b)"

definition less_dimension_chunk_key where
  "a < b \<longleftrightarrow> (dck_dimension a, dck_coordinate a) < (dck_dimension b, dck_coordinate b)"

instance
  by standard
    (auto simp: less_eq_dimension_chunk_key_def less_dimension_chunk_key_def
      dimension_chunk_key.expand)

end

datatype block_key = BlockKey (bk_dimension: dimension_id) (bk_position: block_position)

instantiation block_key :: linorder
begin

definition less_eq_block_key where
  "a \<le> b \<longleftrightarrow> (bk_dimension a, bk_position a) \<le> (bk_dimension b, bk_position b)"

definition less_block_key where
  "a < b \<longleftrightarrow> (bk_dimension a, bk_position a) < (bk_dimension b, bk_position b)"

instance
  by standard (auto simp: less_eq_block_key_def less_block_key_def block_key.expand)

end

definition chunk_in :: "block_key \<Rightarrow> u16 \<Rightarrow> dimension_chunk_key" where
  "chunk_in k edge = DimensionChunkKey (bk_dimension k) (chunk_in_position (bk_position k) edge)"

datatype storage_domain = Voxels | PersistentEntities | Continuations

datatype edit_target =
  GameplayEditTarget (et_chunk: dimension_chunk_key) (et_domain: storage_domain)

subsection \<open>Item stacks\<close>

datatype item_state = Plain | ToolDurability u32

record item_stack =
  stack_item :: item_id
  stack_quantity :: u32
  stack_state :: item_state

subsection \<open>Rejections\<close>

datatype (plugins only: code size) gameplay_reject =
    ZeroIdentifier string
  | LimitExceeded string usize usize
  | ZeroQuantity
  | StatefulStackQuantity u32
  | DuplicateStateKey string
  | DuplicateRegistration string string
  | UnknownReference string string
  | InvalidPredicate string
  | InvalidRecipe string
  | InvalidItemCategory string string
  | InvalidSchemaBinding block_id string
  | FrozenRoleRejected string
  | RevisionOverflow string
  | StaleWorldRevision u64 u64
  | RetryWindowExpired transaction_id u64
  | RetryPayloadMismatch transaction_id
  | StorageCommitPending transaction_id u64
  | StorageCommitNotPending
  | StorageCommitMismatch string
  | ChunkNotLoaded string int int int
  | InvalidStorageTarget storage_domain storage_domain
  | UnknownPlayer player_id
  | UnknownContainer
  | UnknownDrop drop_entity_id
  | BlockMissing
  | BlockOccupied
  | SlotOutOfRange slot_index usize
  | CreativeModeRequired
  | EmptySlot
  | SlotMismatch
  | StackLimitExceeded item_id u32 u32
  | QuantityOverflow
  | InventoryFull
  | OutputFull
  | NotPlacementItem item_id
  | ToolRequired
  | NotATool item_id
  | ToolClassMismatch tool_class_id tool_class_id
  | ToolTierTooLow u8 u8
  | ToolBroken
  | ToolStateMissing item_id
  | ItemStateMismatch item_id
  | DurabilityOutOfRange item_id u32 u32
  | StaleChunkRevision u64 u64
  | StaleInventoryRevision u64 u64
  | StaleContainerRevision u64 u64
  | RecipeMismatch recipe_id
  | WorkstationRequired workstation_id
  | FuelRejected item_id
  | InsufficientFuel u32 u32
  | ProcessAlreadyScheduled
  | ContinuationOwnerMissing
  | MutationPreconditionFailed string
  | InjectedFault u16

type_synonym 'a outcome = "gameplay_reject + 'a"

subsection \<open>Operations on one stack\<close>

definition plain_stack :: "item_id \<Rightarrow> u32 \<Rightarrow> item_stack outcome" where
  "plain_stack i q =
     and_then (ensure (q \<noteq> 0) ZeroQuantity)
       (\<lambda>_. Inr \<lparr>stack_item = i, stack_quantity = q, stack_state = Plain\<rparr>)"

definition tool_stack :: "item_id \<Rightarrow> u32 \<Rightarrow> item_stack outcome" where
  "tool_stack i durability =
     and_then (ensure (durability \<noteq> 0) ToolBroken)
       (\<lambda>_. Inr \<lparr>stack_item = i, stack_quantity = 1, stack_state = ToolDurability durability\<rparr>)"

definition with_quantity :: "item_stack \<Rightarrow> u32 \<Rightarrow> item_stack option outcome" where
  "with_quantity s q =
     (if q = 0 then Inr None
      else if stack_state s \<noteq> Plain \<and> q \<noteq> 1 then Inl (StatefulStackQuantity q)
      else Inr (Some (s\<lparr>stack_quantity := q\<rparr>)))"

definition tool_after_use :: "item_stack \<Rightarrow> item_stack option outcome" where
  "tool_after_use s =
     (case stack_state s of
        Plain \<Rightarrow> Inl (ToolStateMissing (stack_item s))
      | ToolDurability remaining \<Rightarrow>
          (let next_value = remaining - 1
           in if next_value = 0 then Inr None
              else and_then (tool_stack (stack_item s) next_value) (\<lambda>t. Inr (Some t))))"

text \<open>The values the code's types admit: \<open>NonZeroU32\<close> quantity and durability.\<close>

definition stack_typed :: "item_stack \<Rightarrow> bool" where
  "stack_typed s \<longleftrightarrow> 0 < stack_quantity s \<and> stack_quantity s \<le> u32_max \<and>
     (case stack_state s of Plain \<Rightarrow> True | ToolDurability r \<Rightarrow> 0 < r \<and> r \<le> u32_max)"

text \<open>How many units of an item an optional slot holds.\<close>

definition slot_count :: "item_id \<Rightarrow> item_stack option \<Rightarrow> nat" where
  "slot_count i slot =
     (case slot of None \<Rightarrow> 0 | Some s \<Rightarrow> if stack_item s = i then stack_quantity s else 0)"

lemma slot_count_simps [simp]:
  "slot_count i None = 0"
  "slot_count i (Some s) = (if stack_item s = i then stack_quantity s else 0)"
  by (simp_all add: slot_count_def)

lemma with_quantity_Inr [result_simps]:
  "with_quantity s q = Inr r \<longleftrightarrow>
     (q = 0 \<and> r = None) \<or>
     (q \<noteq> 0 \<and> (stack_state s = Plain \<or> q = 1) \<and> r = Some (s\<lparr>stack_quantity := q\<rparr>))"
  by (auto simp: with_quantity_def)

lemma with_quantity_count:
  "with_quantity s q = Inr r \<Longrightarrow> slot_count i r = (if stack_item s = i then q else 0)"
  by (auto simp: result_simps)

lemma with_quantity_typed:
  "with_quantity s q = Inr (Some t) \<Longrightarrow> stack_typed s \<Longrightarrow> q \<le> u32_max \<Longrightarrow> stack_typed t"
  by (auto simp: result_simps stack_typed_def)

end
