(* ===== verification/Catalog.thy ===== *)
theory Catalog
  imports Scope
begin

section \<open>The compiled gameplay catalog\<close>

text \<open>
  \<open>catalog.rs\<close>: the definition structs, the catalog with its lookups, predicate
  matching, stack validation, output resolution, and the compiler from an unordered
  source. \<open>BTreeSet\<close> is a map to \<^typ>\<open>unit\<close>. A category's display name is a list of
  Unicode scalar values, because \<open>str::trim\<close> depends on them; all other texts are
  stable identifiers.
\<close>

subsection \<open>Definitions of items, blocks, tools, recipes and processes\<close>

record catalog_limits =
  cl_items :: usize
  cl_blocks :: usize
  cl_tools :: usize
  cl_tags :: usize
  cl_tag_members :: usize
  cl_categories :: usize
  cl_category_members :: usize
  cl_roles :: usize
  cl_recipes :: usize
  cl_workstations :: usize
  cl_processes :: usize
  cl_fuel_rules :: usize
  cl_block_schema_bindings :: usize
  cl_predicate_nodes :: usize
  cl_predicate_depth :: usize
  cl_shapeless_ingredients :: usize
  cl_shaped_cells :: usize

definition default_catalog_limits :: catalog_limits where
  "default_catalog_limits =
     \<lparr>cl_items = 4096, cl_blocks = 4096, cl_tools = 512, cl_tags = 1024,
      cl_tag_members = 65536, cl_categories = 256, cl_category_members = 8192,
      cl_roles = 1024, cl_recipes = 2048, cl_workstations = 128, cl_processes = 1024,
      cl_fuel_rules = 512, cl_block_schema_bindings = 128, cl_predicate_nodes = 256,
      cl_predicate_depth = 32, cl_shapeless_ingredients = 16, cl_shaped_cells = 25\<rparr>"

record item_definition =
  idef_id :: item_id
  idef_stack_limit :: u32
  idef_placement_block :: "block_id option"
  idef_durability :: "u32 option"

record tool_requirement =
  treq_class :: tool_class_id
  treq_minimum_tier :: u8

record mining_rule =
  mr_hardness :: u32
  mr_tool :: "tool_requirement option"

record block_definition =
  bdef_id :: block_id
  bdef_mining :: mining_rule
  bdef_drop :: item_stack

record tool_definition =
  tdef_item :: item_id
  tdef_class :: tool_class_id
  tdef_tier :: u8
  tdef_work_per_step :: u32
  tdef_maximum_durability :: u32

record item_tag_definition =
  tagdef_id :: item_tag_id
  tagdef_members :: "item_id list"

record item_category_definition =
  catdef_id :: item_category_id
  catdef_display_name :: "nat list"
  catdef_icon :: item_id
  catdef_sort_order :: u16
  catdef_members :: "item_id list"

datatype item_predicate =
    Exact item_id
  | InTag item_tag_id
  | AllOf "item_predicate list"
  | AnyOf "item_predicate list"
  | NotOf item_predicate

record item_role_definition =
  roledef_id :: item_role_id
  roledef_accepts :: item_predicate

record frozen_role_binding =
  frb_role :: item_role_id
  frb_item :: item_id

record ingredient =
  ing_accepts :: item_predicate
  ing_quantity :: u32

record role_output =
  out_role :: item_role_id
  out_quantity :: u32

datatype recipe_pattern =
    Shapeless "ingredient list"
  | Shaped u8 u8 "ingredient option list"

record recipe_definition =
  rdef_id :: recipe_id
  rdef_workstation :: "workstation_id option"
  rdef_pattern :: recipe_pattern
  rdef_output :: role_output

record block_schema_binding =
  bsb_block :: block_id
  bsb_schemas :: "schema_id list"
  bsb_workstation :: "workstation_id option"
  bsb_container_slots :: "u16 option"

record fuel_rule =
  fuel_accepts :: item_predicate
  fuel_burn_ticks :: u32

record process_definition =
  pdef_id :: process_id
  pdef_workstation :: workstation_id
  pdef_input :: ingredient
  pdef_output :: role_output
  pdef_duration_ticks :: u32

record catalog_source =
  src_items :: "item_definition list"
  src_blocks :: "block_definition list"
  src_tools :: "tool_definition list"
  src_tags :: "item_tag_definition list"
  src_categories :: "item_category_definition list"
  src_roles :: "item_role_definition list"
  src_bindings :: "frozen_role_binding list"
  src_recipes :: "recipe_definition list"
  src_workstations :: "workstation_id list"
  src_processes :: "process_definition list"
  src_fuel_rules :: "fuel_rule list"
  src_block_schema_bindings :: "block_schema_binding list"

record catalog =
  cat_items :: "(item_id, item_definition) btree"
  cat_blocks :: "(block_id, block_definition) btree"
  cat_tools :: "(item_id, tool_definition) btree"
  cat_tags :: "(item_tag_id, (item_id, unit) btree) btree"
  cat_categories :: "(item_category_id, item_category_definition) btree"
  cat_category_by_item :: "(item_id, item_category_id) btree"
  cat_roles :: "(item_role_id, item_role_definition) btree"
  cat_bindings :: "(item_role_id, item_id) btree"
  cat_recipes :: "(recipe_id, recipe_definition) btree"
  cat_workstations :: "(workstation_id, unit) btree"
  cat_processes :: "(process_id, process_definition) btree"
  cat_fuel_rules :: "fuel_rule list"
  cat_block_schema_bindings :: "(block_id, block_schema_binding) btree"
  cat_limits :: catalog_limits

subsection \<open>Lookups, predicates and stacks\<close>

definition catalog_item :: "catalog \<Rightarrow> item_id \<Rightarrow> item_definition option" where
  "catalog_item cat i = bt_get (cat_items cat) i"

definition catalog_block :: "catalog \<Rightarrow> block_id \<Rightarrow> block_definition option" where
  "catalog_block cat b = bt_get (cat_blocks cat) b"

definition catalog_tool :: "catalog \<Rightarrow> item_id \<Rightarrow> tool_definition option" where
  "catalog_tool cat i = bt_get (cat_tools cat) i"

definition catalog_recipe :: "catalog \<Rightarrow> recipe_id \<Rightarrow> recipe_definition option" where
  "catalog_recipe cat r = bt_get (cat_recipes cat) r"

definition catalog_process :: "catalog \<Rightarrow> process_id \<Rightarrow> process_definition option" where
  "catalog_process cat p = bt_get (cat_processes cat) p"

definition tags_for_item :: "catalog \<Rightarrow> item_id \<Rightarrow> item_tag_id list" where
  "tags_for_item cat i =
     map fst (filter (\<lambda>(tag, members). bt_contains members i) (entries (cat_tags cat)))"

fun predicate_matches :: "catalog \<Rightarrow> item_predicate \<Rightarrow> item_id \<Rightarrow> bool" where
  "predicate_matches cat (Exact expected) i \<longleftrightarrow> expected = i"
| "predicate_matches cat (InTag tag) i \<longleftrightarrow>
     (case bt_get (cat_tags cat) tag of None \<Rightarrow> False | Some members \<Rightarrow> bt_contains members i)"
| "predicate_matches cat (AllOf children) i \<longleftrightarrow>
     list_all (\<lambda>child. predicate_matches cat child i) children"
| "predicate_matches cat (AnyOf children) i \<longleftrightarrow>
     list_ex (\<lambda>child. predicate_matches cat child i) children"
| "predicate_matches cat (NotOf child) i \<longleftrightarrow> \<not> predicate_matches cat child i"

definition validate_stack :: "catalog \<Rightarrow> item_stack \<Rightarrow> unit outcome" where
  "validate_stack cat s =
     and_then (ok_or (bt_get (cat_items cat) (stack_item s))
         (UnknownReference ''item'' (stack_item s))) (\<lambda>d.
     if idef_stack_limit d < stack_quantity s
     then Inl (StackLimitExceeded (stack_item s) (stack_quantity s) (idef_stack_limit d))
     else (case (idef_durability d, stack_state s) of
         (None, Plain) \<Rightarrow> Inr ()
       | (Some maximum, ToolDurability remaining) \<Rightarrow>
           if stack_quantity s = 1 \<and> remaining \<le> maximum then Inr ()
           else if maximum < remaining
             then Inl (DurabilityOutOfRange (stack_item s) remaining maximum)
           else Inl (ItemStateMismatch (stack_item s))
       | _ \<Rightarrow> Inl (ItemStateMismatch (stack_item s))))"

definition resolve_output :: "catalog \<Rightarrow> role_output \<Rightarrow> item_stack outcome" where
  "resolve_output cat out =
     and_then (ok_or (bt_get (cat_bindings cat) (out_role out))
         (FrozenRoleRejected (out_role out))) (\<lambda>i.
     and_then (ok_or (bt_get (cat_items cat) i) (UnknownReference ''item'' i)) (\<lambda>d.
     and_then (case idef_durability d of
         Some durability \<Rightarrow>
           if out_quantity out = 1 then tool_stack i durability
           else Inl (StatefulStackQuantity (out_quantity out))
       | None \<Rightarrow> plain_stack i (out_quantity out)) (\<lambda>s.
     and_then (validate_stack cat s) (\<lambda>_. Inr s))))"

text \<open>\<open>Iterator::max\<close>: \<open>None\<close> on no element.\<close>

fun iter_max :: "nat list \<Rightarrow> nat option" where
  "iter_max [] = None"
| "iter_max (x # xs) = (case iter_max xs of None \<Rightarrow> Some x | Some y \<Rightarrow> Some (max x y))"

definition best_fuel_ticks :: "catalog \<Rightarrow> item_id \<Rightarrow> u32 option" where
  "best_fuel_ticks cat i =
     iter_max (map fuel_burn_ticks
       (filter (\<lambda>rule. predicate_matches cat (fuel_accepts rule) i) (cat_fuel_rules cat)))"

definition container_schema :: schema_id where
  "container_schema = ''latticeaxiom:schema/container@1''"
definition container_owner_schema :: schema_id where
  "container_owner_schema = ''latticeaxiom:schema/container-owner@1''"
definition item_stack_schema :: schema_id where
  "item_stack_schema = ''latticeaxiom:schema/item-stack@1''"
definition inventory_schema :: schema_id where
  "inventory_schema = ''latticeaxiom:schema/inventory@1''"
definition furnace_schema :: schema_id where
  "furnace_schema = ''latticeaxiom:schema/furnace-continuation@1''"
definition staged_edit_schema :: schema_id where
  "staged_edit_schema = ''latticeaxiom:schema/gameplay-staged-edit@1''"

definition is_reserved_gameplay_schema :: "schema_id \<Rightarrow> bool" where
  "is_reserved_gameplay_schema s \<longleftrightarrow>
     s \<in> {item_stack_schema, inventory_schema, container_owner_schema, container_schema,
           furnace_schema, staged_edit_schema}"

definition workstation_container_slots :: "catalog \<Rightarrow> workstation_id \<Rightarrow> usize option" where
  "workstation_container_slots cat w =
     (case List.map_filter bsb_container_slots
         (filter (\<lambda>b. bsb_workstation b = Some w)
           (bt_values (cat_block_schema_bindings cat))) of
        [] \<Rightarrow> None
      | n # _ \<Rightarrow> Some n)"

subsection \<open>Predicate validation: an explicit work list\<close>

definition ensure_limit :: "string \<Rightarrow> usize \<Rightarrow> usize \<Rightarrow> unit outcome" where
  "ensure_limit resource actual limit =
     (if limit < actual then Inl (LimitExceeded resource limit actual) else Inr ())"

definition require_key ::
    "(string, 'v) btree \<Rightarrow> string \<Rightarrow> string \<Rightarrow> 'v outcome" where
  "require_key m key kind = ok_or (bt_get m key) (UnknownReference kind key)"

text \<open>Number of nodes and nesting depth of a predicate, for the termination argument and
  the specification of the work list.\<close>

fun predicate_nodes :: "item_predicate \<Rightarrow> nat" where
  "predicate_nodes (Exact _) = 1"
| "predicate_nodes (InTag _) = 1"
| "predicate_nodes (AllOf cs) = Suc (sum_list (map predicate_nodes cs))"
| "predicate_nodes (AnyOf cs) = Suc (sum_list (map predicate_nodes cs))"
| "predicate_nodes (NotOf c) = Suc (predicate_nodes c)"

text \<open>
  The loop of \<open>validate_predicate\<close>: the head of the list is the top of the code's
  stack; children are pushed in reverse, so the first child is popped first.
\<close>

function validate_predicate_loop ::
    "catalog \<Rightarrow> catalog_limits \<Rightarrow> (item_predicate \<times> nat) list \<Rightarrow> nat \<Rightarrow> unit outcome" where
  "validate_predicate_loop cat lim [] nodes = Inr ()"
| "validate_predicate_loop cat lim ((current, depth) # stack) nodes =
     and_then (ok_or (checked_add usize_max nodes 1)
         (InvalidPredicate ''predicate node count overflow'')) (\<lambda>nodes'.
     and_then (ensure_limit ''predicate_nodes'' nodes' (cl_predicate_nodes lim)) (\<lambda>_.
     and_then (ensure_limit ''predicate_depth'' depth (cl_predicate_depth lim)) (\<lambda>_.
     (case current of
        Exact i \<Rightarrow>
          and_then (require_key (cat_items cat) i ''item'')
            (\<lambda>_. validate_predicate_loop cat lim stack nodes')
      | InTag tag \<Rightarrow>
          and_then (require_key (cat_tags cat) tag ''item_tag'')
            (\<lambda>_. validate_predicate_loop cat lim stack nodes')
      | AllOf children \<Rightarrow>
          if children = []
          then Inl (InvalidPredicate ''All and Any predicates require at least one child'')
          else and_then (ok_or (checked_add usize_max depth 1)
              (InvalidPredicate ''predicate depth overflow''))
            (\<lambda>d. validate_predicate_loop cat lim (map (\<lambda>c. (c, d)) children @ stack) nodes')
      | AnyOf children \<Rightarrow>
          if children = []
          then Inl (InvalidPredicate ''All and Any predicates require at least one child'')
          else and_then (ok_or (checked_add usize_max depth 1)
              (InvalidPredicate ''predicate depth overflow''))
            (\<lambda>d. validate_predicate_loop cat lim (map (\<lambda>c. (c, d)) children @ stack) nodes')
      | NotOf child \<Rightarrow>
          and_then (ok_or (checked_add usize_max depth 1)
              (InvalidPredicate ''predicate depth overflow''))
            (\<lambda>d. validate_predicate_loop cat lim ((child, d) # stack) nodes')))))"
  by pat_completeness auto

lemma predicate_nodes_pos: "0 < predicate_nodes p"
  by (cases p) auto

termination validate_predicate_loop
  by (relation "measure (\<lambda>(cat, lim, stack, nodes). sum_list (map (predicate_nodes \<circ> fst) stack))")
    (auto simp: predicate_nodes_pos comp_def)

definition validate_predicate :: "item_predicate \<Rightarrow> catalog \<Rightarrow> catalog_limits \<Rightarrow> unit outcome" where
  "validate_predicate p cat lim = validate_predicate_loop cat lim [(p, 1)] 0"

definition validate_recipe :: "recipe_definition \<Rightarrow> catalog \<Rightarrow> catalog_limits \<Rightarrow> unit outcome" where
  "validate_recipe recipe cat lim =
     (case rdef_pattern recipe of
        Shapeless ingredients \<Rightarrow>
          if ingredients = []
          then Inl (InvalidRecipe ''shapeless recipe requires at least one ingredient'')
          else and_then (ensure_limit ''shapeless_ingredients'' (length ingredients)
              (cl_shapeless_ingredients lim))
            (\<lambda>_. try_each (\<lambda>g. validate_predicate (ing_accepts g) cat lim) ingredients)
      | Shaped width height cells \<Rightarrow>
          and_then (ok_or (checked_mul usize_max width height)
              (InvalidRecipe ''shaped recipe dimensions overflow'')) (\<lambda>expected.
          if length cells \<noteq> expected
          then Inl (InvalidRecipe ''shaped recipe cell count does not match width times height'')
          else and_then (ensure_limit ''shaped_cells'' (length cells) (cl_shaped_cells lim)) (\<lambda>_.
            if list_all (\<lambda>c. c = None) cells
            then Inl (InvalidRecipe ''shaped recipe cannot be entirely empty'')
            else try_each (\<lambda>g. validate_predicate (ing_accepts g) cat lim)
              (List.map_filter id cells))))"

end
