(* ===== verification/Catalog_Compile.thy ===== *)
theory Catalog_Compile
  imports Catalog
begin

section \<open>Compiling a catalog\<close>

text \<open>
  \<open>GameplayCatalog::compile\<close>: the limits are validated, the source is preflighted
  against them, every list of definitions is collected into an ordered map (a repeated
  identity is an error) and the references between the maps are validated. Sets under
  construction are ordered maps to \<^typ>\<open>unit\<close>.
\<close>

subsection \<open>Limits and preflight\<close>

definition validate_catalog_limits :: "catalog_limits \<Rightarrow> catalog_limits outcome" where
  "validate_catalog_limits lim =
     and_then (try_each (\<lambda>(resource, value).
         if value = 0 then Inl (LimitExceeded resource 1 0) else Inr ())
       [(''catalog_items'', cl_items lim),
        (''catalog_blocks'', cl_blocks lim),
        (''catalog_tools'', cl_tools lim),
        (''catalog_tags'', cl_tags lim),
        (''catalog_tag_members'', cl_tag_members lim),
        (''catalog_categories'', cl_categories lim),
        (''catalog_category_members'', cl_category_members lim),
        (''catalog_roles'', cl_roles lim),
        (''catalog_recipes'', cl_recipes lim),
        (''catalog_workstations'', cl_workstations lim),
        (''catalog_processes'', cl_processes lim),
        (''catalog_fuel_rules'', cl_fuel_rules lim),
        (''catalog_block_schema_bindings'', cl_block_schema_bindings lim),
        (''predicate_nodes'', cl_predicate_nodes lim),
        (''predicate_depth'', cl_predicate_depth lim),
        (''shapeless_ingredients'', cl_shapeless_ingredients lim),
        (''shaped_cells'', cl_shaped_cells lim)])
     (\<lambda>_. Inr lim)"

text \<open>The fallible sum of the member counts; on overflow the reported count is \<open>usize::MAX\<close>.\<close>

definition sum_members :: "string \<Rightarrow> usize \<Rightarrow> nat list \<Rightarrow> usize outcome" where
  "sum_members resource limit counts =
     try_fold (\<lambda>n total. ok_or (checked_add usize_max total n)
         (LimitExceeded resource limit usize_max)) counts 0"

definition preflight_source :: "catalog_source \<Rightarrow> catalog_limits \<Rightarrow> unit outcome" where
  "preflight_source source lim =
     and_then (try_each (\<lambda>(resource, actual, limit). ensure_limit resource actual limit)
       [(''catalog_items'', length (src_items source), cl_items lim),
        (''catalog_blocks'', length (src_blocks source), cl_blocks lim),
        (''catalog_tools'', length (src_tools source), cl_tools lim),
        (''catalog_tags'', length (src_tags source), cl_tags lim),
        (''catalog_categories'', length (src_categories source), cl_categories lim),
        (''catalog_roles'', length (src_roles source), cl_roles lim),
        (''catalog_bindings'', length (src_bindings source), cl_roles lim),
        (''catalog_recipes'', length (src_recipes source), cl_recipes lim),
        (''catalog_workstations'', length (src_workstations source), cl_workstations lim),
        (''catalog_processes'', length (src_processes source), cl_processes lim),
        (''catalog_fuel_rules'', length (src_fuel_rules source), cl_fuel_rules lim),
        (''catalog_block_schema_bindings'', length (src_block_schema_bindings source),
           cl_block_schema_bindings lim)]) (\<lambda>_.
     and_then (sum_members ''catalog_tag_members'' (cl_tag_members lim)
         (map (length \<circ> tagdef_members) (src_tags source))) (\<lambda>tag_members.
     and_then (ensure_limit ''catalog_tag_members'' tag_members (cl_tag_members lim)) (\<lambda>_.
     and_then (sum_members ''catalog_category_members'' (cl_category_members lim)
         (map (length \<circ> catdef_members) (src_categories source))) (\<lambda>category_members.
     and_then (ensure_limit ''catalog_category_members'' category_members
         (cl_category_members lim)) (\<lambda>_.
     try_each (\<lambda>recipe. case rdef_pattern recipe of
         Shapeless ingredients \<Rightarrow> ensure_limit ''shapeless_ingredients'' (length ingredients)
           (cl_shapeless_ingredients lim)
       | Shaped _ _ cells \<Rightarrow> ensure_limit ''shaped_cells'' (length cells) (cl_shaped_cells lim))
       (src_recipes source))))))"

subsection \<open>Collecting the definitions\<close>

text \<open>\<open>collect_unique\<close>: the check is on the value that \<open>BTreeMap::insert\<close> returns.\<close>

definition collect_unique ::
    "string \<Rightarrow> ('v \<Rightarrow> string) \<Rightarrow> 'v list \<Rightarrow> (string, 'v) btree outcome" where
  "collect_unique kind key values =
     try_fold (\<lambda>v result.
       if bt_contains result (key v) then Inl (DuplicateRegistration kind (key v))
       else Inr (bt_insert (key v) v result)) values bt_empty"

definition collect_bindings ::
    "frozen_role_binding list \<Rightarrow> (item_role_id, item_id) btree outcome" where
  "collect_bindings values =
     try_fold (\<lambda>v result.
       if bt_contains result (frb_role v)
       then Inl (DuplicateRegistration ''item_role_binding'' (frb_role v))
       else Inr (bt_insert (frb_role v) (frb_item v) result)) values bt_empty"

definition collect_workstations ::
    "workstation_id list \<Rightarrow> (workstation_id, unit) btree outcome" where
  "collect_workstations values =
     try_fold (\<lambda>v result.
       if bt_contains result v then Inl (DuplicateRegistration ''workstation'' v)
       else Inr (bt_insert v () result)) values bt_empty"

definition unique_sorted_schemas ::
    "block_id \<Rightarrow> schema_id list \<Rightarrow> schema_id list outcome" where
  "unique_sorted_schemas block schemas =
     and_then (try_fold (\<lambda>schema unique.
         if bt_contains unique schema
         then Inl (DuplicateRegistration ''block_schema'' (block @ '' -> '' @ schema))
         else Inr (bt_insert schema () unique)) schemas bt_empty)
       (\<lambda>unique. Inr (bt_keys unique))"

text \<open>
  The loop of \<open>collect_block_schema_bindings\<close> carries the workstation set it extends,
  the owner of each workstation and the result.
\<close>

definition collect_block_schema_bindings ::
    "block_schema_binding list \<Rightarrow> (workstation_id, unit) btree \<Rightarrow>
     ((block_id, block_schema_binding) btree \<times> (workstation_id, unit) btree) outcome" where
  "collect_block_schema_bindings values workstations0 =
     and_then (try_fold (\<lambda>value (result, workstations, owners).
       and_then (unique_sorted_schemas (bsb_block value) (bsb_schemas value)) (\<lambda>schemas.
       let value' = value\<lparr>bsb_schemas := schemas\<rparr> in
       and_then (case bsb_workstation value' of
           None \<Rightarrow> Inr (workstations, owners)
         | Some w \<Rightarrow>
             (case bt_get owners w of
                Some existing \<Rightarrow>
                  Inl (DuplicateRegistration ''workstation_block_binding''
                    (w @ '' -> '' @ existing @ '' and '' @ bsb_block value'))
              | None \<Rightarrow>
                  Inr (bt_insert w () workstations, bt_insert w (bsb_block value') owners)))
         (\<lambda>(workstations', owners').
       if bt_contains result (bsb_block value')
       then Inl (DuplicateRegistration ''block_schema_binding'' (bsb_block value'))
       else Inr (bt_insert (bsb_block value') value' result, workstations', owners'))))
       values (bt_empty, workstations0, bt_empty))
     (\<lambda>(result, workstations, owners). Inr (result, workstations))"

definition bt_set_of :: "'k::linorder list \<Rightarrow> ('k, unit) btree" where
  "bt_set_of ks = fold (\<lambda>k. bt_insert k ()) ks bt_empty"

definition collect_tags ::
    "item_tag_definition list \<Rightarrow> (item_tag_id, (item_id, unit) btree) btree outcome" where
  "collect_tags values =
     try_fold (\<lambda>v result.
       if bt_contains result (tagdef_id v)
       then Inl (DuplicateRegistration ''item_tag'' (tagdef_id v))
       else Inr (bt_insert (tagdef_id v) (bt_set_of (tagdef_members v)) result))
       values bt_empty"

definition collect_category_members ::
    "item_category_id \<Rightarrow> item_id list \<Rightarrow> (item_id, item_category_id) btree \<Rightarrow>
     ((item_id, unit) btree \<times> (item_id, item_category_id) btree) outcome" where
  "collect_category_members category ms by_item0 =
     try_fold (\<lambda>m (members, by_item).
       if bt_contains members m
       then Inl (DuplicateRegistration ''item_category_member'' (category @ '' -> '' @ m))
       else (case bt_get by_item m of
           Some previous \<Rightarrow>
             Inl (DuplicateRegistration ''item_primary_category''
               (m @ '' -> '' @ previous @ '' and '' @ category))
         | None \<Rightarrow> Inr (bt_insert m () members, bt_insert m category by_item)))
       ms (bt_empty, by_item0)"

definition collect_categories ::
    "item_category_definition list \<Rightarrow>
     ((item_category_id, item_category_definition) btree \<times> (item_id, item_category_id) btree)
       outcome" where
  "collect_categories values =
     try_fold (\<lambda>v (categories, by_item).
       and_then (collect_category_members (catdef_id v) (catdef_members v) by_item)
         (\<lambda>(members, by_item').
       let v' = v\<lparr>catdef_members := bt_keys members\<rparr> in
       if bt_contains categories (catdef_id v')
       then Inl (DuplicateRegistration ''item_category'' (catdef_id v'))
       else Inr (bt_insert (catdef_id v') v' categories, by_item')))
       values (bt_empty, bt_empty)"

subsection \<open>Reference validation\<close>

text \<open>\<open>char::is_whitespace\<close>: the Unicode property \<open>White_Space\<close>.\<close>

definition is_whitespace :: "nat \<Rightarrow> bool" where
  "is_whitespace c \<longleftrightarrow>
     (9 \<le> c \<and> c \<le> 13) \<or> c = 32 \<or> c = 133 \<or> c = 160 \<or> c = 5760 \<or>
     (8192 \<le> c \<and> c \<le> 8202) \<or> c = 8232 \<or> c = 8233 \<or> c = 8239 \<or> c = 8287 \<or> c = 12288"

definition validate_item_references :: "catalog \<Rightarrow> unit outcome" where
  "validate_item_references cat =
     try_each (\<lambda>d.
       and_then (case idef_placement_block d of
           None \<Rightarrow> Inr ()
         | Some b \<Rightarrow> and_then (require_key (cat_blocks cat) b ''block'') (\<lambda>_. Inr ())) (\<lambda>_.
       if idef_durability d \<noteq> None \<and> idef_stack_limit d \<noteq> 1
       then Inl (InvalidRecipe ''durable items must have stack limit one'')
       else Inr ())) (bt_values (cat_items cat))"

definition validate_block_references :: "catalog \<Rightarrow> unit outcome" where
  "validate_block_references cat =
     try_each (\<lambda>b.
       and_then (validate_stack cat (bdef_drop b)) (\<lambda>_.
       case mr_tool (bdef_mining b) of
         Some requirement \<Rightarrow>
           if treq_class requirement = []
           then Inl (InvalidRecipe ''tool class cannot be empty'') else Inr ()
       | None \<Rightarrow> Inr ())) (bt_values (cat_blocks cat))"

definition validate_tool_references :: "catalog \<Rightarrow> unit outcome" where
  "validate_tool_references cat =
     try_each (\<lambda>t.
       and_then (require_key (cat_items cat) (tdef_item t) ''item'') (\<lambda>d.
       if idef_stack_limit d \<noteq> 1 \<or> idef_durability d \<noteq> Some (tdef_maximum_durability t)
       then Inl (InvalidRecipe ''tool definition must match singleton item durability'')
       else Inr ())) (bt_values (cat_tools cat))"

definition validate_tag_references :: "catalog \<Rightarrow> unit outcome" where
  "validate_tag_references cat =
     try_each (\<lambda>(tag, members).
       try_each (\<lambda>m. if bt_contains (cat_items cat) m then Inr ()
           else Inl (UnknownReference ''item_tag_member'' (tag @ '' -> '' @ m)))
         (bt_keys members)) (entries (cat_tags cat))"

definition validate_category_references :: "catalog \<Rightarrow> unit outcome" where
  "validate_category_references cat =
     try_each (\<lambda>c.
       if list_all is_whitespace (catdef_display_name c)
       then Inl (InvalidItemCategory (catdef_id c) ''display name cannot be empty'')
       else and_then (require_key (cat_items cat) (catdef_icon c) ''item_category_icon'')
         (\<lambda>_. try_each (\<lambda>m. and_then (require_key (cat_items cat) m ''item_category_member'')
             (\<lambda>_. Inr ())) (catdef_members c)))
       (bt_values (cat_categories cat))"

definition validate_role_references :: "catalog \<Rightarrow> unit outcome" where
  "validate_role_references cat =
     and_then (try_each (\<lambda>role.
       and_then (validate_predicate (roledef_accepts role) cat (cat_limits cat)) (\<lambda>_.
       and_then (ok_or (bt_get (cat_bindings cat) (roledef_id role))
           (FrozenRoleRejected (roledef_id role))) (\<lambda>binding.
       if \<not> bt_contains (cat_items cat) binding
          \<or> \<not> predicate_matches cat (roledef_accepts role) binding
       then Inl (FrozenRoleRejected (roledef_id role)) else Inr ())))
       (bt_values (cat_roles cat)))
     (\<lambda>_. try_each (\<lambda>role. and_then (require_key (cat_roles cat) role ''item_role'') (\<lambda>_. Inr ()))
       (bt_keys (cat_bindings cat)))"

definition validate_recipe_references :: "catalog \<Rightarrow> unit outcome" where
  "validate_recipe_references cat =
     try_each (\<lambda>recipe.
       and_then (validate_recipe recipe cat (cat_limits cat)) (\<lambda>_.
       and_then (resolve_output cat (rdef_output recipe)) (\<lambda>_.
       case rdef_workstation recipe of
         Some w \<Rightarrow> if bt_contains (cat_workstations cat) w then Inr ()
           else Inl (UnknownReference ''workstation'' w)
       | None \<Rightarrow> Inr ()))) (bt_values (cat_recipes cat))"

definition validate_process_references :: "catalog \<Rightarrow> unit outcome" where
  "validate_process_references cat =
     try_each (\<lambda>p.
       if \<not> bt_contains (cat_workstations cat) (pdef_workstation p)
       then Inl (UnknownReference ''workstation'' (pdef_workstation p))
       else and_then (validate_predicate (ing_accepts (pdef_input p)) cat (cat_limits cat)) (\<lambda>_.
         and_then (resolve_output cat (pdef_output p)) (\<lambda>_. Inr ())))
       (bt_values (cat_processes cat))"

definition check_schemas :: "schema_id list \<Rightarrow> unit outcome" where
  "check_schemas schemas =
     try_each (\<lambda>s. if is_reserved_gameplay_schema s then Inr ()
         else Inl (UnknownReference ''gameplay_schema'' s)) schemas"

definition validate_block_schema_binding :: "block_schema_binding \<Rightarrow> catalog \<Rightarrow> unit outcome" where
  "validate_block_schema_binding binding cat =
     (let block = bsb_block binding;
          has = (\<lambda>s. s \<in> set (bsb_schemas binding));
          container = has container_schema;
          container_owner = has container_owner_schema;
          furnace = has furnace_schema;
          placement = has item_stack_schema \<or> has staged_edit_schema;
          invalid = (\<lambda>reason. Inl (InvalidSchemaBinding block reason)) in
      and_then (require_key (cat_blocks cat) block ''block'') (\<lambda>_.
      if bsb_schemas binding = []
      then invalid ''at least one reserved gameplay schema is required''
      else and_then (check_schemas (bsb_schemas binding)) (\<lambda>_.
      if container_owner \<and> \<not> container
      then invalid ''container-owner requires the container schema''
      else and_then (case (container, bsb_container_slots binding) of
          (True, Some slots) \<Rightarrow>
            if slots \<le> 256 then Inr () else Inl (LimitExceeded ''container_slots'' 256 slots)
        | (True, None) \<Rightarrow> invalid ''container schema requires a non-zero slot count''
        | (False, Some _) \<Rightarrow> invalid ''container slots require the container schema''
        | (False, None) \<Rightarrow> Inr ()) (\<lambda>_.
      and_then (case bsb_workstation binding of
          Some w \<Rightarrow>
            if \<not> container then invalid ''workstation bindings require the container schema''
            else if \<not> bt_contains (cat_workstations cat) w
            then Inl (UnknownReference ''workstation'' w) else Inr ()
        | None \<Rightarrow> Inr ()) (\<lambda>_.
      if furnace \<and> \<not> (container \<and> bsb_workstation binding \<noteq> None)
      then invalid ''furnace-continuation requires a container workstation''
      else if placement \<and>
        \<not> list_ex (\<lambda>d. idef_placement_block d = Some block) (bt_values (cat_items cat))
      then invalid ''placement schemas require a catalog item that places the block''
      else Inr ())))))"

definition validate_references :: "catalog \<Rightarrow> unit outcome" where
  "validate_references cat =
     and_then (validate_item_references cat) (\<lambda>_.
     and_then (validate_block_references cat) (\<lambda>_.
     and_then (validate_tool_references cat) (\<lambda>_.
     and_then (validate_tag_references cat) (\<lambda>_.
     and_then (validate_category_references cat) (\<lambda>_.
     and_then (validate_role_references cat) (\<lambda>_.
     and_then (validate_recipe_references cat) (\<lambda>_.
     and_then (try_each (\<lambda>rule. validate_predicate (fuel_accepts rule) cat (cat_limits cat))
         (cat_fuel_rules cat)) (\<lambda>_.
     and_then (validate_process_references cat) (\<lambda>_.
     try_each (\<lambda>b. validate_block_schema_binding b cat)
       (bt_values (cat_block_schema_bindings cat)))))))))))"

subsection \<open>The compiler\<close>

definition compile :: "catalog_source \<Rightarrow> catalog_limits \<Rightarrow> catalog outcome" where
  "compile source limits0 =
     and_then (validate_catalog_limits limits0) (\<lambda>limits.
     and_then (preflight_source source limits) (\<lambda>_.
     and_then (collect_unique ''item'' idef_id (src_items source)) (\<lambda>items.
     and_then (collect_unique ''block'' bdef_id (src_blocks source)) (\<lambda>blocks.
     and_then (collect_unique ''tool'' tdef_item (src_tools source)) (\<lambda>tools.
     and_then (collect_unique ''item_role'' roledef_id (src_roles source)) (\<lambda>roles.
     and_then (collect_bindings (src_bindings source)) (\<lambda>bindings.
     and_then (collect_unique ''recipe'' rdef_id (src_recipes source)) (\<lambda>recipes.
     and_then (collect_unique ''process'' pdef_id (src_processes source)) (\<lambda>processes.
     and_then (collect_workstations (src_workstations source)) (\<lambda>workstations0.
     and_then (collect_block_schema_bindings (src_block_schema_bindings source) workstations0)
       (\<lambda>(block_schema_bindings, workstations).
     and_then (collect_tags (src_tags source)) (\<lambda>tags.
     and_then (collect_categories (src_categories source)) (\<lambda>(categories, category_by_item).
     let cat = \<lparr>cat_items = items, cat_blocks = blocks, cat_tools = tools, cat_tags = tags,
       cat_categories = categories, cat_category_by_item = category_by_item,
       cat_roles = roles, cat_bindings = bindings, cat_recipes = recipes,
       cat_workstations = workstations, cat_processes = processes,
       cat_fuel_rules = src_fuel_rules source,
       cat_block_schema_bindings = block_schema_bindings, cat_limits = limits\<rparr> in
     and_then (validate_references cat) (\<lambda>_. Inr cat))))))))))))))"

end
