(* ===== verification/Model.thy ===== *)
theory Model
  imports Catalog
begin

section \<open>Commands, staged edits and the loaded state\<close>

text \<open>
  The data of \<open>model.rs\<close>: the components of the loaded gameplay state, the command
  envelope, the staged edits of a plan with their storage targets, outcomes, plans and
  receipts, and the aggregate \<open>ReferenceGameplayState\<close>. Digests are byte strings;
  SHA-256 itself is a parameter of the functions that use it.
\<close>

type_synonym byte = "8 word"
type_synonym digest = "byte list"

subsection \<open>Components of the state\<close>

type_synonym slots = "item_stack option list"

record inventory_state =
  inv_target :: edit_target
  inv_revision :: u64
  inv_hotbar_slots :: u16
  inv_selected_hotbar :: u16
  inv_slots :: slots

record container_owner =
  co_dimension :: dimension_id
  co_chunk :: chunk_coordinate
  co_entity :: persistent_entity_id

definition owner_chunk_key :: "container_owner \<Rightarrow> dimension_chunk_key" where
  "owner_chunk_key co = DimensionChunkKey (co_dimension co) (co_chunk co)"

record container_state =
  con_owner :: container_owner
  con_workstation :: "workstation_id option"
  con_revision :: u64
  con_slots :: slots

record dropped_item =
  drop_location :: block_key
  drop_stack :: item_stack

record break_progress =
  bp_block :: block_id
  bp_accumulated_work :: u32

datatype break_progress_key =
  BreakProgressKey (bpk_player: player_id) (bpk_block: block_key)

instantiation break_progress_key :: linorder
begin

definition less_eq_break_progress_key where
  "a \<le> b \<longleftrightarrow> (bpk_player a, bpk_block a) \<le> (bpk_player b, bpk_block b)"

definition less_break_progress_key where
  "a < b \<longleftrightarrow> (bpk_player a, bpk_block a) < (bpk_player b, bpk_block b)"

instance
  by standard
    (auto simp: less_eq_break_progress_key_def less_break_progress_key_def
      break_progress_key.expand)

end

record furnace_continuation =
  fc_process :: process_id
  fc_container :: container_id
  fc_target :: edit_target
  fc_output_slot :: slot_index
  fc_pending_output :: item_stack
  fc_due_tick :: authority_tick
  fc_revision :: u64

subsection \<open>Commands\<close>

record mine_command =
  mine_player :: player_id
  mine_target :: block_key
  mine_expected_chunk_revision :: chunk_revision
  mine_tool_slot :: "slot_index option"
  mine_reserved_drop :: drop_entity_id
  mine_steps :: u16

record drop_item_command =
  dropc_player :: player_id
  dropc_slot :: slot_index
  dropc_quantity :: u32
  dropc_location :: block_key
  dropc_reserved_drop :: drop_entity_id

record pickup_command =
  pick_player :: player_id
  pick_drop :: drop_entity_id

record place_command =
  place_player :: player_id
  place_slot :: slot_index
  place_target :: block_key
  place_expected_chunk_revision :: chunk_revision

record creative_pick_command =
  cpick_player :: player_id
  cpick_item :: item_id
  cpick_slot :: slot_index
  cpick_expected_inventory_revision :: u64

record craft_command =
  craft_player :: player_id
  craft_recipe :: recipe_id
  craft_input_slots :: "slot_index list"
  craft_workstation :: "container_id option"

datatype transfer_direction = PlayerToContainer | ContainerToPlayer

record transfer_command =
  tr_player :: player_id
  tr_container :: container_id
  tr_player_slot :: slot_index
  tr_container_slot :: slot_index
  tr_quantity :: u32
  tr_direction :: transfer_direction
  tr_expected_inventory_revision :: u64
  tr_expected_container_revision :: u64

record move_stack_command =
  mv_player :: player_id
  mv_from :: slot_index
  mv_to :: slot_index
  mv_quantity :: "u32 option"
  mv_expected_inventory_revision :: u64

record select_hotbar_command =
  sel_player :: player_id
  sel_slot :: slot_index
  sel_expected_inventory_revision :: u64

record start_process_command =
  sp_container :: container_id
  sp_process :: process_id
  sp_input_slot :: slot_index
  sp_fuel_slot :: slot_index
  sp_output_slot :: slot_index
  sp_expected_container_revision :: u64
  sp_started_at :: authority_tick

record scheduled_advance_command =
  adv_through_tick :: authority_tick
  adv_max_completions :: u16

datatype gameplay_command =
    Mine mine_command
  | CancelMining player_id
  | DropItem drop_item_command
  | Pickup pickup_command
  | Place place_command
  | CreativePick creative_pick_command
  | Craft craft_command
  | Transfer transfer_command
  | MoveStack move_stack_command
  | SelectHotbar select_hotbar_command
  | StartProcess start_process_command
  | AdvanceScheduled scheduled_advance_command

record command_envelope =
  env_transaction_id :: transaction_id
  env_expected_world_revision :: world_revision
  env_command :: gameplay_command

datatype gameplay_mode = Survival | Creative

subsection \<open>Staged edits\<close>

datatype mutation_intent =
    InventorySlot edit_target player_id slot_index "item_stack option" "item_stack option"
  | InventoryRevision edit_target player_id u64 u64
  | InventoryHotbar edit_target player_id u16 u16
  | ContainerSlot edit_target container_id slot_index "item_stack option" "item_stack option"
  | ContainerRevision edit_target container_id u64 u64
  | Block edit_target block_key "block_id option" "block_id option"
  | DropEntity edit_target drop_entity_id "dropped_item option" "dropped_item option"
  | BreakProgress edit_target break_progress_key "break_progress option" "break_progress option"
  | Continuation edit_target continuation_id "furnace_continuation option"
      "furnace_continuation option"

fun intent_target :: "mutation_intent \<Rightarrow> edit_target" where
  "intent_target (InventorySlot t _ _ _ _) = t"
| "intent_target (InventoryRevision t _ _ _) = t"
| "intent_target (InventoryHotbar t _ _ _) = t"
| "intent_target (ContainerSlot t _ _ _ _) = t"
| "intent_target (ContainerRevision t _ _ _) = t"
| "intent_target (Block t _ _ _) = t"
| "intent_target (DropEntity t _ _ _) = t"
| "intent_target (BreakProgress t _ _ _) = t"
| "intent_target (Continuation t _ _ _) = t"

text \<open>Mining progress is run-time only and never crosses the storage boundary.\<close>

definition storage_capture_target :: "mutation_intent \<Rightarrow> edit_target option" where
  "storage_capture_target e =
     (case e of BreakProgress _ _ _ _ \<Rightarrow> None | _ \<Rightarrow> Some (intent_target e))"

datatype command_outcome =
    MiningProgress u32 u32
  | MiningCancelled bool
  | BlockBroken drop_entity_id dimension_chunk_key
  | ItemDropped drop_entity_id
  | ItemPickedUp drop_entity_id
  | BlockPlaced dimension_chunk_key
  | Crafted recipe_id item_stack
  | Transferred u32
  | StackMoved slot_index slot_index
  | HotbarSelected slot_index
  | CreativeStackPicked slot_index item_id
  | ProcessScheduled continuation_id authority_tick
  | ScheduledAdvanced u16 bool

record gameplay_plan =
  plan_transaction_id :: transaction_id
  plan_expected_world_revision :: world_revision
  plan_envelope_fingerprint :: digest
  plan_edits :: "mutation_intent list"
  plan_plan_fingerprint :: digest
  plan_outcome :: command_outcome

record plan_receipt =
  rec_transaction_id :: transaction_id
  rec_observed_world_revision :: world_revision
  rec_envelope_fingerprint :: digest
  rec_plan_fingerprint :: digest
  rec_state_hash :: digest
  rec_outcome :: command_outcome

datatype fault_injection = NoFault | AfterMutation u16

subsection \<open>Limits and the aggregate\<close>

record gameplay_limits =
  gl_players :: usize
  gl_containers :: usize
  gl_tracked_blocks :: usize
  gl_drops :: usize
  gl_break_progress :: usize
  gl_continuations :: usize
  gl_mutations_per_command :: usize
  gl_scheduled_completions :: usize
  gl_recent_receipts :: usize

definition default_gameplay_limits :: gameplay_limits where
  "default_gameplay_limits =
     \<lparr>gl_players = 64, gl_containers = 1024, gl_tracked_blocks = 65536, gl_drops = 4096,
      gl_break_progress = 1024, gl_continuations = 1024, gl_mutations_per_command = 128,
      gl_scheduled_completions = 32, gl_recent_receipts = 256\<rparr>"

definition validate_gameplay_limits :: "gameplay_limits \<Rightarrow> gameplay_limits outcome" where
  "validate_gameplay_limits lim =
     and_then (try_each (\<lambda>(resource, value).
         if value = 0 then Inl (LimitExceeded resource 1 0) else Inr ())
       [(''players'', gl_players lim),
        (''containers'', gl_containers lim),
        (''tracked_blocks'', gl_tracked_blocks lim),
        (''drops'', gl_drops lim),
        (''break_progress'', gl_break_progress lim),
        (''continuations'', gl_continuations lim),
        (''mutations_per_command'', gl_mutations_per_command lim),
        (''scheduled_completions'', gl_scheduled_completions lim),
        (''recent_receipts'', gl_recent_receipts lim)]) (\<lambda>_.
     if 256 < gl_mutations_per_command lim
     then Inl (LimitExceeded ''mutations_per_command'' 256 (gl_mutations_per_command lim))
     else if 64 < gl_scheduled_completions lim
     then Inl (LimitExceeded ''scheduled_completions'' 64 (gl_scheduled_completions lim))
     else Inr lim)"

record gameplay_state =
  gs_observed_world_revision :: world_revision
  gs_inventories :: "(player_id, inventory_state) btree"
  gs_blocks :: "(block_key, block_id) btree"
  gs_loaded_chunks :: "(dimension_chunk_key, chunk_revision) btree"
  gs_drops :: "(drop_entity_id, dropped_item) btree"
  gs_containers :: "(container_id, container_state) btree"
  gs_break_progress :: "(break_progress_key, break_progress) btree"
  gs_continuations :: "(continuation_id, furnace_continuation) btree"
  gs_recent_receipts :: "(transaction_id, plan_receipt) btree"
  gs_receipt_order :: "transaction_id list"
  gs_pending_receipt :: "plan_receipt option"
  gs_oldest_replayable_world_revision :: world_revision
  gs_limits :: gameplay_limits
  gs_chunk_edge :: u16

definition new_state :: "gameplay_limits \<Rightarrow> gameplay_state outcome" where
  "new_state limits =
     and_then (validate_gameplay_limits limits) (\<lambda>lim. Inr
       \<lparr>gs_observed_world_revision = 0, gs_inventories = bt_empty, gs_blocks = bt_empty,
        gs_loaded_chunks = bt_empty, gs_drops = bt_empty, gs_containers = bt_empty,
        gs_break_progress = bt_empty, gs_continuations = bt_empty,
        gs_recent_receipts = bt_empty, gs_receipt_order = [], gs_pending_receipt = None,
        gs_oldest_replayable_world_revision = 0, gs_limits = lim, gs_chunk_edge = 32\<rparr>)"

end
