(* ===== verification/Hash.thy ===== *)
theory Hash
  imports Model
begin

section \<open>Canonical encodings and fingerprints\<close>

text \<open>
  \<open>hash.rs\<close>. The code feeds a SHA-256 digest incrementally; the bytes it feeds are the
  concatenation the functions below return, and the digest is the parameter \<open>sha\<close>
  applied to them. Integers are big-endian, byte strings carry a 64-bit length, options
  and enum variants carry a tag byte.
\<close>

type_synonym digest_function = "byte list \<Rightarrow> digest"

subsection \<open>Primitive encoders\<close>

text \<open>\<open>to_be_bytes\<close> of an unsigned integer of \<open>n\<close> bytes.\<close>

fun be_bytes :: "nat \<Rightarrow> nat \<Rightarrow> byte list" where
  "be_bytes 0 v = []"
| "be_bytes (Suc n) v = be_bytes n (v div 256) @ [word_of_nat (v mod 256)]"

definition enc_u8 :: "u8 \<Rightarrow> byte list" where "enc_u8 v = be_bytes 1 v"
definition enc_u16 :: "u16 \<Rightarrow> byte list" where "enc_u16 v = be_bytes 2 v"
definition enc_u32 :: "u32 \<Rightarrow> byte list" where "enc_u32 v = be_bytes 4 v"
definition enc_u64 :: "u64 \<Rightarrow> byte list" where "enc_u64 v = be_bytes 8 v"
definition enc_len :: "usize \<Rightarrow> byte list" where "enc_len v = enc_u64 v"

text \<open>\<open>i32::to_be_bytes\<close>: two's complement.\<close>

definition enc_i32 :: "int \<Rightarrow> byte list" where
  "enc_i32 v = be_bytes 4 (nat (v mod 2 ^ 32))"

definition enc_bytes :: "byte list \<Rightarrow> byte list" where
  "enc_bytes v = enc_len (length v) @ v"

definition string_bytes :: "string \<Rightarrow> byte list" where
  "string_bytes s = map of_char s"

definition enc_text :: "string \<Rightarrow> byte list" where
  "enc_text s = enc_bytes (string_bytes s)"

definition enc_optional_text :: "string option \<Rightarrow> byte list" where
  "enc_optional_text v = (case v of Some s \<Rightarrow> enc_u8 1 @ enc_text s | None \<Rightarrow> enc_u8 0)"

text \<open>The sixteen network-order bytes of an identifier.\<close>

definition id_bytes :: "128 word \<Rightarrow> byte list" where
  "id_bytes w = be_bytes 16 (unat w)"

definition enc_id :: "128 word \<Rightarrow> byte list" where
  "enc_id w = enc_bytes (id_bytes w)"

subsection \<open>Composite encoders\<close>

definition enc_block_key :: "block_key \<Rightarrow> byte list" where
  "enc_block_key k =
     enc_text (bk_dimension k) @ enc_i32 (bp_x (bk_position k)) @
     enc_i32 (bp_y (bk_position k)) @ enc_i32 (bp_z (bk_position k))"

definition enc_chunk_key :: "dimension_chunk_key \<Rightarrow> byte list" where
  "enc_chunk_key k =
     enc_text (dck_dimension k) @ enc_i32 (cc_x (dck_coordinate k)) @
     enc_i32 (cc_y (dck_coordinate k)) @ enc_i32 (cc_z (dck_coordinate k))"

definition enc_target :: "edit_target \<Rightarrow> byte list" where
  "enc_target t =
     enc_chunk_key (et_chunk t) @
     enc_u8 (case et_domain t of Voxels \<Rightarrow> 0 | PersistentEntities \<Rightarrow> 1 | Continuations \<Rightarrow> 2)"

definition enc_stack :: "item_stack \<Rightarrow> byte list" where
  "enc_stack s =
     enc_u16 1 @ enc_text (stack_item s) @ enc_u32 (stack_quantity s) @
     (case stack_state s of
        Plain \<Rightarrow> enc_u8 0
      | ToolDurability remaining \<Rightarrow> enc_u8 1 @ enc_u32 remaining)"

definition enc_stack_option :: "item_stack option \<Rightarrow> byte list" where
  "enc_stack_option v = (case v of Some s \<Rightarrow> enc_u8 1 @ enc_stack s | None \<Rightarrow> enc_u8 0)"

definition enc_inventory :: "inventory_state \<Rightarrow> byte list" where
  "enc_inventory ivt =
     enc_target (inv_target ivt) @ enc_u64 (inv_revision ivt) @
     enc_u16 (inv_hotbar_slots ivt) @ enc_u16 (inv_selected_hotbar ivt) @
     enc_len (length (inv_slots ivt)) @ concat (map enc_stack_option (inv_slots ivt))"

definition enc_container_owner :: "container_owner \<Rightarrow> byte list" where
  "enc_container_owner co =
     enc_text (co_dimension co) @ enc_i32 (cc_x (co_chunk co)) @ enc_i32 (cc_y (co_chunk co)) @
     enc_i32 (cc_z (co_chunk co)) @ enc_id (co_entity co)"

definition enc_drop_option :: "dropped_item option \<Rightarrow> byte list" where
  "enc_drop_option v =
     (case v of
        Some d \<Rightarrow> enc_u8 1 @ enc_block_key (drop_location d) @ enc_stack (drop_stack d)
      | None \<Rightarrow> enc_u8 0)"

definition enc_progress_option :: "break_progress option \<Rightarrow> byte list" where
  "enc_progress_option v =
     (case v of
        Some p \<Rightarrow> enc_u8 1 @ enc_text (bp_block p) @ enc_u32 (bp_accumulated_work p)
      | None \<Rightarrow> enc_u8 0)"

definition enc_continuation_option :: "furnace_continuation option \<Rightarrow> byte list" where
  "enc_continuation_option v =
     (case v of
        Some c \<Rightarrow>
          enc_u8 1 @ enc_text (fc_process c) @ enc_id (fc_container c) @
          enc_target (fc_target c) @ enc_u16 (fc_output_slot c) @
          enc_stack (fc_pending_output c) @ enc_u64 (fc_due_tick c) @ enc_u64 (fc_revision c)
      | None \<Rightarrow> enc_u8 0)"

subsection \<open>Commands, edits, outcomes\<close>

fun enc_command :: "gameplay_command \<Rightarrow> byte list" where
  "enc_command (Mine c) =
     enc_u8 0 @ enc_id (mine_player c) @ enc_block_key (mine_target c) @
     enc_u64 (mine_expected_chunk_revision c) @
     (case mine_tool_slot c of Some slot \<Rightarrow> enc_u8 1 @ enc_u16 slot | None \<Rightarrow> enc_u8 0) @
     enc_id (mine_reserved_drop c) @ enc_u16 (mine_steps c)"
| "enc_command (CancelMining player) = enc_u8 11 @ enc_id player"
| "enc_command (DropItem c) =
     enc_u8 1 @ enc_id (dropc_player c) @ enc_u16 (dropc_slot c) @ enc_u32 (dropc_quantity c) @
     enc_block_key (dropc_location c) @ enc_id (dropc_reserved_drop c)"
| "enc_command (Pickup c) = enc_u8 2 @ enc_id (pick_player c) @ enc_id (pick_drop c)"
| "enc_command (Place c) =
     enc_u8 3 @ enc_id (place_player c) @ enc_u16 (place_slot c) @
     enc_block_key (place_target c) @ enc_u64 (place_expected_chunk_revision c)"
| "enc_command (CreativePick c) =
     enc_u8 10 @ enc_id (cpick_player c) @ enc_text (cpick_item c) @ enc_u16 (cpick_slot c) @
     enc_u64 (cpick_expected_inventory_revision c)"
| "enc_command (Craft c) =
     enc_u8 4 @ enc_id (craft_player c) @ enc_text (craft_recipe c) @
     enc_len (length (craft_input_slots c)) @ concat (map enc_u16 (craft_input_slots c)) @
     (case craft_workstation c of
        Some container \<Rightarrow> enc_u8 1 @ enc_id container
      | None \<Rightarrow> enc_u8 0)"
| "enc_command (Transfer c) =
     enc_u8 5 @ enc_id (tr_player c) @ enc_id (tr_container c) @ enc_u16 (tr_player_slot c) @
     enc_u16 (tr_container_slot c) @ enc_u32 (tr_quantity c) @
     enc_u8 (case tr_direction c of PlayerToContainer \<Rightarrow> 0 | ContainerToPlayer \<Rightarrow> 1) @
     enc_u64 (tr_expected_inventory_revision c) @ enc_u64 (tr_expected_container_revision c)"
| "enc_command (MoveStack c) =
     enc_u8 8 @ enc_id (mv_player c) @ enc_u16 (mv_from c) @ enc_u16 (mv_to c) @
     (case mv_quantity c of Some q \<Rightarrow> enc_u8 1 @ enc_u32 q | None \<Rightarrow> enc_u8 0) @
     enc_u64 (mv_expected_inventory_revision c)"
| "enc_command (SelectHotbar c) =
     enc_u8 9 @ enc_id (sel_player c) @ enc_u16 (sel_slot c) @
     enc_u64 (sel_expected_inventory_revision c)"
| "enc_command (StartProcess c) =
     enc_u8 6 @ enc_id (sp_container c) @ enc_text (sp_process c) @ enc_u16 (sp_input_slot c) @
     enc_u16 (sp_fuel_slot c) @ enc_u16 (sp_output_slot c) @
     enc_u64 (sp_expected_container_revision c) @ enc_u64 (sp_started_at c)"
| "enc_command (AdvanceScheduled c) =
     enc_u8 7 @ enc_u64 (adv_through_tick c) @ enc_u16 (adv_max_completions c)"

definition enc_edit :: "mutation_intent \<Rightarrow> byte list" where
  "enc_edit e =
     enc_target (intent_target e) @
     (case e of
        InventorySlot _ player slot before after \<Rightarrow>
          enc_u8 0 @ enc_id player @ enc_u16 slot @ enc_stack_option before @
          enc_stack_option after
      | InventoryRevision _ player before after \<Rightarrow>
          enc_u8 1 @ enc_id player @ enc_u64 before @ enc_u64 after
      | InventoryHotbar _ player before after \<Rightarrow>
          enc_u8 8 @ enc_id player @ enc_u16 before @ enc_u16 after
      | ContainerSlot _ container slot before after \<Rightarrow>
          enc_u8 2 @ enc_id container @ enc_u16 slot @ enc_stack_option before @
          enc_stack_option after
      | ContainerRevision _ container before after \<Rightarrow>
          enc_u8 3 @ enc_id container @ enc_u64 before @ enc_u64 after
      | Block _ key before after \<Rightarrow>
          enc_u8 4 @ enc_block_key key @ enc_optional_text before @ enc_optional_text after
      | DropEntity _ did before after \<Rightarrow>
          enc_u8 5 @ enc_id did @ enc_drop_option before @ enc_drop_option after
      | BreakProgress _ key before after \<Rightarrow>
          enc_u8 6 @ enc_id (bpk_player key) @ enc_block_key (bpk_block key) @
          enc_progress_option before @ enc_progress_option after
      | Continuation _ cid before after \<Rightarrow>
          enc_u8 7 @ enc_id cid @ enc_continuation_option before @
          enc_continuation_option after)"

fun enc_outcome :: "command_outcome \<Rightarrow> byte list" where
  "enc_outcome (MiningProgress accumulated required) =
     enc_u8 0 @ enc_u32 accumulated @ enc_u32 required"
| "enc_outcome (MiningCancelled had_progress) = enc_u8 11 @ enc_u8 (of_bool had_progress)"
| "enc_outcome (BlockBroken d chunk) = enc_u8 1 @ enc_id d @ enc_chunk_key chunk"
| "enc_outcome (ItemDropped d) = enc_u8 2 @ enc_id d"
| "enc_outcome (ItemPickedUp d) = enc_u8 3 @ enc_id d"
| "enc_outcome (BlockPlaced chunk) = enc_u8 4 @ enc_chunk_key chunk"
| "enc_outcome (Crafted recipe output) = enc_u8 5 @ enc_text recipe @ enc_stack output"
| "enc_outcome (Transferred q) = enc_u8 6 @ enc_u32 q"
| "enc_outcome (StackMoved f t) = enc_u8 9 @ enc_u16 f @ enc_u16 t"
| "enc_outcome (HotbarSelected slot) = enc_u8 10 @ enc_u16 slot"
| "enc_outcome (CreativeStackPicked slot item) = enc_u8 11 @ enc_u16 slot @ enc_text item"
| "enc_outcome (ProcessScheduled c due) = enc_u8 7 @ enc_id c @ enc_u64 due"
| "enc_outcome (ScheduledAdvanced completed more_due) =
     enc_u8 8 @ enc_u16 completed @ enc_u8 (of_bool more_due)"

subsection \<open>The three fingerprints\<close>

text \<open>A domain-separation prefix ends in a zero byte.\<close>

definition enc_domain :: "string \<Rightarrow> byte list" where
  "enc_domain s = string_bytes s @ [0]"

definition envelope_preimage :: "command_envelope \<Rightarrow> byte list" where
  "envelope_preimage e =
     enc_domain ''latticeaxiom.gameplay-command-envelope.v1'' @
     enc_id (env_transaction_id e) @ enc_u64 (env_expected_world_revision e) @
     enc_command (env_command e)"

definition envelope_hash :: "digest_function \<Rightarrow> command_envelope \<Rightarrow> digest" where
  "envelope_hash sha e = sha (envelope_preimage e)"

definition plan_preimage ::
    "world_revision \<Rightarrow> digest \<Rightarrow> mutation_intent list \<Rightarrow> command_outcome \<Rightarrow> byte list" where
  "plan_preimage revision fingerprint edits result =
     enc_domain ''latticeaxiom.gameplay-runtime-plan.v1'' @ enc_u64 revision @
     enc_bytes fingerprint @ enc_len (length edits) @ concat (map enc_edit edits) @
     enc_outcome result"

definition plan_hash ::
    "digest_function \<Rightarrow> world_revision \<Rightarrow> digest \<Rightarrow> mutation_intent list \<Rightarrow> command_outcome \<Rightarrow>
     digest" where
  "plan_hash sha revision fingerprint edits result =
     sha (plan_preimage revision fingerprint edits result)"

definition enc_container :: "container_state \<Rightarrow> byte list" where
  "enc_container c =
     enc_container_owner (con_owner c) @ enc_optional_text (con_workstation c) @
     enc_u64 (con_revision c) @ enc_len (length (con_slots c)) @
     concat (map enc_stack_option (con_slots c))"

text \<open>Every map is encoded as its length and its entries in key order.\<close>

definition enc_map :: "('k::linorder \<Rightarrow> 'v \<Rightarrow> byte list) \<Rightarrow> ('k, 'v) btree \<Rightarrow> byte list" where
  "enc_map f m = enc_len (bt_len m) @ concat (map (\<lambda>(k, v). f k v) (entries m))"

definition state_preimage :: "gameplay_state \<Rightarrow> byte list" where
  "state_preimage s =
     enc_domain ''latticeaxiom.gameplay-reference-state.v2'' @
     enc_u64 (gs_observed_world_revision s) @
     enc_map (\<lambda>chunk revision. enc_chunk_key chunk @ enc_u64 revision) (gs_loaded_chunks s) @
     enc_map (\<lambda>player inventory. enc_id player @ enc_inventory inventory) (gs_inventories s) @
     enc_map (\<lambda>key block. enc_block_key key @ enc_text block) (gs_blocks s) @
     enc_map (\<lambda>did d. enc_id did @ enc_block_key (drop_location d) @ enc_stack (drop_stack d))
       (gs_drops s) @
     enc_map (\<lambda>cid c. enc_id cid @ enc_container c) (gs_containers s) @
     enc_map (\<lambda>key p. enc_id (bpk_player key) @ enc_block_key (bpk_block key) @
         enc_text (bp_block p) @ enc_u32 (bp_accumulated_work p)) (gs_break_progress s) @
     enc_map (\<lambda>cid c. enc_id cid @ enc_text (fc_process c) @ enc_id (fc_container c) @
         enc_target (fc_target c) @ enc_u16 (fc_output_slot c) @
         enc_stack (fc_pending_output c) @ enc_u64 (fc_due_tick c) @ enc_u64 (fc_revision c))
       (gs_continuations s)"

definition state_hash :: "digest_function \<Rightarrow> gameplay_state \<Rightarrow> digest" where
  "state_hash sha s = sha (state_preimage s)"

end
