(* ===== verification/Encoding.thy ===== *)
theory Encoding
  imports Hash
begin

section \<open>The canonical encodings are unambiguous\<close>

text \<open>
  A fingerprint stands for its subject only if the bytes that are hashed do. Every encoder
  of \<open>hash.rs\<close> but one is a prefix code on the values its Rust type has: from the bytes
  alone it is clear which value was written and where it ends. The composites inherit this
  from their parts.
\<close>

named_theorems code_simps \<open>when two encodings followed by anything are equal\<close>

subsection \<open>Prefix codes\<close>

locale prefix_code =
  fixes enc :: "'a \<Rightarrow> byte list" and valid :: "'a \<Rightarrow> bool"
  assumes decodable: "valid x \<Longrightarrow> valid y \<Longrightarrow> enc x @ r = enc y @ r' \<Longrightarrow> x = y \<and> r = r'"
begin

lemma append_eq: "valid x \<Longrightarrow> valid y \<Longrightarrow> enc x @ r = enc y @ r' \<longleftrightarrow> x = y \<and> r = r'"
  using decodable by blast

lemma code_eq: "valid x \<Longrightarrow> valid y \<Longrightarrow> enc x = enc y \<longleftrightarrow> x = y"
  using append_eq [of x y "[]" "[]"] by simp

lemma concat_eq:
  "length xs = length ys \<Longrightarrow> \<forall>x \<in> set xs. valid x \<Longrightarrow> \<forall>y \<in> set ys. valid y \<Longrightarrow>
   concat (map enc xs) @ r = concat (map enc ys) @ r' \<longleftrightarrow> xs = ys \<and> r = r'"
proof (induction xs ys rule: list_induct2)
  case (Cons x xs y ys)
  then show ?case by (auto simp: append_eq)
qed simp

text \<open>An option with a tag byte.\<close>

lemma tagged_eq:
  assumes "\<And>x. v = Some x \<Longrightarrow> valid x" "\<And>x. w = Some x \<Longrightarrow> valid x" "length none = length tag" "none \<noteq> tag"
  shows "(case v of Some x \<Rightarrow> tag @ enc x | None \<Rightarrow> none) @ r = (case w of Some x \<Rightarrow> tag @ enc x | None \<Rightarrow> none) @ r'
    \<longleftrightarrow> v = w \<and> r = r'"
  using assms by (cases v; cases w) (auto simp: append_eq)

end

subsection \<open>Integers\<close>

lemma length_be_bytes [simp]: "length (be_bytes n v) = n"
  by (induction n arbitrary: v) simp_all

lemma be_bytes_inj: "v < 256 ^ n \<Longrightarrow> w < 256 ^ n \<Longrightarrow> be_bytes n v = be_bytes n w \<Longrightarrow> v = w"
proof (induction n arbitrary: v w)
  case (Suc n)
  from Suc.prems(3) have div: "be_bytes n (v div 256) = be_bytes n (w div 256)"
    and bytes: "(word_of_nat (v mod 256) :: byte) = word_of_nat (w mod 256)" by simp_all
  have "v div 256 < 256 ^ n" "w div 256 < 256 ^ n"
    using Suc.prems(1,2) by (simp_all add: less_mult_imp_div_less mult.commute)
  from Suc.IH [OF this div] have "v div 256 = w div 256" .
  moreover have "v mod 256 = w mod 256"
    using arg_cong [OF bytes, of unat] by (simp add: unat_of_nat take_bit_eq_mod)
  ultimately show ?case by (metis div_mult_mod_eq)
qed simp

lemma be_bytes_code:
  "v < 256 ^ n \<Longrightarrow> w < 256 ^ n \<Longrightarrow> be_bytes n v @ r = be_bytes n w @ r' \<Longrightarrow> v = w \<and> r = r'"
  using be_bytes_inj by (metis append_eq_append_conv length_be_bytes)

interpretation u8_code: prefix_code enc_u8 "\<lambda>v. v < 256"
proof
  fix x y :: nat and r r'
  assume "x < 256" "y < 256" "enc_u8 x @ r = enc_u8 y @ r'"
  with be_bytes_code [of x 1 y r r'] show "x = y \<and> r = r'"
    by (simp add: enc_u8_def)
qed

interpretation u16_code: prefix_code enc_u16 "\<lambda>v. v \<le> u16_max"
proof
  fix x y :: nat and r r'
  assume "x \<le> u16_max" "y \<le> u16_max" "enc_u16 x @ r = enc_u16 y @ r'"
  with be_bytes_code [of x 2 y r r'] show "x = y \<and> r = r'"
    by (simp add: enc_u16_def u16_max_def)
qed

interpretation u32_code: prefix_code enc_u32 "\<lambda>v. v \<le> u32_max"
proof
  fix x y :: nat and r r'
  assume "x \<le> u32_max" "y \<le> u32_max" "enc_u32 x @ r = enc_u32 y @ r'"
  with be_bytes_code [of x 4 y r r'] show "x = y \<and> r = r'"
    by (simp add: enc_u32_def u32_max_def)
qed

interpretation u64_code: prefix_code enc_u64 "\<lambda>v. v \<le> u64_max"
proof
  fix x y :: nat and r r'
  assume "x \<le> u64_max" "y \<le> u64_max" "enc_u64 x @ r = enc_u64 y @ r'"
  with be_bytes_code [of x 8 y r r'] show "x = y \<and> r = r'"
    by (simp add: enc_u64_def u64_max_def)
qed

interpretation len_code: prefix_code enc_len "\<lambda>v. v \<le> u64_max"
  by unfold_locales (simp_all add: enc_len_def u64_code.append_eq)

definition i32_valid :: "int \<Rightarrow> bool" where
  "i32_valid v \<longleftrightarrow> - 2147483648 \<le> v \<and> v < 2147483648"

interpretation i32_code: prefix_code enc_i32 i32_valid
proof
  fix x y r r'
  assume valid: "i32_valid x" "i32_valid y" and eq: "enc_i32 x @ r = enc_i32 y @ r'"
  from be_bytes_code [of "nat (x mod 2 ^ 32)" 4 "nat (y mod 2 ^ 32)" r r'] eq
  have "x mod 2 ^ 32 = y mod 2 ^ 32" "r = r'" by (simp_all add: enc_i32_def nat_less_iff eq_nat_nat_iff)
  then have "2 ^ 32 dvd x - y" by (simp add: mod_eq_dvd_iff)
  moreover have "\<bar>x - y\<bar> < 2 ^ 32" using valid by (simp add: i32_valid_def abs_less_iff)
  ultimately have "x = y" using dvd_imp_le_int [of "x - y" "2 ^ 32"] by (cases "x = y") auto
  with \<open>r = r'\<close> show "x = y \<and> r = r'" by simp
qed

interpretation id_code: prefix_code enc_id "\<lambda>_. True"
proof
  fix x y :: "128 word" and r r'
  assume "enc_id x @ r = enc_id y @ r'"
  then have "be_bytes 16 (unat x) @ r = be_bytes 16 (unat y) @ r'"
    by (simp add: enc_id_def enc_bytes_def id_bytes_def)
  from be_bytes_code [OF _ _ this] unsigned_less [where ?'a = nat and w = x]
    unsigned_less [where ?'a = nat and w = y] have "unat x = unat y" "r = r'" by simp_all
  then show "x = y \<and> r = r'" by (simp add: word_unat_eq_iff)
qed

subsection \<open>Strings and lists\<close>

definition bytes_valid :: "byte list \<Rightarrow> bool" where
  "bytes_valid v \<longleftrightarrow> length v \<le> u64_max"

interpretation bytes_code: prefix_code enc_bytes bytes_valid
proof
  fix x y r r'
  assume "bytes_valid x" "bytes_valid y" "enc_bytes x @ r = enc_bytes y @ r'"
  then show "x = y \<and> r = r'"
    by (auto simp: enc_bytes_def bytes_valid_def len_code.append_eq)
qed

definition text_valid :: "string \<Rightarrow> bool" where
  "text_valid s \<longleftrightarrow> length s \<le> u64_max"

lemma string_bytes_inj: "string_bytes s = string_bytes t \<Longrightarrow> s = t"
proof -
  have "inj (of_char :: char \<Rightarrow> byte)"
  proof (rule injI)
    fix a b :: char
    assume "(of_char a :: byte) = of_char b"
    then have "(of_nat (of_char a) :: byte) = of_nat (of_char b)" by (simp add: of_nat_of_char)
    then have "unat (of_nat (of_char a) :: byte) = unat (of_nat (of_char b) :: byte)" by simp
    then have "(of_char a :: nat) = of_char b"
      using nat_of_char_less_256 [of a] nat_of_char_less_256 [of b]
      by (simp add: unat_of_nat take_bit_eq_mod)
    then show "a = b" by simp
  qed
  then show "string_bytes s = string_bytes t \<Longrightarrow> s = t"
    by (simp add: string_bytes_def inj_map_eq_map)
qed

interpretation text_code: prefix_code enc_text text_valid
proof
  fix x y r r'
  assume "text_valid x" "text_valid y" "enc_text x @ r = enc_text y @ r'"
  then have "string_bytes x = string_bytes y \<and> r = r'"
    by (simp add: enc_text_def bytes_code.append_eq bytes_valid_def text_valid_def string_bytes_def)
  then show "x = y \<and> r = r'" using string_bytes_inj by blast
qed

subsection \<open>Composite values\<close>

lemmas [code_simps] = u8_code.append_eq u16_code.append_eq u32_code.append_eq u64_code.append_eq
  len_code.append_eq i32_code.append_eq id_code.append_eq bytes_code.append_eq text_code.append_eq

definition block_key_valid :: "block_key \<Rightarrow> bool" where
  "block_key_valid k \<longleftrightarrow> text_valid (bk_dimension k) \<and> i32_valid (bp_x (bk_position k)) \<and>
     i32_valid (bp_y (bk_position k)) \<and> i32_valid (bp_z (bk_position k))"

interpretation block_key_code: prefix_code enc_block_key block_key_valid
proof
  fix x y r r'
  assume "block_key_valid x" "block_key_valid y" "enc_block_key x @ r = enc_block_key y @ r'"
  then show "x = y \<and> r = r'"
    by (auto simp: enc_block_key_def block_key_valid_def code_simps
        intro!: block_key.expand block_position.expand)
qed

definition chunk_key_valid :: "dimension_chunk_key \<Rightarrow> bool" where
  "chunk_key_valid k \<longleftrightarrow> text_valid (dck_dimension k) \<and> i32_valid (cc_x (dck_coordinate k)) \<and>
     i32_valid (cc_y (dck_coordinate k)) \<and> i32_valid (cc_z (dck_coordinate k))"

interpretation chunk_key_code: prefix_code enc_chunk_key chunk_key_valid
proof
  fix x y r r'
  assume "chunk_key_valid x" "chunk_key_valid y" "enc_chunk_key x @ r = enc_chunk_key y @ r'"
  then show "x = y \<and> r = r'"
    by (auto simp: enc_chunk_key_def chunk_key_valid_def code_simps
        intro!: dimension_chunk_key.expand chunk_coordinate.expand)
qed

definition target_valid :: "edit_target \<Rightarrow> bool" where
  "target_valid t \<longleftrightarrow> chunk_key_valid (et_chunk t)"

lemmas [code_simps] = block_key_code.append_eq chunk_key_code.append_eq

interpretation target_code: prefix_code enc_target target_valid
proof
  fix x y r r'
  assume "target_valid x" "target_valid y" "enc_target x @ r = enc_target y @ r'"
  then show "x = y \<and> r = r'"
    by (cases x; cases y)
      (auto simp: enc_target_def target_valid_def code_simps split: storage_domain.splits)
qed

definition stack_valid :: "item_stack \<Rightarrow> bool" where
  "stack_valid st \<longleftrightarrow> text_valid (stack_item st) \<and> stack_quantity st \<le> u32_max \<and>
     (case stack_state st of Plain \<Rightarrow> True | ToolDurability n \<Rightarrow> n \<le> u32_max)"

interpretation stack_code: prefix_code enc_stack stack_valid
proof
  fix x y r r'
  assume "stack_valid x" "stack_valid y" "enc_stack x @ r = enc_stack y @ r'"
  then show "x = y \<and> r = r'"
    by (cases x; cases y)
      (auto simp: enc_stack_def stack_valid_def u16_max_def code_simps split: item_state.splits)
qed

lemmas [code_simps] = target_code.append_eq stack_code.append_eq

subsection \<open>Options\<close>

definition option_valid :: "('a \<Rightarrow> bool) \<Rightarrow> 'a option \<Rightarrow> bool" where
  "option_valid valid v \<longleftrightarrow> (\<forall>x. v = Some x \<longrightarrow> valid x)"

lemma option_valid_simps [simp]: "option_valid valid None" "option_valid valid (Some x) \<longleftrightarrow> valid x"
  by (simp_all add: option_valid_def)

interpretation text_option_code: prefix_code enc_optional_text "option_valid text_valid"
  by unfold_locales (auto simp: enc_optional_text_def code_simps split: option.splits)

interpretation stack_option_code: prefix_code enc_stack_option "option_valid stack_valid"
  by unfold_locales (auto simp: enc_stack_option_def code_simps split: option.splits)

definition drop_valid :: "dropped_item \<Rightarrow> bool" where
  "drop_valid d \<longleftrightarrow> block_key_valid (drop_location d) \<and> stack_valid (drop_stack d)"

interpretation drop_option_code: prefix_code enc_drop_option "option_valid drop_valid"
  by unfold_locales
    (auto simp: enc_drop_option_def drop_valid_def code_simps split: option.splits
      intro!: dropped_item.equality)

definition progress_valid :: "break_progress \<Rightarrow> bool" where
  "progress_valid p \<longleftrightarrow> text_valid (bp_block p) \<and> bp_accumulated_work p \<le> u32_max"

interpretation progress_option_code: prefix_code enc_progress_option "option_valid progress_valid"
  by unfold_locales
    (auto simp: enc_progress_option_def progress_valid_def code_simps split: option.splits
      intro!: break_progress.equality)

definition continuation_valid :: "furnace_continuation \<Rightarrow> bool" where
  "continuation_valid c \<longleftrightarrow> text_valid (fc_process c) \<and> target_valid (fc_target c) \<and>
     fc_output_slot c \<le> u16_max \<and> stack_valid (fc_pending_output c) \<and>
     fc_due_tick c \<le> u64_max \<and> fc_revision c \<le> u64_max"

interpretation continuation_option_code:
  prefix_code enc_continuation_option "option_valid continuation_valid"
  by unfold_locales
    (auto simp: enc_continuation_option_def continuation_valid_def code_simps split: option.splits
      intro!: furnace_continuation.equality)

lemmas [code_simps] = text_option_code.append_eq stack_option_code.append_eq
  drop_option_code.append_eq progress_option_code.append_eq continuation_option_code.append_eq

subsection \<open>Commands\<close>

text \<open>The values a command can have: what its Rust type admits.\<close>

fun command_valid :: "gameplay_command \<Rightarrow> bool" where
  "command_valid (Mine c) \<longleftrightarrow> block_key_valid (mine_target c) \<and>
     mine_expected_chunk_revision c \<le> u64_max \<and> option_valid (\<lambda>k. k \<le> u16_max) (mine_tool_slot c) \<and>
     mine_steps c \<le> u16_max"
| "command_valid (CancelMining player) \<longleftrightarrow> True"
| "command_valid (DropItem c) \<longleftrightarrow> dropc_slot c \<le> u16_max \<and> dropc_quantity c \<le> u32_max \<and>
     block_key_valid (dropc_location c)"
| "command_valid (Pickup c) \<longleftrightarrow> True"
| "command_valid (Place c) \<longleftrightarrow> place_slot c \<le> u16_max \<and> block_key_valid (place_target c) \<and>
     place_expected_chunk_revision c \<le> u64_max"
| "command_valid (CreativePick c) \<longleftrightarrow> text_valid (cpick_item c) \<and> cpick_slot c \<le> u16_max \<and>
     cpick_expected_inventory_revision c \<le> u64_max"
| "command_valid (Craft c) \<longleftrightarrow> text_valid (craft_recipe c) \<and>
     length (craft_input_slots c) \<le> u64_max \<and> (\<forall>k \<in> set (craft_input_slots c). k \<le> u16_max)"
| "command_valid (Transfer c) \<longleftrightarrow> tr_player_slot c \<le> u16_max \<and> tr_container_slot c \<le> u16_max \<and>
     tr_quantity c \<le> u32_max \<and> tr_expected_inventory_revision c \<le> u64_max \<and>
     tr_expected_container_revision c \<le> u64_max"
| "command_valid (MoveStack c) \<longleftrightarrow> mv_from c \<le> u16_max \<and> mv_to c \<le> u16_max \<and>
     option_valid (\<lambda>q. q \<le> u32_max) (mv_quantity c) \<and> mv_expected_inventory_revision c \<le> u64_max"
| "command_valid (SelectHotbar c) \<longleftrightarrow> sel_slot c \<le> u16_max \<and>
     sel_expected_inventory_revision c \<le> u64_max"
| "command_valid (StartProcess c) \<longleftrightarrow> text_valid (sp_process c) \<and> sp_input_slot c \<le> u16_max \<and>
     sp_fuel_slot c \<le> u16_max \<and> sp_output_slot c \<le> u16_max \<and>
     sp_expected_container_revision c \<le> u64_max \<and> sp_started_at c \<le> u64_max"
| "command_valid (AdvanceScheduled c) \<longleftrightarrow> adv_through_tick c \<le> u64_max \<and>
     adv_max_completions c \<le> u16_max"

text \<open>The first byte tells the variant.\<close>

fun command_tag :: "gameplay_command \<Rightarrow> nat" where
  "command_tag (Mine c) = 0" | "command_tag (CancelMining p) = 11" | "command_tag (DropItem c) = 1"
| "command_tag (Pickup c) = 2" | "command_tag (Place c) = 3" | "command_tag (CreativePick c) = 10"
| "command_tag (Craft c) = 4" | "command_tag (Transfer c) = 5" | "command_tag (MoveStack c) = 8"
| "command_tag (SelectHotbar c) = 9" | "command_tag (StartProcess c) = 6"
| "command_tag (AdvanceScheduled c) = 7"

lemma enc_command_tag: "\<exists>body. enc_command c = enc_u8 (command_tag c) @ body"
  by (cases c) auto

lemma command_tag_eq:
  assumes "enc_command c @ r = enc_command c' @ r'"
  shows "command_tag c = command_tag c'"
proof -
  obtain body body' where "enc_command c = enc_u8 (command_tag c) @ body"
    "enc_command c' = enc_u8 (command_tag c') @ body'" using enc_command_tag by metis
  moreover have "command_tag c < 256" for c by (cases c) simp_all
  ultimately show ?thesis using assms by (simp add: code_simps)
qed

interpretation command_code: prefix_code enc_command command_valid
proof
  fix x y r r'
  assume valid: "command_valid x" "command_valid y" and eq: "enc_command x @ r = enc_command y @ r'"
  note tag = command_tag_eq [OF eq]
  show "x = y \<and> r = r'"
  proof (cases x)
    case (Mine c)
    with tag obtain c' where "y = Mine c'" by (cases y) simp_all
    with Mine valid eq show ?thesis
      by (auto simp: code_simps split: option.splits intro!: mine_command.equality)
  next
    case (CancelMining p)
    with tag obtain p' where "y = CancelMining p'" by (cases y) simp_all
    with CancelMining eq show ?thesis by (simp add: code_simps)
  next
    case (DropItem c)
    with tag obtain c' where "y = DropItem c'" by (cases y) simp_all
    with DropItem valid eq show ?thesis
      by (auto simp: code_simps intro!: drop_item_command.equality)
  next
    case (Pickup c)
    with tag obtain c' where "y = Pickup c'" by (cases y) simp_all
    with Pickup valid eq show ?thesis by (auto simp: code_simps intro!: pickup_command.equality)
  next
    case (Place c)
    with tag obtain c' where "y = Place c'" by (cases y) simp_all
    with Place valid eq show ?thesis by (auto simp: code_simps intro!: place_command.equality)
  next
    case (CreativePick c)
    with tag obtain c' where "y = CreativePick c'" by (cases y) simp_all
    with CreativePick valid eq show ?thesis
      by (auto simp: code_simps intro!: creative_pick_command.equality)
  next
    case (Craft c)
    with tag obtain c' where y: "y = Craft c'" by (cases y) simp_all
    with Craft valid eq have "length (craft_input_slots c) = length (craft_input_slots c')"
      by (simp add: code_simps)
    note slots = u16_code.concat_eq [OF this]
    from Craft y valid eq show ?thesis
      by (auto simp: code_simps slots split: option.splits intro!: craft_command.equality)
  next
    case (Transfer c)
    with tag obtain c' where "y = Transfer c'" by (cases y) simp_all
    with Transfer valid eq show ?thesis
      by (auto simp: code_simps split: transfer_direction.splits intro!: transfer_command.equality)
  next
    case (MoveStack c)
    with tag obtain c' where "y = MoveStack c'" by (cases y) simp_all
    with MoveStack valid eq show ?thesis
      by (auto simp: code_simps split: option.splits intro!: move_stack_command.equality)
  next
    case (SelectHotbar c)
    with tag obtain c' where "y = SelectHotbar c'" by (cases y) simp_all
    with SelectHotbar valid eq show ?thesis
      by (auto simp: code_simps intro!: select_hotbar_command.equality)
  next
    case (StartProcess c)
    with tag obtain c' where "y = StartProcess c'" by (cases y) simp_all
    with StartProcess valid eq show ?thesis
      by (auto simp: code_simps intro!: start_process_command.equality)
  next
    case (AdvanceScheduled c)
    with tag obtain c' where "y = AdvanceScheduled c'" by (cases y) simp_all
    with AdvanceScheduled valid eq show ?thesis
      by (auto simp: code_simps intro!: scheduled_advance_command.equality)
  qed
qed

definition envelope_valid :: "command_envelope \<Rightarrow> bool" where
  "envelope_valid env \<longleftrightarrow> env_expected_world_revision env \<le> u64_max \<and> command_valid (env_command env)"

text \<open>C37: the bytes of an envelope determine it. Two envelopes with the same hash preimage are the
  same transaction, at the same revision, with the same command; so a receipt that is returned
  for an equal fingerprint answers this very envelope unless SHA-256 itself collides.\<close>

theorem envelope_preimage_injective:
  assumes "envelope_valid x" and "envelope_valid y" and "envelope_preimage x = envelope_preimage y"
  shows "x = y"
  using assms command_code.code_eq
  by (auto simp: envelope_preimage_def envelope_valid_def code_simps intro!: command_envelope.equality)

text \<open>Two transfers that differ in their direction only.\<close>

definition transfer_envelope :: "transfer_direction \<Rightarrow> command_envelope" where
  "transfer_envelope direction = \<lparr>env_transaction_id = 3, env_expected_world_revision = 9,
     env_command = Transfer \<lparr>tr_player = 1, tr_container = 2, tr_player_slot = 0,
       tr_container_slot = 4, tr_quantity = 7, tr_direction = direction,
       tr_expected_inventory_revision = 1, tr_expected_container_revision = 1\<rparr>\<rparr>"

lemma envelope_preimage_injective_witness:
  "envelope_preimage (transfer_envelope PlayerToContainer) \<noteq>
   envelope_preimage (transfer_envelope ContainerToPlayer)"
proof
  assume eq: "envelope_preimage (transfer_envelope PlayerToContainer) =
    envelope_preimage (transfer_envelope ContainerToPlayer)"
  have "envelope_valid (transfer_envelope d)" for d
    by (simp add: envelope_valid_def transfer_envelope_def u16_max_def u32_max_def u64_max_def)
  from envelope_preimage_injective [OF this this eq] show False by (simp add: transfer_envelope_def)
qed

subsection \<open>Staged edits\<close>

fun edit_valid :: "mutation_intent \<Rightarrow> bool" where
  "edit_valid (InventorySlot t player slot before after) \<longleftrightarrow> target_valid t \<and> slot \<le> u16_max \<and>
     option_valid stack_valid before \<and> option_valid stack_valid after"
| "edit_valid (InventoryRevision t player before after) \<longleftrightarrow> target_valid t \<and>
     before \<le> u64_max \<and> after \<le> u64_max"
| "edit_valid (InventoryHotbar t player before after) \<longleftrightarrow> target_valid t \<and>
     before \<le> u16_max \<and> after \<le> u16_max"
| "edit_valid (ContainerSlot t container slot before after) \<longleftrightarrow> target_valid t \<and> slot \<le> u16_max \<and>
     option_valid stack_valid before \<and> option_valid stack_valid after"
| "edit_valid (ContainerRevision t container before after) \<longleftrightarrow> target_valid t \<and>
     before \<le> u64_max \<and> after \<le> u64_max"
| "edit_valid (Block t key before after) \<longleftrightarrow> target_valid t \<and> block_key_valid key \<and>
     option_valid text_valid before \<and> option_valid text_valid after"
| "edit_valid (DropEntity t did before after) \<longleftrightarrow> target_valid t \<and>
     option_valid drop_valid before \<and> option_valid drop_valid after"
| "edit_valid (BreakProgress t key before after) \<longleftrightarrow> target_valid t \<and>
     block_key_valid (bpk_block key) \<and>
     option_valid progress_valid before \<and> option_valid progress_valid after"
| "edit_valid (Continuation t cid before after) \<longleftrightarrow> target_valid t \<and>
     option_valid continuation_valid before \<and> option_valid continuation_valid after"

fun edit_tag :: "mutation_intent \<Rightarrow> nat" where
  "edit_tag (InventorySlot t p k a b) = 0" | "edit_tag (InventoryRevision t p a b) = 1"
| "edit_tag (InventoryHotbar t p a b) = 8" | "edit_tag (ContainerSlot t c k a b) = 2"
| "edit_tag (ContainerRevision t c a b) = 3" | "edit_tag (Block t k a b) = 4"
| "edit_tag (DropEntity t d a b) = 5" | "edit_tag (BreakProgress t k a b) = 6"
| "edit_tag (Continuation t c a b) = 7"

lemma enc_edit_tag: "\<exists>body. enc_edit e = enc_target (intent_target e) @ enc_u8 (edit_tag e) @ body"
  by (cases e) (auto simp: enc_edit_def)

lemma edit_tag_eq:
  assumes "edit_valid e" "edit_valid e'" "enc_edit e @ r = enc_edit e' @ r'"
  shows "edit_tag e = edit_tag e'"
proof -
  obtain body body' where "enc_edit e = enc_target (intent_target e) @ enc_u8 (edit_tag e) @ body"
    "enc_edit e' = enc_target (intent_target e') @ enc_u8 (edit_tag e') @ body'"
    using enc_edit_tag by metis
  moreover have "edit_tag e < 256" for e by (cases e) simp_all
  moreover have "edit_valid e \<Longrightarrow> target_valid (intent_target e)" for e
    by (cases e) simp_all
  ultimately show ?thesis using assms by (simp add: code_simps)
qed

interpretation edit_code: prefix_code enc_edit edit_valid
proof
  fix x y r r'
  assume valid: "edit_valid x" "edit_valid y" and eq: "enc_edit x @ r = enc_edit y @ r'"
  note tag = edit_tag_eq [OF valid eq]
  show "x = y \<and> r = r'"
  proof (cases x)
    case (InventorySlot t p k a b)
    with tag obtain t' p' k' a' b' where "y = InventorySlot t' p' k' a' b'" by (cases y) simp_all
    with InventorySlot valid eq show ?thesis by (simp add: enc_edit_def code_simps)
  next
    case (InventoryRevision t p a b)
    with tag obtain t' p' a' b' where "y = InventoryRevision t' p' a' b'" by (cases y) simp_all
    with InventoryRevision valid eq show ?thesis by (simp add: enc_edit_def code_simps)
  next
    case (InventoryHotbar t p a b)
    with tag obtain t' p' a' b' where "y = InventoryHotbar t' p' a' b'" by (cases y) simp_all
    with InventoryHotbar valid eq show ?thesis by (simp add: enc_edit_def code_simps)
  next
    case (ContainerSlot t c k a b)
    with tag obtain t' c' k' a' b' where "y = ContainerSlot t' c' k' a' b'" by (cases y) simp_all
    with ContainerSlot valid eq show ?thesis by (simp add: enc_edit_def code_simps)
  next
    case (ContainerRevision t c a b)
    with tag obtain t' c' a' b' where "y = ContainerRevision t' c' a' b'" by (cases y) simp_all
    with ContainerRevision valid eq show ?thesis by (simp add: enc_edit_def code_simps)
  next
    case (Block t k a b)
    with tag obtain t' k' a' b' where "y = Block t' k' a' b'" by (cases y) simp_all
    with Block valid eq show ?thesis by (simp add: enc_edit_def code_simps)
  next
    case (DropEntity t d a b)
    with tag obtain t' d' a' b' where "y = DropEntity t' d' a' b'" by (cases y) simp_all
    with DropEntity valid eq show ?thesis by (simp add: enc_edit_def code_simps)
  next
    case (BreakProgress t k a b)
    with tag obtain t' k' a' b' where "y = BreakProgress t' k' a' b'" by (cases y) simp_all
    with BreakProgress valid eq show ?thesis
      by (cases k; cases k') (simp add: enc_edit_def code_simps)
  next
    case (Continuation t c a b)
    with tag obtain t' c' a' b' where "y = Continuation t' c' a' b'" by (cases y) simp_all
    with Continuation valid eq show ?thesis by (simp add: enc_edit_def code_simps)
  qed
qed

subsection \<open>Outcomes and plans\<close>

fun outcome_valid :: "command_outcome \<Rightarrow> bool" where
  "outcome_valid (MiningProgress accumulated required) \<longleftrightarrow> accumulated \<le> u32_max \<and> required \<le> u32_max"
| "outcome_valid (BlockBroken d chunk) \<longleftrightarrow> chunk_key_valid chunk"
| "outcome_valid (BlockPlaced chunk) \<longleftrightarrow> chunk_key_valid chunk"
| "outcome_valid (Crafted recipe output) \<longleftrightarrow> text_valid recipe \<and> stack_valid output"
| "outcome_valid (Transferred q) \<longleftrightarrow> q \<le> u32_max"
| "outcome_valid (StackMoved f t) \<longleftrightarrow> f \<le> u16_max \<and> t \<le> u16_max"
| "outcome_valid (HotbarSelected slot) \<longleftrightarrow> slot \<le> u16_max"
| "outcome_valid (CreativeStackPicked slot item) \<longleftrightarrow> slot \<le> u16_max \<and> text_valid item"
| "outcome_valid (ProcessScheduled c due) \<longleftrightarrow> due \<le> u64_max"
| "outcome_valid (ScheduledAdvanced completed more_due) \<longleftrightarrow> completed \<le> u16_max"
| "outcome_valid _ \<longleftrightarrow> True"

text \<open>
  The outcome is not a prefix code: \<open>MiningCancelled\<close> and \<open>CreativeStackPicked\<close> share the
  tag 11. At the end of a plan's bytes its length still tells the two apart.
\<close>

fun outcome_tag :: "command_outcome \<Rightarrow> nat" where
  "outcome_tag (MiningProgress a b) = 0" | "outcome_tag (MiningCancelled b) = 11"
| "outcome_tag (BlockBroken d c) = 1" | "outcome_tag (ItemDropped d) = 2"
| "outcome_tag (ItemPickedUp d) = 3" | "outcome_tag (BlockPlaced c) = 4"
| "outcome_tag (Crafted r s) = 5" | "outcome_tag (Transferred q) = 6"
| "outcome_tag (StackMoved f t) = 9" | "outcome_tag (HotbarSelected k) = 10"
| "outcome_tag (CreativeStackPicked k i) = 11" | "outcome_tag (ProcessScheduled c t) = 7"
| "outcome_tag (ScheduledAdvanced n b) = 8"

lemma enc_outcome_tag: "\<exists>body. enc_outcome v = enc_u8 (outcome_tag v) @ body"
  by (cases v) auto

lemma outcome_tag_eq:
  assumes "enc_outcome v = enc_outcome w"
  shows "outcome_tag v = outcome_tag w"
proof -
  obtain body body' where "enc_outcome v = enc_u8 (outcome_tag v) @ body"
    "enc_outcome w = enc_u8 (outcome_tag w) @ body'" using enc_outcome_tag by metis
  moreover have "outcome_tag v < 256" for v by (cases v) simp_all
  ultimately show ?thesis using assms by (simp add: code_simps)
qed

lemmas outcome_code_eqs = u8_code.code_eq u16_code.code_eq u32_code.code_eq u64_code.code_eq
  id_code.code_eq text_code.code_eq chunk_key_code.code_eq stack_code.code_eq

lemma shared_tag_lengths: "enc_u8 (of_bool b) \<noteq> enc_u16 slot @ enc_text item"
proof
  assume "enc_u8 (of_bool b) = enc_u16 slot @ enc_text item"
  then have "length (enc_u8 (of_bool b)) = length (enc_u16 slot @ enc_text item)" by simp
  then show False by (simp add: enc_u8_def enc_u16_def)
qed

lemma enc_outcome_inj:
  assumes "outcome_valid v" "outcome_valid w" "enc_outcome v = enc_outcome w"
  shows "v = w"
  using outcome_tag_eq [OF assms(3)] assms
  by (cases v; cases w)
    (simp_all add: code_simps outcome_code_eqs of_bool_eq_iff shared_tag_lengths
      shared_tag_lengths [symmetric])

text \<open>The bytes of a plan determine it. Equal plan preimages belong to the same revision, the
  same envelope fingerprint, the same edits in the same order and the same outcome, although two
  outcomes share a tag byte.\<close>

theorem plan_preimage_injective:
  assumes "plan_preimage revision fingerprint es v = plan_preimage revision' fingerprint' es' v'"
    and "revision \<le> u64_max" and "revision' \<le> u64_max"
    and "bytes_valid fingerprint" and "bytes_valid fingerprint'"
    and "length es \<le> u64_max" and "length es' \<le> u64_max"
    and "\<forall>e \<in> set es. edit_valid e" and "\<forall>e \<in> set es'. edit_valid e"
    and "outcome_valid v" and "outcome_valid v'"
  shows "revision = revision' \<and> fingerprint = fingerprint' \<and> es = es' \<and> v = v'"
proof -
  from assms(1-7) have head: "revision = revision'" "fingerprint = fingerprint'" "length es = length es'"
    and tail: "concat (map enc_edit es) @ enc_outcome v = concat (map enc_edit es') @ enc_outcome v'"
    by (simp_all add: plan_preimage_def code_simps)
  from edit_code.concat_eq [OF head(3) assms(8,9)] tail have "es = es'" "enc_outcome v = enc_outcome v'"
    by simp_all
  with head enc_outcome_inj [OF assms(10,11)] show ?thesis by simp
qed

lemma plan_preimage_injective_witness:
  "plan_preimage 5 [] [] (MiningCancelled True) \<noteq> plan_preimage 5 [] [] (CreativeStackPicked 256 [])"
  using plan_preimage_injective [of 5 "[]" "[]" "MiningCancelled True" 5 "[]" "[]"
      "CreativeStackPicked 256 []"]
  by (auto simp: bytes_valid_def text_valid_def u16_max_def u64_max_def)

end
