(* ===== verification/State.thy ===== *)
theory State
  imports Hash
begin

section \<open>Operations on inventories, containers and the loaded state\<close>

text \<open>
  The methods of \<open>InventoryStateV1\<close>, \<open>ContainerStateV1\<close> and
  \<open>ReferenceGameplayState\<close> in \<open>model.rs\<close>: construction, the host's seeding and
  unloading of the loaded snapshot, and the load barrier \<open>validate_loaded\<close> that every
  plan and every apply passes. The barrier is split along its sections; it takes the
  digest function because it compares a pending receipt with the state hash.
\<close>

subsection \<open>Slots, inventories, containers\<close>

definition slot_ref :: "'a list \<Rightarrow> slot_index \<Rightarrow> 'a outcome" where
  "slot_ref xs slot = ok_or (get_index xs slot) (SlotOutOfRange slot (length xs))"

definition validate_hotbar :: "usize \<Rightarrow> u16 \<Rightarrow> u16 \<Rightarrow> unit outcome" where
  "validate_hotbar slot_total hotbar selected =
     (if hotbar = 0 \<or> slot_total < hotbar
      then Inl (LimitExceeded ''hotbar_slots'' (max slot_total 1) hotbar)
      else if hotbar \<le> selected then Inl (SlotOutOfRange selected hotbar)
      else Inr ())"

definition empty_with_hotbar :: "edit_target \<Rightarrow> usize \<Rightarrow> u16 \<Rightarrow> inventory_state outcome" where
  "empty_with_hotbar t slot_total hotbar =
     (if slot_total = 0 \<or> 256 < slot_total
      then Inl (LimitExceeded ''inventory_slots'' 256 slot_total)
      else if et_domain t \<noteq> PersistentEntities
      then Inl (InvalidStorageTarget PersistentEntities (et_domain t))
      else and_then (validate_hotbar slot_total hotbar 0) (\<lambda>_. Inr
        \<lparr>inv_target = t, inv_revision = 0, inv_hotbar_slots = hotbar, inv_selected_hotbar = 0,
         inv_slots = replicate slot_total None\<rparr>))"

definition empty_inventory :: "edit_target \<Rightarrow> usize \<Rightarrow> inventory_state outcome" where
  "empty_inventory t slot_total =
     and_then (ok_or (try_from u16_max (min slot_total 9))
         (LimitExceeded ''hotbar_slots'' u16_max slot_total))
       (\<lambda>hotbar. empty_with_hotbar t slot_total hotbar)"

definition selected_stack :: "inventory_state \<Rightarrow> item_stack option" where
  "selected_stack ivt =
     (case get_index (inv_slots ivt) (inv_selected_hotbar ivt) of None \<Rightarrow> None | Some s \<Rightarrow> s)"

definition hotbar_prefix :: "inventory_state \<Rightarrow> slots" where
  "hotbar_prefix ivt = take (min (inv_hotbar_slots ivt) (length (inv_slots ivt))) (inv_slots ivt)"

definition write_slot :: "slots \<Rightarrow> slot_index \<Rightarrow> item_stack option \<Rightarrow> slots outcome" where
  "write_slot xs slot v =
     (if slot < length xs then Inr (xs[slot := v]) else Inl (SlotOutOfRange slot (length xs)))"

definition seed_slot ::
    "inventory_state \<Rightarrow> slot_index \<Rightarrow> item_stack option \<Rightarrow> inventory_state outcome" where
  "seed_slot ivt slot v =
     and_then (write_slot (inv_slots ivt) slot v) (\<lambda>xs. Inr (ivt\<lparr>inv_slots := xs\<rparr>))"

definition seed_selected_hotbar :: "inventory_state \<Rightarrow> slot_index \<Rightarrow> inventory_state outcome" where
  "seed_selected_hotbar ivt slot =
     and_then (validate_hotbar (length (inv_slots ivt)) (inv_hotbar_slots ivt) slot)
       (\<lambda>_. Inr (ivt\<lparr>inv_selected_hotbar := slot\<rparr>))"

definition validate_structure :: "inventory_state \<Rightarrow> unit outcome" where
  "validate_structure ivt =
     (let n = length (inv_slots ivt) in
      if n = 0 \<or> 256 < n then Inl (LimitExceeded ''inventory_slots'' 256 n)
      else validate_hotbar n (inv_hotbar_slots ivt) (inv_selected_hotbar ivt))"

definition empty_container ::
    "container_owner \<Rightarrow> workstation_id option \<Rightarrow> usize \<Rightarrow> container_state outcome" where
  "empty_container owner workstation slot_total =
     (if slot_total = 0 \<or> 256 < slot_total
      then Inl (LimitExceeded ''container_slots'' 256 slot_total)
      else Inr \<lparr>con_owner = owner, con_workstation = workstation, con_revision = 0,
        con_slots = replicate slot_total None\<rparr>)"

definition container_seed_slot ::
    "container_state \<Rightarrow> slot_index \<Rightarrow> item_stack option \<Rightarrow> container_state outcome" where
  "container_seed_slot c slot v =
     and_then (write_slot (con_slots c) slot v) (\<lambda>xs. Inr (c\<lparr>con_slots := xs\<rparr>))"

subsection \<open>The loaded snapshot\<close>

definition checked_capacity_plus_one :: "usize \<Rightarrow> string \<Rightarrow> usize outcome" where
  "checked_capacity_plus_one current counter =
     ok_or (checked_add usize_max current 1) (RevisionOverflow counter)"

text \<open>The rejection of an insertion into a full collection.\<close>

definition require_capacity :: "string \<Rightarrow> usize \<Rightarrow> usize \<Rightarrow> unit outcome" where
  "require_capacity resource current limit =
     (if limit \<le> current
      then and_then (checked_capacity_plus_one current resource)
        (\<lambda>actual. Inl (LimitExceeded resource limit actual))
      else Inr ())"

definition set_chunk_edge :: "gameplay_state \<Rightarrow> u16 \<Rightarrow> gameplay_state outcome" where
  "set_chunk_edge s edge =
     (if edge = 0 then Inl (LimitExceeded ''chunk_edge'' 1 0) else Inr (s\<lparr>gs_chunk_edge := edge\<rparr>))"

definition block_chunk :: "gameplay_state \<Rightarrow> block_key \<Rightarrow> dimension_chunk_key" where
  "block_chunk s k = chunk_in k (gs_chunk_edge s)"

definition observe_world_revision :: "gameplay_state \<Rightarrow> world_revision \<Rightarrow> gameplay_state outcome" where
  "observe_world_revision s revision =
     (if revision < gs_observed_world_revision s
      then Inl (StaleWorldRevision revision (gs_observed_world_revision s))
      else Inr (s\<lparr>gs_observed_world_revision := revision\<rparr>))"

definition loaded_chunk_revision ::
    "gameplay_state \<Rightarrow> dimension_chunk_key \<Rightarrow> chunk_revision option" where
  "loaded_chunk_revision s chunk = bt_get (gs_loaded_chunks s) chunk"

definition chunk_not_loaded :: "dimension_chunk_key \<Rightarrow> gameplay_reject" where
  "chunk_not_loaded chunk =
     ChunkNotLoaded (dck_dimension chunk) (cc_x (dck_coordinate chunk))
       (cc_y (dck_coordinate chunk)) (cc_z (dck_coordinate chunk))"

definition require_loaded_chunk :: "gameplay_state \<Rightarrow> dimension_chunk_key \<Rightarrow> unit outcome" where
  "require_loaded_chunk s chunk =
     (if bt_contains (gs_loaded_chunks s) chunk then Inr () else Inl (chunk_not_loaded chunk))"

definition seed_loaded_chunk ::
    "gameplay_state \<Rightarrow> dimension_chunk_key \<Rightarrow> chunk_revision \<Rightarrow> gameplay_state outcome" where
  "seed_loaded_chunk s chunk revision =
     (if bt_contains (gs_loaded_chunks s) chunk then Inl (DuplicateStateKey ''loaded_chunk'')
      else Inr (s\<lparr>gs_loaded_chunks := bt_insert chunk revision (gs_loaded_chunks s)\<rparr>))"

definition ensure_loaded_chunk ::
    "gameplay_state \<Rightarrow> dimension_chunk_key \<Rightarrow> chunk_revision \<Rightarrow> gameplay_state outcome" where
  "ensure_loaded_chunk s chunk revision =
     (case bt_get (gs_loaded_chunks s) chunk of
        Some existing \<Rightarrow>
          if existing = revision then Inr s else Inl (StaleChunkRevision existing revision)
      | None \<Rightarrow> seed_loaded_chunk s chunk revision)"

definition persistent_entity_id_in_use :: "gameplay_state \<Rightarrow> persistent_entity_id \<Rightarrow> bool" where
  "persistent_entity_id_in_use s e \<longleftrightarrow>
     list_ex (\<lambda>k. k = e) (bt_keys (gs_inventories s)) \<or>
     list_ex (\<lambda>k. k = e) (bt_keys (gs_containers s)) \<or>
     list_ex (\<lambda>k. k = e) (bt_keys (gs_drops s))"

text \<open>Live gameplay state that keeps a chunk resident.\<close>

definition chunk_owns_live_state :: "gameplay_state \<Rightarrow> dimension_chunk_key \<Rightarrow> bool" where
  "chunk_owns_live_state s chunk \<longleftrightarrow>
     list_ex (\<lambda>ivt. et_chunk (inv_target ivt) = chunk) (bt_values (gs_inventories s)) \<or>
     list_ex (\<lambda>c. owner_chunk_key (con_owner c) = chunk) (bt_values (gs_containers s)) \<or>
     list_ex (\<lambda>d. chunk_in (drop_location d) (gs_chunk_edge s) = chunk) (bt_values (gs_drops s)) \<or>
     list_ex (\<lambda>c. et_chunk (fc_target c) = chunk) (bt_values (gs_continuations s))"

definition release_loaded_chunk ::
    "gameplay_state \<Rightarrow> dimension_chunk_key \<Rightarrow> (bool \<times> gameplay_state) outcome" where
  "release_loaded_chunk s chunk =
     (case gs_pending_receipt s of
        Some pending \<Rightarrow> Inl (StorageCommitPending (rec_transaction_id pending)
          (rec_observed_world_revision pending))
      | None \<Rightarrow>
          if chunk_owns_live_state s chunk
          then Inl (MutationPreconditionFailed ''chunk_owns_live_gameplay_state'')
          else let edge = gs_chunk_edge s in Inr
            (bt_contains (gs_loaded_chunks s) chunk,
             s\<lparr>gs_blocks := bt_retain (\<lambda>(k, _). chunk_in k edge \<noteq> chunk) (gs_blocks s),
               gs_break_progress := bt_retain (\<lambda>(k, _). chunk_in (bpk_block k) edge \<noteq> chunk)
                 (gs_break_progress s),
               gs_loaded_chunks := bt_remove chunk (gs_loaded_chunks s)\<rparr>))"

definition seed_player ::
    "gameplay_state \<Rightarrow> player_id \<Rightarrow> inventory_state \<Rightarrow> gameplay_state outcome" where
  "seed_player s player ivt =
     (if bt_contains (gs_inventories s) player then Inl (DuplicateStateKey ''player'')
      else if persistent_entity_id_in_use s player
      then Inl (DuplicateStateKey ''persistent_entity'')
      else and_then (require_capacity ''players'' (bt_len (gs_inventories s))
          (gl_players (gs_limits s))) (\<lambda>_.
        and_then (require_loaded_chunk s (et_chunk (inv_target ivt))) (\<lambda>_.
        Inr (s\<lparr>gs_inventories := bt_insert player ivt (gs_inventories s)\<rparr>))))"

definition seed_container ::
    "gameplay_state \<Rightarrow> container_id \<Rightarrow> container_state \<Rightarrow> gameplay_state outcome" where
  "seed_container s cid c =
     (if bt_contains (gs_containers s) cid then Inl (DuplicateStateKey ''container'')
      else if persistent_entity_id_in_use s cid
      then Inl (DuplicateStateKey ''persistent_entity'')
      else and_then (require_capacity ''containers'' (bt_len (gs_containers s))
          (gl_containers (gs_limits s))) (\<lambda>_.
        and_then (require_loaded_chunk s (owner_chunk_key (con_owner c))) (\<lambda>_.
        if cid \<noteq> co_entity (con_owner c)
        then Inl (MutationPreconditionFailed ''container_owner_identity'')
        else Inr (s\<lparr>gs_containers := bt_insert cid c (gs_containers s)\<rparr>))))"

definition seed_block :: "gameplay_state \<Rightarrow> block_key \<Rightarrow> block_id \<Rightarrow> gameplay_state outcome" where
  "seed_block s key block =
     and_then (require_loaded_chunk s (block_chunk s key)) (\<lambda>_.
     if bt_contains (gs_blocks s) key then Inl (DuplicateStateKey ''block'')
     else and_then (require_capacity ''tracked_blocks'' (bt_len (gs_blocks s))
         (gl_tracked_blocks (gs_limits s))) (\<lambda>_.
       Inr (s\<lparr>gs_blocks := bt_insert key block (gs_blocks s)\<rparr>)))"

definition sync_occupied_block ::
    "gameplay_state \<Rightarrow> block_key \<Rightarrow> block_id \<Rightarrow> gameplay_state outcome" where
  "sync_occupied_block s key block =
     (case bt_get (gs_blocks s) key of
        Some existing \<Rightarrow>
          if existing = block then Inr s else Inl (DuplicateStateKey ''block'')
      | None \<Rightarrow> seed_block s key block)"

definition clear_occupied_block :: "gameplay_state \<Rightarrow> block_key \<Rightarrow> gameplay_state" where
  "clear_occupied_block s key = s\<lparr>gs_blocks := bt_remove key (gs_blocks s)\<rparr>"

definition seed_player_slot ::
    "gameplay_state \<Rightarrow> player_id \<Rightarrow> slot_index \<Rightarrow> item_stack option \<Rightarrow> gameplay_state outcome" where
  "seed_player_slot s player slot v =
     and_then (ok_or (bt_get (gs_inventories s) player) (UnknownPlayer player)) (\<lambda>ivt.
     and_then (seed_slot ivt slot v) (\<lambda>ivt'.
     Inr (s\<lparr>gs_inventories := bt_insert player ivt' (gs_inventories s)\<rparr>)))"

definition seed_drop ::
    "gameplay_state \<Rightarrow> drop_entity_id \<Rightarrow> dropped_item \<Rightarrow> gameplay_state outcome" where
  "seed_drop s did d =
     (if bt_contains (gs_drops s) did then Inl (DuplicateStateKey ''drop'')
      else if persistent_entity_id_in_use s did
      then Inl (DuplicateStateKey ''persistent_entity'')
      else and_then (require_capacity ''drops'' (bt_len (gs_drops s))
          (gl_drops (gs_limits s))) (\<lambda>_.
        and_then (require_loaded_chunk s (block_chunk s (drop_location d))) (\<lambda>_.
        Inr (s\<lparr>gs_drops := bt_insert did d (gs_drops s)\<rparr>))))"

definition seed_continuation ::
    "gameplay_state \<Rightarrow> continuation_id \<Rightarrow> furnace_continuation \<Rightarrow> gameplay_state outcome" where
  "seed_continuation s cid c =
     (if bt_contains (gs_continuations s) cid then Inl (DuplicateStateKey ''continuation'')
      else and_then (require_capacity ''continuations'' (bt_len (gs_continuations s))
          (gl_continuations (gs_limits s))) (\<lambda>_.
        and_then (require_loaded_chunk s (et_chunk (fc_target c))) (\<lambda>_.
        Inr (s\<lparr>gs_continuations := bt_insert cid c (gs_continuations s)\<rparr>))))"

subsection \<open>The load barrier\<close>

definition require_target_domain :: "edit_target \<Rightarrow> storage_domain \<Rightarrow> unit outcome" where
  "require_target_domain t expected =
     (if et_domain t = expected then Inr () else Inl (InvalidStorageTarget expected (et_domain t)))"

definition validate_collection_limits :: "gameplay_state \<Rightarrow> unit outcome" where
  "validate_collection_limits s =
     (let lim = gs_limits s in
      and_then (validate_gameplay_limits lim) (\<lambda>_.
      and_then (try_each (\<lambda>(resource, actual, limit).
          if limit < actual then Inl (LimitExceeded resource limit actual) else Inr ())
        [(''players'', bt_len (gs_inventories s), gl_players lim),
         (''containers'', bt_len (gs_containers s), gl_containers lim),
         (''tracked_blocks'', bt_len (gs_blocks s), gl_tracked_blocks lim),
         (''drops'', bt_len (gs_drops s), gl_drops lim),
         (''break_progress'', bt_len (gs_break_progress s), gl_break_progress lim),
         (''continuations'', bt_len (gs_continuations s), gl_continuations lim),
         (''recent_receipts'', bt_len (gs_recent_receipts s), gl_recent_receipts lim)]) (\<lambda>_.
      if list_ex (\<lambda>revision. gs_observed_world_revision s < revision)
        (bt_values (gs_loaded_chunks s))
      then Inl (MutationPreconditionFailed ''loaded_chunk_revision'')
      else Inr ())))"

abbreviation retry_ledger_failed :: gameplay_reject where
  "retry_ledger_failed \<equiv> MutationPreconditionFailed ''retry_ledger''"

text \<open>The loop over \<open>receipt_order\<close> carries the identifiers seen and the last revision.\<close>

definition validate_receipt_order ::
    "gameplay_state \<Rightarrow> ((transaction_id, unit) btree \<times> world_revision option) outcome" where
  "validate_receipt_order s =
     try_fold (\<lambda>tid (seen, previous).
       and_then (ok_or (bt_get (gs_recent_receipts s) tid) retry_ledger_failed) (\<lambda>receipt.
       if bt_contains seen tid
          \<or> rec_transaction_id receipt \<noteq> tid
          \<or> gs_observed_world_revision s < rec_observed_world_revision receipt
          \<or> (case previous of None \<Rightarrow> False | Some p \<Rightarrow> rec_observed_world_revision receipt < p)
       then Inl retry_ledger_failed
       else Inr (bt_insert tid () seen, Some (rec_observed_world_revision receipt))))
       (gs_receipt_order s) (bt_empty, None)"

definition validate_retry_ledger :: "gameplay_state \<Rightarrow> unit outcome" where
  "validate_retry_ledger s =
     (if length (gs_receipt_order s) \<noteq> bt_len (gs_recent_receipts s)
      then Inl retry_ledger_failed
      else and_then (validate_receipt_order s) (\<lambda>(seen, previous).
        and_then (case gs_receipt_order s of
            oldest_id # _ \<Rightarrow>
              and_then (ok_or (bt_get (gs_recent_receipts s) oldest_id) retry_ledger_failed)
                (\<lambda>oldest. if gs_oldest_replayable_world_revision s
                    \<noteq> rec_observed_world_revision oldest
                  then Inl retry_ledger_failed else Inr ())
          | [] \<Rightarrow> if gs_oldest_replayable_world_revision s \<noteq> 0
              then Inl retry_ledger_failed else Inr ()) (\<lambda>_.
        case gs_pending_receipt s of
          Some pending \<Rightarrow>
            if rec_observed_world_revision pending \<noteq> gs_observed_world_revision s
               \<or> bt_contains (gs_recent_receipts s) (rec_transaction_id pending)
               \<or> (case previous of None \<Rightarrow> False
                   | Some p \<Rightarrow> rec_observed_world_revision pending < p)
            then Inl (MutationPreconditionFailed ''pending_retry_receipt'') else Inr ()
        | None \<Rightarrow> Inr ())))"

text \<open>Players, containers and drops share one identifier space.\<close>

definition validate_entity_ids :: "gameplay_state \<Rightarrow> unit outcome" where
  "validate_entity_ids s =
     and_then (try_fold (\<lambda>e seen.
         if bt_contains seen e then Inl (DuplicateStateKey ''persistent_entity'')
         else Inr (bt_insert e () seen))
       (bt_keys (gs_inventories s) @ bt_keys (gs_containers s) @ bt_keys (gs_drops s)) bt_empty)
       (\<lambda>_. Inr ())"

definition validate_slots :: "catalog \<Rightarrow> slots \<Rightarrow> unit outcome" where
  "validate_slots cat xs = try_each (validate_stack cat) (List.map_filter id xs)"

definition validate_inventories :: "catalog \<Rightarrow> gameplay_state \<Rightarrow> unit outcome" where
  "validate_inventories cat s =
     try_each (\<lambda>ivt.
       and_then (validate_structure ivt) (\<lambda>_.
       and_then (require_target_domain (inv_target ivt) PersistentEntities) (\<lambda>_.
       and_then (require_loaded_chunk s (et_chunk (inv_target ivt))) (\<lambda>_.
       validate_slots cat (inv_slots ivt))))) (bt_values (gs_inventories s))"

definition validate_blocks :: "catalog \<Rightarrow> gameplay_state \<Rightarrow> unit outcome" where
  "validate_blocks cat s =
     try_each (\<lambda>(key, block).
       and_then (require_loaded_chunk s (block_chunk s key)) (\<lambda>_.
       if catalog_block cat block = None then Inl (UnknownReference ''block'' block)
       else Inr ())) (entries (gs_blocks s))"

definition validate_drops :: "catalog \<Rightarrow> gameplay_state \<Rightarrow> unit outcome" where
  "validate_drops cat s =
     try_each (\<lambda>d.
       and_then (require_loaded_chunk s (block_chunk s (drop_location d)))
         (\<lambda>_. validate_stack cat (drop_stack d))) (bt_values (gs_drops s))"

definition validate_containers :: "catalog \<Rightarrow> gameplay_state \<Rightarrow> unit outcome" where
  "validate_containers cat s =
     try_each (\<lambda>(cid, c).
       if cid \<noteq> co_entity (con_owner c)
       then Inl (MutationPreconditionFailed ''container_owner_identity'')
       else if con_slots c = [] \<or> 256 < length (con_slots c)
       then Inl (LimitExceeded ''container_slots'' 256 (length (con_slots c)))
       else and_then (require_loaded_chunk s (owner_chunk_key (con_owner c))) (\<lambda>_.
         and_then (case con_workstation c of
             Some w \<Rightarrow> if bt_contains (cat_workstations cat) w then Inr ()
               else Inl (UnknownReference ''workstation'' w)
           | None \<Rightarrow> Inr ()) (\<lambda>_.
         validate_slots cat (con_slots c)))) (entries (gs_containers s))"

definition validate_break_progress :: "catalog \<Rightarrow> gameplay_state \<Rightarrow> unit outcome" where
  "validate_break_progress cat s =
     and_then (try_fold (\<lambda>(key, progress) seen.
       and_then (require_loaded_chunk s (block_chunk s (bpk_block key))) (\<lambda>_.
       if \<not> bt_contains (gs_inventories s) (bpk_player key)
       then Inl (UnknownPlayer (bpk_player key))
       else if bt_contains seen (bpk_player key)
       then Inl (MutationPreconditionFailed ''multiple_mining_targets_per_player'')
       else if bt_get (gs_blocks s) (bpk_block key) \<noteq> Some (bp_block progress)
       then Inl (MutationPreconditionFailed ''break_progress_block'')
       else if catalog_block cat (bp_block progress) = None
       then Inl (UnknownReference ''block'' (bp_block progress))
       else Inr (bt_insert (bpk_player key) () seen))) (entries (gs_break_progress s)) bt_empty)
     (\<lambda>_. Inr ())"

definition validate_continuations :: "catalog \<Rightarrow> gameplay_state \<Rightarrow> unit outcome" where
  "validate_continuations cat s =
     and_then (try_fold (\<lambda>c owners.
       and_then (require_target_domain (fc_target c) Continuations) (\<lambda>_.
       and_then (require_loaded_chunk s (et_chunk (fc_target c))) (\<lambda>_.
       if bt_contains owners (fc_container c) then Inl ProcessAlreadyScheduled
       else and_then (ok_or (bt_get (gs_containers s) (fc_container c))
           ContinuationOwnerMissing) (\<lambda>con.
         if et_chunk (fc_target c) \<noteq> owner_chunk_key (con_owner con)
         then Inl (MutationPreconditionFailed ''continuation_target'')
         else and_then (ok_or (catalog_process cat (fc_process c))
             (UnknownReference ''process'' (fc_process c))) (\<lambda>p.
           if con_workstation con \<noteq> Some (pdef_workstation p)
           then Inl (WorkstationRequired (pdef_workstation p))
           else and_then (slot_ref (con_slots con) (fc_output_slot c)) (\<lambda>_.
             and_then (validate_stack cat (fc_pending_output c)) (\<lambda>_.
             Inr (bt_insert (fc_container c) () owners))))))))
       (bt_values (gs_continuations s)) bt_empty)
     (\<lambda>_. Inr ())"

definition validate_pending_hash :: "digest_function \<Rightarrow> gameplay_state \<Rightarrow> unit outcome" where
  "validate_pending_hash sha s =
     (case gs_pending_receipt s of
        Some pending \<Rightarrow>
          if rec_state_hash pending \<noteq> state_hash sha s
          then Inl (MutationPreconditionFailed ''pending_state_hash'') else Inr ()
      | None \<Rightarrow> Inr ())"

definition validate_loaded :: "digest_function \<Rightarrow> catalog \<Rightarrow> gameplay_state \<Rightarrow> unit outcome" where
  "validate_loaded sha cat s =
     and_then (validate_collection_limits s) (\<lambda>_.
     and_then (validate_retry_ledger s) (\<lambda>_.
     and_then (validate_entity_ids s) (\<lambda>_.
     and_then (validate_inventories cat s) (\<lambda>_.
     and_then (validate_blocks cat s) (\<lambda>_.
     and_then (validate_drops cat s) (\<lambda>_.
     and_then (validate_containers cat s) (\<lambda>_.
     and_then (validate_break_progress cat s) (\<lambda>_.
     and_then (validate_continuations cat s) (\<lambda>_.
     validate_pending_hash sha s)))))))))"

end
