(* ===== verification/Example.thy ===== *)
theory Example
  imports State Catalog_Compile "HOL-Library.Code_Target_Nat"
begin

section \<open>A small world for concrete runs\<close>

text \<open>
  A catalog with a placeable block, an ore that smelts, a fuel and a tool, and a world
  with one loaded chunk, one player and one furnace. The concrete theorems of the
  development evaluate the modelled functions on it.
\<close>

subsection \<open>Evaluation of small words and of text\<close>

text \<open>
  Equations under which identifiers and encodings evaluate quickly: truncating a small
  integer does nothing, and a character's byte is computed through its natural number.
\<close>

lemma mod_power_small:
  assumes "8 \<le> n" "0 \<le> (k::int)" "k < 256"
  shows "k mod 2 ^ n = k"
proof -
  have "(2::int) ^ 8 \<le> 2 ^ n" using assms(1) by (intro power_increasing) simp_all
  with assms(2,3) show ?thesis by (intro mod_pos_pos_trivial) simp_all
qed

lemma take_bit_int_small [code]:
  "take_bit n (k :: int) = (if 8 \<le> n \<and> 0 \<le> k \<and> k < 256 then k else k mod 2 ^ n)"
  by (auto simp: take_bit_eq_mod mod_power_small)

lemma string_bytes_code [code]: "string_bytes s = map (\<lambda>c. word_of_nat (of_char c)) s"
  by (simp only: string_bytes_def of_nat_of_char)

subsection \<open>The catalog and the world\<close>

definition dirt_stack :: "nat \<Rightarrow> item_stack" where
  "dirt_stack n = \<lparr>stack_item = ''dirt'', stack_quantity = n, stack_state = Plain\<rparr>"

definition ore_stack :: "nat \<Rightarrow> item_stack" where
  "ore_stack n = \<lparr>stack_item = ''ore'', stack_quantity = n, stack_state = Plain\<rparr>"

definition coal_stack :: "nat \<Rightarrow> item_stack" where
  "coal_stack n = \<lparr>stack_item = ''coal'', stack_quantity = n, stack_state = Plain\<rparr>"

definition ingot_stack :: "nat \<Rightarrow> item_stack" where
  "ingot_stack n = \<lparr>stack_item = ''ingot'', stack_quantity = n, stack_state = Plain\<rparr>"

definition pick_stack :: "nat \<Rightarrow> item_stack" where
  "pick_stack n = \<lparr>stack_item = ''pick'', stack_quantity = 1, stack_state = ToolDurability n\<rparr>"

definition sample_source :: catalog_source where
  "sample_source =
     \<lparr>src_items =
        [\<lparr>idef_id = ''dirt'', idef_stack_limit = 64, idef_placement_block = Some ''dirt'',
          idef_durability = None\<rparr>,
         \<lparr>idef_id = ''ore'', idef_stack_limit = 64, idef_placement_block = None,
          idef_durability = None\<rparr>,
         \<lparr>idef_id = ''coal'', idef_stack_limit = 64, idef_placement_block = None,
          idef_durability = None\<rparr>,
         \<lparr>idef_id = ''ingot'', idef_stack_limit = 64, idef_placement_block = None,
          idef_durability = None\<rparr>,
         \<lparr>idef_id = ''pick'', idef_stack_limit = 1, idef_placement_block = None,
          idef_durability = Some 10\<rparr>],
      src_blocks =
        [\<lparr>bdef_id = ''dirt'', bdef_mining = \<lparr>mr_hardness = 2, mr_tool = None\<rparr>,
          bdef_drop = dirt_stack 1\<rparr>,
         \<lparr>bdef_id = ''vein'', bdef_mining = \<lparr>mr_hardness = 6,
            mr_tool = Some \<lparr>treq_class = ''pick'', treq_minimum_tier = 1\<rparr>\<rparr>,
          bdef_drop = ore_stack 2\<rparr>],
      src_tools =
        [\<lparr>tdef_item = ''pick'', tdef_class = ''pick'', tdef_tier = 1, tdef_work_per_step = 3,
          tdef_maximum_durability = 10\<rparr>],
      src_tags = [\<lparr>tagdef_id = ''fuel'', tagdef_members = [''coal'']\<rparr>],
      src_categories = [],
      src_roles = [\<lparr>roledef_id = ''metal'', roledef_accepts = Exact ''ingot''\<rparr>],
      src_bindings = [\<lparr>frb_role = ''metal'', frb_item = ''ingot''\<rparr>],
      src_recipes =
        [\<lparr>rdef_id = ''melt'', rdef_workstation = None,
          rdef_pattern = Shapeless
            [\<lparr>ing_accepts = AnyOf [Exact ''ore'', Exact ''dirt''], ing_quantity = 2\<rparr>,
             \<lparr>ing_accepts = Exact ''ore'', ing_quantity = 1\<rparr>],
          rdef_output = \<lparr>out_role = ''metal'', out_quantity = 1\<rparr>\<rparr>],
      src_workstations = [''furnace''],
      src_processes =
        [\<lparr>pdef_id = ''smelt'', pdef_workstation = ''furnace'',
          pdef_input = \<lparr>ing_accepts = Exact ''ore'', ing_quantity = 1\<rparr>,
          pdef_output = \<lparr>out_role = ''metal'', out_quantity = 1\<rparr>, pdef_duration_ticks = 50\<rparr>],
      src_fuel_rules = [\<lparr>fuel_accepts = InTag ''fuel'', fuel_burn_ticks = 100\<rparr>],
      src_block_schema_bindings = []\<rparr>"

definition of_pairs :: "('k::linorder \<times> 'v) list \<Rightarrow> ('k, 'v) btree" where
  "of_pairs kvs = foldr (\<lambda>(k, v) m. bt_insert k v m) kvs bt_empty"

definition sample_catalog :: catalog where
  "sample_catalog =
     \<lparr>cat_items = of_pairs
        [(''coal'', \<lparr>idef_id = ''coal'', idef_stack_limit = 64, idef_placement_block = None,
            idef_durability = None\<rparr>),
         (''dirt'', \<lparr>idef_id = ''dirt'', idef_stack_limit = 64, idef_placement_block = Some ''dirt'',
            idef_durability = None\<rparr>),
         (''ingot'', \<lparr>idef_id = ''ingot'', idef_stack_limit = 64, idef_placement_block = None,
            idef_durability = None\<rparr>),
         (''ore'', \<lparr>idef_id = ''ore'', idef_stack_limit = 64, idef_placement_block = None,
            idef_durability = None\<rparr>),
         (''pick'', \<lparr>idef_id = ''pick'', idef_stack_limit = 1, idef_placement_block = None,
            idef_durability = Some 10\<rparr>)],
      cat_blocks = of_pairs
        [(''dirt'', \<lparr>bdef_id = ''dirt'', bdef_mining = \<lparr>mr_hardness = 2, mr_tool = None\<rparr>,
            bdef_drop = dirt_stack 1\<rparr>),
         (''vein'', \<lparr>bdef_id = ''vein'', bdef_mining = \<lparr>mr_hardness = 6,
              mr_tool = Some \<lparr>treq_class = ''pick'', treq_minimum_tier = 1\<rparr>\<rparr>,
            bdef_drop = ore_stack 2\<rparr>)],
      cat_tools = of_pairs
        [(''pick'', \<lparr>tdef_item = ''pick'', tdef_class = ''pick'', tdef_tier = 1,
            tdef_work_per_step = 3, tdef_maximum_durability = 10\<rparr>)],
      cat_tags = of_pairs [(''fuel'', of_pairs [(''coal'', ())])],
      cat_categories = bt_empty, cat_category_by_item = bt_empty,
      cat_roles = of_pairs [(''metal'', \<lparr>roledef_id = ''metal'', roledef_accepts = Exact ''ingot''\<rparr>)],
      cat_bindings = of_pairs [(''metal'', ''ingot'')],
      cat_recipes = of_pairs
        [(''melt'', \<lparr>rdef_id = ''melt'', rdef_workstation = None,
            rdef_pattern = Shapeless
              [\<lparr>ing_accepts = AnyOf [Exact ''ore'', Exact ''dirt''], ing_quantity = 2\<rparr>,
               \<lparr>ing_accepts = Exact ''ore'', ing_quantity = 1\<rparr>],
            rdef_output = \<lparr>out_role = ''metal'', out_quantity = 1\<rparr>\<rparr>)],
      cat_workstations = of_pairs [(''furnace'', ())],
      cat_processes = of_pairs
        [(''smelt'', \<lparr>pdef_id = ''smelt'', pdef_workstation = ''furnace'',
            pdef_input = \<lparr>ing_accepts = Exact ''ore'', ing_quantity = 1\<rparr>,
            pdef_output = \<lparr>out_role = ''metal'', out_quantity = 1\<rparr>, pdef_duration_ticks = 50\<rparr>)],
      cat_fuel_rules = [\<lparr>fuel_accepts = InTag ''fuel'', fuel_burn_ticks = 100\<rparr>],
      cat_block_schema_bindings = bt_empty, cat_limits = default_catalog_limits\<rparr>"

lemma compile_sample: "compile sample_source default_catalog_limits = Inr sample_catalog"
  by code_simp

definition sample_chunk :: dimension_chunk_key where
  "sample_chunk = DimensionChunkKey ''w'' (ChunkCoordinate 0 0 0)"

definition sample_inventory :: inventory_state where
  "sample_inventory =
     \<lparr>inv_target = GameplayEditTarget sample_chunk PersistentEntities, inv_revision = 3,
      inv_hotbar_slots = 2, inv_selected_hotbar = 0,
      inv_slots = [Some (pick_stack 10), Some (dirt_stack 5), Some (ore_stack 3), None]\<rparr>"

definition sample_container :: container_state where
  "sample_container =
     \<lparr>con_owner = \<lparr>co_dimension = ''w'', co_chunk = ChunkCoordinate 0 0 0, co_entity = 2\<rparr>,
      con_workstation = Some ''furnace'', con_revision = 7,
      con_slots = [Some (ore_stack 4), Some (coal_stack 2), None]\<rparr>"

definition block_at :: "int \<Rightarrow> block_key" where
  "block_at x = BlockKey ''w'' (BlockPosition x 1 1)"

definition sample_state :: gameplay_state where
  "sample_state =
     \<lparr>gs_observed_world_revision = 5, gs_inventories = of_pairs [(1, sample_inventory)],
      gs_blocks = of_pairs [(block_at 3, ''dirt''), (block_at 4, ''vein'')],
      gs_loaded_chunks = of_pairs [(sample_chunk, 4)],
      gs_drops = of_pairs [(9, \<lparr>drop_location = block_at 5, drop_stack = dirt_stack 3\<rparr>)],
      gs_containers = of_pairs [(2, sample_container)],
      gs_break_progress = bt_empty, gs_continuations = bt_empty,
      gs_recent_receipts = bt_empty, gs_receipt_order = [], gs_pending_receipt = None,
      gs_oldest_replayable_world_revision = 0, gs_limits = default_gameplay_limits,
      gs_chunk_edge = 32\<rparr>"

text \<open>The host reaches this state by seeding an empty one.\<close>

lemma sample_seeded:
  "Inr sample_state =
     (and_then (new_state default_gameplay_limits) (\<lambda>s.
      and_then (observe_world_revision s 5) (\<lambda>s.
      and_then (seed_loaded_chunk s sample_chunk 4) (\<lambda>s.
      and_then (seed_player s 1 sample_inventory) (\<lambda>s.
      and_then (seed_container s 2 sample_container) (\<lambda>s.
      and_then (seed_block s (block_at 3) ''dirt'') (\<lambda>s.
      and_then (seed_block s (block_at 4) ''vein'') (\<lambda>s.
      seed_drop s 9 \<lparr>drop_location = block_at 5, drop_stack = dirt_stack 3\<rparr>))))))))"
  by code_simp

text \<open>A stand-in digest: the first bytes of the preimage, padded to 32 bytes.\<close>

definition sample_sha :: digest_function where
  "sample_sha bytes = take 32 (bytes @ replicate 32 0)"

lemma validate_sample: "validate_loaded sample_sha sample_catalog sample_state = Inr ()"
  by code_simp

end
