(* ===== verification/Slots.thy ===== *)
theory Slots
  imports Example
begin

section \<open>Moving item stacks between slots\<close>

text \<open>
  The slot helpers of \<open>kernel.rs\<close>: inserting a stack across an inventory, merging into
  one slot, moving a quantity from one slot vector to another, and the staged edits that
  turn one slot vector into another. The lemmas say that units of every item are
  conserved, that slots keep to the catalog, and exactly when an insertion succeeds.
\<close>

datatype destination = ToInventory | ToOutput

definition full_reject :: "destination \<Rightarrow> gameplay_reject" where
  "full_reject d = (case d of ToInventory \<Rightarrow> InventoryFull | ToOutput \<Rightarrow> OutputFull)"

definition can_stack :: "item_stack \<Rightarrow> item_stack \<Rightarrow> bool" where
  "can_stack left right \<longleftrightarrow>
     stack_item left = stack_item right \<and> stack_state left = stack_state right \<and>
     stack_state left = Plain"

subsection \<open>Inserting a stack\<close>

definition slot_capacity :: "u32 \<Rightarrow> item_stack \<Rightarrow> item_stack option \<Rightarrow> u32 outcome" where
  "slot_capacity limit stack slot =
     (case slot of
        Some existing \<Rightarrow>
          if can_stack existing stack
          then ok_or (checked_sub limit (stack_quantity existing)) QuantityOverflow else Inr 0
      | None \<Rightarrow> Inr limit)"

definition total_capacity :: "u32 \<Rightarrow> item_stack \<Rightarrow> slots \<Rightarrow> u64 outcome" where
  "total_capacity limit stack xs =
     try_fold (\<lambda>slot acc. and_then (slot_capacity limit stack slot)
       (\<lambda>capacity. ok_or (checked_add u64_max acc capacity) QuantityOverflow)) xs 0"

text \<open>
  One step of each of the two loops over the slots: topping up a stackable slot, then
  using an empty one. Both loops stop when nothing remains.
\<close>

definition top_up_slot ::
    "u32 \<Rightarrow> item_stack \<Rightarrow> item_stack option \<Rightarrow> u32 \<Rightarrow> (item_stack option \<times> u32) outcome" where
  "top_up_slot limit stack slot remaining =
     (case slot of
        Some existing \<Rightarrow>
          if can_stack existing stack
          then and_then (ok_or (checked_sub limit (stack_quantity existing)) QuantityOverflow)
            (\<lambda>capacity. let add = min remaining capacity in
            and_then (ok_or (checked_add u32_max (stack_quantity existing) add)
              QuantityOverflow) (\<lambda>n.
            and_then (with_quantity existing n) (\<lambda>merged.
            and_then (ok_or merged QuantityOverflow) (\<lambda>existing'.
            and_then (ok_or (checked_sub remaining add) QuantityOverflow) (\<lambda>remaining'.
            Inr (Some existing', remaining'))))))
          else Inr (slot, remaining)
      | None \<Rightarrow> Inr (slot, remaining))"

definition use_empty_slot ::
    "u32 \<Rightarrow> item_stack \<Rightarrow> item_stack option \<Rightarrow> u32 \<Rightarrow> (item_stack option \<times> u32) outcome" where
  "use_empty_slot limit stack slot remaining =
     (case slot of
        None \<Rightarrow>
          let add = min remaining limit in
          and_then (with_quantity stack add) (\<lambda>slot'.
          and_then (ok_or (checked_sub remaining add) QuantityOverflow) (\<lambda>remaining'.
          Inr (slot', remaining')))
      | Some _ \<Rightarrow> Inr (slot, remaining))"

fun fill_slots ::
    "(item_stack option \<Rightarrow> u32 \<Rightarrow> (item_stack option \<times> u32) outcome) \<Rightarrow> slots \<Rightarrow> u32 \<Rightarrow>
     (slots \<times> u32) outcome" where
  "fill_slots step [] remaining = Inr ([], remaining)"
| "fill_slots step (slot # xs) remaining =
     (if remaining = 0 then Inr (slot # xs, 0)
      else and_then (step slot remaining) (\<lambda>(slot', remaining').
        and_then (fill_slots step xs remaining') (\<lambda>(xs', rest).
        Inr (slot' # xs', rest))))"

definition insert_stack :: "catalog \<Rightarrow> slots \<Rightarrow> item_stack \<Rightarrow> destination \<Rightarrow> slots outcome" where
  "insert_stack cat xs stack destination =
     and_then (validate_stack cat stack) (\<lambda>_.
     and_then (ok_or (catalog_item cat (stack_item stack))
         (UnknownReference ''item'' (stack_item stack))) (\<lambda>d.
     let limit = idef_stack_limit d in
     and_then (total_capacity limit stack xs) (\<lambda>capacity.
     if capacity < stack_quantity stack then Inl (full_reject destination)
     else and_then (fill_slots (top_up_slot limit stack) xs (stack_quantity stack)) (\<lambda>(xs1, r1).
       and_then (fill_slots (use_empty_slot limit stack) xs1 r1) (\<lambda>(xs2, r2).
       if r2 \<noteq> 0 then Inl QuantityOverflow else Inr xs2)))))"

subsection \<open>One slot\<close>

definition can_merge_single_slot ::
    "catalog \<Rightarrow> item_stack option \<Rightarrow> item_stack \<Rightarrow> destination \<Rightarrow> unit outcome" where
  "can_merge_single_slot cat existing incoming destination =
     and_then (validate_stack cat incoming) (\<lambda>_.
     and_then (ok_or (catalog_item cat (stack_item incoming))
         (UnknownReference ''item'' (stack_item incoming))) (\<lambda>d.
     let accepted = (case existing of
         None \<Rightarrow> stack_quantity incoming \<le> idef_stack_limit d
       | Some e \<Rightarrow>
           if can_stack e incoming
           then (case checked_add u32_max (stack_quantity e) (stack_quantity incoming) of
               Some n \<Rightarrow> n \<le> idef_stack_limit d
             | None \<Rightarrow> False)
           else False) in
     if accepted then Inr () else Inl (full_reject destination)))"

definition merge_single_slot ::
    "catalog \<Rightarrow> slots \<Rightarrow> slot_index \<Rightarrow> item_stack \<Rightarrow> destination \<Rightarrow> slots outcome" where
  "merge_single_slot cat xs slot incoming destination =
     and_then (slot_ref xs slot) (\<lambda>existing.
     and_then (can_merge_single_slot cat existing incoming destination) (\<lambda>_.
     and_then (case existing of
         Some e \<Rightarrow>
           and_then (ok_or (checked_add u32_max (stack_quantity e) (stack_quantity incoming))
             QuantityOverflow) (\<lambda>n.
           and_then (with_quantity e n) (\<lambda>merged. ok_or merged QuantityOverflow))
       | None \<Rightarrow> Inr incoming) (\<lambda>replacement.
     Inr (xs[slot := Some replacement]))))"

definition occupied_slot :: "slots \<Rightarrow> slot_index \<Rightarrow> item_stack outcome" where
  "occupied_slot xs slot = and_then (slot_ref xs slot) (\<lambda>v. ok_or v EmptySlot)"

definition move_quantity ::
    "catalog \<Rightarrow> slots \<Rightarrow> slot_index \<Rightarrow> slots \<Rightarrow> slot_index \<Rightarrow> u32 \<Rightarrow> destination \<Rightarrow>
     (slots \<times> slots) outcome" where
  "move_quantity cat source_slots source_slot target_slots target_slot quantity destination =
     and_then (occupied_slot source_slots source_slot) (\<lambda>source.
     if stack_quantity source < quantity then Inl SlotMismatch
     else if stack_state source \<noteq> Plain \<and> quantity \<noteq> 1
     then Inl (StatefulStackQuantity quantity)
     else and_then (with_quantity source quantity) (\<lambda>m.
       and_then (ok_or m ZeroQuantity) (\<lambda>moved.
       and_then (slot_ref target_slots target_slot) (\<lambda>existing.
       and_then (can_merge_single_slot cat existing moved destination) (\<lambda>_.
       and_then (with_quantity source (stack_quantity source - quantity)) (\<lambda>rest.
       and_then (merge_single_slot cat target_slots target_slot moved destination)
         (\<lambda>target_slots'. Inr (source_slots[source_slot := rest], target_slots'))))))))"

definition validate_unique_slots :: "slot_index list \<Rightarrow> unit outcome" where
  "validate_unique_slots slots =
     (if distinct slots then Inr () else Inl (InvalidRecipe ''recipe input slots must be unique''))"

subsection \<open>Staged edits between two slot vectors\<close>

text \<open>
  The loop over \<open>before.slots.iter().zip(after).enumerate()\<close>, shared by the two diff
  functions: \<open>mk\<close> builds the slot edit and \<open>mk_rev\<close> the edit that advances the
  component revision when any slot changed.
\<close>

fun slot_edits ::
    "string \<Rightarrow> (slot_index \<Rightarrow> item_stack option \<Rightarrow> item_stack option \<Rightarrow> mutation_intent) \<Rightarrow>
     nat \<Rightarrow> slots \<Rightarrow> slots \<Rightarrow> mutation_intent list outcome" where
  "slot_edits resource mk i (old # before) (new # after) =
     (if old \<noteq> new
      then and_then (ok_or (try_from u16_max i) (LimitExceeded resource u16_max i)) (\<lambda>slot.
        and_then (slot_edits resource mk (Suc i) before after) (\<lambda>es.
        Inr (mk slot old new # es)))
      else slot_edits resource mk (Suc i) before after)"
| "slot_edits resource mk i _ _ = Inr []"

definition revision_edit ::
    "string \<Rightarrow> (u64 \<Rightarrow> u64 \<Rightarrow> mutation_intent) \<Rightarrow> u64 \<Rightarrow> mutation_intent list \<Rightarrow>
     mutation_intent list outcome" where
  "revision_edit counter mk_rev revision es =
     (if es \<noteq> []
      then and_then (ok_or (checked_add u64_max revision 1) (RevisionOverflow counter))
        (\<lambda>next. Inr (es @ [mk_rev revision next]))
      else Inr es)"

definition inventory_diff ::
    "player_id \<Rightarrow> inventory_state \<Rightarrow> slots \<Rightarrow> mutation_intent list outcome" where
  "inventory_diff player before after =
     and_then (slot_edits ''inventory_slots'' (InventorySlot (inv_target before) player) 0
         (inv_slots before) after)
       (revision_edit ''inventory_revision'' (InventoryRevision (inv_target before) player)
         (inv_revision before))"

definition container_entity_target :: "container_state \<Rightarrow> edit_target" where
  "container_entity_target c =
     GameplayEditTarget (owner_chunk_key (con_owner c)) PersistentEntities"

definition container_diff ::
    "container_id \<Rightarrow> container_state \<Rightarrow> slots \<Rightarrow> mutation_intent list outcome" where
  "container_diff cid before after =
     and_then (slot_edits ''container_slots'' (ContainerSlot (container_entity_target before) cid) 0
         (con_slots before) after)
       (revision_edit ''container_revision'' (ContainerRevision (container_entity_target before) cid)
         (con_revision before))"

subsection \<open>Lawful slots and item counts\<close>

text \<open>A slot vector whose stacks are typed and pass \<open>validate_stack\<close>.\<close>

definition slots_ok :: "catalog \<Rightarrow> slots \<Rightarrow> bool" where
  "slots_ok cat xs \<longleftrightarrow>
     (\<forall>s. Some s \<in> set xs \<longrightarrow> stack_typed s \<and> validate_stack cat s = Inr ())"

lemma slots_ok_code [code]:
  "slots_ok cat xs \<longleftrightarrow>
     list_all (\<lambda>slot. case slot of None \<Rightarrow> True
       | Some s \<Rightarrow> stack_typed s \<and> is_ok (validate_stack cat s)) xs"
  by (auto simp: slots_ok_def list_all_iff is_ok_iff split: option.splits)

definition item_total :: "item_id \<Rightarrow> slots \<Rightarrow> nat" where
  "item_total i xs = sum_list (map (slot_count i) xs)"

lemma item_total_simps [simp]:
  "item_total i [] = 0"
  "item_total i (x # xs) = slot_count i x + item_total i xs"
  "item_total i (xs @ ys) = item_total i xs + item_total i ys"
  by (simp_all add: item_total_def)

lemma item_total_update:
  "k < length xs \<Longrightarrow>
   item_total i (xs[k := v]) + slot_count i (xs ! k) = item_total i xs + slot_count i v"
  unfolding item_total_def by (rule sum_list_update_nat)

lemma slots_ok_simps [simp]:
  "slots_ok cat []"
  "slots_ok cat (None # xs) \<longleftrightarrow> slots_ok cat xs"
  "slots_ok cat (Some s # xs) \<longleftrightarrow>
     stack_typed s \<and> validate_stack cat s = Inr () \<and> slots_ok cat xs"
  by (auto simp: slots_ok_def)

lemma slots_ok_update:
  "slots_ok cat xs \<Longrightarrow> (\<And>s. v = Some s \<Longrightarrow> stack_typed s \<and> validate_stack cat s = Inr ()) \<Longrightarrow>
   slots_ok cat (xs[k := v])"
  unfolding slots_ok_def using set_update_subset_insert [of xs k v] by blast

lemma slots_ok_nth:
  "slots_ok cat xs \<Longrightarrow> k < length xs \<Longrightarrow> xs ! k = Some s \<Longrightarrow>
   stack_typed s \<and> validate_stack cat s = Inr ()"
  unfolding slots_ok_def by (metis nth_mem)

lemma validate_slots_Inr:
  "validate_slots cat xs = Inr () \<longleftrightarrow> (\<forall>s. Some s \<in> set xs \<longrightarrow> validate_stack cat s = Inr ())"
  by (induction xs)
    (auto simp: validate_slots_def List.map_filter_simps result_simps split: option.splits)

lemma can_stack_iff:
  "can_stack a b \<longleftrightarrow> stack_item a = stack_item b \<and> stack_state a = Plain \<and> stack_state b = Plain"
  by (auto simp: can_stack_def)

text \<open>What validation says of a stack in terms of its definition.\<close>

lemma validate_stack_Inr:
  "validate_stack cat s = Inr u \<longleftrightarrow>
     (\<exists>d. catalog_item cat (stack_item s) = Some d \<and> stack_quantity s \<le> idef_stack_limit d \<and>
       (case stack_state s of
          Plain \<Rightarrow> idef_durability d = None
        | ToolDurability r \<Rightarrow> stack_quantity s = 1 \<and>
            (case idef_durability d of None \<Rightarrow> False | Some m \<Rightarrow> r \<le> m)))"
proof (cases "catalog_item cat (stack_item s)")
  case None
  then show ?thesis by (simp add: validate_stack_def catalog_item_def)
next
  case (Some d)
  then show ?thesis
    by (cases "stack_state s"; cases "idef_durability d")
      (auto simp: validate_stack_def catalog_item_def)
qed

lemma validate_stack_less:
  assumes "validate_stack cat s = Inr ()" "0 < q" "q \<le> stack_quantity s"
    "stack_state s = Plain \<or> q = 1"
  shows "validate_stack cat (s\<lparr>stack_quantity := q\<rparr>) = Inr ()"
  using assms by (auto simp: validate_stack_Inr split: item_state.splits)

subsection \<open>Correctness of insertion\<close>

definition capacity_of :: "nat \<Rightarrow> item_stack \<Rightarrow> slots \<Rightarrow> nat" where
  "capacity_of limit stack xs =
     sum_list (map (\<lambda>slot. case slot of
         None \<Rightarrow> limit
       | Some e \<Rightarrow> if can_stack e stack then limit - stack_quantity e else 0) xs)"

text \<open>
  What one step of either loop does: it moves \<open>add\<close> units from the remainder into the
  slot and leaves the slot lawful.
\<close>

definition fill_step_ok ::
    "catalog \<Rightarrow> item_stack \<Rightarrow> (item_stack option \<Rightarrow> u32 \<Rightarrow> (item_stack option \<times> u32) outcome) \<Rightarrow>
     bool" where
  "fill_step_ok cat stack step \<longleftrightarrow>
     (\<forall>slot r slot' r'. step slot r = Inr (slot', r') \<longrightarrow>
        r' \<le> r \<and>
        (\<forall>i. slot_count i slot' + (if i = stack_item stack then r' else 0) =
             slot_count i slot + (if i = stack_item stack then r else 0)) \<and>
        (slots_ok cat [slot] \<longrightarrow> slots_ok cat [slot']))"

lemma fill_slots_spec:
  assumes step: "fill_step_ok cat stack step"
    and ok: "fill_slots step xs r = Inr (ys, r')"
  shows "length ys = length xs \<and> r' \<le> r \<and>
    (\<forall>i. item_total i ys + (if i = stack_item stack then r' else 0) =
         item_total i xs + (if i = stack_item stack then r else 0)) \<and>
    (slots_ok cat xs \<longrightarrow> slots_ok cat ys)"
  using ok
proof (induction xs arbitrary: r ys r')
  case Nil
  then show ?case by simp
next
  case (Cons slot xs)
  show ?case
  proof (cases "r = 0")
    case True
    with Cons.prems show ?thesis by auto
  next
    case False
    with Cons.prems obtain slot' q zs where
      s: "step slot r = Inr (slot', q)" and rest: "fill_slots step xs q = Inr (zs, r')"
      and ys: "ys = slot' # zs"
      by (auto simp: result_simps)
    have one: "q \<le> r" "\<And>i. slot_count i slot' + (if i = stack_item stack then q else 0) =
             slot_count i slot + (if i = stack_item stack then r else 0)"
      "slots_ok cat [slot] \<longrightarrow> slots_ok cat [slot']"
      using step s unfolding fill_step_ok_def by blast+
    note IH = Cons.IH [OF rest]
    have "item_total i ys + (if i = stack_item stack then r' else 0) =
         item_total i (slot # xs) + (if i = stack_item stack then r else 0)" for i
      using IH one(2) [of i] ys by (auto split: if_splits)
    moreover have "slots_ok cat (slot # xs) \<longrightarrow> slots_ok cat ys"
      using IH one(3) ys by (cases slot; cases slot') auto
    ultimately show ?thesis using IH one(1) ys by auto
  qed
qed

lemma top_up_slot_Some:
  "top_up_slot limit stack (Some e) r = Inr (slot', r') \<longleftrightarrow>
     (if can_stack e stack
      then stack_quantity e \<le> limit \<and>
        (let add = min r (limit - stack_quantity e) in
         stack_quantity e + add \<le> u32_max \<and> stack_quantity e + add \<noteq> 0 \<and>
         slot' = Some (e\<lparr>stack_quantity := stack_quantity e + add\<rparr>) \<and> r' = r - add)
      else slot' = Some e \<and> r' = r)"
proof (cases "can_stack e stack")
  case True
  then have "stack_state e = Plain" by (simp add: can_stack_iff)
  with True show ?thesis
    by (auto simp: top_up_slot_def Let_def checked_sub_def checked_add_def with_quantity_def)
next
  case False
  then show ?thesis by (auto simp: top_up_slot_def)
qed

lemma top_up_slot_None: "top_up_slot limit stack None r = Inr (None, r)"
  by (simp add: top_up_slot_def)

lemma use_empty_slot_None:
  "use_empty_slot limit stack None r = Inr (slot', r') \<longleftrightarrow>
     (let add = min r limit in
      r' = r - add \<and>
      (if add = 0 then slot' = None
       else (stack_state stack = Plain \<or> add = 1) \<and>
         slot' = Some (stack\<lparr>stack_quantity := add\<rparr>)))"
  by (auto simp: use_empty_slot_def Let_def checked_sub_def with_quantity_def)

lemma use_empty_slot_Some: "use_empty_slot limit stack (Some e) r = Inr (Some e, r)"
  by (simp add: use_empty_slot_def)

lemma fill_step_top_up:
  assumes d: "catalog_item cat (stack_item stack) = Some d"
  shows "fill_step_ok cat stack (top_up_slot (idef_stack_limit d) stack)"
  unfolding fill_step_ok_def
proof (intro allI impI)
  fix slot r slot' r'
  assume step: "top_up_slot (idef_stack_limit d) stack slot r = Inr (slot', r')"
  show "r' \<le> r \<and>
        (\<forall>i. slot_count i slot' + (if i = stack_item stack then r' else 0) =
             slot_count i slot + (if i = stack_item stack then r else 0)) \<and>
        (slots_ok cat [slot] \<longrightarrow> slots_ok cat [slot'])"
  proof (cases slot)
    case None
    with step show ?thesis by (simp add: top_up_slot_None)
  next
    case (Some e)
    with step d show ?thesis
      by (auto simp: top_up_slot_Some Let_def can_stack_iff validate_stack_Inr stack_typed_def
          split: if_splits)
  qed
qed

lemma fill_step_use_empty:
  assumes d: "catalog_item cat (stack_item stack) = Some d"
    and stack: "validate_stack cat stack = Inr ()" "stack_typed stack"
    and u32: "idef_stack_limit d \<le> u32_max"
  shows "fill_step_ok cat stack (use_empty_slot (idef_stack_limit d) stack)"
  unfolding fill_step_ok_def
proof (intro allI impI)
  fix slot r slot' r'
  assume step: "use_empty_slot (idef_stack_limit d) stack slot r = Inr (slot', r')"
  show "r' \<le> r \<and>
        (\<forall>i. slot_count i slot' + (if i = stack_item stack then r' else 0) =
             slot_count i slot + (if i = stack_item stack then r else 0)) \<and>
        (slots_ok cat [slot] \<longrightarrow> slots_ok cat [slot'])"
  proof (cases slot)
    case None
    show ?thesis
    proof (cases "min r (idef_stack_limit d) = 0")
      case True
      with step None show ?thesis by (auto simp: use_empty_slot_None Let_def)
    next
      case False
      with step None have s': "slot' = Some (stack\<lparr>stack_quantity := min r (idef_stack_limit d)\<rparr>)"
        and r': "r' = r - min r (idef_stack_limit d)"
        and plain: "stack_state stack = Plain \<or> min r (idef_stack_limit d) = 1"
        by (auto simp: use_empty_slot_None Let_def split: if_splits)
      have "slots_ok cat [slot']"
        using s' stack plain u32 d False
        by (cases "stack_state stack") (auto simp: validate_stack_Inr stack_typed_def)
      with s' r' None show ?thesis by auto
    qed
  next
    case (Some e)
    with step show ?thesis by (simp add: use_empty_slot_Some)
  qed
qed

text \<open>
  The catalog bound used throughout: stack limits are \<open>NonZeroU32\<close> in the code.
\<close>

definition catalog_typed :: "catalog \<Rightarrow> bool" where
  "catalog_typed cat \<longleftrightarrow>
     (\<forall>i d. catalog_item cat i = Some d \<longrightarrow> 0 < idef_stack_limit d \<and> idef_stack_limit d \<le> u32_max \<and>
        (\<forall>m. idef_durability d = Some m \<longrightarrow> 0 < m \<and> m \<le> u32_max))"

lemma catalog_typed_code [code]:
  "catalog_typed cat \<longleftrightarrow>
     list_all (\<lambda>(i, d). 0 < idef_stack_limit d \<and> idef_stack_limit d \<le> u32_max \<and>
        (case idef_durability d of None \<Rightarrow> True | Some m \<Rightarrow> 0 < m \<and> m \<le> u32_max))
       (entries (cat_items cat))"
  unfolding catalog_typed_def catalog_item_def bt_all_entries [symmetric]
  by (auto split: option.splits)

lemma insert_stack_spec:
  assumes ok: "insert_stack cat xs stack destination = Inr ys"
    and typed: "catalog_typed cat" "stack_typed stack"
  shows "length ys = length xs \<and>
    (\<forall>i. item_total i ys =
       item_total i xs + (if i = stack_item stack then stack_quantity stack else 0)) \<and>
    (slots_ok cat xs \<longrightarrow> slots_ok cat ys)"
proof -
  from ok obtain d zs r where v: "validate_stack cat stack = Inr ()"
    and d: "catalog_item cat (stack_item stack) = Some d"
    and f1: "fill_slots (top_up_slot (idef_stack_limit d) stack) xs (stack_quantity stack) = Inr (zs, r)"
    and f2: "fill_slots (use_empty_slot (idef_stack_limit d) stack) zs r = Inr (ys, 0)"
    by (auto simp: insert_stack_def result_simps Let_def split: if_splits)
  have "idef_stack_limit d \<le> u32_max" using typed(1) d by (auto simp: catalog_typed_def)
  then show ?thesis
    using fill_slots_spec [OF fill_step_top_up [OF d] f1]
      fill_slots_spec [OF fill_step_use_empty [OF d v typed(2)] f2] by auto
qed

subsection \<open>When an insertion succeeds\<close>

definition existing_capacity :: "nat \<Rightarrow> item_stack \<Rightarrow> item_stack option \<Rightarrow> nat" where
  "existing_capacity limit stack slot =
     (case slot of None \<Rightarrow> 0
      | Some e \<Rightarrow> if can_stack e stack then limit - stack_quantity e else 0)"

definition empty_capacity :: "nat \<Rightarrow> item_stack option \<Rightarrow> nat" where
  "empty_capacity limit slot = (if slot = None then limit else 0)"

lemma fill_slots_total:
  assumes step: "\<And>slot r. slot \<in> set xs \<Longrightarrow> 0 < r \<Longrightarrow> r \<le> q \<Longrightarrow>
      \<exists>slot'. step slot r = Inr (slot', r - min r (cap slot)) \<and> (slot' = None \<longleftrightarrow> E slot)"
    and r: "r \<le> q"
  shows "\<exists>ys. fill_slots step xs r = Inr (ys, r - min r (sum_list (map cap xs)))"
  using assms
proof (induction xs arbitrary: r)
  case Nil
  then show ?case by simp
next
  case (Cons slot xs)
  show ?case
  proof (cases "r = 0")
    case True
    then show ?thesis by simp
  next
    case False
    with Cons.prems(1) [of slot r] Cons.prems(2) obtain slot' where
      one: "step slot r = Inr (slot', r - min r (cap slot))" by auto
    have "r - min r (cap slot) \<le> q" using Cons.prems(2) by simp
    with Cons.IH [of "r - min r (cap slot)"] Cons.prems(1) obtain ys where
      "fill_slots step xs (r - min r (cap slot)) =
       Inr (ys, (r - min r (cap slot)) - min (r - min r (cap slot)) (sum_list (map cap xs)))"
      by auto
    moreover have "(r - min r (cap slot)) - min (r - min r (cap slot)) (sum_list (map cap xs)) =
        r - min r (sum_list (map cap (slot # xs)))"
      by auto
    ultimately show ?thesis using False one by auto
  qed
qed

lemma fill_slots_None:
  assumes "\<And>slot r slot' r'. step slot r = Inr (slot', r') \<Longrightarrow> (slot' = None) = (slot = None)"
    and "fill_slots step xs r = Inr (ys, r')"
  shows "map (empty_capacity limit) ys = map (empty_capacity limit) xs"
  using assms(2)
proof (induction xs arbitrary: r ys r')
  case (Cons slot xs)
  show ?case
  proof (cases "r = 0")
    case False
    with Cons.prems obtain slot' q zs where s: "step slot r = Inr (slot', q)"
      and rest: "fill_slots step xs q = Inr (zs, r')" and ys: "ys = slot' # zs"
      by (auto simp: and_then_Inr)
    have "empty_capacity limit slot' = empty_capacity limit slot"
      using assms(1) [OF s] by (simp add: empty_capacity_def)
    with Cons.IH [OF rest] ys show ?thesis by simp
  qed (use Cons.prems in simp)
qed simp

lemma top_up_slot_keeps_None:
  "top_up_slot limit stack slot r = Inr (slot', r') \<Longrightarrow> (slot' = None) = (slot = None)"
  by (cases slot) (auto simp: top_up_slot_None top_up_slot_Some Let_def split: if_splits)

lemma total_capacity_eq:
  assumes "\<And>e. Some e \<in> set xs \<Longrightarrow> can_stack e stack \<Longrightarrow> stack_quantity e \<le> limit"
    and "acc + length xs * limit \<le> u64_max"
  shows "try_fold (\<lambda>slot acc. and_then (slot_capacity limit stack slot)
       (\<lambda>capacity. ok_or (checked_add u64_max acc capacity) QuantityOverflow)) xs acc =
     Inr (acc + capacity_of limit stack xs)"
  using assms
proof (induction xs arbitrary: acc)
  case Nil
  then show ?case by (simp add: capacity_of_def)
next
  case (Cons slot xs)
  let ?c = "case slot of None \<Rightarrow> limit
       | Some e \<Rightarrow> if can_stack e stack then limit - stack_quantity e else 0"
  have cap: "slot_capacity limit stack slot = Inr ?c" and le: "?c \<le> limit"
    using Cons.prems(1) by (auto simp: slot_capacity_def checked_sub_def split: option.splits)
  have "acc + ?c + length xs * limit \<le> u64_max" using Cons.prems(2) le by simp
  with Cons.IH [of "acc + ?c"] Cons.prems(1) show ?case
    by (simp add: cap checked_add_def capacity_of_def add.assoc del: option.case_distrib)
qed

lemma capacity_split:
  "capacity_of limit stack xs =
     sum_list (map (existing_capacity limit stack) xs) + sum_list (map (empty_capacity limit) xs)"
  by (induction xs)
    (auto simp: capacity_of_def existing_capacity_def empty_capacity_def split: option.splits)

lemma top_up_slot_total:
  assumes "\<And>e. slot = Some e \<Longrightarrow> can_stack e stack \<Longrightarrow> stack_quantity e \<le> limit \<and> 0 < stack_quantity e"
    and "limit \<le> u32_max"
  shows "\<exists>slot'. top_up_slot limit stack slot r =
      Inr (slot', r - min r (existing_capacity limit stack slot)) \<and> (slot' = None \<longleftrightarrow> slot = None)"
proof (cases slot)
  case (Some e)
  show ?thesis
  proof (cases "can_stack e stack")
    case True
    with assms Some have "stack_quantity e \<le> limit" "0 < stack_quantity e"
      "stack_quantity e + min r (limit - stack_quantity e) \<le> u32_max" by fastforce+
    with Some True show ?thesis by (simp add: top_up_slot_Some existing_capacity_def Let_def)
  qed (simp add: Some top_up_slot_Some existing_capacity_def)
qed (simp add: top_up_slot_None existing_capacity_def)

lemma use_empty_slot_total:
  assumes "0 < limit" "0 < r" "r \<le> q" "stack_state stack = Plain \<or> q = 1"
  shows "\<exists>slot'. use_empty_slot limit stack slot r =
      Inr (slot', r - min r (empty_capacity limit slot)) \<and> (slot' = None \<longleftrightarrow> False)"
proof (cases slot)
  case None
  have "min r limit \<noteq> 0" "stack_state stack = Plain \<or> min r limit = 1"
    using assms by auto
  with None show ?thesis by (simp add: use_empty_slot_None empty_capacity_def Let_def)
qed (simp add: use_empty_slot_Some empty_capacity_def)

lemma insert_stack_iff:
  assumes ok: "slots_ok cat xs" "validate_stack cat stack = Inr ()" "stack_typed stack"
    and cat: "catalog_typed cat" and len: "length xs \<le> 256"
    and d: "catalog_item cat (stack_item stack) = Some d"
  shows "insert_stack cat xs stack destination \<noteq> Inl QuantityOverflow"
    and "is_ok (insert_stack cat xs stack destination) \<longleftrightarrow>
      stack_quantity stack \<le> capacity_of (idef_stack_limit d) stack xs"
proof -
  let ?l = "idef_stack_limit d" and ?q = "stack_quantity stack"
  have l: "0 < ?l" "?l \<le> u32_max" using cat d by (auto simp: catalog_typed_def)
  have fits: "stack_quantity e \<le> ?l \<and> 0 < stack_quantity e"
    if "Some e \<in> set xs" "can_stack e stack" for e
    using ok(1) that d by (auto simp: slots_ok_def validate_stack_Inr can_stack_iff stack_typed_def)
  have "length xs * ?l \<le> 256 * u32_max" using len l(2) by (rule mult_le_mono)
  then have "0 + length xs * ?l \<le> u64_max" by (simp add: u32_max_def u64_max_def)
  then have cap: "total_capacity ?l stack xs = Inr (capacity_of ?l stack xs)"
    unfolding total_capacity_def using fits by (subst total_capacity_eq) auto
  have "\<exists>slot'. top_up_slot ?l stack slot r = Inr (slot', r - min r (existing_capacity ?l stack slot))
      \<and> (slot' = None \<longleftrightarrow> slot = None)" if "slot \<in> set xs" for slot r
    by (rule top_up_slot_total [OF _ l(2)]) (use fits that in blast)
  then obtain ys where f1: "fill_slots (top_up_slot ?l stack) xs ?q =
      Inr (ys, ?q - min ?q (sum_list (map (existing_capacity ?l stack) xs)))"
    using fill_slots_total [of xs ?q "top_up_slot ?l stack" "existing_capacity ?l stack"
        "\<lambda>slot. slot = None" ?q] by blast
  let ?r = "?q - min ?q (sum_list (map (existing_capacity ?l stack) xs))"
  have plain: "stack_state stack = Plain \<or> ?q = 1"
    using ok(2) by (cases "stack_state stack") (auto simp: validate_stack_Inr)
  have "?r \<le> ?q" by simp
  then obtain zs where f2: "fill_slots (use_empty_slot ?l stack) ys ?r =
      Inr (zs, ?r - min ?r (sum_list (map (empty_capacity ?l) ys)))"
    using fill_slots_total [of ys ?q "use_empty_slot ?l stack" "empty_capacity ?l" "\<lambda>_. False" ?r]
      use_empty_slot_total [OF l(1) _ _ plain] by blast
  have "map (empty_capacity ?l) ys = map (empty_capacity ?l) xs"
    by (rule fill_slots_None [OF top_up_slot_keeps_None f1])
  then have "?r - min ?r (sum_list (map (empty_capacity ?l) ys)) =
      ?q - min ?q (capacity_of ?l stack xs)"
    by (simp add: capacity_split)
  with f2 have f2': "fill_slots (use_empty_slot ?l stack) ys ?r =
      Inr (zs, ?q - min ?q (capacity_of ?l stack xs))" by simp
  have "insert_stack cat xs stack destination =
      (if capacity_of ?l stack xs < ?q then Inl (full_reject destination) else Inr zs)"
    using ok(2) d cap f1 f2' by (simp add: insert_stack_def Let_def)
  then show "insert_stack cat xs stack destination \<noteq> Inl QuantityOverflow"
    and "is_ok (insert_stack cat xs stack destination) \<longleftrightarrow> ?q \<le> capacity_of ?l stack xs"
    by (auto simp: full_reject_def split: destination.splits)
qed

subsection \<open>Correctness of merging and moving\<close>

lemma slot_ref_Inr [result_simps]: "slot_ref xs k = Inr v \<longleftrightarrow> k < length xs \<and> v = xs ! k"
  by (auto simp: slot_ref_def result_simps)

lemma occupied_slot_Inr [result_simps]:
  "occupied_slot xs k = Inr s \<longleftrightarrow> k < length xs \<and> xs ! k = Some s"
  by (auto simp: occupied_slot_def result_simps)

lemma can_merge_single_slot_Inr:
  "can_merge_single_slot cat existing incoming destination = Inr u \<longleftrightarrow>
     validate_stack cat incoming = Inr () \<and>
     (\<exists>d. catalog_item cat (stack_item incoming) = Some d \<and>
       (case existing of
          None \<Rightarrow> stack_quantity incoming \<le> idef_stack_limit d
        | Some e \<Rightarrow> can_stack e incoming \<and>
            stack_quantity e + stack_quantity incoming \<le> u32_max \<and>
            stack_quantity e + stack_quantity incoming \<le> idef_stack_limit d))"
  by (auto simp: can_merge_single_slot_def result_simps Let_def checked_add_def
      split: option.splits if_splits)

lemma merge_single_slot_elim:
  assumes "merge_single_slot cat xs k incoming destination = Inr ys"
  obtains s where "k < length xs" "ys = xs[k := Some s]"
    "can_merge_single_slot cat (xs ! k) incoming destination = Inr ()"
    "case xs ! k of
        Some e \<Rightarrow> s = e\<lparr>stack_quantity := stack_quantity e + stack_quantity incoming\<rparr>
      | None \<Rightarrow> s = incoming"
proof (cases "xs ! k")
  case None
  with assms that [of incoming] show thesis
    by (auto simp: merge_single_slot_def and_then_Inr slot_ref_Inr)
next
  case (Some e)
  with assms that [of "e\<lparr>stack_quantity := stack_quantity e + stack_quantity incoming\<rparr>"] show thesis
    by (auto simp: merge_single_slot_def and_then_Inr slot_ref_Inr ok_or_Inr checked_simps
        with_quantity_Inr)
qed

lemma merge_single_slot_spec:
  assumes ok: "merge_single_slot cat xs k incoming destination = Inr ys"
    and typed: "stack_typed incoming"
  shows "k < length xs \<and> length ys = length xs \<and>
    (\<forall>i. item_total i ys = item_total i xs + slot_count i (Some incoming)) \<and>
    (\<exists>s. ys = xs[k := Some s]) \<and>
    (slots_ok cat xs \<longrightarrow> slots_ok cat ys)"
proof -
  from ok obtain s where k: "k < length xs" and ys: "ys = xs[k := Some s]"
    and m: "can_merge_single_slot cat (xs ! k) incoming destination = Inr ()"
    and s: "case xs ! k of
        Some e \<Rightarrow> s = e\<lparr>stack_quantity := stack_quantity e + stack_quantity incoming\<rparr>
      | None \<Rightarrow> s = incoming"
    by (rule merge_single_slot_elim)
  show ?thesis
  proof (cases "xs ! k")
    case None
    with s have s': "s = incoming" by simp
    have "validate_stack cat incoming = Inr ()" using m by (simp add: can_merge_single_slot_Inr)
    with typed s' have "slots_ok cat xs \<longrightarrow> slots_ok cat ys"
      unfolding ys by (blast intro: slots_ok_update)
    moreover have "item_total i ys = item_total i xs + slot_count i (Some incoming)" for i
      using item_total_update [OF k, of i "Some s"] None s' ys by simp
    ultimately show ?thesis using k ys by auto
  next
    case (Some e)
    with s have s': "s = e\<lparr>stack_quantity := stack_quantity e + stack_quantity incoming\<rparr>" by simp
    from m Some obtain d where d: "catalog_item cat (stack_item incoming) = Some d"
      and stack: "can_stack e incoming"
      and bounds: "stack_quantity e + stack_quantity incoming \<le> u32_max"
        "stack_quantity e + stack_quantity incoming \<le> idef_stack_limit d"
      by (auto simp: can_merge_single_slot_Inr)
    have "stack_typed s \<and> validate_stack cat s = Inr ()" if "slots_ok cat xs"
      using slots_ok_nth [OF that k Some] s' stack bounds d
      by (auto simp: can_stack_iff stack_typed_def validate_stack_Inr)
    then have "slots_ok cat xs \<longrightarrow> slots_ok cat ys"
      unfolding ys by (blast intro: slots_ok_update)
    moreover have "item_total i ys = item_total i xs + slot_count i (Some incoming)" for i
      using item_total_update [OF k, of i "Some s"] Some s' ys stack
      by (auto simp: can_stack_iff)
    ultimately show ?thesis using k ys by auto
  qed
qed

lemma reduce_slot_ok:
  assumes "slots_ok cat xs" "k < length xs" "xs ! k = Some s" "q \<le> stack_quantity s"
    and "with_quantity s q = Inr v"
  shows "slots_ok cat (xs[k := v])"
proof (rule slots_ok_update [OF assms(1)])
  fix t assume "v = Some t"
  with assms(5) have t: "q \<noteq> 0" "stack_state s = Plain \<or> q = 1" "t = s\<lparr>stack_quantity := q\<rparr>"
    by (auto simp: result_simps)
  have "stack_typed s" "validate_stack cat s = Inr ()"
    using slots_ok_nth [OF assms(1-3)] by auto
  with t assms(4) show "stack_typed t \<and> validate_stack cat t = Inr ()"
    by (auto simp: validate_stack_less stack_typed_def)
qed

lemma move_quantity_elim:
  assumes "move_quantity cat xs k ys k' q destination = Inr (xs', ys')"
  obtains s rest moved where "k < length xs" "xs ! k = Some s" "q \<le> stack_quantity s"
    "with_quantity s (stack_quantity s - q) = Inr rest" "with_quantity s q = Inr (Some moved)"
    "merge_single_slot cat ys k' moved destination = Inr ys'" "xs' = xs[k := rest]"
proof -
  from assms obtain s where s: "k < length xs" "xs ! k = Some s" "\<not> stack_quantity s < q"
    and rest: "and_then (with_quantity s q) (\<lambda>m.
       and_then (ok_or m ZeroQuantity) (\<lambda>moved.
       and_then (slot_ref ys k') (\<lambda>existing.
       and_then (can_merge_single_slot cat existing moved destination) (\<lambda>_.
       and_then (with_quantity s (stack_quantity s - q)) (\<lambda>rest.
       and_then (merge_single_slot cat ys k' moved destination)
         (\<lambda>target_slots'. Inr (xs[k := rest], target_slots'))))))) = Inr (xs', ys')"
    by (simp add: move_quantity_def and_then_Inr occupied_slot_Inr split: if_split_asm) blast+
  then obtain m moved existing u remaining zs where
    "with_quantity s q = Inr m" "m = Some moved" "with_quantity s (stack_quantity s - q) = Inr remaining"
    "merge_single_slot cat ys k' moved destination = Inr zs" "(xs[k := remaining], zs) = (xs', ys')"
    by (simp only: and_then_Inr ok_or_Inr sum.inject) blast
  with s show thesis by (intro that [of s remaining moved]) simp_all
qed

lemma move_quantity_spec:
  assumes ok: "move_quantity cat xs k ys k' q destination = Inr (xs', ys')"
    and q: "0 < q" and typed: "slots_ok cat xs"
  shows "length xs' = length xs \<and> length ys' = length ys \<and>
    (\<exists>s. k < length xs \<and> xs ! k = Some s \<and> q \<le> stack_quantity s \<and>
      (\<forall>i. item_total i xs' + (if i = stack_item s then q else 0) = item_total i xs \<and>
           item_total i ys' = item_total i ys + (if i = stack_item s then q else 0))) \<and>
    slots_ok cat xs' \<and> (slots_ok cat ys \<longrightarrow> slots_ok cat ys')"
proof -
  from ok obtain s rest moved where s: "k < length xs" "xs ! k = Some s" "q \<le> stack_quantity s"
    and rest: "with_quantity s (stack_quantity s - q) = Inr rest"
    and moved: "with_quantity s q = Inr (Some moved)"
    and m': "merge_single_slot cat ys k' moved destination = Inr ys'"
    and xs': "xs' = xs[k := rest]"
    by (rule move_quantity_elim)
  from moved q have "moved = s\<lparr>stack_quantity := q\<rparr>" by (auto simp: result_simps)
  with m' have m: "merge_single_slot cat ys k' (s\<lparr>stack_quantity := q\<rparr>) destination = Inr ys'"
    by simp
  have "stack_typed (s\<lparr>stack_quantity := q\<rparr>)"
    using slots_ok_nth [OF typed s(1,2)] s(3) q by (auto simp: stack_typed_def)
  note merged = merge_single_slot_spec [OF m this]
  have "slot_count i rest = (if i = stack_item s then stack_quantity s - q else 0)" for i
    using with_quantity_count [OF rest] by auto
  then have "item_total i xs' + (if i = stack_item s then q else 0) = item_total i xs" for i
    using item_total_update [OF s(1), of i rest] s(2,3) xs' by (auto split: if_splits)
  moreover have "slots_ok cat xs'"
    unfolding xs' using typed s(1,2) _ rest by (rule reduce_slot_ok) simp
  ultimately show ?thesis using merged s xs' by (auto intro!: exI [of _ s])
qed

subsection \<open>Properties\<close>

text \<open>A successful \<open>insert_stack\<close> keeps the number of slots, adds exactly the
  stack's quantity to the units of its own item and nothing to any other item, and leaves
  lawful slots lawful.\<close>

theorem insert_stack_conserves:
  assumes "insert_stack cat xs stack destination = Inr ys"
    and "catalog_typed cat" "stack_typed stack"
  shows "length ys = length xs \<and>
    (\<forall>i. item_total i ys =
       item_total i xs + (if i = stack_item stack then stack_quantity stack else 0)) \<and>
    (slots_ok cat xs \<longrightarrow> slots_ok cat ys)"
  using insert_stack_spec [OF assms] .

text \<open>The hypotheses hold for ten units of dirt next to sixty.\<close>

lemma insert_stack_conserves_witness:
  "item_total ''dirt'' (projr (insert_stack sample_catalog [Some (dirt_stack 60), None]
     (dirt_stack 10) ToInventory)) = 70"
proof -
  have "is_ok (insert_stack sample_catalog [Some (dirt_stack 60), None] (dirt_stack 10) ToInventory)"
    and "catalog_typed sample_catalog" and "stack_typed (dirt_stack 10)" by code_simp+
  moreover have "item_total ''dirt'' [Some (dirt_stack 60), None] = 60"
    "stack_item (dirt_stack 10) = ''dirt''" "stack_quantity (dirt_stack 10) = 10" by code_simp+
  ultimately show ?thesis
    using insert_stack_conserves [of sample_catalog "[Some (dirt_stack 60), None]" "dirt_stack 10" ToInventory]
    by (auto simp: is_ok_iff)
qed

end
