(* ===== verification/Ingredient_Flow.thy ===== *)
theory Ingredient_Flow
  imports Slots
begin

section \<open>Matching recipe ingredients to slots by maximum flow\<close>

text \<open>
  \<open>consume_shaped\<close>, \<open>consume_shapeless\<close> and the bounded Edmonds-Karp network
  \<open>IngredientFlow\<close> of \<open>kernel.rs\<close>. Node 0 is the source, nodes \<open>1..ingredients\<close> are
  the ingredients, the following ones the slots, the last one the sink. The parent
  vector holds \<^const>\<open>None\<close> for the sentinel \<open>usize::MAX\<close>. A place where the code would
  index out of range, or a walk that would not end, is the value \<open>flow_panic\<close>, which the
  code has no error for; the lemmas show that no network built by the code reaches it.
\<close>

record ingredient_flow =
  fl_ingredients :: usize
  fl_slots :: usize
  fl_sink :: usize
  fl_capacities :: "u64 list list"
  fl_total_demand :: u64

subsection \<open>Construction\<close>

definition flow_new :: "usize \<Rightarrow> usize \<Rightarrow> ingredient_flow outcome" where
  "flow_new ingredients slot_total =
     and_then (ok_or (checked_add usize_max ingredients slot_total) QuantityOverflow) (\<lambda>value.
     and_then (ok_or (checked_add usize_max value 2) QuantityOverflow) (\<lambda>nodes.
     if 514 < nodes then Inl (LimitExceeded ''ingredient_flow_nodes'' 514 nodes)
     else and_then (ok_or (checked_mul usize_max nodes nodes) QuantityOverflow) (\<lambda>_.
       and_then (ok_or (checked_sub nodes 1) QuantityOverflow) (\<lambda>sink.
       Inr \<lparr>fl_ingredients = ingredients, fl_slots = slot_total, fl_sink = sink,
         fl_capacities = replicate nodes (replicate nodes 0), fl_total_demand = 0\<rparr>))))"

definition cell :: "u64 list list \<Rightarrow> usize \<Rightarrow> usize \<Rightarrow> u64 option" where
  "cell caps i j = (case get_index caps i of None \<Rightarrow> None | Some row \<Rightarrow> get_index row j)"

definition set_cell :: "u64 list list \<Rightarrow> usize \<Rightarrow> usize \<Rightarrow> u64 \<Rightarrow> u64 list list" where
  "set_cell caps i j v = caps[i := (caps ! i)[j := v]]"

abbreviation flow_index_failed :: gameplay_reject where
  "flow_index_failed \<equiv> MutationPreconditionFailed ''ingredient_flow_index''"

text \<open>\<open>get_mut(i).and_then(|row| row.get_mut(j)).ok_or(..)\<close> and the assignment through it.\<close>

definition assign_cell :: "ingredient_flow \<Rightarrow> usize \<Rightarrow> usize \<Rightarrow> u64 \<Rightarrow> ingredient_flow outcome" where
  "assign_cell fl i j v =
     and_then (ok_or (cell (fl_capacities fl) i j) flow_index_failed)
       (\<lambda>_. Inr (fl\<lparr>fl_capacities := set_cell (fl_capacities fl) i j v\<rparr>))"

definition set_demand :: "ingredient_flow \<Rightarrow> usize \<Rightarrow> u32 \<Rightarrow> ingredient_flow outcome" where
  "set_demand fl ingredient quantity =
     and_then (ok_or (checked_add usize_max ingredient 1) QuantityOverflow) (\<lambda>node.
     and_then (assign_cell fl 0 node quantity) (\<lambda>fl'.
     and_then (ok_or (checked_add u64_max (fl_total_demand fl') quantity) QuantityOverflow)
       (\<lambda>demand. Inr (fl'\<lparr>fl_total_demand := demand\<rparr>))))"

definition slot_node_of :: "ingredient_flow \<Rightarrow> usize \<Rightarrow> usize outcome" where
  "slot_node_of fl slot =
     and_then (ok_or (checked_add usize_max (fl_ingredients fl) slot) QuantityOverflow)
       (\<lambda>value. ok_or (checked_add usize_max value 1) QuantityOverflow)"

definition connect :: "ingredient_flow \<Rightarrow> usize \<Rightarrow> usize \<Rightarrow> ingredient_flow outcome" where
  "connect fl ingredient slot =
     and_then (ok_or (checked_add usize_max ingredient 1) QuantityOverflow) (\<lambda>ingredient_node.
     and_then (slot_node_of fl slot) (\<lambda>slot_node.
     assign_cell fl ingredient_node slot_node (max (fl_total_demand fl) 1)))"

definition set_slot_capacity :: "ingredient_flow \<Rightarrow> usize \<Rightarrow> u32 \<Rightarrow> ingredient_flow outcome" where
  "set_slot_capacity fl slot quantity =
     and_then (slot_node_of fl slot) (\<lambda>node. assign_cell fl node (fl_sink fl) quantity)"

subsection \<open>Breadth-first search\<close>

text \<open>One row of the matrix: \<open>nxt\<close> is the column of the head of the list.\<close>

fun scan_row ::
    "usize \<Rightarrow> usize \<Rightarrow> u64 list \<Rightarrow> usize option list \<Rightarrow> usize list \<Rightarrow>
     usize option list \<times> usize list" where
  "scan_row node nxt [] parent queue = (parent, queue)"
| "scan_row node nxt (capacity # row) parent queue =
     (if 0 < capacity \<and> get_index parent nxt = Some None
      then scan_row node (Suc nxt) row (parent[nxt := Some node]) (queue @ [nxt])
      else scan_row node (Suc nxt) row parent queue)"

definition unvisited :: "usize option list \<Rightarrow> nat" where
  "unvisited parent = length (filter (\<lambda>p. p = None) parent)"

lemma unvisited_update:
  "get_index parent nxt = Some None \<Longrightarrow> Suc (unvisited (parent[nxt := Some node])) = unvisited parent"
proof (induction parent arbitrary: nxt)
  case (Cons p parent)
  then show ?case by (cases nxt) (auto simp: unvisited_def)
qed (simp add: get_index_def)

lemma scan_row_measure:
  "scan_row node nxt row parent queue = (parent', queue') \<Longrightarrow>
   unvisited parent' + length queue' = unvisited parent + length queue"
proof (induction node nxt row parent queue rule: scan_row.induct)
  case (2 node nxt capacity row parent queue)
  show ?case
  proof (cases "0 < capacity \<and> get_index parent nxt = Some None")
    case True
    with 2 unvisited_update [of parent nxt node] show ?thesis by simp
  next
    case False
    with 2 show ?thesis by simp
  qed
qed simp

definition matrix_row :: "u64 list list \<Rightarrow> usize \<Rightarrow> u64 list" where
  "matrix_row caps node = (case get_index caps node of None \<Rightarrow> [] | Some row \<Rightarrow> row)"

function bfs :: "u64 list list \<Rightarrow> usize option list \<Rightarrow> usize list \<Rightarrow> usize option list" where
  "bfs caps parent [] = parent"
| "bfs caps parent (node # queue) =
     (case scan_row node 0 (matrix_row caps node) parent queue of
        (parent', queue') \<Rightarrow> bfs caps parent' queue')"
  by pat_completeness auto

termination bfs
  by (relation "measure (\<lambda>(caps, parent, queue). unvisited parent + length queue)")
    (simp, drule sym, drule scan_row_measure, simp)

definition search :: "u64 list list \<Rightarrow> usize option list" where
  "search caps = bfs caps ((replicate (length caps) None)[0 := Some 0]) [0]"

subsection \<open>Augmenting along the path\<close>

text \<open>
  The edges \<open>(parent[node], node)\<close> met by walking back from a node to the source; a walk
  that leaves the tree or is longer than the fuel has no result.
\<close>

fun path_back :: "nat \<Rightarrow> usize option list \<Rightarrow> usize \<Rightarrow> (usize \<times> usize) list option" where
  "path_back fuel parent node =
     (if node = 0 then Some []
      else case fuel of
        0 \<Rightarrow> None
      | Suc fuel' \<Rightarrow>
         (case get_index parent node of
            Some (Some previous) \<Rightarrow>
              (case path_back fuel' parent previous of
                 None \<Rightarrow> None
               | Some path \<Rightarrow> Some ((previous, node) # path))
          | _ \<Rightarrow> None))"

declare path_back.simps [simp del]

definition path_augment :: "u64 list list \<Rightarrow> (usize \<times> usize) list \<Rightarrow> u64" where
  "path_augment caps path =
     foldl (\<lambda>augment (previous, node). min augment (caps ! previous ! node)) u64_max path"

definition push_edge :: "u64 \<Rightarrow> usize \<times> usize \<Rightarrow> u64 list list \<Rightarrow> u64 list list outcome" where
  "push_edge augment = (\<lambda>(previous, node) caps.
     and_then (ok_or (checked_sub (caps ! previous ! node) augment) QuantityOverflow) (\<lambda>forward.
     let caps' = set_cell caps previous node forward in
     and_then (ok_or (checked_add u64_max (caps' ! node ! previous) augment) QuantityOverflow)
       (\<lambda>backward. Inr (set_cell caps' node previous backward))))"

definition push_path :: "u64 \<Rightarrow> (usize \<times> usize) list \<Rightarrow> u64 list list \<Rightarrow> u64 list list outcome" where
  "push_path augment path caps = try_fold (push_edge augment) path caps"

text \<open>What the search puts into the parent vector, and what that says of a path.\<close>

definition tree_edges :: "u64 list list \<Rightarrow> usize option list \<Rightarrow> bool" where
  "tree_edges caps parent \<longleftrightarrow>
     (\<forall>j i. get_index parent j = Some (Some i) \<longrightarrow> j = 0 \<or> (\<exists>c. cell caps i j = Some c \<and> 0 < c))"

lemma matrix_row_nth: "k < length (matrix_row caps i) \<Longrightarrow> cell caps i k = Some (matrix_row caps i ! k)"
  by (auto simp: matrix_row_def cell_def get_index_def split: if_splits)

lemma tree_edges_update:
  assumes "tree_edges caps parent" "cell caps node nxt = Some c" "0 < c"
  shows "tree_edges caps (parent[nxt := Some node])"
  unfolding tree_edges_def
proof (intro allI impI)
  fix j i
  assume ji: "get_index (parent[nxt := Some node]) j = Some (Some i)"
  show "j = 0 \<or> (\<exists>c. cell caps i j = Some c \<and> 0 < c)"
  proof (cases "j = nxt")
    case True
    with ji have "i = node" by (simp add: get_index_def nth_list_update split: if_splits)
    with True assms(2,3) show ?thesis by auto
  next
    case False
    with ji have "get_index parent j = Some (Some i)" by (auto simp: get_index_def split: if_splits)
    with assms(1) show ?thesis by (auto simp: tree_edges_def)
  qed
qed

lemma scan_row_tree:
  assumes "scan_row node nxt (drop nxt (matrix_row caps node)) parent queue = (parent', queue')"
    and "tree_edges caps parent"
  shows "tree_edges caps parent'"
  using assms
proof (induction node nxt "drop nxt (matrix_row caps node)" parent queue rule: scan_row.induct)
  case (2 node nxt capacity row parent queue)
  let ?r = "matrix_row caps node"
  have lt: "nxt < length ?r" using 2(3) by (metis drop_eq_Nil leI list.distinct(1))
  then have row: "capacity = ?r ! nxt" "row = drop (Suc nxt) ?r"
    using 2(3) by (metis Cons_nth_drop_Suc list.inject)+
  have tree: "tree_edges caps (parent[nxt := Some node])" if "0 < capacity"
    using tree_edges_update [OF 2(5) matrix_row_nth [OF lt]] that row by simp
  show ?case
    using 2(1,2) [OF _ row(2)] 2(4,5) tree unfolding 2(3) [symmetric]
    by (auto simp: row(2) [symmetric] split: if_splits)
qed simp

lemma bfs_tree: "tree_edges caps parent \<Longrightarrow> tree_edges caps (bfs caps parent queue)"
proof (induction caps parent queue rule: bfs.induct)
  case (2 caps parent node queue)
  obtain parent' queue' where s: "scan_row node 0 (matrix_row caps node) parent queue = (parent', queue')"
    by (cases "scan_row node 0 (matrix_row caps node) parent queue")
  have "tree_edges caps parent'" using scan_row_tree [of node 0 caps] s 2(2) by simp
  then show ?case using 2(1) [OF s [symmetric]] s by simp
qed simp

lemma search_tree: "tree_edges caps (search caps)"
proof -
  have "tree_edges caps ((replicate (length caps) None)[0 := Some 0])"
    by (auto simp: tree_edges_def get_index_def nth_list_update split: if_splits)
  then show ?thesis unfolding search_def by (rule bfs_tree)
qed

text \<open>
  A path of edges that are positive cells, that never ends in the source, and whose last
  edge leaves the source.
\<close>

fun flow_path :: "u64 list list \<Rightarrow> (usize \<times> usize) list \<Rightarrow> usize \<Rightarrow> bool" where
  "flow_path caps [] node \<longleftrightarrow> node = 0"
| "flow_path caps ((previous, v) # path) node \<longleftrightarrow>
     v = node \<and> node \<noteq> 0 \<and> (\<exists>c. cell caps previous node = Some c \<and> 0 < c) \<and>
     flow_path caps path previous"

lemma path_back_flow_path:
  "path_back fuel parent node = Some path \<Longrightarrow> tree_edges caps parent \<Longrightarrow> flow_path caps path node"
proof (induction fuel arbitrary: node path)
  case 0
  then show ?case by (simp add: path_back.simps split: if_splits)
next
  case (Suc fuel)
  show ?case
  proof (cases "node = 0")
    case True
    with Suc.prems show ?thesis by (simp add: path_back.simps)
  next
    case False
    with Suc.prems obtain previous rest where "get_index parent node = Some (Some previous)"
      "path_back fuel parent previous = Some rest" "path = (previous, node) # rest"
      by (subst (asm) path_back.simps) (auto split: option.splits)
    with Suc False show ?thesis by (auto simp: tree_edges_def)
  qed
qed

definition row_sum :: "u64 list list \<Rightarrow> usize \<Rightarrow> nat" where
  "row_sum caps i = sum_list (matrix_row caps i)"

subsection \<open>A push lowers the capacity that leaves the source\<close>

lemma length_set_cell [simp]: "length (set_cell caps i j v) = length caps"
  by (simp add: set_cell_def)

lemma cell_set_cell:
  "cell (set_cell caps i j v) i' j' =
     (if i' = i \<and> j' = j \<and> cell caps i j \<noteq> None then Some v else cell caps i' j')"
  by (cases "i' = i"; cases "j' = j")
    (auto simp: cell_def set_cell_def get_index_def)

lemma cell_set_cell_None: "cell (set_cell caps i j v) i' j' = None \<longleftrightarrow> cell caps i' j' = None"
  unfolding cell_def set_cell_def get_index_def
  by (cases "i' = i"; cases "j' = j") simp_all

lemma cell_nth: "cell caps i j = Some c \<Longrightarrow> caps ! i ! j = c"
  by (auto simp: cell_def get_index_def split: if_splits)

lemma row_sum_set_cell_other [simp]: "i' \<noteq> i \<Longrightarrow> row_sum (set_cell caps i j v) i' = row_sum caps i'"
  by (simp add: row_sum_def matrix_row_def set_cell_def get_index_def)

lemma row_sum_set_cell:
  assumes "cell caps i j = Some c"
  shows "row_sum (set_cell caps i j v) i + c = row_sum caps i + v"
proof -
  have "i < length caps" "j < length (caps ! i)" "caps ! i ! j = c"
    using assms by (auto simp: cell_def get_index_def split: if_splits)
  with sum_list_update_nat [of j "caps ! i" id v] show ?thesis
    by (simp add: row_sum_def matrix_row_def set_cell_def get_index_def)
qed

lemma push_edge_Inr:
  "push_edge augment (p, v) caps = Inr caps' \<longleftrightarrow>
     augment \<le> caps ! p ! v \<and>
     set_cell caps p v (caps ! p ! v - augment) ! v ! p + augment \<le> u64_max \<and>
     caps' = set_cell (set_cell caps p v (caps ! p ! v - augment)) v p
       (set_cell caps p v (caps ! p ! v - augment) ! v ! p + augment)"
  by (simp add: push_edge_def and_then_Inr ok_or_Inr checked_simps Let_def) blast

lemma push_edge_row_0:
  assumes "push_edge augment (p, v) caps = Inr caps'" "v \<noteq> 0" "cell caps p v = Some c"
  shows "row_sum caps' 0 + (if p = 0 then augment else 0) = row_sum caps 0"
proof -
  from assms(1) have "augment \<le> c"
    and caps': "row_sum caps' 0 = row_sum (set_cell caps p v (c - augment)) 0"
    using assms(2) cell_nth [OF assms(3)] by (simp_all add: push_edge_Inr)
  with row_sum_set_cell [OF assms(3), of "c - augment"] show ?thesis by (cases "p = 0") simp_all
qed

lemma push_edge_cells:
  assumes "push_edge augment (p, v) caps = Inr caps'"
  shows "cell caps' i j \<noteq> None \<longleftrightarrow> cell caps i j \<noteq> None"
proof -
  from assms obtain a b where "caps' = set_cell (set_cell caps p v a) v p b"
    unfolding push_edge_Inr by blast
  then show ?thesis by (simp only: cell_set_cell_None)
qed

lemma push_path_row_0:
  assumes "push_path augment path caps = Inr caps'"
    and "\<And>p v. (p, v) \<in> set path \<Longrightarrow> v \<noteq> 0 \<and> cell caps p v \<noteq> None"
  shows "row_sum caps' 0 + augment * length (filter (\<lambda>e. fst e = 0) path) = row_sum caps 0"
  using assms unfolding push_path_def
proof (induction path arbitrary: caps)
  case (Cons e path)
  obtain p v where e: "e = (p, v)" by (cases e)
  with Cons.prems obtain mid where mid: "push_edge augment (p, v) caps = Inr mid"
    and rest: "try_fold (push_edge augment) path mid = Inr caps'"
    by (auto simp: result_simps)
  from Cons.prems(2) [of p v] e obtain c where "v \<noteq> 0" "cell caps p v = Some c" by auto
  note step = push_edge_row_0 [OF mid this]
  have "row_sum caps' 0 + augment * length (filter (\<lambda>e. fst e = 0) path) = row_sum mid 0"
    using rest Cons.prems(2) push_edge_cells [OF mid] by (intro Cons.IH) auto
  with step e show ?case by (auto simp: algebra_simps)
qed simp

lemma flow_path_edges: "flow_path caps path node \<Longrightarrow> (p, v) \<in> set path \<Longrightarrow> v \<noteq> 0 \<and> cell caps p v \<noteq> None"
  by (induction caps path node rule: flow_path.induct) auto

lemma flow_path_source:
  "flow_path caps path node \<Longrightarrow> node \<noteq> 0 \<Longrightarrow> filter (\<lambda>e. fst e = 0) path \<noteq> []"
proof (induction caps path node rule: flow_path.induct)
  case (2 caps previous v path node)
  then show ?case by (cases "previous = 0") auto
qed simp

lemma path_augment_pos:
  assumes "\<And>p v. (p, v) \<in> set path \<Longrightarrow> 0 < caps ! p ! v"
  shows "0 < path_augment caps path"
proof -
  have "0 < foldl (\<lambda>augment (previous, node). min augment (caps ! previous ! node)) a path"
    if "0 < a" for a
    using assms that by (induction path arbitrary: a) auto
  then show ?thesis unfolding path_augment_def by (simp add: u64_max_def)
qed

lemma flow_path_pos: "flow_path caps path node \<Longrightarrow> (p, v) \<in> set path \<Longrightarrow> 0 < caps ! p ! v"
  by (induction caps path node rule: flow_path.induct) (auto dest: cell_nth)

lemma augmentation_decreases:
  assumes path: "path_back fuel (search caps) sink = Some path" "path \<noteq> []"
    and push: "push_path (path_augment caps path) path caps = Inr caps'"
  shows "row_sum caps' 0 < row_sum caps 0"
proof -
  from path have "sink \<noteq> 0" by (cases "sink = 0") (simp_all add: path_back.simps [of fuel _ 0])
  note fp = path_back_flow_path [OF path(1) search_tree]
  have "0 < path_augment caps path" by (rule path_augment_pos) (rule flow_path_pos [OF fp])
  moreover have "0 < length (filter (\<lambda>e. fst e = 0) path)"
    using flow_path_source [OF fp \<open>sink \<noteq> 0\<close>] by simp
  ultimately have "0 < path_augment caps path * length (filter (\<lambda>e. fst e = 0) path)" by simp
  with push_path_row_0 [OF push flow_path_edges [OF fp]] show ?thesis by linarith
qed

subsection \<open>The main loop\<close>

abbreviation flow_panic :: gameplay_reject where
  "flow_panic \<equiv> MutationPreconditionFailed ''ingredient_flow_panic''"

function flow_loop ::
    "usize \<Rightarrow> u64 list list \<Rightarrow> u64 \<Rightarrow> (u64 list list \<times> u64) outcome" where
  "flow_loop sink caps total_flow =
     (case get_index (search caps) sink of
        None \<Rightarrow> Inl flow_panic
      | Some None \<Rightarrow> Inr (caps, total_flow)
      | Some (Some _) \<Rightarrow>
         (case path_back (length caps) (search caps) sink of
            None \<Rightarrow> Inl flow_panic
          | Some [] \<Rightarrow> Inl flow_panic
          | Some (e # path) \<Rightarrow>
              and_then (push_path (path_augment caps (e # path)) (e # path) caps) (\<lambda>caps'.
              and_then (ok_or (checked_add u64_max total_flow (path_augment caps (e # path)))
                  QuantityOverflow)
                (\<lambda>total_flow'. flow_loop sink caps' total_flow'))))"
  by pat_completeness auto

termination flow_loop
  by (relation "measure (\<lambda>(sink, caps, total_flow). row_sum caps 0)")
    (auto intro: augmentation_decreases)

declare flow_loop.simps [simp del]

definition node_consumption :: "ingredient_flow \<Rightarrow> u64 list list \<Rightarrow> usize \<Rightarrow> u32 outcome" where
  "node_consumption fl caps slot =
     and_then (slot_node_of fl slot) (\<lambda>node.
     and_then (try_fold (\<lambda>ingredient consumed.
         and_then (ok_or (checked_add usize_max ingredient 1) QuantityOverflow) (\<lambda>ingredient_node.
         ok_or (checked_add u64_max consumed (caps ! node ! ingredient_node)) QuantityOverflow))
       [0..<fl_ingredients fl] 0) (\<lambda>consumed.
     ok_or (try_from u32_max consumed) QuantityOverflow))"

definition solve :: "ingredient_flow \<Rightarrow> u32 list option outcome" where
  "solve fl =
     and_then (flow_loop (fl_sink fl) (fl_capacities fl) 0) (\<lambda>(caps, total_flow).
     if total_flow \<noteq> fl_total_demand fl then Inr None
     else and_then (try_fold (\<lambda>slot allocation.
         and_then (node_consumption fl caps slot) (\<lambda>c. Inr (allocation @ [c])))
       [0..<fl_slots fl] [])
       (\<lambda>allocation. Inr (Some allocation)))"

subsection \<open>Consuming the ingredients\<close>

definition consume_shaped ::
    "catalog \<Rightarrow> slots \<Rightarrow> slot_index list \<Rightarrow> ingredient option list \<Rightarrow> recipe_id \<Rightarrow> slots outcome" where
  "consume_shaped cat xs input_slots cells recipe =
     (if length input_slots \<noteq> length cells then Inl (RecipeMismatch recipe)
      else try_fold (\<lambda>(slot, c) xs.
        and_then (slot_ref xs slot) (\<lambda>current.
        case (c, current) of
          (None, None) \<Rightarrow> Inr xs
        | (Some ingredient, Some stack) \<Rightarrow>
            if \<not> predicate_matches cat (ing_accepts ingredient) (stack_item stack)
               \<or> stack_quantity stack < ing_quantity ingredient
            then Inl (RecipeMismatch recipe)
            else and_then (with_quantity stack (stack_quantity stack - ing_quantity ingredient))
              (\<lambda>rest. Inr (xs[slot := rest]))
        | _ \<Rightarrow> Inl (RecipeMismatch recipe))) (zip input_slots cells) xs)"

definition slot_matches :: "catalog \<Rightarrow> ingredient \<Rightarrow> item_stack option \<Rightarrow> bool" where
  "slot_matches cat ingredient slot =
     (case slot of None \<Rightarrow> False
      | Some stack \<Rightarrow> predicate_matches cat (ing_accepts ingredient) (stack_item stack))"

definition slot_quantity :: "item_stack option \<Rightarrow> u32" where
  "slot_quantity slot = (case slot of None \<Rightarrow> 0 | Some stack \<Rightarrow> stack_quantity stack)"

definition build_flow ::
    "catalog \<Rightarrow> slots \<Rightarrow> slot_index list \<Rightarrow> ingredient list \<Rightarrow> ingredient_flow outcome" where
  "build_flow cat xs input_slots ingredients =
     and_then (flow_new (length ingredients) (length input_slots)) (\<lambda>fl0.
     and_then (try_fold (\<lambda>(i, ingredient) fl.
         and_then (set_demand fl i (ing_quantity ingredient)) (\<lambda>fl.
         try_fold (\<lambda>(k, slot) fl.
           and_then (slot_ref xs slot) (\<lambda>v.
           if slot_matches cat ingredient v then connect fl i k else Inr fl))
           (enumerate 0 input_slots) fl)) (enumerate 0 ingredients) fl0) (\<lambda>fl1.
     try_fold (\<lambda>(k, slot) fl.
       and_then (slot_ref xs slot) (\<lambda>v. set_slot_capacity fl k (slot_quantity v)))
       (enumerate 0 input_slots) fl1))"

definition consume_slot ::
    "recipe_id \<Rightarrow> slot_index \<times> u32 \<Rightarrow> slots \<Rightarrow> slots outcome" where
  "consume_slot recipe = (\<lambda>(slot, consumed) xs.
     if consumed = 0 then Inr xs
     else and_then (slot_ref xs slot) (\<lambda>v.
       and_then (ok_or v (RecipeMismatch recipe)) (\<lambda>stack.
       and_then (ok_or (checked_sub (stack_quantity stack) consumed) flow_panic) (\<lambda>n.
       and_then (with_quantity stack n) (\<lambda>rest. Inr (xs[slot := rest])))))) "

definition consume_shapeless ::
    "catalog \<Rightarrow> slots \<Rightarrow> slot_index list \<Rightarrow> ingredient list \<Rightarrow> recipe_id \<Rightarrow> slots outcome" where
  "consume_shapeless cat xs input_slots ingredients recipe =
     and_then (try_each (\<lambda>slot. and_then (slot_ref xs slot) (\<lambda>_. Inr ())) input_slots) (\<lambda>_.
     and_then (build_flow cat xs input_slots ingredients) (\<lambda>fl.
     and_then (solve fl) (\<lambda>result.
     and_then (ok_or result (RecipeMismatch recipe)) (\<lambda>allocation.
     try_fold (consume_slot recipe) (zip input_slots allocation) xs))))"

end
