(* ===== verification/Planner.thy ===== *)
theory Planner
  imports Ingredient_Flow
begin

section \<open>The planner: from a command to staged edits\<close>

text \<open>
  \<open>GameplayKernel\<close> of \<open>kernel.rs\<close>: one function per command, each of which reads the
  loaded state and returns staged edits and an outcome without changing anything, and
  \<open>plan\<close>, which validates the state and the envelope, dispatches, bounds the edits and
  seals the plan with its fingerprints.
\<close>

type_synonym planned = "(mutation_intent list \<times> command_outcome) outcome"

subsection \<open>Shared guards\<close>

definition player_inventory :: "gameplay_state \<Rightarrow> player_id \<Rightarrow> inventory_state outcome" where
  "player_inventory s player = ok_or (bt_get (gs_inventories s) player) (UnknownPlayer player)"

definition validate_envelope :: "gameplay_state \<Rightarrow> command_envelope \<Rightarrow> unit outcome" where
  "validate_envelope s envelope =
     (if env_expected_world_revision envelope \<noteq> gs_observed_world_revision s
      then Inl (StaleWorldRevision (env_expected_world_revision envelope)
        (gs_observed_world_revision s))
      else Inr ())"

definition require_chunk_revision ::
    "gameplay_state \<Rightarrow> dimension_chunk_key \<Rightarrow> chunk_revision outcome" where
  "require_chunk_revision s chunk = ok_or (loaded_chunk_revision s chunk) (chunk_not_loaded chunk)"

definition require_available_drop_id :: "gameplay_state \<Rightarrow> drop_entity_id \<Rightarrow> unit outcome" where
  "require_available_drop_id s did =
     (if persistent_entity_id_in_use s did then Inl (DuplicateStateKey ''persistent_entity'')
      else Inr ())"

text \<open>\<open>bytes[0] ^= 0xc8\<close>: the first byte in network order is the most significant one.\<close>

definition continuation_id_for :: "transaction_id \<Rightarrow> continuation_id" where
  "continuation_id_for tid = tid XOR push_bit 120 0xc8"

definition require_inventory_revision :: "inventory_state \<Rightarrow> u64 \<Rightarrow> unit outcome" where
  "require_inventory_revision ivt expected =
     (if inv_revision ivt \<noteq> expected
      then Inl (StaleInventoryRevision expected (inv_revision ivt)) else Inr ())"

definition require_container_revision :: "container_state \<Rightarrow> u64 \<Rightarrow> unit outcome" where
  "require_container_revision c expected =
     (if con_revision c \<noteq> expected
      then Inl (StaleContainerRevision expected (con_revision c)) else Inr ())"

definition stale_mining_progress_edit ::
    "gameplay_state \<Rightarrow> player_id \<Rightarrow> block_key option \<Rightarrow> edit_target \<Rightarrow> mutation_intent option" where
  "stale_mining_progress_edit s player retained_target storage_scope =
     (case List.find (\<lambda>(key, _). bpk_player key = player
         \<and> (case retained_target of None \<Rightarrow> True | Some retained \<Rightarrow> bpk_block key \<noteq> retained))
       (entries (gs_break_progress s)) of
        None \<Rightarrow> None
      | Some (key, progress) \<Rightarrow> Some (BreakProgress storage_scope key (Some progress) None))"

definition option_list :: "'a option \<Rightarrow> 'a list" where
  "option_list v = (case v of None \<Rightarrow> [] | Some x \<Rightarrow> [x])"

definition validate_workstation ::
    "gameplay_state \<Rightarrow> workstation_id option \<Rightarrow> container_id option \<Rightarrow> unit outcome" where
  "validate_workstation s required supplied =
     (case required of
        None \<Rightarrow> Inr ()
      | Some w \<Rightarrow>
          and_then (ok_or supplied (WorkstationRequired w)) (\<lambda>cid.
          and_then (ok_or (bt_get (gs_containers s) cid) UnknownContainer) (\<lambda>c.
          if con_workstation c \<noteq> Some w then Inl (WorkstationRequired w) else Inr ())))"

subsection \<open>Mining\<close>

text \<open>The work of one step in survival mode: the tool's, or 1 with bare hands.\<close>

definition survival_work_per_step ::
    "catalog \<Rightarrow> slots \<Rightarrow> block_definition \<Rightarrow> slot_index option \<Rightarrow> u32 outcome" where
  "survival_work_per_step cat xs block tool_slot =
     (case tool_slot of
        Some slot \<Rightarrow>
          and_then (occupied_slot xs slot) (\<lambda>stack.
          and_then (ok_or (catalog_tool cat (stack_item stack)) (NotATool (stack_item stack)))
            (\<lambda>tool.
          and_then (case mr_tool (bdef_mining block) of
              Some requirement \<Rightarrow>
                if tdef_class tool \<noteq> treq_class requirement
                then Inl (ToolClassMismatch (treq_class requirement) (tdef_class tool))
                else if tdef_tier tool < treq_minimum_tier requirement
                then Inl (ToolTierTooLow (treq_minimum_tier requirement) (tdef_tier tool))
                else Inr ()
            | None \<Rightarrow> Inr ()) (\<lambda>_.
          if stack_state stack = Plain then Inl (ToolStateMissing (stack_item stack))
          else Inr (tdef_work_per_step tool))))
      | None \<Rightarrow> if mr_tool (bdef_mining block) \<noteq> None then Inl ToolRequired else Inr 1)"

definition mining_work ::
    "catalog \<Rightarrow> gameplay_mode \<Rightarrow> slots \<Rightarrow> block_definition \<Rightarrow> mine_command \<Rightarrow> u32 outcome" where
  "mining_work cat mode xs block cmd =
     (case mode of
        Creative \<Rightarrow> Inr (mr_hardness (bdef_mining block))
      | Survival \<Rightarrow>
          and_then (survival_work_per_step cat xs block (mine_tool_slot cmd)) (\<lambda>work_per_step.
          ok_or (checked_mul u32_max work_per_step (mine_steps cmd)) QuantityOverflow))"

definition previous_work :: "block_id \<Rightarrow> break_progress option \<Rightarrow> u32" where
  "previous_work block progress =
     (case progress of
        Some p \<Rightarrow> if bp_block p = block then bp_accumulated_work p else 0
      | None \<Rightarrow> 0)"

definition accumulated_work :: "gameplay_mode \<Rightarrow> u32 \<Rightarrow> u32 \<Rightarrow> u32 \<Rightarrow> u32 outcome" where
  "accumulated_work mode required previous work =
     (case mode of
        Creative \<Rightarrow> Inr required
      | Survival \<Rightarrow> ok_or (checked_add u32_max previous work) QuantityOverflow)"

text \<open>The two ends of \<open>plan_mine\<close>: progress is recorded, or the block breaks.\<close>

definition mine_progress ::
    "gameplay_state \<Rightarrow> inventory_state \<Rightarrow> mine_command \<Rightarrow> block_id \<Rightarrow> break_progress_key \<Rightarrow>
     break_progress option \<Rightarrow> u32 \<Rightarrow> u32 \<Rightarrow> planned" where
  "mine_progress s ivt cmd block key before_progress accumulated required =
     and_then (if before_progress = None
       then require_capacity ''break_progress'' (bt_len (gs_break_progress s))
         (gl_break_progress (gs_limits s))
       else Inr ()) (\<lambda>_. Inr
     (option_list (stale_mining_progress_edit s (mine_player cmd) (Some (bpk_block key))
          (inv_target ivt))
        @ [BreakProgress (inv_target ivt) key before_progress
             (Some \<lparr>bp_block = block, bp_accumulated_work = accumulated\<rparr>)],
      MiningProgress accumulated required))"

definition mine_break ::
    "catalog \<Rightarrow> gameplay_mode \<Rightarrow> gameplay_state \<Rightarrow> inventory_state \<Rightarrow> mine_command \<Rightarrow> block_id \<Rightarrow>
     block_definition \<Rightarrow> dimension_chunk_key \<Rightarrow> break_progress_key \<Rightarrow> break_progress option \<Rightarrow>
     planned" where
  "mine_break cat mode s ivt cmd block block_def chunk key before_progress =
     and_then (require_capacity ''drops'' (bt_len (gs_drops s)) (gl_drops (gs_limits s))) (\<lambda>_.
     and_then (validate_stack cat (bdef_drop block_def)) (\<lambda>_.
     let drop_id = mine_reserved_drop cmd in
     and_then (require_available_drop_id s drop_id) (\<lambda>_.
     and_then (case (mode, mine_tool_slot cmd) of
         (Survival, Some tool_slot) \<Rightarrow>
           and_then (occupied_slot (inv_slots ivt) tool_slot) (\<lambda>tool.
           and_then (tool_after_use tool) (\<lambda>used. Inr ((inv_slots ivt)[tool_slot := used])))
       | _ \<Rightarrow> Inr (inv_slots ivt)) (\<lambda>inventory_after.
     and_then (inventory_diff (mine_player cmd) ivt inventory_after) (\<lambda>inventory_edits.
     Inr
       (option_list (stale_mining_progress_edit s (mine_player cmd) (Some (bpk_block key))
            (inv_target ivt))
          @ inventory_edits
          @ [Block (GameplayEditTarget chunk Voxels) (mine_target cmd) (Some block) None,
             DropEntity (GameplayEditTarget chunk PersistentEntities) drop_id None
               (Some \<lparr>drop_location = mine_target cmd, drop_stack = bdef_drop block_def\<rparr>),
             BreakProgress (inv_target ivt) key before_progress None],
        BlockBroken drop_id chunk))))))"

definition plan_mine ::
    "catalog \<Rightarrow> gameplay_mode \<Rightarrow> gameplay_state \<Rightarrow> mine_command \<Rightarrow> planned" where
  "plan_mine cat mode s cmd =
     and_then (player_inventory s (mine_player cmd)) (\<lambda>ivt.
     and_then (ok_or (bt_get (gs_blocks s) (mine_target cmd)) BlockMissing) (\<lambda>block.
     and_then (ok_or (catalog_block cat block) (UnknownReference ''block'' block)) (\<lambda>block_def.
     let chunk = block_chunk s (mine_target cmd) in
     and_then (require_chunk_revision s chunk) (\<lambda>current.
     if current \<noteq> mine_expected_chunk_revision cmd
     then Inl (StaleChunkRevision (mine_expected_chunk_revision cmd) current)
     else let required = mr_hardness (bdef_mining block_def) in
       and_then (mining_work cat mode (inv_slots ivt) block_def cmd) (\<lambda>work.
       let key = BreakProgressKey (mine_player cmd) (mine_target cmd);
           before_progress = bt_get (gs_break_progress s) key in
       and_then (accumulated_work mode required (previous_work block before_progress) work)
         (\<lambda>accumulated.
       if accumulated < required
       then mine_progress s ivt cmd block key before_progress accumulated required
       else mine_break cat mode s ivt cmd block block_def chunk key before_progress))))))"

definition plan_cancel_mining :: "gameplay_state \<Rightarrow> player_id \<Rightarrow> planned" where
  "plan_cancel_mining s player =
     and_then (player_inventory s player) (\<lambda>ivt.
     let progress_edit = stale_mining_progress_edit s player None (inv_target ivt) in
     Inr (option_list progress_edit, MiningCancelled (progress_edit \<noteq> None)))"

subsection \<open>Drops, pickups and placements\<close>

definition plan_drop :: "catalog \<Rightarrow> gameplay_state \<Rightarrow> drop_item_command \<Rightarrow> planned" where
  "plan_drop cat s cmd =
     and_then (require_capacity ''drops'' (bt_len (gs_drops s)) (gl_drops (gs_limits s))) (\<lambda>_.
     let chunk = block_chunk s (dropc_location cmd) in
     and_then (require_chunk_revision s chunk) (\<lambda>_.
     and_then (player_inventory s (dropc_player cmd)) (\<lambda>ivt.
     and_then (occupied_slot (inv_slots ivt) (dropc_slot cmd)) (\<lambda>source.
     and_then (validate_stack cat source) (\<lambda>_.
     if stack_quantity source < dropc_quantity cmd then Inl SlotMismatch
     else if stack_state source \<noteq> Plain \<and> dropc_quantity cmd \<noteq> 1
     then Inl (StatefulStackQuantity (dropc_quantity cmd))
     else and_then (with_quantity source (dropc_quantity cmd)) (\<lambda>m.
       and_then (ok_or m ZeroQuantity) (\<lambda>dropped.
       and_then (with_quantity source (stack_quantity source - dropc_quantity cmd)) (\<lambda>rest.
       let drop_id = dropc_reserved_drop cmd in
       and_then (require_available_drop_id s drop_id) (\<lambda>_.
       and_then (inventory_diff (dropc_player cmd) ivt ((inv_slots ivt)[dropc_slot cmd := rest]))
         (\<lambda>es. Inr
         (es @ [DropEntity (GameplayEditTarget chunk PersistentEntities) drop_id None
            (Some \<lparr>drop_location = dropc_location cmd, drop_stack = dropped\<rparr>)],
          ItemDropped drop_id)))))))))))"

definition plan_pickup :: "catalog \<Rightarrow> gameplay_state \<Rightarrow> pickup_command \<Rightarrow> planned" where
  "plan_pickup cat s cmd =
     and_then (player_inventory s (pick_player cmd)) (\<lambda>ivt.
     and_then (ok_or (bt_get (gs_drops s) (pick_drop cmd)) (UnknownDrop (pick_drop cmd))) (\<lambda>d.
     and_then (insert_stack cat (inv_slots ivt) (drop_stack d) ToInventory) (\<lambda>inventory_after.
     let drop_target = GameplayEditTarget (block_chunk s (drop_location d)) PersistentEntities in
     and_then (inventory_diff (pick_player cmd) ivt inventory_after) (\<lambda>es. Inr
       (es @ [DropEntity drop_target (pick_drop cmd) (Some d) None],
        ItemPickedUp (pick_drop cmd))))))"

definition plan_place ::
    "catalog \<Rightarrow> gameplay_mode \<Rightarrow> gameplay_state \<Rightarrow> place_command \<Rightarrow> planned" where
  "plan_place cat mode s cmd =
     (if bt_contains (gs_blocks s) (place_target cmd) then Inl BlockOccupied
      else and_then (require_capacity ''tracked_blocks'' (bt_len (gs_blocks s))
          (gl_tracked_blocks (gs_limits s))) (\<lambda>_.
        let chunk = block_chunk s (place_target cmd) in
        and_then (require_chunk_revision s chunk) (\<lambda>current.
        if current \<noteq> place_expected_chunk_revision cmd
        then Inl (StaleChunkRevision (place_expected_chunk_revision cmd) current)
        else and_then (player_inventory s (place_player cmd)) (\<lambda>ivt.
          and_then (occupied_slot (inv_slots ivt) (place_slot cmd)) (\<lambda>source.
          and_then (ok_or (catalog_item cat (stack_item source))
              (UnknownReference ''item'' (stack_item source))) (\<lambda>item.
          and_then (ok_or (idef_placement_block item) (NotPlacementItem (stack_item source)))
            (\<lambda>block.
          and_then (case mode of
              Survival \<Rightarrow> and_then (with_quantity source (stack_quantity source - 1))
                (\<lambda>rest. Inr ((inv_slots ivt)[place_slot cmd := rest]))
            | Creative \<Rightarrow> Inr (inv_slots ivt)) (\<lambda>inventory_after.
          and_then (inventory_diff (place_player cmd) ivt inventory_after) (\<lambda>es. Inr
            (es @ [Block (GameplayEditTarget chunk Voxels) (place_target cmd) None (Some block)],
             BlockPlaced chunk)))))))))) "

definition plan_creative_pick ::
    "catalog \<Rightarrow> gameplay_mode \<Rightarrow> gameplay_state \<Rightarrow> creative_pick_command \<Rightarrow> planned" where
  "plan_creative_pick cat mode s cmd =
     (if mode \<noteq> Creative then Inl CreativeModeRequired
      else and_then (player_inventory s (cpick_player cmd)) (\<lambda>ivt.
        and_then (require_inventory_revision ivt (cpick_expected_inventory_revision cmd)) (\<lambda>_.
        if inv_hotbar_slots ivt \<le> cpick_slot cmd
        then Inl (SlotOutOfRange (cpick_slot cmd) (inv_hotbar_slots ivt))
        else and_then (ok_or (catalog_item cat (cpick_item cmd))
            (UnknownReference ''item'' (cpick_item cmd))) (\<lambda>d.
          and_then (case idef_durability d of
              Some durability \<Rightarrow> tool_stack (cpick_item cmd) durability
            | None \<Rightarrow> plain_stack (cpick_item cmd) (idef_stack_limit d)) (\<lambda>stack.
          and_then (validate_stack cat stack) (\<lambda>_.
          and_then (inventory_diff (cpick_player cmd) ivt
              ((inv_slots ivt)[cpick_slot cmd := Some stack])) (\<lambda>es. Inr
            (es, CreativeStackPicked (cpick_slot cmd) (cpick_item cmd)))))))))"

subsection \<open>Crafting, transfers and hotbar\<close>

definition plan_craft :: "catalog \<Rightarrow> gameplay_state \<Rightarrow> craft_command \<Rightarrow> planned" where
  "plan_craft cat s cmd =
     and_then (ok_or (catalog_recipe cat (craft_recipe cmd))
         (UnknownReference ''recipe'' (craft_recipe cmd))) (\<lambda>recipe.
     and_then (validate_workstation s (rdef_workstation recipe) (craft_workstation cmd)) (\<lambda>_.
     and_then (player_inventory s (craft_player cmd)) (\<lambda>ivt.
     and_then (validate_unique_slots (craft_input_slots cmd)) (\<lambda>_.
     and_then (case rdef_pattern recipe of
         Shapeless ingredients \<Rightarrow>
           consume_shapeless cat (inv_slots ivt) (craft_input_slots cmd) ingredients
             (craft_recipe cmd)
       | Shaped _ _ cells \<Rightarrow>
           consume_shaped cat (inv_slots ivt) (craft_input_slots cmd) cells (craft_recipe cmd))
       (\<lambda>consumed.
     and_then (resolve_output cat (rdef_output recipe)) (\<lambda>out.
     and_then (insert_stack cat consumed out ToInventory) (\<lambda>inventory_after.
     and_then (inventory_diff (craft_player cmd) ivt inventory_after) (\<lambda>es. Inr
       (es, Crafted (craft_recipe cmd) out)))))))))"

definition plan_transfer :: "catalog \<Rightarrow> gameplay_state \<Rightarrow> transfer_command \<Rightarrow> planned" where
  "plan_transfer cat s cmd =
     and_then (player_inventory s (tr_player cmd)) (\<lambda>ivt.
     and_then (ok_or (bt_get (gs_containers s) (tr_container cmd)) UnknownContainer) (\<lambda>c.
     and_then (require_inventory_revision ivt (tr_expected_inventory_revision cmd)) (\<lambda>_.
     and_then (require_container_revision c (tr_expected_container_revision cmd)) (\<lambda>_.
     and_then (case tr_direction cmd of
         PlayerToContainer \<Rightarrow>
           move_quantity cat (inv_slots ivt) (tr_player_slot cmd) (con_slots c)
             (tr_container_slot cmd) (tr_quantity cmd) ToOutput
       | ContainerToPlayer \<Rightarrow>
           and_then (move_quantity cat (con_slots c) (tr_container_slot cmd) (inv_slots ivt)
             (tr_player_slot cmd) (tr_quantity cmd) ToInventory)
             (\<lambda>(container_after, inventory_after). Inr (inventory_after, container_after)))
       (\<lambda>(inventory_after, container_after).
     and_then (inventory_diff (tr_player cmd) ivt inventory_after) (\<lambda>es.
     and_then (container_diff (tr_container cmd) c container_after) (\<lambda>ces. Inr
       (es @ ces, Transferred (tr_quantity cmd)))))))))"

text \<open>
  The slots after \<open>plan_move_stack\<close>: into an empty slot, onto a like stack as far as the
  limit allows, or a swap of two unlike stacks.
\<close>

definition moved_slots ::
    "catalog \<Rightarrow> slots \<Rightarrow> slot_index \<Rightarrow> slot_index \<Rightarrow> item_stack \<Rightarrow> item_stack option \<Rightarrow> u32 \<Rightarrow>
     u32 option \<Rightarrow> slots outcome" where
  "moved_slots cat xs source target from_stack to_stack requested quantity =
     (case to_stack of
        None \<Rightarrow>
          and_then (with_quantity from_stack (stack_quantity from_stack - requested)) (\<lambda>rest.
          and_then (with_quantity from_stack requested) (\<lambda>moved.
          Inr (xs[source := rest, target := moved])))
      | Some dest_stack \<Rightarrow>
          if stack_item dest_stack = stack_item from_stack
             \<and> stack_state dest_stack = stack_state from_stack
          then and_then (ok_or (catalog_item cat (stack_item from_stack))
              (UnknownReference ''item'' (stack_item from_stack))) (\<lambda>d.
            and_then (ok_or (checked_sub (idef_stack_limit d) (stack_quantity dest_stack))
                QuantityOverflow) (\<lambda>space.
            let moved = min requested space in
            and_then (with_quantity from_stack (stack_quantity from_stack - moved)) (\<lambda>rest.
            and_then (ok_or (checked_add u32_max (stack_quantity dest_stack) moved)
                QuantityOverflow) (\<lambda>n.
            and_then (with_quantity dest_stack n) (\<lambda>merged.
            Inr (xs[source := rest, target := merged]))))))
          else if quantity \<noteq> None \<and> quantity \<noteq> Some (stack_quantity from_stack)
          then Inl SlotMismatch
          else and_then (validate_stack cat dest_stack) (\<lambda>_.
            Inr (xs[source := Some dest_stack, target := Some from_stack])))"

definition plan_move_stack :: "catalog \<Rightarrow> gameplay_state \<Rightarrow> move_stack_command \<Rightarrow> planned" where
  "plan_move_stack cat s cmd =
     and_then (player_inventory s (mv_player cmd)) (\<lambda>ivt.
     and_then (require_inventory_revision ivt (mv_expected_inventory_revision cmd)) (\<lambda>_.
     and_then (occupied_slot (inv_slots ivt) (mv_from cmd)) (\<lambda>from_stack.
     and_then (slot_ref (inv_slots ivt) (mv_to cmd)) (\<lambda>to_stack.
     let result = StackMoved (mv_from cmd) (mv_to cmd) in
     if mv_from cmd = mv_to cmd then Inr ([], result)
     else and_then (validate_stack cat from_stack) (\<lambda>_.
       let requested = (case mv_quantity cmd of Some q \<Rightarrow> q | None \<Rightarrow> stack_quantity from_stack) in
       if stack_quantity from_stack < requested then Inl SlotMismatch
       else if stack_state from_stack \<noteq> Plain \<and> requested \<noteq> 1
       then Inl (StatefulStackQuantity requested)
       else and_then (moved_slots cat (inv_slots ivt) (mv_from cmd) (mv_to cmd) from_stack to_stack
           requested (mv_quantity cmd)) (\<lambda>inventory_after.
         and_then (inventory_diff (mv_player cmd) ivt inventory_after)
           (\<lambda>es. Inr (es, result))))))))"

definition plan_select_hotbar :: "gameplay_state \<Rightarrow> select_hotbar_command \<Rightarrow> planned" where
  "plan_select_hotbar s cmd =
     and_then (player_inventory s (sel_player cmd)) (\<lambda>ivt.
     and_then (require_inventory_revision ivt (sel_expected_inventory_revision cmd)) (\<lambda>_.
     if inv_hotbar_slots ivt \<le> sel_slot cmd
     then Inl (SlotOutOfRange (sel_slot cmd) (inv_hotbar_slots ivt))
     else if sel_slot cmd = inv_selected_hotbar ivt then Inr ([], HotbarSelected (sel_slot cmd))
     else and_then (ok_or (checked_add u64_max (inv_revision ivt) 1)
         (RevisionOverflow ''inventory_revision'')) (\<lambda>revision. Inr
       ([InventoryHotbar (inv_target ivt) (sel_player cmd) (inv_selected_hotbar ivt) (sel_slot cmd),
         InventoryRevision (inv_target ivt) (sel_player cmd) (inv_revision ivt) revision],
        HotbarSelected (sel_slot cmd)))))"

subsection \<open>Processes\<close>

definition plan_start_process ::
    "catalog \<Rightarrow> gameplay_state \<Rightarrow> transaction_id \<Rightarrow> start_process_command \<Rightarrow> planned" where
  "plan_start_process cat s tid cmd =
     (if sp_input_slot cmd = sp_fuel_slot cmd \<or> sp_input_slot cmd = sp_output_slot cmd
         \<or> sp_fuel_slot cmd = sp_output_slot cmd
      then Inl SlotMismatch
      else and_then (require_capacity ''continuations'' (bt_len (gs_continuations s))
          (gl_continuations (gs_limits s))) (\<lambda>_.
      if list_ex (\<lambda>c. fc_container c = sp_container cmd) (bt_values (gs_continuations s))
      then Inl ProcessAlreadyScheduled
      else and_then (ok_or (catalog_process cat (sp_process cmd))
          (UnknownReference ''process'' (sp_process cmd))) (\<lambda>process.
        and_then (ok_or (bt_get (gs_containers s) (sp_container cmd)) UnknownContainer) (\<lambda>c.
        and_then (require_container_revision c (sp_expected_container_revision cmd)) (\<lambda>_.
        if con_workstation c \<noteq> Some (pdef_workstation process)
        then Inl (WorkstationRequired (pdef_workstation process))
        else and_then (occupied_slot (con_slots c) (sp_input_slot cmd)) (\<lambda>input.
          if \<not> predicate_matches cat (ing_accepts (pdef_input process)) (stack_item input)
             \<or> stack_quantity input < ing_quantity (pdef_input process)
          then Inl SlotMismatch
          else and_then (occupied_slot (con_slots c) (sp_fuel_slot cmd)) (\<lambda>fuel.
            and_then (ok_or (best_fuel_ticks cat (stack_item fuel))
                (FuelRejected (stack_item fuel))) (\<lambda>burn_ticks.
            if burn_ticks < pdef_duration_ticks process
            then Inl (InsufficientFuel burn_ticks (pdef_duration_ticks process))
            else and_then (resolve_output cat (pdef_output process)) (\<lambda>out.
              and_then (slot_ref (con_slots c) (sp_output_slot cmd)) (\<lambda>existing.
              and_then (can_merge_single_slot cat existing out ToOutput) (\<lambda>_.
              and_then (with_quantity input (stack_quantity input - ing_quantity (pdef_input process)))
                (\<lambda>input'.
              and_then (with_quantity fuel (stack_quantity fuel - 1)) (\<lambda>fuel'.
              let after = (con_slots c)[sp_input_slot cmd := input', sp_fuel_slot cmd := fuel'];
                  continuation_id = continuation_id_for tid;
                  target = GameplayEditTarget (owner_chunk_key (con_owner c)) Continuations in
              and_then (ok_or (checked_add u64_max (sp_started_at cmd) (pdef_duration_ticks process))
                  (RevisionOverflow ''authority_tick'')) (\<lambda>due_tick.
              and_then (container_diff (sp_container cmd) c after) (\<lambda>es. Inr
                (es @ [Continuation target continuation_id None
                   (Some \<lparr>fc_process = sp_process cmd, fc_container = sp_container cmd,
                     fc_target = target, fc_output_slot = sp_output_slot cmd,
                     fc_pending_output = out, fc_due_tick = due_tick, fc_revision = 0\<rparr>)],
                 ProcessScheduled continuation_id due_tick))))))))))))))))"

text \<open>The due continuations, by tick and then by identifier.\<close>

definition due_continuations :: "gameplay_state \<Rightarrow> authority_tick \<Rightarrow> (authority_tick \<times> continuation_id) list" where
  "due_continuations s through_tick =
     sort (map (\<lambda>(cid, c). (fc_due_tick c, cid))
       (filter (\<lambda>(_, c). fc_due_tick c \<le> through_tick) (entries (gs_continuations s))))"

definition complete_one ::
    "catalog \<Rightarrow> gameplay_state \<Rightarrow> authority_tick \<times> continuation_id \<Rightarrow> (container_id, slots) btree \<Rightarrow>
     (container_id, slots) btree outcome" where
  "complete_one cat s = (\<lambda>(_, cid) container_after.
     and_then (ok_or (bt_get (gs_continuations s) cid)
         (MutationPreconditionFailed ''continuation'')) (\<lambda>continuation.
     and_then (ok_or (bt_get (gs_containers s) (fc_container continuation))
         ContinuationOwnerMissing) (\<lambda>c.
     let xs = (case bt_get container_after (fc_container continuation) of
         Some xs \<Rightarrow> xs | None \<Rightarrow> con_slots c) in
     and_then (merge_single_slot cat xs (fc_output_slot continuation)
         (fc_pending_output continuation) ToOutput) (\<lambda>xs'.
     Inr (bt_insert (fc_container continuation) xs' container_after)))))"

definition plan_advance_scheduled ::
    "catalog \<Rightarrow> gameplay_state \<Rightarrow> scheduled_advance_command \<Rightarrow> planned" where
  "plan_advance_scheduled cat s cmd =
     (let requested = adv_max_completions cmd in
      if gl_scheduled_completions (gs_limits s) < requested
      then Inl (LimitExceeded ''scheduled_completions''
        (gl_scheduled_completions (gs_limits s)) requested)
      else let all_due = due_continuations s (adv_through_tick cmd);
               more_due = requested < length all_due;
               due = take requested all_due in
        and_then (try_fold (complete_one cat s) due bt_empty) (\<lambda>container_after.
        and_then (try_fold (\<lambda>(cid, after) es.
            and_then (ok_or (bt_get (gs_containers s) cid) ContinuationOwnerMissing) (\<lambda>before.
            and_then (container_diff cid before after) (\<lambda>ces. Inr (es @ ces))))
          (entries container_after) []) (\<lambda>slot_es.
        and_then (try_fold (\<lambda>(_, cid) es.
            and_then (ok_or (bt_get (gs_continuations s) cid)
                (MutationPreconditionFailed ''continuation'')) (\<lambda>before.
            Inr (es @ [Continuation (fc_target before) cid (Some before) None])))
          due []) (\<lambda>continuation_es.
        and_then (ok_or (try_from u16_max (length due))
            (LimitExceeded ''scheduled_completions'' u16_max (length due))) (\<lambda>completed.
        Inr (slot_es @ continuation_es, ScheduledAdvanced completed more_due))))))"

subsection \<open>Planning a command\<close>

definition plan_command ::
    "catalog \<Rightarrow> gameplay_mode \<Rightarrow> gameplay_state \<Rightarrow> transaction_id \<Rightarrow> gameplay_command \<Rightarrow> planned" where
  "plan_command cat mode s tid cmd =
     (case cmd of
        Mine c \<Rightarrow> plan_mine cat mode s c
      | CancelMining player \<Rightarrow> plan_cancel_mining s player
      | DropItem c \<Rightarrow> plan_drop cat s c
      | Pickup c \<Rightarrow> plan_pickup cat s c
      | Place c \<Rightarrow> plan_place cat mode s c
      | CreativePick c \<Rightarrow> plan_creative_pick cat mode s c
      | Craft c \<Rightarrow> plan_craft cat s c
      | Transfer c \<Rightarrow> plan_transfer cat s c
      | MoveStack c \<Rightarrow> plan_move_stack cat s c
      | SelectHotbar c \<Rightarrow> plan_select_hotbar s c
      | StartProcess c \<Rightarrow> plan_start_process cat s tid c
      | AdvanceScheduled c \<Rightarrow> plan_advance_scheduled cat s c)"

definition plan ::
    "digest_function \<Rightarrow> catalog \<Rightarrow> gameplay_mode \<Rightarrow> gameplay_state \<Rightarrow> command_envelope \<Rightarrow>
     gameplay_plan outcome" where
  "plan sha cat mode s envelope =
     and_then (validate_loaded sha cat s) (\<lambda>_.
     and_then (validate_envelope s envelope) (\<lambda>_.
     and_then (plan_command cat mode s (env_transaction_id envelope) (env_command envelope))
       (\<lambda>(es, result).
     if gl_mutations_per_command (gs_limits s) < length es
     then Inl (LimitExceeded ''mutations_per_command''
       (gl_mutations_per_command (gs_limits s)) (length es))
     else let envelope_fingerprint = envelope_hash sha envelope in Inr
       \<lparr>plan_transaction_id = env_transaction_id envelope,
        plan_expected_world_revision = env_expected_world_revision envelope,
        plan_envelope_fingerprint = envelope_fingerprint,
        plan_edits = es,
        plan_plan_fingerprint = plan_hash sha (env_expected_world_revision envelope)
          envelope_fingerprint es result,
        plan_outcome = result\<rparr>)))"

end
