(* ===== verification/Apply.thy ===== *)
theory Apply
  imports Planner
begin

section \<open>Applying and rolling back staged edits\<close>

text \<open>
  The part of \<open>kernel.rs\<close> that changes the loaded state: the admission check of a plan's
  targets, one staged edit with its precondition, its inverse, and the batch loop that
  rolls back on an error or an injected fault. An edit returns the changed state; every
  error of the code's \<open>apply_intent\<close> is raised before the first write.
\<close>

subsection \<open>One edit and its inverse\<close>

definition require_before :: "'a \<Rightarrow> 'a \<Rightarrow> string \<Rightarrow> unit outcome" where
  "require_before actual expected resource =
     (if actual \<noteq> expected then Inl (MutationPreconditionFailed resource) else Inr ())"

definition replace_map :: "('k::linorder, 'v) btree \<Rightarrow> 'k \<Rightarrow> 'v option \<Rightarrow> ('k, 'v) btree" where
  "replace_map m key value = (case value of Some v \<Rightarrow> bt_insert key v m | None \<Rightarrow> bt_remove key m)"

definition set_inventory :: "gameplay_state \<Rightarrow> player_id \<Rightarrow> inventory_state \<Rightarrow> gameplay_state" where
  "set_inventory s player ivt = s\<lparr>gs_inventories := bt_insert player ivt (gs_inventories s)\<rparr>"

definition set_container :: "gameplay_state \<Rightarrow> container_id \<Rightarrow> container_state \<Rightarrow> gameplay_state" where
  "set_container s cid c = s\<lparr>gs_containers := bt_insert cid c (gs_containers s)\<rparr>"

fun apply_intent :: "gameplay_state \<Rightarrow> mutation_intent \<Rightarrow> gameplay_state outcome" where
  "apply_intent s (InventorySlot _ player slot before after) =
     and_then (ok_or (bt_get (gs_inventories s) player) (UnknownPlayer player)) (\<lambda>ivt.
     and_then (slot_ref (inv_slots ivt) slot) (\<lambda>slot_value.
     and_then (require_before slot_value before ''inventory_slot'') (\<lambda>_.
     Inr (set_inventory s player (ivt\<lparr>inv_slots := (inv_slots ivt)[slot := after]\<rparr>)))))"
| "apply_intent s (InventoryRevision _ player before after) =
     and_then (ok_or (bt_get (gs_inventories s) player) (UnknownPlayer player)) (\<lambda>ivt.
     and_then (require_before (inv_revision ivt) before ''inventory_revision'') (\<lambda>_.
     Inr (set_inventory s player (ivt\<lparr>inv_revision := after\<rparr>))))"
| "apply_intent s (InventoryHotbar _ player before after) =
     and_then (ok_or (bt_get (gs_inventories s) player) (UnknownPlayer player)) (\<lambda>ivt.
     and_then (require_before (inv_selected_hotbar ivt) before ''inventory_hotbar'') (\<lambda>_.
     if inv_hotbar_slots ivt \<le> after then Inl (SlotOutOfRange after (inv_hotbar_slots ivt))
     else Inr (set_inventory s player (ivt\<lparr>inv_selected_hotbar := after\<rparr>))))"
| "apply_intent s (ContainerSlot _ cid slot before after) =
     and_then (ok_or (bt_get (gs_containers s) cid) UnknownContainer) (\<lambda>c.
     and_then (slot_ref (con_slots c) slot) (\<lambda>slot_value.
     and_then (require_before slot_value before ''container_slot'') (\<lambda>_.
     Inr (set_container s cid (c\<lparr>con_slots := (con_slots c)[slot := after]\<rparr>)))))"
| "apply_intent s (ContainerRevision _ cid before after) =
     and_then (ok_or (bt_get (gs_containers s) cid) UnknownContainer) (\<lambda>c.
     and_then (require_before (con_revision c) before ''container_revision'') (\<lambda>_.
     Inr (set_container s cid (c\<lparr>con_revision := after\<rparr>))))"
| "apply_intent s (Block _ key before after) =
     and_then (require_before (bt_get (gs_blocks s) key) before ''block'') (\<lambda>_.
     Inr (s\<lparr>gs_blocks := replace_map (gs_blocks s) key after\<rparr>))"
| "apply_intent s (DropEntity _ did before after) =
     and_then (require_before (bt_get (gs_drops s) did) before ''drop_entity'') (\<lambda>_.
     Inr (s\<lparr>gs_drops := replace_map (gs_drops s) did after\<rparr>))"
| "apply_intent s (BreakProgress _ key before after) =
     and_then (require_before (bt_get (gs_break_progress s) key) before ''break_progress'') (\<lambda>_.
     Inr (s\<lparr>gs_break_progress := replace_map (gs_break_progress s) key after\<rparr>))"
| "apply_intent s (Continuation _ cid before after) =
     and_then (require_before (bt_get (gs_continuations s) cid) before ''continuation'') (\<lambda>_.
     Inr (s\<lparr>gs_continuations := replace_map (gs_continuations s) cid after\<rparr>))"

fun rollback_intent :: "gameplay_state \<Rightarrow> mutation_intent \<Rightarrow> gameplay_state" where
  "rollback_intent s (InventorySlot _ player slot before _) =
     (case bt_get (gs_inventories s) player of
        Some ivt \<Rightarrow>
          if slot < length (inv_slots ivt)
          then set_inventory s player (ivt\<lparr>inv_slots := (inv_slots ivt)[slot := before]\<rparr>) else s
      | None \<Rightarrow> s)"
| "rollback_intent s (InventoryRevision _ player before _) =
     (case bt_get (gs_inventories s) player of
        Some ivt \<Rightarrow> set_inventory s player (ivt\<lparr>inv_revision := before\<rparr>)
      | None \<Rightarrow> s)"
| "rollback_intent s (InventoryHotbar _ player before _) =
     (case bt_get (gs_inventories s) player of
        Some ivt \<Rightarrow> set_inventory s player (ivt\<lparr>inv_selected_hotbar := before\<rparr>)
      | None \<Rightarrow> s)"
| "rollback_intent s (ContainerSlot _ cid slot before _) =
     (case bt_get (gs_containers s) cid of
        Some c \<Rightarrow>
          if slot < length (con_slots c)
          then set_container s cid (c\<lparr>con_slots := (con_slots c)[slot := before]\<rparr>) else s
      | None \<Rightarrow> s)"
| "rollback_intent s (ContainerRevision _ cid before _) =
     (case bt_get (gs_containers s) cid of
        Some c \<Rightarrow> set_container s cid (c\<lparr>con_revision := before\<rparr>)
      | None \<Rightarrow> s)"
| "rollback_intent s (Block _ key before _) =
     s\<lparr>gs_blocks := replace_map (gs_blocks s) key before\<rparr>"
| "rollback_intent s (DropEntity _ did before _) =
     s\<lparr>gs_drops := replace_map (gs_drops s) did before\<rparr>"
| "rollback_intent s (BreakProgress _ key before _) =
     s\<lparr>gs_break_progress := replace_map (gs_break_progress s) key before\<rparr>"
| "rollback_intent s (Continuation _ cid before _) =
     s\<lparr>gs_continuations := replace_map (gs_continuations s) cid before\<rparr>"

subsection \<open>Admission of a plan's targets\<close>

text \<open>
  The code formats a logical key per edit; two keys are equal exactly when the edits name
  the same cell of the state.
\<close>

datatype logical_key =
    InventorySlotKey player_id slot_index
  | InventoryRevisionKey player_id
  | InventoryHotbarKey player_id
  | ContainerSlotKey container_id slot_index
  | ContainerRevisionKey container_id
  | BlockCellKey block_key
  | DropKey drop_entity_id
  | ProgressKey break_progress_key
  | ContinuationKey continuation_id

definition require_exact_target ::
    "edit_target \<Rightarrow> edit_target \<Rightarrow> storage_domain \<Rightarrow> string \<Rightarrow> unit outcome" where
  "require_exact_target actual expected domain resource =
     (if et_domain actual \<noteq> domain then Inl (InvalidStorageTarget domain (et_domain actual))
      else if actual \<noteq> expected then Inl (MutationPreconditionFailed resource)
      else Inr ())"

fun validate_edit_target :: "gameplay_state \<Rightarrow> mutation_intent \<Rightarrow> logical_key outcome" where
  "validate_edit_target s (InventorySlot t player slot _ _) =
     and_then (player_inventory s player) (\<lambda>ivt.
     and_then (require_exact_target t (inv_target ivt) PersistentEntities ''inventory_target'')
       (\<lambda>_. Inr (InventorySlotKey player slot)))"
| "validate_edit_target s (InventoryRevision t player _ _) =
     and_then (player_inventory s player) (\<lambda>ivt.
     and_then (require_exact_target t (inv_target ivt) PersistentEntities ''inventory_target'')
       (\<lambda>_. Inr (InventoryRevisionKey player)))"
| "validate_edit_target s (InventoryHotbar t player _ after) =
     and_then (player_inventory s player) (\<lambda>ivt.
     and_then (require_exact_target t (inv_target ivt) PersistentEntities ''inventory_target'')
       (\<lambda>_. if inv_hotbar_slots ivt \<le> after then Inl (SlotOutOfRange after (inv_hotbar_slots ivt))
         else Inr (InventoryHotbarKey player)))"
| "validate_edit_target s (ContainerSlot t cid slot _ _) =
     and_then (ok_or (bt_get (gs_containers s) cid) UnknownContainer) (\<lambda>c.
     and_then (require_exact_target t (container_entity_target c) PersistentEntities
         ''container_target'')
       (\<lambda>_. Inr (ContainerSlotKey cid slot)))"
| "validate_edit_target s (ContainerRevision t cid _ _) =
     and_then (ok_or (bt_get (gs_containers s) cid) UnknownContainer) (\<lambda>c.
     and_then (require_exact_target t (container_entity_target c) PersistentEntities
         ''container_target'')
       (\<lambda>_. Inr (ContainerRevisionKey cid)))"
| "validate_edit_target s (Block t key _ _) =
     and_then (require_exact_target t (GameplayEditTarget (block_chunk s key) Voxels) Voxels
         ''block_target'')
       (\<lambda>_. Inr (BlockCellKey key))"
| "validate_edit_target s (DropEntity t did before after) =
     and_then (ok_or (case before of Some d \<Rightarrow> Some (drop_location d)
           | None \<Rightarrow> map_option drop_location after) (MutationPreconditionFailed ''drop_target''))
       (\<lambda>location.
     if (case (before, after) of
           (Some left, Some right) \<Rightarrow> drop_location left \<noteq> drop_location right
         | _ \<Rightarrow> False)
     then Inl (MutationPreconditionFailed ''drop_move_requires_complete_storage_translation'')
     else and_then (require_exact_target t
         (GameplayEditTarget (block_chunk s location) PersistentEntities) PersistentEntities
         ''drop_target'') (\<lambda>_.
       and_then (if before = None \<and> after \<noteq> None then require_available_drop_id s did
         else Inr ()) (\<lambda>_. Inr (DropKey did))))"
| "validate_edit_target s (BreakProgress t key _ _) =
     and_then (player_inventory s (bpk_player key)) (\<lambda>ivt.
     and_then (require_exact_target t (inv_target ivt) PersistentEntities ''break_progress_target'')
       (\<lambda>_. Inr (ProgressKey key)))"
| "validate_edit_target s (Continuation t cid before after) =
     and_then (ok_or (case before of Some c \<Rightarrow> Some c | None \<Rightarrow> after)
         (MutationPreconditionFailed ''continuation_target'')) (\<lambda>continuation.
     if fc_target continuation \<noteq> t then Inl (MutationPreconditionFailed ''continuation_target'')
     else and_then (ok_or (bt_get (gs_containers s) (fc_container continuation))
         ContinuationOwnerMissing) (\<lambda>c.
       and_then (require_exact_target t
           (GameplayEditTarget (owner_chunk_key (con_owner c)) Continuations) Continuations
           ''continuation_target'')
         (\<lambda>_. Inr (ContinuationKey cid))))"

definition validate_plan_targets :: "gameplay_state \<Rightarrow> mutation_intent list \<Rightarrow> unit outcome" where
  "validate_plan_targets s es =
     and_then (try_fold (\<lambda>e logical_edits.
         and_then (require_chunk_revision s (et_chunk (intent_target e))) (\<lambda>_.
         and_then (validate_edit_target s e) (\<lambda>key.
         if key \<in> set logical_edits then Inl (MutationPreconditionFailed ''duplicate_plan_edit'')
         else Inr (key # logical_edits)))) es [])
       (\<lambda>_. Inr ())"

subsection \<open>The batch loop\<close>

text \<open>
  \<open>applied\<close> holds the applied edits, the latest first, which is the order in which the
  code rolls them back.
\<close>

fun run_batch ::
    "('s \<Rightarrow> 'e \<Rightarrow> 's outcome) \<Rightarrow> ('s \<Rightarrow> 'e \<Rightarrow> 's) \<Rightarrow> fault_injection \<Rightarrow> 'e list \<Rightarrow> 'e list \<Rightarrow> 's \<Rightarrow>
     's \<times> unit outcome" where
  "run_batch apply undo fault applied [] s = (s, Inr ())"
| "run_batch apply undo fault applied (e # es) s =
     (case apply s e of
        Inl error \<Rightarrow> (foldl undo s applied, Inl error)
      | Inr s' \<Rightarrow>
         (case checked_add usize_max (length applied) 1 of
            None \<Rightarrow> (s', Inl (RevisionOverflow ''applied_edits''))
          | Some n \<Rightarrow>
              if fault = AfterMutation n
              then (foldl undo s' (e # applied), Inl (InjectedFault n))
              else run_batch apply undo fault (e # applied) es s'))"

subsection \<open>Edits that can be undone\<close>

text \<open>
  The contract between an edit and its inverse, and what it gives the batch loop: a
  batch that ends with an error leaves the state as it was, provided it is shorter than
  the counter of applied edits can count; a batch without one is the edits in sequence.
\<close>

locale reversible_edits =
  fixes edit :: "'s \<Rightarrow> 'e \<Rightarrow> 's outcome"
    and undo :: "'s \<Rightarrow> 'e \<Rightarrow> 's"
  assumes undo_edit: "edit s e = Inr s' \<Longrightarrow> undo s' e = s"
begin

lemma rollback:
  "try_fold (\<lambda>e s. edit s e) (rev applied) s0 = Inr s \<Longrightarrow> foldl undo s applied = s0"
proof (induction applied arbitrary: s)
  case (Cons e applied)
  then obtain mid where "try_fold (\<lambda>e s. edit s e) (rev applied) s0 = Inr mid" "edit mid e = Inr s"
    by (auto simp: try_fold_append result_simps)
  with Cons.IH undo_edit show ?case by simp
qed simp

lemma batch_general:
  assumes "try_fold (\<lambda>e s. edit s e) (rev applied) s0 = Inr s"
    and "length applied + length es \<le> usize_max"
  shows "run_batch edit undo fault applied es s =
    (case try_fold (\<lambda>e s. edit s e) es s of
       Inl error \<Rightarrow>
         (s0, case fault of
            NoFault \<Rightarrow> Inl error
          | AfterMutation n \<Rightarrow>
              if length applied < n \<and> n \<le> length applied + length es
                \<and> is_ok (try_fold (\<lambda>e s. edit s e) (take (n - length applied) es) s)
              then Inl (InjectedFault n) else Inl error)
     | Inr s' \<Rightarrow>
         (case fault of
            NoFault \<Rightarrow> (s', Inr ())
          | AfterMutation n \<Rightarrow>
              if length applied < n \<and> n \<le> length applied + length es
              then (s0, Inl (InjectedFault n)) else (s', Inr ())))"
  using assms
proof (induction es arbitrary: applied s)
  case Nil
  then show ?case by (auto split: fault_injection.splits)
next
  case (Cons e es)
  show ?case
  proof (cases "edit s e")
    case (Inl error)
    have "is_ok (try_fold (\<lambda>e s. edit s e) (take (n - length applied) (e # es)) s) \<longleftrightarrow>
      n \<le> length applied" for n
      using Inl by (cases "n - length applied") auto
    with Inl rollback [OF Cons.prems(1)] show ?thesis by (auto split: fault_injection.splits)
  next
    case (Inr mid)
    have prior: "try_fold (\<lambda>e s. edit s e) (rev (e # applied)) s0 = Inr mid"
      using Cons.prems(1) Inr by (simp add: try_fold_append)
    have "checked_add usize_max (length applied) 1 = Some (Suc (length applied))"
      using Cons.prems(2) by (simp add: checked_add_def)
    note step = this
    show ?thesis
    proof (cases "fault = AfterMutation (Suc (length applied))")
      case True
      with step Inr rollback [OF prior] show ?thesis
        by (auto split: sum.splits)
    next
      case False
      have "take (n - length applied) (e # es) = e # take (n - Suc (length applied)) es"
        if "length applied < n" for n
        using that by (simp add: Suc_diff_Suc [symmetric])
      with False step Inr Cons.IH [OF prior] Cons.prems(2) show ?thesis
        by (auto split: fault_injection.splits sum.splits)
    qed
  qed
qed

lemma batch_atomic:
  assumes "run_batch edit undo fault [] es s = (s', Inl error)" "length es \<le> usize_max"
  shows "s' = s"
  using assms batch_general [of "[]" s s es fault]
  by (auto split: sum.splits fault_injection.splits if_splits)

lemma batch_applies:
  assumes "run_batch edit undo fault [] es s = (s', Inr u)" "length es \<le> usize_max"
  shows "try_fold (\<lambda>e s. edit s e) es s = Inr s'"
  using assms batch_general [of "[]" s s es fault]
  by (auto split: sum.splits fault_injection.splits if_splits)

end

lemma replace_map_put: "replace_map m k v = bt_put k v m"
  by (simp add: replace_map_def bt.put_def split: option.splits)

lemma bt_insert_undo: "bt_get m k = Some v \<Longrightarrow> bt_insert k v (bt_insert k w m) = m"
  using bt.put_undo [of m k "Some v" "Some w"] by (simp add: bt.put_def)

lemma rollback_apply: "apply_intent s e = Inr s' \<Longrightarrow> rollback_intent s' e = s"
  by (cases e)
    (auto simp: result_simps slot_ref_Inr require_before_def set_inventory_def set_container_def
      bt.get_insert bt_insert_undo replace_map_put bt.put_undo split: if_splits)

interpretation intents: reversible_edits apply_intent rollback_intent
  by unfold_locales (rule rollback_apply)

end
