(* ===== verification/Applier.thy ===== *)
theory Applier
  imports Apply
begin

section \<open>The applier: one world, its retry ledger and the storage handshake\<close>

text \<open>
  \<open>ReferencePlanApplier\<close> of \<open>kernel.rs\<close>. A method that takes \<open>&mut self\<close> returns the
  applier with its result, also when the result is an error. Storage receipts are values
  of the storage crate; of a receipt the code reads the transaction, the world, the world
  revision and, per chunk, the key, the revision and the mask of changed domains.
\<close>

subsection \<open>Changed domains and receipts of the storage crate\<close>

type_synonym changed_domains = "8 word"

definition domain_mask :: "storage_domain \<Rightarrow> changed_domains" where
  "domain_mask d = (case d of Voxels \<Rightarrow> 1 | PersistentEntities \<Rightarrow> 2 | Continuations \<Rightarrow> 4)"

definition domains_union :: "changed_domains \<Rightarrow> changed_domains \<Rightarrow> changed_domains" where
  "domains_union a b = a OR b"

definition domains_contain :: "changed_domains \<Rightarrow> changed_domains \<Rightarrow> bool" where
  "domains_contain a b \<longleftrightarrow> a AND b = b"

record chunk_receipt =
  cr_world :: world_id
  cr_chunk :: dimension_chunk_key
  cr_revision :: chunk_revision
  cr_changed :: changed_domains

record storage_receipt =
  sr_transaction_id :: transaction_id
  sr_world :: world_id
  sr_world_revision :: world_revision
  sr_chunks :: "chunk_receipt list"

subsection \<open>The applier's state\<close>

record pending_storage_commit =
  psc_transaction_id :: transaction_id
  psc_base_world_revision :: world_revision
  psc_chunks :: "(dimension_chunk_key, changed_domains) btree"

record plan_applier =
  ap_world :: world_id
  ap_state :: gameplay_state
  ap_catalog :: catalog
  ap_mode :: gameplay_mode
  ap_pending :: "pending_storage_commit option"

definition try_new_with_rules ::
    "digest_function \<Rightarrow> world_id \<Rightarrow> gameplay_state \<Rightarrow> catalog \<Rightarrow> gameplay_mode \<Rightarrow>
     plan_applier outcome" where
  "try_new_with_rules sha world s cat mode =
     and_then (validate_loaded sha cat s) (\<lambda>_.
     case gs_pending_receipt s of
       Some pending \<Rightarrow> Inl (StorageCommitPending (rec_transaction_id pending)
         (gs_observed_world_revision s))
     | None \<Rightarrow> Inr \<lparr>ap_world = world, ap_state = s, ap_catalog = cat, ap_mode = mode,
         ap_pending = None\<rparr>)"

definition try_new ::
    "digest_function \<Rightarrow> world_id \<Rightarrow> gameplay_state \<Rightarrow> catalog \<Rightarrow> plan_applier outcome" where
  "try_new sha world s cat = try_new_with_rules sha world s cat Survival"

subsection \<open>The retry ledger\<close>

text \<open>
  The loop that retires the oldest receipts beyond the limit; the error branches leave
  the ledger as the loop had changed it.
\<close>

fun retire_receipts ::
    "usize \<Rightarrow> transaction_id list \<Rightarrow> (transaction_id, plan_receipt) btree \<Rightarrow>
     (transaction_id list \<times> (transaction_id, plan_receipt) btree) \<times> unit outcome" where
  "retire_receipts limit [] recent = (([], recent), Inr ())"
| "retire_receipts limit (retired_id # order) recent =
     (if limit < length (retired_id # order)
      then (if bt_get recent retired_id = None
        then ((order, bt_remove retired_id recent), Inl retry_ledger_failed)
        else retire_receipts limit order (bt_remove retired_id recent))
      else ((retired_id # order, recent), Inr ()))"

definition retain_finalized_receipt ::
    "gameplay_state \<Rightarrow> plan_receipt \<Rightarrow> gameplay_state \<times> unit outcome" where
  "retain_finalized_receipt s receipt =
     (if bt_contains (gs_recent_receipts s) (rec_transaction_id receipt)
      then (s, Inl retry_ledger_failed)
      else case retire_receipts (gl_recent_receipts (gs_limits s))
          (gs_receipt_order s @ [rec_transaction_id receipt])
          (bt_insert (rec_transaction_id receipt) receipt (gs_recent_receipts s)) of
        ((order, recent), result) \<Rightarrow>
          let s' = s\<lparr>gs_receipt_order := order, gs_recent_receipts := recent\<rparr> in
          (case result of
             Inl error \<Rightarrow> (s', Inl error)
           | Inr _ \<Rightarrow>
              (case order of
                 [] \<Rightarrow> (s'\<lparr>gs_oldest_replayable_world_revision := 0\<rparr>, Inr ())
               | oldest_id # _ \<Rightarrow>
                  (case bt_get recent oldest_id of
                     None \<Rightarrow> (s', Inl retry_ledger_failed)
                   | Some oldest \<Rightarrow>
                       (s'\<lparr>gs_oldest_replayable_world_revision := rec_observed_world_revision oldest\<rparr>,
                        Inr ())))))"

definition storage_capture_domains ::
    "mutation_intent list \<Rightarrow> (dimension_chunk_key, changed_domains) btree" where
  "storage_capture_domains es =
     foldl (\<lambda>chunks e.
       case storage_capture_target e of
         None \<Rightarrow> chunks
       | Some t \<Rightarrow>
          let domain = domain_mask (et_domain t) in
          bt_insert (et_chunk t)
            (case bt_get chunks (et_chunk t) of
               Some domains \<Rightarrow> domains_union domains domain | None \<Rightarrow> domain) chunks)
       bt_empty es"

subsection \<open>Applying a plan\<close>

text \<open>
  The retry guards shared by \<open>execute\<close> and \<open>apply_plan\<close>: \<open>same\<close> decides whether a
  stored receipt is an exact retry. The result is a receipt to return, or nothing when
  the command is new.
\<close>

definition replay_guard ::
    "plan_applier \<Rightarrow> transaction_id \<Rightarrow> world_revision \<Rightarrow> (plan_receipt \<Rightarrow> bool) \<Rightarrow>
     plan_receipt option outcome" where
  "replay_guard ap tid expected_revision same =
     (let s = ap_state ap;
          replay = (\<lambda>receipt. if same receipt then Inr (Some receipt)
            else Inl (RetryPayloadMismatch tid)) in
      case (case gs_pending_receipt s of
          Some receipt \<Rightarrow> if rec_transaction_id receipt = tid then Some receipt else None
        | None \<Rightarrow> None) of
        Some receipt \<Rightarrow> replay receipt
      | None \<Rightarrow>
         (case bt_get (gs_recent_receipts s) tid of
            Some receipt \<Rightarrow> replay receipt
          | None \<Rightarrow>
             if expected_revision < gs_oldest_replayable_world_revision s
             then Inl (RetryWindowExpired tid (gs_oldest_replayable_world_revision s))
             else case ap_pending ap of
               Some pending \<Rightarrow> Inl (StorageCommitPending (psc_transaction_id pending)
                 (gs_observed_world_revision s))
             | None \<Rightarrow> Inr None))"

text \<open>What \<open>apply_plan\<close> checks of a new plan before it touches the state.\<close>

definition admit_plan :: "digest_function \<Rightarrow> plan_applier \<Rightarrow> gameplay_plan \<Rightarrow> unit outcome" where
  "admit_plan sha ap p =
     (let s = ap_state ap in
      if plan_expected_world_revision p \<noteq> gs_observed_world_revision s
      then Inl (StaleWorldRevision (plan_expected_world_revision p) (gs_observed_world_revision s))
      else and_then (validate_loaded sha (ap_catalog ap) s) (\<lambda>_.
        if plan_hash sha (plan_expected_world_revision p) (plan_envelope_fingerprint p)
            (plan_edits p) (plan_outcome p) \<noteq> plan_plan_fingerprint p
        then Inl (MutationPreconditionFailed ''plan_fingerprint'')
        else validate_plan_targets s (plan_edits p)))"

text \<open>The receipt, and where it goes once every edit is applied.\<close>

definition publish_plan ::
    "digest_function \<Rightarrow> plan_applier \<Rightarrow> gameplay_plan \<Rightarrow> plan_applier \<times> plan_receipt outcome" where
  "publish_plan sha ap p =
     (let chunks = storage_capture_domains (plan_edits p);
          receipt = \<lparr>rec_transaction_id = plan_transaction_id p,
            rec_observed_world_revision = plan_expected_world_revision p,
            rec_envelope_fingerprint = plan_envelope_fingerprint p,
            rec_plan_fingerprint = plan_plan_fingerprint p,
            rec_state_hash = state_hash sha (ap_state ap),
            rec_outcome = plan_outcome p\<rparr> in
      if bt_len chunks = 0
      then (case retain_finalized_receipt (ap_state ap) receipt of
          (s', result) \<Rightarrow> (ap\<lparr>ap_state := s'\<rparr>, and_then result (\<lambda>_. Inr receipt)))
      else (ap\<lparr>ap_state := (ap_state ap)\<lparr>gs_pending_receipt := Some receipt\<rparr>,
               ap_pending := Some \<lparr>psc_transaction_id = plan_transaction_id p,
                 psc_base_world_revision = plan_expected_world_revision p,
                 psc_chunks = chunks\<rparr>\<rparr>, Inr receipt))"

definition apply_plan ::
    "digest_function \<Rightarrow> plan_applier \<Rightarrow> gameplay_plan \<Rightarrow> fault_injection \<Rightarrow>
     plan_applier \<times> plan_receipt outcome" where
  "apply_plan sha ap p fault =
     (case replay_guard ap (plan_transaction_id p) (plan_expected_world_revision p)
         (\<lambda>receipt. plan_envelope_fingerprint p = rec_envelope_fingerprint receipt
            \<and> plan_plan_fingerprint p = rec_plan_fingerprint receipt) of
        Inl error \<Rightarrow> (ap, Inl error)
      | Inr (Some receipt) \<Rightarrow> (ap, Inr receipt)
      | Inr None \<Rightarrow>
         (case admit_plan sha ap p of
            Inl error \<Rightarrow> (ap, Inl error)
          | Inr _ \<Rightarrow>
             (case run_batch apply_intent rollback_intent fault [] (plan_edits p) (ap_state ap) of
                (s', Inl error) \<Rightarrow> (ap\<lparr>ap_state := s'\<rparr>, Inl error)
              | (s', Inr _) \<Rightarrow> publish_plan sha (ap\<lparr>ap_state := s'\<rparr>) p)))"

definition execute ::
    "digest_function \<Rightarrow> plan_applier \<Rightarrow> command_envelope \<Rightarrow> fault_injection \<Rightarrow>
     plan_applier \<times> plan_receipt outcome" where
  "execute sha ap envelope fault =
     (case replay_guard ap (env_transaction_id envelope) (env_expected_world_revision envelope)
         (\<lambda>receipt. envelope_hash sha envelope = rec_envelope_fingerprint receipt) of
        Inl error \<Rightarrow> (ap, Inl error)
      | Inr (Some receipt) \<Rightarrow> (ap, Inr receipt)
      | Inr None \<Rightarrow>
         (case plan sha (ap_catalog ap) (ap_mode ap) (ap_state ap) envelope of
            Inl error \<Rightarrow> (ap, Inl error)
          | Inr p \<Rightarrow> apply_plan sha ap p fault))"

subsection \<open>Observing the storage commit\<close>

definition validate_pending_runtime_receipt ::
    "gameplay_state \<Rightarrow> pending_storage_commit \<Rightarrow> unit outcome" where
  "validate_pending_runtime_receipt s pending =
     and_then (ok_or (gs_pending_receipt s) (MutationPreconditionFailed ''pending_retry_receipt''))
       (\<lambda>runtime_receipt.
     if rec_transaction_id runtime_receipt \<noteq> psc_transaction_id pending
        \<or> rec_observed_world_revision runtime_receipt \<noteq> psc_base_world_revision pending
     then Inl (MutationPreconditionFailed ''pending_retry_receipt'') else Inr ())"

definition validate_storage_commit_header ::
    "world_id \<Rightarrow> gameplay_state \<Rightarrow> pending_storage_commit \<Rightarrow> storage_receipt \<Rightarrow>
     world_revision outcome" where
  "validate_storage_commit_header world s pending receipt =
     (if sr_world receipt \<noteq> world then Inl (StorageCommitMismatch ''world'')
      else if sr_transaction_id receipt \<noteq> psc_transaction_id pending
      then Inl (StorageCommitMismatch ''transaction_id'')
      else if gs_observed_world_revision s \<noteq> psc_base_world_revision pending
      then Inl (StorageCommitMismatch ''base_world_revision'')
      else and_then (ok_or (checked_add u64_max (psc_base_world_revision pending) 1)
          (RevisionOverflow ''storage_world_revision'')) (\<lambda>next_world_revision.
        if sr_world_revision receipt \<noteq> next_world_revision
        then Inl (StorageCommitMismatch ''world_revision'')
        else if length (sr_chunks receipt) \<noteq> bt_len (psc_chunks pending)
        then Inl (StorageCommitMismatch ''chunks'')
        else Inr next_world_revision))"

definition reconcile_chunk ::
    "world_id \<Rightarrow> gameplay_state \<Rightarrow> pending_storage_commit \<Rightarrow> chunk_receipt \<Rightarrow>
     (dimension_chunk_key, unit) btree \<times> (dimension_chunk_key \<times> chunk_revision) list \<Rightarrow>
     ((dimension_chunk_key, unit) btree \<times> (dimension_chunk_key \<times> chunk_revision) list) outcome"
  where
  "reconcile_chunk world s pending cr = (\<lambda>(seen, reconciled).
     let chunk = cr_chunk cr in
     if cr_world cr \<noteq> world then Inl (StorageCommitMismatch ''chunk_world'')
     else if bt_contains seen chunk then Inl (StorageCommitMismatch ''duplicate_chunk'')
     else and_then (ok_or (bt_get (psc_chunks pending) chunk)
         (StorageCommitMismatch ''unexpected_chunk'')) (\<lambda>required_domains.
       if \<not> domains_contain (cr_changed cr) required_domains
       then Inl (StorageCommitMismatch ''changed_domains'')
       else and_then (ok_or (bt_get (gs_loaded_chunks s) chunk)
           (StorageCommitMismatch ''unloaded_chunk'')) (\<lambda>previous_revision.
         and_then (ok_or (checked_add u64_max previous_revision 1)
             (RevisionOverflow ''storage_chunk_revision'')) (\<lambda>next_chunk_revision.
         if cr_revision cr \<noteq> next_chunk_revision
         then Inl (StorageCommitMismatch ''chunk_revision'')
         else Inr (bt_insert chunk () seen, reconciled @ [(chunk, next_chunk_revision)])))))"

definition reconcile_storage_chunks ::
    "world_id \<Rightarrow> gameplay_state \<Rightarrow> pending_storage_commit \<Rightarrow> storage_receipt \<Rightarrow>
     (dimension_chunk_key \<times> chunk_revision) list outcome" where
  "reconcile_storage_chunks world s pending receipt =
     and_then (try_fold (reconcile_chunk world s pending) (sr_chunks receipt) (bt_empty, []))
       (\<lambda>(_, reconciled). Inr reconciled)"

text \<open>The next state is staged on a copy; an error leaves the applier as it was.\<close>

definition observe_storage_receipt ::
    "digest_function \<Rightarrow> plan_applier \<Rightarrow> storage_receipt \<Rightarrow> plan_applier outcome" where
  "observe_storage_receipt sha ap receipt =
     and_then (ok_or (ap_pending ap) StorageCommitNotPending) (\<lambda>pending.
     and_then (validate_pending_runtime_receipt (ap_state ap) pending) (\<lambda>_.
     and_then (validate_storage_commit_header (ap_world ap) (ap_state ap) pending receipt)
       (\<lambda>next_world_revision.
     and_then (reconcile_storage_chunks (ap_world ap) (ap_state ap) pending receipt)
       (\<lambda>reconciled.
     let next_state = (ap_state ap)
           \<lparr>gs_loaded_chunks := foldl (\<lambda>m (chunk, revision). bt_insert chunk revision m)
              (gs_loaded_chunks (ap_state ap)) reconciled,
            gs_observed_world_revision := next_world_revision,
            gs_pending_receipt := None\<rparr> in
     and_then (ok_or (gs_pending_receipt (ap_state ap))
         (MutationPreconditionFailed ''pending_retry_receipt'')) (\<lambda>finalized.
     case retain_finalized_receipt next_state finalized of
       (next_state', result) \<Rightarrow>
         and_then result (\<lambda>_.
         and_then (validate_loaded sha (ap_catalog ap) next_state') (\<lambda>_.
         Inr (ap\<lparr>ap_state := next_state', ap_pending := None\<rparr>))))))))"

text \<open>
  \<open>observe_storage_commit\<close> and \<open>observe_storage_publication\<close> project a receipt to the
  same view; on an error \<open>self\<close> is unchanged.
\<close>

definition observe_storage_commit ::
    "digest_function \<Rightarrow> plan_applier \<Rightarrow> storage_receipt \<Rightarrow> plan_applier \<times> unit outcome" where
  "observe_storage_commit sha ap receipt =
     (case observe_storage_receipt sha ap receipt of
        Inl error \<Rightarrow> (ap, Inl error)
      | Inr ap' \<Rightarrow> (ap', Inr ()))"

end
