(* ===== verification/Plan_Effects.thy ===== *)
theory Plan_Effects
  imports Apply
begin

section \<open>What the planned edits do\<close>

text \<open>
  For every command the planner accepts: the staged edits pass the admission check of
  their targets, they apply to the state they were planned on, and the state they lead to
  is the one the command describes. The contract of a slot owner (the inventory of a
  player, a container) says how its slot and revision edits act, and carries the proof
  that the difference between two slot vectors leads from the one to the other.
\<close>

subsection \<open>Sequences of edits\<close>

definition apply_all :: "gameplay_state \<Rightarrow> mutation_intent list \<Rightarrow> gameplay_state outcome" where
  "apply_all s es = try_fold (\<lambda>e s. apply_intent s e) es s"

lemma apply_all_simps [simp]:
  "apply_all s [] = Inr s"
  "apply_all s (e # es) = and_then (apply_intent s e) (\<lambda>s'. apply_all s' es)"
  "apply_all s (es @ fs) = and_then (apply_all s es) (\<lambda>s'. apply_all s' fs)"
  by (simp_all add: apply_all_def try_fold_append)

text \<open>The cell an edit writes, and the admission check in terms of it.\<close>

fun edit_key :: "mutation_intent \<Rightarrow> logical_key" where
  "edit_key (InventorySlot _ player slot _ _) = InventorySlotKey player slot"
| "edit_key (InventoryRevision _ player _ _) = InventoryRevisionKey player"
| "edit_key (InventoryHotbar _ player _ _) = InventoryHotbarKey player"
| "edit_key (ContainerSlot _ cid slot _ _) = ContainerSlotKey cid slot"
| "edit_key (ContainerRevision _ cid _ _) = ContainerRevisionKey cid"
| "edit_key (Block _ key _ _) = BlockCellKey key"
| "edit_key (DropEntity _ did _ _) = DropKey did"
| "edit_key (BreakProgress _ key _ _) = ProgressKey key"
| "edit_key (Continuation _ cid _ _) = ContinuationKey cid"

definition admissible_edit :: "gameplay_state \<Rightarrow> mutation_intent \<Rightarrow> bool" where
  "admissible_edit s e \<longleftrightarrow>
     is_ok (require_chunk_revision s (et_chunk (intent_target e))) \<and> is_ok (validate_edit_target s e)"

lemma is_ok_and_then: "is_ok (and_then r f) \<longleftrightarrow> (\<exists>a. r = Inr a \<and> is_ok (f a))"
  by (cases r) auto

lemma validate_edit_target_key: "validate_edit_target s e = Inr key \<Longrightarrow> key = edit_key e"
  by (cases e) (auto simp: result_simps Let_def split: if_splits)

lemma validate_plan_targets_Inr:
  "validate_plan_targets s es = Inr u \<longleftrightarrow>
     (\<forall>e \<in> set es. admissible_edit s e) \<and> distinct (map edit_key es)"
proof -
  let ?f = "\<lambda>e logical_edits.
         and_then (require_chunk_revision s (et_chunk (intent_target e))) (\<lambda>_.
         and_then (validate_edit_target s e) (\<lambda>key.
         if key \<in> set logical_edits then Inl (MutationPreconditionFailed ''duplicate_plan_edit'')
         else Inr (key # logical_edits)))"
  have step: "?f e seen = Inr seen' \<longleftrightarrow>
      admissible_edit s e \<and> edit_key e \<notin> set seen \<and> seen' = edit_key e # seen" for e seen seen'
    by (auto simp: result_simps admissible_edit_def is_ok_iff dest: validate_edit_target_key
        split: if_splits)
  have "is_ok (try_fold ?f es seen) \<longleftrightarrow>
      (\<forall>e \<in> set es. admissible_edit s e) \<and> distinct (map edit_key es) \<and>
      set (map edit_key es) \<inter> set seen = {}" for seen
  proof (induction es arbitrary: seen)
    case (Cons e es)
    have "is_ok (try_fold ?f (e # es) seen) \<longleftrightarrow>
        admissible_edit s e \<and> edit_key e \<notin> set seen \<and> is_ok (try_fold ?f es (edit_key e # seen))"
      unfolding try_fold.simps is_ok_and_then step by blast
    then show ?case unfolding Cons.IH by auto
  qed simp
  from this [of "[]"] show ?thesis
    unfolding validate_plan_targets_def by (auto simp: and_then_Inr is_ok_iff)
qed

subsection \<open>Slot owners\<close>

locale slot_owner =
  fixes owner :: "slots \<Rightarrow> u64 \<Rightarrow> gameplay_state"
    and mk :: "slot_index \<Rightarrow> item_stack option \<Rightarrow> item_stack option \<Rightarrow> mutation_intent"
    and mk_rev :: "u64 \<Rightarrow> u64 \<Rightarrow> mutation_intent"
  assumes apply_slot: "k < length xs \<Longrightarrow>
      apply_intent (owner xs r) (mk k (xs ! k) new) = Inr (owner (xs[k := new]) r)"
    and apply_revision: "apply_intent (owner xs r) (mk_rev r r') = Inr (owner xs r')"
begin

lemma slot_edits_apply:
  assumes "slot_edits resource mk (length pre) before after = Inr es" "length after = length before"
  shows "apply_all (owner (pre @ before) r) es = Inr (owner (pre @ after) r)"
  using assms
proof (induction before arbitrary: pre after es)
  case Nil
  then show ?case by simp
next
  case (Cons old before)
  from Cons.prems(2) obtain new rest where after: "after = new # rest" "length rest = length before"
    by (cases after) auto
  have IH: "slot_edits resource mk (Suc (length pre)) before rest = Inr fs \<Longrightarrow>
      apply_all (owner (pre @ new # before) r) fs = Inr (owner (pre @ new # rest) r)" for fs
    using Cons.IH [of "pre @ [new]" rest fs] after(2) by simp
  show ?case
  proof (cases "old = new")
    case True
    with Cons.prems(1) after IH show ?thesis by simp
  next
    case False
    with Cons.prems(1) after obtain fs where
      "slot_edits resource mk (Suc (length pre)) before rest = Inr fs"
      and es: "es = mk (length pre) old new # fs"
      by (auto simp: result_simps checked_simps)
    with IH apply_slot [of "length pre" "pre @ old # before" r new] after
    show ?thesis by (simp add: list_update_append)
  qed
qed

lemma slot_edits_Nil:
  "slot_edits resource mk i before after = Inr [] \<Longrightarrow> length after = length before \<Longrightarrow> after = before"
proof (induction before arbitrary: after i)
  case (Cons old before)
  then show ?case by (cases after) (auto simp: result_simps split: if_splits)
qed simp

lemma slot_edits_same: "slot_edits resource mk i xs xs = Inr []"
  by (induction xs arbitrary: i) auto

lemma difference_applies:
  assumes "and_then (slot_edits resource mk 0 before after) (revision_edit counter mk_rev r) = Inr es"
    and "length after = length before"
  shows "apply_all (owner before r) es = Inr (owner after (if after = before then r else Suc r))"
proof -
  from assms(1) obtain fs where fs: "slot_edits resource mk 0 before after = Inr fs"
    and es: "revision_edit counter mk_rev r fs = Inr es"
    by (auto simp: result_simps)
  have applied: "apply_all (owner before r) fs = Inr (owner after r)"
    using slot_edits_apply [of resource "[]"] fs assms(2) by simp
  show ?thesis
  proof (cases "fs = []")
    case True
    with es applied slot_edits_Nil [OF _ assms(2)] fs show ?thesis
      by (auto simp: revision_edit_def)
  next
    case False
    then have "after \<noteq> before" using fs slot_edits_same by auto
    with False es applied apply_revision show ?thesis
      by (auto simp: revision_edit_def result_simps checked_simps)
  qed
qed

end

text \<open>The edits of a difference write distinct cells of the owner, at its target.\<close>

lemma slot_edits_elems:
  assumes "slot_edits resource mk i before after = Inr es"
  shows "\<exists>ks. es = map (\<lambda>(k, old, new). mk k old new) ks \<and> sorted_wrt (<) (map fst ks) \<and>
    (\<forall>x \<in> set ks. i \<le> fst x)"
  using assms
proof (induction resource mk i before after arbitrary: es rule: slot_edits.induct)
  case (1 resource mk i old before new after)
  show ?case
  proof (cases "old = new")
    case True
    with 1 obtain ks where "es = map (\<lambda>(k, old, new). mk k old new) ks"
      "sorted_wrt (<) (map fst ks)" "\<forall>x \<in> set ks. Suc i \<le> fst x" by fastforce
    then show ?thesis by (intro exI [of _ ks]) auto
  next
    case False
    with "1.prems" obtain fs where fs: "slot_edits resource mk (Suc i) before after = Inr fs"
      and es: "es = mk i old new # fs" and bound: "try_from u16_max i = Some i"
      by (auto simp: result_simps checked_simps)
    from "1.IH"(1) [OF False _ fs] bound obtain ks where
      "fs = map (\<lambda>(k, old, new). mk k old new) ks"
      "sorted_wrt (<) (map fst ks)" "\<forall>x \<in> set ks. Suc i \<le> fst x" by (auto simp: ok_or_def)
    with es show ?thesis by (intro exI [of _ "(i, old, new) # ks"]) auto
  qed
qed auto

lemma inventory_diff_elems:
  assumes "inventory_diff player before after = Inr es"
  shows "(\<forall>e \<in> set es. (\<exists>k old new. e = InventorySlot (inv_target before) player k old new) \<or>
      (\<exists>r r'. e = InventoryRevision (inv_target before) player r r'))"
    and "distinct (map edit_key es)"
proof -
  let ?mk = "InventorySlot (inv_target before) player"
  from assms obtain fs where "slot_edits ''inventory_slots'' ?mk 0 (inv_slots before) after = Inr fs"
    and es: "fs = [] \<and> es = [] \<or> (\<exists>r'. es = fs @ [InventoryRevision (inv_target before) player (inv_revision before) r'])"
    by (auto simp: inventory_diff_def revision_edit_def result_simps split: if_splits)
  from slot_edits_elems [OF this(1)] obtain ks where fs: "fs = map (\<lambda>(k, old, new). ?mk k old new) ks"
    and ks: "sorted_wrt (<) (map fst ks)" by blast
  have "map edit_key fs = map (InventorySlotKey player) (map fst ks)"
    using fs by auto
  moreover have "distinct (map fst ks)" using ks by (simp add: strict_sorted_iff)
  ultimately have "distinct (map edit_key fs)"
    by (simp add: distinct_map inj_on_def)
  moreover have "InventoryRevisionKey player \<notin> set (map edit_key fs)" using fs by auto
  ultimately show "distinct (map edit_key es)" using es by auto
  show "(\<forall>e \<in> set es. (\<exists>k old new. e = InventorySlot (inv_target before) player k old new) \<or>
      (\<exists>r r'. e = InventoryRevision (inv_target before) player r r'))"
    using es fs by auto
qed

lemma container_diff_elems:
  assumes "container_diff cid before after = Inr es"
  shows "(\<forall>e \<in> set es.
      (\<exists>k old new. e = ContainerSlot (container_entity_target before) cid k old new) \<or>
      (\<exists>r r'. e = ContainerRevision (container_entity_target before) cid r r'))"
    and "distinct (map edit_key es)"
proof -
  let ?mk = "ContainerSlot (container_entity_target before) cid"
  from assms obtain fs where "slot_edits ''container_slots'' ?mk 0 (con_slots before) after = Inr fs"
    and es: "fs = [] \<and> es = [] \<or> (\<exists>r'. es = fs @ [ContainerRevision (container_entity_target before) cid (con_revision before) r'])"
    by (auto simp: container_diff_def revision_edit_def result_simps split: if_splits)
  from slot_edits_elems [OF this(1)] obtain ks where fs: "fs = map (\<lambda>(k, old, new). ?mk k old new) ks"
    and ks: "sorted_wrt (<) (map fst ks)" by blast
  have "map edit_key fs = map (ContainerSlotKey cid) (map fst ks)"
    using fs by auto
  moreover have "distinct (map fst ks)" using ks by (simp add: strict_sorted_iff)
  ultimately have "distinct (map edit_key fs)"
    by (simp add: distinct_map inj_on_def)
  moreover have "ContainerRevisionKey cid \<notin> set (map edit_key fs)" using fs by auto
  ultimately show "distinct (map edit_key es)" using es by auto
  show "(\<forall>e \<in> set es.
      (\<exists>k old new. e = ContainerSlot (container_entity_target before) cid k old new) \<or>
      (\<exists>r r'. e = ContainerRevision (container_entity_target before) cid r r'))"
    using es fs by auto
qed

subsection \<open>Inventories and containers are slot owners\<close>

definition with_slots :: "inventory_state \<Rightarrow> slots \<Rightarrow> inventory_state" where
  "with_slots ivt xs = ivt\<lparr>inv_slots := xs,
     inv_revision := (if xs = inv_slots ivt then inv_revision ivt else Suc (inv_revision ivt))\<rparr>"

definition with_container_slots :: "container_state \<Rightarrow> slots \<Rightarrow> container_state" where
  "with_container_slots c xs = c\<lparr>con_slots := xs,
     con_revision := (if xs = con_slots c then con_revision c else Suc (con_revision c))\<rparr>"

lemma bt_get_set_inventory [simp]:
  "bt_get (gs_inventories (set_inventory s p ivt)) q =
     (if q = p then Some ivt else bt_get (gs_inventories s) q)"
  by (simp add: set_inventory_def bt.get_insert)

lemma bt_get_set_container [simp]:
  "bt_get (gs_containers (set_container s p c)) q =
     (if q = p then Some c else bt_get (gs_containers s) q)"
  by (simp add: set_container_def bt.get_insert)

lemma bt_insert_insert: "bt_insert k v (bt_insert k w m) = bt_insert k v m"
  by (rule bt.get_inject) (simp add: bt.get_insert)

lemma bt_insert_same: "bt_get m k = Some v \<Longrightarrow> bt_insert k v m = m"
  using bt.put_same [of m k "Some v"] by (simp add: bt.put_def)

lemma set_inventory_twice [simp]: "set_inventory (set_inventory s p a) p b = set_inventory s p b"
  by (simp add: set_inventory_def bt_insert_insert)

lemma set_container_twice [simp]: "set_container (set_container s p a) p b = set_container s p b"
  by (simp add: set_container_def bt_insert_insert)

lemma set_inventory_same: "bt_get (gs_inventories s) p = Some ivt \<Longrightarrow> set_inventory s p ivt = s"
  by (simp add: set_inventory_def bt_insert_same)

lemma set_container_same: "bt_get (gs_containers s) p = Some c \<Longrightarrow> set_container s p c = s"
  by (simp add: set_container_def bt_insert_same)

interpretation inventory_owner: slot_owner
  "\<lambda>xs r. set_inventory s player (ivt\<lparr>inv_slots := xs, inv_revision := r\<rparr>)"
  "InventorySlot target player" "InventoryRevision target player"
  for s player ivt target
  by unfold_locales (cases ivt, simp_all add: slot_ref_def get_index_def require_before_def)

interpretation container_owner: slot_owner
  "\<lambda>xs r. set_container s cid (c\<lparr>con_slots := xs, con_revision := r\<rparr>)"
  "ContainerSlot target cid" "ContainerRevision target cid"
  for s cid c target
  by unfold_locales (cases c, simp_all add: slot_ref_def get_index_def require_before_def)

lemma inventory_diff_applies:
  assumes "inventory_diff player ivt after = Inr es" "length after = length (inv_slots ivt)"
    and "bt_get (gs_inventories s) player = Some ivt"
  shows "apply_all s es = Inr (set_inventory s player (with_slots ivt after))"
proof -
  have "apply_all (set_inventory s player (ivt\<lparr>inv_slots := inv_slots ivt, inv_revision := inv_revision ivt\<rparr>)) es =
      Inr (set_inventory s player (ivt\<lparr>inv_slots := after,
        inv_revision := if after = inv_slots ivt then inv_revision ivt else Suc (inv_revision ivt)\<rparr>))"
    by (rule inventory_owner.difference_applies [OF assms(1) [unfolded inventory_diff_def] assms(2)])
  then show ?thesis using set_inventory_same [OF assms(3)] by (simp add: with_slots_def)
qed

lemma container_diff_applies:
  assumes "container_diff cid c after = Inr es" "length after = length (con_slots c)"
    and "bt_get (gs_containers s) cid = Some c"
  shows "apply_all s es = Inr (set_container s cid (with_container_slots c after))"
proof -
  have "apply_all (set_container s cid (c\<lparr>con_slots := con_slots c, con_revision := con_revision c\<rparr>)) es =
      Inr (set_container s cid (c\<lparr>con_slots := after,
        con_revision := if after = con_slots c then con_revision c else Suc (con_revision c)\<rparr>))"
    by (rule container_owner.difference_applies [OF assms(1) [unfolded container_diff_def] assms(2)])
  then show ?thesis using set_container_same [OF assms(3)] by (simp add: with_container_slots_def)
qed

end
