(* ===== verification/Plan_Commands.thy ===== *)
theory Plan_Commands
  imports Plan_Effects
begin

section \<open>The effect of every command\<close>

text \<open>
  What the load barrier guarantees of each component, which edits are admissible under
  it, and, for every planner, that its edits are admitted and lead to the described state.
\<close>

subsection \<open>What the load barrier guarantees\<close>

lemma validate_loaded_parts:
  assumes "validate_loaded sha cat s = Inr u"
  shows "validate_collection_limits s = Inr ()" "validate_retry_ledger s = Inr ()"
    "validate_entity_ids s = Inr ()" "validate_inventories cat s = Inr ()"
    "validate_blocks cat s = Inr ()" "validate_drops cat s = Inr ()"
    "validate_containers cat s = Inr ()" "validate_break_progress cat s = Inr ()"
    "validate_continuations cat s = Inr ()" "validate_pending_hash sha s = Inr ()"
  using assms by (auto simp: validate_loaded_def and_then_Inr)

lemma require_loaded_chunk_Inr [result_simps]:
  "require_loaded_chunk s chunk = Inr u \<longleftrightarrow> bt_contains (gs_loaded_chunks s) chunk"
  by (simp add: require_loaded_chunk_def)

lemma is_ok_require_chunk_revision:
  "is_ok (require_chunk_revision s chunk) \<longleftrightarrow> bt_contains (gs_loaded_chunks s) chunk"
  by (auto simp: require_chunk_revision_def loaded_chunk_revision_def bt_contains_def is_ok_iff
      result_simps)

lemma loaded_inventory:
  assumes "validate_loaded sha cat s = Inr u" "bt_get (gs_inventories s) p = Some ivt"
  shows "et_domain (inv_target ivt) = PersistentEntities"
    "bt_contains (gs_loaded_chunks s) (et_chunk (inv_target ivt))"
    "validate_structure ivt = Inr ()" "validate_slots cat (inv_slots ivt) = Inr ()"
proof -
  have "ivt \<in> set (bt_values (gs_inventories s))" using assms(2) by (auto simp: bt_values_iff)
  with validate_loaded_parts(4) [OF assms(1)] show
    "et_domain (inv_target ivt) = PersistentEntities"
    "bt_contains (gs_loaded_chunks s) (et_chunk (inv_target ivt))"
    "validate_structure ivt = Inr ()" "validate_slots cat (inv_slots ivt) = Inr ()"
    by (auto simp: validate_inventories_def result_simps require_target_domain_def
        split: if_splits)
qed

lemma loaded_container:
  assumes "validate_loaded sha cat s = Inr u" "bt_get (gs_containers s) cid = Some c"
  shows "bt_contains (gs_loaded_chunks s) (owner_chunk_key (con_owner c))"
    "validate_slots cat (con_slots c) = Inr ()" "length (con_slots c) \<le> 256"
proof -
  have "(cid, c) \<in> set (entries (gs_containers s))" using assms(2) by (simp add: bt.entries_get)
  with validate_loaded_parts(7) [OF assms(1)] show
    "bt_contains (gs_loaded_chunks s) (owner_chunk_key (con_owner c))"
    "validate_slots cat (con_slots c) = Inr ()" "length (con_slots c) \<le> 256"
    by (fastforce simp: validate_containers_def result_simps not_less split: if_splits)+
qed

lemma loaded_drop:
  assumes "validate_loaded sha cat s = Inr u" "bt_get (gs_drops s) did = Some d"
  shows "bt_contains (gs_loaded_chunks s) (block_chunk s (drop_location d))"
    "validate_stack cat (drop_stack d) = Inr ()"
proof -
  have "d \<in> set (bt_values (gs_drops s))" using assms(2) by (auto simp: bt_values_iff)
  with validate_loaded_parts(6) [OF assms(1)] show
    "bt_contains (gs_loaded_chunks s) (block_chunk s (drop_location d))"
    "validate_stack cat (drop_stack d) = Inr ()"
    by (auto simp: validate_drops_def result_simps)
qed

lemma try_fold_elem:
  assumes "try_fold f xs a = Inr b" "x \<in> set xs"
  shows "\<exists>c. is_ok (f x c)"
  using assms
proof (induction xs arbitrary: a)
  case (Cons y ys)
  then show ?case by (auto simp: and_then_Inr is_ok_iff)
qed simp

lemma loaded_progress:
  assumes "validate_loaded sha cat s = Inr u" "bt_get (gs_break_progress s) key = Some progress"
  shows "bt_contains (gs_inventories s) (bpk_player key)"
    "bt_get (gs_blocks s) (bpk_block key) = Some (bp_block progress)"
proof -
  have "(key, progress) \<in> set (entries (gs_break_progress s))" using assms(2) by (simp add: bt.entries_get)
  with validate_loaded_parts(8) [OF assms(1)] show
    "bt_contains (gs_inventories s) (bpk_player key)"
    "bt_get (gs_blocks s) (bpk_block key) = Some (bp_block progress)"
    by (auto simp: validate_break_progress_def and_then_Inr is_ok_iff
        dest!: try_fold_elem split: if_splits)
qed

lemma loaded_continuation:
  assumes "validate_loaded sha cat s = Inr u" "bt_get (gs_continuations s) cid = Some fc"
  shows "\<exists>c. bt_get (gs_containers s) (fc_container fc) = Some c \<and>
    fc_target fc = GameplayEditTarget (owner_chunk_key (con_owner c)) Continuations \<and>
    bt_contains (gs_loaded_chunks s) (et_chunk (fc_target fc)) \<and>
    validate_stack cat (fc_pending_output fc) = Inr ()"
proof -
  have "fc \<in> set (bt_values (gs_continuations s))" using assms(2) by (auto simp: bt_values_iff)
  with validate_loaded_parts(9) [OF assms(1)] show ?thesis
    by (cases "fc_target fc")
      (auto simp: validate_continuations_def and_then_Inr ok_or_Inr is_ok_iff
        require_target_domain_def require_loaded_chunk_Inr
        dest!: try_fold_elem split: if_splits)
qed

subsection \<open>Admissible edits\<close>

lemma admissible_edit_iff:
  "admissible_edit s e \<longleftrightarrow> bt_contains (gs_loaded_chunks s) (et_chunk (intent_target e)) \<and>
     (\<exists>key. validate_edit_target s e = Inr key)"
  unfolding admissible_edit_def is_ok_require_chunk_revision by (simp add: is_ok_iff)

lemma require_exact_target_Inr [result_simps]:
  "require_exact_target t t' domain resource = Inr u \<longleftrightarrow> t = t' \<and> et_domain t = domain"
  by (auto simp: require_exact_target_def)

lemma admissible_inventory:
  assumes "validate_loaded sha cat s = Inr u" "bt_get (gs_inventories s) p = Some ivt"
  shows "admissible_edit s (InventorySlot (inv_target ivt) p k old new)"
    "admissible_edit s (InventoryRevision (inv_target ivt) p r r')"
    "h < inv_hotbar_slots ivt \<Longrightarrow> admissible_edit s (InventoryHotbar (inv_target ivt) p h0 h)"
    "bpk_player key = p \<Longrightarrow> admissible_edit s (BreakProgress (inv_target ivt) key b a)"
  using loaded_inventory(1,2) [OF assms] assms(2)
  by (auto simp: admissible_edit_iff player_inventory_def
      and_then_Inr require_exact_target_Inr)

lemma admissible_container:
  assumes "validate_loaded sha cat s = Inr u" "bt_get (gs_containers s) cid = Some c"
  shows "admissible_edit s (ContainerSlot (container_entity_target c) cid k old new)"
    "admissible_edit s (ContainerRevision (container_entity_target c) cid r r')"
  using loaded_container(1) [OF assms] assms(2)
  by (auto simp: admissible_edit_iff and_then_Inr
      require_exact_target_Inr container_entity_target_def)

lemma admissible_block:
  "bt_contains (gs_loaded_chunks s) (block_chunk s key) \<Longrightarrow>
   admissible_edit s (Block (GameplayEditTarget (block_chunk s key) Voxels) key b a)"
  by (auto simp: admissible_edit_iff and_then_Inr
      require_exact_target_Inr)

lemma admissible_drop_create:
  "bt_contains (gs_loaded_chunks s) (block_chunk s (drop_location d)) \<Longrightarrow>
   require_available_drop_id s did = Inr () \<Longrightarrow>
   admissible_edit s (DropEntity (GameplayEditTarget (block_chunk s (drop_location d)) PersistentEntities)
     did None (Some d))"
  by (auto simp: admissible_edit_iff and_then_Inr
      require_exact_target_Inr)

lemma admissible_drop_remove:
  "bt_contains (gs_loaded_chunks s) (block_chunk s (drop_location d)) \<Longrightarrow>
   admissible_edit s (DropEntity (GameplayEditTarget (block_chunk s (drop_location d)) PersistentEntities)
     did (Some d) None)"
  by (auto simp: admissible_edit_iff and_then_Inr
      require_exact_target_Inr)

lemma admissible_continuation:
  assumes "bt_get (gs_containers s) (fc_container fc) = Some c"
    "fc_target fc = GameplayEditTarget (owner_chunk_key (con_owner c)) Continuations"
    "bt_contains (gs_loaded_chunks s) (owner_chunk_key (con_owner c))"
  shows "admissible_edit s (Continuation (fc_target fc) cid None (Some fc))"
    "admissible_edit s (Continuation (fc_target fc) cid (Some fc) None)"
  using assms
  by (auto simp: admissible_edit_iff and_then_Inr
      require_exact_target_Inr)

lemma inventory_diff_admissible:
  assumes "validate_loaded sha cat s = Inr u" "bt_get (gs_inventories s) p = Some ivt"
    and "inventory_diff p ivt after = Inr es" "e \<in> set es"
  shows "admissible_edit s e"
  using inventory_diff_elems(1) [OF assms(3)] admissible_inventory(1,2) [OF assms(1,2)] assms(4)
  by auto

lemma container_diff_admissible:
  assumes "validate_loaded sha cat s = Inr u" "bt_get (gs_containers s) cid = Some c"
    and "container_diff cid c after = Inr es" "e \<in> set es"
  shows "admissible_edit s e"
  using container_diff_elems(1) [OF assms(3)] admissible_container [OF assms(1,2)] assms(4)
  by auto

subsection \<open>Accepted edits\<close>

text \<open>A plan's edits are accepted when the admission check passes and they lead to \<open>s'\<close>.\<close>

definition accepted :: "gameplay_state \<Rightarrow> mutation_intent list \<Rightarrow> gameplay_state \<Rightarrow> bool" where
  "accepted s es s' \<longleftrightarrow> validate_plan_targets s es = Inr () \<and> apply_all s es = Inr s'"

lemma acceptedI:
  assumes "\<And>e. e \<in> set es \<Longrightarrow> admissible_edit s e" "distinct (map edit_key es)"
    and "apply_all s es = Inr s'"
  shows "accepted s es s'"
  using assms by (auto simp: accepted_def validate_plan_targets_Inr)

lemma stale_edit_cases:
  assumes "stale_mining_progress_edit s player retained t = v"
  obtains "v = None"
    | key progress where "v = Some (BreakProgress t key (Some progress) None)"
      "bt_get (gs_break_progress s) key = Some progress" "bpk_player key = player"
      "\<And>b. retained = Some b \<Longrightarrow> bpk_block key \<noteq> b"
proof (cases v)
  case (Some e)
  with assms obtain key progress where f: "List.find (\<lambda>(key, _). bpk_player key = player
         \<and> (case retained of None \<Rightarrow> True | Some retained \<Rightarrow> bpk_block key \<noteq> retained))
       (entries (gs_break_progress s)) = Some (key, progress)"
    and e: "e = BreakProgress t key (Some progress) None"
    by (auto simp: stale_mining_progress_edit_def split: option.splits)
  from f have "(key, progress) \<in> set (entries (gs_break_progress s))" "bpk_player key = player"
    "\<And>b. retained = Some b \<Longrightarrow> bpk_block key \<noteq> b"
    by (auto simp: find_Some_iff) (metis nth_mem)
  with e Some that show thesis by (auto simp: bt.entries_get)
qed (use that in auto)

text \<open>The progress map once the edit, if any, is applied.\<close>

definition drop_stale :: "mutation_intent option \<Rightarrow> gameplay_state \<Rightarrow> gameplay_state" where
  "drop_stale v s =
     (case v of
        Some (BreakProgress _ key _ _) \<Rightarrow> s\<lparr>gs_break_progress := bt_remove key (gs_break_progress s)\<rparr>
      | _ \<Rightarrow> s)"

lemma stale_edit_applies:
  assumes "stale_mining_progress_edit s player retained t = v"
  shows "apply_all s (option_list v) = Inr (drop_stale v s)"
  by (rule stale_edit_cases [OF assms])
    (auto simp: option_list_def drop_stale_def require_before_def replace_map_def)

lemma cancel_accepted:
  assumes s: "validate_loaded sha cat s = Inr ()" and p: "plan_cancel_mining s player = Inr (es, out)"
  shows "\<exists>ivt. bt_get (gs_inventories s) player = Some ivt \<and>
    accepted s es (drop_stale (stale_mining_progress_edit s player None (inv_target ivt)) s)"
proof -
  from p obtain ivt where ivt: "bt_get (gs_inventories s) player = Some ivt"
    and es: "es = option_list (stale_mining_progress_edit s player None (inv_target ivt))"
    by (auto simp: plan_cancel_mining_def result_simps player_inventory_def Let_def)
  have "accepted s es (drop_stale (stale_mining_progress_edit s player None (inv_target ivt)) s)"
  proof (rule acceptedI)
    show "apply_all s es = Inr (drop_stale (stale_mining_progress_edit s player None (inv_target ivt)) s)"
      unfolding es by (rule stale_edit_applies) simp
    show "distinct (map edit_key es)" unfolding es option_list_def by (auto split: option.splits)
    show "admissible_edit s e" if "e \<in> set es" for e
      using that unfolding es
      by (cases rule: stale_edit_cases [OF refl [of "stale_mining_progress_edit s player None (inv_target ivt)"]])
        (auto simp: option_list_def intro!: admissible_inventory(4) [OF s ivt])
  qed
  with ivt show ?thesis by blast
qed

subsection \<open>Lengths kept by the slot operations\<close>

lemma fill_slots_length: "fill_slots step xs r = Inr (ys, r') \<Longrightarrow> length ys = length xs"
proof (induction xs arbitrary: r ys r')
  case (Cons slot xs)
  then show ?case by (auto simp: and_then_Inr split: if_splits)
qed simp

lemma insert_stack_length: "insert_stack cat xs stack d = Inr ys \<Longrightarrow> length ys = length xs"
  by (auto simp: insert_stack_def and_then_Inr ok_or_Inr Let_def split: if_splits
      dest!: fill_slots_length)

lemma merge_single_slot_length:
  "merge_single_slot cat xs k stack d = Inr ys \<Longrightarrow> length ys = length xs"
  by (erule merge_single_slot_elim) simp

lemma move_quantity_length:
  "move_quantity cat xs k ys k' q d = Inr (xs', ys') \<Longrightarrow>
   length xs' = length xs \<and> length ys' = length ys"
  by (erule move_quantity_elim) (auto dest: merge_single_slot_length)

subsection \<open>Drops, pickups, placements\<close>

lemma inventory_keys:
  "inventory_diff p ivt after = Inr es \<Longrightarrow>
   edit_key ` set es \<subseteq> Set.insert (InventoryRevisionKey p) (range (InventorySlotKey p))"
  using inventory_diff_elems(1) [of p ivt after es] by auto

lemma container_keys:
  "container_diff cid c after = Inr es \<Longrightarrow>
   edit_key ` set es \<subseteq> Set.insert (ContainerRevisionKey cid) (range (ContainerSlotKey cid))"
  using container_diff_elems(1) [of cid c after es] by auto

text \<open>Inventory edits followed by one edit of another map.\<close>

lemma accepted_inventory_then:
  assumes s: "validate_loaded sha cat s = Inr ()" and ivt: "bt_get (gs_inventories s) p = Some ivt"
    and es: "inventory_diff p ivt after = Inr es" and len: "length after = length (inv_slots ivt)"
    and fs: "\<And>e. e \<in> set fs \<Longrightarrow> admissible_edit s e" "distinct (map edit_key fs)"
      "edit_key ` set fs \<inter> Set.insert (InventoryRevisionKey p) (range (InventorySlotKey p)) = {}"
    and run: "apply_all (set_inventory s p (with_slots ivt after)) fs = Inr s'"
  shows "accepted s (es @ fs) s'"
proof (rule acceptedI)
  show "admissible_edit s e" if "e \<in> set (es @ fs)" for e
    using that inventory_diff_admissible [OF s ivt es] fs(1) by auto
  have "edit_key ` set es \<inter> edit_key ` set fs = {}"
    using inventory_keys [OF es] fs(3) by blast
  then show "distinct (map edit_key (es @ fs))"
    using inventory_diff_elems(2) [OF es] fs(2) by simp
  show "apply_all s (es @ fs) = Inr s'"
    using inventory_diff_applies [OF es len ivt] run by simp
qed

lemma set_inventory_fields [simp]:
  "gs_drops (set_inventory s p ivt) = gs_drops s"
  "gs_blocks (set_inventory s p ivt) = gs_blocks s"
  "gs_containers (set_inventory s p ivt) = gs_containers s"
  "gs_continuations (set_inventory s p ivt) = gs_continuations s"
  "gs_break_progress (set_inventory s p ivt) = gs_break_progress s"
  by (simp_all add: set_inventory_def)

lemma require_chunk_revision_loaded:
  "require_chunk_revision s chunk = Inr r \<Longrightarrow> bt_contains (gs_loaded_chunks s) chunk"
  using is_ok_require_chunk_revision [of s chunk] by simp

lemma available_drop_id: "require_available_drop_id s did = Inr u \<Longrightarrow> bt_get (gs_drops s) did = None"
proof -
  assume "require_available_drop_id s did = Inr u"
  then have "did \<notin> set (bt_keys (gs_drops s))"
    by (auto simp: require_available_drop_id_def persistent_entity_id_in_use_def list_ex_iff
        split: if_splits)
  then show ?thesis using bt_contains_iff [of "gs_drops s" did] by (simp add: bt_contains_def)
qed

lemma drop_accepted:
  assumes s: "validate_loaded sha cat s = Inr ()" and p: "plan_drop cat s cmd = Inr (es, out)"
  shows "\<exists>ivt source dropped rest.
    bt_get (gs_inventories s) (dropc_player cmd) = Some ivt \<and>
    dropc_slot cmd < length (inv_slots ivt) \<and> inv_slots ivt ! dropc_slot cmd = Some source \<and>
    dropc_quantity cmd \<le> stack_quantity source \<and>
    with_quantity source (dropc_quantity cmd) = Inr (Some dropped) \<and>
    with_quantity source (stack_quantity source - dropc_quantity cmd) = Inr rest \<and>
    bt_get (gs_drops s) (dropc_reserved_drop cmd) = None \<and>
    accepted s es
      ((set_inventory s (dropc_player cmd) (with_slots ivt ((inv_slots ivt)[dropc_slot cmd := rest])))
       \<lparr>gs_drops := bt_insert (dropc_reserved_drop cmd)
          \<lparr>drop_location = dropc_location cmd, drop_stack = dropped\<rparr> (gs_drops s)\<rparr>)"
proof -
  let ?chunk = "block_chunk s (dropc_location cmd)" and ?id = "dropc_reserved_drop cmd"
  from p obtain rev ivt source where rev: "require_chunk_revision s ?chunk = Inr rev"
    and ivt: "bt_get (gs_inventories s) (dropc_player cmd) = Some ivt"
    and source: "dropc_slot cmd < length (inv_slots ivt)" "inv_slots ivt ! dropc_slot cmd = Some source"
      "\<not> stack_quantity source < dropc_quantity cmd"
    and tail: "and_then (with_quantity source (dropc_quantity cmd)) (\<lambda>m.
       and_then (ok_or m ZeroQuantity) (\<lambda>dropped.
       and_then (with_quantity source (stack_quantity source - dropc_quantity cmd)) (\<lambda>rest.
       let drop_id = ?id in
       and_then (require_available_drop_id s drop_id) (\<lambda>_.
       and_then (inventory_diff (dropc_player cmd) ivt ((inv_slots ivt)[dropc_slot cmd := rest]))
         (\<lambda>es. Inr
         (es @ [DropEntity (GameplayEditTarget ?chunk PersistentEntities) drop_id None
            (Some \<lparr>drop_location = dropc_location cmd, drop_stack = dropped\<rparr>)],
          ItemDropped drop_id)))))) = Inr (es, out)"
    unfolding plan_drop_def Let_def
    by (simp add: and_then_Inr player_inventory_def ok_or_Inr occupied_slot_Inr split: if_split_asm) blast+
  from tail obtain dropped rest ies where q: "with_quantity source (dropc_quantity cmd) = Inr (Some dropped)"
      "with_quantity source (stack_quantity source - dropc_quantity cmd) = Inr rest"
    and free: "require_available_drop_id s ?id = Inr ()"
    and ies: "inventory_diff (dropc_player cmd) ivt ((inv_slots ivt)[dropc_slot cmd := rest]) = Inr ies"
    and es: "es = ies @ [DropEntity (GameplayEditTarget ?chunk PersistentEntities) ?id None
            (Some \<lparr>drop_location = dropc_location cmd, drop_stack = dropped\<rparr>)]"
    by (auto simp: and_then_Inr ok_or_Inr Let_def)
  have gone: "bt_get (gs_drops s) ?id = None" by (rule available_drop_id [OF free])
  have "accepted s es
      ((set_inventory s (dropc_player cmd) (with_slots ivt ((inv_slots ivt)[dropc_slot cmd := rest])))
       \<lparr>gs_drops := bt_insert ?id
          \<lparr>drop_location = dropc_location cmd, drop_stack = dropped\<rparr> (gs_drops s)\<rparr>)"
    unfolding es
    by (rule accepted_inventory_then [OF s ivt ies])
      (use gone free require_chunk_revision_loaded [OF rev]
          admissible_drop_create [of s "\<lparr>drop_location = dropc_location cmd, drop_stack = dropped\<rparr>" ?id]
        in \<open>auto simp: require_before_def replace_map_def\<close>)
  with ivt source q gone show ?thesis by (auto simp: not_less)
qed

lemma pickup_accepted:
  assumes s: "validate_loaded sha cat s = Inr ()" and p: "plan_pickup cat s cmd = Inr (es, out)"
  shows "\<exists>ivt d after.
    bt_get (gs_inventories s) (pick_player cmd) = Some ivt \<and>
    bt_get (gs_drops s) (pick_drop cmd) = Some d \<and>
    insert_stack cat (inv_slots ivt) (drop_stack d) ToInventory = Inr after \<and>
    accepted s es
      ((set_inventory s (pick_player cmd) (with_slots ivt after))
       \<lparr>gs_drops := bt_remove (pick_drop cmd) (gs_drops s)\<rparr>)"
proof -
  from p obtain ivt d after ies where ivt: "bt_get (gs_inventories s) (pick_player cmd) = Some ivt"
    and d: "bt_get (gs_drops s) (pick_drop cmd) = Some d"
    and after: "insert_stack cat (inv_slots ivt) (drop_stack d) ToInventory = Inr after"
    and ies: "inventory_diff (pick_player cmd) ivt after = Inr ies"
    and es: "es = ies @ [DropEntity (GameplayEditTarget (block_chunk s (drop_location d))
        PersistentEntities) (pick_drop cmd) (Some d) None]"
    by (auto simp: plan_pickup_def and_then_Inr ok_or_Inr player_inventory_def Let_def)
  have "accepted s es
      ((set_inventory s (pick_player cmd) (with_slots ivt after))
       \<lparr>gs_drops := bt_remove (pick_drop cmd) (gs_drops s)\<rparr>)"
    unfolding es
    by (rule accepted_inventory_then [OF s ivt ies insert_stack_length [OF after]])
      (use d loaded_drop(1) [OF s d] admissible_drop_remove in
        \<open>auto simp: require_before_def replace_map_def\<close>)
  with ivt d after show ?thesis by blast
qed

lemma place_accepted:
  assumes s: "validate_loaded sha cat s = Inr ()" and p: "plan_place cat mode s cmd = Inr (es, out)"
  shows "\<exists>ivt source item block after.
    bt_get (gs_blocks s) (place_target cmd) = None \<and>
    bt_get (gs_inventories s) (place_player cmd) = Some ivt \<and>
    place_slot cmd < length (inv_slots ivt) \<and> inv_slots ivt ! place_slot cmd = Some source \<and>
    catalog_item cat (stack_item source) = Some item \<and>
    idef_placement_block item = Some block \<and>
    (case mode of
       Survival \<Rightarrow> \<exists>rest. with_quantity source (stack_quantity source - 1) = Inr rest \<and>
         after = (inv_slots ivt)[place_slot cmd := rest]
     | Creative \<Rightarrow> after = inv_slots ivt) \<and>
    accepted s es
      ((set_inventory s (place_player cmd) (with_slots ivt after))
       \<lparr>gs_blocks := bt_insert (place_target cmd) block (gs_blocks s)\<rparr>)"
proof -
  let ?chunk = "block_chunk s (place_target cmd)"
  from p have free: "bt_get (gs_blocks s) (place_target cmd) = None"
    by (auto simp: plan_place_def bt_contains_def split: if_splits)
  from p obtain rev ivt source item block after ies where
    rev: "require_chunk_revision s ?chunk = Inr rev"
    and ivt: "bt_get (gs_inventories s) (place_player cmd) = Some ivt"
    and source: "place_slot cmd < length (inv_slots ivt)" "inv_slots ivt ! place_slot cmd = Some source"
    and item: "catalog_item cat (stack_item source) = Some item" "idef_placement_block item = Some block"
    and after: "(case mode of
              Survival \<Rightarrow> and_then (with_quantity source (stack_quantity source - 1))
                (\<lambda>rest. Inr ((inv_slots ivt)[place_slot cmd := rest]))
            | Creative \<Rightarrow> Inr (inv_slots ivt)) = Inr after"
    and ies: "inventory_diff (place_player cmd) ivt after = Inr ies"
    and es: "es = ies @ [Block (GameplayEditTarget ?chunk Voxels) (place_target cmd) None (Some block)]"
    unfolding plan_place_def Let_def
    by (auto simp: and_then_Inr player_inventory_def ok_or_Inr occupied_slot_Inr split: if_split_asm)
  have len: "length after = length (inv_slots ivt)"
    using after by (auto simp: and_then_Inr split: gameplay_mode.splits)
  have "accepted s es
      ((set_inventory s (place_player cmd) (with_slots ivt after))
       \<lparr>gs_blocks := bt_insert (place_target cmd) block (gs_blocks s)\<rparr>)"
    unfolding es
    by (rule accepted_inventory_then [OF s ivt ies len])
      (use free require_chunk_revision_loaded [OF rev] admissible_block in
        \<open>auto simp: require_before_def replace_map_def\<close>)
  moreover have "case mode of
       Survival \<Rightarrow> \<exists>rest. with_quantity source (stack_quantity source - 1) = Inr rest \<and>
         after = (inv_slots ivt)[place_slot cmd := rest]
     | Creative \<Rightarrow> after = inv_slots ivt"
    using after by (auto simp: and_then_Inr split: gameplay_mode.splits)
  ultimately show ?thesis using free ivt source item by blast
qed

text \<open>Commands whose only edits are those of one inventory.\<close>

lemma accepted_inventory:
  assumes s: "validate_loaded sha cat s = Inr ()" and ivt: "bt_get (gs_inventories s) p = Some ivt"
    and es: "inventory_diff p ivt after = Inr es" and len: "length after = length (inv_slots ivt)"
  shows "accepted s es (set_inventory s p (with_slots ivt after))"
  using accepted_inventory_then [OF s ivt es len, of "[]"] by simp

lemma creative_pick_accepted:
  assumes s: "validate_loaded sha cat s = Inr ()"
    and p: "plan_creative_pick cat mode s cmd = Inr (es, out)"
  shows "\<exists>ivt stack. mode = Creative \<and>
    bt_get (gs_inventories s) (cpick_player cmd) = Some ivt \<and>
    inv_revision ivt = cpick_expected_inventory_revision cmd \<and>
    stack_item stack = cpick_item cmd \<and> validate_stack cat stack = Inr () \<and>
    cpick_slot cmd < inv_hotbar_slots ivt \<and>
    accepted s es (set_inventory s (cpick_player cmd)
      (with_slots ivt ((inv_slots ivt)[cpick_slot cmd := Some stack])))"
proof -
  from p obtain ivt and d :: item_definition and stack where m: "mode = Creative"
    and ivt: "bt_get (gs_inventories s) (cpick_player cmd) = Some ivt"
      "inv_revision ivt = cpick_expected_inventory_revision cmd"
    and slot: "cpick_slot cmd < inv_hotbar_slots ivt"
    and stack: "(case idef_durability d of
              Some durability \<Rightarrow> tool_stack (cpick_item cmd) durability
            | None \<Rightarrow> plain_stack (cpick_item cmd) (idef_stack_limit d)) = Inr stack"
    and ok: "validate_stack cat stack = Inr ()"
    and es: "inventory_diff (cpick_player cmd) ivt ((inv_slots ivt)[cpick_slot cmd := Some stack]) = Inr es"
    unfolding plan_creative_pick_def
    by (simp add: and_then_Inr player_inventory_def ok_or_Inr require_inventory_revision_def
        not_le split: if_split_asm) blast
  have "stack_item stack = cpick_item cmd"
    using stack by (auto simp: tool_stack_def plain_stack_def result_simps split: option.splits)
  with m ivt slot ok accepted_inventory [OF s ivt(1) es] show ?thesis by auto
qed

lemma try_fold_length:
  assumes "try_fold f xs a = Inr b" and "\<And>x a b. x \<in> set xs \<Longrightarrow> f x a = Inr b \<Longrightarrow> length b = length a"
  shows "length b = length a"
  using try_fold_invariant [where P = "\<lambda>b. length b = length a", OF assms(1)] assms(2) by auto

lemma consume_shaped_length:
  assumes "consume_shaped cat xs ks cells r = Inr ys"
  shows "length ys = length xs"
proof -
  let ?step = "\<lambda>(slot, c) xs.
        and_then (slot_ref xs slot) (\<lambda>current.
        case (c, current) of
          (None, None) \<Rightarrow> Inr xs
        | (Some ingredient, Some stack) \<Rightarrow>
            if \<not> predicate_matches cat (ing_accepts ingredient) (stack_item stack)
               \<or> stack_quantity stack < ing_quantity ingredient
            then Inl (RecipeMismatch r)
            else and_then (with_quantity stack (stack_quantity stack - ing_quantity ingredient))
              (\<lambda>rest. Inr (xs[slot := rest]))
        | _ \<Rightarrow> Inl (RecipeMismatch r))"
  have step: "length b = length a" if "?step x a = Inr b" for x a b
    using that by (auto simp: and_then_Inr split: prod.splits option.splits if_split_asm)
  from assms have "try_fold ?step (zip ks cells) xs = Inr ys"
    by (simp add: consume_shaped_def split: if_split_asm)
  from try_fold_length [OF this step] show ?thesis .
qed

lemma consume_shapeless_length:
  "consume_shapeless cat xs ks ings r = Inr ys \<Longrightarrow> length ys = length xs"
  unfolding consume_shapeless_def
  by (auto simp: and_then_Inr consume_slot_def split: if_splits dest!: try_fold_length)

lemma craft_accepted:
  assumes s: "validate_loaded sha cat s = Inr ()" and p: "plan_craft cat s cmd = Inr (es, out)"
  shows "\<exists>ivt recipe consumed product after.
    catalog_recipe cat (craft_recipe cmd) = Some recipe \<and>
    bt_get (gs_inventories s) (craft_player cmd) = Some ivt \<and>
    distinct (craft_input_slots cmd) \<and>
    (case rdef_pattern recipe of
         Shapeless ingredients \<Rightarrow>
           consume_shapeless cat (inv_slots ivt) (craft_input_slots cmd) ingredients
             (craft_recipe cmd)
       | Shaped _ _ cells \<Rightarrow>
           consume_shaped cat (inv_slots ivt) (craft_input_slots cmd) cells (craft_recipe cmd)) =
      Inr consumed \<and>
    resolve_output cat (rdef_output recipe) = Inr product \<and>
    insert_stack cat consumed product ToInventory = Inr after \<and>
    out = Crafted (craft_recipe cmd) product \<and>
    accepted s es (set_inventory s (craft_player cmd) (with_slots ivt after))"
proof -
  from p obtain ivt recipe consumed product after where
    recipe: "catalog_recipe cat (craft_recipe cmd) = Some recipe"
    and ivt: "bt_get (gs_inventories s) (craft_player cmd) = Some ivt"
    and unique: "distinct (craft_input_slots cmd)"
    and consumed: "(case rdef_pattern recipe of
         Shapeless ingredients \<Rightarrow>
           consume_shapeless cat (inv_slots ivt) (craft_input_slots cmd) ingredients
             (craft_recipe cmd)
       | Shaped _ _ cells \<Rightarrow>
           consume_shaped cat (inv_slots ivt) (craft_input_slots cmd) cells (craft_recipe cmd)) =
      Inr consumed"
    and product: "resolve_output cat (rdef_output recipe) = Inr product"
      "insert_stack cat consumed product ToInventory = Inr after"
      "out = Crafted (craft_recipe cmd) product"
    and es: "inventory_diff (craft_player cmd) ivt after = Inr es"
    unfolding plan_craft_def
    by (auto simp: and_then_Inr ok_or_Inr player_inventory_def validate_unique_slots_def
        split: if_split_asm)
  have "length consumed = length (inv_slots ivt)"
    using consumed by (auto split: recipe_pattern.splits
        dest: consume_shaped_length consume_shapeless_length)
  with insert_stack_length [OF product(2)] have "length after = length (inv_slots ivt)" by simp
  from accepted_inventory [OF s ivt es this] recipe ivt unique consumed product show ?thesis
    by blast
qed

subsection \<open>Transfers, moves, the hotbar\<close>

lemma set_container_fields [simp]:
  "gs_drops (set_container s c x) = gs_drops s"
  "gs_blocks (set_container s c x) = gs_blocks s"
  "gs_inventories (set_container s c x) = gs_inventories s"
  "gs_continuations (set_container s c x) = gs_continuations s"
  "gs_break_progress (set_container s c x) = gs_break_progress s"
  by (simp_all add: set_container_def)

lemma transfer_accepted:
  assumes s: "validate_loaded sha cat s = Inr ()" and p: "plan_transfer cat s cmd = Inr (es, out)"
  shows "\<exists>ivt c inventory_after container_after.
    bt_get (gs_inventories s) (tr_player cmd) = Some ivt \<and>
    bt_get (gs_containers s) (tr_container cmd) = Some c \<and>
    (case tr_direction cmd of
         PlayerToContainer \<Rightarrow>
           move_quantity cat (inv_slots ivt) (tr_player_slot cmd) (con_slots c)
             (tr_container_slot cmd) (tr_quantity cmd) ToOutput =
           Inr (inventory_after, container_after)
       | ContainerToPlayer \<Rightarrow>
           move_quantity cat (con_slots c) (tr_container_slot cmd) (inv_slots ivt)
             (tr_player_slot cmd) (tr_quantity cmd) ToInventory =
           Inr (container_after, inventory_after)) \<and>
    accepted s es
      (set_container (set_inventory s (tr_player cmd) (with_slots ivt inventory_after))
        (tr_container cmd) (with_container_slots c container_after))"
proof -
  from p obtain ivt c inventory_after container_after ies ces where
    ivt: "bt_get (gs_inventories s) (tr_player cmd) = Some ivt"
    and c: "bt_get (gs_containers s) (tr_container cmd) = Some c"
    and moved: "(case tr_direction cmd of
         PlayerToContainer \<Rightarrow>
           move_quantity cat (inv_slots ivt) (tr_player_slot cmd) (con_slots c)
             (tr_container_slot cmd) (tr_quantity cmd) ToOutput
       | ContainerToPlayer \<Rightarrow>
           and_then (move_quantity cat (con_slots c) (tr_container_slot cmd) (inv_slots ivt)
             (tr_player_slot cmd) (tr_quantity cmd) ToInventory)
             (\<lambda>(container_after, inventory_after). Inr (inventory_after, container_after))) =
      Inr (inventory_after, container_after)"
    and ies: "inventory_diff (tr_player cmd) ivt inventory_after = Inr ies"
    and ces: "container_diff (tr_container cmd) c container_after = Inr ces"
    and es: "es = ies @ ces"
    unfolding plan_transfer_def
    by (auto simp: and_then_Inr ok_or_Inr player_inventory_def split: prod.splits)
  have moved': "case tr_direction cmd of
         PlayerToContainer \<Rightarrow>
           move_quantity cat (inv_slots ivt) (tr_player_slot cmd) (con_slots c)
             (tr_container_slot cmd) (tr_quantity cmd) ToOutput =
           Inr (inventory_after, container_after)
       | ContainerToPlayer \<Rightarrow>
           move_quantity cat (con_slots c) (tr_container_slot cmd) (inv_slots ivt)
             (tr_player_slot cmd) (tr_quantity cmd) ToInventory =
           Inr (container_after, inventory_after)"
    using moved by (auto simp: and_then_Inr split: transfer_direction.splits prod.splits)
  then have len: "length inventory_after = length (inv_slots ivt)"
    "length container_after = length (con_slots c)"
    by (auto split: transfer_direction.splits dest: move_quantity_length)
  have "accepted s es
      (set_container (set_inventory s (tr_player cmd) (with_slots ivt inventory_after))
        (tr_container cmd) (with_container_slots c container_after))"
    unfolding es
  proof (rule accepted_inventory_then [OF s ivt ies len(1)])
    show "admissible_edit s e" if "e \<in> set ces" for e
      by (rule container_diff_admissible [OF s c ces that])
    show "distinct (map edit_key ces)" by (rule container_diff_elems(2) [OF ces])
    show "edit_key ` set ces \<inter> Set.insert (InventoryRevisionKey (tr_player cmd))
        (range (InventorySlotKey (tr_player cmd))) = {}"
      using container_keys [OF ces] by auto
    show "apply_all (set_inventory s (tr_player cmd) (with_slots ivt inventory_after)) ces =
      Inr (set_container (set_inventory s (tr_player cmd) (with_slots ivt inventory_after))
        (tr_container cmd) (with_container_slots c container_after))"
      using container_diff_applies [OF ces len(2)] c by simp
  qed
  with ivt c moved' show ?thesis by blast
qed

lemma moved_slots_length:
  "moved_slots cat xs a b f t r q = Inr ys \<Longrightarrow> length ys = length xs"
  by (auto simp: moved_slots_def and_then_Inr Let_def split: option.splits if_split_asm)

lemma move_stack_accepted:
  assumes s: "validate_loaded sha cat s = Inr ()" and p: "plan_move_stack cat s cmd = Inr (es, out)"
  shows "\<exists>ivt from_stack after.
    bt_get (gs_inventories s) (mv_player cmd) = Some ivt \<and>
    mv_from cmd < length (inv_slots ivt) \<and> inv_slots ivt ! mv_from cmd = Some from_stack \<and>
    mv_to cmd < length (inv_slots ivt) \<and>
    (mv_from cmd = mv_to cmd \<and> after = inv_slots ivt \<or>
     mv_from cmd \<noteq> mv_to cmd \<and>
     (let requested = (case mv_quantity cmd of Some q \<Rightarrow> q | None \<Rightarrow> stack_quantity from_stack) in
      requested \<le> stack_quantity from_stack \<and>
      (stack_state from_stack = Plain \<or> requested = 1) \<and>
      moved_slots cat (inv_slots ivt) (mv_from cmd) (mv_to cmd) from_stack
        (inv_slots ivt ! mv_to cmd) requested (mv_quantity cmd) = Inr after)) \<and>
    accepted s es (set_inventory s (mv_player cmd) (with_slots ivt after))"
proof -
  let ?requested = "\<lambda>from_stack :: item_stack. case mv_quantity cmd of Some q \<Rightarrow> q | None \<Rightarrow> stack_quantity from_stack"
  from p obtain ivt and from_stack :: item_stack where
    ivt: "bt_get (gs_inventories s) (mv_player cmd) = Some ivt"
    and slots: "mv_from cmd < length (inv_slots ivt)" "inv_slots ivt ! mv_from cmd = Some from_stack"
      "mv_to cmd < length (inv_slots ivt)"
    and rest: "mv_from cmd = mv_to cmd \<and> es = [] \<or> mv_from cmd \<noteq> mv_to cmd \<and>
      ?requested from_stack \<le> stack_quantity from_stack \<and>
      (stack_state from_stack = Plain \<or> ?requested from_stack = 1) \<and>
      (\<exists>after. moved_slots cat (inv_slots ivt) (mv_from cmd) (mv_to cmd) from_stack
          (inv_slots ivt ! mv_to cmd) (?requested from_stack) (mv_quantity cmd) = Inr after \<and>
        inventory_diff (mv_player cmd) ivt after = Inr es)"
    unfolding plan_move_stack_def Let_def
    by (auto simp: and_then_Inr ok_or_Inr player_inventory_def occupied_slot_Inr slot_ref_Inr
        split: if_split_asm)
  show ?thesis
  proof (cases "mv_from cmd = mv_to cmd")
    case True
    with rest have "es = []" by simp
    then have "accepted s es (set_inventory s (mv_player cmd) (with_slots ivt (inv_slots ivt)))"
      using set_inventory_same [OF ivt] by (simp add: accepted_def with_slots_def validate_plan_targets_def)
    with True ivt slots show ?thesis by blast
  next
    case False
    with rest obtain after where req: "?requested from_stack \<le> stack_quantity from_stack"
      "stack_state from_stack = Plain \<or> ?requested from_stack = 1"
      and after: "moved_slots cat (inv_slots ivt) (mv_from cmd) (mv_to cmd) from_stack
          (inv_slots ivt ! mv_to cmd) (?requested from_stack) (mv_quantity cmd) = Inr after"
      and es: "inventory_diff (mv_player cmd) ivt after = Inr es" by blast
    from accepted_inventory [OF s ivt es moved_slots_length [OF after]] False ivt slots req after
    show ?thesis by (auto simp: Let_def)
  qed
qed

lemma select_hotbar_accepted:
  assumes s: "validate_loaded sha cat s = Inr ()" and p: "plan_select_hotbar s cmd = Inr (es, out)"
  shows "\<exists>ivt. bt_get (gs_inventories s) (sel_player cmd) = Some ivt \<and>
    sel_slot cmd < inv_hotbar_slots ivt \<and>
    accepted s es (if sel_slot cmd = inv_selected_hotbar ivt then s
      else set_inventory s (sel_player cmd)
        (ivt\<lparr>inv_selected_hotbar := sel_slot cmd, inv_revision := Suc (inv_revision ivt)\<rparr>))"
proof -
  from p obtain ivt where ivt: "bt_get (gs_inventories s) (sel_player cmd) = Some ivt"
    and slot: "sel_slot cmd < inv_hotbar_slots ivt"
    and es: "sel_slot cmd = inv_selected_hotbar ivt \<and> es = [] \<or>
      sel_slot cmd \<noteq> inv_selected_hotbar ivt \<and>
      es = [InventoryHotbar (inv_target ivt) (sel_player cmd) (inv_selected_hotbar ivt) (sel_slot cmd),
         InventoryRevision (inv_target ivt) (sel_player cmd) (inv_revision ivt) (Suc (inv_revision ivt))]"
    unfolding plan_select_hotbar_def
    by (auto simp: and_then_Inr ok_or_Inr player_inventory_def checked_simps not_le
        split: if_split_asm)
  have "accepted s es (if sel_slot cmd = inv_selected_hotbar ivt then s
      else set_inventory s (sel_player cmd)
        (ivt\<lparr>inv_selected_hotbar := sel_slot cmd, inv_revision := Suc (inv_revision ivt)\<rparr>))"
  proof (cases "sel_slot cmd = inv_selected_hotbar ivt")
    case True
    with es show ?thesis by (simp add: accepted_def validate_plan_targets_def)
  next
    case False
    with es show ?thesis
      using ivt slot admissible_inventory(2,3) [OF s ivt]
      by (intro acceptedI) (auto simp: require_before_def)
  qed
  with ivt slot show ?thesis by blast
qed

subsection \<open>Mining\<close>

lemma if_Inl_Inr: "(if b then Inl e else r) = Inr a \<longleftrightarrow> \<not> b \<and> r = Inr a"
  by simp

lemma drop_stale_fields [simp]:
  "gs_drops (drop_stale v s) = gs_drops s"
  "gs_blocks (drop_stale v s) = gs_blocks s"
  "gs_inventories (drop_stale v s) = gs_inventories s"
  "gs_containers (drop_stale v s) = gs_containers s"
  "gs_continuations (drop_stale v s) = gs_continuations s"
  by (auto simp: drop_stale_def split: option.splits mutation_intent.splits)

lemma drop_stale_keeps:
  assumes "stale_mining_progress_edit s player (Some b) t = v" "bpk_block key = b"
  shows "bt_get (gs_break_progress (drop_stale v s)) key = bt_get (gs_break_progress s) key"
  by (rule stale_edit_cases [OF assms(1)])
    (use assms(2) in \<open>auto simp: drop_stale_def bt.get_remove\<close>)

lemma disjoint_subsets: "A \<subseteq> P \<Longrightarrow> B \<subseteq> Q \<Longrightarrow> P \<inter> Q = {} \<Longrightarrow> A \<inter> B = {}"
  by blast

lemma stale_edit_elems:
  assumes "validate_loaded sha cat s = Inr u" "bt_get (gs_inventories s) p = Some ivt"
    and "stale_mining_progress_edit s p retained (inv_target ivt) = v"
  shows "e \<in> set (option_list v) \<Longrightarrow> admissible_edit s e"
    "distinct (map edit_key (option_list v))"
    "edit_key ` set (option_list v) \<subseteq> {ProgressKey key |key. \<forall>b. retained = Some b \<longrightarrow> bpk_block key \<noteq> b}"
  using admissible_inventory(4) [OF assms(1,2)]
  by (cases rule: stale_edit_cases [OF assms(3)]; auto simp: option_list_def)+

text \<open>The slots after a block breaks: a survival player's tool wears.\<close>

definition mined_slots :: "gameplay_mode \<Rightarrow> mine_command \<Rightarrow> slots \<Rightarrow> slots outcome" where
  "mined_slots mode cmd xs = (case (mode, mine_tool_slot cmd) of
         (Survival, Some tool_slot) \<Rightarrow>
           and_then (occupied_slot xs tool_slot) (\<lambda>tool.
           and_then (tool_after_use tool) (\<lambda>used. Inr (xs[tool_slot := used])))
       | _ \<Rightarrow> Inr xs)"

lemma mine_accepted:
  assumes s: "validate_loaded sha cat s = Inr ()" and p: "plan_mine cat mode s cmd = Inr (es, out)"
  shows "\<exists>ivt block block_def work accumulated.
    bt_get (gs_inventories s) (mine_player cmd) = Some ivt \<and>
    bt_get (gs_blocks s) (mine_target cmd) = Some block \<and>
    catalog_block cat block = Some block_def \<and>
    mining_work cat mode (inv_slots ivt) block_def cmd = Inr work \<and>
    (let key = BreakProgressKey (mine_player cmd) (mine_target cmd);
         before = bt_get (gs_break_progress s) key;
         required = mr_hardness (bdef_mining block_def);
         s1 = drop_stale (stale_mining_progress_edit s (mine_player cmd) (Some (mine_target cmd))
           (inv_target ivt)) s in
     accumulated_work mode required (previous_work block before) work = Inr accumulated \<and>
     (if accumulated < required
      then out = MiningProgress accumulated required \<and>
        accepted s es (s1\<lparr>gs_break_progress := bt_insert key
          \<lparr>bp_block = block, bp_accumulated_work = accumulated\<rparr> (gs_break_progress s1)\<rparr>)
      else out = BlockBroken (mine_reserved_drop cmd) (block_chunk s (mine_target cmd)) \<and>
        (\<exists>after. mined_slots mode cmd (inv_slots ivt) = Inr after \<and>
          accepted s es ((set_inventory s1 (mine_player cmd) (with_slots ivt after))
            \<lparr>gs_blocks := bt_remove (mine_target cmd) (gs_blocks s),
             gs_drops := bt_insert (mine_reserved_drop cmd)
               \<lparr>drop_location = mine_target cmd, drop_stack = bdef_drop block_def\<rparr> (gs_drops s),
             gs_break_progress := bt_remove key (gs_break_progress s1)\<rparr>))))"
proof -
  let ?key = "BreakProgressKey (mine_player cmd) (mine_target cmd)"
  let ?chunk = "block_chunk s (mine_target cmd)"
  let ?before = "bt_get (gs_break_progress s) ?key"
  from p obtain ivt block and block_def :: block_definition and rev work accumulated where
    ivt: "bt_get (gs_inventories s) (mine_player cmd) = Some ivt"
    and block: "bt_get (gs_blocks s) (mine_target cmd) = Some block"
    and def': "catalog_block cat block = Some block_def"
    and rev: "require_chunk_revision s ?chunk = Inr rev"
    and work: "mining_work cat mode (inv_slots ivt) block_def cmd = Inr work"
    and acc: "accumulated_work mode (mr_hardness (bdef_mining block_def))
      (previous_work block ?before) work = Inr accumulated"
    and rest: "(if accumulated < mr_hardness (bdef_mining block_def)
       then mine_progress s ivt cmd block ?key ?before accumulated (mr_hardness (bdef_mining block_def))
       else mine_break cat mode s ivt cmd block block_def ?chunk ?key ?before) = Inr (es, out)"
    unfolding plan_mine_def Let_def
    by (simp only: and_then_Inr ok_or_Inr player_inventory_def if_Inl_Inr) blast
  define stale where "stale = stale_mining_progress_edit s (mine_player cmd) (Some (mine_target cmd)) (inv_target ivt)"
  note elems = stale_edit_elems [OF s ivt stale_def [symmetric]]
  have keep: "bt_get (gs_break_progress (drop_stale stale s)) ?key = ?before"
    by (rule drop_stale_keeps [OF stale_def [symmetric]]) simp
  have applied: "apply_all s (option_list stale) = Inr (drop_stale stale s)"
    by (rule stale_edit_applies [OF stale_def [symmetric]])
  note progress_ok = admissible_inventory(4) [OF s ivt, of ?key]
  have "let s1 = drop_stale stale s in
     if accumulated < mr_hardness (bdef_mining block_def)
      then out = MiningProgress accumulated (mr_hardness (bdef_mining block_def)) \<and>
        accepted s es (s1\<lparr>gs_break_progress := bt_insert ?key
          \<lparr>bp_block = block, bp_accumulated_work = accumulated\<rparr> (gs_break_progress s1)\<rparr>)
      else out = BlockBroken (mine_reserved_drop cmd) ?chunk \<and>
        (\<exists>after. mined_slots mode cmd (inv_slots ivt) = Inr after \<and>
          accepted s es ((set_inventory s1 (mine_player cmd) (with_slots ivt after))
            \<lparr>gs_blocks := bt_remove (mine_target cmd) (gs_blocks s),
             gs_drops := bt_insert (mine_reserved_drop cmd)
               \<lparr>drop_location = mine_target cmd, drop_stack = bdef_drop block_def\<rparr> (gs_drops s),
             gs_break_progress := bt_remove ?key (gs_break_progress s1)\<rparr>))"
  proof (cases "accumulated < mr_hardness (bdef_mining block_def)")
    case True
    with rest have es: "es = option_list stale @ [BreakProgress (inv_target ivt) ?key ?before
        (Some \<lparr>bp_block = block, bp_accumulated_work = accumulated\<rparr>)]"
      and out: "out = MiningProgress accumulated (mr_hardness (bdef_mining block_def))"
      by (auto simp: mine_progress_def stale_def and_then_Inr)
    have "ProgressKey ?key \<notin> edit_key ` set (option_list stale)" using elems(3) by auto
    then have "accepted s es ((drop_stale stale s)\<lparr>gs_break_progress := bt_insert ?key
          \<lparr>bp_block = block, bp_accumulated_work = accumulated\<rparr>
          (gs_break_progress (drop_stale stale s))\<rparr>)"
      unfolding es using elems(1,2) progress_ok
      by (intro acceptedI) (auto simp: applied keep require_before_def replace_map_def)
    with True out show ?thesis by (simp add: Let_def)
  next
    case False
    with rest obtain after ies where after: "(case (mode, mine_tool_slot cmd) of
         (Survival, Some tool_slot) \<Rightarrow>
           and_then (occupied_slot (inv_slots ivt) tool_slot) (\<lambda>tool.
           and_then (tool_after_use tool) (\<lambda>used. Inr ((inv_slots ivt)[tool_slot := used])))
       | _ \<Rightarrow> Inr (inv_slots ivt)) = Inr after"
      and free: "require_available_drop_id s (mine_reserved_drop cmd) = Inr ()"
      and ies: "inventory_diff (mine_player cmd) ivt after = Inr ies"
      and es: "es = option_list stale @ ies
          @ [Block (GameplayEditTarget ?chunk Voxels) (mine_target cmd) (Some block) None,
             DropEntity (GameplayEditTarget ?chunk PersistentEntities) (mine_reserved_drop cmd) None
               (Some \<lparr>drop_location = mine_target cmd, drop_stack = bdef_drop block_def\<rparr>),
             BreakProgress (inv_target ivt) ?key ?before None]"
      and out: "out = BlockBroken (mine_reserved_drop cmd) ?chunk"
      unfolding mine_break_def stale_def Let_def
      by (simp only: and_then_Inr if_False sum.inject prod.inject break_progress_key.sel) auto
    have len: "length after = length (inv_slots ivt)"
      using after by (auto simp: and_then_Inr split: gameplay_mode.splits option.splits)
    let ?P = "{ProgressKey key |key. \<forall>b. Some (mine_target cmd) = Some b \<longrightarrow> bpk_block key \<noteq> b}"
    let ?I = "Set.insert (InventoryRevisionKey (mine_player cmd)) (range (InventorySlotKey (mine_player cmd)))"
    let ?T = "{BlockCellKey (mine_target cmd), DropKey (mine_reserved_drop cmd)}"
    have sets: "?P \<inter> {ProgressKey ?key} = {}" "?P \<inter> ?T = {}" "?I \<inter> Set.insert (ProgressKey ?key) ?T = {}"
      "?P \<inter> ?I = {}" by auto
    note stale_in = elems(3) and slots_in = inventory_keys [OF ies]
    have disjoint: "edit_key ` set (option_list stale) \<inter> edit_key ` set ies = {}"
      by (rule disjoint_subsets [OF stale_in slots_in sets(4)])
    have keys: "edit_key ` set (option_list stale) \<inter> {ProgressKey ?key} = {}"
      "edit_key ` set (option_list stale) \<inter> ?T = {}"
      "edit_key ` set ies \<inter> Set.insert (ProgressKey ?key) ?T = {}"
      by (rule disjoint_subsets [OF stale_in subset_refl sets(1)]
          disjoint_subsets [OF stale_in subset_refl sets(2)]
          disjoint_subsets [OF slots_in subset_refl sets(3)])+
    have "accepted s es ((set_inventory (drop_stale stale s) (mine_player cmd) (with_slots ivt after))
            \<lparr>gs_blocks := bt_remove (mine_target cmd) (gs_blocks s),
             gs_drops := bt_insert (mine_reserved_drop cmd)
               \<lparr>drop_location = mine_target cmd, drop_stack = bdef_drop block_def\<rparr> (gs_drops s),
             gs_break_progress := bt_remove ?key (gs_break_progress (drop_stale stale s))\<rparr>)"
    proof (rule acceptedI)
      have tail: "admissible_edit s (Block (GameplayEditTarget ?chunk Voxels) (mine_target cmd) (Some block) None)"
        "admissible_edit s (DropEntity (GameplayEditTarget ?chunk PersistentEntities) (mine_reserved_drop cmd) None
               (Some \<lparr>drop_location = mine_target cmd, drop_stack = bdef_drop block_def\<rparr>))"
        "admissible_edit s (BreakProgress (inv_target ivt) ?key ?before None)"
        using progress_ok admissible_block [OF require_chunk_revision_loaded [OF rev]]
          admissible_drop_create [OF _ free, of "\<lparr>drop_location = mine_target cmd, drop_stack = bdef_drop block_def\<rparr>"]
          require_chunk_revision_loaded [OF rev]
        by simp_all
      show "admissible_edit s e" if "e \<in> set es" for e
        using that elems(1) [of e] inventory_diff_admissible [OF s ivt ies, of e] tail
        unfolding es set_append list.set by blast
      show "distinct (map edit_key es)"
        unfolding es map_append distinct_append set_append set_map list.map list.set
        using elems(2) inventory_diff_elems(2) [OF ies] keys disjoint by simp
      show "apply_all s es = Inr ((set_inventory (drop_stale stale s) (mine_player cmd) (with_slots ivt after))
            \<lparr>gs_blocks := bt_remove (mine_target cmd) (gs_blocks s),
             gs_drops := bt_insert (mine_reserved_drop cmd)
               \<lparr>drop_location = mine_target cmd, drop_stack = bdef_drop block_def\<rparr> (gs_drops s),
             gs_break_progress := bt_remove ?key (gs_break_progress (drop_stale stale s))\<rparr>)"
        using inventory_diff_applies [OF ies len, of "drop_stale stale s"] ivt block
          available_drop_id [OF free] keep applied
        unfolding es by (simp add: require_before_def replace_map_def)
    qed
    with False out after show ?thesis by (auto simp: Let_def mined_slots_def)
  qed
  with ivt block def' work acc show ?thesis unfolding stale_def by (auto simp: Let_def)
qed

subsection \<open>Processes\<close>

lemma accepted_container_then:
  assumes s: "validate_loaded sha cat s = Inr ()" and c: "bt_get (gs_containers s) cid = Some c"
    and es: "container_diff cid c after = Inr es" and len: "length after = length (con_slots c)"
    and fs: "\<And>e. e \<in> set fs \<Longrightarrow> admissible_edit s e" "distinct (map edit_key fs)"
      "edit_key ` set fs \<inter> Set.insert (ContainerRevisionKey cid) (range (ContainerSlotKey cid)) = {}"
    and run: "apply_all (set_container s cid (with_container_slots c after)) fs = Inr s'"
  shows "accepted s (es @ fs) s'"
proof (rule acceptedI)
  show "admissible_edit s e" if "e \<in> set (es @ fs)" for e
    using that container_diff_admissible [OF s c es] fs(1) by auto
  have "edit_key ` set es \<inter> edit_key ` set fs = {}"
    using container_keys [OF es] fs(3) by blast
  then show "distinct (map edit_key (es @ fs))"
    using container_diff_elems(2) [OF es] fs(2) by simp
  show "apply_all s (es @ fs) = Inr s'"
    using container_diff_applies [OF es len c] run by simp
qed

lemma start_process_accepted:
  assumes s: "validate_loaded sha cat s = Inr ()"
    and p: "plan_start_process cat s tid cmd = Inr (es, out)"
    and free: "bt_get (gs_continuations s) (continuation_id_for tid) = None"
  shows "\<exists>c process input fuel burn_ticks input' fuel' product due_tick.
    bt_get (gs_containers s) (sp_container cmd) = Some c \<and>
    catalog_process cat (sp_process cmd) = Some process \<and>
    con_workstation c = Some (pdef_workstation process) \<and>
    sp_input_slot cmd < length (con_slots c) \<and> con_slots c ! sp_input_slot cmd = Some input \<and>
    predicate_matches cat (ing_accepts (pdef_input process)) (stack_item input) \<and>
    ing_quantity (pdef_input process) \<le> stack_quantity input \<and>
    sp_fuel_slot cmd < length (con_slots c) \<and> con_slots c ! sp_fuel_slot cmd = Some fuel \<and>
    best_fuel_ticks cat (stack_item fuel) = Some burn_ticks \<and>
    pdef_duration_ticks process \<le> burn_ticks \<and>
    resolve_output cat (pdef_output process) = Inr product \<and>
    with_quantity input (stack_quantity input - ing_quantity (pdef_input process)) = Inr input' \<and>
    with_quantity fuel (stack_quantity fuel - 1) = Inr fuel' \<and>
    due_tick = sp_started_at cmd + pdef_duration_ticks process \<and>
    out = ProcessScheduled (continuation_id_for tid) due_tick \<and>
    accepted s es
      ((set_container s (sp_container cmd) (with_container_slots c
         ((con_slots c)[sp_input_slot cmd := input', sp_fuel_slot cmd := fuel'])))
       \<lparr>gs_continuations := bt_insert (continuation_id_for tid)
          \<lparr>fc_process = sp_process cmd, fc_container = sp_container cmd,
           fc_target = GameplayEditTarget (owner_chunk_key (con_owner c)) Continuations,
           fc_output_slot = sp_output_slot cmd, fc_pending_output = product,
           fc_due_tick = due_tick, fc_revision = 0\<rparr> (gs_continuations s)\<rparr>)"
proof -
  let ?id = "continuation_id_for tid"
  from p obtain c and process :: process_definition and input fuel burn_ticks input' fuel' product due_tick ces where
    process: "catalog_process cat (sp_process cmd) = Some process"
    and c: "bt_get (gs_containers s) (sp_container cmd) = Some c"
    and ws: "con_workstation c = Some (pdef_workstation process)"
    and input: "sp_input_slot cmd < length (con_slots c)" "con_slots c ! sp_input_slot cmd = Some input"
      "predicate_matches cat (ing_accepts (pdef_input process)) (stack_item input)"
      "ing_quantity (pdef_input process) \<le> stack_quantity input"
    and fuel: "sp_fuel_slot cmd < length (con_slots c)" "con_slots c ! sp_fuel_slot cmd = Some fuel"
      "best_fuel_ticks cat (stack_item fuel) = Some burn_ticks"
      "pdef_duration_ticks process \<le> burn_ticks"
    and product: "resolve_output cat (pdef_output process) = Inr product"
    and used: "with_quantity input (stack_quantity input - ing_quantity (pdef_input process)) = Inr input'"
      "with_quantity fuel (stack_quantity fuel - 1) = Inr fuel'"
    and due: "due_tick = sp_started_at cmd + pdef_duration_ticks process"
    and ces: "container_diff (sp_container cmd) c
      ((con_slots c)[sp_input_slot cmd := input', sp_fuel_slot cmd := fuel']) = Inr ces"
    and es: "es = ces @ [Continuation (GameplayEditTarget (owner_chunk_key (con_owner c)) Continuations)
       ?id None (Some \<lparr>fc_process = sp_process cmd, fc_container = sp_container cmd,
           fc_target = GameplayEditTarget (owner_chunk_key (con_owner c)) Continuations,
           fc_output_slot = sp_output_slot cmd, fc_pending_output = product,
           fc_due_tick = due_tick, fc_revision = 0\<rparr>)]"
    and out: "out = ProcessScheduled ?id due_tick"
    unfolding plan_start_process_def Let_def
    by (simp only: if_Inl_Inr and_then_Inr ok_or_Inr occupied_slot_Inr checked_simps not_less
        sum.inject prod.inject de_Morgan_disj not_not) blast
  let ?fc = "\<lparr>fc_process = sp_process cmd, fc_container = sp_container cmd,
           fc_target = GameplayEditTarget (owner_chunk_key (con_owner c)) Continuations,
           fc_output_slot = sp_output_slot cmd, fc_pending_output = product,
           fc_due_tick = due_tick, fc_revision = 0\<rparr>"
  have "accepted s es
      ((set_container s (sp_container cmd) (with_container_slots c
         ((con_slots c)[sp_input_slot cmd := input', sp_fuel_slot cmd := fuel'])))
       \<lparr>gs_continuations := bt_insert ?id ?fc (gs_continuations s)\<rparr>)"
    unfolding es
    by (rule accepted_container_then [OF s c ces])
      (use free c loaded_container(1) [OF s c] admissible_continuation(1) [of s ?fc c ?id] in
        \<open>auto simp: require_before_def replace_map_def\<close>)
  with process c ws input fuel product used due out show ?thesis by blast
qed

text \<open>The containers and continuations once the due completions are applied.\<close>

definition complete_containers ::
    "gameplay_state \<Rightarrow> (container_id \<times> slots) list \<Rightarrow> gameplay_state \<Rightarrow> gameplay_state" where
  "complete_containers s xs t =
     foldl (\<lambda>t (cid, after). set_container t cid
       (with_container_slots (the (bt_get (gs_containers s) cid)) after)) t xs"

definition retire_continuations ::
    "(authority_tick \<times> continuation_id) list \<Rightarrow> gameplay_state \<Rightarrow> gameplay_state" where
  "retire_continuations due t =
     t\<lparr>gs_continuations := foldl (\<lambda>m (_, cid). bt_remove cid m) (gs_continuations t) due\<rparr>"

lemma container_diffs_accepted:
  assumes s: "validate_loaded sha cat s = Inr ()"
    and fold: "try_fold (\<lambda>(cid, after) es.
            and_then (ok_or (bt_get (gs_containers s) cid) ContinuationOwnerMissing) (\<lambda>before.
            and_then (container_diff cid before after) (\<lambda>ces. Inr (es @ ces)))) xs acc = Inr es"
    and keys: "distinct (map fst xs)"
    and len: "\<And>cid after c. (cid, after) \<in> set xs \<Longrightarrow> bt_get (gs_containers s) cid = Some c \<Longrightarrow>
      length after = length (con_slots c)"
    and agree: "\<And>cid. cid \<in> fst ` set xs \<Longrightarrow>
      bt_get (gs_containers t) cid = bt_get (gs_containers s) cid"
  shows "\<exists>fs. es = acc @ fs \<and> (\<forall>e \<in> set fs. admissible_edit s e) \<and> distinct (map edit_key fs) \<and>
    edit_key ` set fs \<subseteq> (\<Union>cid \<in> fst ` set xs.
      Set.insert (ContainerRevisionKey cid) (range (ContainerSlotKey cid))) \<and>
    apply_all t fs = Inr (complete_containers s xs t)"
  using fold keys len agree
proof (induction xs arbitrary: acc t)
  case Nil
  then show ?case by (simp add: complete_containers_def)
next
  case (Cons x xs)
  obtain cid after where x: "x = (cid, after)" by (cases x)
  with Cons.prems(1) obtain c ces where c: "bt_get (gs_containers s) cid = Some c"
    and ces: "container_diff cid c after = Inr ces"
    and rest: "try_fold (\<lambda>(cid, after) es.
            and_then (ok_or (bt_get (gs_containers s) cid) ContinuationOwnerMissing) (\<lambda>before.
            and_then (container_diff cid before after) (\<lambda>ces. Inr (es @ ces)))) xs (acc @ ces) = Inr es"
    by (auto simp: and_then_Inr ok_or_Inr)
  let ?t = "set_container t cid (with_container_slots c after)"
  have new: "cid \<notin> fst ` set xs" "distinct (map fst xs)" using Cons.prems(2) x by auto
  have "\<exists>fs. es = (acc @ ces) @ fs \<and> (\<forall>e \<in> set fs. admissible_edit s e) \<and> distinct (map edit_key fs) \<and>
    edit_key ` set fs \<subseteq> (\<Union>cid \<in> fst ` set xs.
      Set.insert (ContainerRevisionKey cid) (range (ContainerSlotKey cid))) \<and>
    apply_all ?t fs = Inr (complete_containers s xs ?t)"
  proof (rule Cons.IH [OF rest new(2)])
    show "\<And>k a c. (k, a) \<in> set xs \<Longrightarrow> bt_get (gs_containers s) k = Some c \<Longrightarrow>
      length a = length (con_slots c)" using Cons.prems(3) by auto
    show "\<And>k. k \<in> fst ` set xs \<Longrightarrow> bt_get (gs_containers ?t) k = bt_get (gs_containers s) k"
      using Cons.prems(4) new(1) by auto
  qed
  then obtain fs where fs: "es = (acc @ ces) @ fs" "\<forall>e \<in> set fs. admissible_edit s e"
    "distinct (map edit_key fs)"
    "edit_key ` set fs \<subseteq> (\<Union>cid \<in> fst ` set xs.
      Set.insert (ContainerRevisionKey cid) (range (ContainerSlotKey cid)))"
    "apply_all ?t fs = Inr (complete_containers s xs ?t)" by blast
  have len': "length after = length (con_slots c)" using Cons.prems(3) x c by auto
  have agree': "bt_get (gs_containers t) cid = Some c" using Cons.prems(4) x c by auto
  have "Set.insert (ContainerRevisionKey cid) (range (ContainerSlotKey cid)) \<inter>
    (\<Union>cid \<in> fst ` set xs. Set.insert (ContainerRevisionKey cid) (range (ContainerSlotKey cid))) = {}"
    using new(1) by auto
  from disjoint_subsets [OF container_keys [OF ces] fs(4) this]
  have "distinct (map edit_key (ces @ fs))"
    using container_diff_elems(2) [OF ces] fs(3) by simp
  moreover have "apply_all t (ces @ fs) = Inr (complete_containers s (x # xs) t)"
    using container_diff_applies [OF ces len' agree'] fs(5) c x by (simp add: complete_containers_def)
  moreover have "edit_key ` set (ces @ fs) \<subseteq> (\<Union>cid \<in> fst ` set (x # xs).
      Set.insert (ContainerRevisionKey cid) (range (ContainerSlotKey cid)))"
    using container_keys [OF ces] fs(4) x by auto
  moreover have "\<forall>e \<in> set (ces @ fs). admissible_edit s e"
    using fs(2) container_diff_admissible [OF s c ces] by auto
  ultimately show ?case using fs(1) by (intro exI [of _ "ces @ fs"]) simp
qed

lemma continuation_retirements_accepted:
  assumes s: "validate_loaded sha cat s = Inr ()"
    and fold: "try_fold (\<lambda>(_, cid) es.
            and_then (ok_or (bt_get (gs_continuations s) cid)
                (MutationPreconditionFailed ''continuation'')) (\<lambda>before.
            Inr (es @ [Continuation (fc_target before) cid (Some before) None]))) due acc = Inr es"
    and keys: "distinct (map snd due)"
    and agree: "\<And>cid. cid \<in> snd ` set due \<Longrightarrow>
      bt_get (gs_continuations t) cid = bt_get (gs_continuations s) cid"
  shows "\<exists>fs. es = acc @ fs \<and> (\<forall>e \<in> set fs. admissible_edit s e) \<and>
    map edit_key fs = map (ContinuationKey \<circ> snd) due \<and>
    apply_all t fs = Inr (retire_continuations due t)"
  using fold keys agree
proof (induction due arbitrary: acc t)
  case Nil
  then show ?case by (simp add: retire_continuations_def)
next
  case (Cons x due)
  obtain tick cid where x: "x = (tick, cid)" by (cases x)
  with Cons.prems(1) obtain fc where fc: "bt_get (gs_continuations s) cid = Some fc"
    and rest: "try_fold (\<lambda>(_, cid) es.
            and_then (ok_or (bt_get (gs_continuations s) cid)
                (MutationPreconditionFailed ''continuation'')) (\<lambda>before.
            Inr (es @ [Continuation (fc_target before) cid (Some before) None]))) due
          (acc @ [Continuation (fc_target fc) cid (Some fc) None]) = Inr es"
    by (auto simp: and_then_Inr ok_or_Inr)
  let ?e = "Continuation (fc_target fc) cid (Some fc) None"
  let ?t = "t\<lparr>gs_continuations := bt_remove cid (gs_continuations t)\<rparr>"
  have new: "cid \<notin> snd ` set due" "distinct (map snd due)" using Cons.prems(2) x by auto
  have "\<exists>fs. es = (acc @ [?e]) @ fs \<and> (\<forall>e \<in> set fs. admissible_edit s e) \<and>
    map edit_key fs = map (ContinuationKey \<circ> snd) due \<and>
    apply_all ?t fs = Inr (retire_continuations due ?t)"
  proof (rule Cons.IH [OF rest new(2)])
    show "\<And>k. k \<in> snd ` set due \<Longrightarrow> bt_get (gs_continuations ?t) k = bt_get (gs_continuations s) k"
      using Cons.prems(3) new(1) by (auto simp: bt.get_remove)
  qed
  then obtain fs where fs: "es = (acc @ [?e]) @ fs" "\<forall>e \<in> set fs. admissible_edit s e"
    "map edit_key fs = map (ContinuationKey \<circ> snd) due"
    "apply_all ?t fs = Inr (retire_continuations due ?t)" by blast
  have "admissible_edit s ?e"
    using loaded_continuation [OF s fc] admissible_continuation(2) by auto
  moreover have "apply_all t (?e # fs) = Inr (retire_continuations (x # due) t)"
    using Cons.prems(3) fc x fs(4)
    by (simp add: require_before_def replace_map_def retire_continuations_def)
  ultimately show ?case using fs x by (intro exI [of _ "?e # fs"]) simp
qed

lemma due_continuations_distinct: "distinct (map snd (due_continuations s tick))"
proof -
  let ?xs = "map (\<lambda>(cid, c). (fc_due_tick c, cid))
       (filter (\<lambda>(_, c). fc_due_tick c \<le> tick) (entries (gs_continuations s)))"
  have "snd \<circ> (\<lambda>(cid :: continuation_id, c :: furnace_continuation). (fc_due_tick c, cid)) = fst" by (auto simp: fun_eq_iff)
  then have "distinct (map snd ?xs)"
    using bt.entries_distinct [of "gs_continuations s"] by (simp add: distinct_map_filter)
  then have "distinct ?xs" "inj_on snd (set ?xs)" using distinct_map [of snd ?xs] by blast+
  then show ?thesis
    unfolding due_continuations_def distinct_map [of snd] set_sort distinct_sort by blast
qed

lemma complete_one_lengths:
  assumes "try_fold (complete_one cat s) due bt_empty = Inr m" "bt_get m cid = Some xs"
  shows "\<exists>c. bt_get (gs_containers s) cid = Some c \<and> length xs = length (con_slots c)"
proof -
  let ?P = "\<lambda>m. \<forall>cid xs. bt_get m cid = Some xs \<longrightarrow>
    (\<exists>c. bt_get (gs_containers s) cid = Some c \<and> length xs = length (con_slots c))"
  have "?P m"
  proof (rule try_fold_invariant [OF assms(1), of ?P])
    show "?P bt_empty" by (simp add: bt.get_empty)
    fix x a b
    assume P: "?P a" and step: "complete_one cat s x a = Inr b"
    obtain tick k where x: "x = (tick, k)" by (cases x)
    with step obtain fc :: furnace_continuation and c :: container_state and ys where c: "bt_get (gs_containers s) (fc_container fc) = Some c"
      and ys: "merge_single_slot cat (case bt_get a (fc_container fc) of Some xs \<Rightarrow> xs | None \<Rightarrow> con_slots c)
         (fc_output_slot fc) (fc_pending_output fc) ToOutput = Inr ys"
      and b: "b = bt_insert (fc_container fc) ys a"
      by (auto simp: complete_one_def and_then_Inr ok_or_Inr Let_def)
    have "length ys = length (con_slots c)"
    proof (cases "bt_get a (fc_container fc)")
      case (Some zs)
      with P c have "length zs = length (con_slots c)" by fastforce
      with merge_single_slot_length [OF ys] Some show ?thesis by simp
    qed (use merge_single_slot_length [OF ys] in simp)
    with P b c show "?P b" by (auto simp: bt.get_insert split: if_splits)
  qed
  with assms(2) show ?thesis by blast
qed

lemma complete_containers_continuations [simp]:
  "gs_continuations (complete_containers s xs t) = gs_continuations t"
  unfolding complete_containers_def
  by (induction xs arbitrary: t) (auto split: prod.splits)

lemma advance_accepted:
  assumes s: "validate_loaded sha cat s = Inr ()"
    and p: "plan_advance_scheduled cat s cmd = Inr (es, out)"
  shows "\<exists>container_after.
    let due = take (adv_max_completions cmd) (due_continuations s (adv_through_tick cmd)) in
    try_fold (complete_one cat s) due bt_empty = Inr container_after \<and>
    out = ScheduledAdvanced (length due)
      (adv_max_completions cmd < length (due_continuations s (adv_through_tick cmd))) \<and>
    accepted s es (retire_continuations due (complete_containers s (entries container_after) s))"
proof -
  let ?due = "take (adv_max_completions cmd) (due_continuations s (adv_through_tick cmd))"
  from p obtain m ces fs where m: "try_fold (complete_one cat s) ?due bt_empty = Inr m"
    and ces: "try_fold (\<lambda>(cid, after) es.
            and_then (ok_or (bt_get (gs_containers s) cid) ContinuationOwnerMissing) (\<lambda>before.
            and_then (container_diff cid before after) (\<lambda>ces. Inr (es @ ces))))
          (entries m) [] = Inr ces"
    and fs: "try_fold (\<lambda>(_, cid) es.
            and_then (ok_or (bt_get (gs_continuations s) cid)
                (MutationPreconditionFailed ''continuation'')) (\<lambda>before.
            Inr (es @ [Continuation (fc_target before) cid (Some before) None]))) ?due [] = Inr fs"
    and es: "es = ces @ fs"
    and out: "out = ScheduledAdvanced (length ?due)
      (adv_max_completions cmd < length (due_continuations s (adv_through_tick cmd)))"
    unfolding plan_advance_scheduled_def Let_def
    by (simp only: if_Inl_Inr and_then_Inr ok_or_Inr checked_simps sum.inject prod.inject) blast
  have "\<exists>gs. ces = [] @ gs \<and> (\<forall>e \<in> set gs. admissible_edit s e) \<and> distinct (map edit_key gs) \<and>
    edit_key ` set gs \<subseteq> (\<Union>cid \<in> fst ` set (entries m).
      Set.insert (ContainerRevisionKey cid) (range (ContainerSlotKey cid))) \<and>
    apply_all s gs = Inr (complete_containers s (entries m) s)"
    by (rule container_diffs_accepted [OF s ces bt.entries_distinct _ refl])
      (use complete_one_lengths [OF m] in \<open>fastforce simp: bt.entries_get\<close>)
  then have ces': "\<And>e. e \<in> set ces \<Longrightarrow> admissible_edit s e" "distinct (map edit_key ces)"
    "edit_key ` set ces \<subseteq> (\<Union>cid \<in> fst ` set (entries m).
      Set.insert (ContainerRevisionKey cid) (range (ContainerSlotKey cid)))"
    "apply_all s ces = Inr (complete_containers s (entries m) s)" by auto
  have due: "distinct (map snd ?due)"
    using due_continuations_distinct [of s "adv_through_tick cmd"] by (simp add: take_map [symmetric])
  have "\<exists>gs. fs = [] @ gs \<and> (\<forall>e \<in> set gs. admissible_edit s e) \<and>
    map edit_key gs = map (ContinuationKey \<circ> snd) ?due \<and>
    apply_all (complete_containers s (entries m) s) gs =
      Inr (retire_continuations ?due (complete_containers s (entries m) s))"
    by (rule continuation_retirements_accepted [OF s fs due]) simp
  then have fs': "\<And>e. e \<in> set fs \<Longrightarrow> admissible_edit s e"
    "map edit_key fs = map ContinuationKey (map snd ?due)"
    "apply_all (complete_containers s (entries m) s) fs =
      Inr (retire_continuations ?due (complete_containers s (entries m) s))" by auto
  have sets: "(\<Union>cid \<in> fst ` set (entries m).
      Set.insert (ContainerRevisionKey cid) (range (ContainerSlotKey cid))) \<inter> range ContinuationKey = {}"
    by auto
  have "edit_key ` set fs \<subseteq> range ContinuationKey"
    using arg_cong [OF fs'(2), of set] by auto
  note apart = disjoint_subsets [OF ces'(3) this sets]
  have "distinct (map edit_key fs)"
    unfolding fs'(2) using due by (simp add: distinct_map inj_on_def)
  then have "accepted s es (retire_continuations ?due (complete_containers s (entries m) s))"
    unfolding es using ces' fs'(1,3) apart by (intro acceptedI) auto
  with m out show ?thesis by (auto simp: Let_def)
qed

subsection \<open>Every planned command\<close>

text \<open>
  The one command whose plan can be refused when it is applied is the start of a process
  under an identifier that a scheduled continuation already has.
\<close>

definition continuation_id_free :: "gameplay_state \<Rightarrow> transaction_id \<Rightarrow> gameplay_command \<Rightarrow> bool" where
  "continuation_id_free s tid cmd \<longleftrightarrow>
     (case cmd of
        StartProcess _ \<Rightarrow> bt_get (gs_continuations s) (continuation_id_for tid) = None
      | _ \<Rightarrow> True)"

lemma start_process_free:
  assumes p: "plan_start_process cat s tid cmd = Inr (es, out)" and run: "accepted s es s'"
  shows "bt_get (gs_continuations s) (continuation_id_for tid) = None"
proof -
  from p obtain c after ces t fc where
    ces: "container_diff (sp_container cmd) c after = Inr ces"
    and es: "es = ces @ [Continuation t (continuation_id_for tid) None (Some fc)]"
    unfolding plan_start_process_def Let_def
    by (simp only: and_then_Inr if_Inl_Inr prod.inject sum.inject) blast
  from run obtain mid where mid: "apply_all s ces = Inr mid"
    and step: "apply_intent mid (Continuation t (continuation_id_for tid) None (Some fc)) = Inr s'"
    by (auto simp: accepted_def es apply_all_def try_fold_append and_then_Inr)
  have "gs_continuations mid = gs_continuations s"
    using mid unfolding apply_all_def
  proof (rule try_fold_invariant [where P = "\<lambda>m. gs_continuations m = gs_continuations s"])
    show "gs_continuations b = gs_continuations s"
      if "e \<in> set ces" "gs_continuations a = gs_continuations s" "apply_intent a e = Inr b" for e a b
    proof -
      from container_diff_elems(1) [OF ces] that(1) consider
          k old new where "e = ContainerSlot (container_entity_target c) (sp_container cmd) k old new"
        | r r' where "e = ContainerRevision (container_entity_target c) (sp_container cmd) r r'" by blast
      then show ?thesis using that(2,3) by cases (auto simp: and_then_Inr)
    qed
  qed simp
  with step show ?thesis by (simp add: and_then_Inr require_before_def split: if_splits)
qed

lemma plan_command_accepted:
  assumes s: "validate_loaded sha cat s = Inr ()"
    and p: "plan_command cat mode s tid cmd = Inr (es, out)"
    and free: "continuation_id_free s tid cmd"
  shows "\<exists>s'. accepted s es s'"
proof (cases cmd)
  case (Mine c)
  with mine_accepted [OF s, of mode c es out] p show ?thesis
    by (auto simp: plan_command_def Let_def split: if_split_asm)
next
  case (CancelMining c)
  with cancel_accepted [OF s, of c es out] p show ?thesis by (auto simp: plan_command_def)
next
  case (DropItem c)
  with drop_accepted [OF s] p show ?thesis by (fastforce simp: plan_command_def)
next
  case (Pickup c)
  with pickup_accepted [OF s] p show ?thesis by (fastforce simp: plan_command_def)
next
  case (Place c)
  with place_accepted [OF s] p show ?thesis by (fastforce simp: plan_command_def)
next
  case (CreativePick c)
  with creative_pick_accepted [OF s] p show ?thesis by (fastforce simp: plan_command_def)
next
  case (Craft c)
  with craft_accepted [OF s] p show ?thesis by (fastforce simp: plan_command_def)
next
  case (Transfer c)
  with transfer_accepted [OF s] p show ?thesis by (fastforce simp: plan_command_def)
next
  case (MoveStack c)
  with move_stack_accepted [OF s] p show ?thesis by (fastforce simp: plan_command_def)
next
  case (SelectHotbar c)
  with select_hotbar_accepted [OF s] p show ?thesis by (fastforce simp: plan_command_def)
next
  case (StartProcess c)
  with start_process_accepted [OF s, of tid c es out] p free show ?thesis
    by (fastforce simp: plan_command_def continuation_id_free_def)
next
  case (AdvanceScheduled c)
  with advance_accepted [OF s] p show ?thesis by (fastforce simp: plan_command_def Let_def)
qed

end
