(* ===== verification/Applier_Correct.thy ===== *)
theory Applier_Correct
  imports Applier Plan_Commands
begin

section \<open>Correctness of the applier\<close>

text \<open>
  The retry ledger, the atomicity of a batch, exact retries, and the handshake with the
  storage: the invariant of the applier and its preservation by every operation.
\<close>

subsection \<open>The retry ledger\<close>

text \<open>
  The ledger proper: every identifier in the order has a receipt of its own, in the order
  of the observed revisions, and the oldest replayable revision is the first one.
\<close>

definition receipt_revision :: "gameplay_state \<Rightarrow> transaction_id \<Rightarrow> world_revision" where
  "receipt_revision s tid =
     (case bt_get (gs_recent_receipts s) tid of
        Some r \<Rightarrow> rec_observed_world_revision r | None \<Rightarrow> 0)"

definition ledger_ok :: "gameplay_state \<Rightarrow> bool" where
  "ledger_ok s \<longleftrightarrow>
     distinct (gs_receipt_order s) \<and>
     set (bt_keys (gs_recent_receipts s)) = set (gs_receipt_order s) \<and>
     (\<forall>tid r. bt_get (gs_recent_receipts s) tid = Some r \<longrightarrow>
        rec_transaction_id r = tid \<and> rec_observed_world_revision r \<le> gs_observed_world_revision s) \<and>
     sorted (map (receipt_revision s) (gs_receipt_order s)) \<and>
     gs_oldest_replayable_world_revision s =
       (case gs_receipt_order s of [] \<Rightarrow> 0 | tid # _ \<Rightarrow> receipt_revision s tid)"

definition pending_ok :: "gameplay_state \<Rightarrow> bool" where
  "pending_ok s \<longleftrightarrow>
     (\<forall>r. gs_pending_receipt s = Some r \<longrightarrow>
        rec_observed_world_revision r = gs_observed_world_revision s \<and>
        rec_transaction_id r \<notin> set (gs_receipt_order s))"

text \<open>The loop over the order, generalised over what it has seen.\<close>

definition order_step ::
    "gameplay_state \<Rightarrow> transaction_id \<Rightarrow> (transaction_id, unit) btree \<times> world_revision option \<Rightarrow>
     ((transaction_id, unit) btree \<times> world_revision option) outcome" where
  "order_step s = (\<lambda>tid (seen, previous).
       and_then (ok_or (bt_get (gs_recent_receipts s) tid) retry_ledger_failed) (\<lambda>receipt.
       if bt_contains seen tid
          \<or> rec_transaction_id receipt \<noteq> tid
          \<or> gs_observed_world_revision s < rec_observed_world_revision receipt
          \<or> (case previous of None \<Rightarrow> False | Some p \<Rightarrow> rec_observed_world_revision receipt < p)
       then Inl retry_ledger_failed
       else Inr (bt_insert tid () seen, Some (rec_observed_world_revision receipt))))"

lemma order_step_Inr:
  "order_step s tid (seen, previous) = Inr z \<longleftrightarrow>
     (\<exists>r. bt_get (gs_recent_receipts s) tid = Some r \<and> rec_transaction_id r = tid \<and>
        rec_observed_world_revision r \<le> gs_observed_world_revision s \<and>
        \<not> bt_contains seen tid \<and>
        (\<forall>p. previous = Some p \<longrightarrow> p \<le> rec_observed_world_revision r) \<and>
        z = (bt_insert tid () seen, Some (rec_observed_world_revision r)))"
  by (auto simp: order_step_def and_then_Inr ok_or_Inr not_less split: if_split_asm option.splits)

lemma bt_contains_insert: "bt_contains (bt_insert k v m) k' \<longleftrightarrow> k' = k \<or> bt_contains m k'"
  by (simp add: bt_contains_def bt.get_insert)

lemma order_fold_Inr:
  "try_fold (order_step s) ids (seen, previous) = Inr z \<Longrightarrow>
     distinct ids \<and> (\<forall>tid \<in> set ids. \<not> bt_contains seen tid \<and>
       (\<exists>r. bt_get (gs_recent_receipts s) tid = Some r \<and> rec_transaction_id r = tid \<and>
          rec_observed_world_revision r \<le> gs_observed_world_revision s)) \<and>
     sorted (map (receipt_revision s) ids) \<and>
     (\<forall>p. previous = Some p \<longrightarrow> (\<forall>tid \<in> set ids. p \<le> receipt_revision s tid)) \<and>
     snd z = (if ids = [] then previous else Some (receipt_revision s (last ids)))"
proof (induction ids arbitrary: seen previous)
  case (Cons tid ids)
  then obtain r where r: "bt_get (gs_recent_receipts s) tid = Some r" "rec_transaction_id r = tid"
      "rec_observed_world_revision r \<le> gs_observed_world_revision s" "\<not> bt_contains seen tid"
      "\<forall>p. previous = Some p \<longrightarrow> p \<le> rec_observed_world_revision r"
    and rest: "try_fold (order_step s) ids (bt_insert tid () seen, Some (rec_observed_world_revision r)) = Inr z"
    by (auto simp: and_then_Inr order_step_Inr)
  have rev: "receipt_revision s tid = rec_observed_world_revision r"
    using r(1) by (simp add: receipt_revision_def)
  from Cons.IH [OF rest] r show ?case
    by (auto simp: rev bt_contains_insert intro: order_trans)
qed auto

lemma order_fold_ok:
  assumes "distinct ids" "\<forall>tid \<in> set ids. \<not> bt_contains seen tid \<and>
       (\<exists>r. bt_get (gs_recent_receipts s) tid = Some r \<and> rec_transaction_id r = tid \<and>
          rec_observed_world_revision r \<le> gs_observed_world_revision s)"
    "sorted (map (receipt_revision s) ids)"
    "\<forall>p. previous = Some p \<longrightarrow> (\<forall>tid \<in> set ids. p \<le> receipt_revision s tid)"
  shows "\<exists>seen'. try_fold (order_step s) ids (seen, previous) =
    Inr (seen', if ids = [] then previous else Some (receipt_revision s (last ids)))"
  using assms
proof (induction ids arbitrary: seen previous)
  case (Cons tid ids)
  then obtain r where r: "bt_get (gs_recent_receipts s) tid = Some r" "rec_transaction_id r = tid"
      "rec_observed_world_revision r \<le> gs_observed_world_revision s" "\<not> bt_contains seen tid" by auto
  have rev: "receipt_revision s tid = rec_observed_world_revision r"
    using r(1) by (simp add: receipt_revision_def)
  have "order_step s tid (seen, previous) =
      Inr (bt_insert tid () seen, Some (rec_observed_world_revision r))"
    using r Cons.prems(4) by (simp add: order_step_Inr rev)
  moreover have "\<exists>seen'. try_fold (order_step s) ids
      (bt_insert tid () seen, Some (rec_observed_world_revision r)) =
    Inr (seen', if ids = [] then Some (rec_observed_world_revision r)
      else Some (receipt_revision s (last ids)))"
    by (rule Cons.IH) (use Cons.prems in \<open>auto simp: bt_contains_insert rev\<close>)
  ultimately show ?case by (auto simp: rev)
qed simp

lemma validate_receipt_order_fold:
  "validate_receipt_order s = try_fold (order_step s) (gs_receipt_order s) (bt_empty, None)"
  by (simp add: validate_receipt_order_def order_step_def)

lemma bt_keys_distinct: "distinct (bt_keys m)"
  unfolding bt_keys_def by (rule bt.entries_distinct)

lemma bt_len_keys: "bt_len m = length (bt_keys m)"
  by (simp add: bt_len_def bt_keys_def)

lemma bt_contains_keys: "tid \<in> set (bt_keys m) \<longleftrightarrow> (\<exists>r. bt_get m tid = Some r)"
  by (auto simp: bt_contains_iff [symmetric] bt_contains_def)

lemma validate_retry_ledger_iff:
  "validate_retry_ledger s = Inr () \<longleftrightarrow> ledger_ok s \<and> pending_ok s"
proof
  assume ok: "validate_retry_ledger s = Inr ()"
  let ?ids = "gs_receipt_order s" and ?m = "gs_recent_receipts s"
  from ok obtain seen previous where len: "length ?ids = bt_len ?m"
    and fold: "try_fold (order_step s) ?ids (bt_empty, None) = Inr (seen, previous)"
    and old: "case ?ids of tid # _ \<Rightarrow> gs_oldest_replayable_world_revision s =
        rec_observed_world_revision (the (bt_get ?m tid)) \<and> bt_get ?m tid \<noteq> None
      | [] \<Rightarrow> gs_oldest_replayable_world_revision s = 0"
    and pend: "\<And>p. gs_pending_receipt s = Some p \<Longrightarrow>
      rec_observed_world_revision p = gs_observed_world_revision s \<and>
      \<not> bt_contains ?m (rec_transaction_id p)"
    unfolding validate_retry_ledger_def validate_receipt_order_fold
    by (auto simp: and_then_Inr ok_or_Inr split: if_split_asm list.splits option.splits)
  note f = order_fold_Inr [OF fold]
  have sub: "set ?ids \<subseteq> set (bt_keys ?m)" using f by (auto simp: bt_contains_keys)
  have "card (set ?ids) = card (set (bt_keys ?m))"
    using f len by (simp add: distinct_card bt_keys_distinct bt_len_keys)
  with card_subset_eq [OF _ sub] have keys: "set (bt_keys ?m) = set ?ids" by simp
  have "rec_transaction_id r = tid \<and> rec_observed_world_revision r \<le> gs_observed_world_revision s"
    if "bt_get ?m tid = Some r" for tid r
  proof -
    from that keys have "tid \<in> set ?ids" by (auto simp: bt_contains_keys set_eq_iff)
    with f that show ?thesis by auto
  qed
  with f keys old have "ledger_ok s"
    by (auto simp: ledger_ok_def receipt_revision_def split: list.splits option.splits)
  moreover have "pending_ok s"
    using pend keys by (auto simp: pending_ok_def bt_contains_iff)
  ultimately show "ledger_ok s \<and> pending_ok s" ..
next
  assume ok: "ledger_ok s \<and> pending_ok s"
  let ?ids = "gs_receipt_order s" and ?m = "gs_recent_receipts s"
  from ok have keys: "set (bt_keys ?m) = set ?ids" and dist: "distinct ?ids"
    by (auto simp: ledger_ok_def)
  have len: "length ?ids = bt_len ?m"
    using keys dist by (metis distinct_card bt_keys_distinct bt_len_keys)
  have recs: "\<forall>tid \<in> set ?ids. \<not> bt_contains bt_empty tid \<and>
       (\<exists>r. bt_get ?m tid = Some r \<and> rec_transaction_id r = tid \<and>
          rec_observed_world_revision r \<le> gs_observed_world_revision s)"
  proof
    fix tid assume "tid \<in> set ?ids"
    then have "tid \<in> set (bt_keys ?m)" using keys by simp
    then obtain r where "bt_get ?m tid = Some r" by (auto simp: bt_contains_keys)
    then show "\<not> bt_contains bt_empty tid \<and>
       (\<exists>r. bt_get ?m tid = Some r \<and> rec_transaction_id r = tid \<and>
          rec_observed_world_revision r \<le> gs_observed_world_revision s)"
      using ok by (auto simp: ledger_ok_def bt_contains_def bt.get_empty)
  qed
  have "sorted (map (receipt_revision s) ?ids)" using ok by (simp add: ledger_ok_def)
  from order_fold_ok [OF dist recs this] obtain seen where
    fold: "try_fold (order_step s) ?ids (bt_empty, None) =
      Inr (seen, if ?ids = [] then None else Some (receipt_revision s (last ?ids)))" by auto
  have last_le: "receipt_revision s (last ?ids) \<le> gs_observed_world_revision s" if "?ids \<noteq> []"
    using recs last_in_set [OF that] by (auto simp: receipt_revision_def)
  have old: "case ?ids of tid # _ \<Rightarrow> \<exists>r. bt_get ?m tid = Some r \<and>
      gs_oldest_replayable_world_revision s = rec_observed_world_revision r
      | [] \<Rightarrow> gs_oldest_replayable_world_revision s = 0"
  proof (cases ?ids)
    case (Cons tid ids)
    have "gs_oldest_replayable_world_revision s = receipt_revision s tid"
      using ok Cons by (simp add: ledger_ok_def)
    moreover obtain r where "bt_get ?m tid = Some r" using recs Cons by force
    ultimately show ?thesis using Cons by (simp add: receipt_revision_def)
  qed (use ok in \<open>simp add: ledger_ok_def\<close>)
  have pend: "rec_observed_world_revision p = gs_observed_world_revision s \<and>
      \<not> bt_contains ?m (rec_transaction_id p)" if "gs_pending_receipt s = Some p" for p
    using ok that keys by (simp add: pending_ok_def bt_contains_iff)
  show "validate_retry_ledger s = Inr ()"
    unfolding validate_retry_ledger_def validate_receipt_order_fold
    using len fold old last_le pend by (auto simp: not_less split: list.splits option.splits)
qed

subsection \<open>Retaining a receipt\<close>

lemma retire_receipts_spec:
  assumes "distinct order" "\<forall>tid \<in> set order. bt_get recent tid \<noteq> None"
  shows "retire_receipts limit order recent =
    ((drop (length order - limit) order,
      foldl (\<lambda>m tid. bt_remove tid m) recent (take (length order - limit) order)), Inr ())"
  using assms
proof (induction limit order recent rule: retire_receipts.induct)
  case (2 limit tid order recent)
  show ?case
  proof (cases "limit < length (tid # order)")
    case True
    have "retire_receipts limit order (bt_remove tid recent) =
      ((drop (length order - limit) order,
        foldl (\<lambda>m tid. bt_remove tid m) (bt_remove tid recent) (take (length order - limit) order)), Inr ())"
      using 2 True by (intro "2.IH") (auto simp: bt.get_remove)
    moreover have "length (tid # order) - limit = Suc (length order - limit)" using True by simp
    ultimately show ?thesis using True 2(3) by simp
  qed simp
qed simp

lemma bt_get_remove_list:
  "bt_get (foldl (\<lambda>m k. bt_remove k m) m ks) k = (if k \<in> set ks then None else bt_get m k)"
  by (induction ks arbitrary: m) (auto simp: bt.get_remove)

lemma sorted_drop_ids: "sorted (map f ids) \<Longrightarrow> sorted (map f (drop n ids))"
  unfolding drop_map [symmetric] by (rule sorted_wrt_drop)

text \<open>
  Retaining a receipt that the ledger does not hold, and whose revision is not older than
  any receipt's: it succeeds, keeps the ledger, and retires the oldest receipts only.
\<close>

lemma retain_finalized_receipt_ok:
  assumes ok: "ledger_ok s" and new: "rec_transaction_id r \<notin> set (gs_receipt_order s)"
    and bound: "\<And>tid. tid \<in> set (gs_receipt_order s) \<Longrightarrow>
      receipt_revision s tid \<le> rec_observed_world_revision r"
    and le: "rec_observed_world_revision r \<le> gs_observed_world_revision s"
    and limit: "0 < gl_recent_receipts (gs_limits s)"
  shows "\<exists>s'. retain_finalized_receipt s r = (s', Inr ()) \<and> ledger_ok s' \<and>
    (\<exists>order recent oldest. s' = s\<lparr>gs_receipt_order := order, gs_recent_receipts := recent,
       gs_oldest_replayable_world_revision := oldest\<rparr>) \<and>
    gs_receipt_order s' =
      drop (Suc (length (gs_receipt_order s)) - gl_recent_receipts (gs_limits s))
        (gs_receipt_order s @ [rec_transaction_id r]) \<and>
    bt_get (gs_recent_receipts s') (rec_transaction_id r) = Some r \<and>
    (\<forall>tid. tid \<noteq> rec_transaction_id r \<longrightarrow> tid \<in> set (gs_receipt_order s') \<longrightarrow>
       bt_get (gs_recent_receipts s') tid = bt_get (gs_recent_receipts s) tid)"
proof -
  let ?tid = "rec_transaction_id r" and ?l = "gl_recent_receipts (gs_limits s)"
  let ?order = "gs_receipt_order s @ [?tid]" and ?recent = "bt_insert ?tid r (gs_recent_receipts s)"
  let ?n = "length ?order - ?l"
  define order' where "order' = drop ?n ?order"
  define recent' where "recent' = foldl (\<lambda>m tid. bt_remove tid m) ?recent (take ?n ?order)"
  from ok have keys: "set (bt_keys (gs_recent_receipts s)) = set (gs_receipt_order s)"
    and dist: "distinct (gs_receipt_order s)"
    and recs: "\<And>tid r. bt_get (gs_recent_receipts s) tid = Some r \<Longrightarrow>
        rec_transaction_id r = tid \<and> rec_observed_world_revision r \<le> gs_observed_world_revision s"
    and sorted: "sorted (map (receipt_revision s) (gs_receipt_order s))"
    unfolding ledger_ok_def by blast+
  have absent: "bt_get (gs_recent_receipts s) ?tid = None"
    using new keys bt_contains_keys [of ?tid "gs_recent_receipts s"]
    by (cases "bt_get (gs_recent_receipts s) ?tid") auto
  have dist': "distinct ?order" using dist new by simp
  have present: "\<forall>tid \<in> set ?order. bt_get ?recent tid \<noteq> None"
    using keys by (auto simp: bt.get_insert bt_contains_keys set_eq_iff)
  have retired: "retire_receipts ?l ?order ?recent = ((order', recent'), Inr ())"
    unfolding order'_def recent'_def by (rule retire_receipts_spec [OF dist' present])
  have "?n < length ?order" using limit by simp
  then have order': "order' \<noteq> []" "?tid \<in> set order'" unfolding order'_def by auto
  have disj: "set (take ?n ?order) \<inter> set order' = {}"
    unfolding order'_def by (rule set_take_disj_set_drop_if_distinct [OF dist']) simp
  have split: "set ?order = set (take ?n ?order) \<union> set order'"
    unfolding order'_def by (metis append_take_drop_id set_append)
  have get': "bt_get recent' tid = bt_get ?recent tid" if "tid \<in> set order'" for tid
    using that disj by (auto simp: recent'_def bt_get_remove_list)
  obtain oldest os where os: "order' = oldest # os" using order'(1) by (cases order') auto
  then obtain q where q: "bt_get recent' oldest = Some q"
    using get' [of oldest] present unfolding split os by auto
  define s' where "s' = s\<lparr>gs_receipt_order := order', gs_recent_receipts := recent',
    gs_oldest_replayable_world_revision := rec_observed_world_revision q\<rparr>"
  have run: "retain_finalized_receipt s r = (s', Inr ())"
    using retired absent q unfolding retain_finalized_receipt_def s'_def os
    by (simp add: bt_contains_def)
  have rev: "receipt_revision s' tid = (if tid = ?tid then rec_observed_world_revision r
      else receipt_revision s tid)" if "tid \<in> set order'" for tid
    using get' [OF that] by (simp add: receipt_revision_def s'_def bt.get_insert)
  let ?f = "\<lambda>tid. if tid = ?tid then rec_observed_world_revision r else receipt_revision s tid"
  have same: "map ?f ?order = map (receipt_revision s) (gs_receipt_order s) @ [rec_observed_world_revision r]"
    using new by auto
  have "sorted (map ?f ?order)"
    unfolding same using sorted bound by (simp add: sorted_append)
  then have "sorted (map ?f order')" unfolding order'_def by (rule sorted_drop_ids)
  have same': "map (receipt_revision s') order' = map ?f order'"
    using rev by (intro map_cong) auto
  have sorted': "sorted (map (receipt_revision s') order')" unfolding same' by fact
  have keys': "set (bt_keys recent') = set order'"
  proof (intro set_eqI)
    fix tid
    have "tid \<in> set (bt_keys recent') \<longleftrightarrow> tid \<notin> set (take ?n ?order) \<and> bt_get ?recent tid \<noteq> None"
      unfolding recent'_def bt_contains_keys bt_get_remove_list by auto
    also have "bt_get ?recent tid \<noteq> None \<longleftrightarrow> tid \<in> set ?order"
      using keys by (auto simp: bt_contains_keys bt.get_insert set_eq_iff)
    also have "(tid \<notin> set (take ?n ?order) \<and> tid \<in> set ?order) \<longleftrightarrow> tid \<in> set order'"
      using split disj by blast
    finally show "tid \<in> set (bt_keys recent') \<longleftrightarrow> tid \<in> set order'" .
  qed
  have "ledger_ok s'"
    unfolding ledger_ok_def
  proof (intro conjI allI impI)
    show "distinct (gs_receipt_order s')"
      using dist' distinct_drop [of ?order ?n] by (simp only: s'_def order'_def) simp
    show "set (bt_keys (gs_recent_receipts s')) = set (gs_receipt_order s')"
      using keys' by (simp add: s'_def)
    show "sorted (map (receipt_revision s') (gs_receipt_order s'))"
      using sorted' by (simp add: s'_def)
    show "gs_oldest_replayable_world_revision s' =
       (case gs_receipt_order s' of [] \<Rightarrow> 0 | tid # _ \<Rightarrow> receipt_revision s' tid)"
      using os q by (simp add: s'_def receipt_revision_def)
    fix tid p assume "bt_get (gs_recent_receipts s') tid = Some p"
    then have "bt_get ?recent tid = Some p"
      by (simp add: s'_def recent'_def bt_get_remove_list split: if_split_asm)
    then show "rec_transaction_id p = tid"
      and "rec_observed_world_revision p \<le> gs_observed_world_revision s'"
      using recs le by (auto simp: bt.get_insert s'_def split: if_split_asm)
  qed
  moreover have "bt_get (gs_recent_receipts s') ?tid = Some r"
    using get' [OF order'(2)] by (simp add: s'_def bt.get_insert)
  moreover have "gs_receipt_order s' =
      drop (Suc (length (gs_receipt_order s)) - ?l) (gs_receipt_order s @ [?tid])"
    by (simp add: s'_def order'_def)
  moreover have "bt_get (gs_recent_receipts s') tid = bt_get (gs_recent_receipts s) tid"
    if "tid \<noteq> ?tid" "tid \<in> set (gs_receipt_order s')" for tid
    using that get' by (simp add: s'_def bt.get_insert)
  ultimately show ?thesis
    using run by (intro exI [of _ s']) (auto simp: s'_def)
qed

subsection \<open>What an edit leaves alone\<close>

text \<open>The bookkeeping of the state, which no staged edit changes.\<close>

definition bookkeeping where
  "bookkeeping s =
     (gs_observed_world_revision s, gs_recent_receipts s, gs_receipt_order s, gs_pending_receipt s,
      gs_oldest_replayable_world_revision s, gs_limits s, gs_loaded_chunks s, gs_chunk_edge s)"

lemma apply_intent_bookkeeping: "apply_intent s e = Inr s' \<Longrightarrow> bookkeeping s' = bookkeeping s"
  by (cases e)
    (auto simp: bookkeeping_def and_then_Inr ok_or_Inr slot_ref_Inr require_before_def
      set_inventory_def set_container_def split: if_split_asm)

lemma apply_all_bookkeeping: "apply_all s es = Inr s' \<Longrightarrow> bookkeeping s' = bookkeeping s"
  unfolding apply_all_def
  by (rule try_fold_invariant [where P = "\<lambda>t. bookkeeping t = bookkeeping s"])
    (auto dest: apply_intent_bookkeeping)

lemma receipt_revision_cong:
  "gs_recent_receipts s' = gs_recent_receipts s \<Longrightarrow> receipt_revision s' = receipt_revision s"
  by (simp add: receipt_revision_def fun_eq_iff)

text \<open>The ledger depends on four fields, and stands when the observed revision grows.\<close>

lemma ledger_ok_mono:
  assumes "ledger_ok s" "gs_recent_receipts s' = gs_recent_receipts s"
    "gs_receipt_order s' = gs_receipt_order s"
    "gs_oldest_replayable_world_revision s' = gs_oldest_replayable_world_revision s"
    "gs_observed_world_revision s \<le> gs_observed_world_revision s'"
  shows "ledger_ok s'"
  using assms(1,5) unfolding ledger_ok_def receipt_revision_cong [OF assms(2)] assms(2-4)
  by (meson le_trans)

lemma bookkeeping_ledger:
  assumes "bookkeeping s' = bookkeeping s" "ledger_ok s"
  shows "ledger_ok s'"
  by (rule ledger_ok_mono [OF assms(2)]) (use assms(1) in \<open>simp_all add: bookkeeping_def\<close>)

subsection \<open>The invariant of the applier\<close>

text \<open>
  The ledger is well formed and bounded, and the applier's pending commit and the state's
  pending receipt are the two sides of one transaction, at the observed revision.
\<close>

definition applier_inv :: "plan_applier \<Rightarrow> bool" where
  "applier_inv ap \<longleftrightarrow>
     (let s = ap_state ap in
      ledger_ok s \<and>
      0 < gl_recent_receipts (gs_limits s) \<and>
      length (gs_receipt_order s) \<le> gl_recent_receipts (gs_limits s) \<and>
      (case ap_pending ap of
         None \<Rightarrow> gs_pending_receipt s = None
       | Some pending \<Rightarrow> \<exists>r. gs_pending_receipt s = Some r \<and>
           rec_transaction_id r = psc_transaction_id pending \<and>
           rec_observed_world_revision r = psc_base_world_revision pending \<and>
           rec_observed_world_revision r = gs_observed_world_revision s \<and>
           rec_transaction_id r \<notin> set (gs_receipt_order s)))"

lemma replay_guard_None:
  assumes "replay_guard ap tid revision same = Inr None"
  shows "ap_pending ap = None" "bt_get (gs_recent_receipts (ap_state ap)) tid = None"
    "replay_guard ap tid revision same' = Inr None"
  using assms
  by (auto simp: replay_guard_def Let_def split: option.splits if_split_asm)

lemma replay_guard_Some:
  assumes "replay_guard ap tid revision same = Inr (Some r)"
  shows "same r"
  using assms
  by (auto simp: replay_guard_def Let_def split: option.splits if_split_asm)

lemma apply_plan_cases:
  assumes run: "apply_plan sha ap p fault = (ap', res)" and len: "length (plan_edits p) \<le> usize_max"
  obtains (rejected) e where "ap' = ap" "res = Inl e"
    | (replayed) r where "ap' = ap" "res = Inr r" "replay_guard ap (plan_transaction_id p)
        (plan_expected_world_revision p)
        (\<lambda>receipt. plan_envelope_fingerprint p = rec_envelope_fingerprint receipt
            \<and> plan_plan_fingerprint p = rec_plan_fingerprint receipt) = Inr (Some r)"
    | (applied) s' where "\<And>same. replay_guard ap (plan_transaction_id p)
        (plan_expected_world_revision p) same = Inr None"
      "admit_plan sha ap p = Inr ()" "apply_all (ap_state ap) (plan_edits p) = Inr s'"
      "publish_plan sha (ap\<lparr>ap_state := s'\<rparr>) p = (ap', res)"
proof -
  let ?same = "\<lambda>receipt. plan_envelope_fingerprint p = rec_envelope_fingerprint receipt
            \<and> plan_plan_fingerprint p = rec_plan_fingerprint receipt"
  let ?guard = "replay_guard ap (plan_transaction_id p) (plan_expected_world_revision p) ?same"
  consider (a) e where "?guard = Inl e" | (b) r where "?guard = Inr (Some r)"
    | (c) "?guard = Inr None" by (metis sum.exhaust option.exhaust)
  then show thesis
  proof cases
    case a
    with run rejected show thesis by (auto simp: apply_plan_def)
  next
    case b
    with run replayed show thesis by (auto simp: apply_plan_def)
  next
    case c
    show thesis
    proof (cases "admit_plan sha ap p")
      case (Inl e)
      with c run rejected show thesis by (auto simp: apply_plan_def)
    next
      case (Inr u)
      obtain s' res' where batch:
        "run_batch apply_intent rollback_intent fault [] (plan_edits p) (ap_state ap) = (s', res')"
        by (cases "run_batch apply_intent rollback_intent fault [] (plan_edits p) (ap_state ap)")
      show thesis
      proof (cases res')
        case (Inl e)
        with batch intents.batch_atomic [OF _ len] have "s' = ap_state ap" by blast
        with Inl batch c Inr run rejected show thesis by (auto simp: apply_plan_def)
      next
        case (Inr v)
        with batch intents.batch_applies [OF _ len] have "apply_all (ap_state ap) (plan_edits p) = Inr s'"
          unfolding apply_all_def by blast
        with Inr batch c \<open>admit_plan sha ap p = Inr u\<close> run applied replay_guard_None(3) [OF c]
        show thesis by (auto simp: apply_plan_def)
      qed
    qed
  qed
qed

definition receipt_of :: "digest_function \<Rightarrow> gameplay_state \<Rightarrow> gameplay_plan \<Rightarrow> plan_receipt" where
  "receipt_of sha s p = \<lparr>rec_transaction_id = plan_transaction_id p,
            rec_observed_world_revision = plan_expected_world_revision p,
            rec_envelope_fingerprint = plan_envelope_fingerprint p,
            rec_plan_fingerprint = plan_plan_fingerprint p,
            rec_state_hash = state_hash sha s,
            rec_outcome = plan_outcome p\<rparr>"

lemma guard_fresh:
  assumes "replay_guard ap tid revision same = Inr None" "applier_inv ap"
  shows "tid \<notin> set (gs_receipt_order (ap_state ap))" "gs_pending_receipt (ap_state ap) = None"
    "ap_pending ap = None"
proof -
  show none: "ap_pending ap = None" by (rule replay_guard_None(1) [OF assms(1)])
  with assms(2) show "gs_pending_receipt (ap_state ap) = None"
    by (simp add: applier_inv_def Let_def)
  have "bt_get (gs_recent_receipts (ap_state ap)) tid = None"
    by (rule replay_guard_None(2) [OF assms(1)])
  then have "tid \<notin> set (bt_keys (gs_recent_receipts (ap_state ap)))"
    by (simp add: bt_contains_keys)
  with assms(2) show "tid \<notin> set (gs_receipt_order (ap_state ap))"
    by (simp add: applier_inv_def Let_def ledger_ok_def)
qed

lemma ledger_revision_le:
  assumes "ledger_ok s" "tid \<in> set (gs_receipt_order s)"
  shows "receipt_revision s tid \<le> gs_observed_world_revision s"
proof -
  have "tid \<in> set (bt_keys (gs_recent_receipts s))" using assms by (simp add: ledger_ok_def)
  then obtain r where "bt_get (gs_recent_receipts s) tid = Some r" by (auto simp: bt_contains_keys)
  with assms(1) show ?thesis by (simp add: ledger_ok_def receipt_revision_def)
qed

text \<open>Publishing the receipt of an applied plan cannot fail.\<close>

lemma publish_plan_ok:
  assumes inv: "applier_inv ap" and pub: "publish_plan sha ap p = (ap', res)"
    and fresh: "plan_transaction_id p \<notin> set (gs_receipt_order (ap_state ap))"
    and revision: "plan_expected_world_revision p = gs_observed_world_revision (ap_state ap)"
    and none: "ap_pending ap = None"
  shows "res = Inr (receipt_of sha (ap_state ap) p) \<and> applier_inv ap' \<and>
    ap_world ap' = ap_world ap \<and> ap_catalog ap' = ap_catalog ap \<and> ap_mode ap' = ap_mode ap \<and>
    (if bt_len (storage_capture_domains (plan_edits p)) = 0
     then ap_pending ap' = None \<and>
       (\<exists>s'. retain_finalized_receipt (ap_state ap) (receipt_of sha (ap_state ap) p) = (s', Inr ()) \<and>
          ap_state ap' = s' \<and> gs_pending_receipt s' = None \<and>
          bt_get (gs_recent_receipts s') (plan_transaction_id p) =
            Some (receipt_of sha (ap_state ap) p))
     else ap_state ap' = (ap_state ap)\<lparr>gs_pending_receipt := Some (receipt_of sha (ap_state ap) p)\<rparr> \<and>
       ap_pending ap' = Some \<lparr>psc_transaction_id = plan_transaction_id p,
         psc_base_world_revision = plan_expected_world_revision p,
         psc_chunks = storage_capture_domains (plan_edits p)\<rparr>)"
proof -
  let ?s = "ap_state ap" and ?r = "receipt_of sha (ap_state ap) p"
  from inv none have ok: "ledger_ok ?s" and lim: "0 < gl_recent_receipts (gs_limits ?s)"
    and len: "length (gs_receipt_order ?s) \<le> gl_recent_receipts (gs_limits ?s)"
    and pend: "gs_pending_receipt ?s = None"
    by (simp_all add: applier_inv_def Let_def)
  have pub': "publish_plan sha ap p =
      (if bt_len (storage_capture_domains (plan_edits p)) = 0
       then (case retain_finalized_receipt ?s ?r of
          (s', result) \<Rightarrow> (ap\<lparr>ap_state := s'\<rparr>, and_then result (\<lambda>_. Inr ?r)))
       else (ap\<lparr>ap_state := ?s\<lparr>gs_pending_receipt := Some ?r\<rparr>,
               ap_pending := Some \<lparr>psc_transaction_id = plan_transaction_id p,
                 psc_base_world_revision = plan_expected_world_revision p,
                 psc_chunks = storage_capture_domains (plan_edits p)\<rparr>\<rparr>, Inr ?r))"
    by (simp add: publish_plan_def receipt_of_def Let_def)
  show ?thesis
  proof (cases "bt_len (storage_capture_domains (plan_edits p)) = 0")
    case True
    have "\<exists>s'. retain_finalized_receipt ?s ?r = (s', Inr ()) \<and> ledger_ok s' \<and>
    (\<exists>order recent oldest. s' = ?s\<lparr>gs_receipt_order := order, gs_recent_receipts := recent,
       gs_oldest_replayable_world_revision := oldest\<rparr>) \<and>
    gs_receipt_order s' =
      drop (Suc (length (gs_receipt_order ?s)) - gl_recent_receipts (gs_limits ?s))
        (gs_receipt_order ?s @ [rec_transaction_id ?r]) \<and>
    bt_get (gs_recent_receipts s') (rec_transaction_id ?r) = Some ?r \<and>
    (\<forall>tid. tid \<noteq> rec_transaction_id ?r \<longrightarrow> tid \<in> set (gs_receipt_order s') \<longrightarrow>
       bt_get (gs_recent_receipts s') tid = bt_get (gs_recent_receipts ?s) tid)"
      by (rule retain_finalized_receipt_ok [OF ok])
        (use fresh revision lim ledger_revision_le [OF ok] in \<open>simp_all add: receipt_of_def\<close>)
    then obtain s' order recent oldest where s': "retain_finalized_receipt ?s ?r = (s', Inr ())"
      "ledger_ok s'" "s' = ?s\<lparr>gs_receipt_order := order, gs_recent_receipts := recent,
         gs_oldest_replayable_world_revision := oldest\<rparr>"
      "gs_receipt_order s' =
        drop (Suc (length (gs_receipt_order ?s)) - gl_recent_receipts (gs_limits ?s))
          (gs_receipt_order ?s @ [rec_transaction_id ?r])"
      "bt_get (gs_recent_receipts s') (rec_transaction_id ?r) = Some ?r" by blast
    have "length (gs_receipt_order s') \<le> gl_recent_receipts (gs_limits s')"
      using s'(4) len lim by (simp add: s'(3))
    moreover from pub pub' True s'(1) have "ap' = ap\<lparr>ap_state := s'\<rparr>" "res = Inr ?r" by auto
    moreover have "gs_pending_receipt s' = None" "gs_limits s' = gs_limits ?s"
      using pend by (simp_all add: s'(3))
    ultimately show ?thesis using True s'(1,2,5) none lim
      by (simp add: applier_inv_def Let_def receipt_of_def)
  next
    case False
    with pub pub' have ap': "ap' = ap\<lparr>ap_state := ?s\<lparr>gs_pending_receipt := Some ?r\<rparr>,
               ap_pending := Some \<lparr>psc_transaction_id = plan_transaction_id p,
                 psc_base_world_revision = plan_expected_world_revision p,
                 psc_chunks = storage_capture_domains (plan_edits p)\<rparr>\<rparr>" "res = Inr ?r" by auto
    have "ledger_ok (?s\<lparr>gs_pending_receipt := Some ?r\<rparr>)"
      by (rule ledger_ok_mono [OF ok]) simp_all
    then have "applier_inv ap'"
      using fresh revision lim len unfolding ap'(1) by (simp add: applier_inv_def Let_def receipt_of_def)
    with False ap' show ?thesis by simp
  qed
qed

lemma inv_after_edits:
  assumes "applier_inv ap" "apply_all (ap_state ap) es = Inr s'"
  shows "applier_inv (ap\<lparr>ap_state := s'\<rparr>)"
proof -
  note b = apply_all_bookkeeping [OF assms(2)]
  from assms(1) have "ledger_ok (ap_state ap)" by (simp add: applier_inv_def Let_def)
  from bookkeeping_ledger [OF b this] have "ledger_ok s'" .
  with assms(1) b show ?thesis
    by (cases "ap_pending ap") (simp_all add: applier_inv_def Let_def bookkeeping_def)
qed

text \<open>Applying a plan: nothing changes on an error, and a new plan is published.\<close>

definition published :: "digest_function \<Rightarrow> plan_applier \<Rightarrow> gameplay_plan \<Rightarrow> gameplay_state \<Rightarrow> plan_applier" where
  "published sha ap p s' =
     (if bt_len (storage_capture_domains (plan_edits p)) = 0
      then ap\<lparr>ap_state := fst (retain_finalized_receipt s' (receipt_of sha s' p))\<rparr>
      else ap\<lparr>ap_state := s'\<lparr>gs_pending_receipt := Some (receipt_of sha s' p)\<rparr>,
              ap_pending := Some \<lparr>psc_transaction_id = plan_transaction_id p,
                psc_base_world_revision = plan_expected_world_revision p,
                psc_chunks = storage_capture_domains (plan_edits p)\<rparr>\<rparr>)"

lemma publish_plan_state: "fst (publish_plan sha (ap\<lparr>ap_state := s'\<rparr>) p) = published sha ap p s'"
  by (simp add: publish_plan_def published_def receipt_of_def Let_def split: prod.splits)

lemma applied_publishes:
  assumes inv: "applier_inv ap"
    and guard: "\<And>same. replay_guard ap (plan_transaction_id p) (plan_expected_world_revision p) same = Inr None"
    and admit: "admit_plan sha ap p = Inr ()" and run: "apply_all (ap_state ap) (plan_edits p) = Inr s'"
    and pub: "publish_plan sha (ap\<lparr>ap_state := s'\<rparr>) p = (ap', res)"
  shows "ap' = published sha ap p s' \<and> res = Inr (receipt_of sha s' p) \<and> applier_inv ap'"
proof -
  note fresh = guard_fresh [OF guard inv]
  have b: "bookkeeping s' = bookkeeping (ap_state ap)" by (rule apply_all_bookkeeping [OF run])
  have "plan_expected_world_revision p = gs_observed_world_revision (ap_state ap)"
    using admit by (auto simp: admit_plan_def Let_def and_then_Inr split: if_split_asm)
  then have "plan_transaction_id p \<notin> set (gs_receipt_order (ap_state (ap\<lparr>ap_state := s'\<rparr>)))"
    "plan_expected_world_revision p = gs_observed_world_revision (ap_state (ap\<lparr>ap_state := s'\<rparr>))"
    "ap_pending (ap\<lparr>ap_state := s'\<rparr>) = None"
    using fresh b by (simp_all add: bookkeeping_def)
  from publish_plan_ok [OF inv_after_edits [OF inv run] pub this] publish_plan_state [of sha s' ap p] pub
  show ?thesis by simp
qed

lemma apply_plan_spec:
  assumes inv: "applier_inv ap" and run: "apply_plan sha ap p fault = (ap', res)"
    and len: "length (plan_edits p) \<le> usize_max"
  shows "applier_inv ap'" "\<And>e. res = Inl e \<Longrightarrow> ap' = ap"
    "\<And>r. res = Inr r \<Longrightarrow> ap' \<noteq> ap \<Longrightarrow> (\<exists>s'. apply_all (ap_state ap) (plan_edits p) = Inr s' \<and>
      r = receipt_of sha s' p)"
proof -
  have "applier_inv ap' \<and> (\<forall>e. res = Inl e \<longrightarrow> ap' = ap) \<and>
    (\<forall>r. res = Inr r \<longrightarrow> ap' \<noteq> ap \<longrightarrow> (\<exists>s'. apply_all (ap_state ap) (plan_edits p) = Inr s' \<and>
      r = receipt_of sha s' p))"
    using run len
  proof (cases rule: apply_plan_cases)
    case (applied s')
    from applied_publishes [OF inv applied] applied(3) show ?thesis by auto
  qed (use inv in auto)
  then show "applier_inv ap'" "\<And>e. res = Inl e \<Longrightarrow> ap' = ap"
    "\<And>r. res = Inr r \<Longrightarrow> ap' \<noteq> ap \<Longrightarrow> (\<exists>s'. apply_all (ap_state ap) (plan_edits p) = Inr s' \<and>
      r = receipt_of sha s' p)" by blast+
qed

subsection \<open>Executing a command\<close>

lemma plan_fields:
  assumes "plan sha cat mode s env = Inr p"
  shows "plan_transaction_id p = env_transaction_id env"
    "plan_expected_world_revision p = env_expected_world_revision env"
    "plan_envelope_fingerprint p = envelope_hash sha env"
    "plan_plan_fingerprint p = plan_hash sha (plan_expected_world_revision p)
      (plan_envelope_fingerprint p) (plan_edits p) (plan_outcome p)"
    "validate_loaded sha cat s = Inr ()"
    "env_expected_world_revision env = gs_observed_world_revision s"
    "plan_command cat mode s (env_transaction_id env) (env_command env) =
      Inr (plan_edits p, plan_outcome p)"
    "length (plan_edits p) \<le> gl_mutations_per_command (gs_limits s)"
  using assms
  by (auto simp: plan_def and_then_Inr validate_envelope_def Let_def not_less split: if_split_asm)

lemma plan_length_usize:
  assumes "plan sha cat mode s env = Inr p"
  shows "length (plan_edits p) \<le> 256" "length (plan_edits p) \<le> usize_max"
proof -
  have "gl_mutations_per_command (gs_limits s) \<le> 256"
    using validate_loaded_parts(1) [OF plan_fields(5) [OF assms]]
    by (auto simp: validate_collection_limits_def validate_gameplay_limits_def Let_def and_then_Inr
        split: if_split_asm)
  with plan_fields(8) [OF assms] show "length (plan_edits p) \<le> 256" by simp
  then show "length (plan_edits p) \<le> usize_max" by (simp add: usize_max_def)
qed

lemma execute_cases:
  assumes run: "execute sha ap env fault = (ap', res)"
  obtains (rejected) e where "ap' = ap" "res = Inl e"
    | (replayed) r where "ap' = ap" "res = Inr r" "replay_guard ap (env_transaction_id env)
        (env_expected_world_revision env)
        (\<lambda>receipt. envelope_hash sha env = rec_envelope_fingerprint receipt) = Inr (Some r)"
    | (planned) p where "\<And>same. replay_guard ap (env_transaction_id env)
        (env_expected_world_revision env) same = Inr None"
      "plan sha (ap_catalog ap) (ap_mode ap) (ap_state ap) env = Inr p"
      "apply_plan sha ap p fault = (ap', res)"
proof -
  let ?same = "\<lambda>receipt. envelope_hash sha env = rec_envelope_fingerprint receipt"
  let ?guard = "replay_guard ap (env_transaction_id env) (env_expected_world_revision env) ?same"
  consider (a) e where "?guard = Inl e" | (b) r where "?guard = Inr (Some r)"
    | (c) "?guard = Inr None" by (metis sum.exhaust option.exhaust)
  then show thesis
  proof cases
    case a
    with run rejected show thesis by (auto simp: execute_def)
  next
    case b
    with run replayed show thesis by (auto simp: execute_def)
  next
    case c
    show thesis
    proof (cases "plan sha (ap_catalog ap) (ap_mode ap) (ap_state ap) env")
      case (Inl e)
      with c run rejected show thesis by (auto simp: execute_def)
    next
      case (Inr p)
      with c run planned replay_guard_None(3) [OF c] show thesis by (auto simp: execute_def)
    qed
  qed
qed

lemma execute_inv:
  assumes inv: "applier_inv ap" and run: "execute sha ap env fault = (ap', res)"
  shows "applier_inv ap'" "\<And>e. res = Inl e \<Longrightarrow> ap' = ap"
proof -
  have "applier_inv ap' \<and> (\<forall>e. res = Inl e \<longrightarrow> ap' = ap)"
    using run
  proof (cases rule: execute_cases)
    case (planned p)
    from apply_plan_spec(1,2) [OF inv planned(3) plan_length_usize(2) [OF planned(2)]]
    show ?thesis by blast
  qed (use inv in auto)
  then show "applier_inv ap'" "\<And>e. res = Inl e \<Longrightarrow> ap' = ap" by blast+
qed

text \<open>A receipt the applier answers a transaction with is answered again.\<close>

definition answers :: "plan_applier \<Rightarrow> transaction_id \<Rightarrow> plan_receipt \<Rightarrow> bool" where
  "answers ap tid r \<longleftrightarrow>
     (case gs_pending_receipt (ap_state ap) of
        Some p \<Rightarrow> if rec_transaction_id p = tid then p = r
          else bt_get (gs_recent_receipts (ap_state ap)) tid = Some r
      | None \<Rightarrow> bt_get (gs_recent_receipts (ap_state ap)) tid = Some r)"

lemma answers_execute:
  assumes "answers ap (env_transaction_id env) r"
  shows "execute sha ap env fault =
    (ap, if envelope_hash sha env = rec_envelope_fingerprint r then Inr r
      else Inl (RetryPayloadMismatch (env_transaction_id env)))"
  using assms
  by (auto simp: answers_def execute_def replay_guard_def Let_def split: option.splits if_split_asm)

lemma replay_answers:
  "replay_guard ap tid revision same = Inr (Some r) \<Longrightarrow> answers ap tid r"
  by (auto simp: answers_def replay_guard_def Let_def split: option.splits if_split_asm)

lemma execute_answers:
  assumes inv: "applier_inv ap" and run: "execute sha ap env fault = (ap', Inr r)"
  shows "answers ap' (env_transaction_id env) r" "rec_envelope_fingerprint r = envelope_hash sha env"
proof -
  have "answers ap' (env_transaction_id env) r \<and> rec_envelope_fingerprint r = envelope_hash sha env"
    using run
  proof (cases rule: execute_cases)
    case (rejected e)
    then show ?thesis by simp
  next
    case (replayed q)
    then show ?thesis using replay_answers [OF replayed(3)] replay_guard_Some [OF replayed(3)] by simp
  next
    case (planned p)
    note fields = plan_fields [OF planned(2)]
    from planned(3) plan_length_usize(2) [OF planned(2)] show ?thesis
    proof (cases rule: apply_plan_cases)
      case (rejected e)
      then show ?thesis by simp
    next
      case (replayed q)
      then show ?thesis using planned(1) fields by simp
    next
      case (applied s')
      note guard = guard_fresh [OF applied(1) inv]
      have b: "bookkeeping s' = bookkeeping (ap_state ap)" by (rule apply_all_bookkeeping [OF applied(3)])
      have "plan_transaction_id p \<notin> set (gs_receipt_order (ap_state (ap\<lparr>ap_state := s'\<rparr>)))"
        "plan_expected_world_revision p = gs_observed_world_revision (ap_state (ap\<lparr>ap_state := s'\<rparr>))"
        "ap_pending (ap\<lparr>ap_state := s'\<rparr>) = None"
        using guard b fields by (simp_all add: bookkeeping_def)
      from publish_plan_ok [OF inv_after_edits [OF inv applied(3)] applied(4) this]
      show ?thesis using fields
        by (cases "bt_len (storage_capture_domains (plan_edits p)) = 0")
          (auto simp: answers_def receipt_of_def)
    qed
  qed
  then show "answers ap' (env_transaction_id env) r"
    "rec_envelope_fingerprint r = envelope_hash sha env" by blast+
qed

text \<open>A command that is new and plans is carried out, unless a fault is injected.\<close>

lemma fresh_guard:
  assumes inv: "applier_inv ap" and none: "ap_pending ap = None"
    and fresh: "bt_get (gs_recent_receipts (ap_state ap)) tid = None"
  shows "replay_guard ap tid (gs_observed_world_revision (ap_state ap)) same = Inr None"
proof -
  let ?s = "ap_state ap"
  from inv have ok: "ledger_ok ?s" by (simp add: applier_inv_def Let_def)
  have "gs_oldest_replayable_world_revision ?s \<le> gs_observed_world_revision ?s"
  proof (cases "gs_receipt_order ?s")
    case (Cons t ts)
    with ledger_revision_le [OF ok, of t] ok show ?thesis by (simp add: ledger_ok_def)
  qed (use ok in \<open>simp add: ledger_ok_def\<close>)
  moreover from inv none have "gs_pending_receipt ?s = None" by (simp add: applier_inv_def Let_def)
  ultimately show ?thesis using none fresh by (simp add: replay_guard_def Let_def not_less)
qed

lemma execute_applies:
  assumes inv: "applier_inv ap" and none: "ap_pending ap = None"
    and fresh: "bt_get (gs_recent_receipts (ap_state ap)) (env_transaction_id env) = None"
    and p: "plan sha (ap_catalog ap) (ap_mode ap) (ap_state ap) env = Inr p"
    and free: "continuation_id_free (ap_state ap) (env_transaction_id env) (env_command env)"
  shows "\<exists>s'. accepted (ap_state ap) (plan_edits p) s' \<and>
    execute sha ap env NoFault = (published sha ap p s', Inr (receipt_of sha s' p))"
proof -
  note fields = plan_fields [OF p]
  obtain s' where acc: "accepted (ap_state ap) (plan_edits p) s'"
    using plan_command_accepted [OF fields(5,7) free] by blast
  then have targets: "validate_plan_targets (ap_state ap) (plan_edits p) = Inr ()"
    and run: "apply_all (ap_state ap) (plan_edits p) = Inr s'" by (simp_all add: accepted_def)
  have guard: "replay_guard ap (env_transaction_id env) (env_expected_world_revision env) same = Inr None"
    for same using fresh_guard [OF inv none fresh] fields(6) by simp
  have admit: "admit_plan sha ap p = Inr ()"
    using fields targets by (simp add: admit_plan_def Let_def)
  have batch: "run_batch apply_intent rollback_intent NoFault [] (plan_edits p) (ap_state ap) = (s', Inr ())"
    using intents.batch_general [of "[]" "ap_state ap" "ap_state ap" "plan_edits p" NoFault]
      plan_length_usize(2) [OF p] run by (simp add: apply_all_def)
  obtain ap' res where pub: "publish_plan sha (ap\<lparr>ap_state := s'\<rparr>) p = (ap', res)"
    by (cases "publish_plan sha (ap\<lparr>ap_state := s'\<rparr>) p")
  have "replay_guard ap (plan_transaction_id p) (plan_expected_world_revision p) same = Inr None" for same
    using guard fields by simp
  from applied_publishes [OF inv this admit run pub] pub batch admit guard p fields show ?thesis
    by (intro exI [of _ s'] conjI acc) (simp add: execute_def apply_plan_def)
qed

subsection \<open>Observing a storage commit\<close>

definition chunk_receipt_ok ::
    "world_id \<Rightarrow> gameplay_state \<Rightarrow> pending_storage_commit \<Rightarrow> chunk_receipt \<Rightarrow> bool" where
  "chunk_receipt_ok world s pending cr \<longleftrightarrow>
     cr_world cr = world \<and>
     (\<exists>required. bt_get (psc_chunks pending) (cr_chunk cr) = Some required \<and>
        domains_contain (cr_changed cr) required) \<and>
     (\<exists>previous. bt_get (gs_loaded_chunks s) (cr_chunk cr) = Some previous \<and>
        Suc previous \<le> u64_max \<and> cr_revision cr = Suc previous)"

lemma reconcile_chunk_Inr:
  "reconcile_chunk world s pending cr (seen, acc) = Inr z \<longleftrightarrow>
     chunk_receipt_ok world s pending cr \<and> \<not> bt_contains seen (cr_chunk cr) \<and>
     z = (bt_insert (cr_chunk cr) () seen, acc @ [(cr_chunk cr, cr_revision cr)])"
  by (auto simp: reconcile_chunk_def chunk_receipt_ok_def Let_def and_then_Inr ok_or_Inr
      checked_simps split: if_split_asm)

lemma reconcile_fold:
  "is_ok (try_fold (reconcile_chunk world s pending) crs (seen, acc)) \<longleftrightarrow>
     (\<forall>cr \<in> set crs. chunk_receipt_ok world s pending cr \<and> \<not> bt_contains seen (cr_chunk cr)) \<and>
     distinct (map cr_chunk crs)"
proof (induction crs arbitrary: seen acc)
  case (Cons cr crs)
  have "is_ok (try_fold (reconcile_chunk world s pending) (cr # crs) (seen, acc)) \<longleftrightarrow>
      chunk_receipt_ok world s pending cr \<and> \<not> bt_contains seen (cr_chunk cr) \<and>
      is_ok (try_fold (reconcile_chunk world s pending) crs
        (bt_insert (cr_chunk cr) () seen, acc @ [(cr_chunk cr, cr_revision cr)]))"
    unfolding try_fold.simps is_ok_and_then reconcile_chunk_Inr by blast
  also have "\<dots> \<longleftrightarrow> chunk_receipt_ok world s pending cr \<and> \<not> bt_contains seen (cr_chunk cr) \<and>
      (\<forall>x \<in> set crs. chunk_receipt_ok world s pending x \<and> \<not> bt_contains seen (cr_chunk x)) \<and>
      cr_chunk cr \<notin> cr_chunk ` set crs \<and> distinct (map cr_chunk crs)"
    unfolding Cons.IH bt_contains_insert image_iff by metis
  finally show ?case by auto
qed simp

lemma reconcile_fold_result:
  "try_fold (reconcile_chunk world s pending) crs (seen, acc) = Inr z \<Longrightarrow>
     snd z = acc @ map (\<lambda>cr. (cr_chunk cr, cr_revision cr)) crs"
proof (induction crs arbitrary: seen acc)
  case (Cons cr crs)
  then show ?case by (auto simp: and_then_Inr reconcile_chunk_Inr)
qed auto

lemma reconcile_storage_chunks_Inr:
  "reconcile_storage_chunks world s pending receipt = Inr z \<longleftrightarrow>
     (\<forall>cr \<in> set (sr_chunks receipt). chunk_receipt_ok world s pending cr) \<and>
     distinct (map cr_chunk (sr_chunks receipt)) \<and>
     z = map (\<lambda>cr. (cr_chunk cr, cr_revision cr)) (sr_chunks receipt)"
proof -
  let ?r = "try_fold (reconcile_chunk world s pending) (sr_chunks receipt) (bt_empty, [])"
  have "is_ok ?r \<longleftrightarrow> (\<forall>cr \<in> set (sr_chunks receipt). chunk_receipt_ok world s pending cr) \<and>
     distinct (map cr_chunk (sr_chunks receipt))"
    unfolding reconcile_fold by (simp add: bt_contains_def bt.get_empty)
  then show ?thesis
    using reconcile_fold_result [of world s pending "sr_chunks receipt" bt_empty "[]"]
    by (cases ?r) (auto simp: reconcile_storage_chunks_def split: prod.splits)
qed

text \<open>The storage receipt that acknowledges exactly the pending plan.\<close>

definition acknowledges :: "plan_applier \<Rightarrow> pending_storage_commit \<Rightarrow> storage_receipt \<Rightarrow> bool" where
  "acknowledges ap pending receipt \<longleftrightarrow>
     sr_world receipt = ap_world ap \<and>
     sr_transaction_id receipt = psc_transaction_id pending \<and>
     sr_world_revision receipt = Suc (gs_observed_world_revision (ap_state ap)) \<and>
     Suc (gs_observed_world_revision (ap_state ap)) \<le> u64_max \<and>
     distinct (map cr_chunk (sr_chunks receipt)) \<and>
     set (map cr_chunk (sr_chunks receipt)) = set (bt_keys (psc_chunks pending)) \<and>
     (\<forall>cr \<in> set (sr_chunks receipt). chunk_receipt_ok (ap_world ap) (ap_state ap) pending cr)"

lemma header_and_chunks:
  assumes base: "psc_base_world_revision pending = gs_observed_world_revision (ap_state ap)"
  shows "(\<exists>n z. validate_storage_commit_header (ap_world ap) (ap_state ap) pending receipt = Inr n \<and>
      reconcile_storage_chunks (ap_world ap) (ap_state ap) pending receipt = Inr z) \<longleftrightarrow>
    acknowledges ap pending receipt"
proof -
  let ?ks = "map cr_chunk (sr_chunks receipt)" and ?m = "psc_chunks pending"
  have count: "length ?ks = bt_len ?m \<longleftrightarrow> set ?ks = set (bt_keys ?m)"
    if "distinct ?ks" "set ?ks \<subseteq> set (bt_keys ?m)"
  proof
    assume "length ?ks = bt_len ?m"
    then have "card (set ?ks) = card (set (bt_keys ?m))"
      using that(1) by (simp only: distinct_card bt_keys_distinct bt_len_keys)
    with that(2) show "set ?ks = set (bt_keys ?m)" by (simp only: card_subset_eq finite_set)
  next
    assume "set ?ks = set (bt_keys ?m)"
    then show "length ?ks = bt_len ?m"
      using that(1) by (metis distinct_card bt_keys_distinct bt_len_keys)
  qed
  have sub: "set ?ks \<subseteq> set (bt_keys ?m)"
    if "\<forall>cr \<in> set (sr_chunks receipt). chunk_receipt_ok (ap_world ap) (ap_state ap) pending cr"
    using that by (fastforce simp: chunk_receipt_ok_def bt_contains_keys)
  have header: "(\<exists>n. validate_storage_commit_header (ap_world ap) (ap_state ap) pending receipt = Inr n) \<longleftrightarrow>
      sr_world receipt = ap_world ap \<and> sr_transaction_id receipt = psc_transaction_id pending \<and>
      sr_world_revision receipt = Suc (gs_observed_world_revision (ap_state ap)) \<and>
      Suc (gs_observed_world_revision (ap_state ap)) \<le> u64_max \<and> length ?ks = bt_len ?m"
    using base by (auto simp: validate_storage_commit_header_def and_then_Inr ok_or_Inr checked_simps)
  show ?thesis
    unfolding acknowledges_def using header count sub reconcile_storage_chunks_Inr by blast
qed

definition committed_state :: "gameplay_state \<Rightarrow> plan_receipt \<Rightarrow> storage_receipt \<Rightarrow> gameplay_state" where
  "committed_state s r receipt = fst (retain_finalized_receipt
     (s\<lparr>gs_loaded_chunks := foldl (\<lambda>m (chunk, revision). bt_insert chunk revision m)
          (gs_loaded_chunks s) (map (\<lambda>cr. (cr_chunk cr, cr_revision cr)) (sr_chunks receipt)),
        gs_observed_world_revision := Suc (gs_observed_world_revision s),
        gs_pending_receipt := None\<rparr>) r)"

lemma bt_get_insert_list:
  "distinct (map fst kvs) \<Longrightarrow>
   bt_get (foldl (\<lambda>m (k, v). bt_insert k v m) m kvs) k =
     (case map_of kvs k of Some v \<Rightarrow> Some v | None \<Rightarrow> bt_get m k)"
proof (induction kvs arbitrary: m)
  case (Cons kv kvs)
  obtain k' v where kv: "kv = (k', v)" by (cases kv)
  with Cons.prems have "k' \<notin> fst ` set kvs" by simp
  then have "map_of kvs k' = None" by (simp add: map_of_eq_None_iff)
  with Cons kv show ?case by (auto simp: bt.get_insert split: option.splits)
qed simp

lemma retain_committed:
  assumes inv: "applier_inv ap" and pending: "ap_pending ap = Some pending"
    and r: "gs_pending_receipt (ap_state ap) = Some r"
  shows "\<exists>s'. retain_finalized_receipt ((ap_state ap)\<lparr>gs_loaded_chunks := chunks,
        gs_observed_world_revision := Suc (gs_observed_world_revision (ap_state ap)),
        gs_pending_receipt := None\<rparr>) r = (s', Inr ()) \<and> ledger_ok s' \<and>
    (\<exists>order recent oldest. s' = (ap_state ap)\<lparr>gs_loaded_chunks := chunks,
        gs_observed_world_revision := Suc (gs_observed_world_revision (ap_state ap)),
        gs_pending_receipt := None, gs_receipt_order := order, gs_recent_receipts := recent,
        gs_oldest_replayable_world_revision := oldest\<rparr>) \<and>
    length (gs_receipt_order s') \<le> gl_recent_receipts (gs_limits s') \<and>
    bt_get (gs_recent_receipts s') (rec_transaction_id r) = Some r \<and>
    gs_receipt_order s' = drop (Suc (length (gs_receipt_order (ap_state ap))) -
        gl_recent_receipts (gs_limits (ap_state ap)))
      (gs_receipt_order (ap_state ap) @ [rec_transaction_id r]) \<and>
    (\<forall>tid. tid \<noteq> rec_transaction_id r \<longrightarrow> tid \<in> set (gs_receipt_order s') \<longrightarrow>
       bt_get (gs_recent_receipts s') tid = bt_get (gs_recent_receipts (ap_state ap)) tid)"
proof -
  let ?s = "ap_state ap"
  let ?n = "?s\<lparr>gs_loaded_chunks := chunks,
        gs_observed_world_revision := Suc (gs_observed_world_revision ?s),
        gs_pending_receipt := None\<rparr>"
  from inv pending r have ok: "ledger_ok ?s" and lim: "0 < gl_recent_receipts (gs_limits ?s)"
    and len: "length (gs_receipt_order ?s) \<le> gl_recent_receipts (gs_limits ?s)"
    and fresh: "rec_transaction_id r \<notin> set (gs_receipt_order ?s)"
    and rev: "rec_observed_world_revision r = gs_observed_world_revision ?s"
    by (auto simp: applier_inv_def Let_def)
  have ok': "ledger_ok ?n" by (rule ledger_ok_mono [OF ok]) simp_all
  have "receipt_revision ?n = receipt_revision ?s" by (rule receipt_revision_cong) simp
  then have bound: "receipt_revision ?n tid \<le> rec_observed_world_revision r"
    if "tid \<in> set (gs_receipt_order ?n)" for tid
    using ledger_revision_le [OF ok] that rev by simp
  have "\<exists>s'. retain_finalized_receipt ?n r = (s', Inr ()) \<and> ledger_ok s' \<and>
    (\<exists>order recent oldest. s' = ?n\<lparr>gs_receipt_order := order, gs_recent_receipts := recent,
       gs_oldest_replayable_world_revision := oldest\<rparr>) \<and>
    gs_receipt_order s' =
      drop (Suc (length (gs_receipt_order ?n)) - gl_recent_receipts (gs_limits ?n))
        (gs_receipt_order ?n @ [rec_transaction_id r]) \<and>
    bt_get (gs_recent_receipts s') (rec_transaction_id r) = Some r \<and>
    (\<forall>tid. tid \<noteq> rec_transaction_id r \<longrightarrow> tid \<in> set (gs_receipt_order s') \<longrightarrow>
       bt_get (gs_recent_receipts s') tid = bt_get (gs_recent_receipts ?n) tid)"
    by (rule retain_finalized_receipt_ok [OF ok' _ bound]) (use fresh rev lim in simp_all)
  then obtain s' order recent oldest where s': "retain_finalized_receipt ?n r = (s', Inr ())"
    "ledger_ok s'" "s' = ?n\<lparr>gs_receipt_order := order, gs_recent_receipts := recent,
       gs_oldest_replayable_world_revision := oldest\<rparr>"
    "gs_receipt_order s' =
      drop (Suc (length (gs_receipt_order ?n)) - gl_recent_receipts (gs_limits ?n))
        (gs_receipt_order ?n @ [rec_transaction_id r])"
    "bt_get (gs_recent_receipts s') (rec_transaction_id r) = Some r"
    "\<forall>tid. tid \<noteq> rec_transaction_id r \<longrightarrow> tid \<in> set (gs_receipt_order s') \<longrightarrow>
       bt_get (gs_recent_receipts s') tid = bt_get (gs_recent_receipts ?n) tid" by blast
  have "length (gs_receipt_order s') \<le> gl_recent_receipts (gs_limits s')"
    using s'(4) len lim by (simp add: s'(3))
  with s' show ?thesis by (intro exI [of _ s']) auto
qed

lemma observe_storage_receipt_Inr:
  assumes inv: "applier_inv ap" and pending: "ap_pending ap = Some pending"
    and r: "gs_pending_receipt (ap_state ap) = Some r"
  shows "observe_storage_receipt sha ap receipt = Inr ap' \<longleftrightarrow>
    acknowledges ap pending receipt \<and>
    validate_loaded sha (ap_catalog ap) (committed_state (ap_state ap) r receipt) = Inr () \<and>
    ap' = ap\<lparr>ap_state := committed_state (ap_state ap) r receipt, ap_pending := None\<rparr>"
proof -
  from inv pending r have base: "psc_base_world_revision pending = gs_observed_world_revision (ap_state ap)"
    and ids: "rec_transaction_id r = psc_transaction_id pending"
      "rec_observed_world_revision r = psc_base_world_revision pending"
    by (auto simp: applier_inv_def Let_def)
  have checked: "validate_pending_runtime_receipt (ap_state ap) pending = Inr ()"
    using r ids by (simp add: validate_pending_runtime_receipt_def)
  have next_revision: "n = Suc (gs_observed_world_revision (ap_state ap))"
    if "validate_storage_commit_header (ap_world ap) (ap_state ap) pending receipt = Inr n" for n
    using that base by (auto simp: validate_storage_commit_header_def and_then_Inr ok_or_Inr
        checked_simps split: if_split_asm)
  have retained: "retain_finalized_receipt
     ((ap_state ap)\<lparr>gs_loaded_chunks := foldl (\<lambda>m (chunk, revision). bt_insert chunk revision m)
          (gs_loaded_chunks (ap_state ap)) (map (\<lambda>cr. (cr_chunk cr, cr_revision cr)) (sr_chunks receipt)),
        gs_observed_world_revision := Suc (gs_observed_world_revision (ap_state ap)),
        gs_pending_receipt := None\<rparr>) r = (committed_state (ap_state ap) r receipt, Inr ())"
    using retain_committed [OF assms] unfolding committed_state_def by (metis fst_conv)
  have "observe_storage_receipt sha ap receipt = Inr ap' \<longleftrightarrow>
      (\<exists>n z. validate_storage_commit_header (ap_world ap) (ap_state ap) pending receipt = Inr n \<and>
        reconcile_storage_chunks (ap_world ap) (ap_state ap) pending receipt = Inr z) \<and>
      validate_loaded sha (ap_catalog ap) (committed_state (ap_state ap) r receipt) = Inr () \<and>
      ap' = ap\<lparr>ap_state := committed_state (ap_state ap) r receipt, ap_pending := None\<rparr>"
  proof (cases "\<exists>n z. validate_storage_commit_header (ap_world ap) (ap_state ap) pending receipt = Inr n \<and>
        reconcile_storage_chunks (ap_world ap) (ap_state ap) pending receipt = Inr z")
    case True
    then obtain n z where nz: "validate_storage_commit_header (ap_world ap) (ap_state ap) pending receipt = Inr n"
      "reconcile_storage_chunks (ap_world ap) (ap_state ap) pending receipt = Inr z" by blast
    have "z = map (\<lambda>cr. (cr_chunk cr, cr_revision cr)) (sr_chunks receipt)"
      using nz(2) reconcile_storage_chunks_Inr by blast
    with nz next_revision [OF nz(1)] True retained show ?thesis
      by (auto simp: observe_storage_receipt_def pending checked r Let_def and_then_Inr)
  next
    case False
    then show ?thesis
      by (auto simp: observe_storage_receipt_def pending checked r and_then_Inr)
  qed
  with header_and_chunks [OF base] show ?thesis by simp
qed

lemma receipt_side:
  assumes "applier_inv ap" "ap_pending ap = Some pending"
  shows "\<exists>r. gs_pending_receipt (ap_state ap) = Some r"
  using assms by (auto simp: applier_inv_def Let_def)

text \<open>The committed state, field by field, of a receipt that acknowledges the pending plan.\<close>

lemma committed_state_fields:
  assumes inv: "applier_inv ap" and pending: "ap_pending ap = Some pending"
    and r: "gs_pending_receipt (ap_state ap) = Some r"
    and ack: "acknowledges ap pending receipt"
  defines "s' \<equiv> committed_state (ap_state ap) r receipt"
  shows "ledger_ok s'" "gs_pending_receipt s' = None"
    "gs_observed_world_revision s' = Suc (gs_observed_world_revision (ap_state ap))"
    "gs_limits s' = gs_limits (ap_state ap)"
    "length (gs_receipt_order s') \<le> gl_recent_receipts (gs_limits s')"
    "bt_get (gs_recent_receipts s') (rec_transaction_id r) = Some r"
    "bt_get (gs_loaded_chunks s') chunk =
       (if chunk \<in> set (bt_keys (psc_chunks pending))
        then map_option Suc (bt_get (gs_loaded_chunks (ap_state ap)) chunk)
        else bt_get (gs_loaded_chunks (ap_state ap)) chunk)"
    "\<exists>chunks order recent oldest. s' = (ap_state ap)\<lparr>gs_loaded_chunks := chunks,
        gs_observed_world_revision := Suc (gs_observed_world_revision (ap_state ap)),
        gs_pending_receipt := None, gs_receipt_order := order, gs_recent_receipts := recent,
        gs_oldest_replayable_world_revision := oldest\<rparr>"
    "gs_receipt_order s' = drop (Suc (length (gs_receipt_order (ap_state ap))) -
        gl_recent_receipts (gs_limits (ap_state ap)))
      (gs_receipt_order (ap_state ap) @ [rec_transaction_id r])"
    "tid \<noteq> rec_transaction_id r \<Longrightarrow> tid \<in> set (gs_receipt_order s') \<Longrightarrow>
       bt_get (gs_recent_receipts s') tid = bt_get (gs_recent_receipts (ap_state ap)) tid"
proof -
  let ?kvs = "map (\<lambda>cr. (cr_chunk cr, cr_revision cr)) (sr_chunks receipt)"
  let ?chunks = "foldl (\<lambda>m (chunk, revision). bt_insert chunk revision m)
     (gs_loaded_chunks (ap_state ap)) ?kvs"
  from retain_committed [OF inv pending r, of ?chunks] obtain t order recent oldest where
    t: "retain_finalized_receipt ((ap_state ap)\<lparr>gs_loaded_chunks := ?chunks,
        gs_observed_world_revision := Suc (gs_observed_world_revision (ap_state ap)),
        gs_pending_receipt := None\<rparr>) r = (t, Inr ())" "ledger_ok t"
    "t = (ap_state ap)\<lparr>gs_loaded_chunks := ?chunks,
        gs_observed_world_revision := Suc (gs_observed_world_revision (ap_state ap)),
        gs_pending_receipt := None, gs_receipt_order := order, gs_recent_receipts := recent,
        gs_oldest_replayable_world_revision := oldest\<rparr>"
    "length (gs_receipt_order t) \<le> gl_recent_receipts (gs_limits t)"
    "bt_get (gs_recent_receipts t) (rec_transaction_id r) = Some r"
    "gs_receipt_order t = drop (Suc (length (gs_receipt_order (ap_state ap))) -
        gl_recent_receipts (gs_limits (ap_state ap)))
      (gs_receipt_order (ap_state ap) @ [rec_transaction_id r])"
    "\<forall>tid. tid \<noteq> rec_transaction_id r \<longrightarrow> tid \<in> set (gs_receipt_order t) \<longrightarrow>
       bt_get (gs_recent_receipts t) tid = bt_get (gs_recent_receipts (ap_state ap)) tid" by blast
  have s': "s' = t" unfolding s'_def committed_state_def t(1) by simp
  from t show "ledger_ok s'" "gs_pending_receipt s' = None"
    "gs_observed_world_revision s' = Suc (gs_observed_world_revision (ap_state ap))"
    "gs_limits s' = gs_limits (ap_state ap)"
    "length (gs_receipt_order s') \<le> gl_recent_receipts (gs_limits s')"
    "bt_get (gs_recent_receipts s') (rec_transaction_id r) = Some r"
    unfolding s' by simp_all
  from t(3) show "\<exists>chunks order recent oldest. s' = (ap_state ap)\<lparr>gs_loaded_chunks := chunks,
        gs_observed_world_revision := Suc (gs_observed_world_revision (ap_state ap)),
        gs_pending_receipt := None, gs_receipt_order := order, gs_recent_receipts := recent,
        gs_oldest_replayable_world_revision := oldest\<rparr>" unfolding s' by blast
  from t(6,7) show "gs_receipt_order s' = drop (Suc (length (gs_receipt_order (ap_state ap))) -
        gl_recent_receipts (gs_limits (ap_state ap)))
      (gs_receipt_order (ap_state ap) @ [rec_transaction_id r])"
    "tid \<noteq> rec_transaction_id r \<Longrightarrow> tid \<in> set (gs_receipt_order s') \<Longrightarrow>
       bt_get (gs_recent_receipts s') tid = bt_get (gs_recent_receipts (ap_state ap)) tid"
    unfolding s' by blast+
  have keys: "map fst ?kvs = map cr_chunk (sr_chunks receipt)" by simp
  from ack have dist: "distinct (map fst ?kvs)"
    and dom: "fst ` set ?kvs = set (bt_keys (psc_chunks pending))"
    unfolding keys by (simp_all add: acknowledges_def image_image)
  have bumped: "bt_get (gs_loaded_chunks (ap_state ap)) chunk = Some previous \<and> revision = Suc previous"
    if "map_of ?kvs chunk = Some revision" "bt_get (gs_loaded_chunks (ap_state ap)) chunk = Some previous"
    for revision previous
    using that ack map_of_SomeD [OF that(1)] by (auto simp: acknowledges_def chunk_receipt_ok_def)
  have loaded: "bt_get (gs_loaded_chunks (ap_state ap)) chunk \<noteq> None"
    if "map_of ?kvs chunk = Some revision" for revision
    using ack map_of_SomeD [OF that] by (auto simp: acknowledges_def chunk_receipt_ok_def)
  have "gs_loaded_chunks s' = ?chunks" unfolding s' t(3) by simp
  then have get: "bt_get (gs_loaded_chunks s') chunk =
     (case map_of ?kvs chunk of Some v \<Rightarrow> Some v | None \<Rightarrow> bt_get (gs_loaded_chunks (ap_state ap)) chunk)"
    by (simp only: bt_get_insert_list [OF dist])
  show "bt_get (gs_loaded_chunks s') chunk =
       (if chunk \<in> set (bt_keys (psc_chunks pending))
        then map_option Suc (bt_get (gs_loaded_chunks (ap_state ap)) chunk)
        else bt_get (gs_loaded_chunks (ap_state ap)) chunk)"
  proof (cases "map_of ?kvs chunk")
    case None
    then have "chunk \<notin> set (bt_keys (psc_chunks pending))"
      unfolding map_of_eq_None_iff dom .
    with None get show ?thesis by simp
  next
    case (Some revision)
    then have "chunk \<in> set (bt_keys (psc_chunks pending))"
      using map_of_SomeD [OF Some] unfolding dom [symmetric] by force
    with Some get loaded [OF Some] bumped [OF Some] show ?thesis by auto
  qed
qed

lemma observe_cases:
  assumes inv: "applier_inv ap" and run: "observe_storage_commit sha ap receipt = (ap', res)"
  obtains (rejected) e where "res = Inl e" "ap' = ap"
    | (committed) pending r where "res = Inr ()" "ap_pending ap = Some pending"
      "gs_pending_receipt (ap_state ap) = Some r" "acknowledges ap pending receipt"
      "validate_loaded sha (ap_catalog ap) (committed_state (ap_state ap) r receipt) = Inr ()"
      "ap' = ap\<lparr>ap_state := committed_state (ap_state ap) r receipt, ap_pending := None\<rparr>"
proof (cases "observe_storage_receipt sha ap receipt")
  case (Inl e)
  with run rejected show thesis by (auto simp: observe_storage_commit_def)
next
  case (Inr next_ap)
  then obtain pending where pending: "ap_pending ap = Some pending"
    by (auto simp: observe_storage_receipt_def and_then_Inr ok_or_Inr)
  from receipt_side [OF inv pending] obtain r where r: "gs_pending_receipt (ap_state ap) = Some r" by blast
  from Inr run have "ap' = next_ap" "res = Inr ()" by (auto simp: observe_storage_commit_def)
  with Inr observe_storage_receipt_Inr [OF inv pending r] pending r committed show thesis by blast
qed

lemma observe_inv:
  assumes inv: "applier_inv ap" and run: "observe_storage_commit sha ap receipt = (ap', res)"
  shows "applier_inv ap'" "\<And>e. res = Inl e \<Longrightarrow> ap' = ap"
proof -
  have "applier_inv ap' \<and> (\<forall>e. res = Inl e \<longrightarrow> ap' = ap)"
    using inv run
  proof (cases rule: observe_cases)
    case (committed pending r)
    note fields = committed_state_fields [OF inv committed(2-4)]
    from inv have "0 < gl_recent_receipts (gs_limits (ap_state ap))"
      by (simp add: applier_inv_def Let_def)
    with fields committed(1,6) show ?thesis by (simp add: applier_inv_def Let_def)
  qed (use inv in auto)
  then show "applier_inv ap'" "\<And>e. res = Inl e \<Longrightarrow> ap' = ap" by blast+
qed

text \<open>A commit keeps the receipt of the pending transaction: it is answered as before.\<close>

lemma observe_answers:
  assumes inv: "applier_inv ap" and run: "observe_storage_commit sha ap receipt = (ap', Inr ())"
    and ans: "answers ap tid r" and pending: "ap_pending ap = Some pending"
      "psc_transaction_id pending = tid"
  shows "answers ap' tid r"
  using inv run
proof (cases rule: observe_cases)
  case (committed pending' r')
  note fields = committed_state_fields [OF inv committed(2-4)]
  from inv committed(2,3) pending have "rec_transaction_id r' = tid"
    by (auto simp: applier_inv_def Let_def)
  with ans committed(3) fields(2,6) committed(6) show ?thesis by (simp add: answers_def)
qed simp

subsection \<open>The applier as a state machine\<close>

text \<open>
  What the host may do to the loaded state between commands, through \<open>state_mut\<close>: seed
  and unload. It moves the observed revision forward only when no commit is pending.
\<close>

inductive host_step :: "gameplay_state \<Rightarrow> gameplay_state \<Rightarrow> bool" where
  host_chunk_edge: "set_chunk_edge s edge = Inr s' \<Longrightarrow> host_step s s'"
| host_revision: "gs_pending_receipt s = None \<Longrightarrow> observe_world_revision s revision = Inr s' \<Longrightarrow>
    host_step s s'"
| host_chunk: "seed_loaded_chunk s chunk revision = Inr s' \<Longrightarrow> host_step s s'"
| host_ensure: "ensure_loaded_chunk s chunk revision = Inr s' \<Longrightarrow> host_step s s'"
| host_release: "release_loaded_chunk s chunk = Inr (was_loaded, s') \<Longrightarrow> host_step s s'"
| host_player: "seed_player s player ivt = Inr s' \<Longrightarrow> host_step s s'"
| host_slot: "seed_player_slot s player slot v = Inr s' \<Longrightarrow> host_step s s'"
| host_container: "seed_container s cid con = Inr s' \<Longrightarrow> host_step s s'"
| host_block: "seed_block s key block = Inr s' \<Longrightarrow> host_step s s'"
| host_sync: "sync_occupied_block s key block = Inr s' \<Longrightarrow> host_step s s'"
| host_clear: "s' = clear_occupied_block s key \<Longrightarrow> host_step s s'"
| host_drop: "seed_drop s did d = Inr s' \<Longrightarrow> host_step s s'"
| host_continuation: "seed_continuation s fid fc = Inr s' \<Longrightarrow> host_step s s'"

inductive applier_step :: "digest_function \<Rightarrow> plan_applier \<Rightarrow> plan_applier \<Rightarrow> bool"
  for sha where
  step_execute: "execute sha ap env fault = (ap', res) \<Longrightarrow> applier_step sha ap ap'"
| step_apply: "apply_plan sha ap p fault = (ap', res) \<Longrightarrow> length (plan_edits p) \<le> usize_max \<Longrightarrow>
    applier_step sha ap ap'"
| step_observe: "observe_storage_commit sha ap receipt = (ap', res) \<Longrightarrow> applier_step sha ap ap'"
| step_host: "host_step (ap_state ap) s' \<Longrightarrow> applier_step sha ap (ap\<lparr>ap_state := s'\<rparr>)"

inductive applier_reachable :: "digest_function \<Rightarrow> plan_applier \<Rightarrow> bool" for sha where
  reach_new: "try_new_with_rules sha world s cat mode = Inr ap \<Longrightarrow> applier_reachable sha ap"
| reach_step: "applier_reachable sha ap \<Longrightarrow> applier_step sha ap ap' \<Longrightarrow> applier_reachable sha ap'"

inductive_cases host_stepE: "host_step s s'"
inductive_cases applier_stepE: "applier_step sha ap ap'"

definition ledger_view where
  "ledger_view s =
     (gs_observed_world_revision s, gs_recent_receipts s, gs_receipt_order s, gs_pending_receipt s,
      gs_oldest_replayable_world_revision s, gs_limits s)"

lemma set_chunk_edge_view: "set_chunk_edge s edge = Inr s' \<Longrightarrow> ledger_view s' = ledger_view s"
  by (auto simp: set_chunk_edge_def ledger_view_def and_then_Inr ok_or_Inr
      split: if_split_asm option.splits)

lemma seed_loaded_chunk_view: "seed_loaded_chunk s chunk revision = Inr s' \<Longrightarrow> ledger_view s' = ledger_view s"
  by (auto simp: seed_loaded_chunk_def ledger_view_def and_then_Inr ok_or_Inr
      split: if_split_asm option.splits)

lemma ensure_loaded_chunk_view: "ensure_loaded_chunk s chunk revision = Inr s' \<Longrightarrow> ledger_view s' = ledger_view s"
  by (auto simp: ensure_loaded_chunk_def seed_loaded_chunk_def ledger_view_def and_then_Inr ok_or_Inr
      split: if_split_asm option.splits)

lemma seed_player_view: "seed_player s player ivt = Inr s' \<Longrightarrow> ledger_view s' = ledger_view s"
  by (auto simp: seed_player_def ledger_view_def and_then_Inr ok_or_Inr
      split: if_split_asm option.splits)

lemma seed_player_slot_view: "seed_player_slot s player slot v = Inr s' \<Longrightarrow> ledger_view s' = ledger_view s"
  by (auto simp: seed_player_slot_def ledger_view_def and_then_Inr ok_or_Inr
      split: if_split_asm option.splits)

lemma seed_container_view: "seed_container s cid con = Inr s' \<Longrightarrow> ledger_view s' = ledger_view s"
  by (auto simp: seed_container_def ledger_view_def and_then_Inr ok_or_Inr
      split: if_split_asm option.splits)

lemma seed_block_view: "seed_block s key block = Inr s' \<Longrightarrow> ledger_view s' = ledger_view s"
  by (auto simp: seed_block_def ledger_view_def and_then_Inr ok_or_Inr
      split: if_split_asm option.splits)

lemma sync_occupied_block_view: "sync_occupied_block s key block = Inr s' \<Longrightarrow> ledger_view s' = ledger_view s"
  by (auto simp: sync_occupied_block_def seed_block_def ledger_view_def and_then_Inr ok_or_Inr
      split: if_split_asm option.splits)

lemma seed_drop_view: "seed_drop s did d = Inr s' \<Longrightarrow> ledger_view s' = ledger_view s"
  by (auto simp: seed_drop_def ledger_view_def and_then_Inr ok_or_Inr
      split: if_split_asm option.splits)

lemma seed_continuation_view: "seed_continuation s fid fc = Inr s' \<Longrightarrow> ledger_view s' = ledger_view s"
  by (auto simp: seed_continuation_def ledger_view_def and_then_Inr ok_or_Inr
      split: if_split_asm option.splits)

lemma release_loaded_chunk_view:
  "release_loaded_chunk s chunk = Inr (was_loaded, s') \<Longrightarrow> ledger_view s' = ledger_view s"
  by (auto simp: release_loaded_chunk_def ledger_view_def Let_def split: if_split_asm option.splits)

lemma clear_occupied_block_view: "ledger_view (clear_occupied_block s key) = ledger_view s"
  by (simp add: clear_occupied_block_def ledger_view_def)

lemmas host_views = set_chunk_edge_view seed_loaded_chunk_view ensure_loaded_chunk_view
  seed_player_view seed_player_slot_view seed_container_view
  seed_block_view sync_occupied_block_view seed_drop_view
  seed_continuation_view
  release_loaded_chunk_view

lemma host_step_view:
  assumes "host_step s s'"
  shows "ledger_view s' = ledger_view s \<or> (gs_pending_receipt s = None \<and>
    (\<exists>revision \<ge> gs_observed_world_revision s. s' = s\<lparr>gs_observed_world_revision := revision\<rparr>))"
  using assms
proof (cases rule: host_step.cases)
  case (host_revision revision)
  then show ?thesis by (auto simp: observe_world_revision_def not_less split: if_split_asm)
next
  case (host_clear key)
  then show ?thesis by (simp add: clear_occupied_block_view)
qed (blast dest: host_views)+

lemma host_step_bookkeeping:
  assumes "host_step s s'"
  shows "gs_recent_receipts s' = gs_recent_receipts s" "gs_receipt_order s' = gs_receipt_order s"
    "gs_pending_receipt s' = gs_pending_receipt s" "gs_limits s' = gs_limits s"
    "gs_oldest_replayable_world_revision s' = gs_oldest_replayable_world_revision s"
    "gs_observed_world_revision s \<le> gs_observed_world_revision s'"
    "gs_pending_receipt s \<noteq> None \<Longrightarrow> gs_observed_world_revision s' = gs_observed_world_revision s"
  using host_step_view [OF assms] by (auto simp: ledger_view_def)

lemma host_inv:
  assumes inv: "applier_inv ap" and host: "host_step (ap_state ap) s'"
  shows "applier_inv (ap\<lparr>ap_state := s'\<rparr>)"
proof -
  note h = host_step_bookkeeping [OF host]
  have "ledger_ok s'"
    by (rule ledger_ok_mono [OF _ h(1,2,5,6)]) (use inv in \<open>simp add: applier_inv_def Let_def\<close>)
  with inv h show ?thesis
    by (cases "ap_pending ap") (auto simp: applier_inv_def Let_def)
qed

lemma applier_step_inv: "applier_step sha ap ap' \<Longrightarrow> applier_inv ap \<Longrightarrow> applier_inv ap'"
  by (erule applier_stepE)
    (use execute_inv(1) apply_plan_spec(1) observe_inv(1) host_inv in blast)+

lemma try_new_inv:
  assumes "try_new_with_rules sha world s cat mode = Inr ap"
  shows "applier_inv ap"
proof -
  from assms have loaded: "validate_loaded sha cat s = Inr ()" and none: "gs_pending_receipt s = None"
    and ap: "ap_state ap = s" "ap_pending ap = None"
    by (auto simp: try_new_with_rules_def and_then_Inr split: option.splits)
  from validate_loaded_parts(2) [OF loaded] have ok: "ledger_ok s"
    by (simp add: validate_retry_ledger_iff)
  from validate_loaded_parts(1) [OF loaded]
  obtain lim where lim: "validate_gameplay_limits (gs_limits s) = Inr lim"
    and len: "bt_len (gs_recent_receipts s) \<le> gl_recent_receipts (gs_limits s)"
    by (auto simp: validate_collection_limits_def Let_def and_then_Inr try_each_Inr not_less
        split: if_split_asm)
  from lim have "0 < gl_recent_receipts (gs_limits s)"
    by (simp add: validate_gameplay_limits_def and_then_Inr try_each_Inr split: if_split_asm)
  moreover note len
  moreover have "length (gs_receipt_order s) = bt_len (gs_recent_receipts s)"
  proof -
    from ok have "set (bt_keys (gs_recent_receipts s)) = set (gs_receipt_order s)"
      "distinct (gs_receipt_order s)" unfolding ledger_ok_def by blast+
    then show ?thesis by (metis distinct_card bt_keys_distinct bt_len_keys)
  qed
  ultimately show ?thesis using ok none ap by (simp add: applier_inv_def Let_def)
qed

lemma applier_reachable_inv: "applier_reachable sha ap \<Longrightarrow> applier_inv ap"
  by (induction rule: applier_reachable.induct) (auto intro: try_new_inv applier_step_inv)

end
