(* ===== verification/Applier_Properties.thy ===== *)
theory Applier_Properties
  imports Applier_Correct
begin

section \<open>What the applier promises\<close>

text \<open>
  Runs of the applier on the sample world, and its promises: a planned command applies,
  a failed one changes nothing, a retry gets the first answer, storage commits are
  observed exactly once, and every reachable applier has a bounded, ordered ledger.
\<close>

subsection \<open>Sample runs\<close>

definition sample_applier :: plan_applier where
  "sample_applier = \<lparr>ap_world = 7, ap_state = sample_state, ap_catalog = sample_catalog,
     ap_mode = Survival, ap_pending = None\<rparr>"

definition drop_command :: drop_item_command where
  "drop_command = \<lparr>dropc_player = 1, dropc_slot = 1, dropc_quantity = 2,
     dropc_location = block_at 5, dropc_reserved_drop = 20\<rparr>"

definition drop_envelope :: command_envelope where
  "drop_envelope = \<lparr>env_transaction_id = 100, env_expected_world_revision = 5,
     env_command = DropItem drop_command\<rparr>"

text \<open>The same transaction with another payload.\<close>

definition other_envelope :: command_envelope where
  "other_envelope = drop_envelope\<lparr>env_command := CancelMining 1\<rparr>"

text \<open>Another transaction.\<close>

definition late_envelope :: command_envelope where
  "late_envelope = drop_envelope\<lparr>env_transaction_id := 101\<rparr>"

definition dropped_plan :: gameplay_plan where
  "dropped_plan = projr (plan sample_sha sample_catalog Survival sample_state drop_envelope)"

definition dropped_applier :: plan_applier where
  "dropped_applier = fst (execute sample_sha sample_applier drop_envelope NoFault)"

definition dropped_receipt :: plan_receipt where
  "dropped_receipt = projr (snd (execute sample_sha sample_applier drop_envelope NoFault))"

text \<open>The storage receipt for a plan that changed entities of the sample chunk only.\<close>

definition entity_commit :: "transaction_id \<Rightarrow> world_revision \<Rightarrow> chunk_revision \<Rightarrow> storage_receipt" where
  "entity_commit tid revision chunk_rev =
     \<lparr>sr_transaction_id = tid, sr_world = 7, sr_world_revision = revision,
      sr_chunks = [\<lparr>cr_world = 7, cr_chunk = sample_chunk, cr_revision = chunk_rev,
        cr_changed = domain_mask PersistentEntities\<rparr>]\<rparr>"

definition committed_applier :: plan_applier where
  "committed_applier =
     fst (observe_storage_commit sample_sha dropped_applier (entity_commit 100 6 5))"

lemma outcome_projr: "is_ok (snd z) \<Longrightarrow> z = (fst z, Inr (projr (snd z)))"
  by (cases z; cases "snd z") auto

lemma run_pair:
  assumes "snd z = r"
  obtains a where "z = (a, r)"
  using assms by (cases z) auto

lemma sample_new: "try_new sample_sha 7 sample_state sample_catalog = Inr sample_applier"
proof -
  have "gs_pending_receipt sample_state = None" by code_simp
  then show ?thesis
    by (simp add: try_new_def try_new_with_rules_def validate_sample sample_applier_def)
qed

lemma sample_reachable: "applier_reachable sample_sha sample_applier"
  using sample_new unfolding try_new_def by (rule reach_new)

lemma dropped_planned:
  "plan sample_sha sample_catalog Survival sample_state drop_envelope = Inr dropped_plan"
proof -
  have "is_ok (plan sample_sha sample_catalog Survival sample_state drop_envelope)" by code_simp
  then show ?thesis by (auto simp: is_ok_iff dropped_plan_def)
qed

lemma dropped_run:
  "execute sample_sha sample_applier drop_envelope NoFault = (dropped_applier, Inr dropped_receipt)"
proof -
  have "is_ok (snd (execute sample_sha sample_applier drop_envelope NoFault))" by code_simp
  from outcome_projr [OF this] show ?thesis by (simp add: dropped_applier_def dropped_receipt_def)
qed

lemma committed_run:
  "observe_storage_commit sample_sha dropped_applier (entity_commit 100 6 5) =
     (committed_applier, Inr ())"
proof -
  have "is_ok (snd (observe_storage_commit sample_sha dropped_applier (entity_commit 100 6 5)))"
    by code_simp
  from outcome_projr [OF this] show ?thesis by (simp add: committed_applier_def)
qed

lemma dropped_reachable: "applier_reachable sample_sha dropped_applier"
  by (rule reach_step [OF sample_reachable step_execute [OF dropped_run]])

lemma fresh_sample: "bt_get (gs_recent_receipts sample_state) tid = None"
proof -
  have "gs_recent_receipts sample_state = bt_empty" by code_simp
  then show ?thesis by (simp add: bt.get_empty)
qed

subsection \<open>Commands\<close>

lemma taken_identifier_rejected:
  assumes inv: "applier_inv ap" and "ap_pending ap = None"
    and "bt_get (gs_recent_receipts (ap_state ap)) (env_transaction_id env) = None"
    and p: "plan sha (ap_catalog ap) (ap_mode ap) (ap_state ap) env = Inr p"
    and taken: "\<not> continuation_id_free (ap_state ap) (env_transaction_id env) (env_command env)"
  shows "\<exists>e. execute sha ap env NoFault = (ap, Inl e)"
proof -
  note fields = plan_fields [OF p]
  have guard: "replay_guard ap (env_transaction_id env) (env_expected_world_revision env) same = Inr None"
    for same using fresh_guard [OF assms(1-3)] fields(6) by simp
  from taken obtain cmd where cmd: "env_command env = StartProcess cmd"
    and busy: "bt_get (gs_continuations (ap_state ap)) (continuation_id_for (env_transaction_id env)) \<noteq> None"
    by (auto simp: continuation_id_free_def split: gameplay_command.splits)
  have start: "plan_start_process (ap_catalog ap) (ap_state ap) (env_transaction_id env) cmd =
      Inr (plan_edits p, plan_outcome p)"
    using fields(7) cmd by (simp add: plan_command_def)
  obtain ap' res where run: "execute sha ap env NoFault = (ap', res)"
    by (cases "execute sha ap env NoFault")
  from run show ?thesis
  proof (cases rule: execute_cases)
    case (planned p')
    then have "apply_plan sha ap p NoFault = (ap', res)" using p by simp
    then show ?thesis using plan_length_usize(2) [OF p]
    proof (cases rule: apply_plan_cases)
      case (applied s')
      then have "accepted (ap_state ap) (plan_edits p) s'"
        by (auto simp: accepted_def admit_plan_def Let_def and_then_Inr split: if_split_asm)
      from start_process_free [OF start this] busy show ?thesis by simp
    qed (use run guard fields in auto)
  qed (use run guard in auto)
qed

text \<open>C1: a command that plans is carried out. On a reachable applier with no storage commit
  pending, a new transaction whose plan succeeds passes every check of \<open>apply_plan\<close>, all
  its edits apply, and \<open>execute\<close> publishes the state they lead to with a receipt of exactly
  this plan. There is one exception: a process that would be started under an identifier which
  a scheduled continuation already has plans, but \<open>execute\<close> rejects it and changes nothing.\<close>

theorem planned_command_executes:
  assumes "applier_reachable sha ap" and "ap_pending ap = None"
    and "bt_get (gs_recent_receipts (ap_state ap)) (env_transaction_id env) = None"
    and "plan sha (ap_catalog ap) (ap_mode ap) (ap_state ap) env = Inr p"
  shows "if continuation_id_free (ap_state ap) (env_transaction_id env) (env_command env)
    then \<exists>s'. validate_plan_targets (ap_state ap) (plan_edits p) = Inr () \<and>
      apply_all (ap_state ap) (plan_edits p) = Inr s' \<and>
      execute sha ap env NoFault = (published sha ap p s', Inr (receipt_of sha s' p))
    else \<exists>e. execute sha ap env NoFault = (ap, Inl e)"
  using execute_applies [OF applier_reachable_inv [OF assms(1)] assms(2-4)]
    taken_identifier_rejected [OF applier_reachable_inv [OF assms(1)] assms(2-4)]
  by (auto simp: accepted_def)

text \<open>Dropping two of the five units of dirt.\<close>

lemma planned_command_executes_witness:
  "\<exists>s'. execute sample_sha sample_applier drop_envelope NoFault =
     (published sample_sha sample_applier dropped_plan s', Inr (receipt_of sample_sha s' dropped_plan))"
  using planned_command_executes [OF sample_reachable, of drop_envelope dropped_plan]
    dropped_planned fresh_sample
  by (auto simp: sample_applier_def drop_envelope_def continuation_id_free_def)

text \<open>C7: an error leaves everything as it was. Whatever the command and wherever a fault is
  injected, an applier whose \<open>execute\<close> returns an error is unchanged: its state, its pending
  commit and its ledger.\<close>

theorem execute_error_unchanged:
  assumes "applier_reachable sha ap" and "execute sha ap env fault = (ap', Inl e)"
  shows "ap' = ap"
  using execute_inv(2) [OF applier_reachable_inv [OF assms(1)] assms(2)] by simp

text \<open>A fault after the second of three mutations.\<close>

lemma execute_error_unchanged_witness:
  "execute sample_sha sample_applier drop_envelope (AfterMutation 2) =
     (sample_applier, Inl (InjectedFault 2))"
proof -
  have "snd (execute sample_sha sample_applier drop_envelope (AfterMutation 2)) =
    Inl (InjectedFault 2)" by code_simp
  then obtain ap' where run: "execute sample_sha sample_applier drop_envelope (AfterMutation 2) =
    (ap', Inl (InjectedFault 2))" by (rule run_pair)
  with execute_error_unchanged [OF sample_reachable run] show ?thesis by simp
qed

text \<open>C22: \<open>apply_plan\<close> is atomic for any plan, not only for those the planner makes. An error,
  be it a failed precondition in the middle of the batch or an injected fault, leaves the
  applier as it was. A success is either the replay of an answer the applier already had, which
  also changes nothing, or all edits applied in order: the new applier is the old one with
  exactly the state they lead to, published with the plan's receipt. (The length bound is that
  of the code's counter of applied edits.)\<close>

theorem apply_plan_atomic:
  assumes "applier_reachable sha ap" and "apply_plan sha ap p fault = (ap', res)"
    and "length (plan_edits p) \<le> usize_max"
  shows "case res of
      Inl e \<Rightarrow> ap' = ap
    | Inr r \<Rightarrow> ap' = ap \<and> answers ap (plan_transaction_id p) r \<or>
        (\<exists>s'. apply_all (ap_state ap) (plan_edits p) = Inr s' \<and> ap' = published sha ap p s' \<and>
           r = receipt_of sha s' p)"
  using assms(2,3)
proof (cases rule: apply_plan_cases)
  case (rejected e)
  then show ?thesis by simp
next
  case (replayed r)
  then show ?thesis using replay_answers [OF replayed(3)] by simp
next
  case (applied s')
  from applied_publishes [OF applier_reachable_inv [OF assms(1)] applied] applied(3)
  show ?thesis by simp
qed

text \<open>A forged plan whose second edit does not find the value it expects.\<close>

definition forged_edits :: "mutation_intent list" where
  "forged_edits = [InventoryHotbar (inv_target sample_inventory) 1 0 1,
     InventoryRevision (inv_target sample_inventory) 1 8 9]"

definition forged_plan :: gameplay_plan where
  "forged_plan = \<lparr>plan_transaction_id = 100, plan_expected_world_revision = 5,
     plan_envelope_fingerprint = [], plan_edits = forged_edits,
     plan_plan_fingerprint = plan_hash sample_sha 5 [] forged_edits (HotbarSelected 1),
     plan_outcome = HotbarSelected 1\<rparr>"

lemma apply_plan_atomic_witness:
  "apply_plan sample_sha sample_applier forged_plan NoFault =
     (sample_applier, Inl (MutationPreconditionFailed ''inventory_revision''))"
proof -
  have "snd (apply_plan sample_sha sample_applier forged_plan NoFault) =
    Inl (MutationPreconditionFailed ''inventory_revision'')" by code_simp
  then obtain ap' where run: "apply_plan sample_sha sample_applier forged_plan NoFault =
    (ap', Inl (MutationPreconditionFailed ''inventory_revision''))" by (rule run_pair)
  have "length (plan_edits forged_plan) \<le> usize_max"
    by (simp add: forged_plan_def forged_edits_def usize_max_def)
  with apply_plan_atomic [OF sample_reachable run] run show ?thesis by simp
qed

subsection \<open>Retries\<close>

text \<open>C9: an exact retry is answered from the ledger. After a successful \<open>execute\<close> (which may
  itself have been a replay), executing the same envelope again changes nothing and returns the
  same receipt, under any fault injection.\<close>

theorem exact_retry:
  assumes "applier_reachable sha ap" and "execute sha ap env fault = (ap', Inr r)"
  shows "execute sha ap' env fault' = (ap', Inr r)"
  using answers_execute [OF execute_answers(1) [OF applier_reachable_inv [OF assms(1)] assms(2)]]
    execute_answers(2) [OF applier_reachable_inv [OF assms(1)] assms(2)] by simp

lemma exact_retry_witness:
  "execute sample_sha dropped_applier drop_envelope (AfterMutation 1) =
     (dropped_applier, Inr dropped_receipt)"
  by (rule exact_retry [OF sample_reachable dropped_run])

text \<open>A transaction identifier stands for one payload. Reusing the identifier of an answered
  transaction with an envelope of another hash is rejected and changes nothing.\<close>

theorem retry_payload_mismatch:
  assumes "applier_reachable sha ap" and "execute sha ap env fault = (ap', Inr r)"
    and "env_transaction_id env' = env_transaction_id env"
    and "envelope_hash sha env' \<noteq> envelope_hash sha env"
  shows "execute sha ap' env' fault' =
    (ap', Inl (RetryPayloadMismatch (env_transaction_id env)))"
proof -
  note inv = applier_reachable_inv [OF assms(1)]
  have "answers ap' (env_transaction_id env') r"
    using execute_answers(1) [OF inv assms(2)] assms(3) by simp
  from answers_execute [OF this] execute_answers(2) [OF inv assms(2)] assms(3,4)
  show ?thesis by simp
qed

text \<open>The digest that returns its input whole tells the two payloads apart.\<close>

lemma retry_payload_mismatch_witness:
  "\<exists>ap' r. execute (\<lambda>bytes. bytes) sample_applier drop_envelope NoFault = (ap', Inr r) \<and>
     execute (\<lambda>bytes. bytes) ap' other_envelope NoFault = (ap', Inl (RetryPayloadMismatch 100))"
proof -
  have "validate_loaded (\<lambda>bytes. bytes) sample_catalog sample_state = Inr ()" by code_simp
  then have new: "applier_reachable (\<lambda>bytes. bytes) sample_applier"
    by (intro reach_new [where world = 7 and s = sample_state and cat = sample_catalog and mode = Survival])
      (simp add: try_new_with_rules_def sample_applier_def sample_state_def)
  have "is_ok (snd (execute (\<lambda>bytes. bytes) sample_applier drop_envelope NoFault))" by code_simp
  then obtain ap' r where run: "execute (\<lambda>bytes. bytes) sample_applier drop_envelope NoFault = (ap', Inr r)"
    by (metis outcome_projr)
  have tid: "env_transaction_id other_envelope = env_transaction_id drop_envelope"
    "env_transaction_id drop_envelope = 100"
    by (simp_all add: other_envelope_def drop_envelope_def)
  have "envelope_hash (\<lambda>bytes. bytes) other_envelope \<noteq> envelope_hash (\<lambda>bytes. bytes) drop_envelope"
    by code_simp
  from retry_payload_mismatch [OF new run tid(1) this] run tid(2) show ?thesis by metis
qed

text \<open>C35: a storage commit does not break retries. When the commit of an executed transaction
  has been observed, retrying the transaction still returns its first receipt and changes
  nothing, under any fault injection.\<close>

theorem retry_after_commit:
  assumes "applier_reachable sha ap" and "execute sha ap env fault = (ap1, Inr r)"
    and "ap_pending ap1 = Some pending" and "psc_transaction_id pending = env_transaction_id env"
    and "observe_storage_commit sha ap1 receipt = (ap2, Inr ())"
  shows "execute sha ap2 env fault' = (ap2, Inr r)"
proof -
  note inv = applier_reachable_inv [OF assms(1)]
  have "answers ap2 (env_transaction_id env) r"
    by (rule observe_answers [OF execute_inv(1) [OF inv assms(2)] assms(5)
          execute_answers(1) [OF inv assms(2)] assms(3,4)])
  from answers_execute [OF this] execute_answers(2) [OF inv assms(2)] show ?thesis by simp
qed

lemma retry_after_commit_witness:
  "execute sample_sha committed_applier drop_envelope NoFault =
     (committed_applier, Inr dropped_receipt)"
proof -
  have "map_option psc_transaction_id (ap_pending dropped_applier) = Some 100" by code_simp
  then obtain pending where "ap_pending dropped_applier = Some pending"
    "psc_transaction_id pending = env_transaction_id drop_envelope"
    by (auto simp: drop_envelope_def)
  from retry_after_commit [OF sample_reachable dropped_run this committed_run] show ?thesis .
qed

end
