(* ===== verification/Commit_Properties.thy ===== *)
theory Commit_Properties
  imports Applier_Properties
begin

section \<open>The ledger and the storage handshake\<close>

text \<open>
  What the load barrier's ledger check decides, the invariant of every reachable applier,
  the barrier that a pending commit puts before new commands, and when a storage receipt
  is accepted and what it changes.
\<close>

subsection \<open>The ledger\<close>

text \<open>\<open>validate_retry_ledger\<close> decides the ledger invariant. Its loop accepts a state exactly
  when every identifier in the order occurs once and owns one stored receipt, no receipt is of
  the future, the receipts are ordered by the revision they observed, the oldest replayable
  revision is that of the first one, and a pending receipt is of the current revision and not
  yet in the ledger.\<close>

theorem ledger_check_exact:
  "validate_retry_ledger s = Inr () \<longleftrightarrow> ledger_ok s \<and> pending_ok s"
  by (rule validate_retry_ledger_iff)

text \<open>C24: every reachable applier keeps its ledger well formed and within the configured number
  of receipts, and its pending storage commit and the state's pending receipt are the two halves
  of one transaction at the observed revision. Steps are commands and plans (with faults),
  storage receipts of any content, and the host's seeding and unloading.\<close>

theorem reachable_ledger:
  assumes "applier_reachable sha ap"
  shows "ledger_ok (ap_state ap) \<and>
    length (gs_receipt_order (ap_state ap)) \<le> gl_recent_receipts (gs_limits (ap_state ap)) \<and>
    (case (ap_pending ap, gs_pending_receipt (ap_state ap)) of
       (None, None) \<Rightarrow> True
     | (Some pending, Some r) \<Rightarrow> rec_transaction_id r = psc_transaction_id pending \<and>
         rec_observed_world_revision r = gs_observed_world_revision (ap_state ap) \<and>
         psc_base_world_revision pending = gs_observed_world_revision (ap_state ap) \<and>
         rec_transaction_id r \<notin> set (gs_receipt_order (ap_state ap))
     | _ \<Rightarrow> False)"
  using applier_reachable_inv [OF assms]
  by (auto simp: applier_inv_def Let_def split: option.splits)

text \<open>After a command that awaits its storage commit.\<close>

lemma reachable_ledger_witness: "ledger_ok (ap_state dropped_applier)"
  using reachable_ledger [OF dropped_reachable] by simp

subsection \<open>The barrier\<close>

text \<open>C38: while a storage commit is pending, no other new transaction gets through. A command of
  another transaction that the ledger does not know is rejected, with the pending transaction
  or with the expired retry window, and changes nothing.\<close>

theorem pending_commit_barrier:
  assumes "applier_reachable sha ap" and "ap_pending ap = Some pending"
    and "env_transaction_id env \<noteq> psc_transaction_id pending"
    and "bt_get (gs_recent_receipts (ap_state ap)) (env_transaction_id env) = None"
  shows "\<exists>e. execute sha ap env fault = (ap, Inl e) \<and>
    e \<in> {StorageCommitPending (psc_transaction_id pending) (gs_observed_world_revision (ap_state ap)),
         RetryWindowExpired (env_transaction_id env)
           (gs_oldest_replayable_world_revision (ap_state ap))}"
proof -
  from applier_reachable_inv [OF assms(1)] assms(2) obtain r where
    "gs_pending_receipt (ap_state ap) = Some r" "rec_transaction_id r = psc_transaction_id pending"
    by (auto simp: applier_inv_def Let_def)
  with assms(2-4) show ?thesis by (auto simp: execute_def replay_guard_def Let_def)
qed

lemma pending_commit_barrier_witness:
  "\<exists>e. execute sample_sha dropped_applier late_envelope NoFault = (dropped_applier, Inl e)"
proof -
  have "map_option psc_transaction_id (ap_pending dropped_applier) = Some 100"
    "bt_len (gs_recent_receipts (ap_state dropped_applier)) = 0" by code_simp+
  then obtain pending where p: "ap_pending dropped_applier = Some pending"
    "psc_transaction_id pending = 100" and len: "bt_len (gs_recent_receipts (ap_state dropped_applier)) = 0"
    by auto
  have fresh: "bt_get (gs_recent_receipts (ap_state dropped_applier)) 101 = None"
    using len bt_contains_keys [of 101 "gs_recent_receipts (ap_state dropped_applier)"]
    by (simp add: bt_len_keys)
  have tid: "env_transaction_id late_envelope = 101" by (simp add: late_envelope_def)
  show ?thesis
    using pending_commit_barrier [OF dropped_reachable p(1), of late_envelope NoFault] p(2) fresh tid
    by auto
qed

subsection \<open>Observing a commit\<close>

lemma observe_storage_commit_decides:
  assumes "applier_reachable sha ap" and "ap_pending ap = Some pending"
    and "gs_pending_receipt (ap_state ap) = Some r" and "acknowledges ap pending receipt"
  shows "if validate_loaded sha (ap_catalog ap) (committed_state (ap_state ap) r receipt) = Inr ()
    then observe_storage_commit sha ap receipt =
      (ap\<lparr>ap_state := committed_state (ap_state ap) r receipt, ap_pending := None\<rparr>, Inr ())
    else \<exists>e. observe_storage_commit sha ap receipt = (ap, Inl e)"
proof (cases "observe_storage_receipt sha ap receipt")
  case (Inl e)
  with observe_storage_receipt_Inr [OF applier_reachable_inv [OF assms(1)] assms(2,3), of sha receipt]
    assms(4)
  show ?thesis by (auto simp: observe_storage_commit_def)
next
  case (Inr ap')
  then have "validate_loaded sha (ap_catalog ap) (committed_state (ap_state ap) r receipt) = Inr () \<and>
      ap' = ap\<lparr>ap_state := committed_state (ap_state ap) r receipt, ap_pending := None\<rparr>"
    using observe_storage_receipt_Inr [OF applier_reachable_inv [OF assms(1)] assms(2,3)] by blast
  with Inr show ?thesis by (simp add: observe_storage_commit_def)
qed

text \<open>C10: a storage receipt is accepted exactly when it acknowledges the pending plan and the
  committed state loads: right world and transaction, the next world revision, one chunk
  receipt for each pending chunk and no other, each at the next chunk revision and covering
  the domains the plan changed. Anything else is rejected and changes nothing.\<close>

theorem commit_iff_acknowledged:
  assumes "applier_reachable sha ap" and "ap_pending ap = Some pending"
    and "gs_pending_receipt (ap_state ap) = Some r"
    and "s' = committed_state (ap_state ap) r receipt"
  shows "if acknowledges ap pending receipt \<and> validate_loaded sha (ap_catalog ap) s' = Inr ()
    then observe_storage_commit sha ap receipt = (ap\<lparr>ap_state := s', ap_pending := None\<rparr>, Inr ())
    else \<exists>e. observe_storage_commit sha ap receipt = (ap, Inl e)"
proof (cases "observe_storage_receipt sha ap receipt")
  case (Inl e)
  with observe_storage_receipt_Inr [OF applier_reachable_inv [OF assms(1)] assms(2,3), of sha receipt]
  show ?thesis by (auto simp: observe_storage_commit_def assms(4))
next
  case (Inr ap')
  then have "acknowledges ap pending receipt \<and> validate_loaded sha (ap_catalog ap) s' = Inr () \<and>
      ap' = ap\<lparr>ap_state := s', ap_pending := None\<rparr>"
    using observe_storage_receipt_Inr [OF applier_reachable_inv [OF assms(1)] assms(2,3)]
    unfolding assms(4) by blast
  with Inr show ?thesis by (simp add: observe_storage_commit_def)
qed

lemma dropped_pending_parts:
  obtains pending r where "ap_pending dropped_applier = Some pending"
    "gs_pending_receipt (ap_state dropped_applier) = Some r"
proof -
  have "ap_pending dropped_applier \<noteq> None" "gs_pending_receipt (ap_state dropped_applier) \<noteq> None"
    by code_simp+
  with that show thesis by blast
qed

lemma commit_iff_acknowledged_witness:
  "\<exists>pending. ap_pending dropped_applier = Some pending \<and>
     acknowledges dropped_applier pending (entity_commit 100 6 5)"
proof -
  obtain pending r where p: "ap_pending dropped_applier = Some pending"
    "gs_pending_receipt (ap_state dropped_applier) = Some r" by (rule dropped_pending_parts)
  from commit_iff_acknowledged [OF dropped_reachable p refl, of "entity_commit 100 6 5"]
    committed_run p(1) show ?thesis by (auto split: if_split_asm)
qed

text \<open>The retry ledger after an accepted commit: the receipts the order still names, each as it was,
  with the committed one among them.\<close>

lemma committed_ledger:
  assumes inv: "applier_inv ap" and pending: "ap_pending ap = Some pending"
    and r: "gs_pending_receipt (ap_state ap) = Some r" and ack: "acknowledges ap pending receipt"
  defines "s' \<equiv> committed_state (ap_state ap) r receipt"
  shows "bt_get (gs_recent_receipts s') tid =
    (if tid \<notin> set (gs_receipt_order s') then None
     else if tid = rec_transaction_id r then Some r
     else bt_get (gs_recent_receipts (ap_state ap)) tid)"
proof -
  note f = committed_state_fields [OF inv pending r ack, folded s'_def]
  have "set (bt_keys (gs_recent_receipts s')) = set (gs_receipt_order s')"
    using f(1) by (simp add: ledger_ok_def)
  then have "bt_get (gs_recent_receipts s') tid \<noteq> None \<longleftrightarrow> tid \<in> set (gs_receipt_order s')"
    using bt_contains_keys [of tid "gs_recent_receipts s'"] by auto
  with f(6) f(10) [of tid] show ?thesis by auto
qed

lemma committed_state_eq:
  assumes "applier_inv ap" "ap_pending ap = Some pending" "gs_pending_receipt (ap_state ap) = Some r"
    "acknowledges ap pending receipt"
  defines "s' \<equiv> committed_state (ap_state ap) r receipt"
  shows "s' = (ap_state ap)\<lparr>gs_loaded_chunks := gs_loaded_chunks s',
    gs_observed_world_revision := Suc (gs_observed_world_revision (ap_state ap)),
    gs_pending_receipt := None, gs_receipt_order := gs_receipt_order s',
    gs_recent_receipts := gs_recent_receipts s',
    gs_oldest_replayable_world_revision := gs_oldest_replayable_world_revision s'\<rparr>"
  using committed_state_fields(8) [OF assms(1-4)] unfolding s'_def by force

text \<open>C36: what an accepted commit does to the applier, in full. The barrier is lifted and the
  world, the catalog and the mode stay. In the state the world revision advances by one, and so
  does the revision of exactly the chunks the plan changed. The receipt of the plan goes to
  the end of the retry ledger, which keeps the newest receipts up to its limit, each
  unchanged, and forgets the older ones; the oldest replayable revision is that of the first
  receipt kept. Every other field (inventories, blocks, drops, containers, progress,
  continuations, limits) is as it was.\<close>

theorem commit_effect:
  assumes "applier_reachable sha ap" and "ap_pending ap = Some pending"
    and "gs_pending_receipt (ap_state ap) = Some r"
    and "observe_storage_commit sha ap receipt = (ap', Inr ())"
  shows "let s = ap_state ap; s' = ap_state ap';
      order = gs_receipt_order s @ [rec_transaction_id r];
      kept = drop (length order - gl_recent_receipts (gs_limits s)) order in
    ap' = ap\<lparr>ap_state := s', ap_pending := None\<rparr> \<and>
    s' = s\<lparr>gs_loaded_chunks := gs_loaded_chunks s',
      gs_observed_world_revision := Suc (gs_observed_world_revision s),
      gs_pending_receipt := None, gs_receipt_order := kept,
      gs_recent_receipts := gs_recent_receipts s',
      gs_oldest_replayable_world_revision :=
        (case kept of [] \<Rightarrow> 0 | first # _ \<Rightarrow> receipt_revision s' first)\<rparr> \<and>
    (\<forall>chunk. bt_get (gs_loaded_chunks s') chunk =
       (if chunk \<in> set (bt_keys (psc_chunks pending))
        then map_option Suc (bt_get (gs_loaded_chunks s) chunk)
        else bt_get (gs_loaded_chunks s) chunk)) \<and>
    rec_transaction_id r \<in> set kept \<and>
    (\<forall>tid. bt_get (gs_recent_receipts s') tid =
       (if tid \<notin> set kept then None
        else if tid = rec_transaction_id r then Some r
        else bt_get (gs_recent_receipts s) tid))"
  using applier_reachable_inv [OF assms(1)] assms(4)
proof (cases rule: observe_cases)
  case (committed pending' r')
  with assms(2,3) have ids: "pending' = pending" "r' = r" by simp_all
  define s where "s = ap_state ap"
  define s' where "s' = committed_state s r receipt"
  define kept where "kept = drop (Suc (length (gs_receipt_order s)) - gl_recent_receipts (gs_limits s))
    (gs_receipt_order s @ [rec_transaction_id r])"
  note inv = applier_reachable_inv [OF assms(1)]
  note acked = assms(2,3) committed(4) [unfolded ids]
  note f = committed_state_fields [OF inv acked, folded s_def, folded s'_def]
  have order: "gs_receipt_order s' = kept" using f(9) by (simp add: kept_def)
  have ap': "ap' = ap\<lparr>ap_state := s', ap_pending := None\<rparr>"
    using committed(6) unfolding ids s'_def s_def .
  have ledger: "bt_get (gs_recent_receipts s') tid = (if tid \<notin> set kept then None
      else if tid = rec_transaction_id r then Some r else bt_get (gs_recent_receipts s) tid)" for tid
    using committed_ledger [OF inv acked, of tid, folded s_def, folded s'_def] unfolding order .
  have "rec_transaction_id r \<in> set kept"
    using ledger [of "rec_transaction_id r"] f(6) by (auto split: if_split_asm)
  moreover have "gs_oldest_replayable_world_revision s' =
      (case kept of [] \<Rightarrow> 0 | first # _ \<Rightarrow> receipt_revision s' first)"
    using f(1) unfolding ledger_ok_def order by blast
  then have "s' = s\<lparr>gs_loaded_chunks := gs_loaded_chunks s',
      gs_observed_world_revision := Suc (gs_observed_world_revision s),
      gs_pending_receipt := None, gs_receipt_order := kept, gs_recent_receipts := gs_recent_receipts s',
      gs_oldest_replayable_world_revision :=
        (case kept of [] \<Rightarrow> 0 | first # _ \<Rightarrow> receipt_revision s' first)\<rparr>"
    using committed_state_eq [OF inv acked, folded s_def, folded s'_def] unfolding order by simp
  ultimately show ?thesis
    using ap' f(7) ledger by (simp add: Let_def s_def kept_def)
qed simp

lemma commit_effect_witness:
  "gs_observed_world_revision (ap_state committed_applier) =
     Suc (gs_observed_world_revision (ap_state dropped_applier))"
proof -
  obtain pending r where p: "ap_pending dropped_applier = Some pending"
    "gs_pending_receipt (ap_state dropped_applier) = Some r" by (rule dropped_pending_parts)
  have "gs_observed_world_revision (s\<lparr>gs_loaded_chunks := a, gs_observed_world_revision := b,
      gs_pending_receipt := c, gs_receipt_order := d, gs_recent_receipts := e,
      gs_oldest_replayable_world_revision := f\<rparr>) = b" for s :: gameplay_state and a b c d e f by simp
  with commit_effect [OF dropped_reachable p committed_run] show ?thesis
    unfolding Let_def by metis
qed

end
