(* ===== verification/Shared_Mining.thy ===== *)
theory Shared_Mining
  imports Applier_Properties
begin

section \<open>Two players mining one block\<close>

text \<open>
  \<open>plan_mine\<close> removes the break progress of the player who breaks the block, and the stale
  progress of that player elsewhere. The progress of another player on the same block stays,
  and from then on the state does not load: \<open>validate_break_progress\<close> asks for the block the
  progress was made on. The storage commit of the break is rejected whatever the storage
  answers, so the applier is stuck behind its pending commit.
\<close>

text \<open>The runs use a digest that does not look at its input, which keeps them short.\<close>

abbreviation blank_sha :: digest_function where
  "blank_sha \<equiv> \<lambda>_. []"

definition mine_at :: "player_id \<Rightarrow> u16 \<Rightarrow> mine_command" where
  "mine_at player steps = \<lparr>mine_player = player, mine_target = block_at 3,
     mine_expected_chunk_revision = 4, mine_tool_slot = None, mine_reserved_drop = 30,
     mine_steps = steps\<rparr>"

definition mine_envelope :: "transaction_id \<Rightarrow> player_id \<Rightarrow> u16 \<Rightarrow> command_envelope" where
  "mine_envelope tid player steps = \<lparr>env_transaction_id = tid, env_expected_world_revision = 5,
     env_command = Mine (mine_at player steps)\<rparr>"

definition shared_applier :: plan_applier where
  "shared_applier = sample_applier\<lparr>ap_state := sample_state\<lparr>gs_inventories :=
     of_pairs [(1, sample_inventory), (4, sample_inventory)]\<rparr>\<rparr>"

text \<open>Player 4 scratches the block, then player 1 breaks it.\<close>

definition scratched_applier :: plan_applier where
  "scratched_applier = fst (execute blank_sha shared_applier (mine_envelope 100 4 1) NoFault)"

definition broken_applier :: plan_applier where
  "broken_applier = fst (execute blank_sha scratched_applier (mine_envelope 101 1 2) NoFault)"

definition stale_scratch :: "plan_applier \<Rightarrow> bool" where
  "stale_scratch ap \<longleftrightarrow> ap_pending ap \<noteq> None \<and>
     bt_get (gs_break_progress (ap_state ap)) (BreakProgressKey 4 (block_at 3)) \<noteq> None \<and>
     bt_get (gs_blocks (ap_state ap)) (block_at 3) = None"

text \<open>C40: break progress on a block that is gone wedges the applier: with it in the state, no
  storage receipt whatever is accepted, so the pending commit stays pending for good.\<close>

theorem stale_progress_wedges:
  assumes "applier_reachable sha ap" and "ap_pending ap = Some pending"
    and "bt_get (gs_break_progress (ap_state ap)) key = Some progress"
    and "bt_get (gs_blocks (ap_state ap)) (bpk_block key) \<noteq> Some (bp_block progress)"
  shows "\<exists>e. observe_storage_commit sha ap receipt = (ap, Inl e)"
proof (cases "observe_storage_commit sha ap receipt")
  case (Pair ap' res)
  from applier_reachable_inv [OF assms(1)] Pair show ?thesis
  proof (cases rule: observe_cases)
    case (rejected e)
    with Pair show ?thesis by simp
  next
    case (committed pending' r)
    from committed_state_fields(8) [OF applier_reachable_inv [OF assms(1)] committed(2-4)]
    have "gs_break_progress (committed_state (ap_state ap) r receipt) = gs_break_progress (ap_state ap)"
      "gs_blocks (committed_state (ap_state ap) r receipt) = gs_blocks (ap_state ap)" by auto
    with loaded_progress(2) [OF committed(5), of key progress] assms(3,4) show ?thesis by simp
  qed
qed

text \<open>Two players, one block, two ordinary commands: both are executed, the second one reports
  the broken block, and no storage receipt is accepted any more.\<close>

lemma stale_progress_wedges_witness:
  "is_ok (snd (execute blank_sha shared_applier (mine_envelope 100 4 1) NoFault)) \<and>
   is_ok (snd (execute blank_sha scratched_applier (mine_envelope 101 1 2) NoFault)) \<and>
   (\<forall>receipt. \<exists>e. observe_storage_commit blank_sha broken_applier receipt = (broken_applier, Inl e))"
proof -
  have "is_ok (try_new_with_rules blank_sha 7 (ap_state shared_applier) sample_catalog Survival)"
    by code_simp
  then have new: "applier_reachable blank_sha shared_applier"
    by (auto simp: is_ok_iff and_then_Inr try_new_with_rules_def shared_applier_def sample_applier_def
        split: option.splits intro!: reach_new [where world = 7])
  have ok: "is_ok (snd (execute blank_sha shared_applier (mine_envelope 100 4 1) NoFault))"
    "is_ok (snd (execute blank_sha scratched_applier (mine_envelope 101 1 2) NoFault))" by code_simp+
  have "applier_reachable blank_sha scratched_applier"
    by (rule reach_step [OF new step_execute]) (use outcome_projr [OF ok(1)] in \<open>simp add: scratched_applier_def\<close>)
  then have reach: "applier_reachable blank_sha broken_applier"
    by (rule reach_step [OF _ step_execute]) (use outcome_projr [OF ok(2)] in \<open>simp add: broken_applier_def\<close>)
  let ?key = "BreakProgressKey 4 (block_at 3)"
  have "stale_scratch broken_applier" by code_simp
  then obtain pending progress where "ap_pending broken_applier = Some pending"
    "bt_get (gs_break_progress (ap_state broken_applier)) ?key = Some progress"
    "bt_get (gs_blocks (ap_state broken_applier)) (bpk_block ?key) \<noteq> Some (bp_block progress)"
    by (auto simp: stale_scratch_def)
  from stale_progress_wedges [OF reach this] ok show ?thesis by blast
qed

end
