(* ===== verification/Flow_Search.thy ===== *)
theory Flow_Search
  imports Ingredient_Flow
begin

section \<open>Correctness of the breadth-first search\<close>

text \<open>
  The parent vector of a finished search: every visited node is rooted in the source by a
  chain of parents along positive capacities, and the visited nodes are closed under
  positive capacities. So either the sink has a simple augmenting path, which
  \<open>path_back\<close> finds within its fuel, or the visited nodes are one side of a cut.
\<close>

definition square :: "nat \<Rightarrow> u64 list list \<Rightarrow> bool" where
  "square n caps \<longleftrightarrow> length caps = n \<and> (\<forall>row \<in> set caps. length row = n)"

lemma square_row: "square n caps \<Longrightarrow> i < n \<Longrightarrow> length (caps ! i) = n"
  by (auto simp: square_def)

lemma square_cell: "square n caps \<Longrightarrow> cell caps i j = (if i < n \<and> j < n then Some (caps ! i ! j) else None)"
  using square_row [of n caps i] by (auto simp: cell_def get_index_def square_def)

lemma square_matrix_row: "square n caps \<Longrightarrow> i < n \<Longrightarrow> matrix_row caps i = caps ! i"
  by (simp add: matrix_row_def get_index_def square_def)

definition par :: "usize option list \<Rightarrow> usize \<Rightarrow> usize option" where
  "par parent v = (case get_index parent v of Some (Some p) \<Rightarrow> Some p | _ \<Rightarrow> None)"

lemma par_Some: "par parent v = Some p \<longleftrightarrow> get_index parent v = Some (Some p)"
  by (auto simp: par_def split: option.splits)

lemma par_update:
  "par (parent[k := Some p]) v = (if v = k \<and> k < length parent then Some p else par parent v)"
  by (auto simp: par_def get_index_def)

lemma unvisited_iff: "get_index parent v = Some None \<longleftrightarrow> v < length parent \<and> par parent v = None"
  by (auto simp: par_def get_index_def split: option.splits)

text \<open>What one row adds.\<close>

definition fresh_in :: "usize option list \<Rightarrow> usize \<Rightarrow> u64 list \<Rightarrow> usize \<Rightarrow> bool" where
  "fresh_in parent nxt row v \<longleftrightarrow> v < length parent \<and> par parent v = None \<and>
     nxt \<le> v \<and> v < nxt + length row \<and> 0 < row ! (v - nxt)"

lemma fresh_in_Nil [simp]: "\<not> fresh_in parent nxt [] v"
  by (simp add: fresh_in_def)

lemma fresh_in_Cons:
  "fresh_in parent nxt (c # row) v \<longleftrightarrow>
     (v = nxt \<and> v < length parent \<and> par parent v = None \<and> 0 < c) \<or> fresh_in parent (Suc nxt) row v"
  by (cases "v = nxt") (auto simp: fresh_in_def Suc_le_eq nth_Cons' diff_Suc split: nat.splits)

lemma scan_row_spec:
  assumes "scan_row node nxt row parent queue = (parent', queue')"
  shows "length parent' = length parent \<and>
    (\<forall>v. par parent' v = (if fresh_in parent nxt row v then Some node else par parent v)) \<and>
    set queue' = set queue \<union> {v. fresh_in parent nxt row v}"
  using assms
proof (induction node nxt row parent queue rule: scan_row.induct)
  case (1 node nxt parent queue)
  then show ?case by simp
next
  case (2 node nxt c row parent queue)
  show ?case
  proof (cases "0 < c \<and> get_index parent nxt = Some None")
    case True
    then have nxt: "nxt < length parent" "par parent nxt = None" by (simp_all add: unvisited_iff)
    have fresh: "fresh_in parent nxt (c # row) v \<longleftrightarrow>
        v = nxt \<or> fresh_in (parent[nxt := Some node]) (Suc nxt) row v" for v
      using True nxt by (auto simp: fresh_in_Cons fresh_in_def par_update)
    from 2(1) [OF True] 2(3) True show ?thesis
      using nxt by (auto simp: fresh par_update)
  next
    case False
    then have "fresh_in parent nxt (c # row) v \<longleftrightarrow> fresh_in parent (Suc nxt) row v" for v
      by (auto simp: fresh_in_Cons unvisited_iff)
    with 2(2) [OF False] 2(3) False show ?thesis by simp
  qed
qed

subsection \<open>Rooted nodes\<close>

inductive rooted :: "usize option list \<Rightarrow> usize \<Rightarrow> nat \<Rightarrow> bool" for parent where
  root: "rooted parent 0 0"
| child: "v \<noteq> 0 \<Longrightarrow> par parent v = Some p \<Longrightarrow> rooted parent p n \<Longrightarrow> rooted parent v (Suc n)"

lemma rooted_root: "rooted parent 0 m \<longleftrightarrow> m = 0"
  by (auto elim: rooted.cases intro: root)

lemma rooted_child:
  assumes "rooted parent v m" "v \<noteq> 0" "par parent v = Some p"
  obtains k where "m = Suc k" "rooted parent p k"
  using assms by (cases rule: rooted.cases) auto

lemma rooted_unique: "rooted parent v n \<Longrightarrow> rooted parent v m \<Longrightarrow> n = m"
proof (induction arbitrary: m rule: rooted.induct)
  case root
  then show ?case by (simp add: rooted_root)
next
  case (child v p n)
  from child.prems child.hyps(1,2) obtain k where "m = Suc k" "rooted parent p k"
    by (rule rooted_child)
  with child.IH show ?case by simp
qed

lemma rooted_mono:
  assumes "rooted parent v n" "\<And>v p. par parent v = Some p \<Longrightarrow> par parent' v = Some p"
  shows "rooted parent' v n"
  using assms by (induction rule: rooted.induct) (auto intro: rooted.intros)

subsection \<open>The invariant of the search\<close>

definition bfs_inv :: "nat \<Rightarrow> u64 list list \<Rightarrow> usize option list \<Rightarrow> usize list \<Rightarrow> bool" where
  "bfs_inv n caps parent queue \<longleftrightarrow>
     length parent = n \<and> par parent 0 = Some 0 \<and>
     (\<forall>v. par parent v \<noteq> None \<longrightarrow> (\<exists>d. rooted parent v d)) \<and>
     (\<forall>u \<in> set queue. par parent u \<noteq> None) \<and>
     (\<forall>u v. par parent u \<noteq> None \<longrightarrow> u \<notin> set queue \<longrightarrow> v < n \<longrightarrow> 0 < caps ! u ! v \<longrightarrow>
        par parent v \<noteq> None)"

lemma par_less: "par parent v \<noteq> None \<Longrightarrow> v < length parent"
  by (auto simp: par_def get_index_def split: if_splits)

lemma bfs_inv_step:
  assumes inv: "bfs_inv n caps parent (node # queue)" and sq: "square n caps"
    and scan: "scan_row node 0 (matrix_row caps node) parent queue = (parent', queue')"
  shows "bfs_inv n caps parent' queue'"
proof -
  from inv have len: "length parent = n" and src: "par parent 0 = Some 0"
    and rooted: "\<And>v. par parent v \<noteq> None \<Longrightarrow> \<exists>d. rooted parent v d"
    and queued: "\<And>u. u \<in> set (node # queue) \<Longrightarrow> par parent u \<noteq> None"
    and closed: "\<And>u v. par parent u \<noteq> None \<Longrightarrow> u \<notin> set (node # queue) \<Longrightarrow> v < n \<Longrightarrow>
      0 < caps ! u ! v \<Longrightarrow> par parent v \<noteq> None"
    by (auto simp: bfs_inv_def)
  have node: "par parent node \<noteq> None" by (rule queued) simp
  then have "node < n" using par_less [OF node] len by simp
  then have row: "matrix_row caps node = caps ! node" "length (caps ! node) = n"
    using sq by (simp_all add: square_matrix_row square_row)
  let ?fresh = "fresh_in parent 0 (caps ! node)"
  have fresh: "?fresh v \<longleftrightarrow> v < n \<and> par parent v = None \<and> 0 < caps ! node ! v" for v
    using row len by (auto simp: fresh_in_def)
  from scan_row_spec [OF scan] row have len': "length parent' = n"
    and par': "\<And>v. par parent' v = (if ?fresh v then Some node else par parent v)"
    and queue': "set queue' = set queue \<union> {v. ?fresh v}" using len by simp_all
  have mono: "par parent' v = Some p" if "par parent v = Some p" for v p
    using that by (simp add: par' fresh)
  have "\<exists>d. rooted parent' v d" if v: "par parent' v \<noteq> None" for v
  proof (cases "?fresh v")
    case True
    then have "par parent v = None" by (simp add: fresh)
    with src have "v \<noteq> 0" by (cases "v = 0") simp_all
    moreover from rooted [OF node] obtain d where "rooted parent node d" by blast
    then have "rooted parent' node d" by (rule rooted_mono) (rule mono)
    moreover have "par parent' v = Some node" using True by (simp add: par')
    ultimately have "rooted parent' v (Suc d)" by (intro child)
    then show ?thesis by blast
  next
    case False
    with v rooted have "\<exists>d. rooted parent v d" by (simp add: par')
    then show ?thesis using rooted_mono [OF _ mono] by blast
  qed
  moreover have "par parent' v \<noteq> None"
    if "par parent' u \<noteq> None" "u \<notin> set queue'" "v < n" "0 < caps ! u ! v" for u v
  proof (cases "u = node")
    case True
    with that show ?thesis by (auto simp: par' fresh)
  next
    case False
    from that have "\<not> ?fresh u" "u \<notin> set queue" by (auto simp: queue')
    with that False closed [of u v] show ?thesis by (auto simp: par')
  qed
  moreover have "par parent' u \<noteq> None" if "u \<in> set queue'" for u
    using that queued by (auto simp: queue' par')
  moreover have "par parent' 0 = Some 0" by (rule mono [OF src])
  ultimately show ?thesis using len' by (simp add: bfs_inv_def)
qed

lemma bfs_inv_bfs: "bfs_inv n caps parent queue \<Longrightarrow> square n caps \<Longrightarrow> bfs_inv n caps (bfs caps parent queue) []"
proof (induction caps parent queue rule: bfs.induct)
  case (2 caps parent node queue)
  obtain parent' queue' where s: "scan_row node 0 (matrix_row caps node) parent queue = (parent', queue')"
    by (cases "scan_row node 0 (matrix_row caps node) parent queue")
  from 2(1) [OF s [symmetric]] bfs_inv_step [OF 2(2,3) s] 2(3) s show ?case by simp
qed simp

lemma search_inv:
  assumes "square n caps" "0 < n"
  shows "bfs_inv n caps (search caps) []"
proof -
  let ?parent = "(replicate n None)[0 := Some 0]"
  have len: "length caps = n" using assms(1) by (simp add: square_def)
  have par: "par ?parent v = (if v = 0 then Some 0 else None)" for v
    unfolding par_update using assms(2) by (simp add: par_def get_index_def)
  have "rooted ?parent 0 0" by (rule root)
  then have "bfs_inv n caps ?parent [0]"
    unfolding bfs_inv_def par by auto
  from bfs_inv_bfs [OF this assms(1)] show ?thesis by (simp add: search_def len)
qed

subsection \<open>Paths\<close>

text \<open>Walking back from a rooted node gives a path of as many edges as its depth.\<close>

lemma path_back_rooted:
  "rooted parent v d \<Longrightarrow> d \<le> fuel \<Longrightarrow>
   \<exists>path. path_back fuel parent v = Some path \<and> length path = d \<and>
     (\<forall>(p, w) \<in> set path. \<exists>e \<le> d. 0 < e \<and> rooted parent w e \<and> rooted parent p (e - 1)) \<and>
     distinct (map snd path)"
proof (induction arbitrary: fuel rule: rooted.induct)
  case root
  then show ?case by (simp add: path_back.simps)
next
  case (child v p n)
  then obtain fuel' where fuel: "fuel = Suc fuel'" "n \<le> fuel'" by (cases fuel) auto
  from child.IH [OF fuel(2)] obtain path where path: "path_back fuel' parent p = Some path"
    "length path = n" "distinct (map snd path)"
    "\<forall>(p, w) \<in> set path. \<exists>e \<le> n. 0 < e \<and> rooted parent w e \<and> rooted parent p (e - 1)" by blast
  have v: "rooted parent v (Suc n)" by (rule rooted.child) (use child in auto)
  have "v \<notin> snd ` set path"
  proof
    assume "v \<in> snd ` set path"
    then obtain q where "(q, v) \<in> set path" by force
    with path(4) obtain e where "e \<le> n" "rooted parent v e" by blast
    with rooted_unique [OF v, of e] show False by simp
  qed
  moreover have "path_back fuel parent v = Some ((p, v) # path)"
    using child.hyps(1,2) path(1) fuel(1) by (subst path_back.simps) (simp add: par_Some)
  moreover have "\<exists>e \<le> Suc n. 0 < e \<and> rooted parent v e \<and> rooted parent p (e - 1)"
    using v child.hyps(3) by (intro exI [of _ "Suc n"]) simp
  moreover have "\<forall>(p, w) \<in> set path. \<exists>e \<le> Suc n. 0 < e \<and> rooted parent w e \<and> rooted parent p (e - 1)"
  proof (intro ballI, clarify)
    fix q w
    assume "(q, w) \<in> set path"
    with path(4) obtain e where "e \<le> n" "0 < e" "rooted parent w e" "rooted parent q (e - 1)"
      by blast
    then show "\<exists>e \<le> Suc n. 0 < e \<and> rooted parent w e \<and> rooted parent q (e - 1)"
      by (intro exI [of _ e]) simp
  qed
  ultimately show ?case using path(2,3) by (intro exI [of _ "(p, v) # path"]) simp
qed

text \<open>The depth of a rooted node is less than the number of nodes.\<close>

lemma rooted_less:
  assumes "rooted parent v d" "par parent 0 = Some 0"
  shows "v < length parent"
proof -
  from assms have "par parent v \<noteq> None" by (cases rule: rooted.cases) simp_all
  then show ?thesis by (rule par_less)
qed

lemma depth_less:
  assumes "rooted parent v d" "length parent = n" "par parent 0 = Some 0"
  shows "d < n"
proof -
  from path_back_rooted [OF assms(1) order_refl] obtain path where path:
    "length path = d" "distinct (map snd path)"
    "\<forall>(p, w) \<in> set path. \<exists>e \<le> d. 0 < e \<and> rooted parent w e \<and> rooted parent p (e - 1)" by blast
  have "0 < w \<and> w < n" if "w \<in> set (map snd path)" for w
  proof -
    from that path(3) obtain e where e: "0 < e" "rooted parent w e" by fastforce
    then have "w \<noteq> 0" by (cases "w = 0") (auto simp: rooted_root)
    with rooted_less [OF e(2) assms(3)] assms(2) show ?thesis by simp
  qed
  then have "set (map snd path) \<subseteq> {1..<n}" by (intro subsetI) (simp add: Suc_le_eq)
  then have "card (set (map snd path)) \<le> card {1..<n}" by (intro card_mono) auto
  with path(1,2) have "d \<le> n - 1" using distinct_card [OF path(2)] by simp
  moreover have "0 < n" using par_less [of parent 0] assms(2,3) by auto
  ultimately show ?thesis by simp
qed

text \<open>
  The two outcomes of a search. When the sink is visited, \<open>path_back\<close> has a path of
  distinct edges of positive capacity from the source; when it is not, the visited nodes
  are closed under positive capacities.
\<close>

lemma search_cases:
  assumes sq: "square n caps" and sink: "0 < sink" "sink < n"
  obtains (path) path where "get_index (search caps) sink \<noteq> Some None"
      "get_index (search caps) sink \<noteq> None"
      "path_back (length caps) (search caps) sink = Some path" "path \<noteq> []"
      "flow_path caps path sink" "distinct (map snd path)"
  | (cut) S where "get_index (search caps) sink = Some None"
      "S \<subseteq> {..<n}" "0 \<in> S" "sink \<notin> S"
      "\<And>u v. u \<in> S \<Longrightarrow> v < n \<Longrightarrow> v \<notin> S \<Longrightarrow> caps ! u ! v = 0"
proof -
  from sink have "0 < n" by simp
  note inv = search_inv [OF sq this]
  let ?parent = "search caps"
  from inv have len: "length ?parent = n" and src: "par ?parent 0 = Some 0"
    and rooted: "\<And>v. par ?parent v \<noteq> None \<Longrightarrow> \<exists>d. rooted ?parent v d"
    and closed: "\<And>u v. par ?parent u \<noteq> None \<Longrightarrow> v < n \<Longrightarrow> 0 < caps ! u ! v \<Longrightarrow> par ?parent v \<noteq> None"
    by (auto simp: bfs_inv_def)
  show thesis
  proof (cases "par ?parent sink")
    case None
    then have none: "get_index ?parent sink = Some None" using sink len by (simp add: unvisited_iff)
    let ?S = "{v. par ?parent v \<noteq> None}"
    have "?S \<subseteq> {..<n}" using par_less [of ?parent] len by auto
    moreover have "caps ! u ! v = 0" if "u \<in> ?S" "v < n" "v \<notin> ?S" for u v
      using closed [of u v] that by auto
    ultimately show thesis using cut [OF none, of ?S] src None by auto
  next
    case (Some p)
    then obtain d where d: "rooted ?parent sink d" using rooted [of sink] by auto
    have "d \<le> length caps"
      using depth_less [OF d len src] sq by (simp add: square_def)
    from path_back_rooted [OF d this] obtain path where path:
      "path_back (length caps) ?parent sink = Some path" "length path = d" "distinct (map snd path)"
      by blast
    have "path \<noteq> []" using path(2) d sink by (cases rule: rooted.cases [OF d]) auto
    moreover have "flow_path caps path sink" by (rule path_back_flow_path [OF path(1) search_tree])
    moreover have "get_index ?parent sink \<noteq> Some None" "get_index ?parent sink \<noteq> None"
      using Some by (simp_all add: par_Some)
    ultimately show thesis using that(1) path by blast
  qed
qed

end
