(* ===== verification/Flow_Max.thy ===== *)
theory Flow_Max
  imports Flow_Search
begin

section \<open>Correctness of the main loop\<close>

text \<open>
  The invariant of the augmentation loop over the residual capacities, that no step of it
  overflows or panics, and that it ends with a cut of exactly the flow's value; with weak
  duality, that value is the largest of any flow.
\<close>

subsection \<open>Pushing along a path\<close>

definition out_sum :: "nat \<Rightarrow> u64 list list \<Rightarrow> nat \<Rightarrow> nat" where
  "out_sum n caps i = (\<Sum>j<n. caps ! i ! j)"

lemma row_sum_out: "square n caps \<Longrightarrow> i < n \<Longrightarrow> row_sum caps i = out_sum n caps i"
  by (simp add: row_sum_def out_sum_def square_matrix_row sum_list_sum_nth square_row atLeast0LessThan)

lemma square_set_cell: "square n caps \<Longrightarrow> i < n \<Longrightarrow> square n (set_cell caps i j v)"
  unfolding square_def set_cell_def
  by (auto simp: in_set_conv_nth nth_list_update) (metis nth_mem)+

lemma nth_set_cell:
  "square n caps \<Longrightarrow> i < n \<Longrightarrow> j < n \<Longrightarrow>
   set_cell caps i j v ! i' ! j' = (if i' = i \<and> j' = j then v else caps ! i' ! j')"
  by (auto simp: set_cell_def square_def nth_list_update)

lemma push_edge_ok:
  assumes "square n caps" "p < n" "v < n" "p \<noteq> v" "a \<le> caps ! p ! v" "caps ! v ! p + a \<le> u64_max"
  obtains caps' where "push_edge a (p, v) caps = Inr caps'" "square n caps'"
    "\<And>i j. caps' ! i ! j = (if i = p \<and> j = v then caps ! p ! v - a
       else if i = v \<and> j = p then caps ! v ! p + a else caps ! i ! j)"
proof -
  let ?mid = "set_cell caps p v (caps ! p ! v - a)"
  have mid: "square n ?mid" by (rule square_set_cell [OF assms(1,2)])
  note cells = nth_set_cell [OF assms(1-3)] nth_set_cell [OF mid assms(3,2)]
  have "?mid ! v ! p = caps ! v ! p" using assms(4) by (simp add: cells)
  then have "push_edge a (p, v) caps = Inr (set_cell ?mid v p (caps ! v ! p + a))"
    using assms(5,6) by (simp add: push_edge_Inr)
  then show thesis
    by (rule that) (use square_set_cell [OF mid assms(3)] assms(4) in \<open>auto simp: cells\<close>)
qed

lemma push_edge_out:
  assumes "\<And>i j. caps' ! i ! j = (if i = p \<and> j = v then caps ! p ! v - a
       else if i = v \<and> j = p then caps ! v ! p + a else caps ! i ! j)"
    and "p < n" "v < n" "p \<noteq> v" "a \<le> caps ! p ! v"
  shows "out_sum n caps' u + (if u = p then a else 0) = out_sum n caps u + (if u = v then a else 0)"
proof -
  have "out_sum n caps' u + (if u = p then a else 0)
      = (\<Sum>j<n. caps' ! u ! j + (if j = v then if u = p then a else 0 else 0))"
    using assms(3) by (simp add: out_sum_def sum.distrib)
  also have "\<dots> = (\<Sum>j<n. caps ! u ! j + (if j = p then if u = v then a else 0 else 0))"
    using assms(4,5) by (intro sum.cong) (auto simp: assms(1))
  also have "\<dots> = out_sum n caps u + (if u = v then a else 0)"
    using assms(2) by (simp add: out_sum_def sum.distrib)
  finally show ?thesis .
qed

text \<open>The edges of a path from the source to a node, the last first.\<close>

fun chain :: "(usize \<times> usize) list \<Rightarrow> usize \<Rightarrow> bool" where
  "chain [] node \<longleftrightarrow> node = 0"
| "chain ((p, v) # path) node \<longleftrightarrow> v = node \<and> node \<noteq> 0 \<and> chain path p"

lemma flow_path_chain: "flow_path caps path node \<Longrightarrow> chain path node"
  by (induction caps path node rule: flow_path.induct) auto

lemma chain_sources: "chain path node \<Longrightarrow> (q, w) \<in> set path \<Longrightarrow> q = 0 \<or> q \<in> snd ` set path"
proof (induction path node rule: chain.induct)
  case (2 p v path node)
  show ?case
  proof (cases "(q, w) = (p, v)")
    case True
    with 2(2) show ?thesis by (cases path) auto
  next
    case False
    with 2 show ?thesis by auto
  qed
qed simp

lemma chain_node: "chain path node \<Longrightarrow> node = 0 \<or> node \<in> snd ` set path"
  by (cases path) auto

definition pushable :: "nat \<Rightarrow> u64 list list \<Rightarrow> nat \<Rightarrow> (usize \<times> usize) list \<Rightarrow> bool" where
  "pushable n caps a path \<longleftrightarrow>
     (\<forall>(p, v) \<in> set path. p < n \<and> v < n \<and> a \<le> caps ! p ! v \<and> caps ! v ! p + a \<le> u64_max)"

lemma push_path_ok:
  assumes "square n caps" "chain path node" "distinct (map snd path)" "pushable n caps a path"
  shows "\<exists>caps'. push_path a path caps = Inr caps' \<and> square n caps' \<and>
    (\<forall>i j. caps' ! i ! j + caps' ! j ! i = caps ! i ! j + caps ! j ! i) \<and>
    (\<forall>u. out_sum n caps' u + (if u = 0 then a else 0) = out_sum n caps u + (if u = node then a else 0))"
  using assms
proof (induction path node arbitrary: caps rule: chain.induct)
  case (1 node)
  then show ?case by (simp add: push_path_def)
next
  case (2 p v path node)
  from 2(3) have v: "v = node" "node \<noteq> 0" and path: "chain path p" by simp_all
  from 2(4) have fresh: "v \<notin> snd ` set path" and dist: "distinct (map snd path)" by simp_all
  have pv: "p \<noteq> v" using chain_node [OF path] fresh v by auto
  from 2(5) have edge: "p < n" "v < n" "a \<le> caps ! p ! v" "caps ! v ! p + a \<le> u64_max"
    and rest: "pushable n caps a path" by (simp_all add: pushable_def)
  from push_edge_ok [OF 2(2) edge(1,2) pv edge(3,4)] obtain mid where mid:
    "push_edge a (p, v) caps = Inr mid" "square n mid"
    and cells: "\<And>i j. mid ! i ! j = (if i = p \<and> j = v then caps ! p ! v - a
       else if i = v \<and> j = p then caps ! v ! p + a else caps ! i ! j)" by blast
  have untouched: "q \<noteq> v \<and> w \<noteq> v" if "(q, w) \<in> set path" for q w
  proof -
    have "w \<in> snd ` set path" using that by force
    moreover have "q \<noteq> v" using chain_sources [OF path that] fresh v by (cases "q = 0") auto
    ultimately show ?thesis using fresh by blast
  qed
  have "mid ! q ! w = caps ! q ! w" "mid ! w ! q = caps ! w ! q" if "(q, w) \<in> set path" for q w
    using untouched [OF that] by (simp_all only: cells if_False simp_thms)
  then have "pushable n mid a path" using rest unfolding pushable_def by fastforce
  from 2(1) [OF mid(2) path dist this] obtain caps' where caps':
    "push_path a path mid = Inr caps'" "square n caps'"
    "\<And>i j. caps' ! i ! j + caps' ! j ! i = mid ! i ! j + mid ! j ! i"
    "\<And>u. out_sum n caps' u + (if u = 0 then a else 0) = out_sum n mid u + (if u = p then a else 0)"
    by blast
  have "push_path a ((p, v) # path) caps = Inr caps'"
    using mid(1) caps'(1) by (simp add: push_path_def)
  moreover have "caps' ! i ! j + caps' ! j ! i = caps ! i ! j + caps ! j ! i" for i j
  proof -
    have "mid ! i ! j + mid ! j ! i = caps ! i ! j + caps ! j ! i"
      using pv edge(3) by (simp add: cells)
    then show ?thesis using caps'(3) [of i j] by linarith
  qed
  moreover have "out_sum n caps' u + (if u = 0 then a else 0)
      = out_sum n caps u + (if u = node then a else 0)" for u
    using caps'(4) [of u] push_edge_out [OF cells edge(1,2) pv edge(3), of u] unfolding v(1) by linarith
  ultimately show ?case using caps'(2) by blast
qed

subsection \<open>The invariant of the loop\<close>

definition carries :: "nat \<Rightarrow> u64 list list \<Rightarrow> usize \<Rightarrow> u64 list list \<Rightarrow> nat \<Rightarrow> bool" where
  "carries n C sink caps flow \<longleftrightarrow> square n caps \<and>
     (\<forall>i<n. \<forall>j<n. caps ! i ! j + caps ! j ! i = C ! i ! j + C ! j ! i) \<and>
     (\<forall>i<n. i \<noteq> sink \<longrightarrow> out_sum n caps i + (if i = 0 then flow else 0) = out_sum n C i)"

lemma carriesD:
  assumes "carries n C sink caps flow"
  shows "square n caps"
    "\<And>i j. i < n \<Longrightarrow> j < n \<Longrightarrow> caps ! i ! j + caps ! j ! i = C ! i ! j + C ! j ! i"
    "\<And>i. i < n \<Longrightarrow> i \<noteq> sink \<Longrightarrow> out_sum n caps i + (if i = 0 then flow else 0) = out_sum n C i"
  using assms by (simp_all add: carries_def)

lemma carries_initial: "square n C \<Longrightarrow> carries n C sink C 0"
  by (simp add: carries_def)

text \<open>The bounds under which no counter of the loop overflows.\<close>

definition bounded :: "nat \<Rightarrow> u64 list list \<Rightarrow> bool" where
  "bounded n C \<longleftrightarrow> (\<forall>i<n. \<forall>j<n. C ! i ! j + C ! j ! i \<le> u64_max) \<and> out_sum n C 0 \<le> u64_max"

lemma path_augment_le: "(p, v) \<in> set path \<Longrightarrow> path_augment caps path \<le> caps ! p ! v"
proof -
  let ?f = "\<lambda>augment (previous, node). min augment (caps ! previous ! node)"
  have mono: "foldl ?f a path \<le> a" for path a
  proof (induction path arbitrary: a)
    case (Cons e path)
    from Cons [of "?f a e"] show ?case by (cases e) auto
  qed simp
  have "(p, v) \<in> set path \<Longrightarrow> foldl ?f a path \<le> caps ! p ! v" for a
  proof (induction path arbitrary: a)
    case (Cons e path)
    show ?case
    proof (cases "e = (p, v)")
      case True
      with mono [of "?f a e" path] show ?thesis by auto
    next
      case False
      with Cons show ?thesis by simp
    qed
  qed simp
  then show "(p, v) \<in> set path \<Longrightarrow> path_augment caps path \<le> caps ! p ! v"
    by (simp add: path_augment_def)
qed

lemma flow_path_less: "flow_path caps path node \<Longrightarrow> square n caps \<Longrightarrow> (p, v) \<in> set path \<Longrightarrow> p < n \<and> v < n"
  by (induction caps path node rule: flow_path.induct) (auto simp: square_cell split: if_splits)

lemma carries_augment:
  assumes inv: "carries n C sink caps flow" and C: "bounded n C" "0 < n"
    and sink: "sink \<noteq> 0"
    and path: "flow_path caps path sink" "distinct (map snd path)"
  obtains caps' where "push_path (path_augment caps path) path caps = Inr caps'"
    "carries n C sink caps' (flow + path_augment caps path)"
    "flow + path_augment caps path \<le> u64_max"
proof -
  note inv = carriesD [OF inv]
  let ?a = "path_augment caps path"
  have "p < n \<and> v < n \<and> ?a \<le> caps ! p ! v \<and> caps ! v ! p + ?a \<le> u64_max"
    if "(p, v) \<in> set path" for p v
  proof -
    note less = flow_path_less [OF path(1) inv(1) that] and le = path_augment_le [OF that, of caps]
    have "C ! p ! v + C ! v ! p \<le> u64_max" using C(1) less by (simp add: bounded_def)
    with inv(2) [of p v] less le show ?thesis by simp
  qed
  then have "pushable n caps ?a path" by (auto simp: pushable_def)
  from push_path_ok [OF inv(1) flow_path_chain [OF path(1)] path(2) this] obtain caps' where caps':
    "push_path ?a path caps = Inr caps'" "square n caps'"
    "\<And>i j. caps' ! i ! j + caps' ! j ! i = caps ! i ! j + caps ! j ! i"
    "\<And>u. out_sum n caps' u + (if u = 0 then ?a else 0) = out_sum n caps u + (if u = sink then ?a else 0)"
    by blast
  have out: "out_sum n caps' i + (if i = 0 then flow + ?a else 0) = out_sum n C i"
    if "i < n" "i \<noteq> sink" for i
    using caps'(4) [of i] inv(3) [OF that] that(2) by (simp split: if_splits)
  have "carries n C sink caps' (flow + ?a)"
    unfolding carries_def caps'(3) using caps'(2) inv(2) out by blast
  moreover have "flow + ?a \<le> u64_max"
    using out [of 0] C sink by (simp add: bounded_def)
  ultimately show thesis using caps'(1) that by blast
qed

text \<open>The loop ends, without panic or overflow, in a flow whose search has found a cut.\<close>

definition is_cut :: "nat \<Rightarrow> usize \<Rightarrow> nat set \<Rightarrow> bool" where
  "is_cut n sink S \<longleftrightarrow> S \<subseteq> {..<n} \<and> 0 \<in> S \<and> sink \<notin> S"

lemma flow_loop_total:
  assumes "carries n C sink caps flow" and "bounded n C" and "0 < sink" "sink < n"
  shows "\<exists>caps' flow' S. flow_loop sink caps flow = Inr (caps', flow') \<and>
    carries n C sink caps' flow' \<and> is_cut n sink S \<and>
    (\<forall>u \<in> S. \<forall>v<n. v \<notin> S \<longrightarrow> caps' ! u ! v = 0)"
  using assms(1)
proof (induction "row_sum caps 0" arbitrary: caps flow rule: less_induct)
  case less
  note inv = less.prems
  show ?case using carriesD(1) [OF inv] assms(3,4)
  proof (cases rule: search_cases)
    case (path path)
    from carries_augment [OF inv assms(2) _ _ path(5,6)] assms(3,4) obtain caps' where caps':
      "push_path (path_augment caps path) path caps = Inr caps'"
      "carries n C sink caps' (flow + path_augment caps path)"
      "flow + path_augment caps path \<le> u64_max" by auto
    have "row_sum caps' 0 < row_sum caps 0"
      by (rule augmentation_decreases [OF path(3,4) caps'(1)])
    from less.hyps [OF this caps'(2)] obtain caps'' flow' S where result:
      "flow_loop sink caps' (flow + path_augment caps path) = Inr (caps'', flow')"
      "carries n C sink caps'' flow'" "is_cut n sink S"
      "\<forall>u \<in> S. \<forall>v<n. v \<notin> S \<longrightarrow> caps'' ! u ! v = 0" by blast
    obtain previous where visited: "get_index (search caps) sink = Some (Some previous)"
      using path(1,2) by (cases "get_index (search caps) sink") auto
    obtain e rest where "path = e # rest" using path(4) by (cases path) auto
    moreover have "checked_add u64_max flow (path_augment caps path) = Some (flow + path_augment caps path)"
      using caps'(3) by (simp add: checked_simps)
    ultimately have "flow_loop sink caps flow = flow_loop sink caps' (flow + path_augment caps path)"
      using visited path(3) caps'(1) by (subst flow_loop.simps) simp
    with result show ?thesis by metis
  next
    case (cut S)
    have "flow_loop sink caps flow = Inr (caps, flow)" using cut(1) by (subst flow_loop.simps) simp
    moreover have "is_cut n sink S" using cut(2-4) by (simp add: is_cut_def)
    ultimately show ?thesis using inv cut(5) by blast
  qed
qed

subsection \<open>Weak duality\<close>

text \<open>The value of a conserved antisymmetric flow is what crosses any cut.\<close>

lemma flow_across:
  fixes g :: "nat \<Rightarrow> nat \<Rightarrow> int"
  assumes anti: "\<And>u v. u < n \<Longrightarrow> v < n \<Longrightarrow> g u v = - g v u"
    and conserved: "\<And>u. u < n \<Longrightarrow> u \<noteq> 0 \<Longrightarrow> u \<noteq> sink \<Longrightarrow> (\<Sum>v<n. g u v) = 0"
    and cut: "is_cut n sink S"
  shows "(\<Sum>v<n. g 0 v) = (\<Sum>u\<in>S. \<Sum>v\<in>{..<n} - S. g u v)"
proof -
  from cut have S: "S \<subseteq> {..<n}" "finite S" "0 \<in> S" "sink \<notin> S"
    by (auto simp: is_cut_def intro: finite_subset)
  have "(\<Sum>u\<in>S. \<Sum>v\<in>S. g u v) = (\<Sum>v\<in>S. \<Sum>u\<in>S. g u v)" by (rule sum.swap)
  also have "\<dots> = (\<Sum>v\<in>S. \<Sum>u\<in>S. - g v u)" using S anti by (intro sum.cong) auto
  also have "\<dots> = - (\<Sum>v\<in>S. \<Sum>u\<in>S. g v u)" by (simp add: sum_negf)
  finally have inside: "(\<Sum>u\<in>S. \<Sum>v\<in>S. g u v) = 0" by simp
  have "(\<Sum>v<n. g 0 v) = (\<Sum>u\<in>S. if u = 0 then \<Sum>v<n. g 0 v else 0)" using S by simp
  also have "\<dots> = (\<Sum>u\<in>S. \<Sum>v<n. g u v)"
    using S conserved by (intro sum.cong) auto
  also have "\<dots> = (\<Sum>u\<in>S. (\<Sum>v\<in>{..<n} - S. g u v) + (\<Sum>v\<in>S. g u v))"
    using S by (intro sum.cong) (simp_all add: sum.subset_diff [of S "{..<n}"])
  also have "\<dots> = (\<Sum>u\<in>S. \<Sum>v\<in>{..<n} - S. g u v)" using inside by (simp add: sum.distrib)
  finally show ?thesis .
qed

lemma carries_flow:
  fixes C caps :: "u64 list list"
  assumes "carries n C sink caps flow"
  defines "g \<equiv> \<lambda>u v. int (C ! u ! v) - int (caps ! u ! v)"
  shows "u < n \<Longrightarrow> v < n \<Longrightarrow> g u v = - g v u"
    and "u < n \<Longrightarrow> u \<noteq> sink \<Longrightarrow> (\<Sum>v<n. g u v) = (if u = 0 then int flow else 0)"
proof -
  note inv = carriesD [OF assms(1)]
  show "g u v = - g v u" if "u < n" "v < n"
    using inv(2) [OF that] by (simp add: g_def algebra_simps flip: of_nat_add)
  show "(\<Sum>v<n. g u v) = (if u = 0 then int flow else 0)" if "u < n" "u \<noteq> sink"
  proof -
    have "(\<Sum>v<n. g u v) = int (out_sum n C u) - int (out_sum n caps u)"
      by (simp add: g_def sum_subtractf out_sum_def)
    with inv(3) [OF that] show ?thesis by auto
  qed
qed

text \<open>So no flow within the capacities is worth more than the one the loop ends with.\<close>

lemma flow_maximal:
  fixes g :: "nat \<Rightarrow> nat \<Rightarrow> int"
  assumes inv: "carries n C sink caps flow" and cut: "is_cut n sink S"
    and saturated: "\<forall>u \<in> S. \<forall>v<n. v \<notin> S \<longrightarrow> caps ! u ! v = 0"
    and g: "\<And>u v. u < n \<Longrightarrow> v < n \<Longrightarrow> g u v = - g v u"
      "\<And>u. u < n \<Longrightarrow> u \<noteq> 0 \<Longrightarrow> u \<noteq> sink \<Longrightarrow> (\<Sum>v<n. g u v) = 0"
      "\<And>u v. u < n \<Longrightarrow> v < n \<Longrightarrow> g u v \<le> int (C ! u ! v)"
  shows "(\<Sum>v<n. g 0 v) \<le> int flow"
proof -
  from cut have S: "S \<subseteq> {..<n}" "0 \<in> S" and out: "sink \<notin> S" by (simp_all add: is_cut_def)
  from S(2) out have sink: "sink \<noteq> 0" by (cases "sink = 0") simp_all
  let ?f = "\<lambda>u v. int (C ! u ! v) - int (caps ! u ! v)"
  note f = carries_flow [OF inv]
  have "(\<Sum>v<n. g 0 v) = (\<Sum>u\<in>S. \<Sum>v\<in>{..<n} - S. g u v)" by (rule flow_across [OF g(1,2) cut])
  also have "\<dots> \<le> (\<Sum>u\<in>S. \<Sum>v\<in>{..<n} - S. ?f u v)"
    using S g(3) saturated by (intro sum_mono) auto
  also have "\<dots> = (\<Sum>v<n. ?f 0 v)"
    using f(2) by (intro flow_across [symmetric, OF f(1) _ cut]) simp_all
  also have "\<dots> = int flow" using f(2) [of 0] S sink by auto
  finally show ?thesis .
qed

end
