(* ===== verification/Flow_Build.thy ===== *)
theory Flow_Build
  imports Flow_Max
begin

section \<open>The network a recipe builds, and the assignments it decides\<close>

text \<open>
  \<open>build_flow\<close> fills the matrix of a bipartite network: demands on the source's edges,
  slot quantities on the sink's edges, and between an ingredient and a matching slot a
  capacity no smaller than the demand. \<open>solve\<close> then finds an assignment of slot units to
  ingredients exactly when one exists.
\<close>

lemma try_fold_enumerate:
  assumes "P 0 s" and "\<And>i s. i < length xs \<Longrightarrow> P i s \<Longrightarrow> \<exists>s'. f (i, xs ! i) s = Inr s' \<and> P (Suc i) s'"
  shows "\<exists>s'. try_fold f (enumerate 0 xs) s = Inr s' \<and> P (length xs) s'"
  using assms
proof (induction xs rule: rev_induct)
  case (snoc x xs)
  have "\<exists>s'. f (i, xs ! i) s = Inr s' \<and> P (Suc i) s'" if "i < length xs" "P i s" for i s
    using snoc.prems(2) [of i s] that by (simp add: nth_append)
  from snoc.IH [OF snoc.prems(1) this] obtain s' where s': "try_fold f (enumerate 0 xs) s = Inr s'"
    "P (length xs) s'" by blast
  with snoc.prems(2) [of "length xs" s'] obtain t where "f (length xs, x) s' = Inr t" "P (Suc (length xs)) t"
    by auto
  with s' show ?case by (simp add: enumerate_append_eq try_fold_append)
qed simp

subsection \<open>The shape of the network\<close>

definition net_cell ::
    "nat \<Rightarrow> nat \<Rightarrow> (nat \<Rightarrow> nat) \<Rightarrow> (nat \<Rightarrow> nat \<Rightarrow> nat) \<Rightarrow> (nat \<Rightarrow> nat) \<Rightarrow> nat \<Rightarrow> nat \<Rightarrow> nat" where
  "net_cell m s d l q i j =
     (if i = 0 \<and> 0 < j \<and> j \<le> m then d (j - 1)
      else if 0 < i \<and> i \<le> m \<and> m < j \<and> j \<le> m + s then l (i - 1) (j - m - 1)
      else if m < i \<and> i \<le> m + s \<and> j = m + s + 1 then q (i - m - 1)
      else 0)"

definition network ::
    "ingredient_flow \<Rightarrow> nat \<Rightarrow> nat \<Rightarrow> nat \<Rightarrow> (nat \<Rightarrow> nat) \<Rightarrow> (nat \<Rightarrow> nat \<Rightarrow> nat) \<Rightarrow> (nat \<Rightarrow> nat) \<Rightarrow> bool" where
  "network fl m s demand d l q \<longleftrightarrow> m + s + 2 \<le> 514 \<and>
     fl_ingredients fl = m \<and> fl_slots fl = s \<and> fl_sink fl = m + s + 1 \<and> fl_total_demand fl = demand \<and>
     square (m + s + 2) (fl_capacities fl) \<and>
     (\<forall>i < m + s + 2. \<forall>j < m + s + 2. fl_capacities fl ! i ! j = net_cell m s d l q i j)"

lemma assign_cell_ok:
  assumes "square n (fl_capacities fl)" "i < n" "j < n"
  shows "assign_cell fl i j v = Inr (fl\<lparr>fl_capacities := set_cell (fl_capacities fl) i j v\<rparr>)"
  using assms by (simp add: assign_cell_def square_cell ok_or_def)

lemma flow_new_ok:
  assumes "m + s + 2 \<le> 514"
  shows "\<exists>fl. flow_new m s = Inr fl \<and> network fl m s 0 (\<lambda>_. 0) (\<lambda>_ _. 0) (\<lambda>_. 0)"
proof -
  have "(m + s + 2) * (m + s + 2) \<le> 514 * 514" using assms by (intro mult_mono) simp_all
  then have "flow_new m s = Inr \<lparr>fl_ingredients = m, fl_slots = s, fl_sink = m + s + 1,
      fl_capacities = replicate (m + s + 2) (replicate (m + s + 2) 0), fl_total_demand = 0\<rparr>"
    using assms by (simp add: flow_new_def checked_add_def checked_mul_def checked_sub_def
        ok_or_def usize_max_def)
  moreover have "net_cell m s (\<lambda>_. 0) (\<lambda>_ _. 0) (\<lambda>_. 0) i j = 0" for i j by (simp add: net_cell_def)
  ultimately show ?thesis using assms by (simp add: network_def square_def del: replicate_Suc)
qed

lemma set_demand_ok:
  assumes "network fl m s demand d l q" "i < m" "demand + x \<le> u64_max"
  shows "\<exists>fl'. set_demand fl i x = Inr fl' \<and> network fl' m s (demand + x) (d(i := x)) l q"
proof -
  from assms(1) have sq: "square (m + s + 2) (fl_capacities fl)" and size: "m + s + 2 \<le> 514"
    by (simp_all add: network_def)
  have "0 < m + s + 2" "Suc i < m + s + 2" using assms(2) by simp_all
  note cells = square_set_cell [OF sq this(1)] nth_set_cell [OF sq this] assign_cell_ok [OF sq this]
  have "set_demand fl i x = Inr (fl\<lparr>fl_capacities := set_cell (fl_capacities fl) 0 (Suc i) x,
      fl_total_demand := demand + x\<rparr>)"
    using assms size by (simp add: set_demand_def cells checked_add_def ok_or_def network_def usize_max_def)
  moreover have "network (fl\<lparr>fl_capacities := set_cell (fl_capacities fl) 0 (Suc i) x,
      fl_total_demand := demand + x\<rparr>) m s (demand + x) (d(i := x)) l q"
    using assms(1,2) cells(1) by (auto simp: network_def cells(2) net_cell_def)
  ultimately show ?thesis by blast
qed

lemma slot_node_ok: "network fl m s demand d l q \<Longrightarrow> k < s \<Longrightarrow> slot_node_of fl k = Inr (m + k + 1)"
  by (simp add: slot_node_of_def network_def checked_add_def ok_or_def usize_max_def)

lemma connect_ok:
  assumes "network fl m s demand d l q" "i < m" "k < s"
  shows "\<exists>fl'. connect fl i k = Inr fl' \<and> network fl' m s demand d (l(i := (l i)(k := max demand 1))) q"
proof -
  from assms(1) have sq: "square (m + s + 2) (fl_capacities fl)" and size: "m + s + 2 \<le> 514"
    by (simp_all add: network_def)
  have "Suc i < m + s + 2" "m + k + 1 < m + s + 2" using assms(2,3) by simp_all
  note cells = square_set_cell [OF sq this(1)] nth_set_cell [OF sq this] assign_cell_ok [OF sq this]
  let ?caps = "set_cell (fl_capacities fl) (Suc i) (m + k + 1) (max demand 1)"
  have "connect fl i k = Inr (fl\<lparr>fl_capacities := ?caps\<rparr>)"
    using assms size slot_node_ok [OF assms(1,3)] cells(3)
    by (simp add: connect_def checked_add_def ok_or_def network_def usize_max_def)
  moreover have "network (fl\<lparr>fl_capacities := ?caps\<rparr>) m s demand d (l(i := (l i)(k := max demand 1))) q"
    using assms cells(1,2) by (auto simp: network_def net_cell_def)
  ultimately show ?thesis by blast
qed

lemma set_slot_capacity_ok:
  assumes "network fl m s demand d l q" "k < s"
  shows "\<exists>fl'. set_slot_capacity fl k x = Inr fl' \<and> network fl' m s demand d l (q(k := x))"
proof -
  from assms(1) have sq: "square (m + s + 2) (fl_capacities fl)" by (simp add: network_def)
  have "m + k + 1 < m + s + 2" "m + s + 1 < m + s + 2" using assms(2) by simp_all
  note cells = square_set_cell [OF sq this(1)] nth_set_cell [OF sq this] assign_cell_ok [OF sq this]
  let ?caps = "set_cell (fl_capacities fl) (m + k + 1) (m + s + 1) x"
  have "set_slot_capacity fl k x = Inr (fl\<lparr>fl_capacities := ?caps\<rparr>)"
    using assms slot_node_ok [OF assms] cells(3) by (simp add: set_slot_capacity_def network_def)
  moreover have "network (fl\<lparr>fl_capacities := ?caps\<rparr>) m s demand d l (q(k := x))"
    using assms cells(1,2) by (auto simp: network_def net_cell_def)
  ultimately show ?thesis by blast
qed

end
