(* ===== verification/Flow_Assign.thy ===== *)
theory Flow_Assign
  imports Flow_Build
begin

section \<open>Assignments of slot units to ingredients\<close>

text \<open>
  The specification \<open>solve\<close> is measured against: an assignment gives each ingredient its
  demand from slots it may use, and takes from no slot more than it holds. Over a network
  as \<open>build_flow\<close> makes it, \<open>solve\<close> returns the units an assignment takes from each slot
  when there is one, and nothing when there is none; it never fails.
\<close>

definition assignment ::
    "nat \<Rightarrow> nat \<Rightarrow> (nat \<Rightarrow> nat) \<Rightarrow> (nat \<Rightarrow> nat \<Rightarrow> bool) \<Rightarrow> (nat \<Rightarrow> nat) \<Rightarrow> (nat \<Rightarrow> nat \<Rightarrow> nat) \<Rightarrow> bool" where
  "assignment m s d usable q a \<longleftrightarrow>
     (\<forall>i<m. (\<Sum>k < s. a i k) = d i) \<and>
     (\<forall>i<m. \<forall>k < s. a i k \<noteq> 0 \<longrightarrow> usable i k) \<and>
     (\<forall>k < s. (\<Sum>i<m. a i k) \<le> q k)"

lemma assignmentD:
  assumes "assignment m s d usable q a"
  shows "i < m \<Longrightarrow> (\<Sum>k < s. a i k) = d i" "i < m \<Longrightarrow> k < s \<Longrightarrow> a i k \<noteq> 0 \<Longrightarrow> usable i k"
    "k < s \<Longrightarrow> (\<Sum>i<m. a i k) \<le> q k"
  using assms by (simp_all add: assignment_def)

lemma try_fold_upt:
  assumes "P 0 s" and "\<And>i s. i < m \<Longrightarrow> P i s \<Longrightarrow> \<exists>s'. f i s = Inr s' \<and> P (Suc i) s'"
  shows "\<exists>s'. try_fold f [0..<m] s = Inr s' \<and> P m s'"
  using assms
proof (induction m)
  case (Suc m)
  have "\<exists>s'. f i s = Inr s' \<and> P (Suc i) s'" if "i < m" "P i s" for i s using Suc.prems(2) that by simp
  from Suc.IH [OF Suc.prems(1) this] obtain s' where s': "try_fold f [0..<m] s = Inr s'" "P m s'" by blast
  with Suc.prems(2) [of m s'] obtain t where "f m s' = Inr t" "P (Suc m) t" by auto
  with s' show ?case by (simp add: try_fold_append)
qed simp

subsection \<open>Sums over the nodes\<close>

lemma sum_nodes:
  fixes f :: "nat \<Rightarrow> 'a::comm_monoid_add"
  shows "(\<Sum>j<m + s + 2. f j) = f 0 + (\<Sum>i<m. f (Suc i)) + (\<Sum>k < s. f (Suc (m + k))) + f (Suc (m + s))"
proof -
  have "(\<Sum>j<Suc (m + s). f j) = f 0 + (\<Sum>i<m. f (Suc i)) + (\<Sum>k < s. f (Suc (m + k)))"
  proof (induction s)
    case 0
    show ?case by (simp add: sum.lessThan_Suc_shift del: sum.lessThan_Suc)
  next
    case (Suc s)
    then show ?case by (simp add: ac_simps)
  qed
  then show ?thesis by simp
qed

lemma net_cell_cases:
  "net_cell m s d l q 0 (Suc i) = (if i < m then d i else 0)"
  "net_cell m s d l q 0 0 = 0"
  "net_cell m s d l q (Suc i) 0 = 0"
  "i < m \<Longrightarrow> i' < m \<Longrightarrow> net_cell m s d l q (Suc i) (Suc i') = 0"
  "i < m \<Longrightarrow> k < s \<Longrightarrow> net_cell m s d l q (Suc i) (Suc (m + k)) = l i k"
  "i < m \<Longrightarrow> net_cell m s d l q (Suc i) (Suc (m + s)) = 0"
  "k < s \<Longrightarrow> i < m \<Longrightarrow> net_cell m s d l q (Suc (m + k)) (Suc i) = 0"
  "k < s \<Longrightarrow> k' < s \<Longrightarrow> net_cell m s d l q (Suc (m + k)) (Suc (m + k')) = 0"
  "k < s \<Longrightarrow> net_cell m s d l q (Suc (m + k)) (Suc (m + s)) = q k"
  "net_cell m s d l q (Suc (m + s)) j = 0"
  by (auto simp: net_cell_def)

lemma node_cases:
  assumes "u < m + s + 2"
  obtains (source) "u = 0" | (ingredient) i where "u = Suc i" "i < m"
    | (slot) k where "u = Suc (m + k)" "k < s" | (sink) "u = Suc (m + s)"
proof -
  consider "u = 0" | "0 < u \<and> u \<le> m" | "m < u \<and> u \<le> m + s" | "u = Suc (m + s)"
    using assms by fastforce
  then show thesis
  proof cases
    case 2
    then show thesis by (intro ingredient [of "u - 1"]) auto
  next
    case 3
    then show thesis by (intro slot [of "u - m - 1"]) auto
  qed (use source sink in auto)
qed

subsection \<open>An assignment is a flow, and a full flow is an assignment\<close>

definition recipe_network ::
    "nat \<Rightarrow> nat \<Rightarrow> (nat \<Rightarrow> nat) \<Rightarrow> (nat \<Rightarrow> nat) \<Rightarrow> (nat \<Rightarrow> nat \<Rightarrow> nat) \<Rightarrow> (nat \<Rightarrow> nat \<Rightarrow> bool) \<Rightarrow>
     u64 list list \<Rightarrow> bool" where
  "recipe_network m s d q l usable C \<longleftrightarrow> square (m + s + 2) C \<and>
     (\<forall>i < m + s + 2. \<forall>j < m + s + 2. C ! i ! j = net_cell m s d l q i j) \<and>
     (\<forall>i < m. \<forall>k < s. if usable i k then d i \<le> l i k else l i k = 0)"

lemma recipe_networkD:
  assumes "recipe_network m s d q l usable C"
  shows "square (m + s + 2) C"
    "\<And>i j. i < m + s + 2 \<Longrightarrow> j < m + s + 2 \<Longrightarrow> C ! i ! j = net_cell m s d l q i j"
    "\<And>i k. i < m \<Longrightarrow> k < s \<Longrightarrow> if usable i k then d i \<le> l i k else l i k = 0"
  using assms unfolding recipe_network_def by blast+

lemma out_source:
  assumes "recipe_network m s d q l usable C"
  shows "out_sum (m + s + 2) C 0 = (\<Sum>i<m. d i)"
proof -
  note cells = recipe_networkD(2) [OF assms]
  have "out_sum (m + s + 2) C 0 = (\<Sum>j<(m + s + 2). net_cell m s d l q 0 j)"
    by (simp add: out_sum_def cells)
  also have "\<dots> = (\<Sum>i<m. d i)" unfolding sum_nodes by (simp add: net_cell_cases)
  finally show ?thesis .
qed

lemma assignment_value:
  assumes net: "recipe_network m s d q l usable C" and a: "assignment m s d usable q a"
    and inv: "carries (m + s + 2) C (m + s + 1) caps flow" and cut: "is_cut (m + s + 2) (m + s + 1) S"
    and saturated: "\<forall>u \<in> S. \<forall>v<(m + s + 2). v \<notin> S \<longrightarrow> caps ! u ! v = 0"
  shows "(\<Sum>i<m. d i) \<le> flow"
proof -
  note cells = recipe_networkD(2) [OF net] and usable = recipe_networkD(3) [OF net]
  define h where "h = net_cell m s d a (\<lambda>k. \<Sum>i<m. a i k)"
  define g where "g u v = int (h u v) - int (h v u)" for u v
  note a = assignmentD [OF a]
  have le: "a i k \<le> l i k" if "i < m" "k < s" for i k
  proof (cases "a i k = 0")
    case False
    have "a i k \<le> (\<Sum>k < s. a i k)" using that by (intro member_le_sum) simp_all
    with a(1) [OF that(1)] usable [OF that] a(2) [OF that False] show ?thesis by simp
  qed simp
  have row: "(\<Sum>v<(m + s + 2). h u v) = (\<Sum>v<(m + s + 2). h v u)" if "u < (m + s + 2)" "u \<noteq> 0" "u \<noteq> m + s + 1" for u
    using that(1)
  proof (cases rule: node_cases)
    case (ingredient i)
    with a(1) show ?thesis unfolding sum_nodes h_def by (simp add: net_cell_cases)
  next
    case (slot k)
    then show ?thesis unfolding sum_nodes h_def by (simp add: net_cell_cases)
  qed (use that in simp_all)
  have "(\<Sum>v<(m + s + 2). g 0 v) \<le> int flow"
  proof (rule flow_maximal [OF inv cut saturated])
    show "g u v = - g v u" for u v by (simp add: g_def)
    show "(\<Sum>v<(m + s + 2). g u v) = 0" if "u < (m + s + 2)" "u \<noteq> 0" "u \<noteq> m + s + 1" for u
      using row [OF that] by (simp add: g_def sum_subtractf flip: of_nat_sum)
    show "g u v \<le> int (C ! u ! v)" if "u < (m + s + 2)" "v < (m + s + 2)" for u v
    proof -
      have "h u v \<le> net_cell m s d l q u v"
        using le a(3) by (auto simp: h_def net_cell_def)
      then show ?thesis by (simp add: g_def cells [OF that])
    qed
  qed
  moreover have "(\<Sum>v<(m + s + 2). g 0 v) = int (\<Sum>i<m. d i)"
    unfolding sum_nodes by (simp add: g_def h_def net_cell_cases)
  ultimately show ?thesis by (simp only: of_nat_le_iff)
qed

lemma full_flow_assignment:
  assumes net: "recipe_network m s d q l usable C" and inv: "carries (m + s + 2) C (m + s + 1) caps (\<Sum>i<m. d i)"
  shows "assignment m s d usable q (\<lambda>i k. caps ! Suc (m + k) ! Suc i)"
proof -
  note inv = carriesD [OF inv] and cells = recipe_networkD(2) [OF net]
    and usable = recipe_networkD(3) [OF net]
  have pair: "caps ! u ! v + caps ! v ! u = net_cell m s d l q u v + net_cell m s d l q v u"
    if "u < (m + s + 2)" "v < (m + s + 2)" for u v
    using inv(2) [OF that] that by (simp add: cells)
  have "out_sum (m + s + 2) caps 0 = 0" using inv(3) [of 0] out_source [OF net] by simp
  then have drained: "caps ! 0 ! j = 0" if "j < (m + s + 2)" for j
    using that unfolding out_sum_def sum_eq_0_iff [OF finite_lessThan] by blast
  have link: "caps ! Suc i ! Suc (m + k) + caps ! Suc (m + k) ! Suc i = l i k" if "i < m" "k < s" for i k
    using pair [of "Suc i" "Suc (m + k)"] that by (simp add: net_cell_cases)
  have inner: "caps ! Suc i ! Suc i' = 0" "caps ! Suc i ! Suc (m + s) = 0" if "i < m" "i' < m" for i i'
    using pair [of "Suc i" "Suc i'"] pair [of "Suc i" "Suc (m + s)"] that by (simp_all add: net_cell_cases)
  have "(\<Sum>k < s. caps ! Suc (m + k) ! Suc i) = d i" if i: "i < m" for i
  proof -
    have "caps ! Suc i ! 0 = d i"
      using pair [of "Suc i" 0] drained [of "Suc i"] i by (simp add: net_cell_cases)
    moreover have "out_sum (m + s + 2) caps (Suc i) = out_sum (m + s + 2) C (Suc i)"
      using inv(3) [of "Suc i"] i by simp
    moreover have "out_sum (m + s + 2) C (Suc i) = (\<Sum>j<(m + s + 2). net_cell m s d l q (Suc i) j)"
      using i by (simp add: out_sum_def cells)
    ultimately have "d i + (\<Sum>k < s. caps ! Suc i ! Suc (m + k)) = (\<Sum>k < s. l i k)"
      using i inner [OF i] unfolding out_sum_def sum_nodes by (simp add: net_cell_cases)
    also have "\<dots> = (\<Sum>k < s. caps ! Suc i ! Suc (m + k)) + (\<Sum>k < s. caps ! Suc (m + k) ! Suc i)"
      using link [OF i] by (simp flip: sum.distrib)
    finally show ?thesis by simp
  qed
  moreover have "(\<Sum>i<m. caps ! Suc (m + k) ! Suc i) \<le> q k" if k: "k < s" for k
  proof -
    have "out_sum (m + s + 2) caps (Suc (m + k)) = out_sum (m + s + 2) C (Suc (m + k))"
      using inv(3) [of "Suc (m + k)"] k by simp
    also have "\<dots> = (\<Sum>j<(m + s + 2). net_cell m s d l q (Suc (m + k)) j)"
      using k by (simp add: out_sum_def cells)
    also have "\<dots> = q k" using k unfolding sum_nodes by (simp add: net_cell_cases)
    finally show ?thesis unfolding out_sum_def sum_nodes by simp
  qed
  moreover have "usable i k" if "i < m" "k < s" "caps ! Suc (m + k) ! Suc i \<noteq> 0" for i k
    using link [OF that(1,2)] usable [OF that(1,2)] that(3) by (simp split: if_splits)
  ultimately show ?thesis unfolding assignment_def by blast
qed

subsection \<open>The verdict of \<open>solve\<close>\<close>

lemma network_recipe:
  assumes "network fl m s demand d l q"
    and "\<And>i k. i < m \<Longrightarrow> k < s \<Longrightarrow> if usable i k then d i \<le> l i k else l i k = 0"
  shows "recipe_network m s d q l usable (fl_capacities fl)"
  using assms by (simp add: recipe_network_def network_def)

lemma network_bounded:
  assumes net: "network fl m s (\<Sum>i<m. d i) d l q" and fits: "(\<Sum>i<m. d i) \<le> u64_max"
    and l: "\<And>i k. i < m \<Longrightarrow> k < s \<Longrightarrow> l i k \<le> u64_max"
    and q: "\<And>k. k < s \<Longrightarrow> q k \<le> u64_max"
  shows "bounded (m + s + 2) (fl_capacities fl)"
proof -
  have cells: "fl_capacities fl ! i ! j = net_cell m s d l q i j" if "i < m + s + 2" "j < m + s + 2" for i j
    using net that by (simp add: network_def)
  have d: "d i \<le> u64_max" if "i < m" for i
    using member_le_sum [of i "{..<m}" d] that fits by simp
  have "fl_capacities fl ! i ! j + fl_capacities fl ! j ! i \<le> u64_max"
    if ij: "i < m + s + 2" "j < m + s + 2" for i j
    using d l q by (auto simp: cells [OF ij] cells [OF ij(2,1)] net_cell_def)
  moreover have "out_sum (m + s + 2) (fl_capacities fl) 0 = (\<Sum>j<m + s + 2. net_cell m s d l q 0 j)"
    by (simp add: out_sum_def cells)
  then have "out_sum (m + s + 2) (fl_capacities fl) 0 \<le> u64_max"
    using fits unfolding sum_nodes by (simp add: net_cell_cases)
  ultimately show ?thesis by (simp add: bounded_def)
qed

lemma node_consumption_ok:
  assumes net: "network fl m s demand d l q" and k: "k < s"
    and fits: "(\<Sum>i<m. caps ! Suc (m + k) ! Suc i) \<le> u32_max"
  shows "node_consumption fl caps k = Inr (\<Sum>i<m. caps ! Suc (m + k) ! Suc i)"
proof -
  let ?c = "\<lambda>i. caps ! Suc (m + k) ! Suc i"
  let ?f = "\<lambda>ingredient consumed.
       and_then (ok_or (checked_add usize_max ingredient 1) QuantityOverflow) (\<lambda>ingredient_node.
       ok_or (checked_add u64_max consumed (caps ! Suc (m + k) ! ingredient_node)) QuantityOverflow)"
  have small: "Suc i \<le> usize_max" if "i < m" for i
    using net that by (simp add: network_def usize_max_def)
  have sums: "(\<Sum>i<j. ?c i) \<le> u32_max" if "j \<le> m" for j
    using fits sum_mono2 [of "{..<m}" "{..<j}" ?c] that by fastforce
  have step: "?f i (\<Sum>i<i. ?c i) = Inr (\<Sum>i<Suc i. ?c i)" if "i < m" for i
    using sums [of "Suc i"] that small [OF that]
    by (simp add: checked_add_def ok_or_def u32_max_def u64_max_def)
  have "\<exists>consumed. try_fold ?f [0..<m] 0 = Inr consumed \<and> consumed = (\<Sum>i<m. ?c i)"
    by (rule try_fold_upt) (use step in auto)
  moreover have "fl_ingredients fl = m" using net by (simp add: network_def)
  ultimately show ?thesis
    using slot_node_ok [OF net k] fits
    by (simp add: node_consumption_def ok_or_def try_from_def)
qed

text \<open>Appending one result per step is a map.\<close>

lemma try_fold_collect:
  assumes "\<And>k. k < s \<Longrightarrow> f k = Inr (g k)"
  shows "try_fold (\<lambda>k acc. and_then (f k) (\<lambda>c. Inr (acc @ [c]))) [0..<s] [] = Inr (map g [0..<s])"
proof -
  have "\<exists>r. try_fold (\<lambda>k acc. and_then (f k) (\<lambda>c. Inr (acc @ [c]))) [0..<s] [] = Inr r \<and>
      r = map g [0..<s]"
    by (rule try_fold_upt) (simp_all add: assms)
  then show ?thesis by simp
qed

lemma solve_decides:
  assumes net: "network fl m s (\<Sum>i<m. d i) d l q" and fits: "(\<Sum>i<m. d i) \<le> u64_max"
    and usable: "\<And>i k. i < m \<Longrightarrow> k < s \<Longrightarrow> if usable i k then d i \<le> l i k else l i k = 0"
    and l: "\<And>i k. i < m \<Longrightarrow> k < s \<Longrightarrow> l i k \<le> u64_max"
    and q: "\<And>k. k < s \<Longrightarrow> q k \<le> u32_max"
  shows "(\<exists>a. assignment m s d usable q a \<and> solve fl = Inr (Some (map (\<lambda>k. \<Sum>i<m. a i k) [0..<s]))) \<or>
    ((\<nexists>a. assignment m s d usable q a) \<and> solve fl = Inr None)"
proof -
  let ?C = "fl_capacities fl" and ?n = "m + s + 2" and ?sink = "m + s + 1"
  have fl: "fl_sink fl = ?sink" "fl_total_demand fl = (\<Sum>i<m. d i)" "fl_slots fl = s" "square ?n ?C"
    using net by (simp_all add: network_def)
  note rn = network_recipe [OF net usable]
  have "q k \<le> u64_max" if "k < s" for k using q [OF that] by (simp add: u32_max_def u64_max_def)
  note bounded = network_bounded [OF net fits l this]
  from flow_loop_total [OF carries_initial [OF fl(4)] bounded, of ?sink] obtain caps flow S where run:
    "flow_loop ?sink ?C 0 = Inr (caps, flow)" "carries ?n ?C ?sink caps flow" "is_cut ?n ?sink S"
    "\<forall>u \<in> S. \<forall>v < ?n. v \<notin> S \<longrightarrow> caps ! u ! v = 0" by auto
  have le: "flow \<le> (\<Sum>i<m. d i)"
    using carriesD(3) [OF run(2), of 0] out_source [OF rn] by simp
  show ?thesis
  proof (cases "flow = (\<Sum>i<m. d i)")
    case True
    let ?a = "\<lambda>i k. caps ! Suc (m + k) ! Suc i"
    have a: "assignment m s d usable q ?a"
      using full_flow_assignment [OF rn] run(2) True by simp
    have "node_consumption fl caps k = Inr (\<Sum>i<m. ?a i k)" if "k < s" for k
      using assignmentD(3) [OF a that] q [OF that] by (intro node_consumption_ok [OF net that]) simp
    then have "solve fl = Inr (Some (map (\<lambda>k. \<Sum>i<m. ?a i k) [0..<s]))"
      using try_fold_collect [of s "node_consumption fl caps"] run(1) True by (simp add: solve_def fl)
    with a show ?thesis by blast
  next
    case False
    have "\<not> assignment m s d usable q a" for a
      using assignment_value [OF rn _ run(2-4), of a] le False by fastforce
    moreover have "solve fl = Inr None" using run(1) False by (simp add: solve_def fl)
    ultimately show ?thesis by blast
  qed
qed

end
