(* ===== verification/Shapeless.thy ===== *)
theory Shapeless
  imports Flow_Assign
begin

section \<open>Shapeless consumption decides the assignment problem\<close>

text \<open>
  \<open>consume_shapeless\<close> builds the network of its recipe, solves it and takes the allocated
  units. It succeeds exactly when the ingredients can be paid from the named slots.
\<close>

subsection \<open>Building the network\<close>

definition usable_slot ::
    "catalog \<Rightarrow> slots \<Rightarrow> slot_index list \<Rightarrow> ingredient list \<Rightarrow> nat \<Rightarrow> nat \<Rightarrow> bool" where
  "usable_slot cat xs input_slots ings i k = slot_matches cat (ings ! i) (xs ! (input_slots ! k))"

definition demand_of :: "ingredient list \<Rightarrow> nat \<Rightarrow> nat" where
  "demand_of ings i = ing_quantity (ings ! i)"

definition supply_of :: "slots \<Rightarrow> slot_index list \<Rightarrow> nat \<Rightarrow> nat" where
  "supply_of xs input_slots k = slot_quantity (xs ! (input_slots ! k))"

lemma connect_row:
  assumes net: "network fl m (length input_slots) demand d l q" and i: "i < m"
    and range: "\<forall>slot \<in> set input_slots. slot < length xs"
  shows "\<exists>fl'. try_fold (\<lambda>(k, slot) fl. and_then (slot_ref xs slot) (\<lambda>v.
        if slot_matches cat g v then connect fl i k else Inr fl)) (enumerate 0 input_slots) fl = Inr fl' \<and>
    network fl' m (length input_slots) demand d (l(i := \<lambda>k. if k < length input_slots \<and>
      slot_matches cat g (xs ! (input_slots ! k)) then max demand 1 else l i k)) q"
    (is "\<exists>fl'. try_fold ?f _ _ = _ \<and> _")
proof -
  let ?s = "length input_slots" and ?match = "\<lambda>k. slot_matches cat g (xs ! (input_slots ! k))"
  let ?l = "\<lambda>j. l(i := \<lambda>k. if k < j \<and> ?match k then max demand 1 else l i k)"
  show ?thesis
  proof (rule try_fold_enumerate [of "\<lambda>j fl. network fl m ?s demand d (?l j) q"])
    show "network fl m ?s demand d (?l 0) q" using net by simp
  next
    fix k fl
    assume k: "k < ?s" and net: "network fl m ?s demand d (?l k) q"
    have slot: "slot_ref xs (input_slots ! k) = Inr (xs ! (input_slots ! k))"
      using range k by (simp add: slot_ref_Inr)
    show "\<exists>fl'. ?f (k, input_slots ! k) fl = Inr fl' \<and> network fl' m ?s demand d (?l (Suc k)) q"
    proof (cases "?match k")
      case True
      have "(?l k)(i := ((?l k) i)(k := max demand 1)) = ?l (Suc k)"
        using True by (auto simp: fun_eq_iff less_Suc_eq)
      with connect_ok [OF net i k] True slot show ?thesis by simp
    next
      case False
      then have "?l (Suc k) = ?l k" by (auto simp: fun_eq_iff less_Suc_eq)
      with net False slot show ?thesis by simp
    qed
  qed
qed

text \<open>After the ingredients below \<open>i\<close>.\<close>

definition demanded ::
    "catalog \<Rightarrow> slots \<Rightarrow> slot_index list \<Rightarrow> ingredient list \<Rightarrow> nat \<Rightarrow> ingredient_flow \<Rightarrow> bool" where
  "demanded cat xs input_slots ings i fl \<longleftrightarrow> (\<exists>d l.
     network fl (length ings) (length input_slots) (\<Sum>j<i. demand_of ings j) d l (\<lambda>_. 0) \<and>
     (\<forall>j<i. d j = demand_of ings j) \<and> (\<forall>j\<ge>i. \<forall>k. l j k = 0) \<and>
     (\<forall>j<i. \<forall>k < length input_slots. if usable_slot cat xs input_slots ings j k
        then demand_of ings j \<le> l j k \<and> l j k \<le> max (\<Sum>j<i. demand_of ings j) 1 else l j k = 0))"

lemma demanded_step:
  assumes "demanded cat xs input_slots ings i fl" and i: "i < length ings"
    and fits: "(\<Sum>j<Suc i. demand_of ings j) \<le> u64_max"
    and range: "\<forall>slot \<in> set input_slots. slot < length xs"
  shows "\<exists>fl'. and_then (set_demand fl i (ing_quantity (ings ! i))) (\<lambda>fl.
      try_fold (\<lambda>(k, slot) fl. and_then (slot_ref xs slot) (\<lambda>v.
        if slot_matches cat (ings ! i) v then connect fl i k else Inr fl))
        (enumerate 0 input_slots) fl) = Inr fl' \<and> demanded cat xs input_slots ings (Suc i) fl'"
proof -
  let ?m = "length ings" and ?s = "length input_slots"
  let ?D = "\<lambda>i. \<Sum>j<i. demand_of ings j"
  from assms(1) obtain d l where net: "network fl ?m ?s (?D i) d l (\<lambda>_. 0)"
    and d: "\<And>j. j < i \<Longrightarrow> d j = demand_of ings j" and zero: "\<And>j k. i \<le> j \<Longrightarrow> l j k = 0"
    and link: "\<And>j k. j < i \<Longrightarrow> k < ?s \<Longrightarrow> if usable_slot cat xs input_slots ings j k
        then demand_of ings j \<le> l j k \<and> l j k \<le> max (?D i) 1 else l j k = 0"
    unfolding demanded_def by blast
  let ?d = "d(i := demand_of ings i)"
  let ?l = "l(i := \<lambda>k. if k < ?s \<and> slot_matches cat (ings ! i) (xs ! (input_slots ! k))
      then max (?D (Suc i)) 1 else l i k)"
  from set_demand_ok [OF net i, of "demand_of ings i"] fits obtain fl1 where fl1:
    "set_demand fl i (ing_quantity (ings ! i)) = Inr fl1" "network fl1 ?m ?s (?D (Suc i)) ?d l (\<lambda>_. 0)"
    by (auto simp: demand_of_def)
  from connect_row [OF fl1(2) i range, of cat "ings ! i"] obtain fl2 where fl2:
    "try_fold (\<lambda>(k, slot) fl. and_then (slot_ref xs slot) (\<lambda>v.
        if slot_matches cat (ings ! i) v then connect fl i k else Inr fl)) (enumerate 0 input_slots) fl1 =
     Inr fl2" "network fl2 ?m ?s (?D (Suc i)) ?d ?l (\<lambda>_. 0)" by blast
  have "if usable_slot cat xs input_slots ings j k
      then demand_of ings j \<le> ?l j k \<and> ?l j k \<le> max (?D (Suc i)) 1 else ?l j k = 0"
    if "j < Suc i" "k < ?s" for j k
  proof (cases "j = i")
    case True
    with that(2) zero [of i k] show ?thesis by (auto simp: usable_slot_def)
  next
    case False
    with that have "j < i" by simp
    with link [OF this that(2)] show ?thesis by auto
  qed
  moreover have "\<forall>j<Suc i. ?d j = demand_of ings j" using d by (simp add: less_Suc_eq)
  moreover have "\<forall>j\<ge>Suc i. \<forall>k. ?l j k = 0" using zero by simp
  ultimately have "demanded cat xs input_slots ings (Suc i) fl2"
    unfolding demanded_def using fl2(2) by blast
  with fl1(1) fl2(1) show ?thesis by simp
qed

lemma supply_fold:
  assumes net: "network fl m (length input_slots) demand d l (\<lambda>_. 0)"
    and range: "\<forall>slot \<in> set input_slots. slot < length xs"
  shows "\<exists>fl' q. try_fold (\<lambda>(k, slot) fl. and_then (slot_ref xs slot) (\<lambda>v.
        set_slot_capacity fl k (slot_quantity v))) (enumerate 0 input_slots) fl = Inr fl' \<and>
    network fl' m (length input_slots) demand d l q \<and>
    (\<forall>k < length input_slots. q k = supply_of xs input_slots k)"
    (is "\<exists>fl' q. try_fold ?f _ _ = _ \<and> _")
proof -
  let ?s = "length input_slots"
  let ?q = "\<lambda>j k. if k < j then supply_of xs input_slots k else 0"
  have "\<exists>fl'. try_fold ?f (enumerate 0 input_slots) fl = Inr fl' \<and> network fl' m ?s demand d l (?q ?s)"
  proof (rule try_fold_enumerate [of "\<lambda>j fl. network fl m ?s demand d l (?q j)"])
    show "network fl m ?s demand d l (?q 0)" using net by simp
  next
    fix k fl
    assume k: "k < ?s" and net: "network fl m ?s demand d l (?q k)"
    have "slot_ref xs (input_slots ! k) = Inr (xs ! (input_slots ! k))"
      using range k by (simp add: slot_ref_Inr)
    moreover have "(?q k)(k := supply_of xs input_slots k) = ?q (Suc k)"
      by (auto simp: fun_eq_iff less_Suc_eq)
    ultimately show "\<exists>fl'. ?f (k, input_slots ! k) fl = Inr fl' \<and> network fl' m ?s demand d l (?q (Suc k))"
      using set_slot_capacity_ok [OF net k, of "supply_of xs input_slots k"]
      by (simp add: supply_of_def)
  qed
  then obtain fl' where "try_fold ?f (enumerate 0 input_slots) fl = Inr fl'"
    "network fl' m ?s demand d l (?q ?s)" by blast
  then show ?thesis by (intro exI [of _ fl'] exI [of _ "?q ?s"]) simp
qed

text \<open>The sum of at most 512 quantities of 32 bits fits into 64 bits.\<close>

lemma demands_fit:
  assumes "\<forall>ing \<in> set ings. ing_quantity ing \<le> u32_max" "n \<le> length ings" "length ings \<le> 512"
  shows "(\<Sum>j<n. demand_of ings j) \<le> 512 * u32_max"
proof -
  have "(\<Sum>j<n. demand_of ings j) \<le> (\<Sum>j<n. u32_max)"
    using assms by (intro sum_mono) (simp add: demand_of_def)
  also have "\<dots> \<le> 512 * u32_max" using assms by simp
  finally show ?thesis .
qed

lemma build_flow_ok:
  fixes ings :: "ingredient list"
  assumes size: "length ings + length input_slots \<le> 512"
    and range: "\<forall>slot \<in> set input_slots. slot < length xs"
    and typed: "\<forall>ing \<in> set ings. ing_quantity ing \<le> u32_max"
  shows "\<exists>fl d l q. build_flow cat xs input_slots ings = Inr fl \<and>
    network fl (length ings) (length input_slots) (\<Sum>i<length ings. d i) d l q \<and>
    (\<Sum>i<length ings. d i) \<le> u64_max \<and> (\<forall>i<length ings. d i = demand_of ings i) \<and>
    (\<forall>i<length ings. \<forall>k<length input_slots. l i k \<le> u64_max \<and>
       (if usable_slot cat xs input_slots ings i k then d i \<le> l i k else l i k = 0)) \<and>
    (\<forall>k<length input_slots. q k = supply_of xs input_slots k)"
proof -
  let ?m = "length ings" and ?s = "length input_slots"
  let ?D = "\<Sum>i<?m. demand_of ings i"
  from flow_new_ok [of ?m ?s] size obtain fl0 where fl0: "flow_new ?m ?s = Inr fl0"
    "network fl0 ?m ?s 0 (\<lambda>_. 0) (\<lambda>_ _. 0) (\<lambda>_. 0)" by auto
  have fits: "(\<Sum>j<i. demand_of ings j) \<le> 512 * u32_max" if "i \<le> ?m" for i
    using demands_fit [OF typed that] size by simp
  have "\<exists>fl1. try_fold (\<lambda>(i, ingredient) fl.
         and_then (set_demand fl i (ing_quantity ingredient)) (\<lambda>fl.
         try_fold (\<lambda>(k, slot) fl.
           and_then (slot_ref xs slot) (\<lambda>v.
           if slot_matches cat ingredient v then connect fl i k else Inr fl))
           (enumerate 0 input_slots) fl)) (enumerate 0 ings) fl0 = Inr fl1 \<and>
       demanded cat xs input_slots ings ?m fl1"
    (is "\<exists>fl1. try_fold ?f _ _ = _ \<and> _")
  proof (rule try_fold_enumerate)
    show "demanded cat xs input_slots ings 0 fl0" using fl0(2) by (auto simp: demanded_def)
  next
    fix i fl
    assume i: "i < ?m" and fl: "demanded cat xs input_slots ings i fl"
    have "(\<Sum>j<Suc i. demand_of ings j) \<le> u64_max"
      using fits [of "Suc i"] i by (simp add: u32_max_def u64_max_def)
    from demanded_step [OF fl i this range]
    show "\<exists>fl'. ?f (i, ings ! i) fl = Inr fl' \<and> demanded cat xs input_slots ings (Suc i) fl'" by simp
  qed
  then obtain fl1 d l where fl1: "try_fold ?f (enumerate 0 ings) fl0 = Inr fl1"
    and net: "network fl1 ?m ?s ?D d l (\<lambda>_. 0)" and d: "\<forall>i<?m. d i = demand_of ings i"
    and link: "\<forall>i<?m. \<forall>k<?s. if usable_slot cat xs input_slots ings i k
        then demand_of ings i \<le> l i k \<and> l i k \<le> max ?D 1 else l i k = 0"
    unfolding demanded_def by blast
  from supply_fold [OF net range] obtain fl2 q where fl2:
    "try_fold (\<lambda>(k, slot) fl. and_then (slot_ref xs slot) (\<lambda>v.
        set_slot_capacity fl k (slot_quantity v))) (enumerate 0 input_slots) fl1 = Inr fl2"
    "network fl2 ?m ?s ?D d l q" "\<forall>k<?s. q k = supply_of xs input_slots k" by blast
  have "build_flow cat xs input_slots ings = Inr fl2"
    using fl0(1) fl1 fl2(1) by (simp add: build_flow_def)
  moreover have sum: "(\<Sum>i<?m. d i) = ?D" using d by simp
  moreover have small: "?D \<le> u64_max" using fits [of ?m] by (simp add: u32_max_def u64_max_def)
  moreover have "max ?D 1 \<le> u64_max" using small by (simp add: u64_max_def)
  then have "l i k \<le> u64_max \<and> (if usable_slot cat xs input_slots ings i k then d i \<le> l i k else l i k = 0)"
    if "i < ?m" "k < ?s" for i k
    using link [rule_format, OF that] d that by (auto split: if_splits)
  ultimately show ?thesis using fl2(2,3) d by metis
qed

subsection \<open>Taking the allocated units\<close>

fun taken :: "item_stack option \<Rightarrow> u32 \<Rightarrow> item_stack option" where
  "taken None c = None"
| "taken (Some st) c =
     (if stack_quantity st \<le> c then None else Some (st\<lparr>stack_quantity := stack_quantity st - c\<rparr>))"

lemma consume_slot_ok:
  assumes "slot < length xs" "c \<le> slot_quantity (xs ! slot)"
    and "\<And>st. xs ! slot = Some st \<Longrightarrow> 0 < stack_quantity st \<and> (stack_state st = Plain \<or> stack_quantity st = 1)"
  shows "consume_slot recipe (slot, c) xs = Inr (xs[slot := taken (xs ! slot) c])"
proof (cases "xs ! slot")
  case None
  then have "c = 0" using assms(2) by (simp add: slot_quantity_def)
  moreover have "xs[slot := None] = xs" using None by (metis list_update_id)
  ultimately show ?thesis using None by (simp add: consume_slot_def)
next
  case (Some st)
  show ?thesis
  proof (cases "c = 0")
    case True
    with Some assms(3) have "taken (xs ! slot) c = xs ! slot" by simp
    then have "xs[slot := taken (xs ! slot) c] = xs" by simp
    with True show ?thesis by (simp add: consume_slot_def)
  next
    case False
    have "with_quantity st (stack_quantity st - c) = Inr (taken (Some st) c)"
      using assms(2,3) Some False by (auto simp: with_quantity_Inr slot_quantity_def)
    with Some False assms(1,2) show ?thesis
      by (simp add: consume_slot_def slot_ref_def get_index_def ok_or_def checked_sub_def slot_quantity_def)
  qed
qed

lemma consume_fold_ok:
  assumes "distinct slots" "length alloc = length slots" "\<forall>slot \<in> set slots. slot < length xs"
    and "\<forall>k < length slots. alloc ! k \<le> slot_quantity (xs ! (slots ! k))"
    and "\<And>slot st. slot \<in> set slots \<Longrightarrow> xs ! slot = Some st \<Longrightarrow>
      0 < stack_quantity st \<and> (stack_state st = Plain \<or> stack_quantity st = 1)"
  shows "\<exists>ys. try_fold (consume_slot recipe) (zip slots alloc) xs = Inr ys \<and> length ys = length xs \<and>
    (\<forall>k < length slots. ys ! (slots ! k) = taken (xs ! (slots ! k)) (alloc ! k)) \<and>
    (\<forall>i. i \<notin> set slots \<longrightarrow> ys ! i = xs ! i)"
  using assms
proof (induction slots arbitrary: alloc xs)
  case Nil
  then show ?case by simp
next
  case (Cons slot slots)
  from Cons.prems(2) obtain c rest where alloc: "alloc = c # rest" by (cases alloc) auto
  let ?mid = "xs[slot := taken (xs ! slot) c]"
  have "c \<le> slot_quantity (xs ! slot)" using Cons.prems(4) alloc by force
  then have step: "consume_slot recipe (slot, c) xs = Inr ?mid"
    using Cons.prems(3,5) by (intro consume_slot_ok) auto
  have fresh: "slot \<notin> set slots" using Cons.prems(1) by simp
  have same: "?mid ! i = xs ! i" if "i \<in> set slots" for i using that fresh by (metis nth_list_update_neq)
  have "\<exists>ys. try_fold (consume_slot recipe) (zip slots rest) ?mid = Inr ys \<and> length ys = length ?mid \<and>
    (\<forall>k < length slots. ys ! (slots ! k) = taken (?mid ! (slots ! k)) (rest ! k)) \<and>
    (\<forall>i. i \<notin> set slots \<longrightarrow> ys ! i = ?mid ! i)"
  proof (rule Cons.IH)
    show "\<forall>k < length slots. rest ! k \<le> slot_quantity (?mid ! (slots ! k))"
      using Cons.prems(4) alloc same by fastforce
    show "0 < stack_quantity st \<and> (stack_state st = Plain \<or> stack_quantity st = 1)"
      if "i \<in> set slots" "?mid ! i = Some st" for i st
      using that Cons.prems(5) [of i st] same by simp
  qed (use Cons.prems(1-3) alloc in auto)
  then obtain ys where ys: "try_fold (consume_slot recipe) (zip slots rest) ?mid = Inr ys"
    "length ys = length xs" "\<And>k. k < length slots \<Longrightarrow> ys ! (slots ! k) = taken (?mid ! (slots ! k)) (rest ! k)"
    "\<And>i. i \<notin> set slots \<Longrightarrow> ys ! i = ?mid ! i" by auto
  have "ys ! ((slot # slots) ! k) = taken (xs ! ((slot # slots) ! k)) (alloc ! k)"
    if "k < length (slot # slots)" for k
  proof (cases k)
    case 0
    then show ?thesis using ys(4) [OF fresh] Cons.prems(3) alloc by simp
  next
    case (Suc j)
    then show ?thesis using ys(3) [of j] same [of "slots ! j"] that alloc by simp
  qed
  moreover have "ys ! i = xs ! i" if "i \<notin> set (slot # slots)" for i
    using ys(4) [of i] that by simp
  ultimately show ?case using step ys(1,2) alloc by (intro exI [of _ ys]) simp
qed


subsection \<open>The verdict\<close>

definition payment ::
    "catalog \<Rightarrow> slots \<Rightarrow> slot_index list \<Rightarrow> ingredient list \<Rightarrow> (nat \<Rightarrow> nat \<Rightarrow> nat) \<Rightarrow> bool" where
  "payment cat xs input_slots ings =
     assignment (length ings) (length input_slots) (demand_of ings)
       (usable_slot cat xs input_slots ings) (supply_of xs input_slots)"

lemma assignment_cong:
  assumes "\<And>i. i < m \<Longrightarrow> d i = d' i" "\<And>k. k < s \<Longrightarrow> q k = q' k"
  shows "assignment m s d usable q = assignment m s d' usable q'"
  using assms by (simp add: assignment_def fun_eq_iff)

lemma slots_ok_payable:
  assumes "slots_ok cat xs" "slot < length xs" "xs ! slot = Some st"
  shows "0 < stack_quantity st \<and> (stack_state st = Plain \<or> stack_quantity st = 1)"
proof -
  from slots_ok_nth [OF assms] have "stack_typed st" "validate_stack cat st = Inr ()" by simp_all
  then show ?thesis by (auto simp: stack_typed_def validate_stack_Inr split: item_state.splits)
qed

lemma supply_bound:
  assumes "slots_ok cat xs" "\<forall>slot \<in> set input_slots. slot < length xs" "k < length input_slots"
  shows "supply_of xs input_slots k \<le> u32_max"
proof (cases "xs ! (input_slots ! k)")
  case (Some st)
  from slots_ok_nth [OF assms(1) _ Some] assms(2,3) have "stack_typed st" by simp
  with Some show ?thesis by (simp add: supply_of_def slot_quantity_def stack_typed_def)
qed (simp add: supply_of_def slot_quantity_def)

lemma consume_shapeless_cases:
  assumes slots: "slots_ok cat xs" and dist: "distinct input_slots"
    and range: "\<forall>slot \<in> set input_slots. slot < length xs"
    and size: "length ings + length input_slots \<le> 512"
    and typed: "\<forall>ing \<in> set ings. ing_quantity ing \<le> u32_max"
  shows "(\<exists>a ys. payment cat xs input_slots ings a \<and>
      consume_shapeless cat xs input_slots ings recipe = Inr ys \<and> length ys = length xs \<and>
      (\<forall>k < length input_slots. ys ! (input_slots ! k) =
         taken (xs ! (input_slots ! k)) (\<Sum>i<length ings. a i k)) \<and>
      (\<forall>i. i \<notin> set input_slots \<longrightarrow> ys ! i = xs ! i)) \<or>
    ((\<nexists>a. payment cat xs input_slots ings a) \<and>
      consume_shapeless cat xs input_slots ings recipe = Inl (RecipeMismatch recipe))"
proof -
  let ?m = "length ings" and ?s = "length input_slots" and ?usable = "usable_slot cat xs input_slots ings"
  from build_flow_ok [OF size range typed, of cat] obtain fl d l q where
    fl: "build_flow cat xs input_slots ings = Inr fl" "network fl ?m ?s (\<Sum>i<?m. d i) d l q"
      "(\<Sum>i<?m. d i) \<le> u64_max"
    and d: "\<forall>i<?m. d i = demand_of ings i" and q: "\<forall>k<?s. q k = supply_of xs input_slots k"
    and l: "\<forall>i<?m. \<forall>k<?s. l i k \<le> u64_max \<and> (if ?usable i k then d i \<le> l i k else l i k = 0)"
    by blast
  have spec: "assignment ?m ?s d ?usable q = payment cat xs input_slots ings"
    unfolding payment_def by (rule assignment_cong) (use d q in auto)
  have "try_each (\<lambda>slot. and_then (slot_ref xs slot) (\<lambda>_. Inr ())) input_slots = Inr ()"
    using range by (auto simp: try_each_Inr and_then_Inr slot_ref_Inr)
  then have consume: "consume_shapeless cat xs input_slots ings recipe =
    and_then (solve fl) (\<lambda>result. and_then (ok_or result (RecipeMismatch recipe)) (\<lambda>allocation.
      try_fold (consume_slot recipe) (zip input_slots allocation) xs))"
    using fl(1) by (simp add: consume_shapeless_def)
  have "q k \<le> u32_max" if "k < ?s" for k using q supply_bound [OF slots range that] that by simp
  from solve_decides [OF fl(2,3), of ?usable] l this consider
      (paid) a where "payment cat xs input_slots ings a"
        "solve fl = Inr (Some (map (\<lambda>k. \<Sum>i<?m. a i k) [0..<?s]))"
    | (short) "\<nexists>a. payment cat xs input_slots ings a" "solve fl = Inr None"
    unfolding spec by blast
  then show ?thesis
  proof cases
    case paid
    have "(\<Sum>i<?m. a i k) \<le> slot_quantity (xs ! (input_slots ! k))" if "k < ?s" for k
      using assignmentD(3) [OF paid(1) [unfolded payment_def] that] by (simp add: supply_of_def)
    then have "\<exists>ys. try_fold (consume_slot recipe) (zip input_slots (map (\<lambda>k. \<Sum>i<?m. a i k) [0..<?s])) xs =
        Inr ys \<and> length ys = length xs \<and>
      (\<forall>k < ?s. ys ! (input_slots ! k) = taken (xs ! (input_slots ! k)) (map (\<lambda>k. \<Sum>i<?m. a i k) [0..<?s] ! k)) \<and>
      (\<forall>i. i \<notin> set input_slots \<longrightarrow> ys ! i = xs ! i)"
      using slots_ok_payable [OF slots] range by (intro consume_fold_ok [OF dist]) (simp_all, blast)
    then obtain ys where "try_fold (consume_slot recipe)
        (zip input_slots (map (\<lambda>k. \<Sum>i<?m. a i k) [0..<?s])) xs = Inr ys"
      "length ys = length xs" "\<forall>k < ?s. ys ! (input_slots ! k) = taken (xs ! (input_slots ! k)) (\<Sum>i<?m. a i k)"
      "\<forall>i. i \<notin> set input_slots \<longrightarrow> ys ! i = xs ! i" by auto
    moreover from this(1) have "consume_shapeless cat xs input_slots ings recipe = Inr ys"
      by (simp add: consume paid(2) ok_or_def)
    ultimately show ?thesis using paid(1) by blast
  next
    case short
    then show ?thesis by (simp add: consume ok_or_def)
  qed
qed

text \<open>C12: shapeless consumption decides the recipe. It returns slots exactly when the ingredients
  can be paid: when units of the named slots can be assigned to the ingredients so that each
  ingredient gets its quantity from slots it accepts and no slot is overdrawn. Then just the
  assigned units are taken and no other slot changes; otherwise the answer is the mismatch of
  this recipe. The Edmonds-Karp loop neither overflows nor runs on.\<close>

theorem shapeless_decides:
  assumes "slots_ok cat xs" and "distinct input_slots"
    and "\<forall>slot \<in> set input_slots. slot < length xs"
    and "length ings + length input_slots \<le> 512"
    and "\<forall>ing \<in> set ings. ing_quantity ing \<le> u32_max"
  shows "case consume_shapeless cat xs input_slots ings recipe of
      Inr ys \<Rightarrow> \<exists>a. payment cat xs input_slots ings a \<and> length ys = length xs \<and>
        (\<forall>k < length input_slots. ys ! (input_slots ! k) =
           taken (xs ! (input_slots ! k)) (\<Sum>i<length ings. a i k)) \<and>
        (\<forall>i. i \<notin> set input_slots \<longrightarrow> ys ! i = xs ! i)
    | Inl e \<Rightarrow> e = RecipeMismatch recipe \<and> (\<nexists>a. payment cat xs input_slots ings a)"
  using consume_shapeless_cases [OF assms, of recipe] by auto

text \<open>
  One unit of ore and two of dirt pay for two units of ore or dirt and one of ore, though
  the first ingredient must leave the ore to the second; without the ore nothing pays.
\<close>

definition melt_ingredients :: "ingredient list" where
  "melt_ingredients =
     [\<lparr>ing_accepts = AnyOf [Exact ''ore'', Exact ''dirt''], ing_quantity = 2\<rparr>,
      \<lparr>ing_accepts = Exact ''ore'', ing_quantity = 1\<rparr>]"

lemma shapeless_decides_witness:
  "(\<exists>a. payment sample_catalog [Some (ore_stack 1), Some (dirt_stack 2)] [0, 1] melt_ingredients a) \<and>
   (\<nexists>a. payment sample_catalog [None, Some (dirt_stack 9)] [0, 1] melt_ingredients a)"
proof -
  have ok: "slots_ok sample_catalog [Some (ore_stack 1), Some (dirt_stack 2)]"
    "slots_ok sample_catalog [None, Some (dirt_stack 9)]"
    "length melt_ingredients + length [0 :: nat, 1] \<le> 512"
    "\<forall>ing \<in> set melt_ingredients. ing_quantity ing \<le> u32_max" by code_simp+
  have run: "consume_shapeless sample_catalog [Some (ore_stack 1), Some (dirt_stack 2)] [0, 1]
      melt_ingredients ''melt'' = Inr [None, None]"
    "consume_shapeless sample_catalog [None, Some (dirt_stack 9)] [0, 1]
      melt_ingredients ''melt'' = Inl (RecipeMismatch ''melt'')" by code_simp+
  from shapeless_decides [OF ok(1) _ _ ok(3,4), of "''melt''"] run(1)
    shapeless_decides [OF ok(2) _ _ ok(3,4), of "''melt''"] run(2)
  show ?thesis by auto
qed

end
