(* ===== verification/World_Items.thy ===== *)
theory World_Items
  imports Applier_Correct
begin

section \<open>The items of a world\<close>

text \<open>
  How many units of an item a loaded world holds, in inventories and containers, on the
  ground, and owed by scheduled processes; the typing of its stacks; and what each
  command's plan does to both. Every lemma is about the state that the plan's edits lead
  to, which \<open>Plan_Commands\<close> has computed.
\<close>

subsection \<open>Sums over a map\<close>

definition map_sum :: "('v \<Rightarrow> nat) \<Rightarrow> ('k::linorder, 'v) btree \<Rightarrow> nat" where
  "map_sum f m = sum_list (map f (bt_values m))"

lemma map_sum_keys: "map_sum f m = (\<Sum>k\<in>set (bt_keys m). f (the (bt_get m k)))"
proof -
  have "f (snd e) = f (the (bt_get m (fst e)))" if "e \<in> set (entries m)" for e
    using that bt.entries_get [of "fst e" "snd e" m] by simp
  then have "map f (bt_values m) = map (\<lambda>k. f (the (bt_get m k))) (bt_keys m)"
    by (simp add: bt_values_def bt_keys_def)
  then show ?thesis
    by (simp add: map_sum_def sum_list_distinct_conv_sum_set bt_keys_distinct)
qed

lemma keys_insert: "set (bt_keys (bt_insert k v m)) = Set.insert k (set (bt_keys m))"
  by (auto simp: bt_contains_keys bt.get_insert split: if_splits)

lemma keys_remove: "set (bt_keys (bt_remove k m)) = set (bt_keys m) - {k}"
  by (auto simp: bt_contains_keys bt.get_remove split: if_splits)

definition entry_sum :: "('v \<Rightarrow> nat) \<Rightarrow> 'v option \<Rightarrow> nat" where
  "entry_sum f v = (case v of None \<Rightarrow> 0 | Some x \<Rightarrow> f x)"

lemma entry_sum_simps [simp]: "entry_sum f None = 0" "entry_sum f (Some x) = f x"
  by (simp_all add: entry_sum_def)

lemma map_sum_split:
  "map_sum f m = entry_sum f (bt_get m k) + (\<Sum>k'\<in>set (bt_keys m) - {k}. f (the (bt_get m k')))"
proof (cases "bt_get m k")
  case None
  then have "k \<notin> set (bt_keys m)" by (simp add: bt_contains_keys)
  with None show ?thesis by (simp add: map_sum_keys)
next
  case (Some v)
  then have "k \<in> set (bt_keys m)" by (simp add: bt_contains_keys)
  with Some show ?thesis by (simp add: map_sum_keys sum.remove)
qed

lemma map_sum_insert: "map_sum f (bt_insert k v m) + entry_sum f (bt_get m k) = map_sum f m + f v"
proof -
  have "(\<Sum>k'\<in>set (bt_keys (bt_insert k v m)) - {k}. f (the (bt_get (bt_insert k v m) k'))) =
    (\<Sum>k'\<in>set (bt_keys m) - {k}. f (the (bt_get m k')))"
    by (rule sum.cong) (auto simp: keys_insert bt.get_insert)
  then show ?thesis
    using map_sum_split [of f "bt_insert k v m" k] map_sum_split [of f m k]
    by (simp add: bt.get_insert)
qed

lemma map_sum_remove: "map_sum f (bt_remove k m) + entry_sum f (bt_get m k) = map_sum f m"
proof -
  have "(\<Sum>k'\<in>set (bt_keys (bt_remove k m)) - {k}. f (the (bt_get (bt_remove k m) k'))) =
    (\<Sum>k'\<in>set (bt_keys m) - {k}. f (the (bt_get m k')))"
    by (rule sum.cong) (auto simp: keys_remove bt.get_remove)
  then show ?thesis
    using map_sum_split [of f "bt_remove k m" k] map_sum_split [of f m k]
    by (simp add: bt.get_remove)
qed

subsection \<open>Units and typing\<close>

definition stack_units :: "item_id \<Rightarrow> item_stack \<Rightarrow> nat" where
  "stack_units i st = (if stack_item st = i then stack_quantity st else 0)"

lemma slot_count_Some: "slot_count i (Some st) = stack_units i st"
  by (simp add: stack_units_def)

definition world_units :: "gameplay_state \<Rightarrow> item_id \<Rightarrow> nat" where
  "world_units s i =
     map_sum (\<lambda>ivt. item_total i (inv_slots ivt)) (gs_inventories s) +
     map_sum (\<lambda>c. item_total i (con_slots c)) (gs_containers s) +
     map_sum (\<lambda>d. stack_units i (drop_stack d)) (gs_drops s) +
     map_sum (\<lambda>fc. stack_units i (fc_pending_output fc)) (gs_continuations s)"

text \<open>What the code's types promise of the stacks of a world.\<close>

definition slots_typed :: "slots \<Rightarrow> bool" where
  "slots_typed xs \<longleftrightarrow> (\<forall>st. Some st \<in> set xs \<longrightarrow> stack_typed st)"

definition world_typed :: "gameplay_state \<Rightarrow> bool" where
  "world_typed s \<longleftrightarrow>
     (\<forall>ivt \<in> set (bt_values (gs_inventories s)). slots_typed (inv_slots ivt)) \<and>
     (\<forall>c \<in> set (bt_values (gs_containers s)). slots_typed (con_slots c)) \<and>
     (\<forall>d \<in> set (bt_values (gs_drops s)). stack_typed (drop_stack d)) \<and>
     (\<forall>fc \<in> set (bt_values (gs_continuations s)). stack_typed (fc_pending_output fc))"

lemma slots_typed_code [code]:
  "slots_typed xs \<longleftrightarrow> list_all (\<lambda>slot. case slot of None \<Rightarrow> True | Some st \<Rightarrow> stack_typed st) xs"
  by (auto simp: slots_typed_def list_all_iff split: option.splits)

lemma slots_ok_typed: "slots_ok cat xs \<longleftrightarrow> slots_typed xs \<and> validate_slots cat xs = Inr ()"
  by (auto simp: slots_ok_def slots_typed_def validate_slots_Inr)

lemma values_insert_subset: "set (bt_values (bt_insert k v m)) \<subseteq> Set.insert v (set (bt_values m))"
  by (auto simp: bt_values_iff bt.get_insert split: if_splits)

lemma values_remove_subset: "set (bt_values (bt_remove k m)) \<subseteq> set (bt_values m)"
  by (auto simp: bt_values_iff bt.get_remove split: if_splits)

text \<open>The four kinds of change a plan makes to the stacks of a world.\<close>

lemma units_set_inventory:
  assumes "bt_get (gs_inventories s) p = Some ivt"
  shows "world_units (set_inventory s p ivt') i + item_total i (inv_slots ivt) =
    world_units s i + item_total i (inv_slots ivt')"
  using map_sum_insert [of "\<lambda>ivt. item_total i (inv_slots ivt)" p ivt' "gs_inventories s"] assms
  by (simp add: world_units_def set_inventory_def)

lemma units_set_container:
  assumes "bt_get (gs_containers s) cid = Some c"
  shows "world_units (set_container s cid c') i + item_total i (con_slots c) =
    world_units s i + item_total i (con_slots c')"
  using map_sum_insert [of "\<lambda>c. item_total i (con_slots c)" cid c' "gs_containers s"] assms
  by (simp add: world_units_def set_container_def)

lemma units_add_drop:
  assumes "bt_get (gs_drops s) did = None"
  shows "world_units (s\<lparr>gs_drops := bt_insert did d (gs_drops s)\<rparr>) i =
    world_units s i + stack_units i (drop_stack d)"
  using map_sum_insert [of "\<lambda>d. stack_units i (drop_stack d)" did d "gs_drops s"] assms
  by (simp add: world_units_def)

lemma units_remove_drop:
  assumes "bt_get (gs_drops s) did = Some d"
  shows "world_units (s\<lparr>gs_drops := bt_remove did (gs_drops s)\<rparr>) i + stack_units i (drop_stack d) =
    world_units s i"
  using map_sum_remove [of "\<lambda>d. stack_units i (drop_stack d)" did "gs_drops s"] assms
  by (simp add: world_units_def)

lemma units_add_continuation:
  assumes "bt_get (gs_continuations s) fid = None"
  shows "world_units (s\<lparr>gs_continuations := bt_insert fid fc (gs_continuations s)\<rparr>) i =
    world_units s i + stack_units i (fc_pending_output fc)"
  using map_sum_insert [of "\<lambda>fc. stack_units i (fc_pending_output fc)" fid fc "gs_continuations s"] assms
  by (simp add: world_units_def)

lemma units_remove_continuation:
  assumes "bt_get (gs_continuations s) fid = Some fc"
  shows "world_units (s\<lparr>gs_continuations := bt_remove fid (gs_continuations s)\<rparr>) i +
      stack_units i (fc_pending_output fc) = world_units s i"
  using map_sum_remove [of "\<lambda>fc. stack_units i (fc_pending_output fc)" fid "gs_continuations s"] assms
  by (simp add: world_units_def)

lemma units_others [simp]:
  "world_units (s\<lparr>gs_blocks := b\<rparr>) i = world_units s i"
  "world_units (s\<lparr>gs_break_progress := bp\<rparr>) i = world_units s i"
  by (simp_all add: world_units_def)

lemma gs_set_inventory [simp]:
  "gs_drops (set_inventory s p ivt) = gs_drops s"
  "gs_containers (set_inventory s p ivt) = gs_containers s"
  "gs_continuations (set_inventory s p ivt) = gs_continuations s"
  "gs_blocks (set_inventory s p ivt) = gs_blocks s"
  "gs_break_progress (set_inventory s p ivt) = gs_break_progress s"
  by (simp_all add: set_inventory_def)

lemma gs_set_container [simp]:
  "gs_drops (set_container s cid c) = gs_drops s"
  "gs_inventories (set_container s cid c) = gs_inventories s"
  "gs_continuations (set_container s cid c) = gs_continuations s"
  by (simp_all add: set_container_def)

lemma inv_slots_with_slots [simp]: "inv_slots (with_slots ivt xs) = xs"
  by (simp add: with_slots_def)

lemma con_slots_with_slots [simp]: "con_slots (with_container_slots c xs) = xs"
  by (simp add: with_container_slots_def)

text \<open>Typing is kept by the same four kinds of change.\<close>

lemma typed_inventory:
  "world_typed s \<Longrightarrow> bt_get (gs_inventories s) p = Some ivt \<Longrightarrow> slots_typed (inv_slots ivt)"
  by (auto simp: world_typed_def bt_values_iff)

lemma typed_container:
  "world_typed s \<Longrightarrow> bt_get (gs_containers s) cid = Some c \<Longrightarrow> slots_typed (con_slots c)"
  by (auto simp: world_typed_def bt_values_iff)

lemma typed_drop:
  "world_typed s \<Longrightarrow> bt_get (gs_drops s) did = Some d \<Longrightarrow> stack_typed (drop_stack d)"
  by (auto simp: world_typed_def bt_values_iff)

lemma typed_continuation:
  "world_typed s \<Longrightarrow> bt_get (gs_continuations s) fid = Some fc \<Longrightarrow> stack_typed (fc_pending_output fc)"
  by (auto simp: world_typed_def bt_values_iff)

lemma typed_set_inventory:
  "world_typed s \<Longrightarrow> slots_typed (inv_slots ivt) \<Longrightarrow> world_typed (set_inventory s p ivt)"
  using values_insert_subset [of p ivt "gs_inventories s"]
  by (auto simp: world_typed_def set_inventory_def)

lemma typed_set_container:
  "world_typed s \<Longrightarrow> slots_typed (con_slots c) \<Longrightarrow> world_typed (set_container s cid c)"
  using values_insert_subset [of cid c "gs_containers s"]
  by (auto simp: world_typed_def set_container_def)

lemma typed_add_drop:
  "world_typed s \<Longrightarrow> stack_typed (drop_stack d) \<Longrightarrow>
   world_typed (s\<lparr>gs_drops := bt_insert did d (gs_drops s)\<rparr>)"
  using values_insert_subset [of did d "gs_drops s"] by (auto simp: world_typed_def)

lemma typed_remove_drop:
  "world_typed s \<Longrightarrow> world_typed (s\<lparr>gs_drops := bt_remove did (gs_drops s)\<rparr>)"
  using values_remove_subset [of did "gs_drops s"] by (auto simp: world_typed_def)

lemma typed_add_continuation:
  "world_typed s \<Longrightarrow> stack_typed (fc_pending_output fc) \<Longrightarrow>
   world_typed (s\<lparr>gs_continuations := bt_insert fid fc (gs_continuations s)\<rparr>)"
  using values_insert_subset [of fid fc "gs_continuations s"] by (auto simp: world_typed_def)

lemma typed_remove_continuation:
  "world_typed s \<Longrightarrow> world_typed (s\<lparr>gs_continuations := bt_remove fid (gs_continuations s)\<rparr>)"
  using values_remove_subset [of fid "gs_continuations s"] by (auto simp: world_typed_def)

lemma typed_others [simp]:
  "world_typed (s\<lparr>gs_blocks := b\<rparr>) \<longleftrightarrow> world_typed s"
  "world_typed (s\<lparr>gs_break_progress := bp\<rparr>) \<longleftrightarrow> world_typed s"
  by (simp_all add: world_typed_def)

lemma slots_typed_update:
  "slots_typed xs \<Longrightarrow> (\<And>st. v = Some st \<Longrightarrow> stack_typed st) \<Longrightarrow> slots_typed (xs[k := v])"
  unfolding slots_typed_def using set_update_subset_insert [of xs k v] by blast

lemma slots_typed_nth: "slots_typed xs \<Longrightarrow> k < length xs \<Longrightarrow> xs ! k = Some st \<Longrightarrow> stack_typed st"
  unfolding slots_typed_def by (metis nth_mem)

lemma loaded_slots_ok:
  assumes "validate_loaded sha cat s = Inr ()" "world_typed s" "bt_get (gs_inventories s) p = Some ivt"
  shows "slots_ok cat (inv_slots ivt)"
  using loaded_inventory(4) [OF assms(1,3)] typed_inventory [OF assms(2,3)]
  by (simp add: slots_ok_typed)

lemma loaded_container_ok:
  assumes "validate_loaded sha cat s = Inr ()" "world_typed s" "bt_get (gs_containers s) cid = Some c"
  shows "slots_ok cat (con_slots c)"
  using loaded_container(2) [OF assms(1,3)] typed_container [OF assms(2,3)]
  by (simp add: slots_ok_typed)

lemma accepted_fun: "accepted s es s1 \<Longrightarrow> accepted s es s2 \<Longrightarrow> s1 = s2"
  by (simp add: accepted_def)

subsection \<open>What each command does\<close>

text \<open>Removing \<open>q\<close> units from a slot.\<close>

lemma reduce_slot_units:
  assumes "k < length xs" "xs ! k = Some st" "with_quantity st (stack_quantity st - q) = Inr rest"
    "q \<le> stack_quantity st"
  shows "item_total i (xs[k := rest]) + (if stack_item st = i then q else 0) = item_total i xs"
  using item_total_update [OF assms(1), of i rest] assms(2,4) with_quantity_count [OF assms(3), of i]
  by (auto split: if_splits)

lemma reduce_slot_typed:
  assumes "slots_typed xs" "k < length xs" "xs ! k = Some st" "with_quantity st q = Inr rest"
    "q \<le> stack_quantity st"
  shows "slots_typed (xs[k := rest])"
proof (rule slots_typed_update [OF assms(1)])
  fix t assume "rest = Some t"
  with assms(4) slots_typed_nth [OF assms(1-3)] assms(5) show "stack_typed t"
    by (auto simp: with_quantity_Inr stack_typed_def)
qed

lemma drop_units:
  assumes s: "validate_loaded sha cat s = Inr ()" and t: "world_typed s"
    and p: "plan_drop cat s cmd = Inr (es, out)" and run: "accepted s es s'"
  shows "world_typed s' \<and> (\<forall>i. world_units s' i = world_units s i)"
proof -
  let ?ivt' = "\<lambda>ivt rest. with_slots ivt ((inv_slots ivt)[dropc_slot cmd := rest])"
  from drop_accepted [OF s p] obtain ivt source dropped rest where
    ivt: "bt_get (gs_inventories s) (dropc_player cmd) = Some ivt"
    and slot: "dropc_slot cmd < length (inv_slots ivt)" "inv_slots ivt ! dropc_slot cmd = Some source"
    and q: "dropc_quantity cmd \<le> stack_quantity source"
    and dropped: "with_quantity source (dropc_quantity cmd) = Inr (Some dropped)"
    and rest: "with_quantity source (stack_quantity source - dropc_quantity cmd) = Inr rest"
    and free: "bt_get (gs_drops s) (dropc_reserved_drop cmd) = None"
    and acc: "accepted s es
      ((set_inventory s (dropc_player cmd) (?ivt' ivt rest))
       \<lparr>gs_drops := bt_insert (dropc_reserved_drop cmd)
          \<lparr>drop_location = dropc_location cmd, drop_stack = dropped\<rparr> (gs_drops s)\<rparr>)" by blast
  let ?s1 = "set_inventory s (dropc_player cmd) (?ivt' ivt rest)"
  let ?d = "\<lparr>drop_location = dropc_location cmd, drop_stack = dropped\<rparr>"
  have s': "s' = ?s1\<lparr>gs_drops := bt_insert (dropc_reserved_drop cmd) ?d (gs_drops ?s1)\<rparr>"
    using accepted_fun [OF run acc] by simp
  have "slots_typed (inv_slots ivt)" by (rule typed_inventory [OF t ivt])
  then have "slots_typed ((inv_slots ivt)[dropc_slot cmd := rest])"
    by (rule reduce_slot_typed [OF _ slot rest]) simp
  moreover have "stack_typed dropped"
    using slots_typed_nth [OF \<open>slots_typed (inv_slots ivt)\<close> slot] q dropped
    by (auto simp: with_quantity_Inr stack_typed_def)
  ultimately have "world_typed s'"
    unfolding s' by (intro typed_add_drop typed_set_inventory t) simp_all
  moreover have "world_units s' i = world_units s i" for i
    using units_set_inventory [OF ivt, of "?ivt' ivt rest" i] reduce_slot_units [OF slot rest q, of i]
      units_add_drop [of ?s1 "dropc_reserved_drop cmd" ?d i] with_quantity_count [OF dropped, of i] free
    unfolding s' by (simp add: stack_units_def split: if_splits)
  ultimately show ?thesis by blast
qed

lemma pickup_units:
  assumes s: "validate_loaded sha cat s = Inr ()" and t: "world_typed s" and c: "catalog_typed cat"
    and p: "plan_pickup cat s cmd = Inr (es, out)" and run: "accepted s es s'"
  shows "world_typed s' \<and> (\<forall>i. world_units s' i = world_units s i)"
proof -
  from pickup_accepted [OF s p] obtain ivt d after where
    ivt: "bt_get (gs_inventories s) (pick_player cmd) = Some ivt"
    and d: "bt_get (gs_drops s) (pick_drop cmd) = Some d"
    and ins: "insert_stack cat (inv_slots ivt) (drop_stack d) ToInventory = Inr after"
    and acc: "accepted s es ((set_inventory s (pick_player cmd) (with_slots ivt after))
       \<lparr>gs_drops := bt_remove (pick_drop cmd) (gs_drops s)\<rparr>)" by blast
  let ?s1 = "set_inventory s (pick_player cmd) (with_slots ivt after)"
  have s': "s' = ?s1\<lparr>gs_drops := bt_remove (pick_drop cmd) (gs_drops ?s1)\<rparr>"
    using accepted_fun [OF run acc] by simp
  note spec = insert_stack_spec [OF ins c typed_drop [OF t d]]
  have "slots_typed after" using spec loaded_slots_ok [OF s t ivt] by (simp add: slots_ok_typed)
  then have "world_typed s'"
    unfolding s' by (intro typed_remove_drop typed_set_inventory t) simp_all
  moreover have "world_units s' i = world_units s i" for i
    using units_set_inventory [OF ivt, of "with_slots ivt after" i] spec
      units_remove_drop [of ?s1 "pick_drop cmd" d i] d
    unfolding s' by (auto simp: stack_units_def split: if_splits)
  ultimately show ?thesis by blast
qed

lemma move_quantity_pos:
  assumes "move_quantity cat xs k ys k' q destination = Inr z"
  shows "0 < q"
proof -
  obtain xs' ys' where "z = (xs', ys')" by (cases z)
  with assms show ?thesis by (auto elim!: move_quantity_elim simp: with_quantity_Inr)
qed

lemma transfer_units:
  assumes s: "validate_loaded sha cat s = Inr ()" and t: "world_typed s"
    and p: "plan_transfer cat s cmd = Inr (es, out)" and run: "accepted s es s'"
  shows "world_typed s' \<and> (\<forall>i. world_units s' i = world_units s i)"
proof -
  from transfer_accepted [OF s p] obtain ivt c xs ys where
    ivt: "bt_get (gs_inventories s) (tr_player cmd) = Some ivt"
    and c: "bt_get (gs_containers s) (tr_container cmd) = Some c"
    and moved: "case tr_direction cmd of
         PlayerToContainer \<Rightarrow>
           move_quantity cat (inv_slots ivt) (tr_player_slot cmd) (con_slots c)
             (tr_container_slot cmd) (tr_quantity cmd) ToOutput = Inr (xs, ys)
       | ContainerToPlayer \<Rightarrow>
           move_quantity cat (con_slots c) (tr_container_slot cmd) (inv_slots ivt)
             (tr_player_slot cmd) (tr_quantity cmd) ToInventory = Inr (ys, xs)"
    and acc: "accepted s es
      (set_container (set_inventory s (tr_player cmd) (with_slots ivt xs))
        (tr_container cmd) (with_container_slots c ys))" by blast
  let ?s1 = "set_inventory s (tr_player cmd) (with_slots ivt xs)"
  have s': "s' = set_container ?s1 (tr_container cmd) (with_container_slots c ys)"
    using accepted_fun [OF run acc] .
  have ok: "slots_ok cat (inv_slots ivt)" "slots_ok cat (con_slots c)"
    by (rule loaded_slots_ok [OF s t ivt], rule loaded_container_ok [OF s t c])
  have both: "slots_ok cat xs \<and> slots_ok cat ys \<and>
    (\<forall>i. item_total i xs + item_total i ys = item_total i (inv_slots ivt) + item_total i (con_slots c))"
  proof (cases "tr_direction cmd")
    case PlayerToContainer
    with moved have m: "move_quantity cat (inv_slots ivt) (tr_player_slot cmd) (con_slots c)
             (tr_container_slot cmd) (tr_quantity cmd) ToOutput = Inr (xs, ys)" by simp
    from move_quantity_spec [OF m move_quantity_pos [OF m] ok(1)] ok(2) show ?thesis by (auto split: if_splits) (metis add.assoc add.commute)+
  next
    case ContainerToPlayer
    with moved have m: "move_quantity cat (con_slots c) (tr_container_slot cmd) (inv_slots ivt)
             (tr_player_slot cmd) (tr_quantity cmd) ToInventory = Inr (ys, xs)" by simp
    from move_quantity_spec [OF m move_quantity_pos [OF m] ok(2)] ok(1) show ?thesis by (auto split: if_splits) (metis add.assoc add.commute)+
  qed
  then have "world_typed s'"
    unfolding s' by (intro typed_set_container typed_set_inventory t) (simp_all add: slots_ok_typed)
  moreover have "world_units s' i = world_units s i" for i
    using units_set_inventory [OF ivt, of "with_slots ivt xs" i] both
      units_set_container [of ?s1 "tr_container cmd" c "with_container_slots c ys" i] c
    unfolding s' by (auto dest: spec [of _ i])
  ultimately show ?thesis by blast
qed

lemma moved_slots_units:
  assumes moved: "moved_slots cat xs k k' st (xs ! k') requested quantity = Inr ys"
    and k: "k < length xs" "xs ! k = Some st" "k' < length xs" "k \<noteq> k'"
    and q: "requested \<le> stack_quantity st" and typed: "slots_typed xs" "catalog_typed cat"
  shows "slots_typed ys \<and> (\<forall>i. item_total i ys = item_total i xs)"
proof -
  note st = slots_typed_nth [OF typed(1) k(1,2)]
  have sums: "item_total i (xs[k := v, k' := w]) + slot_count i (xs ! k) + slot_count i (xs ! k') =
    item_total i xs + slot_count i v + slot_count i w" for i v w
    using item_total_update [OF k(1), of i v] item_total_update [of k' "xs[k := v]" i w] k(3,4) by simp
  have two: "slots_typed (xs[k := v, k' := w])"
    if "\<And>t. v = Some t \<Longrightarrow> stack_typed t" "\<And>t. w = Some t \<Longrightarrow> stack_typed t" for v w
    by (intro slots_typed_update typed(1) that) simp_all
  show ?thesis
  proof (cases "xs ! k'")
    case None
    with moved obtain rest moved' where r: "with_quantity st (stack_quantity st - requested) = Inr rest"
      "with_quantity st requested = Inr moved'" "ys = xs[k := rest, k' := moved']"
      by (auto simp: moved_slots_def and_then_Inr)
    have "slots_typed ys" unfolding r(3)
      by (rule two) (use r(1,2) st q in \<open>auto simp: with_quantity_Inr stack_typed_def\<close>)
    moreover have "item_total i ys = item_total i xs" for i
      using sums [of i rest moved'] None k(2) q with_quantity_count [OF r(1), of i]
        with_quantity_count [OF r(2), of i] unfolding r(3) by (simp split: if_splits)
    ultimately show ?thesis by blast
  next
    case (Some e)
    note e = slots_typed_nth [OF typed(1) k(3) Some]
    show ?thesis
    proof (cases "stack_item e = stack_item st \<and> stack_state e = stack_state st")
      case True
      with moved Some obtain d rest merged where d: "catalog_item cat (stack_item st) = Some d"
        and le: "stack_quantity e \<le> idef_stack_limit d"
        and rest: "with_quantity st (stack_quantity st - min requested (idef_stack_limit d - stack_quantity e)) = Inr rest"
        and merged: "with_quantity e (stack_quantity e + min requested (idef_stack_limit d - stack_quantity e)) = Inr merged"
        and n: "stack_quantity e + min requested (idef_stack_limit d - stack_quantity e) \<le> u32_max"
        and ys: "ys = xs[k := rest, k' := merged]"
        by (auto simp: moved_slots_def and_then_Inr ok_or_Inr checked_simps Let_def)
      let ?m = "min requested (idef_stack_limit d - stack_quantity e)"
      have "slots_typed ys" unfolding ys
        by (rule two) (use rest merged st e n in \<open>auto simp: with_quantity_Inr stack_typed_def\<close>)
      moreover have "item_total i ys = item_total i xs" for i
      proof -
        have m: "?m \<le> stack_quantity st" using q by simp
        show ?thesis
          using sums [of i rest merged] Some k(2) m True with_quantity_count [OF rest, of i]
            with_quantity_count [OF merged, of i] unfolding ys
          by (cases "stack_item st = i") simp_all
      qed
      ultimately show ?thesis by blast
    next
      case False
      with moved Some have ys: "ys = xs[k := Some e, k' := Some st]"
        by (auto simp: moved_slots_def and_then_Inr split: if_split_asm)
      have "slots_typed ys" unfolding ys by (rule two) (use st e in auto)
      moreover have "item_total i ys = item_total i xs" for i
        using sums [of i "Some e" "Some st"] Some k(2) unfolding ys by simp
      ultimately show ?thesis by blast
    qed
  qed
qed

lemma move_stack_units:
  assumes s: "validate_loaded sha cat s = Inr ()" and t: "world_typed s" and c: "catalog_typed cat"
    and p: "plan_move_stack cat s cmd = Inr (es, out)" and run: "accepted s es s'"
  shows "world_typed s' \<and> (\<forall>i. world_units s' i = world_units s i)"
proof -
  from move_stack_accepted [OF s p] obtain ivt st after where
    ivt: "bt_get (gs_inventories s) (mv_player cmd) = Some ivt"
    and slot: "mv_from cmd < length (inv_slots ivt)" "inv_slots ivt ! mv_from cmd = Some st"
      "mv_to cmd < length (inv_slots ivt)"
    and moved: "mv_from cmd = mv_to cmd \<and> after = inv_slots ivt \<or>
     mv_from cmd \<noteq> mv_to cmd \<and>
     (let requested = (case mv_quantity cmd of Some q \<Rightarrow> q | None \<Rightarrow> stack_quantity st) in
      requested \<le> stack_quantity st \<and> (stack_state st = Plain \<or> requested = 1) \<and>
      moved_slots cat (inv_slots ivt) (mv_from cmd) (mv_to cmd) st
        (inv_slots ivt ! mv_to cmd) requested (mv_quantity cmd) = Inr after)"
    and acc: "accepted s es (set_inventory s (mv_player cmd) (with_slots ivt after))" by blast
  have s': "s' = set_inventory s (mv_player cmd) (with_slots ivt after)"
    using accepted_fun [OF run acc] .
  note typed = typed_inventory [OF t ivt]
  have "slots_typed after \<and> (\<forall>i. item_total i after = item_total i (inv_slots ivt))"
  proof (cases "mv_from cmd = mv_to cmd")
    case True
    with moved typed show ?thesis by simp
  next
    case False
    with moved moved_slots_units [OF _ slot False _ typed c] show ?thesis
      unfolding Let_def by blast
  qed
  then show ?thesis
    using units_set_inventory [OF ivt, of "with_slots ivt after"]
    unfolding s' by (auto intro: typed_set_inventory t)
qed

lemma select_hotbar_units:
  assumes s: "validate_loaded sha cat s = Inr ()" and t: "world_typed s"
    and p: "plan_select_hotbar s cmd = Inr (es, out)" and run: "accepted s es s'"
  shows "world_typed s' \<and> (\<forall>i. world_units s' i = world_units s i)"
proof -
  from select_hotbar_accepted [OF s p] obtain ivt where
    ivt: "bt_get (gs_inventories s) (sel_player cmd) = Some ivt"
    and acc: "accepted s es (if sel_slot cmd = inv_selected_hotbar ivt then s
      else set_inventory s (sel_player cmd)
        (ivt\<lparr>inv_selected_hotbar := sel_slot cmd, inv_revision := Suc (inv_revision ivt)\<rparr>))" by blast
  show ?thesis
    using accepted_fun [OF run acc] typed_inventory [OF t ivt] t
      units_set_inventory [OF ivt, of "ivt\<lparr>inv_selected_hotbar := sel_slot cmd,
        inv_revision := Suc (inv_revision ivt)\<rparr>"]
    by (auto intro: typed_set_inventory)
qed

lemma drop_stale_units [simp]:
  "world_typed (drop_stale v s) \<longleftrightarrow> world_typed s" "world_units (drop_stale v s) i = world_units s i"
  "gs_inventories (drop_stale v s) = gs_inventories s" "gs_drops (drop_stale v s) = gs_drops s"
  by (auto simp: drop_stale_def split: option.splits mutation_intent.splits)

lemma cancel_units:
  assumes s: "validate_loaded sha cat s = Inr ()" and t: "world_typed s"
    and p: "plan_cancel_mining s player = Inr (es, out)" and run: "accepted s es s'"
  shows "world_typed s' \<and> (\<forall>i. world_units s' i = world_units s i)"
  using cancel_accepted [OF s p] accepted_fun [OF run] t by auto

text \<open>Breaking a block: its drop appears, and a tool that wears out disappears.\<close>

definition blocks_typed :: "catalog \<Rightarrow> bool" where
  "blocks_typed cat \<longleftrightarrow> (\<forall>b d. catalog_block cat b = Some d \<longrightarrow> stack_typed (bdef_drop d))"

lemma blocks_typed_code [code]:
  "blocks_typed cat \<longleftrightarrow> list_all (\<lambda>(b, d). stack_typed (bdef_drop d)) (entries (cat_blocks cat))"
  unfolding blocks_typed_def catalog_block_def bt_all_entries [symmetric] by blast

text \<open>The tool that the last step wears out, if any.\<close>

definition worn_tool :: "gameplay_mode \<Rightarrow> mine_command \<Rightarrow> slots \<Rightarrow> item_stack option" where
  "worn_tool mode cmd xs =
     (case (mode, mine_tool_slot cmd) of
        (Survival, Some k) \<Rightarrow>
          (case xs ! k of
             Some tool \<Rightarrow> if stack_state tool = ToolDurability 1 then Some tool else None
           | None \<Rightarrow> None)
      | _ \<Rightarrow> None)"

lemma tool_after_use_cases:
  assumes "tool_after_use tool = Inr used" "stack_typed tool"
  shows "(stack_state tool = ToolDurability 1 \<and> used = None) \<or>
    (\<exists>r. stack_state tool = ToolDurability r \<and> 1 < r \<and>
       used = Some \<lparr>stack_item = stack_item tool, stack_quantity = 1, stack_state = ToolDurability (r - 1)\<rparr>)"
  using assms
  by (cases "stack_state tool")
    (auto simp: tool_after_use_def tool_stack_def stack_typed_def Let_def and_then_Inr ensure_Inr
      split: if_split_asm)

lemma mined_slots_units:
  assumes mined: "mined_slots mode cmd xs = Inr after" and ok: "slots_ok cat xs"
  shows "slots_typed after \<and> (\<forall>i. item_total i after + slot_count i (worn_tool mode cmd xs) = item_total i xs)"
proof (cases "mode = Survival \<and> mine_tool_slot cmd \<noteq> None")
  case False
  with mined ok show ?thesis
    by (cases mode) (auto simp: mined_slots_def worn_tool_def slots_ok_typed)
next
  case True
  then obtain k where k: "mode = Survival" "mine_tool_slot cmd = Some k" by auto
  with mined obtain tool used where tool: "k < length xs" "xs ! k = Some tool"
    and used: "tool_after_use tool = Inr used" and after: "after = xs[k := used]"
    by (auto simp: mined_slots_def and_then_Inr occupied_slot_Inr)
  have t: "stack_typed tool" "validate_stack cat tool = Inr ()" using slots_ok_nth [OF ok tool] by auto
  note cases = tool_after_use_cases [OF used t(1)]
  have one: "stack_quantity tool = 1" using cases t(2) by (auto simp: validate_stack_Inr)
  have worn: "worn_tool mode cmd xs = (if stack_state tool = ToolDurability 1 then Some tool else None)"
    using k tool by (simp add: worn_tool_def)
  have "slots_typed after" unfolding after
    by (rule slots_typed_update) (use ok t(1) cases in \<open>auto simp: slots_ok_typed stack_typed_def u32_max_def\<close>)
  moreover have "item_total i after + slot_count i (worn_tool mode cmd xs) = item_total i xs" for i
    using item_total_update [OF tool(1), of i used] tool(2) cases one unfolding after worn
    by (auto split: if_splits)
  ultimately show ?thesis by blast
qed

lemma mine_drop_free:
  assumes "plan_mine cat mode s cmd = Inr (es, BlockBroken did chunk)"
  shows "bt_get (gs_drops s) did = None" "did = mine_reserved_drop cmd"
proof -
  from assms obtain ivt block and block_def :: block_definition and key before where
    m: "mine_break cat mode s ivt cmd block block_def (block_chunk s (mine_target cmd)) key before =
      Inr (es, BlockBroken did chunk)"
    unfolding plan_mine_def Let_def mine_progress_def
    by (auto simp: and_then_Inr split: if_split_asm)
  then have "require_available_drop_id s (mine_reserved_drop cmd) = Inr ()"
    and did: "did = mine_reserved_drop cmd"
    by (auto simp: mine_break_def Let_def and_then_Inr)
  then show "did = mine_reserved_drop cmd" "bt_get (gs_drops s) did = None"
    using available_drop_id by auto
qed

lemma mine_units:
  assumes s: "validate_loaded sha cat s = Inr ()" and t: "world_typed s" and b: "blocks_typed cat"
    and p: "plan_mine cat mode s cmd = Inr (es, out)" and run: "accepted s es s'"
  shows "world_typed s' \<and>
    (case out of
       BlockBroken _ _ \<Rightarrow> \<exists>ivt block block_def.
         bt_get (gs_inventories s) (mine_player cmd) = Some ivt \<and>
         bt_get (gs_blocks s) (mine_target cmd) = Some block \<and>
         catalog_block cat block = Some block_def \<and>
         bt_get (gs_blocks s') (mine_target cmd) = None \<and>
         (\<forall>i. world_units s' i + slot_count i (worn_tool mode cmd (inv_slots ivt)) =
           world_units s i + stack_units i (bdef_drop block_def))
     | _ \<Rightarrow> gs_blocks s' = gs_blocks s \<and> (\<forall>i. world_units s' i = world_units s i))"
proof -
  let ?key = "BreakProgressKey (mine_player cmd) (mine_target cmd)"
  from mine_accepted [OF s p] obtain ivt block block_def work accumulated where
    ivt: "bt_get (gs_inventories s) (mine_player cmd) = Some ivt"
    and block: "bt_get (gs_blocks s) (mine_target cmd) = Some block"
    and def': "catalog_block cat block = Some block_def"
    and rest: "let before = bt_get (gs_break_progress s) ?key;
         required = mr_hardness (bdef_mining block_def);
         s1 = drop_stale (stale_mining_progress_edit s (mine_player cmd) (Some (mine_target cmd))
           (inv_target ivt)) s in
     accumulated_work mode required (previous_work block before) work = Inr accumulated \<and>
     (if accumulated < required
      then out = MiningProgress accumulated required \<and>
        accepted s es (s1\<lparr>gs_break_progress := bt_insert ?key
          \<lparr>bp_block = block, bp_accumulated_work = accumulated\<rparr> (gs_break_progress s1)\<rparr>)
      else out = BlockBroken (mine_reserved_drop cmd) (block_chunk s (mine_target cmd)) \<and>
        (\<exists>after. mined_slots mode cmd (inv_slots ivt) = Inr after \<and>
          accepted s es ((set_inventory s1 (mine_player cmd) (with_slots ivt after))
            \<lparr>gs_blocks := bt_remove (mine_target cmd) (gs_blocks s),
             gs_drops := bt_insert (mine_reserved_drop cmd)
               \<lparr>drop_location = mine_target cmd, drop_stack = bdef_drop block_def\<rparr> (gs_drops s),
             gs_break_progress := bt_remove ?key (gs_break_progress s1)\<rparr>)))"
    unfolding Let_def by blast
  let ?v = "stale_mining_progress_edit s (mine_player cmd) (Some (mine_target cmd)) (inv_target ivt)"
  let ?s1 = "drop_stale ?v s"
  have blocks: "gs_blocks ?s1 = gs_blocks s"
    by (auto simp: drop_stale_def split: option.splits mutation_intent.splits)
  show ?thesis
  proof (cases "accumulated < mr_hardness (bdef_mining block_def)")
    case True
    with rest have out: "out = MiningProgress accumulated (mr_hardness (bdef_mining block_def))"
      and acc: "accepted s es (?s1\<lparr>gs_break_progress := bt_insert ?key
          \<lparr>bp_block = block, bp_accumulated_work = accumulated\<rparr> (gs_break_progress ?s1)\<rparr>)"
      by (auto simp: Let_def)
    show ?thesis using accepted_fun [OF run acc] t blocks by (simp add: out)
  next
    case False
    with rest obtain after where
      out: "out = BlockBroken (mine_reserved_drop cmd) (block_chunk s (mine_target cmd))"
      and mined: "mined_slots mode cmd (inv_slots ivt) = Inr after"
      and acc: "accepted s es ((set_inventory ?s1 (mine_player cmd) (with_slots ivt after))
            \<lparr>gs_blocks := bt_remove (mine_target cmd) (gs_blocks s),
             gs_drops := bt_insert (mine_reserved_drop cmd)
               \<lparr>drop_location = mine_target cmd, drop_stack = bdef_drop block_def\<rparr> (gs_drops s),
             gs_break_progress := bt_remove ?key (gs_break_progress ?s1)\<rparr>)"
      by (auto simp: Let_def)
    let ?s2 = "(set_inventory ?s1 (mine_player cmd) (with_slots ivt after))
      \<lparr>gs_blocks := bt_remove (mine_target cmd) (gs_blocks s),
       gs_break_progress := bt_remove ?key (gs_break_progress ?s1)\<rparr>"
    let ?d = "\<lparr>drop_location = mine_target cmd, drop_stack = bdef_drop block_def\<rparr>"
    have s': "s' = ?s2\<lparr>gs_drops := bt_insert (mine_reserved_drop cmd) ?d (gs_drops ?s2)\<rparr>"
      using accepted_fun [OF run acc] by simp
    note mined_slots_units [OF mined loaded_slots_ok [OF s t ivt]]
    note slots = this
    have free: "bt_get (gs_drops s) (mine_reserved_drop cmd) = None"
      using mine_drop_free(1) [of cat mode s cmd es] p out by blast
    have "world_typed s'"
      unfolding s' using slots b def' t
      by (intro typed_add_drop) (auto intro!: typed_set_inventory simp: blocks_typed_def)
    moreover have "world_units s' i + slot_count i (worn_tool mode cmd (inv_slots ivt)) =
           world_units s i + stack_units i (bdef_drop block_def)" for i
    proof -
      have "world_units ?s2 i + item_total i (inv_slots ivt) = world_units s i + item_total i after"
        using units_set_inventory [of ?s1 "mine_player cmd" ivt "with_slots ivt after" i] ivt by simp
      moreover have "world_units s' i = world_units ?s2 i + stack_units i (bdef_drop block_def)"
        unfolding s' by (subst units_add_drop) (use free in simp_all)
      moreover have "item_total i after + slot_count i (worn_tool mode cmd (inv_slots ivt)) =
        item_total i (inv_slots ivt)" using slots by blast
      ultimately show ?thesis by linarith
    qed
    moreover have "bt_get (gs_blocks s') (mine_target cmd) = None" by (simp add: s' bt.get_remove)
    ultimately show ?thesis using ivt block def' by (simp add: out)
  qed
qed

end
