(* ===== verification/World_Processes.thy ===== *)
theory World_Processes
  imports World_Items
begin

section \<open>Placing, creative picks and scheduled processes\<close>

text \<open>
  What the remaining commands do to the units of a world. A scheduled process takes its
  input and its fuel when it starts and owes its output until it completes; completing
  hands over exactly what is owed.
\<close>

lemma place_units:
  assumes s: "validate_loaded sha cat s = Inr ()" and t: "world_typed s"
    and p: "plan_place cat mode s cmd = Inr (es, out)" and run: "accepted s es s'"
  shows "world_typed s' \<and> (\<exists>ivt source item block.
    bt_get (gs_inventories s) (place_player cmd) = Some ivt \<and>
    place_slot cmd < length (inv_slots ivt) \<and> inv_slots ivt ! place_slot cmd = Some source \<and>
    catalog_item cat (stack_item source) = Some item \<and> idef_placement_block item = Some block \<and>
    bt_get (gs_blocks s) (place_target cmd) = None \<and>
    gs_blocks s' = bt_insert (place_target cmd) block (gs_blocks s) \<and>
    (\<forall>i. world_units s' i + (if mode = Survival \<and> stack_item source = i then 1 else 0) =
      world_units s i))"
proof -
  from place_accepted [OF s p] obtain ivt source and item :: item_definition and block after where
    free: "bt_get (gs_blocks s) (place_target cmd) = None"
    and ivt: "bt_get (gs_inventories s) (place_player cmd) = Some ivt"
    and slot: "place_slot cmd < length (inv_slots ivt)" "inv_slots ivt ! place_slot cmd = Some source"
    and item: "catalog_item cat (stack_item source) = Some item" "idef_placement_block item = Some block"
    and after: "case mode of
       Survival \<Rightarrow> \<exists>rest. with_quantity source (stack_quantity source - 1) = Inr rest \<and>
         after = (inv_slots ivt)[place_slot cmd := rest]
     | Creative \<Rightarrow> after = inv_slots ivt"
    and acc: "accepted s es
      ((set_inventory s (place_player cmd) (with_slots ivt after))
       \<lparr>gs_blocks := bt_insert (place_target cmd) block (gs_blocks s)\<rparr>)" by blast
  have s': "s' = (set_inventory s (place_player cmd) (with_slots ivt after))
       \<lparr>gs_blocks := bt_insert (place_target cmd) block (gs_blocks s)\<rparr>"
    by (rule accepted_fun [OF run acc])
  note typed = typed_inventory [OF t ivt]
  have "stack_typed source" by (rule slots_typed_nth [OF typed slot])
  then have one: "1 \<le> stack_quantity source" by (simp add: stack_typed_def)
  have sums: "slots_typed after \<and> (\<forall>i. item_total i after +
      (if mode = Survival \<and> stack_item source = i then 1 else 0) = item_total i (inv_slots ivt))"
  proof (cases mode)
    case Survival
    with after obtain rest where rest: "with_quantity source (stack_quantity source - 1) = Inr rest"
      "after = (inv_slots ivt)[place_slot cmd := rest]" by auto
    from reduce_slot_typed [OF typed slot rest(1)] reduce_slot_units [OF slot rest(1) one] Survival
    show ?thesis unfolding rest(2) by simp
  qed (use after typed in simp)
  then have "world_typed s'" unfolding s' by (simp add: typed_set_inventory t)
  moreover have "world_units s' i + (if mode = Survival \<and> stack_item source = i then 1 else 0) =
      world_units s i" for i
    using units_set_inventory [OF ivt, of "with_slots ivt after" i] sums
    unfolding s' by (auto dest: spec [of _ i])
  ultimately show ?thesis using free ivt slot item by (auto simp: s')
qed

lemma creative_pick_units:
  assumes s: "validate_loaded sha cat s = Inr ()" and t: "world_typed s" and c: "catalog_typed cat"
    and p: "plan_creative_pick cat mode s cmd = Inr (es, out)" and run: "accepted s es s'"
  shows "world_typed s' \<and> mode = Creative"
proof -
  from p obtain d :: item_definition and stack where
    d: "catalog_item cat (cpick_item cmd) = Some d"
    and stack: "(case idef_durability d of
              Some durability \<Rightarrow> tool_stack (cpick_item cmd) durability
            | None \<Rightarrow> plain_stack (cpick_item cmd) (idef_stack_limit d)) = Inr stack"
    and es: "\<exists>ivt. bt_get (gs_inventories s) (cpick_player cmd) = Some ivt \<and>
      inventory_diff (cpick_player cmd) ivt ((inv_slots ivt)[cpick_slot cmd := Some stack]) = Inr es"
    and m: "mode = Creative"
    by (auto simp: plan_creative_pick_def player_inventory_def and_then_Inr ok_or_Inr split: if_split_asm)
  from es obtain ivt where ivt: "bt_get (gs_inventories s) (cpick_player cmd) = Some ivt"
    and diff: "inventory_diff (cpick_player cmd) ivt ((inv_slots ivt)[cpick_slot cmd := Some stack]) = Inr es"
    by blast
  have "stack_typed stack"
    using stack c d by (auto simp: tool_stack_def plain_stack_def and_then_Inr ensure_Inr
        stack_typed_def catalog_typed_def u32_max_def split: option.splits)
  then have "slots_typed ((inv_slots ivt)[cpick_slot cmd := Some stack])"
    by (intro slots_typed_update typed_inventory [OF t ivt]) simp
  moreover have "s' = set_inventory s (cpick_player cmd)
      (with_slots ivt ((inv_slots ivt)[cpick_slot cmd := Some stack]))"
    using accepted_inventory [OF s ivt diff] accepted_fun [OF run] by simp
  ultimately show ?thesis using m t by (simp add: typed_set_inventory)
qed

lemma resolved_typed:
  assumes "resolve_output cat r = Inr product" "catalog_typed cat"
  shows "stack_typed product" "stack_quantity product = out_quantity r"
    "bt_get (cat_bindings cat) (out_role r) = Some (stack_item product)"
proof -
  from assms(1) obtain i and d :: item_definition where i: "bt_get (cat_bindings cat) (out_role r) = Some i"
    and d: "catalog_item cat i = Some d"
    and st: "(case idef_durability d of
         Some durability \<Rightarrow>
           if out_quantity r = 1 then tool_stack i durability
           else Inl (StatefulStackQuantity (out_quantity r))
       | None \<Rightarrow> plain_stack i (out_quantity r)) = Inr product"
    and v: "validate_stack cat product = Inr ()"
    by (auto simp: resolve_output_def catalog_item_def and_then_Inr ok_or_Inr)
  have fields: "stack_item product = i \<and> stack_quantity product = out_quantity r \<and> 0 < stack_quantity product \<and>
      (case stack_state product of Plain \<Rightarrow> True | ToolDurability m \<Rightarrow> 0 < m \<and> idef_durability d = Some m)"
    using st by (auto simp: tool_stack_def plain_stack_def and_then_Inr ensure_Inr split: option.splits if_split_asm)
  have bounds: "idef_stack_limit d \<le> u32_max" "\<And>m. idef_durability d = Some m \<Longrightarrow> m \<le> u32_max"
    using assms(2) d by (auto simp: catalog_typed_def)
  have "stack_quantity product \<le> idef_stack_limit d" using v fields d by (auto simp: validate_stack_Inr)
  with fields bounds show "stack_typed product"
    by (auto simp: stack_typed_def split: item_state.splits)
  from fields i show "stack_quantity product = out_quantity r"
    "bt_get (cat_bindings cat) (out_role r) = Some (stack_item product)" by simp_all
qed

text \<open>Starting a process: input and fuel are gone, the output is owed.\<close>

lemma start_process_units:
  assumes s: "validate_loaded sha cat s = Inr ()" and t: "world_typed s" and c: "catalog_typed cat"
    and p: "plan_start_process cat s tid cmd = Inr (es, out)"
    and free: "bt_get (gs_continuations s) (continuation_id_for tid) = None"
    and run: "accepted s es s'"
  shows "world_typed s' \<and> (\<exists>process (input :: item_stack) (fuel :: item_stack) product.
    catalog_process cat (sp_process cmd) = Some process \<and>
    predicate_matches cat (ing_accepts (pdef_input process)) (stack_item input) \<and>
    best_fuel_ticks cat (stack_item fuel) \<noteq> None \<and>
    resolve_output cat (pdef_output process) = Inr product \<and>
    (\<forall>i. world_units s' i + (if stack_item input = i then ing_quantity (pdef_input process) else 0) +
        (if stack_item fuel = i then 1 else 0) = world_units s i + stack_units i product))"
proof -
  from p have apart: "sp_input_slot cmd \<noteq> sp_fuel_slot cmd"
    by (auto simp: plan_start_process_def split: if_split_asm)
  from start_process_accepted [OF s p free] obtain con and process :: process_definition
      and input fuel burn_ticks input' fuel' product due_tick where
    con: "bt_get (gs_containers s) (sp_container cmd) = Some con"
    and process: "catalog_process cat (sp_process cmd) = Some process"
    and input: "sp_input_slot cmd < length (con_slots con)" "con_slots con ! sp_input_slot cmd = Some input"
      "predicate_matches cat (ing_accepts (pdef_input process)) (stack_item input)"
      "ing_quantity (pdef_input process) \<le> stack_quantity input"
    and fuel: "sp_fuel_slot cmd < length (con_slots con)" "con_slots con ! sp_fuel_slot cmd = Some fuel"
      "best_fuel_ticks cat (stack_item fuel) = Some burn_ticks"
    and product: "resolve_output cat (pdef_output process) = Inr product"
    and used: "with_quantity input (stack_quantity input - ing_quantity (pdef_input process)) = Inr input'"
      "with_quantity fuel (stack_quantity fuel - 1) = Inr fuel'"
    and acc: "accepted s es
      ((set_container s (sp_container cmd) (with_container_slots con
         ((con_slots con)[sp_input_slot cmd := input', sp_fuel_slot cmd := fuel'])))
       \<lparr>gs_continuations := bt_insert (continuation_id_for tid)
          \<lparr>fc_process = sp_process cmd, fc_container = sp_container cmd,
           fc_target = GameplayEditTarget (owner_chunk_key (con_owner con)) Continuations,
           fc_output_slot = sp_output_slot cmd, fc_pending_output = product,
           fc_due_tick = due_tick, fc_revision = 0\<rparr> (gs_continuations s)\<rparr>)" by blast
  let ?xs = "con_slots con" and ?q = "ing_quantity (pdef_input process)"
  let ?ys = "?xs[sp_input_slot cmd := input']"
  let ?zs = "?ys[sp_fuel_slot cmd := fuel']"
  let ?s1 = "set_container s (sp_container cmd) (with_container_slots con ?zs)"
  let ?fc = "\<lparr>fc_process = sp_process cmd, fc_container = sp_container cmd,
           fc_target = GameplayEditTarget (owner_chunk_key (con_owner con)) Continuations,
           fc_output_slot = sp_output_slot cmd, fc_pending_output = product,
           fc_due_tick = due_tick, fc_revision = 0\<rparr>"
  have s': "s' = ?s1\<lparr>gs_continuations := bt_insert (continuation_id_for tid) ?fc (gs_continuations ?s1)\<rparr>"
    using accepted_fun [OF run acc] by simp
  have fuel2: "sp_fuel_slot cmd < length ?ys" "?ys ! sp_fuel_slot cmd = Some fuel"
    using fuel apart by simp_all
  have typed: "slots_typed ?xs" by (rule typed_container [OF t con])
  have ys: "slots_typed ?ys" by (rule reduce_slot_typed [OF typed input(1,2) used(1)]) simp
  have zs: "slots_typed ?zs" by (rule reduce_slot_typed [OF ys fuel2 used(2)]) simp
  have one: "1 \<le> stack_quantity fuel"
    using slots_typed_nth [OF ys fuel2] by (simp add: stack_typed_def)
  have "world_typed s'"
    unfolding s' using zs resolved_typed(1) [OF product c] t
    by (intro typed_add_continuation typed_set_container) simp_all
  moreover have "\<forall>i. world_units s' i + (if stack_item input = i then ?q else 0) +
        (if stack_item fuel = i then 1 else 0) = world_units s i + stack_units i product"
  proof
    fix i
    have "world_units s' i = world_units ?s1 i + stack_units i product"
      unfolding s' by (subst units_add_continuation) (use free in simp_all)
    then show "world_units s' i + (if stack_item input = i then ?q else 0) +
        (if stack_item fuel = i then 1 else 0) = world_units s i + stack_units i product"
      using units_set_container [OF con, of "with_container_slots con ?zs" i]
        reduce_slot_units [OF input(1,2) used(1) input(4), of i]
        reduce_slot_units [OF fuel2 used(2) one, of i] by simp
  qed
  moreover have "best_fuel_ticks cat (stack_item fuel) \<noteq> None" using fuel(3) by simp
  ultimately show ?thesis
    using process input(3) product by blast
qed

subsection \<open>Completing scheduled processes\<close>

text \<open>The units in the containers when some of them have new slots.\<close>

definition staged_units :: "gameplay_state \<Rightarrow> (container_id, slots) btree \<Rightarrow> item_id \<Rightarrow> nat" where
  "staged_units s m i = (\<Sum>cid\<in>set (bt_keys (gs_containers s)). item_total i
     (case bt_get m cid of Some xs \<Rightarrow> xs | None \<Rightarrow> con_slots (the (bt_get (gs_containers s) cid))))"

definition staged_ok :: "catalog \<Rightarrow> gameplay_state \<Rightarrow> (container_id, slots) btree \<Rightarrow> bool" where
  "staged_ok cat s m \<longleftrightarrow> (\<forall>cid xs. bt_get m cid = Some xs \<longrightarrow>
     cid \<in> set (bt_keys (gs_containers s)) \<and> slots_ok cat xs)"

lemma staged_units_empty:
  "staged_units s bt_empty i = map_sum (\<lambda>c. item_total i (con_slots c)) (gs_containers s)"
  by (simp add: staged_units_def map_sum_keys bt.get_empty)

lemma complete_one_units:
  assumes s: "validate_loaded sha cat s = Inr ()" and t: "world_typed s"
    and step: "complete_one cat s (tick, fid) m = Inr m'" and ok: "staged_ok cat s m"
  obtains fc where "bt_get (gs_continuations s) fid = Some fc" "staged_ok cat s m'"
    "\<And>i. staged_units s m' i = staged_units s m i + stack_units i (fc_pending_output fc)"
proof -
  from step obtain fc :: furnace_continuation and c ys where
    fc: "bt_get (gs_continuations s) fid = Some fc"
    and c: "bt_get (gs_containers s) (fc_container fc) = Some c"
    and ys: "merge_single_slot cat (case bt_get m (fc_container fc) of Some xs \<Rightarrow> xs | None \<Rightarrow> con_slots c)
       (fc_output_slot fc) (fc_pending_output fc) ToOutput = Inr ys"
    and m': "m' = bt_insert (fc_container fc) ys m"
    by (auto simp: complete_one_def and_then_Inr ok_or_Inr Let_def)
  let ?k = "fc_container fc" and ?K = "set (bt_keys (gs_containers s))"
  let ?xs = "case bt_get m ?k of Some xs \<Rightarrow> xs | None \<Rightarrow> con_slots c"
  have k: "?k \<in> ?K" using c by (simp add: bt_contains_keys)
  have xs: "slots_ok cat ?xs"
    using ok loaded_container_ok [OF s t c] by (auto simp: staged_ok_def split: option.splits)
  note spec = merge_single_slot_spec [OF ys typed_continuation [OF t fc]]
  have "staged_ok cat s m'"
    using ok spec xs k unfolding m' staged_ok_def by (auto simp: bt.get_insert)
  moreover have "staged_units s m' i = staged_units s m i + stack_units i (fc_pending_output fc)" for i
  proof -
    let ?f = "\<lambda>m cid. item_total i
     (case bt_get m cid of Some xs \<Rightarrow> xs | None \<Rightarrow> con_slots (the (bt_get (gs_containers s) cid)))"
    have fin: "finite ?K" by simp
    have "sum (?f m') ?K = ?f m' ?k + sum (?f m') (?K - {?k})" by (rule sum.remove [OF fin k])
    moreover have "sum (?f m) ?K = ?f m ?k + sum (?f m) (?K - {?k})" by (rule sum.remove [OF fin k])
    moreover have "sum (?f m') (?K - {?k}) = sum (?f m) (?K - {?k})"
      by (rule sum.cong) (auto simp: m' bt.get_insert)
    moreover have "?f m' ?k = ?f m ?k + stack_units i (fc_pending_output fc)"
      using spec c by (auto simp: m' bt.get_insert stack_units_def split: option.splits)
    ultimately show ?thesis by (simp add: staged_units_def)
  qed
  ultimately show thesis using that fc by blast
qed

definition owed :: "gameplay_state \<Rightarrow> (authority_tick \<times> continuation_id) list \<Rightarrow> item_id \<Rightarrow> nat" where
  "owed s due i = sum_list (map (\<lambda>(_, fid).
     entry_sum (\<lambda>fc. stack_units i (fc_pending_output fc)) (bt_get (gs_continuations s) fid)) due)"

lemma complete_fold_units:
  assumes s: "validate_loaded sha cat s = Inr ()" and t: "world_typed s"
    and fold: "try_fold (complete_one cat s) due m = Inr m'" and ok: "staged_ok cat s m"
  shows "staged_ok cat s m' \<and> (\<forall>i. staged_units s m' i = staged_units s m i + owed s due i)"
  using fold ok
proof (induction due arbitrary: m)
  case (Cons x due)
  obtain tick fid where x: "x = (tick, fid)" by (cases x)
  with Cons.prems obtain m1 where m1: "complete_one cat s (tick, fid) m = Inr m1"
    and rest: "try_fold (complete_one cat s) due m1 = Inr m'" by (auto simp: and_then_Inr)
  from complete_one_units [OF s t m1 Cons.prems(2)] obtain fc where
    "bt_get (gs_continuations s) fid = Some fc" "staged_ok cat s m1"
    "\<And>i. staged_units s m1 i = staged_units s m i + stack_units i (fc_pending_output fc)" by blast
  with Cons.IH [OF rest] show ?case by (simp add: x owed_def)
qed (simp add: owed_def)

lemma complete_containers_get:
  assumes "distinct (map fst xs)"
  shows "bt_get (gs_containers (complete_containers s xs t)) cid =
    (case map_of xs cid of
       Some after \<Rightarrow> Some (with_container_slots (the (bt_get (gs_containers s) cid)) after)
     | None \<Rightarrow> bt_get (gs_containers t) cid)"
  using assms
proof (induction xs arbitrary: t)
  case (Cons x xs)
  obtain k after where x: "x = (k, after)" by (cases x)
  with Cons.prems have "k \<notin> fst ` set xs" by simp
  then have "map_of xs k = None" by (simp add: map_of_eq_None_iff)
  with Cons x show ?case
    by (auto simp: complete_containers_def split: option.splits)
qed (simp add: complete_containers_def)

lemma complete_containers_others [simp]:
  "gs_inventories (complete_containers s xs t) = gs_inventories t"
  "gs_drops (complete_containers s xs t) = gs_drops t"
  unfolding complete_containers_def
  by (induction xs arbitrary: t) (auto split: prod.splits)

lemma retire_units:
  assumes "distinct (map snd due)"
  shows "map_sum f (foldl (\<lambda>m (_, fid). bt_remove fid m) m due) +
    sum_list (map (\<lambda>(_, fid). entry_sum f (bt_get m fid)) due) = map_sum f m"
  using assms
proof (induction due arbitrary: m)
  case (Cons x due)
  obtain tick fid where x: "x = (tick, fid)" by (cases x)
  have "map (\<lambda>(_, k). entry_sum f (bt_get (bt_remove fid m) k)) due =
    map (\<lambda>(_, k). entry_sum f (bt_get m k)) due"
    by (rule map_cong [OF refl]) (use Cons.prems in \<open>force simp: x bt.get_remove\<close>)
  with Cons.IH [of "bt_remove fid m"] Cons.prems map_sum_remove [of f fid m] show ?case
    by (simp add: x)
qed simp

lemma retired_values: "set (bt_values (foldl (\<lambda>m (_, fid). bt_remove fid m) m due)) \<subseteq> set (bt_values m)"
proof (induction due arbitrary: m)
  case (Cons x due)
  with values_remove_subset [of "snd x" m] show ?case by (cases x) fastforce
qed simp

lemma advance_units:
  assumes s: "validate_loaded sha cat s = Inr ()" and t: "world_typed s"
    and p: "plan_advance_scheduled cat s cmd = Inr (es, out)" and run: "accepted s es s'"
  shows "world_typed s' \<and> (\<forall>i. world_units s' i = world_units s i)"
proof -
  let ?due = "take (adv_max_completions cmd) (due_continuations s (adv_through_tick cmd))"
  from advance_accepted [OF s p] obtain m where
    m: "try_fold (complete_one cat s) ?due bt_empty = Inr m"
    and acc: "accepted s es (retire_continuations ?due (complete_containers s (entries m) s))"
    by (auto simp: Let_def)
  let ?c = "complete_containers s (entries m) s"
  have s': "s' = retire_continuations ?due ?c" by (rule accepted_fun [OF run acc])
  have "staged_ok cat s bt_empty" by (simp add: staged_ok_def bt.get_empty)
  from complete_fold_units [OF s t m this] have ok: "staged_ok cat s m"
    and units: "\<And>i. staged_units s m i = staged_units s bt_empty i + owed s ?due i" by blast+
  have map_of: "map_of (entries m) = bt_get m" by transfer simp
  have get: "bt_get (gs_containers ?c) cid =
    (case bt_get m cid of
       Some after \<Rightarrow> Some (with_container_slots (the (bt_get (gs_containers s) cid)) after)
     | None \<Rightarrow> bt_get (gs_containers s) cid)" for cid
    using complete_containers_get [OF bt.entries_distinct [of m], of s s cid] by (simp add: map_of)
  have keys: "set (bt_keys (gs_containers ?c)) = set (bt_keys (gs_containers s))"
    using ok by (auto simp: bt_contains_keys get staged_ok_def split: option.splits)
  have con: "map_sum (\<lambda>c. item_total i (con_slots c)) (gs_containers ?c) = staged_units s m i" for i
    unfolding map_sum_keys staged_units_def keys
    by (rule sum.cong) (auto simp: get split: option.splits)
  have due: "distinct (map snd ?due)"
    using due_continuations_distinct [of s "adv_through_tick cmd"] by (simp add: take_map [symmetric])
  have "world_units s' i = world_units s i" for i
    using retire_units [OF due, of "\<lambda>fc. stack_units i (fc_pending_output fc)" "gs_continuations s"]
      con [of i] units [of i] staged_units_empty [of s i]
    by (simp add: s' world_units_def retire_continuations_def owed_def)
  moreover have "world_typed s'"
  proof -
    have "slots_typed (con_slots c)" if "c \<in> set (bt_values (gs_containers ?c))" for c
      using that ok typed_container [OF t]
      by (auto simp: bt_values_iff get staged_ok_def slots_ok_typed split: option.splits)
    then show ?thesis
      using t retired_values [of "gs_continuations s" ?due]
      by (auto simp: s' world_typed_def retire_continuations_def)
  qed
  ultimately show ?thesis by blast
qed

end
