(* ===== verification/World_Craft.thy ===== *)
theory World_Craft
  imports Shapeless World_Processes
begin

section \<open>What crafting takes and makes\<close>

definition slots_total :: "slots \<Rightarrow> nat" where
  "slots_total xs = sum_list (map slot_quantity xs)"

text \<open>The units a recipe takes.\<close>

definition ingredient_cost :: "ingredient option \<Rightarrow> nat" where
  "ingredient_cost c = (case c of None \<Rightarrow> 0 | Some g \<Rightarrow> ing_quantity g)"

definition pattern_cost :: "recipe_pattern \<Rightarrow> nat" where
  "pattern_cost pattern =
     (case pattern of
        Shapeless ings \<Rightarrow> sum_list (map ing_quantity ings)
      | Shaped _ _ cells \<Rightarrow> sum_list (map ingredient_cost cells))"

text \<open>What the code's types promise of the recipes of a catalog.\<close>

definition recipes_typed :: "catalog \<Rightarrow> bool" where
  "recipes_typed cat \<longleftrightarrow> (\<forall>rid r. catalog_recipe cat rid = Some r \<longrightarrow>
     (case rdef_pattern r of
        Shapeless ings \<Rightarrow> \<forall>g \<in> set ings. ing_quantity g \<le> u32_max
      | Shaped _ _ cells \<Rightarrow> True))"

lemma recipes_typed_code [code]:
  "recipes_typed cat \<longleftrightarrow> list_all (\<lambda>(rid, r). case rdef_pattern r of
        Shapeless ings \<Rightarrow> list_all (\<lambda>g. ing_quantity g \<le> u32_max) ings
      | Shaped _ _ cells \<Rightarrow> True) (entries (cat_recipes cat))"
  unfolding recipes_typed_def catalog_recipe_def bt_all_entries [symmetric] list_all_iff [symmetric] ..

lemma slots_total_update:
  assumes "k < length xs"
  shows "slots_total (xs[k := v]) + slot_quantity (xs ! k) = slots_total xs + slot_quantity v"
  using sum_list_update_nat [OF assms, of slot_quantity v] by (simp add: slots_total_def)

text \<open>What one withdrawal keeps, and what it takes.\<close>

definition withdrawn :: "catalog \<Rightarrow> nat \<Rightarrow> slots \<Rightarrow> slots \<Rightarrow> bool" where
  "withdrawn cat n xs ys \<longleftrightarrow> slots_total ys + n = slots_total xs \<and>
     (slots_ok cat xs \<longrightarrow> slots_ok cat ys) \<and> (\<forall>i. item_total i ys \<le> item_total i xs)"

lemma withdrawn_refl: "withdrawn cat 0 xs xs"
  by (simp add: withdrawn_def)

lemma withdrawn_trans: "withdrawn cat m xs ys \<Longrightarrow> withdrawn cat n ys zs \<Longrightarrow> withdrawn cat (m + n) xs zs"
  by (auto simp: withdrawn_def intro: order_trans)

lemma withdrawn_slot:
  assumes "k < length xs" "xs ! k = Some st" "with_quantity st (stack_quantity st - n) = Inr rest"
    "n \<le> stack_quantity st"
  shows "withdrawn cat n xs (xs[k := rest])"
proof -
  have "slot_quantity rest = stack_quantity st - n"
    using assms(3) by (auto simp: slot_quantity_def with_quantity_Inr)
  then have "slots_total (xs[k := rest]) + n = slots_total xs"
    using slots_total_update [OF assms(1), of rest] assms(2,4) by (simp add: slot_quantity_def)
  moreover have "slots_ok cat xs \<Longrightarrow> slots_ok cat (xs[k := rest])"
    by (rule reduce_slot_ok [OF _ assms(1,2) _ assms(3)]) simp_all
  moreover have "item_total i (xs[k := rest]) \<le> item_total i xs" for i
    using reduce_slot_units [OF assms, of i] by linarith
  ultimately show ?thesis by (simp add: withdrawn_def)
qed

lemma withdrawn_fold:
  assumes "try_fold f es xs = Inr ys" and "\<And>e xs ys. e \<in> set es \<Longrightarrow> f e xs = Inr ys \<Longrightarrow> withdrawn cat (cost e) xs ys"
  shows "withdrawn cat (sum_list (map cost es)) xs ys"
  using assms
proof (induction es arbitrary: xs)
  case (Cons e es)
  then obtain mid where "f e xs = Inr mid" "try_fold f es mid = Inr ys" by (auto simp: and_then_Inr)
  with Cons withdrawn_trans [of cat "cost e" xs mid] show ?case by simp
qed (simp add: withdrawn_refl)

lemma consume_slot_withdraws:
  assumes "consume_slot recipe e xs = Inr ys"
  shows "withdrawn cat (snd e) xs ys"
proof (cases e)
  case (Pair slot c)
  show ?thesis
  proof (cases "c = 0")
    case True
    with assms Pair show ?thesis by (simp add: consume_slot_def withdrawn_refl)
  next
    case False
    with assms Pair obtain st rest where "slot < length xs" "xs ! slot = Some st"
      "c \<le> stack_quantity st" "with_quantity st (stack_quantity st - c) = Inr rest" "ys = xs[slot := rest]"
      by (auto simp: consume_slot_def and_then_Inr slot_ref_Inr ok_or_Inr checked_simps)
    with withdrawn_slot [of slot xs st c rest cat] Pair show ?thesis by simp
  qed
qed

lemma shapeless_withdraws:
  assumes "consume_shapeless cat xs input_slots ings recipe = Inr ys"
    and "\<forall>g \<in> set ings. ing_quantity g \<le> u32_max" and "slots_ok cat xs"
  shows "withdrawn cat (sum_list (map ing_quantity ings)) xs ys"
proof -
  from assms(1) have range: "\<forall>slot \<in> set input_slots. slot < length xs"
    by (auto simp: consume_shapeless_def and_then_Inr try_each_Inr slot_ref_Inr)
  from assms(1) obtain fl alloc where build: "build_flow cat xs input_slots ings = Inr fl"
    and solved: "solve fl = Inr (Some alloc)"
    and fold: "try_fold (consume_slot recipe) (zip input_slots alloc) xs = Inr ys"
    by (auto simp: consume_shapeless_def and_then_Inr ok_or_Inr)
  from build have size: "length ings + length input_slots \<le> 512"
    by (auto simp: build_flow_def and_then_Inr flow_new_def checked_simps ok_or_Inr split: if_splits)
  let ?m = "length ings" and ?s = "length input_slots" and ?usable = "usable_slot cat xs input_slots ings"
  from build_flow_ok [OF size range assms(2), of cat] obtain d l q where
    fl: "network fl ?m ?s (\<Sum>i<?m. d i) d l q" "(\<Sum>i<?m. d i) \<le> u64_max"
    and d: "\<forall>i<?m. d i = demand_of ings i" and q: "\<forall>k<?s. q k = supply_of xs input_slots k"
    and l: "\<forall>i<?m. \<forall>k<?s. l i k \<le> u64_max \<and> (if ?usable i k then d i \<le> l i k else l i k = 0)"
    using build by auto
  have "q k \<le> u32_max" if "k < ?s" for k using q supply_bound [OF assms(3) range that] that by simp
  from solve_decides [OF fl, of ?usable] l this solved obtain a where
    a: "assignment ?m ?s d ?usable q a" "alloc = map (\<lambda>k. \<Sum>i<?m. a i k) [0..<?s]" by auto
  have "sum_list alloc = (\<Sum>k<?s. \<Sum>i<?m. a i k)"
    by (simp add: a(2) interv_sum_list_conv_sum_set_nat atLeast0LessThan)
  also have "\<dots> = (\<Sum>i<?m. \<Sum>k<?s. a i k)" by (rule sum.swap)
  also have "\<dots> = (\<Sum>i<?m. demand_of ings i)" using assignmentD(1) [OF a(1)] d by simp
  also have "\<dots> = sum_list (map ing_quantity ings)"
    by (simp add: demand_of_def sum_list_sum_nth atLeast0LessThan)
  finally have cost: "sum_list alloc = sum_list (map ing_quantity ings)" .
  have "map snd (zip input_slots alloc) = alloc" using a(2) by simp
  moreover have "withdrawn cat (sum_list (map snd (zip input_slots alloc))) xs ys"
    by (rule withdrawn_fold [OF fold]) (rule consume_slot_withdraws)
  ultimately show ?thesis using cost by simp
qed

lemma shaped_withdraws:
  assumes "consume_shaped cat xs input_slots cells recipe = Inr ys"
  shows "withdrawn cat (sum_list (map ingredient_cost cells)) xs ys"
proof -
  let ?step = "\<lambda>(slot, c) xs.
        and_then (slot_ref xs slot) (\<lambda>current.
        case (c, current) of
          (None, None) \<Rightarrow> Inr xs
        | (Some ingredient, Some stack) \<Rightarrow>
            if \<not> predicate_matches cat (ing_accepts ingredient) (stack_item stack)
               \<or> stack_quantity stack < ing_quantity ingredient
            then Inl (RecipeMismatch recipe)
            else and_then (with_quantity stack (stack_quantity stack - ing_quantity ingredient))
              (\<lambda>rest. Inr (xs[slot := rest]))
        | _ \<Rightarrow> Inl (RecipeMismatch recipe))"
  from assms have fold: "try_fold ?step (zip input_slots cells) xs = Inr ys"
    and len: "length input_slots = length cells"
    by (simp_all add: consume_shaped_def split: if_split_asm)
  have "withdrawn cat (ingredient_cost (snd e)) xs ys" if "?step e xs = Inr ys" for e xs ys
  proof (cases e)
    case (Pair slot c)
    from that Pair consider "c = None" "ys = xs"
      | g st rest where "c = Some g" "slot < length xs" "xs ! slot = Some st"
        "with_quantity st (stack_quantity st - ing_quantity g) = Inr rest"
        "ing_quantity g \<le> stack_quantity st" "ys = xs[slot := rest]"
      by (auto simp: and_then_Inr slot_ref_Inr split: option.splits if_split_asm)
    then show ?thesis
    proof cases
      case 1
      with Pair show ?thesis by (simp add: ingredient_cost_def withdrawn_refl)
    next
      case 2
      with Pair withdrawn_slot [OF 2(2-5)] show ?thesis by (simp add: ingredient_cost_def)
    qed
  qed
  from withdrawn_fold [OF fold this] have "withdrawn cat (sum_list (map ingredient_cost (map snd (zip input_slots cells)))) xs ys"
    by (simp add: comp_def)
  with len show ?thesis by simp
qed

text \<open>
  Crafting changes one inventory: it loses the recipe's units, no item gains but the
  product, and the product arrives whole.
\<close>

lemma craft_units:
  assumes s: "validate_loaded sha cat s = Inr ()" and t: "world_typed s"
    and c: "catalog_typed cat" "recipes_typed cat"
    and p: "plan_craft cat s cmd = Inr (es, out)" and run: "accepted s es s'"
  shows "world_typed s' \<and> (\<exists>recipe product ivt consumed after.
    catalog_recipe cat (craft_recipe cmd) = Some recipe \<and>
    resolve_output cat (rdef_output recipe) = Inr product \<and>
    bt_get (gs_inventories s) (craft_player cmd) = Some ivt \<and>
    withdrawn cat (pattern_cost (rdef_pattern recipe)) (inv_slots ivt) consumed \<and>
    (\<forall>i. item_total i after = item_total i consumed + stack_units i product) \<and>
    s' = set_inventory s (craft_player cmd) (with_slots ivt after))"
proof -
  from craft_accepted [OF s p] obtain ivt recipe consumed product after where
    recipe: "catalog_recipe cat (craft_recipe cmd) = Some recipe"
    and ivt: "bt_get (gs_inventories s) (craft_player cmd) = Some ivt"
    and consumed: "(case rdef_pattern recipe of
         Shapeless ingredients \<Rightarrow>
           consume_shapeless cat (inv_slots ivt) (craft_input_slots cmd) ingredients
             (craft_recipe cmd)
       | Shaped _ _ cells \<Rightarrow>
           consume_shaped cat (inv_slots ivt) (craft_input_slots cmd) cells (craft_recipe cmd)) =
      Inr consumed"
    and product: "resolve_output cat (rdef_output recipe) = Inr product"
    and ins: "insert_stack cat consumed product ToInventory = Inr after"
    and acc: "accepted s es (set_inventory s (craft_player cmd) (with_slots ivt after))" by blast
  have s': "s' = set_inventory s (craft_player cmd) (with_slots ivt after)" by (rule accepted_fun [OF run acc])
  have ok: "slots_ok cat (inv_slots ivt)" by (rule loaded_slots_ok [OF s t ivt])
  have w: "withdrawn cat (pattern_cost (rdef_pattern recipe)) (inv_slots ivt) consumed"
  proof (cases "rdef_pattern recipe")
    case (Shapeless ings)
    with c(2) recipe have "\<forall>g \<in> set ings. ing_quantity g \<le> u32_max" by (force simp: recipes_typed_def)
    with consumed Shapeless ok show ?thesis by (auto simp: pattern_cost_def intro: shapeless_withdraws)
  next
    case (Shaped w h cells)
    with consumed show ?thesis by (auto simp: pattern_cost_def intro: shaped_withdraws)
  qed
  note typed = resolved_typed(1) [OF product c(1)]
  have total: "item_total i after = item_total i consumed + stack_units i product" for i
    using insert_stack_spec [OF ins c(1) typed] by (auto simp: stack_units_def)
  have "slots_ok cat after"
    using insert_stack_spec [OF ins c(1) typed] w ok by (simp add: withdrawn_def)
  then have "world_typed s'"
    unfolding s' by (intro typed_set_inventory t) (simp add: slots_ok_typed)
  with recipe product ivt w total s' show ?thesis by blast
qed

end
