(* ===== verification/World_Effects.thy ===== *)
theory World_Effects
  imports World_Craft Applier_Correct
begin

section \<open>What an executed command does to the world\<close>

text \<open>
  \<open>execute\<close> answers a new command by planning it and applying its edits; publishing the
  receipt leaves the world itself alone. So what holds of the edits of a planner holds of
  the applier, for every command and injected fault.
\<close>

subsection \<open>Publishing a receipt leaves the world alone\<close>

definition world_view where
  "world_view s = (gs_inventories s, gs_containers s, gs_drops s, gs_continuations s, gs_blocks s,
     gs_break_progress s)"

lemma world_view_units:
  assumes "world_view s = world_view t"
  shows "world_units s i = world_units t i" "world_typed s = world_typed t"
  using assms by (simp_all add: world_view_def world_units_def world_typed_def)

lemma retain_finalized_receipt_view:
  "world_view (fst (retain_finalized_receipt s r)) = world_view s"
  by (auto simp: retain_finalized_receipt_def world_view_def Let_def split: sum.splits list.splits option.splits prod.splits)

lemma publish_plan_view:
  "publish_plan sha ap p = (ap', res) \<Longrightarrow> world_view (ap_state ap') = world_view (ap_state ap)"
  using retain_finalized_receipt_view [of "ap_state ap"]
  by (auto simp: publish_plan_def Let_def world_view_def split: if_splits prod.splits)
    (metis fst_conv)+

lemma execute_world:
  assumes inv: "applier_inv ap" and run: "execute sha ap env fault = (ap', Inr r)"
  obtains (replayed) "ap' = ap"
    | (applied) p :: gameplay_plan and s' where "validate_loaded sha (ap_catalog ap) (ap_state ap) = Inr ()"
      "plan_command (ap_catalog ap) (ap_mode ap) (ap_state ap) (env_transaction_id env) (env_command env)
        = Inr (plan_edits p, rec_outcome r)"
      "accepted (ap_state ap) (plan_edits p) s'" "world_view (ap_state ap') = world_view s'"
      "rec_state_hash r = state_hash sha s'"
  using run
proof (cases rule: execute_cases)
  case (replayed r)
  then show thesis using that(1) by blast
next
  case (planned p)
  note fields = plan_fields [OF planned(2)]
  from planned(3) plan_length_usize(2) [OF planned(2)] show thesis
  proof (cases rule: apply_plan_cases)
    case (replayed r)
    then show thesis using that(1) by blast
  next
    case (applied s')
    note view = publish_plan_view [OF applied(4)]
    have targets: "validate_plan_targets (ap_state ap) (plan_edits p) = Inr ()"
      using applied(2) by (auto simp: admit_plan_def Let_def and_then_Inr split: if_split_asm)
    have acc: "accepted (ap_state ap) (plan_edits p) s'" using targets applied(3) by (simp add: accepted_def)
    have r: "r = receipt_of sha s' p"
    proof -
      have b: "bookkeeping s' = bookkeeping (ap_state ap)" by (rule apply_all_bookkeeping [OF applied(3)])
      have "plan_expected_world_revision p = gs_observed_world_revision (ap_state ap)"
        using fields(2,6) by simp
      then have "plan_transaction_id p \<notin> set (gs_receipt_order (ap_state (ap\<lparr>ap_state := s'\<rparr>)))"
        "plan_expected_world_revision p = gs_observed_world_revision (ap_state (ap\<lparr>ap_state := s'\<rparr>))"
        "ap_pending (ap\<lparr>ap_state := s'\<rparr>) = None"
        using guard_fresh [OF applied(1) inv] b by (simp_all add: bookkeeping_def)
      from publish_plan_ok [OF inv_after_edits [OF inv applied(3)] applied(4) this] show ?thesis by simp
    qed
    then have "rec_outcome r = plan_outcome p" "rec_state_hash r = state_hash sha s'"
      by (simp_all add: receipt_of_def)
    with view acc fields(5,7) show thesis by (intro that(2) [of p s']) simp_all
  qed simp
qed simp

subsection \<open>Every command keeps the stacks typed\<close>

lemma command_typed:
  assumes s: "validate_loaded sha cat s = Inr ()" and t: "world_typed s"
    and c: "catalog_typed cat" "blocks_typed cat" "recipes_typed cat"
    and p: "plan_command cat mode s tid cmd = Inr (es, out)" and run: "accepted s es s'"
  shows "world_typed s'"
proof (cases cmd)
  case (Mine cm)
  with mine_units [OF s t c(2) _ run] p show ?thesis by (simp add: plan_command_def)
next
  case (CancelMining cm)
  with cancel_units [OF s t _ run] p show ?thesis by (simp add: plan_command_def)
next
  case (DropItem cm)
  with drop_units [OF s t _ run] p show ?thesis by (simp add: plan_command_def)
next
  case (Pickup cm)
  with pickup_units [OF s t c(1) _ run] p show ?thesis by (simp add: plan_command_def)
next
  case (Place cm)
  with place_units [OF s t _ run] p show ?thesis by (simp add: plan_command_def)
next
  case (CreativePick cm)
  with creative_pick_units [OF s t c(1) _ run] p show ?thesis by (simp add: plan_command_def)
next
  case (Craft cm)
  with craft_units [OF s t c(1,3) _ run] p show ?thesis by (simp add: plan_command_def)
next
  case (Transfer cm)
  with transfer_units [OF s t _ run] p show ?thesis by (simp add: plan_command_def)
next
  case (MoveStack cm)
  with move_stack_units [OF s t c(1) _ run] p show ?thesis by (simp add: plan_command_def)
next
  case (SelectHotbar cm)
  with select_hotbar_units [OF s t _ run] p show ?thesis by (simp add: plan_command_def)
next
  case (StartProcess cm)
  with p have plan: "plan_start_process cat s tid cm = Inr (es, out)" by (simp add: plan_command_def)
  from start_process_units [OF s t c(1) plan start_process_free [OF plan run] run] show ?thesis by simp
next
  case (AdvanceScheduled cm)
  with advance_units [OF s t _ run] p show ?thesis by (simp add: plan_command_def)
qed

text \<open>The commands that only move items.\<close>

definition moving :: "gameplay_command \<Rightarrow> bool" where
  "moving cmd \<longleftrightarrow>
     (case cmd of
        DropItem _ \<Rightarrow> True | Pickup _ \<Rightarrow> True | Transfer _ \<Rightarrow> True | MoveStack _ \<Rightarrow> True
      | SelectHotbar _ \<Rightarrow> True | CancelMining _ \<Rightarrow> True | AdvanceScheduled _ \<Rightarrow> True
      | _ \<Rightarrow> False)"

lemma moving_units:
  assumes s: "validate_loaded sha cat s = Inr ()" and t: "world_typed s" and c: "catalog_typed cat"
    and m: "moving cmd"
    and p: "plan_command cat mode s tid cmd = Inr (es, out)" and run: "accepted s es s'"
  shows "world_units s' i = world_units s i"
proof (cases cmd)
  case (CancelMining cm)
  with cancel_units [OF s t _ run] p show ?thesis by (simp add: plan_command_def)
next
  case (DropItem cm)
  with drop_units [OF s t _ run] p show ?thesis by (simp add: plan_command_def)
next
  case (Pickup cm)
  with pickup_units [OF s t c _ run] p show ?thesis by (simp add: plan_command_def)
next
  case (Transfer cm)
  with transfer_units [OF s t _ run] p show ?thesis by (simp add: plan_command_def)
next
  case (MoveStack cm)
  with move_stack_units [OF s t c _ run] p show ?thesis by (simp add: plan_command_def)
next
  case (SelectHotbar cm)
  with select_hotbar_units [OF s t _ run] p show ?thesis by (simp add: plan_command_def)
next
  case (AdvanceScheduled cm)
  with advance_units [OF s t _ run] p show ?thesis by (simp add: plan_command_def)
qed (use m in \<open>simp_all add: moving_def\<close>)

text \<open>A transaction the ledger does not know is not a replay.\<close>

lemma execute_new:
  assumes inv: "applier_inv ap" and run: "execute sha ap env fault = (ap', Inr r)"
    and new: "ap_pending ap = None" "bt_get (gs_recent_receipts (ap_state ap)) (env_transaction_id env) = None"
  obtains p :: gameplay_plan and s' where "validate_loaded sha (ap_catalog ap) (ap_state ap) = Inr ()"
      "plan_command (ap_catalog ap) (ap_mode ap) (ap_state ap) (env_transaction_id env) (env_command env)
        = Inr (plan_edits p, rec_outcome r)"
      "accepted (ap_state ap) (plan_edits p) s'" "world_view (ap_state ap') = world_view s'"
proof -
  have "gs_pending_receipt (ap_state ap) = None"
    using inv new(1) by (simp add: applier_inv_def Let_def)
  then have fresh: "replay_guard ap (env_transaction_id env) revision same \<noteq> Inr (Some x)" for revision same x
    using new by (auto simp: replay_guard_def Let_def)
  from run show thesis
  proof (cases rule: execute_cases)
    case (planned p)
    note fields = plan_fields [OF planned(2)]
    from planned(3) plan_length_usize(2) [OF planned(2)] show thesis
    proof (cases rule: apply_plan_cases)
      case (replayed r)
      with fresh fields(1,2) show thesis by simp
    next
      case (applied s')
      from inv run show thesis
      proof (cases rule: execute_world)
        case replayed
        have "ap' \<noteq> ap"
        proof
          assume same: "ap' = ap"
          have b: "bookkeeping s' = bookkeeping (ap_state ap)" by (rule apply_all_bookkeeping [OF applied(3)])
          have "plan_transaction_id p \<notin> set (gs_receipt_order (ap_state (ap\<lparr>ap_state := s'\<rparr>)))"
            "plan_expected_world_revision p = gs_observed_world_revision (ap_state (ap\<lparr>ap_state := s'\<rparr>))"
            "ap_pending (ap\<lparr>ap_state := s'\<rparr>) = None"
            using guard_fresh [OF applied(1) inv] b fields(2,6) by (simp_all add: bookkeeping_def)
          from publish_plan_ok [OF inv_after_edits [OF inv applied(3)] applied(4) this] same new fields(1)
          show False by (auto split: if_splits)
        qed
        with replayed show thesis by blast
      next
        case (applied p s')
        from applied(1-4) show thesis by (rule that)
      qed
    qed simp
  qed (use fresh in simp_all)
qed

end
