(* ===== verification/World_Properties.thy ===== *)
theory World_Properties
  imports World_Effects Applier_Properties
begin

section \<open>Conservation and effects of commands\<close>

text \<open>
  What the executed commands do to the items of the whole world: the units in inventories,
  containers, dropped items and the outputs that running processes owe.
\<close>

text \<open>What the code's types promise of a catalog.\<close>

definition catalog_lawful :: "catalog \<Rightarrow> bool" where
  "catalog_lawful cat \<longleftrightarrow> catalog_typed cat \<and> blocks_typed cat \<and> recipes_typed cat"

lemma sample_lawful: "catalog_lawful sample_catalog" by code_simp

lemma world_typed_code [code]:
  "world_typed s \<longleftrightarrow>
     list_all (\<lambda>ivt. slots_typed (inv_slots ivt)) (bt_values (gs_inventories s)) \<and>
     list_all (\<lambda>c. slots_typed (con_slots c)) (bt_values (gs_containers s)) \<and>
     list_all (\<lambda>d. stack_typed (drop_stack d)) (bt_values (gs_drops s)) \<and>
     list_all (\<lambda>fc. stack_typed (fc_pending_output fc)) (bt_values (gs_continuations s))"
  by (simp add: world_typed_def list_all_iff)

lemma sample_typed: "world_typed sample_state" by code_simp

text \<open>The runs below use a digest that does not look at its input, which keeps them short.\<close>

abbreviation plain_sha :: digest_function where
  "plain_sha \<equiv> \<lambda>_. []"

lemma plain_reachable: "applier_reachable plain_sha sample_applier"
proof -
  have "is_ok (try_new_with_rules plain_sha 7 sample_state sample_catalog Survival)" by code_simp
  then show ?thesis
    by (auto simp: is_ok_iff and_then_Inr try_new_with_rules_def sample_applier_def
        split: option.splits intro!: reach_new [where world = 7])
qed

lemma sample_fields:
  "ap_state sample_applier = sample_state" "ap_catalog sample_applier = sample_catalog"
  "ap_mode sample_applier = Survival" "ap_pending sample_applier = None"
  by (simp_all add: sample_applier_def)

text \<open>The applier after a command on the sample applier.\<close>

definition after_command :: "command_envelope \<Rightarrow> plan_applier" where
  "after_command env = fst (execute plain_sha sample_applier env NoFault)"

definition answer_to :: "command_envelope \<Rightarrow> plan_receipt" where
  "answer_to env = projr (snd (execute plain_sha sample_applier env NoFault))"

lemma command_run:
  "is_ok (snd (execute plain_sha sample_applier env NoFault)) \<Longrightarrow>
   execute plain_sha sample_applier env NoFault = (after_command env, Inr (answer_to env))"
  using outcome_projr by (simp add: after_command_def answer_to_def)

text \<open>The side condition of the properties that follow is kept by every command: quantities and
  durabilities are non-zero 32-bit values in the code, and the numbers of the model stay in
  that range.\<close>

lemma execute_keeps_typed:
  assumes "applier_reachable sha ap" and "world_typed (ap_state ap)" and "catalog_lawful (ap_catalog ap)"
    and "execute sha ap env fault = (ap', res)"
  shows "world_typed (ap_state ap')"
proof (cases res)
  case (Inl e)
  with assms show ?thesis using execute_inv(2) [OF applier_reachable_inv] by blast
next
  case (Inr r)
  note inv = applier_reachable_inv [OF assms(1)]
  from inv assms(4) [unfolded Inr] show ?thesis
  proof (cases rule: execute_world)
    case (applied p s')
    from command_typed [OF applied(1) assms(2) _ _ _ applied(2,3)] assms(3) world_view_units(2) [OF applied(4)]
    show ?thesis by (simp add: catalog_lawful_def)
  qed (use assms(2) in simp)
qed

text \<open>C17: commands that move items conserve them. Dropping, picking up, transferring, moving,
  selecting, cancelling and completing scheduled outputs change the number of units of no item
  in the world, whatever merges, splits and swaps they do.\<close>

theorem moving_commands_conserve:
  assumes "applier_reachable sha ap" and "world_typed (ap_state ap)" and "catalog_lawful (ap_catalog ap)"
    and "moving (env_command env)" and "execute sha ap env fault = (ap', res)"
  shows "world_units (ap_state ap') i = world_units (ap_state ap) i"
proof (cases res)
  case (Inl e)
  with assms show ?thesis using execute_inv(2) [OF applier_reachable_inv] by blast
next
  case (Inr r)
  note inv = applier_reachable_inv [OF assms(1)]
  from inv assms(5) [unfolded Inr] show ?thesis
  proof (cases rule: execute_world)
    case (applied p s')
    from moving_units [OF applied(1) assms(2) _ assms(4) applied(2,3)] assms(3)
      world_view_units(1) [OF applied(4)]
    show ?thesis by (simp add: catalog_lawful_def)
  qed simp
qed

lemma moving_commands_conserve_witness:
  "world_units (ap_state dropped_applier) ''dirt'' = 8"
proof -
  have "moving (env_command drop_envelope)" by code_simp
  from moving_commands_conserve [OF sample_reachable _ _ this dropped_run, of "''dirt''"]
    sample_typed sample_lawful
  have "world_units (ap_state dropped_applier) ''dirt'' = world_units sample_state ''dirt''"
    by (simp add: sample_applier_def)
  also have "\<dots> = 8" by code_simp
  finally show ?thesis .
qed

text \<open>What a command may make of an item: the drop of the block it breaks, the product of its
  recipe, the output its process will owe.\<close>

definition product_units :: "catalog \<Rightarrow> role_output \<Rightarrow> item_id \<Rightarrow> nat" where
  "product_units cat out i = (case resolve_output cat out of Inr st \<Rightarrow> stack_units i st | Inl _ \<Rightarrow> 0)"

definition production :: "catalog \<Rightarrow> gameplay_state \<Rightarrow> gameplay_command \<Rightarrow> item_id \<Rightarrow> nat" where
  "production cat s cmd i =
     (case cmd of
        Mine c \<Rightarrow>
          (case bt_get (gs_blocks s) (mine_target c) of
             None \<Rightarrow> 0
           | Some block \<Rightarrow>
              (case catalog_block cat block of None \<Rightarrow> 0 | Some d \<Rightarrow> stack_units i (bdef_drop d)))
      | Craft c \<Rightarrow>
          (case catalog_recipe cat (craft_recipe c) of
             None \<Rightarrow> 0 | Some r \<Rightarrow> product_units cat (rdef_output r) i)
      | StartProcess c \<Rightarrow>
          (case catalog_process cat (sp_process c) of
             None \<Rightarrow> 0 | Some p \<Rightarrow> product_units cat (pdef_output p) i)
      | _ \<Rightarrow> 0)"

lemma command_production:
  assumes s: "validate_loaded sha cat s = Inr ()" and t: "world_typed s" and c: "catalog_lawful cat"
    and p: "plan_command cat Survival s tid cmd = Inr (es, out)" and run: "accepted s es s'"
  shows "world_units s' i \<le> world_units s i + production cat s cmd i"
proof -
  from c have c: "catalog_typed cat" "blocks_typed cat" "recipes_typed cat"
    by (simp_all add: catalog_lawful_def)
  show ?thesis
  proof (cases "moving cmd")
    case True
    with moving_units [OF s t c(1) True p run, of i] show ?thesis by simp
  next
    case False
    then consider (mine) cm where "cmd = Mine cm" | (place) cm where "cmd = Place cm"
      | (pick) cm where "cmd = CreativePick cm" | (craft) cm where "cmd = Craft cm"
      | (start) cm where "cmd = StartProcess cm" by (cases cmd) (auto simp: moving_def)
    then show ?thesis
    proof cases
      case mine
      with p have plan: "plan_mine cat Survival s cm = Inr (es, out)" by (simp add: plan_command_def)
      show ?thesis
      proof (cases "\<exists>did chunk. out = BlockBroken did chunk")
        case True
        with mine_units [OF s t c(2) plan run] obtain ivt :: inventory_state and block
            and block_def :: block_definition where
          "bt_get (gs_blocks s) (mine_target cm) = Some block" "catalog_block cat block = Some block_def"
          "world_units s' i + slot_count i (worn_tool Survival cm (inv_slots ivt)) =
            world_units s i + stack_units i (bdef_drop block_def)" by fastforce
        with mine show ?thesis by (simp add: production_def)
      next
        case False
        with mine_units [OF s t c(2) plan run] show ?thesis by (auto split: command_outcome.splits)
      qed
    next
      case place
      with p have "plan_place cat Survival s cm = Inr (es, out)" by (simp add: plan_command_def)
      from place_units [OF s t this run] have "world_units s' i \<le> world_units s i"
        by (metis le_add1)
      then show ?thesis by simp
    next
      case pick
      with p have "plan_creative_pick cat Survival s cm = Inr (es, out)" by (simp add: plan_command_def)
      from creative_pick_units [OF s t c(1) this run] show ?thesis by simp
    next
      case craft
      with p have "plan_craft cat s cm = Inr (es, out)" by (simp add: plan_command_def)
      from craft_units [OF s t c(1,3) this run] obtain recipe product ivt consumed after where
        craft': "catalog_recipe cat (craft_recipe cm) = Some recipe"
          "resolve_output cat (rdef_output recipe) = Inr product"
          "bt_get (gs_inventories s) (craft_player cm) = Some ivt"
        and taken: "withdrawn cat (pattern_cost (rdef_pattern recipe)) (inv_slots ivt) consumed"
        and after: "\<And>i. item_total i after = item_total i consumed + stack_units i product"
        and s': "s' = set_inventory s (craft_player cm) (with_slots ivt after)" by blast
      have "item_total i consumed \<le> item_total i (inv_slots ivt)" using taken by (simp add: withdrawn_def)
      with units_set_inventory [OF craft'(3), of "with_slots ivt after" i] after [of i] s'
      show ?thesis by (simp add: craft craft'(1,2) production_def product_units_def)
    next
      case start
      with p have plan: "plan_start_process cat s tid cm = Inr (es, out)" by (simp add: plan_command_def)
      from start_process_units [OF s t c(1) plan start_process_free [OF plan run] run]
      obtain process and input :: item_stack and fuel :: item_stack and product where
        start': "catalog_process cat (sp_process cm) = Some process"
          "resolve_output cat (pdef_output process) = Inr product"
        and units: "world_units s' i + (if stack_item input = i then ing_quantity (pdef_input process) else 0) +
          (if stack_item fuel = i then 1 else 0) = world_units s i + stack_units i product" by blast
      from units show ?thesis by (simp add: start start' production_def product_units_def)
    qed
  qed
qed

text \<open>C6: in survival mode no command duplicates items. The units of an item in the world grow by
  at most what the rules make for the command: the drop of the mined block, the product of the
  recipe, or the output of the started process.\<close>

theorem survival_no_duplication:
  assumes "applier_reachable sha ap" and "world_typed (ap_state ap)" and "catalog_lawful (ap_catalog ap)"
    and "ap_mode ap = Survival" and "execute sha ap env fault = (ap', res)"
  shows "world_units (ap_state ap') i \<le>
    world_units (ap_state ap) i + production (ap_catalog ap) (ap_state ap) (env_command env) i"
proof (cases res)
  case (Inl e)
  with assms show ?thesis using execute_inv(2) [OF applier_reachable_inv] by fastforce
next
  case (Inr r)
  note inv = applier_reachable_inv [OF assms(1)]
  from inv assms(5) [unfolded Inr] show ?thesis
  proof (cases rule: execute_world)
    case (applied p s')
    from command_production [OF applied(1) assms(2,3) _ applied(3)] applied(2) assms(4)
      world_view_units(1) [OF applied(4)]
    show ?thesis by simp
  qed simp
qed

text \<open>Crafting an ingot from two units of dirt and one of ore.\<close>

definition craft_envelope :: command_envelope where
  "craft_envelope = \<lparr>env_transaction_id = 100, env_expected_world_revision = 5,
     env_command = Craft \<lparr>craft_player = 1, craft_recipe = ''melt'', craft_input_slots = [1, 2],
       craft_workstation = None\<rparr>\<rparr>"

lemma survival_no_duplication_witness:
  "world_units (ap_state (after_command craft_envelope)) ''ingot'' \<le> 1"
proof -
  have run: "execute plain_sha sample_applier craft_envelope NoFault =
      (after_command craft_envelope, snd (execute plain_sha sample_applier craft_envelope NoFault))"
    by (simp add: after_command_def)
  from survival_no_duplication [OF plain_reachable _ _ _ run, of "''ingot''"] sample_typed sample_lawful
  have "world_units (ap_state (after_command craft_envelope)) ''ingot'' \<le>
      world_units sample_state ''ingot'' + production sample_catalog sample_state (env_command craft_envelope) ''ingot''"
    by (simp add: sample_fields)
  also have "\<dots> = 1" by code_simp
  finally show ?thesis .
qed

subsection \<open>The exact effects\<close>

text \<open>Breaking a block turns it into its drop, exactly. The block disappears from the world
  and the units of every item change by the catalog's drop of that block and by nothing else,
  except that a tool on its last use disappears.\<close>

theorem break_effect:
  assumes "applier_reachable sha ap" and "world_typed (ap_state ap)" and "catalog_lawful (ap_catalog ap)"
    and "ap_pending ap = None"
    and "bt_get (gs_recent_receipts (ap_state ap)) (env_transaction_id env) = None"
    and "env_command env = Mine cmd" and "execute sha ap env fault = (ap', Inr r)"
    and "rec_outcome r = BlockBroken did chunk"
  shows "\<exists>ivt block (d :: block_definition).
    bt_get (gs_inventories (ap_state ap)) (mine_player cmd) = Some ivt \<and>
    bt_get (gs_blocks (ap_state ap)) (mine_target cmd) = Some block \<and>
    catalog_block (ap_catalog ap) block = Some d \<and>
    bt_get (gs_blocks (ap_state ap')) (mine_target cmd) = None \<and>
    (\<forall>i. world_units (ap_state ap') i + slot_count i (worn_tool (ap_mode ap) cmd (inv_slots ivt)) =
       world_units (ap_state ap) i + stack_units i (bdef_drop d))"
  using applier_reachable_inv [OF assms(1)] assms(7,4,5)
proof (cases rule: execute_new)
  case (1 p s')
  have "plan_mine (ap_catalog ap) (ap_mode ap) (ap_state ap) cmd = Inr (plan_edits p, BlockBroken did chunk)"
    using 1(2) assms(6,8) by (simp add: plan_command_def)
  from mine_units [OF 1(1) assms(2) _ this 1(3)] assms(3) 1(4) world_view_units(1) [OF 1(4)]
  show ?thesis by (simp add: catalog_lawful_def world_view_def)
qed

definition break_command :: mine_command where
  "break_command = \<lparr>mine_player = 1, mine_target = block_at 4,
     mine_expected_chunk_revision = 4, mine_tool_slot = Some 0, mine_reserved_drop = 30,
     mine_steps = 2\<rparr>"

definition break_envelope :: command_envelope where
  "break_envelope = \<lparr>env_transaction_id = 100, env_expected_world_revision = 5,
     env_command = Mine break_command\<rparr>"

lemma break_effect_witness:
  "bt_get (gs_blocks (ap_state (after_command break_envelope))) (block_at 4) = None \<and>
   world_units (ap_state (after_command break_envelope)) ''ore'' = 9"
proof -
  have "is_ok (snd (execute plain_sha sample_applier break_envelope NoFault))" by code_simp
  note run = command_run [OF this]
  have broken: "rec_outcome (answer_to break_envelope) = BlockBroken 30 sample_chunk" by code_simp
  have world: "bt_get (gs_inventories sample_state) (mine_player break_command) = Some sample_inventory"
      "bt_get (gs_blocks sample_state) (mine_target break_command) = Some ''vein''"
      "map_option bdef_drop (catalog_block sample_catalog ''vein'') = Some (ore_stack 2)" by code_simp+
  have counts: "slot_count ''ore'' (worn_tool Survival break_command (inv_slots sample_inventory)) = 0"
      "stack_units ''ore'' (ore_stack 2) = 2" "world_units sample_state ''ore'' = 7"
      "mine_target break_command = block_at 4" by code_simp+
  have "env_command break_envelope = Mine break_command" by (simp add: break_envelope_def)
  from break_effect [OF plain_reachable _ _ _ _ this run broken] world sample_typed sample_lawful fresh_sample
  have gone: "bt_get (gs_blocks (ap_state (after_command break_envelope))) (mine_target break_command) = None"
    and units: "\<forall>i. world_units (ap_state (after_command break_envelope)) i +
      slot_count i (worn_tool Survival break_command (inv_slots sample_inventory)) =
      world_units sample_state i + stack_units i (ore_stack 2)"
    by (auto simp: sample_fields)
  from gone spec [OF units, of "''ore''"] counts show ?thesis by simp
qed

text \<open>Placing a block moves it from the inventory into the world. The empty target gets the
  block of the item in the named slot; in survival mode one unit of that item is gone, in
  creative mode none, and no other item changes.\<close>

theorem place_effect:
  assumes "applier_reachable sha ap" and "world_typed (ap_state ap)"
    and "ap_pending ap = None"
    and "bt_get (gs_recent_receipts (ap_state ap)) (env_transaction_id env) = None"
    and "env_command env = Place cmd" and "execute sha ap env fault = (ap', Inr r)"
  shows "\<exists>ivt source (d :: item_definition) block.
    bt_get (gs_inventories (ap_state ap)) (place_player cmd) = Some ivt \<and>
    inv_slots ivt ! place_slot cmd = Some source \<and>
    catalog_item (ap_catalog ap) (stack_item source) = Some d \<and>
    idef_placement_block d = Some block \<and>
    bt_get (gs_blocks (ap_state ap)) (place_target cmd) = None \<and>
    gs_blocks (ap_state ap') = bt_insert (place_target cmd) block (gs_blocks (ap_state ap)) \<and>
    (\<forall>i. world_units (ap_state ap') i +
       (if ap_mode ap = Survival \<and> stack_item source = i then 1 else 0) =
       world_units (ap_state ap) i)"
  using applier_reachable_inv [OF assms(1)] assms(6,3,4)
proof (cases rule: execute_new)
  case (1 p s')
  have "plan_place (ap_catalog ap) (ap_mode ap) (ap_state ap) cmd = Inr (plan_edits p, rec_outcome r)"
    using 1(2) assms(5) by (simp add: plan_command_def)
  note effect = place_units [OF 1(1) assms(2) this 1(3)]
  have "gs_blocks (ap_state ap') = gs_blocks s'" using 1(4) by (simp add: world_view_def)
  with effect show ?thesis unfolding world_view_units(1) [OF 1(4)] by metis
qed

definition place_at :: place_command where
  "place_at = \<lparr>place_player = 1, place_slot = 1, place_target = block_at 6,
     place_expected_chunk_revision = 4\<rparr>"

definition place_envelope :: command_envelope where
  "place_envelope = \<lparr>env_transaction_id = 100, env_expected_world_revision = 5,
     env_command = Place place_at\<rparr>"

lemma place_effect_witness:
  "bt_get (gs_blocks (ap_state (after_command place_envelope))) (block_at 6) \<noteq> None"
proof -
  have "is_ok (snd (execute plain_sha sample_applier place_envelope NoFault))" by code_simp
  note run = command_run [OF this]
  have "env_command place_envelope = Place place_at" by (simp add: place_envelope_def)
  from place_effect [OF plain_reachable _ _ _ this run] sample_typed fresh_sample
  have "\<exists>block blocks. gs_blocks (ap_state (after_command place_envelope)) =
      bt_insert (place_target place_at) block blocks"
    by (auto simp: sample_fields)
  then show ?thesis by (auto simp: bt.get_insert place_at_def)
qed

text \<open>Crafting takes exactly the recipe. The crafting player's slots lose the units of the
  recipe's ingredients, no more and no fewer, gain none of any item but the product, and the
  product arrives whole; the outcome names it, and nothing else in the world changes.\<close>

theorem craft_effect:
  assumes "applier_reachable sha ap" and "world_typed (ap_state ap)" and "catalog_lawful (ap_catalog ap)"
    and "ap_pending ap = None"
    and "bt_get (gs_recent_receipts (ap_state ap)) (env_transaction_id env) = None"
    and "env_command env = Craft cmd" and "execute sha ap env fault = (ap', Inr r)"
  shows "\<exists>(recipe :: recipe_definition) product ivt consumed after.
    catalog_recipe (ap_catalog ap) (craft_recipe cmd) = Some recipe \<and>
    resolve_output (ap_catalog ap) (rdef_output recipe) = Inr product \<and>
    bt_get (gs_inventories (ap_state ap)) (craft_player cmd) = Some ivt \<and>
    slots_total consumed + pattern_cost (rdef_pattern recipe) = slots_total (inv_slots ivt) \<and>
    (\<forall>i. item_total i consumed \<le> item_total i (inv_slots ivt)) \<and>
    (\<forall>i. item_total i after = item_total i consumed + stack_units i product) \<and>
    world_view (ap_state ap') =
      world_view (set_inventory (ap_state ap) (craft_player cmd) (with_slots ivt after))"
  using applier_reachable_inv [OF assms(1)] assms(7,4,5)
proof (cases rule: execute_new)
  case (1 p s')
  have "plan_craft (ap_catalog ap) (ap_state ap) cmd = Inr (plan_edits p, rec_outcome r)"
    using 1(2) assms(6) by (simp add: plan_command_def)
  from craft_units [OF 1(1) assms(2) _ _ this 1(3)] assms(3) 1(4)
  show ?thesis unfolding catalog_lawful_def withdrawn_def by metis
qed

lemma craft_effect_witness:
  "\<exists>ivt. bt_get (gs_inventories (ap_state (after_command craft_envelope))) 1 = Some ivt \<and>
     item_total ''ingot'' (inv_slots ivt) = 1"
proof -
  let ?cmd = "\<lparr>craft_player = 1, craft_recipe = ''melt'', craft_input_slots = [1, 2],
       craft_workstation = None\<rparr>"
  have "is_ok (snd (execute plain_sha sample_applier craft_envelope NoFault))" by code_simp
  note run = command_run [OF this]
  have "env_command craft_envelope = Craft ?cmd" by (simp add: craft_envelope_def)
  from craft_effect [OF plain_reachable _ _ _ _ this run] sample_typed sample_lawful fresh_sample
  obtain recipe :: recipe_definition and product ivt consumed after where effect:
    "catalog_recipe sample_catalog ''melt'' = Some recipe"
    "resolve_output sample_catalog (rdef_output recipe) = Inr product"
    "bt_get (gs_inventories sample_state) 1 = Some ivt"
    "\<forall>i. item_total i consumed \<le> item_total i (inv_slots ivt)"
    "\<forall>i. item_total i after = item_total i consumed + stack_units i product"
    "world_view (ap_state (after_command craft_envelope)) =
      world_view (set_inventory sample_state 1 (with_slots ivt after))"
    by (auto simp: sample_fields)
  have "bt_get (gs_inventories sample_state) 1 = Some sample_inventory"
    "map_option (resolve_output sample_catalog \<circ> rdef_output) (catalog_recipe sample_catalog ''melt'') =
      Some (Inr (ingot_stack 1))"
    and zero: "item_total ''ingot'' (inv_slots sample_inventory) = 0"
      "stack_units ''ingot'' (ingot_stack 1) = 1" by code_simp+
  with effect(1-3) have "ivt = sample_inventory" "product = ingot_stack 1" by simp_all
  with zero spec [OF effect(4), of "''ingot''"] spec [OF effect(5), of "''ingot''"]
  have "item_total ''ingot'' after = 1" by simp
  moreover have "bt_get (gs_inventories (ap_state (after_command craft_envelope))) 1 =
      Some (with_slots ivt after)"
    using effect(6) by (simp add: world_view_def)
  ultimately show ?thesis by simp
qed

text \<open>Starting a process trades its input and one unit of fuel for the output it owes. Until
  the process completes, its output counts as pending in the world.\<close>

theorem start_process_effect:
  assumes "applier_reachable sha ap" and "world_typed (ap_state ap)" and "catalog_lawful (ap_catalog ap)"
    and "ap_pending ap = None"
    and "bt_get (gs_recent_receipts (ap_state ap)) (env_transaction_id env) = None"
    and "env_command env = StartProcess cmd" and "execute sha ap env fault = (ap', Inr r)"
  shows "\<exists>(process :: process_definition) (input :: item_stack) (fuel :: item_stack) product.
    catalog_process (ap_catalog ap) (sp_process cmd) = Some process \<and>
    predicate_matches (ap_catalog ap) (ing_accepts (pdef_input process)) (stack_item input) \<and>
    best_fuel_ticks (ap_catalog ap) (stack_item fuel) \<noteq> None \<and>
    resolve_output (ap_catalog ap) (pdef_output process) = Inr product \<and>
    (\<forall>i. world_units (ap_state ap') i +
        (if stack_item input = i then ing_quantity (pdef_input process) else 0) +
        (if stack_item fuel = i then 1 else 0) =
      world_units (ap_state ap) i + stack_units i product)"
  using applier_reachable_inv [OF assms(1)] assms(7,4,5)
proof (cases rule: execute_new)
  case (1 p s')
  have plan: "plan_start_process (ap_catalog ap) (ap_state ap) (env_transaction_id env) cmd =
      Inr (plan_edits p, rec_outcome r)"
    using 1(2) assms(6) by (simp add: plan_command_def)
  from start_process_units [OF 1(1) assms(2) _ plan start_process_free [OF plan 1(3)] 1(3)] assms(3)
  show ?thesis unfolding catalog_lawful_def world_view_units(1) [OF 1(4)] by metis
qed

text \<open>The flip of the top byte of a small identifier, as an addition.\<close>

lemma continuation_id_code [code]:
  "continuation_id_for tid =
     (if tid < 0x1000000000000000000000000000000 then tid + 0xc8000000000000000000000000000000
      else tid XOR push_bit 120 0xc8)"
proof (cases "tid < 0x1000000000000000000000000000000")
  case True
  then have small: "unat tid < 2 ^ 120" by (simp add: word_less_nat_alt)
  have low: "\<not> bit tid n" if "120 \<le> n" for n
  proof
    assume "bit tid n"
    then have "bit (unat tid) n" by (simp add: bit_unsigned_iff bit_imp_le_length)
    then have "odd (unat tid div 2 ^ n)" by (simp add: bit_iff_odd)
    moreover have "unat tid < 2 ^ n" using small that by (meson less_le_trans power_increasing one_le_numeral)
    ultimately show False by simp
  qed
  define top :: "128 word" where "top = push_bit 120 0xc8"
  have high: "120 \<le> n" if "bit top n" for n
    using that unfolding top_def by (simp only: bit_push_bit_iff)
  have "tid AND top = 0"
    by (rule bit_eqI) (auto simp: bit_and_iff dest: low high)
  then have "tid + top = tid XOR top" by (simp add: disjunctive_add_eq_xor)
  moreover have "top = 0xc8000000000000000000000000000000" by (simp add: top_def)
  ultimately show ?thesis using True by (simp add: continuation_id_for_def top_def)
qed (simp add: continuation_id_for_def)

definition smelt_envelope :: command_envelope where
  "smelt_envelope = \<lparr>env_transaction_id = 100, env_expected_world_revision = 5,
     env_command = StartProcess \<lparr>sp_container = 2, sp_process = ''smelt'', sp_input_slot = 0,
       sp_fuel_slot = 1, sp_output_slot = 2, sp_expected_container_revision = 7,
       sp_started_at = 10\<rparr>\<rparr>"

lemma start_process_effect_witness:
  "world_units (ap_state (after_command smelt_envelope)) ''ingot'' \<le> 1 \<and>
   world_units (ap_state (after_command smelt_envelope)) ''ore'' < 7"
proof -
  let ?cmd = "\<lparr>sp_container = 2, sp_process = ''smelt'', sp_input_slot = 0,
       sp_fuel_slot = 1, sp_output_slot = 2, sp_expected_container_revision = 7,
       sp_started_at = 10\<rparr>"
  have "is_ok (snd (execute plain_sha sample_applier smelt_envelope NoFault))" by code_simp
  note run = command_run [OF this]
  have "env_command smelt_envelope = StartProcess ?cmd" by (simp add: smelt_envelope_def)
  from start_process_effect [OF plain_reachable _ _ _ _ this run] sample_typed sample_lawful fresh_sample
  obtain process :: process_definition and input :: item_stack and fuel :: item_stack and product where effect:
    "catalog_process sample_catalog ''smelt'' = Some process"
    "predicate_matches sample_catalog (ing_accepts (pdef_input process)) (stack_item input)"
    "resolve_output sample_catalog (pdef_output process) = Inr product"
    "\<forall>i. world_units (ap_state (after_command smelt_envelope)) i +
        (if stack_item input = i then ing_quantity (pdef_input process) else 0) +
        (if stack_item fuel = i then 1 else 0) =
      world_units sample_state i + stack_units i product"
    by (auto simp: sample_fields)
  have "map_option pdef_input (catalog_process sample_catalog ''smelt'') =
      Some \<lparr>ing_accepts = Exact ''ore'', ing_quantity = 1\<rparr>"
    "map_option (resolve_output sample_catalog \<circ> pdef_output) (catalog_process sample_catalog ''smelt'') =
      Some (Inr (ingot_stack 1))" by code_simp+
  with effect(1,3) have input: "pdef_input process = \<lparr>ing_accepts = Exact ''ore'', ing_quantity = 1\<rparr>"
    and product: "product = ingot_stack 1" by simp_all
  have counts: "world_units sample_state ''ore'' = 7" "stack_units ''ore'' (ingot_stack 1) = 0"
    "world_units sample_state ''ingot'' = 0" "stack_units ''ingot'' (ingot_stack 1) = 1" by code_simp+
  from effect(2) input have "stack_item input = ''ore''" by simp
  with spec [OF effect(4), of "''ingot''"] spec [OF effect(4), of "''ore''"] input product counts
  show ?thesis by (auto split: if_splits)
qed

end
