(* ===== verification/Schedule_Properties.thy ===== *)
theory Schedule_Properties
  imports World_Effects Applier_Properties
begin

section \<open>Scheduled completions and the size of plans\<close>

text \<open>
  Which scheduled processes an advance completes and which it reports as due, and that no
  planner stages more edits than the limit or two edits of one cell.
\<close>

lemma bt_get_retired:
  "bt_get (foldl (\<lambda>m (_, cid). bt_remove cid m) m due) k = (if k \<in> snd ` set due then None else bt_get m k)"
  by (induction due arbitrary: m) (auto simp: bt.get_remove)

lemma set_due_continuations:
  "set (due_continuations s tick) =
     {(fc_due_tick c, k) | k c. bt_get (gs_continuations s) k = Some c \<and> fc_due_tick c \<le> tick}"
  by (auto simp: due_continuations_def bt.entries_get)

text \<open>C39: scheduled completion takes the earliest due processes and never skips one. Let the due
  processes be the stored continuations whose tick is at most the one the command names. An
  executed advance splits them, ordered by tick and then identifier, after the first
  \<open>max_completions\<close>: exactly those before the split are retired, the outcome reports how many
  and whether any are left over, and every other continuation, due or not, stays as it was.
  So repeating the advance drains the queue. (The command is a new transaction on a reachable
  applier with no storage commit pending, and its execution succeeded.)\<close>

theorem advance_completes:
  assumes "applier_reachable sha ap" and "ap_pending ap = None"
    and "bt_get (gs_recent_receipts (ap_state ap)) (env_transaction_id env) = None"
    and "env_command env = AdvanceScheduled cmd" and "execute sha ap env fault = (ap', Inr r)"
  shows "\<exists>retired waiting.
    set (retired @ waiting) = {(fc_due_tick c, k) | k c.
      bt_get (gs_continuations (ap_state ap)) k = Some c \<and> fc_due_tick c \<le> adv_through_tick cmd} \<and>
    sorted (retired @ waiting) \<and> distinct (retired @ waiting) \<and>
    length retired = min (adv_max_completions cmd) (length (retired @ waiting)) \<and>
    rec_outcome r = ScheduledAdvanced (length retired) (waiting \<noteq> []) \<and>
    (\<forall>k. bt_get (gs_continuations (ap_state ap')) k =
       (if k \<in> snd ` set retired then None else bt_get (gs_continuations (ap_state ap)) k)) \<and>
    (waiting = [] \<longrightarrow> (\<forall>k c. bt_get (gs_continuations (ap_state ap')) k = Some c \<longrightarrow>
       adv_through_tick cmd < fc_due_tick c))"
  using applier_reachable_inv [OF assms(1)] assms(5,2,3)
proof (cases rule: execute_new)
  case (1 p s')
  let ?s = "ap_state ap" and ?tick = "adv_through_tick cmd" and ?max = "adv_max_completions cmd"
  let ?all = "due_continuations ?s ?tick"
  have plan: "plan_advance_scheduled (ap_catalog ap) ?s cmd = Inr (plan_edits p, rec_outcome r)"
    using 1(2) assms(4) by (simp add: plan_command_def)
  from advance_accepted [OF 1(1) plan] obtain m where
    out: "rec_outcome r = ScheduledAdvanced (length (take ?max ?all)) (?max < length ?all)"
    and acc: "accepted ?s (plan_edits p) (retire_continuations (take ?max ?all)
      (complete_containers ?s (entries m) ?s))"
    by (auto simp: Let_def)
  have "gs_continuations (ap_state ap') = gs_continuations s'"
    using 1(4) by (simp add: world_view_def)
  then have get: "bt_get (gs_continuations (ap_state ap')) k =
      (if k \<in> snd ` set (take ?max ?all) then None else bt_get (gs_continuations ?s) k)" for k
    using accepted_fun [OF 1(3) acc] by (simp add: retire_continuations_def bt_get_retired)
  have "?tick < fc_due_tick c"
    if "drop ?max ?all = []" "bt_get (gs_continuations (ap_state ap')) k = Some c" for k c
  proof (rule ccontr)
    assume "\<not> ?tick < fc_due_tick c"
    moreover from that(2) have "bt_get (gs_continuations ?s) k = Some c"
      and "k \<notin> snd ` set (take ?max ?all)" by (simp_all add: get split: if_splits)
    moreover from that(1) have "take ?max ?all = ?all" by simp
    ultimately show False by (force simp: set_due_continuations)
  qed
  moreover have "sorted ?all" by (simp add: due_continuations_def)
  moreover have "distinct ?all" using due_continuations_distinct [of ?s ?tick] by (simp add: distinct_map)
  ultimately show ?thesis
    using out get unfolding set_due_continuations [symmetric]
    by (intro exI [of _ "take ?max ?all"] exI [of _ "drop ?max ?all"]) auto
qed

text \<open>A furnace whose ingot is due at tick 60.\<close>

definition queued_output :: furnace_continuation where
  "queued_output = \<lparr>fc_process = ''smelt'', fc_container = 2,
     fc_target = GameplayEditTarget sample_chunk Continuations, fc_output_slot = 2,
     fc_pending_output = ingot_stack 1, fc_due_tick = 60, fc_revision = 0\<rparr>"

definition queued_applier :: plan_applier where
  "queued_applier = sample_applier\<lparr>ap_state := sample_state\<lparr>gs_continuations :=
     of_pairs [(70, queued_output)]\<rparr>\<rparr>"

definition advance_envelope :: command_envelope where
  "advance_envelope = \<lparr>env_transaction_id = 100, env_expected_world_revision = 5,
     env_command = AdvanceScheduled \<lparr>adv_through_tick = 80, adv_max_completions = 4\<rparr>\<rparr>"

lemma advance_completes_witness:
  "bt_get (gs_continuations (ap_state
     (fst (execute (\<lambda>_. []) queued_applier advance_envelope NoFault)))) 70 = None"
proof -
  let ?sha = "\<lambda>_ :: byte list. []" and ?cmd = "\<lparr>adv_through_tick = 80, adv_max_completions = 4\<rparr>"
  have "is_ok (try_new_with_rules ?sha 7 (ap_state queued_applier) sample_catalog Survival)" by code_simp
  then have reach: "applier_reachable ?sha queued_applier"
    by (auto simp: is_ok_iff and_then_Inr try_new_with_rules_def queued_applier_def sample_applier_def
        split: option.splits intro!: reach_new [where world = 7])
  have "is_ok (snd (execute ?sha queued_applier advance_envelope NoFault))" by code_simp
  note run = outcome_projr [OF this]
  have cmd: "env_command advance_envelope = AdvanceScheduled ?cmd" by (simp add: advance_envelope_def)
  have none: "ap_pending queued_applier = None"
    "bt_get (gs_recent_receipts (ap_state queued_applier)) tid = None" for tid
    using fresh_sample by (simp_all add: queued_applier_def sample_applier_def)
  have stored: "bt_get (gs_continuations (ap_state queued_applier)) k =
      (if k = 70 then Some queued_output else None)" for k
    by (simp add: queued_applier_def of_pairs_def bt.get_insert bt.get_empty)
  let ?kept = "gs_continuations (ap_state (fst (execute ?sha queued_applier advance_envelope NoFault)))"
  from advance_completes [OF reach none cmd run] obtain retired waiting where
    queue: "set (retired @ waiting) = {(fc_due_tick c, k) | k c.
        bt_get (gs_continuations (ap_state queued_applier)) k = Some c \<and> fc_due_tick c \<le> 80}"
    and dist: "distinct (retired @ waiting)"
    and taken: "length retired = min 4 (length (retired @ waiting))"
    and kept: "\<forall>k. bt_get ?kept k =
        (if k \<in> snd ` set retired then None else bt_get (gs_continuations (ap_state queued_applier)) k)"
    by auto
  have "set (retired @ waiting) = {(60, 70)}"
    unfolding queue stored by (auto simp: queued_output_def)
  then have "length (retired @ waiting) = 1" using distinct_card [OF dist] by simp
  with taken have "waiting = []" by simp
  with \<open>set (retired @ waiting) = {(60, 70)}\<close> kept show ?thesis by simp
qed

text \<open>A plan is never larger than the batch loop can count. The planner returns at most the
  configured number of edits, which a loadable state bounds by 256, and no two of them name the
  same cell of the state.\<close>

theorem plan_bounds:
  assumes "plan sha cat mode s env = Inr p"
    and "continuation_id_free s (env_transaction_id env) (env_command env)"
  shows "length (plan_edits p) \<le> gl_mutations_per_command (gs_limits s) \<and>
    gl_mutations_per_command (gs_limits s) \<le> 256 \<and> distinct (map edit_key (plan_edits p))"
proof -
  note fields = plan_fields [OF assms(1)]
  from plan_command_accepted [OF fields(5,7) assms(2)]
  have "validate_plan_targets s (plan_edits p) = Inr ()" by (auto simp: accepted_def)
  then have "distinct (map edit_key (plan_edits p))" by (simp add: validate_plan_targets_Inr)
  moreover have "gl_mutations_per_command (gs_limits s) \<le> 256"
    using validate_loaded_parts(1) [OF fields(5)]
    by (auto simp: validate_collection_limits_def validate_gameplay_limits_def Let_def and_then_Inr
        split: if_split_asm)
  ultimately show ?thesis using fields(8) by simp
qed

lemma plan_bounds_witness: "length (plan_edits dropped_plan) \<le> 256"
  using plan_bounds [OF dropped_planned] by (simp add: continuation_id_free_def drop_envelope_def)

end
