(* ===== verification/Storage.thy ===== *)
theory Storage
  imports Applier
begin

section \<open>World storage: chunks, transactions, receipts\<close>

text \<open>
  \<open>model.rs\<close> and \<open>error.rs\<close> of \<open>latticeaxiom-storage\<close>: the chunk data an authoritative
  world stores, the revisions that guard it, optimistic transactions over whole chunks, the
  receipts they produce, the limits of the reference kernel and the meter that bounds the
  payload of one transaction. A dimension identifier is its validated text, so
  \<open>InvalidDimensionId\<close> is never raised here, nor is \<open>LockPoisoned\<close>. Byte identifiers are
  128-bit words, revisions are natural numbers whose increments are checked, and the mask of
  changed domains is a byte.
\<close>

subsection \<open>Keys and payloads\<close>

datatype chunk_key =
  ChunkKey (ck_world: world_id) (ck_dimension: dimension_id) (ck_coordinate: chunk_coordinate)

instantiation chunk_key :: linorder
begin

definition less_eq_chunk_key :: "chunk_key \<Rightarrow> chunk_key \<Rightarrow> bool" where
  "a \<le> b \<longleftrightarrow> (ck_world a, ck_dimension a, ck_coordinate a)
     \<le> (ck_world b, ck_dimension b, ck_coordinate b)"

definition less_chunk_key :: "chunk_key \<Rightarrow> chunk_key \<Rightarrow> bool" where
  "a < b \<longleftrightarrow> (ck_world a, ck_dimension a, ck_coordinate a)
     < (ck_world b, ck_dimension b, ck_coordinate b)"

instance
  by standard (auto simp: less_eq_chunk_key_def less_chunk_key_def chunk_key.expand)

end

record versioned_payload =
  vp_schema :: schema_id
  vp_schema_version :: u32
  vp_bytes :: "byte list"

record chunk_data =
  cd_voxels :: versioned_payload
  cd_persistent_entities :: "(persistent_entity_id, versioned_payload) btree"
  cd_continuations :: "(continuation_id, versioned_payload) btree"
  cd_provenance :: "(string, digest) btree"

record domain_revisions =
  dr_voxels :: u64
  dr_persistent_entities :: u64
  dr_continuation :: u64

definition domain_revisions_default :: domain_revisions where
  "domain_revisions_default =
     \<lparr>dr_voxels = 0, dr_persistent_entities = 0, dr_continuation = 0\<rparr>"

record stored_chunk =
  sc_key :: chunk_key
  sc_captured_world_revision :: world_revision
  sc_revision :: chunk_revision
  sc_domain_revisions :: domain_revisions
  sc_data :: chunk_data

subsection \<open>Changed domains\<close>

definition domains_none :: changed_domains where "domains_none = 0"
definition domain_voxels :: changed_domains where "domain_voxels = 1"
definition domain_persistent_entities :: changed_domains where "domain_persistent_entities = 2"
definition domain_continuations :: changed_domains where "domain_continuations = 4"
definition domain_provenance :: changed_domains where "domain_provenance = 8"
definition domains_all :: changed_domains where
  "domains_all = domain_voxels OR domain_persistent_entities OR domain_continuations
     OR domain_provenance"

definition domains_empty :: "changed_domains \<Rightarrow> bool" where
  "domains_empty d \<longleftrightarrow> d = 0"

subsection \<open>Transactions and receipts\<close>

datatype chunk_revision_expectation = ExpectAbsent | ExpectExact chunk_revision

record chunk_mutation =
  cm_key :: chunk_key
  cm_expected_revision :: chunk_revision_expectation
  cm_changed_domains :: changed_domains
  cm_data :: chunk_data

record world_transaction =
  wt_id :: transaction_id
  wt_world :: world_id
  wt_base_world_revision :: world_revision
  wt_mutations :: "chunk_mutation list"

datatype reference_durability = Queued

record chunk_commit_receipt =
  ccr_key :: chunk_key
  ccr_chunk_revision :: chunk_revision
  ccr_domain_revisions :: domain_revisions
  ccr_changed_domains :: changed_domains

record publication_receipt =
  pr_transaction_id :: transaction_id
  pr_world :: world_id
  pr_world_revision :: world_revision
  pr_chunks :: "chunk_commit_receipt list"
  pr_durability :: reference_durability
  pr_replayed :: bool

record commit_receipt =
  cor_transaction_id :: transaction_id
  cor_world :: world_id
  cor_world_revision :: world_revision
  cor_chunks :: "chunk_commit_receipt list"
  cor_durability :: reference_durability
  cor_materialized_chunk_state_hash :: digest
  cor_replayed :: bool

definition publication_of :: "commit_receipt \<Rightarrow> publication_receipt" where
  "publication_of r =
     \<lparr>pr_transaction_id = cor_transaction_id r, pr_world = cor_world r,
      pr_world_revision = cor_world_revision r, pr_chunks = cor_chunks r,
      pr_durability = cor_durability r, pr_replayed = cor_replayed r\<rparr>"

record reference_world_snapshot =
  rws_world :: world_id
  rws_revision :: world_revision
  rws_chunks :: "(chunk_key, stored_chunk) btree"
  rws_entity_locations :: "(persistent_entity_id, chunk_key) btree"
  rws_materialized_chunk_state_hash :: digest

subsection \<open>Failures\<close>

datatype fault_point =
  AfterValidation | AfterFirstStagedMutation | AfterStagingBeforePublish | AfterPublishBeforeReceipt

datatype revision_counter =
  WorldCounter | ChunkCounter | VoxelsCounter | PersistentEntitiesCounter | ContinuationCounter

datatype (plugins only: code size) storage_error =
    InvalidLimit string u64
  | InvalidDimensionId string string
  | InvalidSchemaVersion
  | InvalidDomainMask changed_domains
  | EmptyTransaction
  | ChunkWorldMismatch world_id chunk_key
  | DuplicateChunk chunk_key
  | TransactionChunkLimitExceeded u64 u32
  | TransactionPayloadLimitExceeded u64 u64
  | PayloadSizeOverflow string
  | WorldRevisionConflict world_id world_revision world_revision
  | ChunkRevisionConflict chunk_key chunk_revision_expectation "chunk_revision option"
  | ChangedDomainsMismatch chunk_key changed_domains changed_domains
  | NoopMutation chunk_key
  | RevisionCounterOverflow revision_counter "chunk_key option"
  | TransactionIdReuse world_id transaction_id
  | ReferenceReceiptUnavailable world_id transaction_id
  | RetryWindowClosed world_id transaction_id world_revision world_revision
  | PersistentEntityCollision world_id persistent_entity_id chunk_key chunk_key
  | ReceiptHistoryInvariant world_id
  | EntityIndexInvariant world_id persistent_entity_id
  | StorageFault fault_point
  | FaultAlreadyPending
  | LockPoisoned string

type_synonym 'a storage_result = "storage_error + 'a"

definition domains_from_bits :: "8 word \<Rightarrow> changed_domains storage_result" where
  "domains_from_bits bits =
     (if bits AND NOT domains_all = 0 then Inr bits else Inl (InvalidDomainMask bits))"

definition payload_schema_version_new :: "u32 \<Rightarrow> u32 storage_result" where
  "payload_schema_version_new v = (if v = 0 then Inl InvalidSchemaVersion else Inr v)"

subsection \<open>Limits\<close>

record kernel_limits =
  kl_max_chunks_per_transaction :: u32
  kl_max_payload_bytes_per_transaction :: u64
  kl_max_retained_receipts_per_world :: u32

definition kernel_limits_new :: "u32 \<Rightarrow> u64 \<Rightarrow> u32 \<Rightarrow> kernel_limits storage_result" where
  "kernel_limits_new chunks payload receipts =
     (if chunks = 0 then Inl (InvalidLimit ''max_chunks_per_transaction'' 0)
      else if payload = 0 then Inl (InvalidLimit ''max_payload_bytes_per_transaction'' 0)
      else if receipts = 0 then Inl (InvalidLimit ''max_retained_receipts_per_world'' 0)
      else Inr \<lparr>kl_max_chunks_per_transaction = chunks,
        kl_max_payload_bytes_per_transaction = payload,
        kl_max_retained_receipts_per_world = receipts\<rparr>)"

definition reference_limits :: kernel_limits where
  "reference_limits =
     \<lparr>kl_max_chunks_per_transaction = 32,
      kl_max_payload_bytes_per_transaction = 64 * 1024 * 1024,
      kl_max_retained_receipts_per_world = 64\<rparr>"

subsection \<open>The payload meter\<close>

text \<open>
  The meter is threaded through the traversal and stops it at the first value that passes
  the ceiling, so that the work of measuring is bounded too.
\<close>

record payload_byte_meter =
  pm_measured :: u64
  pm_ceiling :: u64

definition meter_new :: "u64 \<Rightarrow> payload_byte_meter" where
  "meter_new ceiling = \<lparr>pm_measured = 0, pm_ceiling = ceiling\<rparr>"

definition meter_add ::
    "u64 \<Rightarrow> string \<Rightarrow> payload_byte_meter \<Rightarrow> payload_byte_meter storage_result" where
  "meter_add bytes what m =
     and_then (ok_or (checked_add u64_max (pm_measured m) bytes) (PayloadSizeOverflow what))
       (\<lambda>minimum_payload_bytes.
     if pm_ceiling m < minimum_payload_bytes
     then Inl (TransactionPayloadLimitExceeded minimum_payload_bytes (pm_ceiling m))
     else Inr (m\<lparr>pm_measured := minimum_payload_bytes\<rparr>))"

definition usize_to_u64 :: "usize \<Rightarrow> string \<Rightarrow> u64 storage_result" where
  "usize_to_u64 n what = ok_or (try_from u64_max n) (PayloadSizeOverflow what)"

definition meter_len ::
    "usize \<Rightarrow> string \<Rightarrow> payload_byte_meter \<Rightarrow> payload_byte_meter storage_result" where
  "meter_len n what m = and_then (usize_to_u64 n what) (\<lambda>bytes. meter_add bytes what m)"

definition measure_payload ::
    "versioned_payload \<Rightarrow> payload_byte_meter \<Rightarrow> payload_byte_meter storage_result" where
  "measure_payload p m =
     and_then (meter_add 8 ''payload schema length'' m) (\<lambda>m.
     and_then (meter_len (length (vp_schema p)) ''payload schema ID'' m) (\<lambda>m.
     and_then (meter_add 4 ''payload schema version'' m) (\<lambda>m.
     and_then (meter_add 8 ''versioned payload length'' m)
       (meter_len (length (vp_bytes p)) ''versioned payload''))))"

definition measure_entry ::
    "string \<Rightarrow> versioned_payload \<Rightarrow> payload_byte_meter \<Rightarrow> payload_byte_meter storage_result" where
  "measure_entry what p m = and_then (meter_add 16 what m) (measure_payload p)"

definition measure_provenance ::
    "string \<Rightarrow> payload_byte_meter \<Rightarrow> payload_byte_meter storage_result" where
  "measure_provenance key m =
     and_then (meter_add 8 ''provenance key length'' m) (\<lambda>m.
     and_then (meter_len (length key) ''provenance key'' m)
       (meter_add 32 ''provenance digest''))"

definition measure_chunk_data ::
    "chunk_data \<Rightarrow> payload_byte_meter \<Rightarrow> payload_byte_meter storage_result" where
  "measure_chunk_data d m =
     and_then (measure_payload (cd_voxels d) m) (\<lambda>m.
     and_then (usize_to_u64 (bt_len (cd_persistent_entities d)) ''persistent entity count'') (\<lambda>_.
     and_then (meter_add 8 ''persistent entity count'' m) (\<lambda>m.
     and_then (try_fold (measure_entry ''persistent entity ID'')
       (bt_values (cd_persistent_entities d)) m) (\<lambda>m.
     and_then (usize_to_u64 (bt_len (cd_continuations d)) ''continuation count'') (\<lambda>_.
     and_then (meter_add 8 ''continuation count'' m) (\<lambda>m.
     and_then (try_fold (measure_entry ''continuation ID'')
       (bt_values (cd_continuations d)) m) (\<lambda>m.
     and_then (usize_to_u64 (bt_len (cd_provenance d)) ''provenance count'') (\<lambda>_.
     and_then (meter_add 8 ''provenance count'' m)
       (try_fold measure_provenance (bt_keys (cd_provenance d)))))))))))"

end
