(* ===== verification/Storage_Hash.thy ===== *)
theory Storage_Hash
  imports Storage
begin

section \<open>Canonical hashes of chunk state and transactions\<close>

text \<open>
  \<open>canonical_hash.rs\<close> of \<open>latticeaxiom-storage\<close>. As in \<open>Hash\<close>, a function that feeds the
  digest returns the bytes it feeds; a length that does not fit in 64 bits makes it fail.
  The reference hash of a world is computed over its chunk map
  (\<open>hash_materialized_chunk_state\<close>) and, before a transaction is published, over the merge
  of the old map with the staged replacements (\<open>hash_projected_materialized_chunk_state\<close>).
\<close>

subsection \<open>Feeding bytes\<close>

definition feed ::
    "byte list storage_result \<Rightarrow> byte list storage_result \<Rightarrow> byte list storage_result" where
  "feed a b = and_then a (\<lambda>xs. and_then b (\<lambda>ys. Inr (xs @ ys)))"

fun feed_all :: "('a \<Rightarrow> byte list storage_result) \<Rightarrow> 'a list \<Rightarrow> byte list storage_result" where
  "feed_all f [] = Inr []"
| "feed_all f (x # xs) = feed (f x) (feed_all f xs)"

definition dig_collection_len :: "usize \<Rightarrow> string \<Rightarrow> byte list storage_result" where
  "dig_collection_len len what =
     and_then (ok_or (try_from u64_max len) (PayloadSizeOverflow what)) (\<lambda>len. Inr (enc_u64 len))"

definition dig_bytes :: "byte list \<Rightarrow> string \<Rightarrow> byte list storage_result" where
  "dig_bytes bytes what = feed (dig_collection_len (length bytes) what) (Inr bytes)"

definition dig_world_id :: "world_id \<Rightarrow> byte list" where
  "dig_world_id w = id_bytes w"

definition dig_chunk_key :: "chunk_key \<Rightarrow> byte list storage_result" where
  "dig_chunk_key k =
     feed (Inr (dig_world_id (ck_world k)))
     (feed (dig_bytes (string_bytes (ck_dimension k)) ''dimension ID'')
     (Inr (enc_i32 (cc_x (ck_coordinate k)) @ enc_i32 (cc_y (ck_coordinate k)) @
       enc_i32 (cc_z (ck_coordinate k)))))"

definition dig_versioned_payload :: "versioned_payload \<Rightarrow> byte list storage_result" where
  "dig_versioned_payload p =
     feed (dig_bytes (string_bytes (vp_schema p)) ''payload schema ID'')
     (feed (Inr (enc_u32 (vp_schema_version p)))
     (dig_bytes (vp_bytes p) ''versioned payload''))"

definition dig_entry :: "128 word \<times> versioned_payload \<Rightarrow> byte list storage_result" where
  "dig_entry = (\<lambda>(i, payload). feed (Inr (id_bytes i)) (dig_versioned_payload payload))"

definition dig_provenance :: "string \<times> digest \<Rightarrow> byte list storage_result" where
  "dig_provenance = (\<lambda>(i, hash). feed (dig_bytes (string_bytes i) ''provenance ID'') (Inr hash))"

definition dig_chunk_data :: "chunk_data \<Rightarrow> byte list storage_result" where
  "dig_chunk_data d =
     feed (Inr (enc_u8 1))
     (feed (dig_versioned_payload (cd_voxels d))
     (feed (Inr (enc_u8 2))
     (feed (dig_collection_len (bt_len (cd_persistent_entities d)) ''persistent entity count'')
     (feed (feed_all dig_entry (entries (cd_persistent_entities d)))
     (feed (Inr (enc_u8 3))
     (feed (dig_collection_len (bt_len (cd_continuations d)) ''continuation count'')
     (feed (feed_all dig_entry (entries (cd_continuations d)))
     (feed (Inr (enc_u8 4))
     (feed (dig_collection_len (bt_len (cd_provenance d)) ''provenance count'')
     (feed_all dig_provenance (entries (cd_provenance d))))))))))))"

definition hash_chunk_entry :: "chunk_key \<times> stored_chunk \<Rightarrow> byte list storage_result" where
  "hash_chunk_entry = (\<lambda>(k, c).
     feed (dig_chunk_key k)
     (feed (Inr (enc_u64 (sc_captured_world_revision c) @ enc_u64 (sc_revision c) @
       enc_u64 (dr_voxels (sc_domain_revisions c)) @
       enc_u64 (dr_persistent_entities (sc_domain_revisions c)) @
       enc_u64 (dr_continuation (sc_domain_revisions c))))
     (dig_chunk_data (sc_data c))))"

subsection \<open>The hash of a world\<close>

definition state_domain :: "byte list" where
  "state_domain =
     string_bytes ''latticeaxiom:reference-materialized-chunk-state/v1'' @ [0]"

definition hash_materialized_chunk_state ::
    "digest_function \<Rightarrow> world_id \<Rightarrow> world_revision \<Rightarrow> (chunk_key, stored_chunk) btree \<Rightarrow>
     digest storage_result" where
  "hash_materialized_chunk_state sha world revision chunks =
     and_then
       (feed (Inr (state_domain @ dig_world_id world @ enc_u64 revision))
       (feed (dig_collection_len (bt_len chunks) ''world chunk count'')
       (feed_all hash_chunk_entry (entries chunks))))
     (\<lambda>bytes. Inr (sha bytes))"

text \<open>The loop over two peeked iterators: the smaller key first, a replacement wins.\<close>

fun merge_entries ::
    "('k::linorder \<times> 'v) list \<Rightarrow> ('k \<times> 'v) list \<Rightarrow> ('k \<times> 'v) list" where
  "merge_entries ((ek, ec) # existing) ((rk, rc) # replacement) =
     (if ek < rk then (ek, ec) # merge_entries existing ((rk, rc) # replacement)
      else if ek = rk then (rk, rc) # merge_entries existing replacement
      else (rk, rc) # merge_entries ((ek, ec) # existing) replacement)"
| "merge_entries existing [] = existing"
| "merge_entries [] replacement = replacement"

definition hash_projected_materialized_chunk_state ::
    "digest_function \<Rightarrow> world_id \<Rightarrow> world_revision \<Rightarrow> (chunk_key, stored_chunk) btree \<Rightarrow>
     (chunk_key, stored_chunk) btree \<Rightarrow> digest storage_result" where
  "hash_projected_materialized_chunk_state sha world revision chunks replacements =
     (let inserted = length (filter (\<lambda>k. \<not> bt_contains chunks k) (bt_keys replacements)) in
      and_then (ok_or (checked_add usize_max (bt_len chunks) inserted)
          (PayloadSizeOverflow ''projected world chunk count'')) (\<lambda>projected_count.
      and_then
        (feed (Inr (state_domain @ dig_world_id world @ enc_u64 revision))
        (feed (dig_collection_len projected_count ''world chunk count'')
        (feed_all hash_chunk_entry (merge_entries (entries chunks) (entries replacements)))))
      (\<lambda>bytes. Inr (sha bytes))))"

subsection \<open>The fingerprint of a transaction\<close>

definition transaction_domain :: "byte list" where
  "transaction_domain =
     string_bytes ''latticeaxiom:reference-materialized-chunk-transaction/v1'' @ [0]"

definition dig_mutation :: "chunk_mutation \<Rightarrow> byte list storage_result" where
  "dig_mutation m =
     feed (dig_chunk_key (cm_key m))
     (feed (Inr (case cm_expected_revision m of
        ExpectAbsent \<Rightarrow> enc_u8 0
      | ExpectExact revision \<Rightarrow> enc_u8 1 @ enc_u64 revision))
     (feed (Inr (enc_u8 (unat (cm_changed_domains m))))
     (dig_chunk_data (cm_data m))))"

definition transaction_preimage :: "world_transaction \<Rightarrow> byte list storage_result" where
  "transaction_preimage t =
     feed (Inr (transaction_domain @ dig_world_id (wt_world t) @
       enc_u64 (wt_base_world_revision t)))
     (feed (dig_collection_len (length (wt_mutations t)) ''transaction mutation count'')
     (feed_all dig_mutation (wt_mutations t)))"

definition hash_transaction ::
    "digest_function \<Rightarrow> world_transaction \<Rightarrow> digest storage_result" where
  "hash_transaction sha t = and_then (transaction_preimage t) (\<lambda>bytes. Inr (sha bytes))"

end
