(* ===== verification/Storage_Kernel.thy ===== *)
theory Storage_Kernel
  imports Storage_Hash
begin

section \<open>The in-memory transaction kernel\<close>

text \<open>
  \<open>memory.rs\<close> of \<open>latticeaxiom-storage\<close>. The kernel is one value behind a lock: an
  operation takes it and returns it with its result. What the code changes before it fails
  stays changed, so a failed commit returns the kernel as the failure left it. A poisoned
  lock, the consequence of a panic of another thread, is not modelled.
\<close>

subsection \<open>State\<close>

record committed_transaction =
  ct_fingerprint :: digest
  ct_publication :: publication_receipt
  ct_materialized_chunk_state_hash :: "digest option"

record memory_world =
  mw_revision :: world_revision
  mw_chunks :: "(chunk_key, stored_chunk) btree"
  mw_entity_locations :: "(persistent_entity_id, chunk_key) btree"
  mw_committed_transactions :: "(transaction_id, committed_transaction) btree"
  mw_receipt_order :: "transaction_id list"

definition memory_world_default :: memory_world where
  "memory_world_default =
     \<lparr>mw_revision = 0, mw_chunks = bt_empty, mw_entity_locations = bt_empty,
      mw_committed_transactions = bt_empty, mw_receipt_order = []\<rparr>"

record memory_kernel =
  mk_limits :: kernel_limits
  mk_worlds :: "(world_id, memory_world) btree"
  mk_next_fault :: "fault_point option"

definition with_limits :: "kernel_limits \<Rightarrow> memory_kernel" where
  "with_limits limits = \<lparr>mk_limits = limits, mk_worlds = bt_empty, mk_next_fault = None\<rparr>"

definition current_world :: "memory_kernel \<Rightarrow> world_id \<Rightarrow> memory_world" where
  "current_world k world =
     (case bt_get (mk_worlds k) world of Some w \<Rightarrow> w | None \<Rightarrow> memory_world_default)"

subsection \<open>Reads and residency\<close>

definition has_continuation :: "memory_kernel \<Rightarrow> chunk_key \<Rightarrow> continuation_id \<Rightarrow> bool" where
  "has_continuation k key cid =
     (case bt_get (mk_worlds k) (ck_world key) of
        None \<Rightarrow> False
      | Some w \<Rightarrow>
         (case bt_get (mw_chunks w) key of
            None \<Rightarrow> False
          | Some c \<Rightarrow> bt_contains (cd_continuations (sc_data c)) cid))"

definition release_persisted_copy ::
    "memory_kernel \<Rightarrow> chunk_key \<Rightarrow> chunk_revision \<Rightarrow> memory_kernel \<times> bool" where
  "release_persisted_copy k key revision =
     (case bt_get (mk_worlds k) (ck_world key) of
        None \<Rightarrow> (k, False)
      | Some w \<Rightarrow>
         (case bt_get (mw_chunks w) key of
            None \<Rightarrow> (k, False)
          | Some c \<Rightarrow>
              if sc_revision c \<noteq> revision then (k, False)
              else
                let w' = w\<lparr>mw_chunks := bt_remove key (mw_chunks w),
                    mw_entity_locations := foldl (\<lambda>m e. bt_remove e m) (mw_entity_locations w)
                      (bt_keys (cd_persistent_entities (sc_data c)))\<rparr>
                in (k\<lparr>mk_worlds := bt_insert (ck_world key) w' (mk_worlds k)\<rparr>, True)))"

definition capture_chunks ::
    "memory_kernel \<Rightarrow> world_id \<Rightarrow> chunk_key list \<Rightarrow> stored_chunk list" where
  "capture_chunks k world keys =
     (case bt_get (mk_worlds k) world of
        None \<Rightarrow> []
      | Some w \<Rightarrow>
          List.map_filter (bt_get (mw_chunks w)) (filter (\<lambda>key. ck_world key = world) keys))"

definition resident_chunk_count :: "memory_kernel \<Rightarrow> world_id \<Rightarrow> usize" where
  "resident_chunk_count k world =
     (case bt_get (mk_worlds k) world of None \<Rightarrow> 0 | Some w \<Rightarrow> bt_len (mw_chunks w))"

definition world_frontier :: "memory_kernel \<Rightarrow> world_id \<Rightarrow> world_revision" where
  "world_frontier k world =
     (case bt_get (mk_worlds k) world of None \<Rightarrow> 0 | Some w \<Rightarrow> mw_revision w)"

definition read_chunk :: "memory_kernel \<Rightarrow> chunk_key \<Rightarrow> stored_chunk option" where
  "read_chunk k key =
     (case bt_get (mk_worlds k) (ck_world key) of
        None \<Rightarrow> None | Some w \<Rightarrow> bt_get (mw_chunks w) key)"

definition reference_snapshot ::
    "digest_function \<Rightarrow> memory_kernel \<Rightarrow> world_id \<Rightarrow> reference_world_snapshot storage_result" where
  "reference_snapshot sha k world =
     (let (revision, chunks, locations) =
        (case bt_get (mk_worlds k) world of
           None \<Rightarrow> (0, bt_empty, bt_empty)
         | Some w \<Rightarrow> (mw_revision w, mw_chunks w, mw_entity_locations w))
      in and_then (hash_materialized_chunk_state sha world revision chunks) (\<lambda>hash.
        Inr \<lparr>rws_world = world, rws_revision = revision, rws_chunks = chunks,
          rws_entity_locations = locations, rws_materialized_chunk_state_hash = hash\<rparr>))"

definition inject_fault_once ::
    "memory_kernel \<Rightarrow> fault_point \<Rightarrow> memory_kernel \<times> unit storage_result" where
  "inject_fault_once k point =
     (if mk_next_fault k \<noteq> None then (k, Inl FaultAlreadyPending)
      else (k\<lparr>mk_next_fault := Some point\<rparr>, Inr ()))"

subsection \<open>Validation\<close>

record prepared_transaction =
  pt_id :: transaction_id
  pt_world :: world_id
  pt_base_world_revision :: world_revision
  pt_mutations :: "chunk_mutation list"
  pt_fingerprint :: digest

definition validate_count_limit ::
    "world_transaction \<Rightarrow> kernel_limits \<Rightarrow> unit storage_result" where
  "validate_count_limit t limits =
     and_then (ok_or (try_from u64_max (length (wt_mutations t)))
         (PayloadSizeOverflow ''transaction mutation count'')) (\<lambda>actual_chunks.
       if kl_max_chunks_per_transaction limits < actual_chunks
       then Inl (TransactionChunkLimitExceeded actual_chunks (kl_max_chunks_per_transaction limits))
       else Inr ())"

definition validate_payload_limit ::
    "world_transaction \<Rightarrow> kernel_limits \<Rightarrow> unit storage_result" where
  "validate_payload_limit t limits =
     and_then (try_fold (\<lambda>m. measure_chunk_data (cm_data m)) (wt_mutations t)
       (meter_new (kl_max_payload_bytes_per_transaction limits))) (\<lambda>_. Inr ())"

fun validate_keys_from ::
    "world_id \<Rightarrow> chunk_key option \<Rightarrow> chunk_mutation list \<Rightarrow> unit storage_result" where
  "validate_keys_from world previous [] = Inr ()"
| "validate_keys_from world previous (m # ms) =
     (if ck_world (cm_key m) \<noteq> world then Inl (ChunkWorldMismatch world (cm_key m))
      else if previous = Some (cm_key m) then Inl (DuplicateChunk (cm_key m))
      else validate_keys_from world (Some (cm_key m)) ms)"

definition validate_keys :: "world_transaction \<Rightarrow> unit storage_result" where
  "validate_keys t = validate_keys_from (wt_world t) None (wt_mutations t)"

text \<open>\<open>sort_by\<close> is stable, and so is \<open>sort_key\<close>.\<close>

definition validate_transaction ::
    "digest_function \<Rightarrow> world_transaction \<Rightarrow> kernel_limits \<Rightarrow>
     prepared_transaction storage_result" where
  "validate_transaction sha t limits =
     (if wt_mutations t = [] then Inl EmptyTransaction
      else and_then (validate_count_limit t limits) (\<lambda>_.
        and_then (validate_payload_limit t limits) (\<lambda>_.
        let t = t\<lparr>wt_mutations := sort_key cm_key (wt_mutations t)\<rparr> in
        and_then (validate_keys t) (\<lambda>_.
        and_then (hash_transaction sha t) (\<lambda>fingerprint.
        Inr \<lparr>pt_id = wt_id t, pt_world = wt_world t,
          pt_base_world_revision = wt_base_world_revision t,
          pt_mutations = wt_mutations t, pt_fingerprint = fingerprint\<rparr>)))))"

subsection \<open>Replay\<close>

datatype commit_evidence = PublicationEvidence | ReferenceEvidence

datatype committed_receipt =
  PublicationReceipt publication_receipt | ReferenceReceipt commit_receipt

definition committed_receipt_of ::
    "publication_receipt \<Rightarrow> digest option \<Rightarrow> commit_evidence \<Rightarrow>
     committed_receipt storage_result" where
  "committed_receipt_of publication mhash evidence =
     (case evidence of
        PublicationEvidence \<Rightarrow> Inr (PublicationReceipt publication)
      | ReferenceEvidence \<Rightarrow>
          and_then (ok_or mhash (ReferenceReceiptUnavailable (pr_world publication)
              (pr_transaction_id publication))) (\<lambda>hash.
            Inr (ReferenceReceipt
              \<lparr>cor_transaction_id = pr_transaction_id publication,
               cor_world = pr_world publication,
               cor_world_revision = pr_world_revision publication,
               cor_chunks = pr_chunks publication,
               cor_durability = pr_durability publication,
               cor_materialized_chunk_state_hash = hash,
               cor_replayed = pr_replayed publication\<rparr>)))"

definition replay_receipt ::
    "memory_world \<Rightarrow> prepared_transaction \<Rightarrow> commit_evidence \<Rightarrow>
     committed_receipt option storage_result" where
  "replay_receipt w pt evidence =
     (case bt_get (mw_committed_transactions w) (pt_id pt) of
        None \<Rightarrow> Inr None
      | Some committed \<Rightarrow>
          if ct_fingerprint committed \<noteq> pt_fingerprint pt
          then Inl (TransactionIdReuse (pt_world pt) (pt_id pt))
          else and_then (committed_receipt_of ((ct_publication committed)\<lparr>pr_replayed := True\<rparr>)
              (ct_materialized_chunk_state_hash committed) evidence) (\<lambda>r. Inr (Some r)))"

definition ensure_retry_not_expired ::
    "memory_world \<Rightarrow> prepared_transaction \<Rightarrow> unit storage_result" where
  "ensure_retry_not_expired w pt =
     (if mw_revision w \<le> pt_base_world_revision pt then Inr ()
      else case mw_receipt_order w of
        [] \<Rightarrow> Inr ()
      | oldest_id # _ \<Rightarrow>
          and_then (ok_or (bt_get (mw_committed_transactions w) oldest_id)
            (ReceiptHistoryInvariant (pt_world pt))) (\<lambda>oldest.
          and_then (ok_or (checked_sub (pr_world_revision (ct_publication oldest)) 1)
            (ReceiptHistoryInvariant (pt_world pt))) (\<lambda>oldest_replayable_base.
          if pt_base_world_revision pt < oldest_replayable_base
          then Inl (RetryWindowClosed (pt_world pt) (pt_id pt) (pt_base_world_revision pt)
            oldest_replayable_base)
          else Inr ())))"

definition ensure_world_revision ::
    "memory_world \<Rightarrow> prepared_transaction \<Rightarrow> unit storage_result" where
  "ensure_world_revision w pt =
     (if mw_revision w \<noteq> pt_base_world_revision pt
      then Inl (WorldRevisionConflict (pt_world pt) (pt_base_world_revision pt) (mw_revision w))
      else Inr ())"

subsection \<open>Mutation plans\<close>

definition next_world_revision :: "world_revision \<Rightarrow> world_revision storage_result" where
  "next_world_revision current =
     ok_or (checked_add u64_max current 1) (RevisionCounterOverflow WorldCounter None)"

record mutation_plan =
  mp_mutation :: chunk_mutation
  mp_chunk_revision :: chunk_revision
  mp_domain_revisions :: domain_revisions

definition ensure_chunk_revision ::
    "stored_chunk option \<Rightarrow> chunk_mutation \<Rightarrow> unit storage_result" where
  "ensure_chunk_revision current m =
     (let actual = map_option sc_revision current;
          ok = (case cm_expected_revision m of
            ExpectAbsent \<Rightarrow> actual = None | ExpectExact expected \<Rightarrow> actual = Some expected) in
      if \<not> ok then Inl (ChunkRevisionConflict (cm_key m) (cm_expected_revision m) actual)
      else Inr ())"

definition changed_domains_of :: "chunk_data option \<Rightarrow> chunk_data \<Rightarrow> changed_domains" where
  "changed_domains_of current replacement =
     (case current of
        None \<Rightarrow> domains_all
      | Some c \<Rightarrow>
          let d = domains_none;
              d = (if cd_voxels c \<noteq> cd_voxels replacement
                then domains_union d domain_voxels else d);
              d = (if cd_persistent_entities c \<noteq> cd_persistent_entities replacement
                then domains_union d domain_persistent_entities else d);
              d = (if cd_continuations c \<noteq> cd_continuations replacement
                then domains_union d domain_continuations else d);
              d = (if cd_provenance c \<noteq> cd_provenance replacement
                then domains_union d domain_provenance else d)
          in d)"

definition next_chunk_revision ::
    "chunk_revision \<Rightarrow> chunk_key \<Rightarrow> chunk_revision storage_result" where
  "next_chunk_revision current key =
     ok_or (checked_add u64_max current 1) (RevisionCounterOverflow ChunkCounter (Some key))"

text \<open>The three functions \<open>next_voxel_revision\<close>, \<open>next_entity_revision\<close> and
  \<open>next_continuation_revision\<close> differ in the domain and the counter.\<close>

definition next_domain_revision ::
    "changed_domains \<Rightarrow> revision_counter \<Rightarrow> u64 \<Rightarrow> changed_domains \<Rightarrow> chunk_key \<Rightarrow>
     u64 storage_result" where
  "next_domain_revision domain counter current changed key =
     (if \<not> domains_contain changed domain then Inr current
      else ok_or (checked_add u64_max current 1) (RevisionCounterOverflow counter (Some key)))"

definition next_domain_revisions ::
    "domain_revisions \<Rightarrow> changed_domains \<Rightarrow> chunk_key \<Rightarrow> domain_revisions storage_result" where
  "next_domain_revisions current changed key =
     and_then (next_domain_revision domain_voxels VoxelsCounter
       (dr_voxels current) changed key) (\<lambda>voxels.
     and_then (next_domain_revision domain_persistent_entities PersistentEntitiesCounter
       (dr_persistent_entities current) changed key) (\<lambda>persistent_entities.
     and_then (next_domain_revision domain_continuations ContinuationCounter
       (dr_continuation current) changed key) (\<lambda>continuation.
     Inr \<lparr>dr_voxels = voxels, dr_persistent_entities = persistent_entities,
       dr_continuation = continuation\<rparr>)))"

definition prepare_mutation_plan ::
    "memory_world \<Rightarrow> chunk_mutation \<Rightarrow> mutation_plan storage_result" where
  "prepare_mutation_plan w m =
     (let current = bt_get (mw_chunks w) (cm_key m) in
      and_then (ensure_chunk_revision current m) (\<lambda>_.
      let actual_domains = changed_domains_of (map_option sc_data current) (cm_data m) in
      if domains_empty actual_domains then Inl (NoopMutation (cm_key m))
      else if actual_domains \<noteq> cm_changed_domains m
      then Inl (ChangedDomainsMismatch (cm_key m) (cm_changed_domains m) actual_domains)
      else
        let current_chunk_revision = (case current of Some c \<Rightarrow> sc_revision c | None \<Rightarrow> 0);
            current_domain_revisions =
              (case current of Some c \<Rightarrow> sc_domain_revisions c | None \<Rightarrow> domain_revisions_default) in
        and_then (next_chunk_revision current_chunk_revision (cm_key m)) (\<lambda>chunk_revision.
        and_then (next_domain_revisions current_domain_revisions actual_domains (cm_key m))
          (\<lambda>revisions.
        Inr \<lparr>mp_mutation = m, mp_chunk_revision = chunk_revision,
          mp_domain_revisions = revisions\<rparr>))))"

text \<open>\<open>prepare_mutation_plans\<close>: \<open>map\<close> and \<open>collect\<close> into a \<open>Result\<close>.\<close>

fun prepare_mutation_plans ::
    "memory_world \<Rightarrow> chunk_mutation list \<Rightarrow> mutation_plan list storage_result" where
  "prepare_mutation_plans w [] = Inr []"
| "prepare_mutation_plans w (m # ms) =
     and_then (prepare_mutation_plan w m) (\<lambda>p.
     and_then (prepare_mutation_plans w ms) (\<lambda>ps. Inr (p # ps)))"

subsection \<open>The entity index\<close>

definition unlist_entity ::
    "chunk_key \<Rightarrow> persistent_entity_id \<Rightarrow> (persistent_entity_id, chunk_key) btree \<Rightarrow>
     (persistent_entity_id, chunk_key) btree storage_result" where
  "unlist_entity key e locations =
     (case bt_get locations e of
        Some indexed_key \<Rightarrow>
          if indexed_key = key then Inr (bt_remove e locations)
          else Inl (EntityIndexInvariant (ck_world key) e)
      | None \<Rightarrow> Inl (EntityIndexInvariant (ck_world key) e))"

definition list_entity ::
    "chunk_key \<Rightarrow> persistent_entity_id \<Rightarrow> (persistent_entity_id, chunk_key) btree \<Rightarrow>
     (persistent_entity_id, chunk_key) btree storage_result" where
  "list_entity key e locations =
     (case bt_get locations e of
        Some existing \<Rightarrow>
          if existing \<noteq> key
          then Inl (PersistentEntityCollision (ck_world key) e existing key)
          else Inr (bt_insert e key locations)
      | None \<Rightarrow> Inr (bt_insert e key locations))"

definition unlist_plan ::
    "memory_world \<Rightarrow> mutation_plan \<Rightarrow> (persistent_entity_id, chunk_key) btree \<Rightarrow>
     (persistent_entity_id, chunk_key) btree storage_result" where
  "unlist_plan w p locations =
     (case bt_get (mw_chunks w) (cm_key (mp_mutation p)) of
        None \<Rightarrow> Inr locations
      | Some current \<Rightarrow>
          try_fold (unlist_entity (cm_key (mp_mutation p)))
            (bt_keys (cd_persistent_entities (sc_data current))) locations)"

definition list_plan ::
    "mutation_plan \<Rightarrow> (persistent_entity_id, chunk_key) btree \<Rightarrow>
     (persistent_entity_id, chunk_key) btree storage_result" where
  "list_plan p =
     try_fold (list_entity (cm_key (mp_mutation p)))
       (bt_keys (cd_persistent_entities (cm_data (mp_mutation p))))"

definition project_entity_locations ::
    "memory_world \<Rightarrow> mutation_plan list \<Rightarrow>
     (persistent_entity_id, chunk_key) btree storage_result" where
  "project_entity_locations w ps =
     and_then (try_fold (unlist_plan w) ps (mw_entity_locations w)) (try_fold list_plan ps)"

subsection \<open>Staging and publication\<close>

definition staged_chunk :: "world_revision \<Rightarrow> mutation_plan \<Rightarrow> stored_chunk" where
  "staged_chunk world_revision p =
     \<lparr>sc_key = cm_key (mp_mutation p), sc_captured_world_revision = world_revision,
      sc_revision = mp_chunk_revision p, sc_domain_revisions = mp_domain_revisions p,
      sc_data = cm_data (mp_mutation p)\<rparr>"

definition staged_receipt :: "mutation_plan \<Rightarrow> chunk_commit_receipt" where
  "staged_receipt p =
     \<lparr>ccr_key = cm_key (mp_mutation p), ccr_chunk_revision = mp_chunk_revision p,
      ccr_domain_revisions = mp_domain_revisions p,
      ccr_changed_domains = cm_changed_domains (mp_mutation p)\<rparr>"

definition fail_if :: "fault_point option \<Rightarrow> fault_point \<Rightarrow> unit storage_result" where
  "fail_if actual expected = (if actual = Some expected then Inl (StorageFault expected) else Inr ())"

text \<open>The staging loop, with the failpoint after its first round.\<close>

fun stage_plans ::
    "world_revision \<Rightarrow> fault_point option \<Rightarrow> nat \<Rightarrow> mutation_plan list \<Rightarrow>
     (chunk_key, stored_chunk) btree \<times> chunk_commit_receipt list \<Rightarrow>
     ((chunk_key, stored_chunk) btree \<times> chunk_commit_receipt list) storage_result" where
  "stage_plans revision fault index [] staged = Inr staged"
| "stage_plans revision fault index (p # ps) (replacements, receipts) =
     (let staged = (bt_insert (cm_key (mp_mutation p)) (staged_chunk revision p) replacements,
          receipts @ [staged_receipt p]) in
      and_then (if index = 0 then fail_if fault AfterFirstStagedMutation else Inr ()) (\<lambda>_.
      stage_plans revision fault (Suc index) ps staged))"

definition bt_extend :: "('k::linorder, 'v) btree \<Rightarrow> ('k, 'v) btree \<Rightarrow> ('k, 'v) btree" where
  "bt_extend m replacements = foldl (\<lambda>m (k, v). bt_insert k v m) m (entries replacements)"

fun expire_receipts ::
    "usize \<Rightarrow> transaction_id list \<Rightarrow> (transaction_id, committed_transaction) btree \<Rightarrow>
     transaction_id list \<times> (transaction_id, committed_transaction) btree" where
  "expire_receipts maximum [] committed = ([], committed)"
| "expire_receipts maximum (expired # order) committed =
     (if maximum < length (expired # order)
      then expire_receipts maximum order (bt_remove expired committed)
      else (expired # order, committed))"

definition retain_receipt ::
    "memory_world \<Rightarrow> transaction_id \<Rightarrow> digest \<Rightarrow> publication_receipt \<Rightarrow> digest option \<Rightarrow>
     usize \<Rightarrow> memory_world" where
  "retain_receipt w tid fingerprint publication mhash maximum =
     (let committed = bt_insert tid \<lparr>ct_fingerprint = fingerprint, ct_publication = publication,
            ct_materialized_chunk_state_hash = mhash\<rparr> (mw_committed_transactions w) in
      case expire_receipts maximum (mw_receipt_order w @ [tid]) committed of
        (order, committed) \<Rightarrow>
          w\<lparr>mw_committed_transactions := committed, mw_receipt_order := order\<rparr>)"

subsection \<open>Commit\<close>

text \<open>What the commit computes from the current world before it consumes a failpoint.\<close>

datatype commit_decision =
    Replayed committed_receipt
  | Admitted world_revision "mutation_plan list" "(persistent_entity_id, chunk_key) btree"

definition decide_commit ::
    "memory_world \<Rightarrow> prepared_transaction \<Rightarrow> commit_evidence \<Rightarrow> commit_decision storage_result" where
  "decide_commit w pt evidence =
     and_then (replay_receipt w pt evidence) (\<lambda>replayed.
     case replayed of
       Some receipt \<Rightarrow> Inr (Replayed receipt)
     | None \<Rightarrow>
        and_then (ensure_retry_not_expired w pt) (\<lambda>_.
        and_then (ensure_world_revision w pt) (\<lambda>_.
        and_then (next_world_revision (mw_revision w)) (\<lambda>new_world_revision.
        and_then (prepare_mutation_plans w (pt_mutations pt)) (\<lambda>plans.
        and_then (project_entity_locations w plans) (\<lambda>locations.
        Inr (Admitted new_world_revision plans locations)))))))"

text \<open>Staging: everything that can still fail before the world is replaced.\<close>

definition stage_commit ::
    "digest_function \<Rightarrow> memory_world \<Rightarrow> prepared_transaction \<Rightarrow> commit_evidence \<Rightarrow>
     fault_point option \<Rightarrow> world_revision \<Rightarrow> mutation_plan list \<Rightarrow>
     ((chunk_key, stored_chunk) btree \<times> publication_receipt \<times> digest option) storage_result" where
  "stage_commit sha w pt evidence fault new_world_revision plans =
     and_then (fail_if fault AfterValidation) (\<lambda>_.
     and_then (stage_plans new_world_revision fault 0 plans (bt_empty, []))
       (\<lambda>(replacements, chunk_receipts).
     and_then
       (case evidence of
          ReferenceEvidence \<Rightarrow>
            and_then (hash_projected_materialized_chunk_state sha (pt_world pt)
              new_world_revision (mw_chunks w) replacements) (\<lambda>h. Inr (Some h))
        | PublicationEvidence \<Rightarrow> Inr None) (\<lambda>mhash.
     let publication =
       \<lparr>pr_transaction_id = pt_id pt, pr_world = pt_world pt,
        pr_world_revision = new_world_revision, pr_chunks = chunk_receipts,
        pr_durability = Queued, pr_replayed = False\<rparr> in
     and_then (fail_if fault AfterStagingBeforePublish) (\<lambda>_.
     Inr (replacements, publication, mhash)))))"

definition publish_world ::
    "kernel_limits \<Rightarrow> memory_world \<Rightarrow> prepared_transaction \<Rightarrow> world_revision \<Rightarrow>
     (persistent_entity_id, chunk_key) btree \<Rightarrow> (chunk_key, stored_chunk) btree \<Rightarrow>
     publication_receipt \<Rightarrow> digest option \<Rightarrow> memory_world" where
  "publish_world limits w pt new_world_revision locations replacements publication mhash =
     retain_receipt
       (w\<lparr>mw_revision := new_world_revision, mw_entity_locations := locations,
          mw_chunks := bt_extend (mw_chunks w) replacements\<rparr>)
       (pt_id pt) (pt_fingerprint pt) publication mhash
       (kl_max_retained_receipts_per_world limits)"

text \<open>
  \<open>commit_prepared\<close>. The failpoint is taken once the decision is made, whether or not it
  then fires. The conversion of the receipt horizon to \<open>usize\<close> cannot fail at 64 bits.
\<close>

definition commit_prepared ::
    "digest_function \<Rightarrow> memory_kernel \<Rightarrow> prepared_transaction \<Rightarrow> commit_evidence \<Rightarrow>
     memory_kernel \<times> committed_receipt storage_result" where
  "commit_prepared sha k pt evidence =
     (let w = current_world k (pt_world pt) in
      case decide_commit w pt evidence of
        Inl e \<Rightarrow> (k, Inl e)
      | Inr (Replayed receipt) \<Rightarrow> (k, Inr receipt)
      | Inr (Admitted new_world_revision plans locations) \<Rightarrow>
          let fault = mk_next_fault k;
              k = k\<lparr>mk_next_fault := None\<rparr> in
          (case stage_commit sha w pt evidence fault new_world_revision plans of
             Inl e \<Rightarrow> (k, Inl e)
           | Inr (replacements, publication, mhash) \<Rightarrow>
               let published = publish_world (mk_limits k) w pt new_world_revision locations
                     replacements publication mhash;
                   k = k\<lparr>mk_worlds := bt_insert (pt_world pt) published (mk_worlds k)\<rparr> in
               (k, and_then (fail_if fault AfterPublishBeforeReceipt) (\<lambda>_.
                 committed_receipt_of publication mhash evidence))))"

definition storage_publish ::
    "digest_function \<Rightarrow> memory_kernel \<Rightarrow> world_transaction \<Rightarrow>
     memory_kernel \<times> publication_receipt storage_result" where
  "storage_publish sha k t =
     (case validate_transaction sha t (mk_limits k) of
        Inl e \<Rightarrow> (k, Inl e)
      | Inr pt \<Rightarrow>
         (case commit_prepared sha k pt PublicationEvidence of
            (k', Inl e) \<Rightarrow> (k', Inl e)
          | (k', Inr (PublicationReceipt receipt)) \<Rightarrow> (k', Inr receipt)
          | (k', Inr (ReferenceReceipt _)) \<Rightarrow> (k', Inl (ReceiptHistoryInvariant (pt_world pt)))))"

definition storage_commit ::
    "digest_function \<Rightarrow> memory_kernel \<Rightarrow> world_transaction \<Rightarrow>
     memory_kernel \<times> commit_receipt storage_result" where
  "storage_commit sha k t =
     (case validate_transaction sha t (mk_limits k) of
        Inl e \<Rightarrow> (k, Inl e)
      | Inr pt \<Rightarrow>
         (case commit_prepared sha k pt ReferenceEvidence of
            (k', Inl e) \<Rightarrow> (k', Inl e)
          | (k', Inr (ReferenceReceipt receipt)) \<Rightarrow> (k', Inr receipt)
          | (k', Inr (PublicationReceipt _)) \<Rightarrow> (k', Inl (ReceiptHistoryInvariant (pt_world pt)))))"

end
