(* ===== verification/Storage_Plans.thy ===== *)
theory Storage_Plans
  imports Storage_Kernel
begin

section \<open>What the stages of a commit compute\<close>

text \<open>
  The stages of \<open>commit_prepared\<close> one by one: validation sorts and checks the keys,
  every mutation becomes a plan exactly when its preconditions hold, the entity index is
  rebuilt without a conflict, staging builds the replacements and their receipts, and the
  receipt history drops its oldest entries.
\<close>

named_theorems storage_simps \<open>lookups and success conditions of the commit stages\<close>

subsection \<open>Validation\<close>

lemma validate_keys_from_sorted:
  assumes "sorted (map cm_key ms)" "\<And>k m. previous = Some k \<Longrightarrow> m \<in> set ms \<Longrightarrow> k \<le> cm_key m"
  shows "validate_keys_from world previous ms = Inr () \<longleftrightarrow>
    (\<forall>m \<in> set ms. ck_world (cm_key m) = world \<and> previous \<noteq> Some (cm_key m)) \<and>
    distinct (map cm_key ms)"
  using assms
proof (induction ms arbitrary: previous)
  case (Cons m ms)
  have IH: "validate_keys_from world (Some (cm_key m)) ms = Inr () \<longleftrightarrow>
      (\<forall>m' \<in> set ms. ck_world (cm_key m') = world \<and> Some (cm_key m) \<noteq> Some (cm_key m')) \<and>
      distinct (map cm_key ms)"
    by (rule Cons.IH) (use Cons.prems(1) in auto)
  show ?case
  proof (cases "ck_world (cm_key m) = world \<and> previous \<noteq> Some (cm_key m)")
    case True
    have "previous \<noteq> Some (cm_key m')" if "m' \<in> set ms" "cm_key m \<noteq> cm_key m'" for m'
    proof
      assume p: "previous = Some (cm_key m')"
      from Cons.prems(2) [OF p, of m] have "cm_key m' \<le> cm_key m" by simp
      moreover from Cons.prems(1) that(1) have "cm_key m \<le> cm_key m'" by simp
      ultimately show False using that(2) by simp
    qed
    with True show ?thesis by (auto simp: IH image_iff)
  next
    case False
    then show ?thesis by auto
  qed
qed simp

lemma distinct_map_sort_key: "distinct (map f (sort_key f xs)) \<longleftrightarrow> distinct (map f xs)"
  by (simp add: distinct_map)

text \<open>What \<open>validate_keys\<close> accepts on the sorted mutations.\<close>

lemma validate_keys_sorted [storage_simps]:
  "validate_keys (t\<lparr>wt_mutations := sort_key cm_key (wt_mutations t)\<rparr>) = Inr () \<longleftrightarrow>
     (\<forall>m \<in> set (wt_mutations t). ck_world (cm_key m) = wt_world t) \<and>
     distinct (map cm_key (wt_mutations t))"
proof -
  show ?thesis
    using validate_keys_from_sorted [of "sort_key cm_key (wt_mutations t)" None "wt_world t"]
    by (simp add: validate_keys_def distinct_map_sort_key)
qed

text \<open>The transaction a prepared one stands for.\<close>

definition prepared_ok :: "kernel_limits \<Rightarrow> world_transaction \<Rightarrow> prepared_transaction \<Rightarrow> bool" where
  "prepared_ok limits t pt \<longleftrightarrow>
     pt_id pt = wt_id t \<and> pt_world pt = wt_world t \<and>
     pt_base_world_revision pt = wt_base_world_revision t \<and>
     pt_mutations pt = sort_key cm_key (wt_mutations t) \<and> pt_mutations pt \<noteq> [] \<and>
     length (pt_mutations pt) \<le> kl_max_chunks_per_transaction limits \<and>
     (\<forall>m \<in> set (pt_mutations pt). ck_world (cm_key m) = pt_world pt) \<and>
     distinct (map cm_key (pt_mutations pt))"

lemma validate_transaction_ok:
  assumes "validate_transaction sha t limits = Inr pt"
  shows "prepared_ok limits t pt"
proof -
  from assms have ne: "wt_mutations t \<noteq> []" by (auto simp: validate_transaction_def)
  from assms have "validate_count_limit t limits = Inr ()"
    "validate_keys (t\<lparr>wt_mutations := sort_key cm_key (wt_mutations t)\<rparr>) = Inr ()"
    "pt_id pt = wt_id t" "pt_world pt = wt_world t"
    "pt_base_world_revision pt = wt_base_world_revision t"
    "pt_mutations pt = sort_key cm_key (wt_mutations t)"
    by (auto simp: validate_transaction_def result_simps Let_def split: if_splits)
  moreover have "length (wt_mutations t) \<le> kl_max_chunks_per_transaction limits"
    using calculation(1)
    by (auto simp: validate_count_limit_def result_simps checked_simps split: if_splits)
  moreover have "sort_key cm_key (wt_mutations t) \<noteq> []"
    using ne by (metis length_0_conv length_sort)
  moreover have "distinct (map cm_key (sort_key cm_key (wt_mutations t)))"
    using calculation(2) by (simp add: storage_simps distinct_map_sort_key)
  ultimately show ?thesis
    by (simp add: prepared_ok_def storage_simps)
qed

subsection \<open>Mutation plans\<close>

text \<open>The preconditions of one mutation, and the plan it becomes.\<close>

definition mutation_ok :: "memory_world \<Rightarrow> chunk_mutation \<Rightarrow> bool" where
  "mutation_ok w m \<longleftrightarrow>
     (let current = bt_get (mw_chunks w) (cm_key m);
          actual = changed_domains_of (map_option sc_data current) (cm_data m);
          revision = (case current of Some c \<Rightarrow> sc_revision c | None \<Rightarrow> 0);
          domains = (case current of Some c \<Rightarrow> sc_domain_revisions c | None \<Rightarrow> domain_revisions_default)
      in (case cm_expected_revision m of
            ExpectAbsent \<Rightarrow> current = None
          | ExpectExact expected \<Rightarrow> map_option sc_revision current = Some expected) \<and>
         actual \<noteq> 0 \<and> actual = cm_changed_domains m \<and> revision + 1 \<le> u64_max \<and>
         (domains_contain actual domain_voxels \<longrightarrow> dr_voxels domains + 1 \<le> u64_max) \<and>
         (domains_contain actual domain_persistent_entities \<longrightarrow>
            dr_persistent_entities domains + 1 \<le> u64_max) \<and>
         (domains_contain actual domain_continuations \<longrightarrow>
            dr_continuation domains + 1 \<le> u64_max))"

definition bump :: "changed_domains \<Rightarrow> changed_domains \<Rightarrow> u64 \<Rightarrow> u64" where
  "bump changed domain revision = (if domains_contain changed domain then revision + 1 else revision)"

definition plan_of :: "memory_world \<Rightarrow> chunk_mutation \<Rightarrow> mutation_plan" where
  "plan_of w m =
     (let current = bt_get (mw_chunks w) (cm_key m);
          revision = (case current of Some c \<Rightarrow> sc_revision c | None \<Rightarrow> 0);
          domains = (case current of Some c \<Rightarrow> sc_domain_revisions c | None \<Rightarrow> domain_revisions_default);
          changed = cm_changed_domains m
      in \<lparr>mp_mutation = m, mp_chunk_revision = revision + 1,
          mp_domain_revisions =
            \<lparr>dr_voxels = bump changed domain_voxels (dr_voxels domains),
             dr_persistent_entities =
               bump changed domain_persistent_entities (dr_persistent_entities domains),
             dr_continuation = bump changed domain_continuations (dr_continuation domains)\<rparr>\<rparr>)"

lemma mp_mutation_plan_of [simp]: "mp_mutation (plan_of w m) = m"
  by (simp add: plan_of_def Let_def)

lemma next_domain_revision_Inr:
  "next_domain_revision domain counter current changed key = Inr r \<longleftrightarrow>
     r = bump changed domain current \<and>
     (domains_contain changed domain \<longrightarrow> current + 1 \<le> u64_max)"
  by (auto simp: next_domain_revision_def bump_def result_simps checked_simps)

lemma ensure_chunk_revision_Inr:
  "ensure_chunk_revision current m = Inr u \<longleftrightarrow>
     (case cm_expected_revision m of
        ExpectAbsent \<Rightarrow> current = None
      | ExpectExact expected \<Rightarrow> map_option sc_revision current = Some expected)"
  by (auto simp: ensure_chunk_revision_def split: chunk_revision_expectation.splits)

lemma prepare_mutation_plan_Inr [storage_simps]:
  "prepare_mutation_plan w m = Inr p \<longleftrightarrow> mutation_ok w m \<and> p = plan_of w m"
  unfolding prepare_mutation_plan_def mutation_ok_def plan_of_def Let_def domains_empty_def
  by (auto simp: result_simps checked_simps ensure_chunk_revision_Inr next_chunk_revision_def
      next_domain_revisions_def next_domain_revision_Inr)

lemma prepare_mutation_plans_Inr [storage_simps]:
  "prepare_mutation_plans w ms = Inr ps \<longleftrightarrow>
     (\<forall>m \<in> set ms. mutation_ok w m) \<and> ps = map (plan_of w) ms"
  by (induction ms arbitrary: ps) (auto simp: result_simps storage_simps)

subsection \<open>The entity index\<close>

definition entities_of :: "chunk_data \<Rightarrow> persistent_entity_id set" where
  "entities_of d = {e. bt_contains (cd_persistent_entities d) e}"

lemma set_bt_keys_entities: "set (bt_keys (cd_persistent_entities d)) = entities_of d"
  by (auto simp: entities_of_def bt_contains_iff)

definition plan_key :: "mutation_plan \<Rightarrow> chunk_key" where
  "plan_key p = cm_key (mp_mutation p)"

definition plan_entities :: "mutation_plan \<Rightarrow> persistent_entity_id set" where
  "plan_entities p = entities_of (cm_data (mp_mutation p))"

definition old_entities :: "memory_world \<Rightarrow> mutation_plan \<Rightarrow> persistent_entity_id set" where
  "old_entities w p =
     (case bt_get (mw_chunks w) (plan_key p) of None \<Rightarrow> {} | Some c \<Rightarrow> entities_of (sc_data c))"

lemma unlist_entities_Inr:
  "distinct es \<Longrightarrow> try_fold (unlist_entity key) es l = Inr l' \<longleftrightarrow>
     (\<forall>e \<in> set es. bt_get l e = Some key) \<and>
     (\<forall>e. bt_get l' e = (if e \<in> set es then None else bt_get l e))"
proof (induction es arbitrary: l)
  case Nil
  then show ?case using bt.get_inject [of l l'] by auto
next
  case (Cons e es)
  show ?case
  proof (cases "bt_get l e = Some key")
    case True
    then have "try_fold (unlist_entity key) (e # es) l = try_fold (unlist_entity key) es (bt_remove e l)"
      by (simp add: unlist_entity_def)
    with True Cons show ?thesis by (auto simp: bt.get_remove)
  next
    case False
    then show ?thesis by (auto simp: unlist_entity_def split: option.splits)
  qed
qed

lemma unlist_plan_Inr:
  "unlist_plan w p l = Inr l' \<longleftrightarrow>
     (\<forall>e \<in> old_entities w p. bt_get l e = Some (plan_key p)) \<and>
     (\<forall>e. bt_get l' e = (if e \<in> old_entities w p then None else bt_get l e))"
  using bt.get_inject [of l l']
  by (auto simp: unlist_plan_def old_entities_def plan_key_def [symmetric] unlist_entities_Inr
      set_bt_keys_entities split: option.splits)

lemma unlist_plans_Inr:
  assumes "\<And>p q e. p \<in> set ps \<Longrightarrow> q \<in> set ps \<Longrightarrow> e \<in> old_entities w p \<Longrightarrow>
      e \<in> old_entities w q \<Longrightarrow> plan_key p = plan_key q"
    and "distinct (map plan_key ps)"
    and "\<And>p e. p \<in> set ps \<Longrightarrow> e \<in> old_entities w p \<Longrightarrow> bt_get l e = Some (plan_key p)"
  obtains l' where "try_fold (unlist_plan w) ps l = Inr l'"
    "\<And>e. bt_get l' e = (if \<exists>p \<in> set ps. e \<in> old_entities w p then None else bt_get l e)"
  using assms
proof (induction ps arbitrary: l thesis)
  case Nil
  from Nil.prems(1) [of l] show ?case by simp
next
  case (Cons p ps)
  define l1 where "l1 = foldl (\<lambda>m e. bt_remove e m) l (case bt_get (mw_chunks w) (plan_key p) of
      None \<Rightarrow> [] | Some c \<Rightarrow> bt_keys (cd_persistent_entities (sc_data c)))"
  have fold: "bt_get (foldl (\<lambda>m e. bt_remove e m) l es) x = (if x \<in> set es then None else bt_get l x)"
    for es l x by (induction es arbitrary: l) (auto simp: bt.get_remove)
  have l1: "bt_get l1 e = (if e \<in> old_entities w p then None else bt_get l e)" for e
    by (auto simp: l1_def fold old_entities_def set_bt_keys_entities split: option.splits)
  have step: "unlist_plan w p l = Inr l1"
    unfolding unlist_plan_Inr using Cons.prems(4) [of p] l1 by simp
  have other: "q \<in> set ps \<Longrightarrow> e \<in> old_entities w q \<Longrightarrow> e \<notin> old_entities w p" for q e
    using Cons.prems(2) [of p q e] Cons.prems(3) by auto
  obtain l' where "try_fold (unlist_plan w) ps l1 = Inr l'"
    "\<And>e. bt_get l' e = (if \<exists>p \<in> set ps. e \<in> old_entities w p then None else bt_get l1 e)"
  proof (rule Cons.IH)
    show "bt_get l1 e = Some (plan_key q)" if "q \<in> set ps" "e \<in> old_entities w q" for q e
      using that Cons.prems(4) [of q e] other by (auto simp: l1)
  qed (use Cons.prems(2,3) in auto)
  then show ?case
    by (intro Cons.prems(1) [of l']) (auto simp: step l1)
qed

lemma list_entities_Inr:
  "try_fold (list_entity key) es l = Inr l' \<longleftrightarrow>
     (\<forall>e \<in> set es. bt_get l e = None \<or> bt_get l e = Some key) \<and>
     (\<forall>e. bt_get l' e = (if e \<in> set es then Some key else bt_get l e))"
proof (induction es arbitrary: l)
  case Nil
  then show ?case using bt.get_inject [of l l'] by auto
next
  case (Cons e es)
  show ?case
  proof (cases "bt_get l e = None \<or> bt_get l e = Some key")
    case True
    then have "try_fold (list_entity key) (e # es) l = try_fold (list_entity key) es (bt_insert e key l)"
      by (auto simp: list_entity_def)
    with True Cons show ?thesis by (auto simp: bt.get_insert)
  next
    case False
    then show ?thesis by (auto simp: list_entity_def split: option.splits)
  qed
qed

lemma list_plan_Inr:
  "list_plan p l = Inr l' \<longleftrightarrow>
     (\<forall>e \<in> plan_entities p. bt_get l e = None \<or> bt_get l e = Some (plan_key p)) \<and>
     (\<forall>e. bt_get l' e = (if e \<in> plan_entities p then Some (plan_key p) else bt_get l e))"
  by (simp add: list_plan_def plan_entities_def plan_key_def list_entities_Inr
      set_bt_keys_entities)

text \<open>Listing succeeds exactly when the claims agree with the index and each other.\<close>

definition claims_agree ::
    "mutation_plan list \<Rightarrow> (persistent_entity_id, chunk_key) btree \<Rightarrow> bool" where
  "claims_agree ps l \<longleftrightarrow>
     (\<forall>p \<in> set ps. \<forall>e \<in> plan_entities p.
        (bt_get l e = None \<or> bt_get l e = Some (plan_key p)) \<and>
        (\<forall>q \<in> set ps. e \<in> plan_entities q \<longrightarrow> plan_key q = plan_key p))"

lemma claims_agree_index:
  "claims_agree ps l \<Longrightarrow> p \<in> set ps \<Longrightarrow> e \<in> plan_entities p \<Longrightarrow>
   bt_get l e = None \<or> bt_get l e = Some (plan_key p)"
  unfolding claims_agree_def by blast

lemma claims_agree_key:
  "claims_agree ps l \<Longrightarrow> p \<in> set ps \<Longrightarrow> e \<in> plan_entities p \<Longrightarrow> q \<in> set ps \<Longrightarrow>
   e \<in> plan_entities q \<Longrightarrow> plan_key q = plan_key p"
  unfolding claims_agree_def by blast

lemma claims_agree_Cons:
  assumes ok: "\<forall>e \<in> plan_entities p. bt_get l e = None \<or> bt_get l e = Some (plan_key p)"
    and l1: "\<And>e. bt_get l1 e = (if e \<in> plan_entities p then Some (plan_key p) else bt_get l e)"
  shows "claims_agree (p # ps) l \<longleftrightarrow> claims_agree ps l1"
proof
  assume agree: "claims_agree (p # ps) l"
  show "claims_agree ps l1"
    unfolding claims_agree_def
  proof (intro ballI conjI impI)
    fix q e assume q: "q \<in> set ps" "e \<in> plan_entities q"
    show "bt_get l1 e = None \<or> bt_get l1 e = Some (plan_key q)"
    proof (cases "e \<in> plan_entities p")
      case True
      with claims_agree_key [OF agree _ q(2), of p] q show ?thesis by (simp add: l1)
    next
      case False
      with claims_agree_index [OF agree _ q(2)] q show ?thesis by (simp add: l1)
    qed
    show "plan_key r = plan_key q" if "r \<in> set ps" "e \<in> plan_entities r" for r
      using claims_agree_key [OF agree _ q(2) _ that(2)] q that by simp
  qed
next
  assume agree: "claims_agree ps l1"
  have same: "plan_key q = plan_key p"
    if "q \<in> set ps" "e \<in> plan_entities q" "e \<in> plan_entities p" for q e
    using claims_agree_index [OF agree that(1,2)] that(3) by (simp add: l1)
  have at: "bt_get l e = None \<or> bt_get l e = Some (plan_key q)"
    if "q \<in> set ps" "e \<in> plan_entities q" for q e
  proof (cases "e \<in> plan_entities p")
    case True
    with ok same [OF that] show ?thesis by auto
  next
    case False
    with claims_agree_index [OF agree that] show ?thesis by (simp add: l1)
  qed
  have among: "plan_key r = plan_key q"
    if "q \<in> set ps" "e \<in> plan_entities q" "r \<in> set ps" "e \<in> plan_entities r" for q r e
    using claims_agree_key [OF agree that(1,2)] that(3,4) by simp
  show "claims_agree (p # ps) l"
    unfolding claims_agree_def
  proof (intro ballI conjI impI)
    fix q e assume q: "q \<in> set (p # ps)" "e \<in> plan_entities q"
    show "bt_get l e = None \<or> bt_get l e = Some (plan_key q)"
      using q ok at by (cases "q = p") auto
    show "plan_key r = plan_key q" if r: "r \<in> set (p # ps)" "e \<in> plan_entities r" for r
    proof (cases "q = p")
      case True
      show ?thesis
      proof (cases "r = p")
        case False
        with r same [of r e] q True show ?thesis by simp
      qed (simp add: True)
    next
      case False
      show ?thesis
      proof (cases "r = p")
        case True
        with False r same [of q e] q show ?thesis by simp
      next
        assume "r \<noteq> p"
        with False r among [of q e r] q show ?thesis by simp
      qed
    qed
  qed
qed

lemma list_plans_Inr:
  "try_fold list_plan ps l = Inr l' \<longleftrightarrow>
     claims_agree ps l \<and>
     (\<forall>p \<in> set ps. \<forall>e \<in> plan_entities p. bt_get l' e = Some (plan_key p)) \<and>
     (\<forall>e. (\<forall>p \<in> set ps. e \<notin> plan_entities p) \<longrightarrow> bt_get l' e = bt_get l e)"
proof (induction ps arbitrary: l)
  case Nil
  then show ?case using bt.get_inject [of l l'] by (auto simp: claims_agree_def)
next
  case (Cons p ps)
  define l1 where "l1 = foldl (\<lambda>m e. bt_insert e (plan_key p) m) l
      (bt_keys (cd_persistent_entities (cm_data (mp_mutation p))))"
  have fold: "bt_get (foldl (\<lambda>m e. bt_insert e k m) l es) x = (if x \<in> set es then Some k else bt_get l x)"
    for es l x k by (induction es arbitrary: l) (auto simp: bt.get_insert)
  have l1: "bt_get l1 e = (if e \<in> plan_entities p then Some (plan_key p) else bt_get l e)" for e
    by (simp add: l1_def fold plan_entities_def set_bt_keys_entities)
  show ?case
  proof (cases "\<forall>e \<in> plan_entities p. bt_get l e = None \<or> bt_get l e = Some (plan_key p)")
    case True
    with l1 have "list_plan p l = Inr l1" by (simp add: list_plan_Inr)
    then have step: "try_fold list_plan (p # ps) l = Inr l' \<longleftrightarrow> try_fold list_plan ps l1 = Inr l'"
      by simp
    note agree = claims_agree_Cons [OF True l1]
    show ?thesis
      unfolding step Cons.IH agree
    proof (rule conj_cong [OF refl], rule iffI)
      assume a: "claims_agree ps l1"
        "(\<forall>p \<in> set ps. \<forall>e \<in> plan_entities p. bt_get l' e = Some (plan_key p)) \<and>
         (\<forall>e. (\<forall>p \<in> set ps. e \<notin> plan_entities p) \<longrightarrow> bt_get l' e = bt_get l1 e)"
      have "bt_get l' e = Some (plan_key p)" if "e \<in> plan_entities p" for e
      proof (cases "\<exists>q \<in> set ps. e \<in> plan_entities q")
        case True
        then obtain q where q: "q \<in> set ps" "e \<in> plan_entities q" by blast
        from claims_agree_index [OF a(1) q] that have "plan_key q = plan_key p" by (simp add: l1)
        moreover from a(2) q have "bt_get l' e = Some (plan_key q)" by blast
        ultimately show ?thesis by simp
      next
        case False
        with a(2) have "bt_get l' e = bt_get l1 e" by blast
        with that show ?thesis by (simp add: l1)
      qed
      with a(2) show "(\<forall>q \<in> set (p # ps). \<forall>e \<in> plan_entities q. bt_get l' e = Some (plan_key q)) \<and>
         (\<forall>e. (\<forall>q \<in> set (p # ps). e \<notin> plan_entities q) \<longrightarrow> bt_get l' e = bt_get l e)"
        by (simp add: l1)
    next
      assume "(\<forall>q \<in> set (p # ps). \<forall>e \<in> plan_entities q. bt_get l' e = Some (plan_key q)) \<and>
         (\<forall>e. (\<forall>q \<in> set (p # ps). e \<notin> plan_entities q) \<longrightarrow> bt_get l' e = bt_get l e)"
      then show "(\<forall>p \<in> set ps. \<forall>e \<in> plan_entities p. bt_get l' e = Some (plan_key p)) \<and>
         (\<forall>e. (\<forall>p \<in> set ps. e \<notin> plan_entities p) \<longrightarrow> bt_get l' e = bt_get l1 e)"
        by (simp add: l1)
    qed
  next
    case False
    then have "\<not> claims_agree (p # ps) l" by (auto simp: claims_agree_def)
    moreover from False have "list_plan p l \<noteq> Inr x" for x by (simp add: list_plan_Inr)
    ultimately show ?thesis by (auto simp: result_simps)
  qed
qed

end
