(* ===== verification/Storage_Invariant.thy ===== *)
theory Storage_Invariant
  imports Storage_Plans
begin

section \<open>The invariant of the transaction kernel\<close>

text \<open>
  In every kernel that operations can reach: each chunk is stored under its own key, in its
  own world, and not newer than the world; the entity index is exactly the inverse of the
  chunks' entity sets, so no entity is in two chunks; the receipt history is bounded, its
  order and its map agree, and it holds the receipts of the latest world revisions without
  a gap. The steps are \<open>commit\<close>, \<open>publish\<close>, \<open>release_persisted_copy\<close> and
  \<open>inject_fault_once\<close>.
\<close>

subsection \<open>The invariant\<close>

definition chunks_ok :: "world_id \<Rightarrow> memory_world \<Rightarrow> bool" where
  "chunks_ok world w \<longleftrightarrow>
     (\<forall>key c. bt_get (mw_chunks w) key = Some c \<longrightarrow>
        sc_key c = key \<and> ck_world key = world \<and>
        sc_captured_world_revision c \<le> mw_revision w \<and> 0 < sc_revision c)"

definition index_ok :: "memory_world \<Rightarrow> bool" where
  "index_ok w \<longleftrightarrow>
     (\<forall>e key. bt_get (mw_entity_locations w) e = Some key \<longleftrightarrow>
        (\<exists>c. bt_get (mw_chunks w) key = Some c \<and> e \<in> entities_of (sc_data c)))"

definition receipt_at :: "memory_world \<Rightarrow> transaction_id \<Rightarrow> publication_receipt option" where
  "receipt_at w tid = map_option ct_publication (bt_get (mw_committed_transactions w) tid)"

text \<open>The \<open>i\<close>-th retained receipt counts back from the newest world revision.\<close>

definition history_ok :: "usize \<Rightarrow> world_id \<Rightarrow> memory_world \<Rightarrow> bool" where
  "history_ok maximum world w \<longleftrightarrow>
     distinct (mw_receipt_order w) \<and>
     set (mw_receipt_order w) = set (bt_keys (mw_committed_transactions w)) \<and>
     length (mw_receipt_order w) \<le> maximum \<and>
     length (mw_receipt_order w) \<le> mw_revision w \<and>
     (\<forall>i < length (mw_receipt_order w). \<exists>r.
        receipt_at w (mw_receipt_order w ! i) = Some r \<and>
        pr_transaction_id r = mw_receipt_order w ! i \<and> pr_world r = world \<and>
        \<not> pr_replayed r \<and>
        pr_world_revision r + length (mw_receipt_order w) = mw_revision w + i + 1)"

definition world_ok :: "usize \<Rightarrow> world_id \<Rightarrow> memory_world \<Rightarrow> bool" where
  "world_ok maximum world w \<longleftrightarrow>
     chunks_ok world w \<and> index_ok w \<and> history_ok maximum world w \<and> mw_revision w \<le> u64_max"

definition kernel_ok :: "memory_kernel \<Rightarrow> bool" where
  "kernel_ok k \<longleftrightarrow>
     0 < kl_max_retained_receipts_per_world (mk_limits k) \<and>
     (\<forall>world w. bt_get (mk_worlds k) world = Some w \<longrightarrow>
        world_ok (kl_max_retained_receipts_per_world (mk_limits k)) world w)"

lemma world_ok_default [simp]: "world_ok maximum world memory_world_default"
  by (simp add: world_ok_def chunks_ok_def index_ok_def history_ok_def memory_world_default_def
      bt.get_empty bt_keys_def bt_empty.rep_eq)

lemma kernel_ok_current:
  "kernel_ok k \<Longrightarrow> world_ok (kl_max_retained_receipts_per_world (mk_limits k)) world (current_world k world)"
  by (auto simp: kernel_ok_def current_world_def split: option.split)

lemma kernel_ok_with_limits:
  "0 < kl_max_retained_receipts_per_world limits \<Longrightarrow> kernel_ok (with_limits limits)"
  by (simp add: kernel_ok_def with_limits_def bt.get_empty)

lemma kernel_ok_put:
  "kernel_ok k \<Longrightarrow> world_ok (kl_max_retained_receipts_per_world (mk_limits k)) world w \<Longrightarrow>
   kernel_ok (k\<lparr>mk_worlds := bt_insert world w (mk_worlds k)\<rparr>)"
  by (auto simp: kernel_ok_def bt.get_insert split: if_splits)

lemma kernel_ok_fault [simp]: "kernel_ok (k\<lparr>mk_next_fault := f\<rparr>) = kernel_ok k"
  by (simp add: kernel_ok_def)

subsection \<open>Staging\<close>

lemma stage_plans_Inr:
  "stage_plans revision fault index ps (repl, receipts) = Inr (repl', receipts') \<longleftrightarrow>
     (index = 0 \<and> ps \<noteq> [] \<longrightarrow> fault \<noteq> Some AfterFirstStagedMutation) \<and>
     receipts' = receipts @ map staged_receipt ps \<and>
     repl' = foldl (\<lambda>m p. bt_insert (plan_key p) (staged_chunk revision p) m) repl ps"
proof (induction ps arbitrary: index repl receipts)
  case Nil
  then show ?case by auto
next
  case (Cons p ps)
  have "fail_if fault AfterFirstStagedMutation = Inr () \<longleftrightarrow> fault \<noteq> Some AfterFirstStagedMutation"
    by (simp add: fail_if_def)
  then show ?case
    by (auto simp: Let_def result_simps Cons.IH plan_key_def)
qed

lemma get_staged:
  assumes "distinct (map plan_key ps)"
  shows "bt_get (foldl (\<lambda>m p. bt_insert (plan_key p) (staged_chunk revision p) m) repl ps) key =
    (case find (\<lambda>p. plan_key p = key) ps of
       Some p \<Rightarrow> Some (staged_chunk revision p) | None \<Rightarrow> bt_get repl key)"
  using assms
proof (induction ps arbitrary: repl)
  case (Cons p ps)
  have "find (\<lambda>p. plan_key p = key) ps = None" if "plan_key p = key"
    using Cons.prems that by (simp add: find_None_iff) (metis image_eqI)
  with Cons show ?case by (auto simp: bt.get_insert split: option.splits)
qed simp

lemma get_foldl_insert:
  "bt_get (foldl (\<lambda>m (k, v). bt_insert k v m) m xs) key =
     (case map_of (rev xs) key of Some v \<Rightarrow> Some v | None \<Rightarrow> bt_get m key)"
  by (induction xs arbitrary: m)
    (auto simp: bt.get_insert map_of_append map_add_def split: option.splits)

lemma map_of_rev_distinct: "distinct (map fst xs) \<Longrightarrow> map_of (rev xs) = map_of xs"
proof (rule ext)
  fix k assume d: "distinct (map fst xs)"
  then have d': "distinct (map fst (rev xs))" by (simp add: rev_map [symmetric])
  have "map_of (rev xs) k = Some v \<longleftrightarrow> map_of xs k = Some v" for v
    unfolding map_of_eq_Some_iff [OF d] map_of_eq_Some_iff [OF d'] by simp
  then show "map_of (rev xs) k = map_of xs k" by (metis option.exhaust)
qed

lemma get_bt_extend [storage_simps]:
  "bt_get (bt_extend m r) key =
     (case bt_get r key of Some v \<Rightarrow> Some v | None \<Rightarrow> bt_get m key)"
proof -
  have "map_of (rev (entries r)) = map_of (entries r)"
    using bt.entries_distinct [of r] by (rule map_of_rev_distinct)
  then show ?thesis by (simp add: bt_extend_def get_foldl_insert) (simp add: bt_get.rep_eq)
qed

lemma find_plan:
  assumes "distinct (map plan_key ps)" "p \<in> set ps"
  shows "find (\<lambda>q. plan_key q = plan_key p) ps = Some p"
  using assms by (induction ps) (auto simp: image_iff)

text \<open>The chunk map a set of plans publishes.\<close>

definition new_chunks ::
    "memory_world \<Rightarrow> world_revision \<Rightarrow> mutation_plan list \<Rightarrow> (chunk_key, stored_chunk) btree" where
  "new_chunks w revision ps =
     bt_extend (mw_chunks w)
       (foldl (\<lambda>m p. bt_insert (plan_key p) (staged_chunk revision p) m) bt_empty ps)"

lemma get_new_chunks:
  "distinct (map plan_key ps) \<Longrightarrow>
   bt_get (new_chunks w revision ps) key =
     (case find (\<lambda>p. plan_key p = key) ps of
        Some p \<Rightarrow> Some (staged_chunk revision p) | None \<Rightarrow> bt_get (mw_chunks w) key)"
  by (simp add: new_chunks_def storage_simps get_staged bt.get_empty split: option.split)

lemma find_none: "find P xs = None \<longleftrightarrow> (\<forall>x \<in> set xs. \<not> P x)"
  by (auto simp: find_None_iff)

lemma find_some: "find P xs = Some x \<Longrightarrow> x \<in> set xs \<and> P x"
  by (auto simp: find_Some_iff)

subsection \<open>The index after a commit\<close>

lemma old_entities_index:
  assumes "index_ok w" "e \<in> old_entities w p"
  shows "bt_get (mw_entity_locations w) e = Some (plan_key p)"
  using assms by (auto simp: index_ok_def old_entities_def split: option.splits)

lemma index_old_entities:
  assumes "index_ok w" "bt_get (mw_entity_locations w) e = Some (plan_key p)"
  shows "e \<in> old_entities w p"
  using assms by (auto simp: index_ok_def old_entities_def)

text \<open>
  On a world with a right index, rebuilding it fails only when the new chunks would hold an
  entity twice; the first loop never fails.
\<close>

lemma project_unlisted:
  assumes "index_ok w" "distinct (map plan_key ps)"
  obtains l where "try_fold (unlist_plan w) ps (mw_entity_locations w) = Inr l"
    "\<And>e. bt_get l e =
       (if \<exists>p \<in> set ps. e \<in> old_entities w p then None else bt_get (mw_entity_locations w) e)"
proof -
  note found = that
  show thesis
  proof (rule unlist_plans_Inr [of ps w "mw_entity_locations w"])
    show "plan_key p = plan_key q" if "e \<in> old_entities w p" "e \<in> old_entities w q" for p q e
      using old_entities_index [OF assms(1) that(1)] old_entities_index [OF assms(1) that(2)] by simp
    show "bt_get (mw_entity_locations w) e = Some (plan_key p)" if "e \<in> old_entities w p" for p e
      using assms(1) that by (rule old_entities_index)
    fix l
    assume a: "try_fold (unlist_plan w) ps (mw_entity_locations w) = Inr l"
    assume b: "\<And>e. bt_get l e =
       (if \<exists>p \<in> set ps. e \<in> old_entities w p then None else bt_get (mw_entity_locations w) e)"
    show thesis by (rule found [OF a b])
  qed (rule assms(2))
qed

lemma project_index_ok:
  assumes ok: "index_ok w" and keys: "distinct (map plan_key ps)"
    and project: "project_entity_locations w ps = Inr locations"
  shows "index_ok (w'\<lparr>mw_entity_locations := locations, mw_chunks := new_chunks w revision ps\<rparr>)"
proof -
  obtain l where l: "try_fold (unlist_plan w) ps (mw_entity_locations w) = Inr l"
    and get_l: "\<And>e. bt_get l e =
       (if \<exists>p \<in> set ps. e \<in> old_entities w p then None else bt_get (mw_entity_locations w) e)"
    using project_unlisted [OF ok keys] by blast
  from project l have fold: "try_fold list_plan ps l = Inr locations"
    by (simp add: project_entity_locations_def)
  note listed = list_plans_Inr [THEN iffD1, OF fold, THEN conjunct2]
  have new: "bt_get locations e = Some (plan_key p)" if "p \<in> set ps" "e \<in> plan_entities p" for p e
    using listed that by blast
  have kept: "bt_get locations e = bt_get l e" if "\<forall>p \<in> set ps. e \<notin> plan_entities p" for e
    using listed that by blast
  have claims: "claims_agree ps l" using fold by (simp only: list_plans_Inr)
  have "bt_get locations e = Some key \<longleftrightarrow>
      (\<exists>c. bt_get (new_chunks w revision ps) key = Some c \<and> e \<in> entities_of (sc_data c))" for e key
  proof (cases "find (\<lambda>p. plan_key p = key) ps")
    case (Some p)
    then have p: "p \<in> set ps" "plan_key p = key" by (auto dest: find_some)
    have "bt_get locations e = Some key \<longleftrightarrow> e \<in> plan_entities p"
    proof
      assume e: "bt_get locations e = Some key"
      show "e \<in> plan_entities p"
      proof (rule ccontr)
        assume no: "e \<notin> plan_entities p"
        have "e \<notin> plan_entities q" if q: "q \<in> set ps" for q
        proof
          assume "e \<in> plan_entities q"
          with new [OF q] e p have "plan_key q = plan_key p" by simp
          with keys q p have "q = p" by (metis distinct_map inj_onD)
          with no \<open>e \<in> plan_entities q\<close> show False by simp
        qed
        with kept e have "bt_get l e = Some key" by simp
        with get_l [of e] have "bt_get (mw_entity_locations w) e = Some (plan_key p)"
          "e \<notin> old_entities w p" using p by (auto split: if_splits)
        with index_old_entities [OF ok] show False by blast
      qed
    qed (use new p in blast)
    with Some show ?thesis
      by (simp add: get_new_chunks [OF keys] plan_entities_def staged_chunk_def)
  next
    case None
    then have other: "\<forall>p \<in> set ps. plan_key p \<noteq> key" by (simp add: find_none)
    have "bt_get locations e = Some key \<longleftrightarrow> bt_get (mw_entity_locations w) e = Some key"
    proof
      assume e: "bt_get locations e = Some key"
      with new other have "\<forall>p \<in> set ps. e \<notin> plan_entities p" by force
      with kept e have "bt_get l e = Some key" by simp
      with get_l [of e] show "bt_get (mw_entity_locations w) e = Some key"
        by (auto split: if_splits)
    next
      assume e: "bt_get (mw_entity_locations w) e = Some key"
      have "e \<notin> old_entities w p" if "p \<in> set ps" for p
        using old_entities_index [OF ok, of e p] e other that by auto
      with e get_l [of e] have at: "bt_get l e = Some key" by auto
      have "e \<notin> plan_entities p" if "p \<in> set ps" for p
        using claims_agree_index [OF claims that, of e] at other that by auto
      with kept at show "bt_get locations e = Some key" by simp
    qed
    also have "\<dots> \<longleftrightarrow> (\<exists>c. bt_get (mw_chunks w) key = Some c \<and> e \<in> entities_of (sc_data c))"
      using ok by (simp add: index_ok_def)
    finally show ?thesis using None by (simp add: get_new_chunks [OF keys])
  qed
  then show ?thesis by (simp add: index_ok_def)
qed

text \<open>No two chunks hold one entity.\<close>

definition entities_unique :: "(chunk_key, stored_chunk) btree \<Rightarrow> bool" where
  "entities_unique chunks \<longleftrightarrow>
     (\<forall>key c key' c' e. bt_get chunks key = Some c \<longrightarrow> bt_get chunks key' = Some c' \<longrightarrow>
        e \<in> entities_of (sc_data c) \<longrightarrow> e \<in> entities_of (sc_data c') \<longrightarrow> key = key')"

lemma entities_uniqueD:
  "entities_unique chunks \<Longrightarrow> bt_get chunks key = Some c \<Longrightarrow> bt_get chunks key' = Some c' \<Longrightarrow>
   e \<in> entities_of (sc_data c) \<Longrightarrow> e \<in> entities_of (sc_data c') \<Longrightarrow> key = key'"
  unfolding entities_unique_def by blast

lemma index_ok_unique: "index_ok w \<Longrightarrow> entities_unique (mw_chunks w)"
  unfolding entities_unique_def index_ok_def by (metis option.inject)

lemma project_iff_unique:
  assumes ok: "index_ok w" and keys: "distinct (map plan_key ps)"
  shows "(\<exists>locations. project_entity_locations w ps = Inr locations) \<longleftrightarrow>
    entities_unique (new_chunks w revision ps)"
proof
  assume "\<exists>locations. project_entity_locations w ps = Inr locations"
  then obtain locations where "project_entity_locations w ps = Inr locations" ..
  from index_ok_unique [OF project_index_ok [OF ok keys this]]
  show "entities_unique (new_chunks w revision ps)" by simp
next
  assume unique: "entities_unique (new_chunks w revision ps)"
  obtain l where l: "try_fold (unlist_plan w) ps (mw_entity_locations w) = Inr l"
    and get_l: "\<And>e. bt_get l e =
       (if \<exists>p \<in> set ps. e \<in> old_entities w p then None else bt_get (mw_entity_locations w) e)"
    using project_unlisted [OF ok keys] by blast
  have staged: "bt_get (new_chunks w revision ps) (plan_key p) = Some (staged_chunk revision p)"
    if "p \<in> set ps" for p
    using find_plan [OF keys that] by (simp add: get_new_chunks [OF keys])
  have ents: "entities_of (sc_data (staged_chunk revision p)) = plan_entities p" for p
    by (simp add: staged_chunk_def plan_entities_def)
  have "claims_agree ps l"
    unfolding claims_agree_def
  proof (intro ballI conjI impI)
    fix p e assume p: "p \<in> set ps" "e \<in> plan_entities p"
    show "bt_get l e = None \<or> bt_get l e = Some (plan_key p)"
    proof (cases "bt_get l e")
      case (Some key)
      with get_l [of e] have at: "bt_get (mw_entity_locations w) e = Some key"
        and free: "\<forall>q \<in> set ps. e \<notin> old_entities w q" by (auto split: if_splits)
      then obtain c where c: "bt_get (mw_chunks w) key = Some c" "e \<in> entities_of (sc_data c)"
        using ok by (auto simp: index_ok_def)
      have "plan_key q \<noteq> key" if "q \<in> set ps" for q
        using index_old_entities [OF ok, of e q] at free that by auto
      then have "bt_get (new_chunks w revision ps) key = Some c"
        using c(1) by (simp add: get_new_chunks [OF keys] find_none [THEN iffD2])
      from entities_uniqueD [OF unique this staged [OF p(1)] c(2)] p(2) Some
      show ?thesis by (simp add: ents)
    qed simp
    show "plan_key q = plan_key p" if "q \<in> set ps" "e \<in> plan_entities q" for q
      using entities_uniqueD [OF unique staged [OF that(1)] staged [OF p(1)], of e] that(2) p(2)
      by (simp add: ents)
  qed
  then have "\<exists>l'. try_fold list_plan ps l = Inr l'"
  proof (induction ps arbitrary: l)
    case (Cons p ps)
    define l1 where "l1 = foldl (\<lambda>m e. bt_insert e (plan_key p) m) l
        (bt_keys (cd_persistent_entities (cm_data (mp_mutation p))))"
    have fold: "bt_get (foldl (\<lambda>m e. bt_insert e k m) l es) x = (if x \<in> set es then Some k else bt_get l x)"
      for es l x k by (induction es arbitrary: l) (auto simp: bt.get_insert)
    have l1: "bt_get l1 e = (if e \<in> plan_entities p then Some (plan_key p) else bt_get l e)" for e
      by (simp add: l1_def fold plan_entities_def set_bt_keys_entities)
    have free: "\<forall>e \<in> plan_entities p. bt_get l e = None \<or> bt_get l e = Some (plan_key p)"
      using claims_agree_index [OF Cons.prems(1), of p] by simp
    with l1 have "list_plan p l = Inr l1" by (simp add: list_plan_Inr)
    moreover have "claims_agree ps l1"
      using Cons.prems(1) by (simp only: claims_agree_Cons [OF free l1])
    ultimately show ?case using Cons.IH [of l1] by simp
  qed simp
  with l show "\<exists>locations. project_entity_locations w ps = Inr locations"
    by (auto simp: project_entity_locations_def)
qed

subsection \<open>The receipt history after a commit\<close>

lemma expire_full:
  "length (x # xs) = Suc maximum \<Longrightarrow>
   expire_receipts maximum (x # xs) committed = (xs, bt_remove x committed)"
  by (cases xs) auto

lemma expire_room: "length xs \<le> maximum \<Longrightarrow> expire_receipts maximum xs committed = (xs, committed)"
  by (cases xs) auto

lemma retain_receipt_fields [simp]:
  "mw_revision (retain_receipt w tid f p h maximum) = mw_revision w"
  "mw_chunks (retain_receipt w tid f p h maximum) = mw_chunks w"
  "mw_entity_locations (retain_receipt w tid f p h maximum) = mw_entity_locations w"
  by (simp_all add: retain_receipt_def Let_def split: prod.split)

lemma history_ok_retain:
  assumes ok: "history_ok maximum world w" and max: "0 < maximum"
    and new: "bt_get (mw_committed_transactions w) tid = None"
    and p: "pr_transaction_id p = tid" "pr_world p = world" "\<not> pr_replayed p"
      "pr_world_revision p = mw_revision w + 1"
    and w': "mw_revision w' = mw_revision w + 1" "mw_receipt_order w' = mw_receipt_order w"
      "mw_committed_transactions w' = mw_committed_transactions w"
  shows "history_ok maximum world (retain_receipt w' tid f p h maximum) \<and>
    bt_get (mw_committed_transactions (retain_receipt w' tid f p h maximum)) tid =
      Some \<lparr>ct_fingerprint = f, ct_publication = p, ct_materialized_chunk_state_hash = h\<rparr>"
proof -
  let ?order = "mw_receipt_order w" and ?c = "mw_committed_transactions w"
  let ?entry = "\<lparr>ct_fingerprint = f, ct_publication = p, ct_materialized_chunk_state_hash = h\<rparr>"
  have d: "distinct ?order" "set ?order = set (bt_keys ?c)" "length ?order \<le> maximum"
    "length ?order \<le> mw_revision w"
    and at: "\<And>i. i < length ?order \<Longrightarrow> \<exists>r. receipt_at w (?order ! i) = Some r \<and>
        pr_transaction_id r = ?order ! i \<and> pr_world r = world \<and> \<not> pr_replayed r \<and>
        pr_world_revision r + length ?order = mw_revision w + i + 1"
    using ok by (auto simp: history_ok_def)
  have fresh: "tid \<notin> set ?order"
    using new d(2) bt_contains_iff [of ?c tid] by (simp add: bt_contains_def)
  show ?thesis
  proof (cases "length ?order < maximum")
    case True
    then have r: "retain_receipt w' tid f p h maximum =
        w'\<lparr>mw_committed_transactions := bt_insert tid ?entry ?c, mw_receipt_order := ?order @ [tid]\<rparr>"
      by (simp add: retain_receipt_def Let_def w' expire_room)
    have keys: "set (bt_keys (bt_insert tid ?entry ?c)) = insert tid (set ?order)"
      unfolding d(2) by (auto simp: bt_contains_iff [symmetric] bt_contains_def bt.get_insert split: if_splits)
    have "\<exists>r. map_option ct_publication (bt_get (bt_insert tid ?entry ?c) ((?order @ [tid]) ! i)) = Some r \<and>
        pr_transaction_id r = (?order @ [tid]) ! i \<and> pr_world r = world \<and> \<not> pr_replayed r \<and>
        pr_world_revision r + Suc (length ?order) = mw_revision w + 1 + i + 1"
      if "i < Suc (length ?order)" for i
    proof (cases "i = length ?order")
      case True
      with p show ?thesis by (simp add: nth_append bt.get_insert)
    next
      case False
      with that have i: "i < length ?order" by simp
      with fresh have "?order ! i \<noteq> tid" by (metis nth_mem)
      with at [OF i] i show ?thesis by (auto simp: nth_append bt.get_insert receipt_at_def)
    qed
    then show ?thesis
      using d fresh True by (simp add: history_ok_def r w' keys receipt_at_def bt.get_insert)
  next
    case False
    with d(3) max obtain x xs where order: "?order = x # xs" and len: "length ?order = maximum"
      by (cases ?order) auto
    have r: "retain_receipt w' tid f p h maximum =
        w'\<lparr>mw_committed_transactions := bt_remove x (bt_insert tid ?entry ?c), mw_receipt_order := xs @ [tid]\<rparr>"
      using expire_full [of x "xs @ [tid]" maximum] len
      by (simp add: retain_receipt_def Let_def w' order)
    have x: "x \<noteq> tid" "x \<notin> set xs" "tid \<notin> set xs" using fresh d(1) by (auto simp: order)
    have keys: "set (bt_keys (bt_remove x (bt_insert tid ?entry ?c))) = insert tid (set xs)"
    proof -
      have "set (bt_keys (bt_remove x (bt_insert tid ?entry ?c))) = insert tid (set ?order) - {x}"
        unfolding d(2)
        by (auto simp: bt_contains_iff [symmetric] bt_contains_def bt.get_insert bt.get_remove split: if_splits)
      with x show ?thesis by (auto simp: order)
    qed
    have "\<exists>r. map_option ct_publication
          (bt_get (bt_remove x (bt_insert tid ?entry ?c)) ((xs @ [tid]) ! i)) = Some r \<and>
        pr_transaction_id r = (xs @ [tid]) ! i \<and> pr_world r = world \<and> \<not> pr_replayed r \<and>
        pr_world_revision r + Suc (length xs) = mw_revision w + 1 + i + 1"
      if "i < Suc (length xs)" for i
    proof (cases "i = length xs")
      case True
      with p x show ?thesis by (simp add: nth_append bt.get_insert bt.get_remove)
    next
      case False
      with that have i: "i < length xs" by simp
      with x have "xs ! i \<noteq> tid" "xs ! i \<noteq> x" by (metis nth_mem)+
      with at [of "Suc i"] i show ?thesis
        by (auto simp: nth_append bt.get_insert bt.get_remove receipt_at_def order)
    qed
    then show ?thesis
      using d x by (simp add: history_ok_def r w' keys receipt_at_def bt.get_insert bt.get_remove order)
  qed
qed

end
