(* ===== verification/Storage_Commit.thy ===== *)
theory Storage_Commit
  imports Storage_Invariant
begin

section \<open>The cases of a commit, and the reachable kernels\<close>

text \<open>
  A commit either leaves the worlds of the kernel alone or publishes one new world that is
  determined by the old one and the prepared transaction. Both keep the invariant, and so do
  the other operations.
\<close>

subsection \<open>What a commit publishes\<close>

definition publication_for :: "prepared_transaction \<Rightarrow> memory_world \<Rightarrow> publication_receipt" where
  "publication_for pt w =
     \<lparr>pr_transaction_id = pt_id pt, pr_world = pt_world pt,
      pr_world_revision = mw_revision w + 1,
      pr_chunks = map (staged_receipt \<circ> plan_of w) (pt_mutations pt),
      pr_durability = Queued, pr_replayed = False\<rparr>"

definition plans_for :: "prepared_transaction \<Rightarrow> memory_world \<Rightarrow> mutation_plan list" where
  "plans_for pt w = map (plan_of w) (pt_mutations pt)"

definition chunks_after ::
    "prepared_transaction \<Rightarrow> memory_world \<Rightarrow> (chunk_key, stored_chunk) btree" where
  "chunks_after pt w = new_chunks w (mw_revision w + 1) (plans_for pt w)"

definition world_after ::
    "kernel_limits \<Rightarrow> prepared_transaction \<Rightarrow> memory_world \<Rightarrow>
     (persistent_entity_id, chunk_key) btree \<Rightarrow> digest option \<Rightarrow> memory_world" where
  "world_after limits pt w locations mhash =
     retain_receipt
       (w\<lparr>mw_revision := mw_revision w + 1, mw_entity_locations := locations,
          mw_chunks := chunks_after pt w\<rparr>)
       (pt_id pt) (pt_fingerprint pt) (publication_for pt w) mhash
       (kl_max_retained_receipts_per_world limits)"

text \<open>The optimistic conditions under which a transaction enters the staging phase.\<close>

definition admitted :: "prepared_transaction \<Rightarrow> memory_world \<Rightarrow> bool" where
  "admitted pt w \<longleftrightarrow>
     bt_get (mw_committed_transactions w) (pt_id pt) = None \<and>
     mw_revision w = pt_base_world_revision pt \<and> mw_revision w + 1 \<le> u64_max \<and>
     (\<forall>m \<in> set (pt_mutations pt). mutation_ok w m)"

lemma plan_key_plan_of [simp]: "plan_key (plan_of w m) = cm_key m"
  by (simp add: plan_key_def)

lemma plan_keys_plans_for [simp]: "map plan_key (plans_for pt w) = map cm_key (pt_mutations pt)"
  by (simp add: plans_for_def)

lemma decide_commit_Admitted:
  "decide_commit w pt evidence = Inr (Admitted revision plans locations) \<longleftrightarrow>
     admitted pt w \<and> revision = mw_revision w + 1 \<and> plans = plans_for pt w \<and>
     project_entity_locations w (plans_for pt w) = Inr locations"
  (is "?lhs \<longleftrightarrow> ?rhs")
proof
  assume ?lhs
  then have r: "replay_receipt w pt evidence = Inr None"
    by (auto simp: decide_commit_def result_simps split: option.splits)
  with \<open>?lhs\<close> show ?rhs
    by (auto simp: decide_commit_def replay_receipt_def ensure_world_revision_def result_simps
        admitted_def next_world_revision_def checked_simps storage_simps plans_for_def
        split: option.splits if_splits)
next
  assume ?rhs
  then show ?lhs
    by (simp add: decide_commit_def replay_receipt_def admitted_def ensure_retry_not_expired_def
        ensure_world_revision_def next_world_revision_def checked_add_def plans_for_def
        prepare_mutation_plans_Inr [THEN iffD2])
qed

lemma decide_commit_Replayed:
  "decide_commit w pt evidence = Inr (Replayed receipt) \<longleftrightarrow>
     replay_receipt w pt evidence = Inr (Some receipt)"
  by (auto simp: decide_commit_def result_simps split: option.splits)

lemma stage_commit_Inr:
  "stage_commit sha w pt evidence fault (mw_revision w + 1) (plans_for pt w) =
     Inr (replacements, publication, mhash) \<longleftrightarrow>
     fault \<noteq> Some AfterValidation \<and>
     (pt_mutations pt \<noteq> [] \<longrightarrow> fault \<noteq> Some AfterFirstStagedMutation) \<and>
     fault \<noteq> Some AfterStagingBeforePublish \<and>
     replacements = foldl (\<lambda>m p. bt_insert (plan_key p) (staged_chunk (mw_revision w + 1) p) m)
       bt_empty (plans_for pt w) \<and>
     publication = publication_for pt w \<and>
     (case evidence of
        PublicationEvidence \<Rightarrow> mhash = None
      | ReferenceEvidence \<Rightarrow> \<exists>h. mhash = Some h \<and>
          hash_projected_materialized_chunk_state sha (pt_world pt) (mw_revision w + 1)
            (mw_chunks w) replacements = Inr h)"
proof -
  have fail: "fail_if fault point = Inr () \<longleftrightarrow> fault \<noteq> Some point" for point
    by (simp add: fail_if_def)
  show ?thesis
    unfolding stage_commit_def and_then_Inr split_paired_Ex prod.case stage_plans_Inr
    by (auto simp: fail Let_def result_simps publication_for_def plans_for_def
        split: commit_evidence.splits)
qed

text \<open>The two outcomes of \<open>commit_prepared\<close>.\<close>

definition publishes ::
    "digest_function \<Rightarrow> memory_kernel \<Rightarrow> prepared_transaction \<Rightarrow> commit_evidence \<Rightarrow>
     memory_kernel \<Rightarrow> committed_receipt storage_result \<Rightarrow>
     (persistent_entity_id, chunk_key) btree \<Rightarrow> digest option \<Rightarrow> bool" where
  "publishes sha k pt evidence k' result locations mhash \<longleftrightarrow>
     (let w = current_world k (pt_world pt) in
      admitted pt w \<and> project_entity_locations w (plans_for pt w) = Inr locations \<and>
      (case evidence of
         PublicationEvidence \<Rightarrow> mhash = None
       | ReferenceEvidence \<Rightarrow> \<exists>h. mhash = Some h \<and>
           hash_projected_materialized_chunk_state sha (pt_world pt) (mw_revision w + 1)
             (mw_chunks w)
             (foldl (\<lambda>m p. bt_insert (plan_key p) (staged_chunk (mw_revision w + 1) p) m)
               bt_empty (plans_for pt w)) = Inr h) \<and>
      k' = k\<lparr>mk_next_fault := None,
        mk_worlds := bt_insert (pt_world pt)
          (world_after (mk_limits k) pt w locations mhash) (mk_worlds k)\<rparr> \<and>
      result = (if mk_next_fault k = Some AfterPublishBeforeReceipt
        then Inl (StorageFault AfterPublishBeforeReceipt)
        else committed_receipt_of (publication_for pt w) mhash evidence))"

lemma commit_prepared_cases:
  assumes "commit_prepared sha k pt evidence = (k', result)"
  obtains (rejected) e where "result = Inl e" "k' = k \<or> k' = k\<lparr>mk_next_fault := None\<rparr>"
    | (replayed) receipt where "result = Inr receipt" "k' = k"
      "replay_receipt (current_world k (pt_world pt)) pt evidence = Inr (Some receipt)"
    | (published) locations mhash where "publishes sha k pt evidence k' result locations mhash"
proof -
  define w where "w = current_world k (pt_world pt)"
  note unfolded = assms [unfolded commit_prepared_def Let_def, folded w_def]
  show thesis
  proof (cases "decide_commit w pt evidence")
    case (Inl e)
    with unfolded show thesis by (intro rejected [of e]) simp_all
  next
    case (Inr d)
    show thesis
    proof (cases d)
      case (Replayed receipt)
      with Inr have decided: "decide_commit w pt evidence = Inr (Replayed receipt)" by simp
      show thesis
      proof (rule replayed)
        show "result = Inr receipt" "k' = k" using unfolded decided by simp_all
        show "replay_receipt (current_world k (pt_world pt)) pt evidence = Inr (Some receipt)"
          using decided by (simp add: decide_commit_Replayed w_def)
      qed
    next
      case (Admitted revision plans locations)
      with Inr have adm: "admitted pt w" and rev: "revision = mw_revision w + 1"
        and plans: "plans = plans_for pt w"
        and locs: "project_entity_locations w (plans_for pt w) = Inr locations"
        by (simp_all add: decide_commit_Admitted)
      show thesis
      proof (cases "stage_commit sha w pt evidence (mk_next_fault k) revision plans")
        case (Inl e)
        with unfolded Inr Admitted show thesis
          by (intro rejected [of e]) simp_all
      next
        case stage: (Inr staged)
        obtain replacements publication mhash where s: "staged = (replacements, publication, mhash)"
          by (cases staged)
        note facts = stage [unfolded rev plans s, unfolded stage_commit_Inr]
        have "publishes sha k pt evidence k' result locations mhash"
          using unfolded Inr Admitted stage facts adm locs
          by (cases evidence) (auto simp: publishes_def Let_def w_def [symmetric] rev plans s
              world_after_def publish_world_def chunks_after_def new_chunks_def fail_if_def)
        then show thesis by (rule published)
      qed
    qed
  qed
qed

subsection \<open>The invariant is kept\<close>

lemma find_of_map: "find P (map f xs) = map_option f (find (\<lambda>x. P (f x)) xs)"
  by (induction xs) auto

lemma get_chunks_after:
  assumes "distinct (map cm_key (pt_mutations pt))"
  shows "bt_get (chunks_after pt w) key =
    (case find (\<lambda>m. cm_key m = key) (pt_mutations pt) of
       Some m \<Rightarrow> Some (staged_chunk (mw_revision w + 1) (plan_of w m))
     | None \<Rightarrow> bt_get (mw_chunks w) key)"
proof -
  have "find (\<lambda>p. plan_key p = key) (plans_for pt w) =
      map_option (plan_of w) (find (\<lambda>m. cm_key m = key) (pt_mutations pt))"
    by (simp add: plans_for_def find_of_map)
  with assms show ?thesis
    by (simp add: chunks_after_def get_new_chunks split: option.split)
qed

lemma staged_chunk_fields [simp]:
  "sc_key (staged_chunk r (plan_of w m)) = cm_key m"
  "sc_captured_world_revision (staged_chunk r (plan_of w m)) = r"
  "sc_data (staged_chunk r (plan_of w m)) = cm_data m"
  "0 < sc_revision (staged_chunk r (plan_of w m))"
  by (simp_all add: staged_chunk_def plan_of_def Let_def)

lemma world_after_fields [simp]:
  "mw_revision (world_after limits pt w locations mhash) = mw_revision w + 1"
  "mw_chunks (world_after limits pt w locations mhash) = chunks_after pt w"
  "mw_entity_locations (world_after limits pt w locations mhash) = locations"
  by (simp_all add: world_after_def)

lemma publication_for_fields [simp]:
  "pr_transaction_id (publication_for pt w) = pt_id pt"
  "pr_world (publication_for pt w) = pt_world pt"
  "pr_world_revision (publication_for pt w) = mw_revision w + 1"
  "\<not> pr_replayed (publication_for pt w)"
  by (simp_all add: publication_for_def)

lemma world_ok_after:
  assumes ok: "world_ok maximum (pt_world pt) w"
    and max: "maximum = kl_max_retained_receipts_per_world limits" "0 < maximum"
    and adm: "admitted pt w"
    and keys: "distinct (map cm_key (pt_mutations pt))"
      "\<forall>m \<in> set (pt_mutations pt). ck_world (cm_key m) = pt_world pt"
    and project: "project_entity_locations w (plans_for pt w) = Inr locations"
  shows "world_ok maximum (pt_world pt) (world_after limits pt w locations mhash)"
    and "bt_get (mw_committed_transactions (world_after limits pt w locations mhash)) (pt_id pt) =
      Some \<lparr>ct_fingerprint = pt_fingerprint pt, ct_publication = publication_for pt w,
        ct_materialized_chunk_state_hash = mhash\<rparr>"
proof -
  let ?w = "world_after limits pt w locations mhash"
  have "history_ok maximum (pt_world pt) w" using ok by (simp add: world_ok_def)
  from history_ok_retain [OF this max(2), of "pt_id pt" "publication_for pt w"
      "w\<lparr>mw_revision := mw_revision w + 1, mw_entity_locations := locations,
          mw_chunks := chunks_after pt w\<rparr>" "pt_fingerprint pt" mhash] adm
  have history: "history_ok maximum (pt_world pt) ?w" and
    stored: "bt_get (mw_committed_transactions ?w) (pt_id pt) =
      Some \<lparr>ct_fingerprint = pt_fingerprint pt, ct_publication = publication_for pt w,
        ct_materialized_chunk_state_hash = mhash\<rparr>"
    by (simp_all add: world_after_def max(1) admitted_def)
  have chunks: "chunks_ok (pt_world pt) ?w"
    unfolding chunks_ok_def
  proof (intro allI impI)
    fix key c assume c: "bt_get (mw_chunks ?w) key = Some c"
    show "sc_key c = key \<and> ck_world key = pt_world pt \<and>
        sc_captured_world_revision c \<le> mw_revision ?w \<and> 0 < sc_revision c"
    proof (cases "find (\<lambda>m. cm_key m = key) (pt_mutations pt)")
      case None
      with c have "bt_get (mw_chunks w) key = Some c" by (simp add: get_chunks_after [OF keys(1)])
      moreover have "chunks_ok (pt_world pt) w" using ok by (simp add: world_ok_def)
      ultimately have "sc_key c = key \<and> ck_world key = pt_world pt \<and>
        sc_captured_world_revision c \<le> mw_revision w \<and> 0 < sc_revision c"
        unfolding chunks_ok_def by blast
      then show ?thesis by simp
    next
      case (Some m)
      with c have "c = staged_chunk (mw_revision w + 1) (plan_of w m)"
        by (simp add: get_chunks_after [OF keys(1)])
      with find_some [OF Some] keys(2) show ?thesis by auto
    qed
  qed
  have "index_ok w" using ok by (simp add: world_ok_def)
  from project_index_ok [OF this _ project, where w' = w and revision = "mw_revision w + 1"] keys(1)
  have index: "index_ok ?w" by (simp add: index_ok_def chunks_after_def)
  show "world_ok maximum (pt_world pt) ?w"
    using chunks index history adm by (simp add: world_ok_def admitted_def)
  show "bt_get (mw_committed_transactions ?w) (pt_id pt) =
      Some \<lparr>ct_fingerprint = pt_fingerprint pt, ct_publication = publication_for pt w,
        ct_materialized_chunk_state_hash = mhash\<rparr>"
    by (rule stored)
qed

lemma commit_prepared_ok:
  assumes ok: "kernel_ok k" and prepared: "prepared_ok (mk_limits k) t pt"
    and step: "commit_prepared sha k pt evidence = (k', result)"
  shows "kernel_ok k'"
  using step
proof (cases rule: commit_prepared_cases)
  case (published locations mhash)
  let ?w = "current_world k (pt_world pt)"
  have "world_ok (kl_max_retained_receipts_per_world (mk_limits k)) (pt_world pt)
      (world_after (mk_limits k) pt ?w locations mhash)"
    using published kernel_ok_current [OF ok] prepared ok
    by (intro world_ok_after) (auto simp: publishes_def Let_def prepared_ok_def kernel_ok_def)
  from kernel_ok_put [OF ok this] published show ?thesis
    by (simp add: publishes_def Let_def kernel_ok_def)
qed (use ok in auto)

lemma release_ok:
  assumes ok: "kernel_ok k" and step: "release_persisted_copy k key revision = (k', b)"
  shows "kernel_ok k'"
proof (cases "k' = k")
  case False
  with step obtain w c where w: "bt_get (mk_worlds k) (ck_world key) = Some w"
    and c: "bt_get (mw_chunks w) key = Some c"
    and k': "k' = k\<lparr>mk_worlds := bt_insert (ck_world key)
        (w\<lparr>mw_chunks := bt_remove key (mw_chunks w),
           mw_entity_locations := foldl (\<lambda>m e. bt_remove e m) (mw_entity_locations w)
             (bt_keys (cd_persistent_entities (sc_data c)))\<rparr>) (mk_worlds k)\<rparr>"
    by (auto simp: release_persisted_copy_def Let_def split: option.splits if_splits)
  have fold: "bt_get (foldl (\<lambda>m e. bt_remove e m) l es) x = (if x \<in> set es then None else bt_get l x)"
    for es l x by (induction es arbitrary: l) (auto simp: bt.get_remove)
  have wok: "world_ok (kl_max_retained_receipts_per_world (mk_limits k)) (ck_world key) w"
    using ok w by (simp add: kernel_ok_def)
  then have index: "index_ok w" by (simp add: world_ok_def)
  have "index_ok (w\<lparr>mw_chunks := bt_remove key (mw_chunks w),
      mw_entity_locations := foldl (\<lambda>m e. bt_remove e m) (mw_entity_locations w)
        (bt_keys (cd_persistent_entities (sc_data c)))\<rparr>)"
    unfolding index_ok_def
  proof (intro allI)
    fix e key'
    have at: "bt_get (mw_entity_locations w) e = Some key' \<longleftrightarrow>
        (\<exists>c. bt_get (mw_chunks w) key' = Some c \<and> e \<in> entities_of (sc_data c))" for key'
      using index by (simp add: index_ok_def)
    have "e \<in> entities_of (sc_data c) \<longleftrightarrow> bt_get (mw_entity_locations w) e = Some key"
      using at [of key] c by simp
    with at [of key'] show "bt_get (mw_entity_locations (w\<lparr>mw_chunks := bt_remove key (mw_chunks w),
        mw_entity_locations := foldl (\<lambda>m e. bt_remove e m) (mw_entity_locations w)
          (bt_keys (cd_persistent_entities (sc_data c)))\<rparr>)) e = Some key' \<longleftrightarrow>
      (\<exists>d. bt_get (mw_chunks (w\<lparr>mw_chunks := bt_remove key (mw_chunks w),
        mw_entity_locations := foldl (\<lambda>m e. bt_remove e m) (mw_entity_locations w)
          (bt_keys (cd_persistent_entities (sc_data c)))\<rparr>)) key' = Some d \<and>
        e \<in> entities_of (sc_data d))"
      by (auto simp: fold set_bt_keys_entities bt.get_remove)
  qed
  with wok have "world_ok (kl_max_retained_receipts_per_world (mk_limits k)) (ck_world key)
      (w\<lparr>mw_chunks := bt_remove key (mw_chunks w),
        mw_entity_locations := foldl (\<lambda>m e. bt_remove e m) (mw_entity_locations w)
          (bt_keys (cd_persistent_entities (sc_data c)))\<rparr>)"
    by (auto simp: world_ok_def chunks_ok_def history_ok_def receipt_at_def bt.get_remove
        split: if_splits)
  from kernel_ok_put [OF ok this] show ?thesis by (simp add: k')
qed (simp add: ok)

subsection \<open>Reachable kernels\<close>

inductive kernel_step :: "digest_function \<Rightarrow> memory_kernel \<Rightarrow> memory_kernel \<Rightarrow> bool"
  for sha where
  committed: "storage_commit sha k t = (k', r) \<Longrightarrow> kernel_step sha k k'"
| published: "storage_publish sha k t = (k', r') \<Longrightarrow> kernel_step sha k k'"
| released: "release_persisted_copy k key revision = (k', b) \<Longrightarrow> kernel_step sha k k'"
| armed: "inject_fault_once k point = (k', r'') \<Longrightarrow> kernel_step sha k k'"

inductive kernel_run :: "digest_function \<Rightarrow> memory_kernel \<Rightarrow> memory_kernel \<Rightarrow> bool"
  for sha where
  start: "kernel_run sha k k"
| step: "kernel_run sha k k' \<Longrightarrow> kernel_step sha k' k'' \<Longrightarrow> kernel_run sha k k''"

inductive_cases kernel_stepE: "kernel_step sha k k'"

definition reachable_kernel :: "digest_function \<Rightarrow> memory_kernel \<Rightarrow> bool" where
  "reachable_kernel sha k \<longleftrightarrow>
     (\<exists>c p r limits. kernel_limits_new c p r = Inr limits \<and> kernel_run sha (with_limits limits) k)"

text \<open>Both entry points run \<open>commit_prepared\<close> on the validated transaction.\<close>

lemma storage_commit_cases:
  assumes "storage_commit sha k t = (k', r)"
  obtains (invalid) e where "validate_transaction sha t (mk_limits k) = Inl e" "k' = k" "r = Inl e"
    | (prepared) pt result where "validate_transaction sha t (mk_limits k) = Inr pt"
      "prepared_ok (mk_limits k) t pt"
      "commit_prepared sha k pt ReferenceEvidence = (k', result)"
      "r = (case result of Inl e \<Rightarrow> Inl e | Inr (ReferenceReceipt receipt) \<Rightarrow> Inr receipt
        | Inr (PublicationReceipt _) \<Rightarrow> Inl (ReceiptHistoryInvariant (pt_world pt)))"
proof (cases "validate_transaction sha t (mk_limits k)")
  case (Inl e)
  with assms show thesis by (intro invalid [of e]) (simp_all add: storage_commit_def)
next
  case (Inr pt)
  obtain k1 result where step: "commit_prepared sha k pt ReferenceEvidence = (k1, result)"
    by (cases "commit_prepared sha k pt ReferenceEvidence")
  with assms Inr have "k' = k1" and "r = (case result of Inl e \<Rightarrow> Inl e | Inr (ReferenceReceipt receipt) \<Rightarrow> Inr receipt
        | Inr (PublicationReceipt _) \<Rightarrow> Inl (ReceiptHistoryInvariant (pt_world pt)))"
    by (simp_all add: storage_commit_def split: sum.splits committed_receipt.splits)
  with step Inr show thesis by (intro prepared [of pt result]) (auto dest: validate_transaction_ok)
qed

lemma storage_publish_cases:
  assumes "storage_publish sha k t = (k', r)"
  obtains (invalid) e where "validate_transaction sha t (mk_limits k) = Inl e" "k' = k" "r = Inl e"
    | (prepared) pt result where "validate_transaction sha t (mk_limits k) = Inr pt"
      "prepared_ok (mk_limits k) t pt"
      "commit_prepared sha k pt PublicationEvidence = (k', result)"
      "r = (case result of Inl e \<Rightarrow> Inl e | Inr (PublicationReceipt receipt) \<Rightarrow> Inr receipt
        | Inr (ReferenceReceipt _) \<Rightarrow> Inl (ReceiptHistoryInvariant (pt_world pt)))"
proof (cases "validate_transaction sha t (mk_limits k)")
  case (Inl e)
  with assms show thesis by (intro invalid [of e]) (simp_all add: storage_publish_def)
next
  case (Inr pt)
  obtain k1 result where step: "commit_prepared sha k pt PublicationEvidence = (k1, result)"
    by (cases "commit_prepared sha k pt PublicationEvidence")
  with assms Inr have "k' = k1" and "r = (case result of Inl e \<Rightarrow> Inl e | Inr (PublicationReceipt receipt) \<Rightarrow> Inr receipt
        | Inr (ReferenceReceipt _) \<Rightarrow> Inl (ReceiptHistoryInvariant (pt_world pt)))"
    by (simp_all add: storage_publish_def split: sum.splits committed_receipt.splits)
  with step Inr show thesis by (intro prepared [of pt result]) (auto dest: validate_transaction_ok)
qed

lemma kernel_step_ok:
  assumes "kernel_step sha k k'" "kernel_ok k"
  shows "kernel_ok k'"
  using assms
proof cases
  case (committed t r)
  from committed show ?thesis
  proof (cases rule: storage_commit_cases)
    case (prepared pt result)
    from commit_prepared_ok [OF assms(2) prepared(2,3)] show ?thesis .
  qed (use assms(2) in simp)
next
  case (published t r)
  from published show ?thesis
  proof (cases rule: storage_publish_cases)
    case (prepared pt result)
    from commit_prepared_ok [OF assms(2) prepared(2,3)] show ?thesis .
  qed (use assms(2) in simp)
next
  case (released key revision b)
  with assms(2) show ?thesis by (rule release_ok)
next
  case (armed point r)
  with assms(2) show ?thesis by (auto simp: inject_fault_once_def split: if_splits)
qed

lemma kernel_run_ok: "kernel_run sha k k' \<Longrightarrow> kernel_ok k \<Longrightarrow> kernel_ok k'"
  by (induction rule: kernel_run.induct) (auto intro: kernel_step_ok)

lemma reachable_kernel_ok:
  assumes "reachable_kernel sha k"
  shows "kernel_ok k"
proof -
  from assms obtain c p r limits where limits: "kernel_limits_new c p r = Inr limits"
    and run: "kernel_run sha (with_limits limits) k"
    by (auto simp: reachable_kernel_def)
  from limits have "0 < kl_max_retained_receipts_per_world limits"
    by (auto simp: kernel_limits_new_def split: if_splits)
  from kernel_run_ok [OF run kernel_ok_with_limits [OF this]] show ?thesis .
qed

end
