(* ===== verification/Storage_Spec.thy ===== *)
theory Storage_Spec
  imports Storage_Commit Example
begin

section \<open>The kernel refines an abstract store\<close>

text \<open>
  To its clients a world is a revision and a partial map from chunk keys to chunks. The
  specification of a transaction replaces all its chunks at once, or none; it knows nothing
  of plans, staging copies, the entity index or receipts.
\<close>

subsection \<open>The abstract transaction\<close>

type_synonym abstract_world = "world_revision \<times> (chunk_key \<Rightarrow> stored_chunk option)"

definition abstract_world :: "memory_kernel \<Rightarrow> world_id \<Rightarrow> abstract_world" where
  "abstract_world k world =
     (world_frontier k world, \<lambda>key. if ck_world key = world then read_chunk k key else None)"

text \<open>One chunk: a new one starts all its revisions at one, an existing one must be expected at
  its revision, must change, and counts up the domains that change.\<close>

definition domain_bits :: "bool \<Rightarrow> bool \<Rightarrow> bool \<Rightarrow> bool \<Rightarrow> changed_domains" where
  "domain_bits v e n p = of_bool v + 2 * of_bool e + 4 * of_bool n + 8 * of_bool p"

definition spec_chunk ::
    "world_revision \<Rightarrow> stored_chunk option \<Rightarrow> chunk_mutation \<Rightarrow> stored_chunk option" where
  "spec_chunk revision old m =
     (case old of
        None \<Rightarrow>
          if cm_expected_revision m = ExpectAbsent \<and> cm_changed_domains m = 15
          then Some \<lparr>sc_key = cm_key m, sc_captured_world_revision = revision, sc_revision = 1,
            sc_domain_revisions = \<lparr>dr_voxels = 1, dr_persistent_entities = 1, dr_continuation = 1\<rparr>,
            sc_data = cm_data m\<rparr>
          else None
      | Some c \<Rightarrow>
          let v = cd_voxels (sc_data c) \<noteq> cd_voxels (cm_data m);
              e = cd_persistent_entities (sc_data c) \<noteq> cd_persistent_entities (cm_data m);
              n = cd_continuations (sc_data c) \<noteq> cd_continuations (cm_data m);
              p = cd_provenance (sc_data c) \<noteq> cd_provenance (cm_data m);
              r = sc_domain_revisions c
          in if cm_expected_revision m = ExpectExact (sc_revision c) \<and> (v \<or> e \<or> n \<or> p) \<and>
               cm_changed_domains m = domain_bits v e n p \<and> sc_revision c < u64_max \<and>
               (v \<longrightarrow> dr_voxels r < u64_max) \<and> (e \<longrightarrow> dr_persistent_entities r < u64_max) \<and>
               (n \<longrightarrow> dr_continuation r < u64_max)
             then Some \<lparr>sc_key = cm_key m, sc_captured_world_revision = revision,
               sc_revision = sc_revision c + 1,
               sc_domain_revisions =
                 \<lparr>dr_voxels = dr_voxels r + of_bool v,
                  dr_persistent_entities = dr_persistent_entities r + of_bool e,
                  dr_continuation = dr_continuation r + of_bool n\<rparr>,
               sc_data = cm_data m\<rparr>
             else None)"

definition spec_chunks ::
    "world_revision \<Rightarrow> (chunk_key \<Rightarrow> stored_chunk option) \<Rightarrow> chunk_mutation list \<Rightarrow>
     chunk_key \<Rightarrow> stored_chunk option" where
  "spec_chunks revision chunks ms key =
     (case find (\<lambda>m. cm_key m = key) ms of
        Some m \<Rightarrow> spec_chunk revision (chunks key) m | None \<Rightarrow> chunks key)"

definition entity_in :: "(chunk_key \<Rightarrow> stored_chunk option) \<Rightarrow> persistent_entity_id \<Rightarrow> chunk_key \<Rightarrow> bool" where
  "entity_in chunks e key \<longleftrightarrow> (\<exists>c. chunks key = Some c \<and> e \<in> entities_of (sc_data c))"

definition spec_transaction :: "abstract_world \<Rightarrow> world_transaction \<Rightarrow> abstract_world option" where
  "spec_transaction a t =
     (let revision = fst a; chunks = snd a;
          after = spec_chunks (revision + 1) chunks (wt_mutations t) in
      if wt_base_world_revision t = revision \<and> revision < u64_max \<and>
         (\<forall>m \<in> set (wt_mutations t). spec_chunk (revision + 1) (chunks (cm_key m)) m \<noteq> None) \<and>
         (\<forall>e key key'. entity_in after e key \<longrightarrow> entity_in after e key' \<longrightarrow> key = key')
      then Some (revision + 1, after) else None)"

subsection \<open>Chunks and their plans\<close>

lemmas domain_consts = domain_voxels_def domain_persistent_entities_def domain_continuations_def
  domain_provenance_def domains_none_def domains_all_def

lemma changed_domains_bits:
  "changed_domains_of (Some c) d =
     domain_bits (cd_voxels c \<noteq> cd_voxels d) (cd_persistent_entities c \<noteq> cd_persistent_entities d)
       (cd_continuations c \<noteq> cd_continuations d) (cd_provenance c \<noteq> cd_provenance d)"
  by (simp add: changed_domains_of_def domain_bits_def domains_union_def domain_consts)

lemma domain_bits_facts:
  "domain_bits v e n p = 0 \<longleftrightarrow> \<not> v \<and> \<not> e \<and> \<not> n \<and> \<not> p"
  "domains_contain (domain_bits v e n p) domain_voxels \<longleftrightarrow> v"
  "domains_contain (domain_bits v e n p) domain_persistent_entities \<longleftrightarrow> e"
  "domains_contain (domain_bits v e n p) domain_continuations \<longleftrightarrow> n"
  by (cases v; cases e; cases n; cases p;
      simp add: domain_bits_def domains_contain_def domain_consts)+

lemma changed_domains_new: "changed_domains_of None d = 15"
  by (simp add: changed_domains_of_def domain_consts)

lemma new_domains_contain [simp]:
  "domains_contain 15 domain_voxels" "domains_contain 15 domain_persistent_entities"
  "domains_contain 15 domain_continuations"
  by (simp_all add: domains_contain_def domain_consts)

lemma spec_chunk_staged:
  "spec_chunk revision (bt_get (mw_chunks w) (cm_key m)) m =
     (if mutation_ok w m then Some (staged_chunk revision (plan_of w m)) else None)"
proof (cases "bt_get (mw_chunks w) (cm_key m)")
  case None
  then show ?thesis
    by (cases "cm_expected_revision m")
      (auto simp: spec_chunk_def mutation_ok_def changed_domains_new staged_chunk_def plan_of_def
        Let_def bump_def domain_revisions_default_def u64_max_def)
next
  case (Some c)
  then show ?thesis
    by (cases "cm_expected_revision m")
      (auto simp: spec_chunk_def mutation_ok_def changed_domains_bits domain_bits_facts
        staged_chunk_def plan_of_def Let_def bump_def Suc_le_eq)
qed

subsection \<open>Worlds\<close>

lemma abstract_world_current:
  assumes "kernel_ok k"
  shows "abstract_world k world =
    (mw_revision (current_world k world), bt_get (mw_chunks (current_world k world)))"
proof -
  have "chunks_ok world (current_world k world)"
    using kernel_ok_current [OF assms] by (simp add: world_ok_def)
  then have "bt_get (mw_chunks (current_world k world)) key = None" if "ck_world key \<noteq> world" for key
    unfolding chunks_ok_def using that by (metis not_None_eq)
  then show ?thesis
    by (auto simp: abstract_world_def world_frontier_def read_chunk_def current_world_def
        memory_world_default_def bt.get_empty fun_eq_iff split: option.splits)
qed

lemma find_key:
  assumes "distinct (map f xs)"
  shows "find (\<lambda>x. f x = k) xs = Some x \<longleftrightarrow> x \<in> set xs \<and> f x = k"
  using assms
proof (induction xs)
  case (Cons y ys)
  then show ?case by (cases "f y = k") (auto simp: image_iff)
qed simp

lemma find_sort_key:
  assumes "distinct (map f xs)"
  shows "find (\<lambda>x. f x = k) (sort_key f xs) = find (\<lambda>x. f x = k) xs"
proof -
  have "find (\<lambda>x. f x = k) (sort_key f xs) = Some x \<longleftrightarrow> find (\<lambda>x. f x = k) xs = Some x" for x
    using assms by (simp add: find_key distinct_map_sort_key)
  then show ?thesis by (metis option.exhaust)
qed

lemma prepared_okD:
  assumes "prepared_ok limits t pt"
  shows "pt_id pt = wt_id t" "pt_world pt = wt_world t"
    "pt_base_world_revision pt = wt_base_world_revision t"
    "pt_mutations pt = sort_key cm_key (wt_mutations t)"
    "set (pt_mutations pt) = set (wt_mutations t)"
    "distinct (map cm_key (pt_mutations pt))" "pt_mutations pt \<noteq> []"
  using assms unfolding prepared_ok_def by (metis set_sort)+

lemma spec_chunks_after:
  assumes ok: "prepared_ok limits t pt" and all: "\<forall>m \<in> set (pt_mutations pt). mutation_ok w m"
  shows "spec_chunks (mw_revision w + 1) (bt_get (mw_chunks w)) (wt_mutations t) =
    bt_get (chunks_after pt w)"
proof
  fix key
  have d: "distinct (map cm_key (pt_mutations pt))" and sorted: "pt_mutations pt = sort_key cm_key (wt_mutations t)"
    using prepared_okD [OF ok] by blast+
  then have same: "find (\<lambda>m. cm_key m = key) (wt_mutations t) = find (\<lambda>m. cm_key m = key) (pt_mutations pt)"
    by (simp add: find_sort_key distinct_map_sort_key)
  show "spec_chunks (mw_revision w + 1) (bt_get (mw_chunks w)) (wt_mutations t) key =
    bt_get (chunks_after pt w) key"
  proof (cases "find (\<lambda>m. cm_key m = key) (pt_mutations pt)")
    case None
    with same show ?thesis by (simp add: spec_chunks_def get_chunks_after [OF d])
  next
    case (Some m)
    from find_some [OF Some] all have "mutation_ok w m" "cm_key m = key" by auto
    with Some same spec_chunk_staged [of "mw_revision w + 1" w m] show ?thesis
      by (simp add: spec_chunks_def get_chunks_after [OF d])
  qed
qed

lemma unique_entity_in:
  "entities_unique chunks \<longleftrightarrow>
     (\<forall>e key key'. entity_in (bt_get chunks) e key \<longrightarrow> entity_in (bt_get chunks) e key' \<longrightarrow> key = key')"
  unfolding entities_unique_def entity_in_def by blast

lemma spec_transaction_current:
  assumes ok: "kernel_ok k" and prepared: "prepared_ok limits t pt"
    and w: "w = current_world k (wt_world t)"
  shows "spec_transaction (abstract_world k (wt_world t)) t =
    (if mw_revision w = pt_base_world_revision pt \<and> mw_revision w + 1 \<le> u64_max \<and>
        (\<forall>m \<in> set (pt_mutations pt). mutation_ok w m) \<and> entities_unique (chunks_after pt w)
     then Some (mw_revision w + 1, bt_get (chunks_after pt w)) else None)"
proof -
  have base: "wt_base_world_revision t = pt_base_world_revision pt"
    and set: "set (pt_mutations pt) = set (wt_mutations t)"
    using prepared_okD(3) [OF prepared] prepared_okD(5) [OF prepared] by simp_all
  note abs = abstract_world_current [OF ok, of "wt_world t", folded w]
  show ?thesis
  proof (cases "\<forall>m \<in> set (pt_mutations pt). mutation_ok w m")
    case True
    have "spec_chunks (Suc (mw_revision w)) (bt_get (mw_chunks w)) (wt_mutations t) =
        bt_get (chunks_after pt w)"
      using spec_chunks_after [OF prepared True] by simp
    with True show ?thesis
      by (auto simp: spec_transaction_def abs Let_def base set spec_chunk_staged unique_entity_in Suc_le_eq)
  next
    case False
    then show ?thesis
      by (auto simp: spec_transaction_def abs Let_def set spec_chunk_staged)
  qed
qed

lemma commit_prepared_publishes:
  assumes "admitted pt w" and w: "w = current_world k (pt_world pt)" and "mk_next_fault k = None"
    and "project_entity_locations w (plans_for pt w) = Inr locations"
  shows "commit_prepared sha k pt PublicationEvidence =
    (k\<lparr>mk_worlds := bt_insert (pt_world pt)
        (world_after (mk_limits k) pt w locations None) (mk_worlds k)\<rparr>,
     Inr (PublicationReceipt (publication_for pt w)))"
proof -
  have decide: "decide_commit w pt PublicationEvidence =
      Inr (Admitted (mw_revision w + 1) (plans_for pt w) locations)"
    using assms by (simp only: decide_commit_Admitted)
  have stage: "stage_commit sha w pt PublicationEvidence None (mw_revision w + 1) (plans_for pt w) =
      Inr (foldl (\<lambda>m p. bt_insert (plan_key p) (staged_chunk (mw_revision w + 1) p) m)
        bt_empty (plans_for pt w), publication_for pt w, None)"
    by (simp only: stage_commit_Inr) simp
  have "k\<lparr>mk_next_fault := None\<rparr> = k" using assms(3) by simp
  then show ?thesis
    using decide stage assms(3)
    by (simp add: commit_prepared_def Let_def w [symmetric] fail_if_def committed_receipt_of_def
        world_after_def publish_world_def chunks_after_def new_chunks_def)
qed

lemma publish_fresh_refines:
  assumes "reachable_kernel sha k" and "mk_next_fault k = None"
    and "validate_transaction sha t (mk_limits k) = Inr pt"
    and "bt_get (mw_committed_transactions (current_world k (wt_world t))) (wt_id t) = None"
  shows "case spec_transaction (abstract_world k (wt_world t)) t of
      Some a \<Rightarrow> \<exists>k' receipt. storage_publish sha k t = (k', Inr receipt) \<and>
        (\<forall>world. abstract_world k' world = (if world = wt_world t then a else abstract_world k world))
    | None \<Rightarrow> \<exists>e. storage_publish sha k t = (k, Inl e)"
proof -
  define w where "w = current_world k (wt_world t)"
  note ok = reachable_kernel_ok [OF assms(1)] and prepared = validate_transaction_ok [OF assms(3)]
  have pt: "pt_world pt = wt_world t" "pt_id pt = wt_id t" "distinct (map cm_key (pt_mutations pt))"
    using prepared_okD [OF prepared] by blast+
  note spec = spec_transaction_current [OF ok prepared w_def]
  have "world_ok (kl_max_retained_receipts_per_world (mk_limits k)) (wt_world t) w"
    using kernel_ok_current [OF ok] by (simp add: w_def)
  then have "index_ok w" by (simp add: world_ok_def)
  note project = project_iff_unique [OF this, of "plans_for pt w" "mw_revision w + 1",
      folded chunks_after_def, simplified plan_keys_plans_for, OF pt(3)]
  show ?thesis
  proof (cases "admitted pt w \<and> entities_unique (chunks_after pt w)")
    case True
    with project obtain locations where
      locations: "project_entity_locations w (plans_for pt w) = Inr locations" by blast
    let ?k = "k\<lparr>mk_worlds := bt_insert (wt_world t)
        (world_after (mk_limits k) pt w locations None) (mk_worlds k)\<rparr>"
    have step: "commit_prepared sha k pt PublicationEvidence = (?k, Inr (PublicationReceipt (publication_for pt w)))"
      using commit_prepared_publishes [of pt w k locations sha] True locations assms(2)
      by (simp add: w_def pt)
    then have "storage_publish sha k t = (?k, Inr (publication_for pt w))"
      by (simp add: storage_publish_def assms(3))
    moreover have "abstract_world ?k world = (if world = wt_world t
        then (mw_revision w + 1, bt_get (chunks_after pt w)) else abstract_world k world)" for world
      unfolding abstract_world_current [OF commit_prepared_ok [OF ok prepared step]]
        abstract_world_current [OF ok]
      by (simp add: current_world_def bt.get_insert)
    ultimately show ?thesis
      using True by (auto simp: spec admitted_def)
  next
    case False
    have none: "spec_transaction (abstract_world k (wt_world t)) t = None"
      using False assms(4) by (auto simp: spec admitted_def pt w_def)
    obtain k' result where step: "commit_prepared sha k pt PublicationEvidence = (k', result)"
      by (cases "commit_prepared sha k pt PublicationEvidence")
    from step have "\<exists>e. result = Inl e \<and> k' = k"
    proof (cases rule: commit_prepared_cases)
      case (rejected e)
      with assms(2) show ?thesis by auto
    next
      case (replayed receipt)
      with assms(4) show ?thesis by (simp add: replay_receipt_def pt)
    next
      case (published locations mhash)
      then have "admitted pt w" "project_entity_locations w (plans_for pt w) = Inr locations"
        by (simp_all add: publishes_def Let_def w_def pt)
      with False project show ?thesis by blast
    qed
    with step none show ?thesis by (auto simp: storage_publish_def assms(3))
  qed
qed

lemma publish_known:
  assumes "validate_transaction sha t (mk_limits k) = Inr pt"
    and "bt_get (mw_committed_transactions (current_world k (wt_world t))) (wt_id t) = Some committed"
  shows "storage_publish sha k t =
    (k, if ct_fingerprint committed = pt_fingerprint pt
        then Inr ((ct_publication committed)\<lparr>pr_replayed := True\<rparr>)
        else Inl (TransactionIdReuse (wt_world t) (wt_id t)))"
proof -
  have pt: "pt_world pt = wt_world t" "pt_id pt = wt_id t"
    using prepared_okD [OF validate_transaction_ok [OF assms(1)]] by blast+
  show ?thesis
    using assms by (simp add: storage_publish_def commit_prepared_def decide_commit_def
        replay_receipt_def committed_receipt_of_def pt)
qed

text \<open>C2: a publication is the abstract transaction. On a reachable kernel with no armed fault, a
  transaction that fails validation (it is empty, over the limits, names a chunk twice or a chunk
  of another world, or cannot be hashed) is rejected with that error. A valid one whose identifier is still in the ledger is answered from
  it: with the stored receipt, marked as a replay, when the content is the same, else with an
  error. In both cases the kernel is unchanged. A valid one with a new identifier is accepted
  exactly when the specification admits it; then the world becomes the specified one and no
  other world changes; otherwise the kernel is unchanged.\<close>

theorem publish_refines:
  assumes "reachable_kernel sha k" and "mk_next_fault k = None"
  shows "case validate_transaction sha t (mk_limits k) of
      Inl e \<Rightarrow> storage_publish sha k t = (k, Inl e)
    | Inr pt \<Rightarrow>
       (case bt_get (mw_committed_transactions (current_world k (wt_world t))) (wt_id t) of
          Some committed \<Rightarrow> storage_publish sha k t =
            (k, if ct_fingerprint committed = pt_fingerprint pt
                then Inr ((ct_publication committed)\<lparr>pr_replayed := True\<rparr>)
                else Inl (TransactionIdReuse (wt_world t) (wt_id t)))
        | None \<Rightarrow>
           (case spec_transaction (abstract_world k (wt_world t)) t of
              Some a \<Rightarrow> \<exists>k' receipt. storage_publish sha k t = (k', Inr receipt) \<and>
                (\<forall>world. abstract_world k' world =
                   (if world = wt_world t then a else abstract_world k world))
            | None \<Rightarrow> \<exists>e. storage_publish sha k t = (k, Inl e)))"
proof (cases "validate_transaction sha t (mk_limits k)")
  case (Inl e)
  then show ?thesis by (simp add: storage_publish_def)
next
  case (Inr pt)
  then show ?thesis
    using publish_fresh_refines [OF assms Inr] publish_known [OF Inr]
    by (cases "bt_get (mw_committed_transactions (current_world k (wt_world t))) (wt_id t)")
      (simp_all only: sum.case option.case)
qed

subsection \<open>A sample world in the kernel\<close>

text \<open>Two chunks, the first with an entity, that a second transaction moves to the other.\<close>

definition sample_payload :: "nat \<Rightarrow> versioned_payload" where
  "sample_payload n =
     \<lparr>vp_schema = ''s'', vp_schema_version = 1, vp_bytes = [word_of_nat n]\<rparr>"

definition chunk_at :: "int \<Rightarrow> chunk_key" where
  "chunk_at x = ChunkKey 7 ''d'' (ChunkCoordinate x 0 0)"

definition chunk_with :: "nat \<Rightarrow> 128 word list \<Rightarrow> chunk_data" where
  "chunk_with n es =
     \<lparr>cd_voxels = sample_payload n,
      cd_persistent_entities = of_pairs (map (\<lambda>e. (e, sample_payload 9)) es),
      cd_continuations = bt_empty, cd_provenance = bt_empty\<rparr>"

definition create_transaction :: world_transaction where
  "create_transaction =
     \<lparr>wt_id = 50, wt_world = 7, wt_base_world_revision = 0, wt_mutations =
        [\<lparr>cm_key = chunk_at 1, cm_expected_revision = ExpectAbsent, cm_changed_domains = 15,
          cm_data = chunk_with 2 []\<rparr>,
         \<lparr>cm_key = chunk_at 0, cm_expected_revision = ExpectAbsent, cm_changed_domains = 15,
          cm_data = chunk_with 1 [5]\<rparr>]\<rparr>"

definition move_transaction :: world_transaction where
  "move_transaction =
     \<lparr>wt_id = 51, wt_world = 7, wt_base_world_revision = 1, wt_mutations =
        [\<lparr>cm_key = chunk_at 0, cm_expected_revision = ExpectExact 1, cm_changed_domains = 2,
          cm_data = chunk_with 1 []\<rparr>,
         \<lparr>cm_key = chunk_at 1, cm_expected_revision = ExpectExact 1, cm_changed_domains = 2,
          cm_data = chunk_with 2 [5]\<rparr>]\<rparr>"

definition small_limits :: kernel_limits where
  "small_limits =
     \<lparr>kl_max_chunks_per_transaction = 4, kl_max_payload_bytes_per_transaction = 1000,
      kl_max_retained_receipts_per_world = 2\<rparr>"

definition empty_kernel :: memory_kernel where
  "empty_kernel = with_limits small_limits"

definition created_kernel :: memory_kernel where
  "created_kernel = fst (storage_publish sample_sha empty_kernel create_transaction)"

lemma reachable_empty: "reachable_kernel sha empty_kernel"
proof -
  have "kernel_limits_new 4 1000 2 = Inr small_limits"
    by (simp add: kernel_limits_new_def small_limits_def)
  then show ?thesis
    unfolding reachable_kernel_def empty_kernel_def by (blast intro: kernel_run.start)
qed

lemma reachable_step: "reachable_kernel sha k \<Longrightarrow> kernel_step sha k k' \<Longrightarrow> reachable_kernel sha k'"
  unfolding reachable_kernel_def by (blast intro: kernel_run.step)

lemma reachable_created: "reachable_kernel sample_sha created_kernel"
  unfolding created_kernel_def
  by (rule reachable_step [OF reachable_empty], rule kernel_step.published [OF prod.collapse [symmetric]])

lemma move_valid: "is_ok (validate_transaction sample_sha move_transaction (mk_limits created_kernel))"
  by code_simp

lemma move_succeeds: "is_ok (snd (storage_publish sample_sha created_kernel move_transaction))"
  by code_simp

lemma created_fault: "mk_next_fault created_kernel = None"
  by code_simp

lemma move_fresh:
  "bt_get (mw_committed_transactions (current_world created_kernel (wt_world move_transaction)))
     (wt_id move_transaction) = None"
  by code_simp

text \<open>The second transaction is admitted: an entity may change its chunk.\<close>

lemma publish_refines_witness:
  "\<exists>a. spec_transaction (abstract_world created_kernel 7) move_transaction = Some a \<and>
     abstract_world (fst (storage_publish sample_sha created_kernel move_transaction)) 7 = a"
proof -
  from move_valid obtain pt where
    pt: "validate_transaction sample_sha move_transaction (mk_limits created_kernel) = Inr pt"
    unfolding is_ok_iff by blast
  have world: "wt_world move_transaction = 7" by (simp add: move_transaction_def)
  have fresh: "bt_get (mw_committed_transactions (current_world created_kernel 7))
      (wt_id move_transaction) = None" using move_fresh world by simp
  note refines = publish_refines [OF reachable_created created_fault, of move_transaction,
      unfolded pt world fresh sum.case option.case]
  show ?thesis
  proof (cases "spec_transaction (abstract_world created_kernel 7) move_transaction")
    case None
    with refines move_succeeds show ?thesis by auto
  next
    case (Some a)
    with refines show ?thesis by auto
  qed
qed

end
