(* ===== verification/Storage_Evidence.thy ===== *)
theory Storage_Evidence
  imports Storage_Spec Encoding "HOL-Library.Multiset"
begin

section \<open>Evidence, payload accounting and mutation order\<close>

text \<open>
  The hash in a commit receipt is computed from a merge of the old chunks with the staged ones,
  and it is the hash of the world that was published. The payload meter accepts a transaction
  exactly when the bytes its data contributes to the fingerprint fit the limit. The order in
  which a transaction lists its mutations does not matter.
\<close>

subsection \<open>The merge is the extended map\<close>

lemma keys_merge_entries:
  "set (map fst (merge_entries xs ys)) = set (map fst xs) \<union> set (map fst ys)"
  by (induction xs ys rule: merge_entries.induct) auto

lemma sorted_merge_entries:
  "sorted_wrt (<) (map fst xs) \<Longrightarrow> sorted_wrt (<) (map fst ys) \<Longrightarrow>
   sorted_wrt (<) (map fst (merge_entries xs ys))"
proof (induction xs ys rule: merge_entries.induct)
  case (1 ek ec existing rk rc replacement)
  consider (less) "ek < rk" | (same) "ek = rk" | (greater) "rk < ek" by (rule linorder_cases)
  then show ?case
  proof cases
    case less
    then have "\<forall>k \<in> set (map fst ((rk, rc) # replacement)). ek < k"
      using 1(5) by (auto intro: less_trans)
    with less 1 show ?thesis
      using keys_merge_entries [of existing "(rk, rc) # replacement"] by auto
  next
    case same
    with 1 show ?thesis using keys_merge_entries [of existing replacement] by auto
  next
    case greater
    then have "\<forall>k \<in> set (map fst ((ek, ec) # existing)). rk < k"
      using 1(4) by (auto intro: less_trans)
    with greater 1 show ?thesis
      using keys_merge_entries [of "(ek, ec) # existing" replacement] by auto
  qed
qed simp_all

lemma map_of_merge_entries:
  "sorted_wrt (<) (map fst xs) \<Longrightarrow> sorted_wrt (<) (map fst ys) \<Longrightarrow>
   map_of (merge_entries xs ys) k = (case map_of ys k of Some v \<Rightarrow> Some v | None \<Rightarrow> map_of xs k)"
proof (induction xs ys rule: merge_entries.induct)
  case (1 ek ec existing rk rc replacement)
  have absent: "map_of zs k' = None" if "sorted_wrt (<) (map fst ((k'', v) # zs))" "k' \<le> k''"
    for zs :: "('a \<times> 'b) list" and k' k'' v
    using that by (auto simp: map_of_eq_None_iff)
  consider (less) "ek < rk" | (same) "ek = rk" | (greater) "rk < ek" by (rule linorder_cases)
  then show ?case
  proof cases
    case less
    then have "map_of ((rk, rc) # replacement) ek = None"
      using absent [OF 1(5), of ek] by auto
    with less 1 show ?thesis by (auto split: option.splits)
  next
    case same
    with 1 show ?thesis by (auto split: option.splits)
  next
    case greater
    with 1 show ?thesis by (auto split: option.splits)
  qed
qed (auto split: option.splits)

lemma merge_is_extend: "merge_entries (entries m) (entries r) = entries (bt_extend m r)"
proof (rule sorted_map_of_inject)
  show "map_of (merge_entries (entries m) (entries r)) = map_of (entries (bt_extend m r))"
    by (rule ext)
      (simp add: map_of_merge_entries bt.entries_sorted bt_get.rep_eq [symmetric] storage_simps
        cong: option.case_cong)
qed (simp_all add: sorted_merge_entries bt.entries_sorted)

lemma length_extend:
  "bt_len (bt_extend m r) = bt_len m + length (filter (\<lambda>k. \<not> bt_contains m k) (bt_keys r))"
proof -
  have len: "bt_len x = card (set (bt_keys x))" for x :: "('a, 'b) btree"
    by (simp add: bt_len_def bt_keys_def distinct_card [OF bt.entries_distinct, symmetric, simplified])
  have keys: "set (bt_keys (bt_extend m r)) = set (bt_keys m) \<union> set (bt_keys r)"
    unfolding bt_keys_def merge_is_extend [symmetric] by (rule keys_merge_entries)
  have "set (bt_keys m) \<union> set (bt_keys r) =
      set (bt_keys m) \<union> set (filter (\<lambda>k. \<not> bt_contains m k) (bt_keys r))"
    by (auto simp: bt_contains_iff)
  moreover have "set (bt_keys m) \<inter> set (filter (\<lambda>k. \<not> bt_contains m k) (bt_keys r)) = {}"
    by (auto simp: bt_contains_iff)
  ultimately have "bt_len (bt_extend m r) =
      card (set (bt_keys m)) + card (set (filter (\<lambda>k. \<not> bt_contains m k) (bt_keys r)))"
    by (simp add: len keys card_Un_disjoint)
  then show ?thesis
    using distinct_card [OF distinct_filter [OF distinct_bt_keys [of r]], of "\<lambda>k. \<not> bt_contains m k"]
    by (simp add: len)
qed

lemma projected_hash:
  "hash_projected_materialized_chunk_state sha world revision chunks replacements = Inr h \<Longrightarrow>
   hash_materialized_chunk_state sha world revision (bt_extend chunks replacements) = Inr h"
  by (auto simp: hash_projected_materialized_chunk_state_def hash_materialized_chunk_state_def
      Let_def result_simps checked_simps length_extend merge_is_extend)

text \<open>C27: the reference hash in the receipt of a new commit is the hash of the world it published:
  a snapshot of the world right after the commit has the receipt's revision and hash.\<close>

theorem receipt_hash_is_snapshot:
  assumes "storage_commit sha k t = (k', Inr receipt)" and "\<not> cor_replayed receipt"
  shows "\<exists>snapshot. reference_snapshot sha k' (wt_world t) = Inr snapshot \<and>
    rws_revision snapshot = cor_world_revision receipt \<and>
    rws_materialized_chunk_state_hash snapshot = cor_materialized_chunk_state_hash receipt"
  using assms(1)
proof (cases rule: storage_commit_cases)
  case (prepared pt result)
  define w where "w = current_world k (pt_world pt)"
  have world: "pt_world pt = wt_world t" by (rule prepared_okD(2) [OF prepared(2)])
  from prepared(4) obtain c where result: "result = Inr (ReferenceReceipt c)" "receipt = c"
    by (auto split: sum.splits committed_receipt.splits)
  from prepared(3) show ?thesis
  proof (cases rule: commit_prepared_cases)
    case (rejected e)
    with result show ?thesis by simp
  next
    case (replayed r)
    with result assms(2) show ?thesis
      by (auto simp: replay_receipt_def committed_receipt_of_def result_simps
          split: option.splits if_splits)
  next
    case (published locations mhash)
    then obtain h where h: "mhash = Some h"
      "hash_projected_materialized_chunk_state sha (pt_world pt) (mw_revision w + 1) (mw_chunks w)
         (foldl (\<lambda>m p. bt_insert (plan_key p) (staged_chunk (mw_revision w + 1) p) m)
           bt_empty (plans_for pt w)) = Inr h"
      by (auto simp: publishes_def Let_def w_def)
    from published have k': "k' = k\<lparr>mk_next_fault := None,
        mk_worlds := bt_insert (pt_world pt)
          (world_after (mk_limits k) pt w locations mhash) (mk_worlds k)\<rparr>"
      and res: "result = (if mk_next_fault k = Some AfterPublishBeforeReceipt
        then Inl (StorageFault AfterPublishBeforeReceipt)
        else committed_receipt_of (publication_for pt w) mhash ReferenceEvidence)"
      by (simp_all add: publishes_def Let_def w_def)
    have "receipt = \<lparr>cor_transaction_id = pt_id pt, cor_world = pt_world pt,
        cor_world_revision = mw_revision w + 1,
        cor_chunks = map (staged_receipt \<circ> plan_of w) (pt_mutations pt), cor_durability = Queued,
        cor_materialized_chunk_state_hash = h, cor_replayed = False\<rparr>"
      using res result h(1)
      by (auto simp: committed_receipt_of_def publication_for_def split: if_splits)
    moreover have "hash_materialized_chunk_state sha (pt_world pt) (mw_revision w + 1)
        (chunks_after pt w) = Inr h"
      using projected_hash [OF h(2)] by (simp add: chunks_after_def new_chunks_def)
    ultimately show ?thesis
      by (simp add: reference_snapshot_def k' bt.get_insert world [symmetric])
  qed
qed simp

lemma receipt_hash_is_snapshot_witness:
  "\<exists>k' receipt snapshot. storage_commit sample_sha empty_kernel create_transaction = (k', Inr receipt) \<and>
     reference_snapshot sample_sha k' 7 = Inr snapshot \<and>
     rws_materialized_chunk_state_hash snapshot = cor_materialized_chunk_state_hash receipt"
proof -
  have "case snd (storage_commit sample_sha empty_kernel create_transaction) of
      Inl e \<Rightarrow> False | Inr receipt \<Rightarrow> \<not> cor_replayed receipt" by code_simp
  then obtain receipt k' where "storage_commit sample_sha empty_kernel create_transaction = (k', Inr receipt)"
    "\<not> cor_replayed receipt" by (auto split: sum.splits) (metis prod.collapse)
  moreover have "wt_world create_transaction = 7" by (simp add: create_transaction_def)
  ultimately show ?thesis using receipt_hash_is_snapshot by metis
qed

subsection \<open>The payload meter\<close>

definition payload_size :: "versioned_payload \<Rightarrow> nat" where
  "payload_size p = 8 + length (vp_schema p) + 4 + 8 + length (vp_bytes p)"

definition data_size :: "chunk_data \<Rightarrow> nat" where
  "data_size d =
     payload_size (cd_voxels d) +
     (8 + (\<Sum>p \<leftarrow> bt_values (cd_persistent_entities d). 16 + payload_size p)) +
     (8 + (\<Sum>p \<leftarrow> bt_values (cd_continuations d). 16 + payload_size p)) +
     (8 + (\<Sum>k \<leftarrow> bt_keys (cd_provenance d). 8 + length k + 32))"

text \<open>A metered traversal that takes \<open>n\<close> bytes succeeds exactly when they fit.\<close>

definition takes :: "(payload_byte_meter \<Rightarrow> payload_byte_meter storage_result) \<Rightarrow> nat \<Rightarrow> bool" where
  "takes f n \<longleftrightarrow>
     (\<forall>m m'. pm_ceiling m \<le> u64_max \<longrightarrow> pm_measured m \<le> pm_ceiling m \<longrightarrow>
        (f m = Inr m' \<longleftrightarrow> pm_measured m + n \<le> pm_ceiling m \<and>
          m' = m\<lparr>pm_measured := pm_measured m + n\<rparr>))"

lemma takes_add: "takes (meter_add n what) n"
  by (auto simp: takes_def meter_add_def result_simps checked_simps)

lemma takes_len: "takes (meter_len n what) n"
  by (auto simp: takes_def meter_len_def usize_to_u64_def meter_add_def result_simps checked_simps)

lemma takes_then:
  assumes f: "takes f a" and g: "takes g b"
  shows "takes (\<lambda>m. and_then (f m) g) (a + b)"
  unfolding takes_def
proof (intro allI impI)
  fix m m' :: payload_byte_meter
  assume m: "pm_ceiling m \<le> u64_max" "pm_measured m \<le> pm_ceiling m"
  let ?m = "m\<lparr>pm_measured := pm_measured m + a\<rparr>"
  have fm: "f m = Inr m1 \<longleftrightarrow> pm_measured m + a \<le> pm_ceiling m \<and> m1 = ?m" for m1
    using f m by (simp add: takes_def)
  show "(and_then (f m) g = Inr m') = (pm_measured m + (a + b) \<le> pm_ceiling m \<and>
      m' = m\<lparr>pm_measured := pm_measured m + (a + b)\<rparr>)"
  proof (cases "pm_measured m + a \<le> pm_ceiling m")
    case True
    then have "and_then (f m) g = g ?m" using fm [of ?m] by simp
    moreover have "g ?m = Inr m' \<longleftrightarrow> pm_measured ?m + b \<le> pm_ceiling ?m \<and>
        m' = ?m\<lparr>pm_measured := pm_measured ?m + b\<rparr>"
      using g m True by (simp add: takes_def)
    ultimately show ?thesis by (simp add: add.assoc)
  next
    case False
    then have "and_then (f m) g \<noteq> Inr m'" by (auto simp: result_simps fm)
    with False show ?thesis by auto
  qed
qed

lemma takes_fold: "(\<And>x. takes (f x) (n x)) \<Longrightarrow> takes (try_fold f xs) (\<Sum>x \<leftarrow> xs. n x)"
proof (induction xs)
  case (Cons x xs)
  have "takes (\<lambda>m. and_then (f x m) (try_fold f xs)) (n x + (\<Sum>x \<leftarrow> xs. n x))"
    using Cons by (intro takes_then) auto
  then show ?case by (simp add: takes_def)
qed (auto simp: takes_def)

lemma takes_cong: "takes f a \<Longrightarrow> (\<And>m. f m = g m) \<Longrightarrow> a = b \<Longrightarrow> takes g b"
  by (simp add: takes_def)

lemma takes_payload: "takes (measure_payload p) (payload_size p)"
  by (rule takes_cong [OF takes_then [OF takes_then [OF takes_then [OF takes_then [OF takes_add
      takes_len] takes_add] takes_add] takes_len]])
    (auto simp: measure_payload_def payload_size_def and_then_assoc)

lemma takes_entry: "takes (measure_entry what p) (16 + payload_size p)"
  by (rule takes_cong [OF takes_then [OF takes_add takes_payload]]) (auto simp: measure_entry_def)

lemma takes_provenance: "takes (measure_provenance k) (8 + length k + 32)"
  by (rule takes_cong [OF takes_then [OF takes_then [OF takes_add takes_len] takes_add]])
    (auto simp: measure_provenance_def and_then_assoc)

lemma length_le_sum: "length xs \<le> (\<Sum>x \<leftarrow> xs. n x)" if "\<And>x. 0 < n x" for n :: "'a \<Rightarrow> nat"
proof (induction xs)
  case (Cons x xs)
  with that [of x] show ?case by simp
qed simp

lemma takes_data: "takes (measure_chunk_data d) (data_size d)"
proof -
  let ?counts = "bt_len (cd_persistent_entities d) \<le> u64_max \<and> bt_len (cd_continuations d) \<le> u64_max \<and>
    bt_len (cd_provenance d) \<le> u64_max"
  let ?plain = "\<lambda>m. and_then (measure_payload (cd_voxels d) m) (\<lambda>m.
     and_then (and_then (meter_add 8 ''persistent entity count'' m)
       (try_fold (measure_entry ''persistent entity ID'') (bt_values (cd_persistent_entities d)))) (\<lambda>m.
     and_then (and_then (meter_add 8 ''continuation count'' m)
       (try_fold (measure_entry ''continuation ID'') (bt_values (cd_continuations d)))) (\<lambda>m.
     and_then (meter_add 8 ''provenance count'' m)
       (try_fold measure_provenance (bt_keys (cd_provenance d))))))"
  have plain: "takes ?plain (data_size d)"
    by (rule takes_cong [OF takes_then [OF takes_payload takes_then [OF takes_then [OF takes_add
        takes_fold [of "measure_entry _", OF takes_entry]] takes_then [OF takes_then [OF takes_add
        takes_fold [of "measure_entry _", OF takes_entry]] takes_then [OF takes_add
        takes_fold [of measure_provenance, OF takes_provenance]]]]]])
      (auto simp: data_size_def)
  show ?thesis
  proof (cases ?counts)
    case True
    then have "measure_chunk_data d = ?plain"
      by (auto simp: fun_eq_iff measure_chunk_data_def usize_to_u64_def try_from_def and_then_assoc)
    with plain show ?thesis by simp
  next
    case False
    have sizes: "bt_len (cd_persistent_entities d) \<le> data_size d" "bt_len (cd_continuations d) \<le> data_size d"
      "bt_len (cd_provenance d) \<le> data_size d"
      using length_le_sum [of "\<lambda>p. 16 + payload_size p" "bt_values (cd_persistent_entities d)"]
        length_le_sum [of "\<lambda>p. 16 + payload_size p" "bt_values (cd_continuations d)"]
        length_le_sum [of "\<lambda>k. 8 + length k + 32" "bt_keys (cd_provenance d)"]
      by (simp_all add: data_size_def bt_len_def bt_values_def bt_keys_def)
    have "measure_chunk_data d m \<noteq> Inr m'" for m m'
      using False by (auto simp: measure_chunk_data_def result_simps usize_to_u64_def checked_simps)
    with False sizes show ?thesis by (auto simp: takes_def)
  qed
qed

lemma validate_payload_limit_iff:
  assumes "kl_max_payload_bytes_per_transaction limits \<le> u64_max"
  shows "validate_payload_limit t limits = Inr () \<longleftrightarrow>
    (\<Sum>m \<leftarrow> wt_mutations t. data_size (cm_data m)) \<le> kl_max_payload_bytes_per_transaction limits"
  using takes_fold [of "\<lambda>m. measure_chunk_data (cm_data m)" "\<lambda>m. data_size (cm_data m)"
      "wt_mutations t", OF takes_data] assms
  by (auto simp: validate_payload_limit_def result_simps takes_def meter_new_def)

subsection \<open>The metered size is the size of the encoding\<close>

lemma feed_length: "feed a b = Inr bs \<Longrightarrow>
    \<exists>xs ys. a = Inr xs \<and> b = Inr ys \<and> length bs = length xs + length ys"
  by (auto simp: feed_def result_simps)

lemma feed_all_length:
  "feed_all f xs = Inr bs \<Longrightarrow> (\<And>x b. x \<in> set xs \<Longrightarrow> f x = Inr b \<Longrightarrow> length b = n x) \<Longrightarrow>
   length bs = (\<Sum>x \<leftarrow> xs. n x)"
  by (induction xs arbitrary: bs) (auto simp: feed_def result_simps)

lemma dig_lengths:
  "dig_collection_len n what = Inr b \<Longrightarrow> length b = 8"
  "dig_bytes xs what = Inr b \<Longrightarrow> length b = 8 + length xs"
  by (auto simp: dig_bytes_def dig_collection_len_def feed_def result_simps checked_simps enc_u64_def)

lemma dig_payload_length: "dig_versioned_payload p = Inr b \<Longrightarrow> length b = payload_size p"
  by (auto simp: dig_versioned_payload_def feed_def result_simps payload_size_def enc_u32_def
      string_bytes_def dest!: dig_lengths)

lemma dig_entry_length: "dig_entry x = Inr b \<Longrightarrow> length b = 16 + payload_size (snd x)"
  by (auto simp: dig_entry_def feed_def result_simps id_bytes_def dest: dig_payload_length
      split: prod.splits)

lemma dig_provenance_length:
  "dig_provenance x = Inr b \<Longrightarrow> length (snd x) = 32 \<Longrightarrow> length b = 8 + length (fst x) + 32"
  by (auto simp: dig_provenance_def feed_def result_simps string_bytes_def dest!: dig_lengths
      split: prod.splits)

definition digests_typed :: "chunk_data \<Rightarrow> bool" where
  "digests_typed d \<longleftrightarrow> (\<forall>h \<in> set (bt_values (cd_provenance d)). length h = 32)"

lemma dig_chunk_data_length:
  assumes "dig_chunk_data d = Inr bs" and "digests_typed d"
  shows "length bs = data_size d + 4"
proof -
  have entry: "feed_all dig_entry (entries m) = Inr b \<Longrightarrow>
      length b = (\<Sum>p \<leftarrow> bt_values m. 16 + payload_size p)" for m b
    using feed_all_length [of dig_entry "entries m" b "\<lambda>x. 16 + payload_size (snd x)"]
    by (auto simp: bt_values_def comp_def dest: dig_entry_length)
  have prov: "feed_all dig_provenance (entries (cd_provenance d)) = Inr b \<Longrightarrow>
      length b = (\<Sum>k \<leftarrow> bt_keys (cd_provenance d). 8 + length k + 32)" for b
  proof -
      assume b: "feed_all dig_provenance (entries (cd_provenance d)) = Inr b"
      have "length c = 8 + length (fst x) + 32"
        if "x \<in> set (entries (cd_provenance d))" "dig_provenance x = Inr c" for x c
        using that assms(2) dig_provenance_length by (simp add: digests_typed_def bt_values_def)
      from feed_all_length [OF b this] show "length b = (\<Sum>k \<leftarrow> bt_keys (cd_provenance d). 8 + length k + 32)" by (simp add: bt_keys_def comp_def)
    qed
  from assms(1) obtain v ec e nc n pc p where
    "dig_versioned_payload (cd_voxels d) = Inr v"
    "dig_collection_len (bt_len (cd_persistent_entities d)) ''persistent entity count'' = Inr ec"
    "feed_all dig_entry (entries (cd_persistent_entities d)) = Inr e"
    "dig_collection_len (bt_len (cd_continuations d)) ''continuation count'' = Inr nc"
    "feed_all dig_entry (entries (cd_continuations d)) = Inr n"
    "dig_collection_len (bt_len (cd_provenance d)) ''provenance count'' = Inr pc"
    "feed_all dig_provenance (entries (cd_provenance d)) = Inr p"
    "bs = enc_u8 1 @ v @ enc_u8 2 @ ec @ e @ enc_u8 3 @ nc @ n @ enc_u8 4 @ pc @ p"
    unfolding dig_chunk_data_def feed_def by (auto simp: result_simps)
  then show ?thesis
    by (simp add: data_size_def dig_payload_length dig_lengths(1) entry prov enc_u8_def)
qed

text \<open>C34: the payload limit is exact. With 32-byte digests, \<open>validate_payload_limit\<close> accepts a
  transaction exactly when the bytes its chunk data contributes to the fingerprint, without the four
  section tags of each chunk, are at most the configured number; no overflow of the meter hides.\<close>

theorem payload_limit_exact:
  assumes "kl_max_payload_bytes_per_transaction limits \<le> u64_max"
    and "\<forall>m \<in> set (wt_mutations t). digests_typed (cm_data m) \<and> dig_chunk_data (cm_data m) = Inr (bytes m)"
  shows "validate_payload_limit t limits = Inr () \<longleftrightarrow>
    (\<Sum>m \<leftarrow> wt_mutations t. length (bytes m) - 4) \<le> kl_max_payload_bytes_per_transaction limits"
proof -
  have "length (bytes m) - 4 = data_size (cm_data m)" if "m \<in> set (wt_mutations t)" for m
    using dig_chunk_data_length assms(2) that by fastforce
  then have "(\<Sum>m \<leftarrow> wt_mutations t. length (bytes m) - 4) =
      (\<Sum>m \<leftarrow> wt_mutations t. data_size (cm_data m))"
    by (metis (mono_tags, lifting) map_eq_conv)
  then show ?thesis by (simp add: validate_payload_limit_iff [OF assms(1)])
qed

lemma payload_limit_exact_witness:
  "validate_payload_limit create_transaction small_limits = Inr () \<and>
   (\<Sum>m \<leftarrow> wt_mutations create_transaction. length (projr (dig_chunk_data (cm_data m))) - 4) \<le> 1000"
proof -
  have max: "kl_max_payload_bytes_per_transaction small_limits = 1000" by (simp add: small_limits_def)
  have bound: "kl_max_payload_bytes_per_transaction small_limits \<le> u64_max"
    unfolding max by (simp add: u64_max_def)
  have "list_all (\<lambda>m. list_all (\<lambda>h. length h = 32) (bt_values (cd_provenance (cm_data m))) \<and>
      is_ok (dig_chunk_data (cm_data m))) (wt_mutations create_transaction)" by code_simp
  then have typed: "\<forall>m \<in> set (wt_mutations create_transaction). digests_typed (cm_data m) \<and>
      dig_chunk_data (cm_data m) = Inr (projr (dig_chunk_data (cm_data m)))"
    by (auto simp: list_all_iff digests_typed_def is_ok_iff)
  have "is_ok (validate_payload_limit create_transaction small_limits)" by code_simp
  then have "validate_payload_limit create_transaction small_limits = Inr ()" by (auto simp: is_ok_iff)
  with payload_limit_exact [OF bound typed] max show ?thesis by simp
qed

subsection \<open>The order of mutations\<close>

lemma validate_keys_from_map:
  "map cm_key ms = map cm_key ms' \<Longrightarrow>
   validate_keys_from world previous ms = validate_keys_from world previous ms'"
proof (induction ms arbitrary: ms' previous)
  case (Cons m ms)
  then show ?case by (cases ms') auto
qed simp

lemma map_sort_key: "map f (sort_key f xs) = sort (map f xs)"
  by (rule properties_for_sort [symmetric]) simp_all

lemma sort_key_permutation:
  assumes "mset xs = mset ys" and "distinct (map f xs)"
  shows "sort_key f xs = sort_key f ys"
proof (rule sort_key_inj_key_eq)
  show "inj_on f (set xs)" using assms(2) by (simp add: distinct_map)
qed (use assms(1) in simp_all)

lemma validate_payload_limit_permuted:
  assumes "kl_max_payload_bytes_per_transaction limits \<le> u64_max" and "mset ms = mset (wt_mutations t)"
  shows "validate_payload_limit (t\<lparr>wt_mutations := ms\<rparr>) limits = Inr () \<longleftrightarrow>
    validate_payload_limit t limits = Inr ()"
proof -
  have "(\<Sum>m \<leftarrow> ms. data_size (cm_data m)) = (\<Sum>m \<leftarrow> wt_mutations t. data_size (cm_data m))"
    using assms(2) by (metis mset_map sum_mset_sum_list)
  then show ?thesis by (simp add: validate_payload_limit_iff [OF assms(1)])
qed

lemma oversized_rejected:
  assumes "validate_payload_limit t (mk_limits k) \<noteq> Inr ()"
  shows "\<exists>e. storage_publish sha k t = (k, Inl e) \<and> storage_commit sha k t = (k, Inl e)"
proof -
  have "validate_transaction sha t (mk_limits k) \<noteq> Inr pt" for pt
    using assms by (auto simp: validate_transaction_def and_then_Inr)
  then obtain e where "validate_transaction sha t (mk_limits k) = Inl e"
    by (metis sum.exhaust)
  then show ?thesis by (simp add: storage_publish_def storage_commit_def)
qed

lemma validate_transaction_permuted:
  assumes limit: "kl_max_payload_bytes_per_transaction limits \<le> u64_max"
    and perm: "mset ms = mset (wt_mutations t)"
    and payload: "validate_payload_limit t limits = Inr ()"
  shows "validate_transaction sha (t\<lparr>wt_mutations := ms\<rparr>) limits = validate_transaction sha t limits"
proof -
  let ?t = "t\<lparr>wt_mutations := ms\<rparr>"
  have len: "length ms = length (wt_mutations t)" using perm by (metis size_mset)
  have payload': "validate_payload_limit ?t limits = Inr ()"
    using payload validate_payload_limit_permuted [OF limit perm] by simp
  have count: "validate_count_limit ?t limits = validate_count_limit t limits"
    by (simp add: validate_count_limit_def len)
  have empty: "ms = [] \<longleftrightarrow> wt_mutations t = []" using len by (metis length_0_conv)
  have "map cm_key (sort_key cm_key ms) = map cm_key (sort_key cm_key (wt_mutations t))"
    unfolding map_sort_key using perm by (metis mset_map sorted_list_of_multiset_mset)
  then have keys: "validate_keys (?t\<lparr>wt_mutations := sort_key cm_key ms\<rparr>) =
      validate_keys (t\<lparr>wt_mutations := sort_key cm_key (wt_mutations t)\<rparr>)"
    by (simp add: validate_keys_def) (rule validate_keys_from_map)
  show ?thesis
  proof (cases "distinct (map cm_key ms)")
    case True
    have "sort_key cm_key ms = sort_key cm_key (wt_mutations t)"
      by (rule sort_key_permutation [OF perm True])
    then show ?thesis
      by (simp add: validate_transaction_def empty count payload payload')
  next
    case False
    have "mset (map cm_key ms) = mset (map cm_key (wt_mutations t))" using perm by simp
    with False have "\<not> distinct (map cm_key (wt_mutations t))"
      by (metis mset_eq_imp_distinct_iff)
    then have "validate_keys (t\<lparr>wt_mutations := sort_key cm_key (wt_mutations t)\<rparr>) \<noteq> Inr ()"
      by (simp add: storage_simps)
    then obtain e where "validate_keys (t\<lparr>wt_mutations := sort_key cm_key (wt_mutations t)\<rparr>) = Inl e"
      by (cases "validate_keys (t\<lparr>wt_mutations := sort_key cm_key (wt_mutations t)\<rparr>)") auto
    then show ?thesis
      using keys by (simp add: validate_transaction_def empty count payload payload')
  qed
qed

text \<open>C30: the order in which a transaction lists its mutations has no influence. When the payload
  is within its limit, listing the same mutations in another order gives the same kernel and the
  same answer, receipts, fingerprints and errors included, from \<open>publish\<close> and from \<open>commit\<close>; so a
  retry may permute them. When it is over the limit, every order is rejected and changes
  nothing, but the error may differ: it reports how far the meter came. (The limit is a \<open>u64\<close>.)\<close>

theorem mutation_order_irrelevant:
  assumes "kl_max_payload_bytes_per_transaction (mk_limits k) \<le> u64_max"
    and "mset ms = mset (wt_mutations t)"
  shows "if validate_payload_limit t (mk_limits k) = Inr ()
    then storage_publish sha k (t\<lparr>wt_mutations := ms\<rparr>) = storage_publish sha k t \<and>
      storage_commit sha k (t\<lparr>wt_mutations := ms\<rparr>) = storage_commit sha k t
    else (\<exists>e. storage_publish sha k t = (k, Inl e) \<and> storage_commit sha k t = (k, Inl e)) \<and>
      (\<exists>e. storage_publish sha k (t\<lparr>wt_mutations := ms\<rparr>) = (k, Inl e) \<and>
         storage_commit sha k (t\<lparr>wt_mutations := ms\<rparr>) = (k, Inl e))"
proof (cases "validate_payload_limit t (mk_limits k) = Inr ()")
  case True
  from validate_transaction_permuted [OF assms True] True
  show ?thesis by (simp add: storage_publish_def storage_commit_def)
next
  case False
  with validate_payload_limit_permuted [OF assms]
  have "validate_payload_limit (t\<lparr>wt_mutations := ms\<rparr>) (mk_limits k) \<noteq> Inr ()" by simp
  with False oversized_rejected show ?thesis by simp
qed

lemma mutation_order_irrelevant_witness:
  "storage_publish sample_sha empty_kernel
     (create_transaction\<lparr>wt_mutations := rev (wt_mutations create_transaction)\<rparr>) =
   storage_publish sample_sha empty_kernel create_transaction"
proof -
  have limits: "mk_limits empty_kernel = small_limits"
    by (simp add: empty_kernel_def with_limits_def)
  have "kl_max_payload_bytes_per_transaction small_limits \<le> u64_max"
    by (simp add: small_limits_def u64_max_def)
  moreover have "is_ok (validate_payload_limit create_transaction small_limits)" by code_simp
  ultimately show ?thesis
    using mutation_order_irrelevant [of empty_kernel "rev (wt_mutations create_transaction)"
        create_transaction sample_sha]
    by (auto simp: limits is_ok_iff)
qed

end
