(* ===== verification/Storage_Safety.thy ===== *)
theory Storage_Safety
  imports Storage_Spec
begin

section \<open>Faults, retries and the invariant\<close>

text \<open>
  The injected faults of the kernel interrupt a commit at four places; none of them leaves a
  part of a transaction behind. A transaction that was published, acknowledged or not, is never
  applied again, and within the receipt horizon its retry returns the first receipt.
\<close>

subsection \<open>Consistency of every reachable kernel\<close>

text \<open>C18: in every reachable kernel each chunk is stored under its own key in its own world, the
  entity index names for each entity exactly the chunk that holds it, and the receipt history is
  bounded and without gaps: the \<open>i\<close>-th retained identifier owns the receipt of the \<open>i\<close>-th of the
  latest revisions.\<close>

theorem reachable_world_ok:
  assumes "reachable_kernel sha k" and "bt_get (mk_worlds k) world = Some w"
  shows "(\<forall>key c. bt_get (mw_chunks w) key = Some c \<longrightarrow>
        sc_key c = key \<and> ck_world key = world \<and> sc_captured_world_revision c \<le> mw_revision w) \<and>
    (\<forall>e key. bt_get (mw_entity_locations w) e = Some key \<longleftrightarrow>
        (\<exists>c. bt_get (mw_chunks w) key = Some c \<and> bt_contains (cd_persistent_entities (sc_data c)) e)) \<and>
    history_ok (kl_max_retained_receipts_per_world (mk_limits k)) world w"
proof -
  have "world_ok (kl_max_retained_receipts_per_world (mk_limits k)) world w"
    using reachable_kernel_ok [OF assms(1)] assms(2) by (simp add: kernel_ok_def)
  then show ?thesis
    by (auto simp: world_ok_def chunks_ok_def index_ok_def entities_of_def)
qed

lemma created_world: "bt_get (mk_worlds created_kernel) 7 \<noteq> None"
  by code_simp

lemma reachable_world_ok_witness:
  "\<exists>w. bt_get (mk_worlds created_kernel) 7 = Some w \<and> history_ok 2 7 w"
proof -
  obtain w where w: "bt_get (mk_worlds created_kernel) 7 = Some w" using created_world by blast
  have "kl_max_retained_receipts_per_world (mk_limits created_kernel) = 2" by code_simp
  with reachable_world_ok [OF reachable_created w] w show ?thesis by simp
qed

subsection \<open>Internal errors\<close>

definition internal_error :: "storage_error \<Rightarrow> bool" where
  "internal_error e \<longleftrightarrow>
     (case e of ReceiptHistoryInvariant _ \<Rightarrow> True | EntityIndexInvariant _ _ \<Rightarrow> True | _ \<Rightarrow> False)"

lemma internal_error_simps [simp]:
  "internal_error (ReceiptHistoryInvariant w)" "internal_error (EntityIndexInvariant w e)"
  "\<not> internal_error EmptyTransaction" "\<not> internal_error (ChunkWorldMismatch w k)"
  "\<not> internal_error (DuplicateChunk k)" "\<not> internal_error (TransactionChunkLimitExceeded a b)"
  "\<not> internal_error (TransactionPayloadLimitExceeded a b)" "\<not> internal_error (PayloadSizeOverflow s)"
  "\<not> internal_error (WorldRevisionConflict w a b)" "\<not> internal_error (ChunkRevisionConflict k x y)"
  "\<not> internal_error (ChangedDomainsMismatch k d d')" "\<not> internal_error (NoopMutation k)"
  "\<not> internal_error (RevisionCounterOverflow c mk)" "\<not> internal_error (TransactionIdReuse w t)"
  "\<not> internal_error (ReferenceReceiptUnavailable w t)" "\<not> internal_error (RetryWindowClosed w t a b)"
  "\<not> internal_error (PersistentEntityCollision w e k k')" "\<not> internal_error (StorageFault f)"
  by (simp_all add: internal_error_def)

lemma feed_external: "feed a b = Inl e \<Longrightarrow> (a = Inl e \<Longrightarrow> \<not> internal_error e) \<Longrightarrow>
    (b = Inl e \<Longrightarrow> \<not> internal_error e) \<Longrightarrow> \<not> internal_error e"
  by (auto simp: feed_def result_simps)

lemma feed_all_external: "feed_all f xs = Inl e \<Longrightarrow> (\<And>x e. f x = Inl e \<Longrightarrow> \<not> internal_error e) \<Longrightarrow>
    \<not> internal_error e"
  by (induction xs) (auto simp: feed_def result_simps)

lemma dig_external:
  "dig_collection_len n what = Inl e \<Longrightarrow> \<not> internal_error e"
  "dig_bytes b what = Inl e \<Longrightarrow> \<not> internal_error e"
  by (auto simp: dig_bytes_def dig_collection_len_def feed_def result_simps)

lemma dig_payload_external: "dig_versioned_payload p = Inl e \<Longrightarrow> \<not> internal_error e"
  by (auto simp: dig_versioned_payload_def feed_def result_simps dig_external)

lemma dig_chunk_external:
  "dig_chunk_key key = Inl e \<Longrightarrow> \<not> internal_error e"
  "dig_entry entry = Inl e \<Longrightarrow> \<not> internal_error e"
  "dig_provenance prov = Inl e \<Longrightarrow> \<not> internal_error e"
  by (auto simp: dig_chunk_key_def dig_entry_def dig_provenance_def feed_def result_simps
      dig_external dig_payload_external split: prod.splits)

lemma dig_data_external: "dig_chunk_data d = Inl e \<Longrightarrow> \<not> internal_error e"
  unfolding dig_chunk_data_def
  by (erule feed_external, simp, (erule feed_external, fastforce dest: dig_payload_external
      dig_external feed_all_external dig_chunk_external)+)
    (auto dest: feed_all_external dig_chunk_external)

lemma dig_mutation_external: "dig_mutation m = Inl e \<Longrightarrow> \<not> internal_error e"
  by (auto simp: dig_mutation_def feed_def result_simps dig_chunk_external dig_data_external)

lemma hash_entry_external: "hash_chunk_entry x = Inl e \<Longrightarrow> \<not> internal_error e"
  by (auto simp: hash_chunk_entry_def feed_def result_simps dig_chunk_external dig_data_external
      split: prod.splits)

lemma hash_transaction_external: "hash_transaction sha t = Inl e \<Longrightarrow> \<not> internal_error e"
  by (auto simp: hash_transaction_def transaction_preimage_def feed_def result_simps dig_external
      dest: feed_all_external [OF _ dig_mutation_external])

lemma hash_projected_external:
  "hash_projected_materialized_chunk_state sha w r c x = Inl e \<Longrightarrow> \<not> internal_error e"
  by (auto simp: hash_projected_materialized_chunk_state_def Let_def feed_def result_simps dig_external
      dest: feed_all_external [OF _ hash_entry_external])

lemma meter_external:
  "meter_add b what m = Inl e \<Longrightarrow> \<not> internal_error e"
  "meter_len n what m = Inl e \<Longrightarrow> \<not> internal_error e"
  "usize_to_u64 n what = Inl e \<Longrightarrow> \<not> internal_error e"
  by (auto simp: meter_add_def meter_len_def usize_to_u64_def result_simps split: if_splits)

lemma try_fold_external:
  "try_fold f xs s = Inl e \<Longrightarrow> (\<And>x s e. f x s = Inl e \<Longrightarrow> \<not> internal_error e) \<Longrightarrow> \<not> internal_error e"
  by (induction xs arbitrary: s) (auto simp: result_simps)

lemma measure_external:
  "measure_payload p m = Inl e \<Longrightarrow> \<not> internal_error e"
  by (auto simp: measure_payload_def result_simps dest: meter_external)

lemma measure_entry_external:
  "measure_entry what p m = Inl e \<Longrightarrow> \<not> internal_error e"
  "measure_provenance key m = Inl e \<Longrightarrow> \<not> internal_error e"
  by (auto simp: measure_entry_def measure_provenance_def result_simps
      dest: meter_external measure_external)

lemma measure_data_external: "measure_chunk_data d m = Inl e \<Longrightarrow> \<not> internal_error e"
  unfolding measure_chunk_data_def and_then_Inl
  by (elim disjE exE conjE)
    (auto dest: meter_external measure_external try_fold_external [OF _ measure_entry_external(1)]
      try_fold_external [OF _ measure_entry_external(2)])

lemma validate_keys_external: "validate_keys_from w p ms = Inl e \<Longrightarrow> \<not> internal_error e"
  by (induction ms arbitrary: p) (auto split: if_splits)

lemma validate_external: "validate_transaction sha t limits = Inl e \<Longrightarrow> \<not> internal_error e"
  unfolding validate_transaction_def Let_def
  by (auto simp: result_simps validate_count_limit_def validate_payload_limit_def validate_keys_def
      split: if_splits dest: hash_transaction_external validate_keys_external
      try_fold_external [OF _ measure_data_external])

lemma prepare_external: "prepare_mutation_plans w ms = Inl e \<Longrightarrow> \<not> internal_error e"
proof (induction ms)
  case (Cons m ms)
  have ensure: "ensure_chunk_revision c m = Inl e \<Longrightarrow> \<not> internal_error e" for c
    by (auto simp: ensure_chunk_revision_def Let_def split: if_splits chunk_revision_expectation.splits)
  have domain: "next_domain_revision d counter r changed key = Inl e \<Longrightarrow> \<not> internal_error e"
    for d counter r changed key
    by (auto simp: next_domain_revision_def result_simps split: if_splits)
  have "prepare_mutation_plan w m = Inl e \<Longrightarrow> \<not> internal_error e"
    unfolding prepare_mutation_plan_def Let_def
    by (auto simp: result_simps next_chunk_revision_def next_domain_revisions_def
        split: if_splits dest: ensure domain)
  with Cons show ?case by (auto simp: result_simps)
qed simp

lemma list_external: "try_fold list_plan ps l = Inl e \<Longrightarrow> \<not> internal_error e"
proof -
  have one: "list_entity key x l = Inl e \<Longrightarrow> \<not> internal_error e" for key x l e
    by (auto simp: list_entity_def split: option.splits if_splits)
  have "list_plan p l = Inl e \<Longrightarrow> \<not> internal_error e" for p l e
    unfolding list_plan_def by (erule try_fold_external) (rule one)
  then show "try_fold list_plan ps l = Inl e \<Longrightarrow> \<not> internal_error e"
    by (blast dest: try_fold_external)
qed

lemma project_external:
  assumes "index_ok w" "distinct (map plan_key ps)" "project_entity_locations w ps = Inl e"
  shows "\<not> internal_error e"
proof -
  obtain l where "try_fold (unlist_plan w) ps (mw_entity_locations w) = Inr l"
    using project_unlisted [OF assms(1,2)] by blast
  with assms(3) list_external show ?thesis by (simp add: project_entity_locations_def)
qed

lemma ensure_retry_external:
  assumes "history_ok maximum world w" "ensure_retry_not_expired w pt = Inl e"
  shows "\<not> internal_error e"
proof (cases "mw_receipt_order w")
  case Nil
  with assms(2) show ?thesis by (auto simp: ensure_retry_not_expired_def split: if_splits)
next
  case (Cons oldest order)
  then have len: "0 < length (mw_receipt_order w)" by simp
  with assms(1) obtain r where r: "receipt_at w oldest = Some r"
    "pr_world_revision r + length (mw_receipt_order w) = mw_revision w + 0 + 1"
    unfolding history_ok_def by (metis Cons nth_Cons_0)
  from assms(1) have "length (mw_receipt_order w) \<le> mw_revision w" by (simp add: history_ok_def)
  with r(2) have "1 \<le> pr_world_revision r" by linarith
  with r(1) Cons assms(2) show ?thesis
    by (auto simp: ensure_retry_not_expired_def receipt_at_def checked_sub_def result_simps
        split: if_splits)
qed

lemma decide_external:
  assumes ok: "world_ok maximum world w" and keys: "distinct (map cm_key (pt_mutations pt))"
    and e: "decide_commit w pt evidence = Inl e"
  shows "\<not> internal_error e"
proof -
  have index: "index_ok w" and history: "history_ok maximum world w"
    using ok by (simp_all add: world_ok_def)
  have replay: "replay_receipt w pt evidence = Inl e \<Longrightarrow> \<not> internal_error e" for e
    by (auto simp: replay_receipt_def committed_receipt_of_def result_simps
        split: option.splits if_splits commit_evidence.splits)
  have revision: "ensure_world_revision w pt = Inl e \<Longrightarrow> \<not> internal_error e"
    "next_world_revision r = Inl e \<Longrightarrow> \<not> internal_error e" for e r
    by (auto simp: ensure_world_revision_def next_world_revision_def result_simps split: if_splits)
  have plans: "project_entity_locations w ps = Inl e \<Longrightarrow> \<not> internal_error e"
    if "prepare_mutation_plans w (pt_mutations pt) = Inr ps" for ps e
    by (rule project_external [OF index]) (use that keys in \<open>simp_all add: storage_simps comp_def\<close>)
  from e show ?thesis
    unfolding decide_commit_def
    by (auto simp: result_simps split: option.splits dest: replay revision prepare_external
        ensure_retry_external [OF history] plans)
qed

lemma stage_external:
  assumes "stage_commit sha w pt evidence fault revision plans = Inl e"
  shows "\<not> internal_error e"
proof -
  have fail: "fail_if fault point = Inl e \<Longrightarrow> \<not> internal_error e" for fault point e
    by (auto simp: fail_if_def split: if_splits)
  have stage: "stage_plans r fault i ps st = Inl e \<Longrightarrow> \<not> internal_error e" for r i ps st e
    by (induction ps arbitrary: i st)
      (auto simp: result_simps Let_def fail_if_def split: if_splits prod.splits)
  from assms show ?thesis
    unfolding stage_commit_def
    by (cases evidence)
      (auto simp: result_simps Let_def split: prod.splits dest: fail stage hash_projected_external)
qed

lemma commit_prepared_external:
  assumes ok: "kernel_ok k" and prepared: "prepared_ok (mk_limits k) t pt"
    and step: "commit_prepared sha k pt evidence = (k', Inl e)"
  shows "\<not> internal_error e"
proof -
  note world = kernel_ok_current [OF ok, of "pt_world pt"]
  have keys: "distinct (map cm_key (pt_mutations pt))" by (rule prepared_okD(6) [OF prepared])
  have receipt: "committed_receipt_of p h evidence = Inl e \<Longrightarrow> \<not> internal_error e" for p h e
    by (auto simp: committed_receipt_of_def result_simps split: commit_evidence.splits)
  have fail: "fail_if fault point = Inl e \<Longrightarrow> \<not> internal_error e" for fault point e
    by (auto simp: fail_if_def split: if_splits)
  have decided: "\<And>e. decide_commit (current_world k (pt_world pt)) pt evidence = Inl e \<Longrightarrow>
      \<not> internal_error e" by (rule decide_external [OF world keys])
  show ?thesis
    using step decided unfolding commit_prepared_def Let_def
    by (auto simp: result_simps split: sum.splits prod.splits commit_decision.splits
        dest: stage_external receipt fail)
qed

lemma commit_prepared_kind:
  assumes "commit_prepared sha k pt evidence = (k', Inr receipt)"
  shows "case evidence of PublicationEvidence \<Rightarrow> \<exists>p. receipt = PublicationReceipt p
    | ReferenceEvidence \<Rightarrow> \<exists>c. receipt = ReferenceReceipt c"
proof -
  have kind: "committed_receipt_of p h evidence = Inr receipt \<Longrightarrow>
      (case evidence of PublicationEvidence \<Rightarrow> \<exists>p. receipt = PublicationReceipt p
       | ReferenceEvidence \<Rightarrow> \<exists>c. receipt = ReferenceReceipt c)" for p h
    by (auto simp: committed_receipt_of_def result_simps split: commit_evidence.splits)
  from assms show ?thesis
  proof (cases rule: commit_prepared_cases)
    case (replayed r)
    then show ?thesis by (auto simp: replay_receipt_def result_simps kind split: option.splits if_splits)
  next
    case (published locations mhash)
    then show ?thesis by (auto simp: publishes_def Let_def kind split: if_splits)
  qed auto
qed

text \<open>C28: the errors that would mean a corrupted kernel (the receipt history or the entity index
  contradicts itself, or the receipt is of the wrong kind) are never returned by a reachable
  kernel, whatever the transaction and the armed fault.\<close>

theorem internal_errors_unreachable:
  assumes "reachable_kernel sha k"
  shows "snd (storage_commit sha k t) \<noteq> Inl (ReceiptHistoryInvariant world) \<and>
    snd (storage_commit sha k t) \<noteq> Inl (EntityIndexInvariant world e) \<and>
    snd (storage_publish sha k t) \<noteq> Inl (ReceiptHistoryInvariant world) \<and>
    snd (storage_publish sha k t) \<noteq> Inl (EntityIndexInvariant world e)"
proof -
  note ok = reachable_kernel_ok [OF assms]
  have "\<not> internal_error x" if c: "storage_commit sha k t = (k', Inl x)" for k' x
    using c
  proof (cases rule: storage_commit_cases)
    case (prepared pt result)
    then show ?thesis
      using commit_prepared_external [OF ok prepared(2)]
      by (auto dest: commit_prepared_kind split: sum.splits committed_receipt.splits)
  qed (auto dest: validate_external)
  moreover have "\<not> internal_error x" if c: "storage_publish sha k t = (k', Inl x)" for k' x
    using c
  proof (cases rule: storage_publish_cases)
    case (prepared pt result)
    then show ?thesis
      using commit_prepared_external [OF ok prepared(2)]
      by (auto dest: commit_prepared_kind split: sum.splits committed_receipt.splits)
  qed (auto dest: validate_external)
  ultimately show ?thesis
    by (metis internal_error_simps(1,2) prod.collapse)
qed

lemma internal_errors_unreachable_witness:
  "snd (storage_publish sample_sha created_kernel create_transaction) \<noteq> Inl (ReceiptHistoryInvariant 7)"
  using internal_errors_unreachable [OF reachable_created] by blast

end
