(* ===== verification/Storage_Retry.thy ===== *)
theory Storage_Retry
  imports Storage_Safety
begin

section \<open>Atomic publication and retries\<close>

text \<open>
  A commit under any fault is nothing or the commit without the fault; a published
  transaction is never applied twice, and while the horizon lasts its retry finds the receipt.
\<close>

subsection \<open>Faults\<close>

lemma committed_receipt_defined:
  "publishes sha k pt evidence k' result locations mhash \<Longrightarrow>
   \<exists>receipt. committed_receipt_of (publication_for pt (current_world k (pt_world pt))) mhash evidence =
     Inr receipt \<and>
     (case receipt of PublicationReceipt p \<Rightarrow> p = publication_for pt (current_world k (pt_world pt))
      | ReferenceReceipt c \<Rightarrow> publication_of c = publication_for pt (current_world k (pt_world pt)))"
  by (cases evidence) (auto simp: publishes_def Let_def committed_receipt_of_def publication_of_def)

lemma publishes_without_fault:
  assumes "publishes sha k pt evidence k' result locations mhash"
  shows "commit_prepared sha (k\<lparr>mk_next_fault := None\<rparr>) pt evidence =
    (k', committed_receipt_of (publication_for pt (current_world k (pt_world pt))) mhash evidence)"
proof -
  define w where "w = current_world k (pt_world pt)"
  have w': "current_world (k\<lparr>mk_next_fault := None\<rparr>) (pt_world pt) = w"
    by (simp add: w_def current_world_def)
  have facts: "admitted pt w" "project_entity_locations w (plans_for pt w) = Inr locations"
    "k' = k\<lparr>mk_next_fault := None,
        mk_worlds := bt_insert (pt_world pt)
          (world_after (mk_limits k) pt w locations mhash) (mk_worlds k)\<rparr>"
    using assms by (simp_all add: publishes_def Let_def w_def)
  have decide: "decide_commit w pt evidence =
      Inr (Admitted (mw_revision w + 1) (plans_for pt w) locations)"
    using facts by (simp only: decide_commit_Admitted)
  have stage: "stage_commit sha w pt evidence None (mw_revision w + 1) (plans_for pt w) =
      Inr (foldl (\<lambda>m p. bt_insert (plan_key p) (staged_chunk (mw_revision w + 1) p) m)
        bt_empty (plans_for pt w), publication_for pt w, mhash)"
    using assms unfolding stage_commit_Inr
    by (cases evidence) (auto simp: publishes_def Let_def w_def)
  show ?thesis
    using decide stage
    by (simp add: commit_prepared_def Let_def w' fail_if_def facts(3) w_def [symmetric]
        world_after_def publish_world_def chunks_after_def new_chunks_def)
qed

lemma commit_prepared_all_or_nothing:
  assumes "commit_prepared sha k pt evidence = (k', result)"
  shows "mk_worlds k' = mk_worlds k \<or>
    (\<exists>receipt. commit_prepared sha (k\<lparr>mk_next_fault := None\<rparr>) pt evidence = (k', Inr receipt) \<and>
      (case receipt of PublicationReceipt p \<Rightarrow> \<not> pr_replayed p | ReferenceReceipt c \<Rightarrow> \<not> cor_replayed c) \<and>
      result = (if mk_next_fault k = Some AfterPublishBeforeReceipt
        then Inl (StorageFault AfterPublishBeforeReceipt) else Inr receipt))"
  using assms
proof (cases rule: commit_prepared_cases)
  case (published locations mhash)
  let ?p = "publication_for pt (current_world k (pt_world pt))"
  obtain receipt where receipt: "committed_receipt_of ?p mhash evidence = Inr receipt"
    and kind: "case receipt of PublicationReceipt p \<Rightarrow> p = ?p | ReferenceReceipt c \<Rightarrow> publication_of c = ?p"
    using committed_receipt_defined [OF published] by blast
  have "case receipt of PublicationReceipt p \<Rightarrow> \<not> pr_replayed p | ReferenceReceipt c \<Rightarrow> \<not> cor_replayed c"
    using kind by (auto simp: publication_of_def publication_for_def split: committed_receipt.splits)
  moreover have "result = (if mk_next_fault k = Some AfterPublishBeforeReceipt
        then Inl (StorageFault AfterPublishBeforeReceipt) else Inr receipt)"
    using published receipt by (simp add: publishes_def Let_def)
  ultimately show ?thesis
    using publishes_without_fault [OF published] receipt by auto
qed auto

lemma commit_step_all_or_nothing:
  assumes "storage_commit sha k t = (k', r)"
  shows "mk_worlds k' = mk_worlds k \<or>
    (\<exists>receipt. storage_commit sha (k\<lparr>mk_next_fault := None\<rparr>) t = (k', Inr receipt) \<and>
      \<not> cor_replayed receipt \<and>
      r = (if mk_next_fault k = Some AfterPublishBeforeReceipt
        then Inl (StorageFault AfterPublishBeforeReceipt) else Inr receipt))"
  using assms
proof (cases rule: storage_commit_cases)
  case (prepared pt result)
  from commit_prepared_all_or_nothing [OF prepared(3)] show ?thesis
  proof (elim disjE exE conjE)
    fix receipt
    assume step: "commit_prepared sha (k\<lparr>mk_next_fault := None\<rparr>) pt ReferenceEvidence = (k', Inr receipt)"
      and new: "case receipt of PublicationReceipt p \<Rightarrow> \<not> pr_replayed p | ReferenceReceipt c \<Rightarrow> \<not> cor_replayed c"
      and result: "result = (if mk_next_fault k = Some AfterPublishBeforeReceipt
        then Inl (StorageFault AfterPublishBeforeReceipt) else Inr receipt)"
    from commit_prepared_kind [OF step] obtain p where "receipt = ReferenceReceipt p" by auto
    with step new result prepared(1,4) show ?thesis
      by (simp add: storage_commit_def)
  qed simp
qed simp

lemma publish_step_all_or_nothing:
  assumes "storage_publish sha k t = (k', r)"
  shows "mk_worlds k' = mk_worlds k \<or>
    (\<exists>receipt. storage_publish sha (k\<lparr>mk_next_fault := None\<rparr>) t = (k', Inr receipt) \<and>
      \<not> pr_replayed receipt \<and>
      r = (if mk_next_fault k = Some AfterPublishBeforeReceipt
        then Inl (StorageFault AfterPublishBeforeReceipt) else Inr receipt))"
  using assms
proof (cases rule: storage_publish_cases)
  case (prepared pt result)
  from commit_prepared_all_or_nothing [OF prepared(3)] show ?thesis
  proof (elim disjE exE conjE)
    fix receipt
    assume step: "commit_prepared sha (k\<lparr>mk_next_fault := None\<rparr>) pt PublicationEvidence = (k', Inr receipt)"
      and new: "case receipt of PublicationReceipt p \<Rightarrow> \<not> pr_replayed p | ReferenceReceipt c \<Rightarrow> \<not> cor_replayed c"
      and result: "result = (if mk_next_fault k = Some AfterPublishBeforeReceipt
        then Inl (StorageFault AfterPublishBeforeReceipt) else Inr receipt)"
    from commit_prepared_kind [OF step] obtain p where "receipt = PublicationReceipt p" by auto
    with step new result prepared(1,4) show ?thesis
      by (simp add: storage_publish_def)
  qed simp
qed simp

text \<open>C4: whatever fault is armed, \<open>commit\<close> and \<open>publish\<close> either leave every world as it was, or they
  do exactly what they do without the fault, and that succeeds; then the answer is the new receipt,
  or the loss of the acknowledgement when that fault was armed.\<close>

theorem commit_all_or_nothing:
  "(mk_worlds (fst (storage_commit sha k t)) = mk_worlds k \<or>
     (\<exists>receipt. storage_commit sha (k\<lparr>mk_next_fault := None\<rparr>) t =
         (fst (storage_commit sha k t), Inr receipt) \<and> \<not> cor_replayed receipt \<and>
       snd (storage_commit sha k t) = (if mk_next_fault k = Some AfterPublishBeforeReceipt
         then Inl (StorageFault AfterPublishBeforeReceipt) else Inr receipt))) \<and>
   (mk_worlds (fst (storage_publish sha k t)) = mk_worlds k \<or>
     (\<exists>receipt. storage_publish sha (k\<lparr>mk_next_fault := None\<rparr>) t =
         (fst (storage_publish sha k t), Inr receipt) \<and> \<not> pr_replayed receipt \<and>
       snd (storage_publish sha k t) = (if mk_next_fault k = Some AfterPublishBeforeReceipt
         then Inl (StorageFault AfterPublishBeforeReceipt) else Inr receipt)))"
  using commit_step_all_or_nothing [OF prod.collapse [symmetric]]
    publish_step_all_or_nothing [OF prod.collapse [symmetric]] by blast

subsection \<open>Worlds along a run\<close>

definition same_history :: "memory_world \<Rightarrow> memory_world \<Rightarrow> bool" where
  "same_history w w' \<longleftrightarrow> mw_revision w' = mw_revision w \<and>
     mw_committed_transactions w' = mw_committed_transactions w"

definition advances :: "kernel_limits \<Rightarrow> world_id \<Rightarrow> memory_world \<Rightarrow> memory_world \<Rightarrow> bool" where
  "advances limits world w w' \<longleftrightarrow>
     (\<exists>pt locations mhash. pt_world pt = world \<and> admitted pt w \<and>
        w' = world_after limits pt w locations mhash)"

lemma current_world_put [simp]:
  "current_world (k\<lparr>mk_worlds := bt_insert world w (mk_worlds k)\<rparr>) world' =
     (if world' = world then w else current_world k world')"
  "current_world (k\<lparr>mk_next_fault := f, mk_worlds := bt_insert world w (mk_worlds k)\<rparr>) world' =
     (if world' = world then w else current_world k world')"
  by (simp_all add: current_world_def bt.get_insert)

lemma commit_prepared_world:
  assumes "commit_prepared sha k pt evidence = (k', result)"
  shows "mk_limits k' = mk_limits k \<and>
    (same_history (current_world k world) (current_world k' world) \<or>
     advances (mk_limits k) world (current_world k world) (current_world k' world))"
  using assms
proof (cases rule: commit_prepared_cases)
  case (rejected e)
  then show ?thesis by (auto simp: same_history_def current_world_def)
next
  case (replayed receipt)
  then show ?thesis by (simp add: same_history_def)
next
  case (published locations mhash)
  then show ?thesis
    by (cases "world = pt_world pt")
      (auto simp: publishes_def Let_def same_history_def advances_def)
qed

lemma kernel_step_world:
  assumes "kernel_step sha k k'"
  shows "mk_limits k' = mk_limits k \<and>
    (same_history (current_world k world) (current_world k' world) \<or>
     advances (mk_limits k) world (current_world k world) (current_world k' world))"
  using assms
proof cases
  case (committed t r)
  then show ?thesis
  proof (cases rule: storage_commit_cases)
    case (prepared pt result)
    from commit_prepared_world [OF prepared(3)] show ?thesis .
  qed (simp add: same_history_def)
next
  case (published t r)
  then show ?thesis
  proof (cases rule: storage_publish_cases)
    case (prepared pt result)
    from commit_prepared_world [OF prepared(3)] show ?thesis .
  qed (simp add: same_history_def)
next
  case (released key revision b)
  then show ?thesis
    by (auto simp: release_persisted_copy_def Let_def same_history_def current_world_def bt.get_insert
        split: option.splits if_splits)
next
  case (armed point r)
  then show ?thesis
    by (auto simp: inject_fault_once_def same_history_def current_world_def split: if_splits)
qed

lemma kernel_run_limits: "kernel_run sha k k' \<Longrightarrow> mk_limits k' = mk_limits k"
  by (induction rule: kernel_run.induct) (auto dest: kernel_step_world)

lemma kernel_run_revision:
  "kernel_run sha k k' \<Longrightarrow> mw_revision (current_world k world) \<le> mw_revision (current_world k' world)"
proof (induction rule: kernel_run.induct)
  case (step k k' k'')
  from kernel_step_world [OF step(2), of world] step.IH show ?case
    by (auto simp: same_history_def advances_def)
qed simp

text \<open>A receipt leaves the history only when enough later revisions push it out.\<close>

lemma retained_step:
  assumes ok: "history_ok maximum world w" and max: "0 < maximum"
    and entry: "bt_get (mw_committed_transactions w) tid = Some ct"
    and w': "w' = world_after limits pt w locations mhash"
      "maximum = kl_max_retained_receipts_per_world limits"
    and adm: "admitted pt w"
    and near: "mw_revision w' < pr_world_revision (ct_publication ct) + maximum"
  shows "bt_get (mw_committed_transactions w') tid = Some ct"
proof -
  let ?order = "mw_receipt_order w"
  have other: "tid \<noteq> pt_id pt" using entry adm by (auto simp: admitted_def)
  have len: "length ?order \<le> maximum" using ok by (simp add: history_ok_def)
  show ?thesis
  proof (cases "length ?order < maximum")
    case True
    with other entry show ?thesis
      by (simp add: w' world_after_def retain_receipt_def Let_def expire_room bt.get_insert)
  next
    case False
    with len max obtain x xs where order: "?order = x # xs" and full: "length ?order = maximum"
      by (cases ?order) auto
    obtain r where r: "receipt_at w x = Some r"
      "pr_world_revision r + length ?order = mw_revision w + 0 + 1"
      using ok max full order unfolding history_ok_def by (metis nth_Cons_0)
    have "x \<noteq> tid"
    proof
      assume "x = tid"
      with r(1) entry have "r = ct_publication ct" by (simp add: receipt_at_def)
      with r(2) near full show False by (simp add: w')
    qed
    with other entry show ?thesis
      using expire_full [of x "xs @ [pt_id pt]" maximum] full
      by (simp add: w' world_after_def retain_receipt_def Let_def order bt.get_insert bt.get_remove)
  qed
qed

lemma kernel_run_retained:
  assumes "kernel_run sha k k'" "kernel_ok k"
    and "bt_get (mw_committed_transactions (current_world k world)) tid = Some ct"
    and "mw_revision (current_world k' world) <
      pr_world_revision (ct_publication ct) + kl_max_retained_receipts_per_world (mk_limits k)"
  shows "bt_get (mw_committed_transactions (current_world k' world)) tid = Some ct"
  using assms
proof (induction rule: kernel_run.induct)
  case (step k k' k'')
  let ?max = "kl_max_retained_receipts_per_world (mk_limits k)"
  note ok' = kernel_run_ok [OF step(1,4)] and limits = kernel_run_limits [OF step(1)]
  have history: "history_ok ?max world (current_world k' world)"
    using kernel_ok_current [OF ok'] by (simp add: limits world_ok_def)
  have max: "0 < ?max" using step(4) by (simp add: kernel_ok_def)
  have mono: "mw_revision (current_world k' world) \<le> mw_revision (current_world k'' world)"
    by (rule kernel_run_revision [OF kernel_run.step [OF kernel_run.start step(2)]])
  have kept: "bt_get (mw_committed_transactions (current_world k' world)) tid = Some ct"
    using step.IH step(4,5,6) mono by simp
  from kernel_step_world [OF step(2), of world] show ?case
  proof (elim conjE disjE)
    assume "same_history (current_world k' world) (current_world k'' world)"
    with kept show ?thesis by (simp add: same_history_def)
  next
    assume "advances (mk_limits k') world (current_world k' world) (current_world k'' world)"
    then obtain pt locations mhash where adv: "admitted pt (current_world k' world)"
      "current_world k'' world = world_after (mk_limits k') pt (current_world k' world) locations mhash"
      by (auto simp: advances_def)
    show ?thesis
      by (rule retained_step [OF history max kept adv(2) _ adv(1) step(6)]) (simp add: limits)
  qed
qed simp

subsection \<open>Exactly once\<close>

lemma world_frontier_current: "world_frontier k world = mw_revision (current_world k world)"
  by (simp add: world_frontier_def current_world_def memory_world_default_def split: option.split)

text \<open>What a step that changed a world tells about its transaction.\<close>

lemma changed_publishes:
  assumes "commit_prepared sha k pt evidence = (k', result)" "mk_worlds k' \<noteq> mk_worlds k"
  obtains locations mhash where "publishes sha k pt evidence k' result locations mhash"
  using assms by (cases rule: commit_prepared_cases) auto

lemma published_base:
  assumes "commit_prepared sha k pt evidence = (k', result)" "mk_worlds k' \<noteq> mk_worlds k"
  shows "world_frontier k (pt_world pt) = pt_base_world_revision pt \<and>
    world_frontier k' (pt_world pt) = pt_base_world_revision pt + 1"
proof -
  obtain locations mhash where "publishes sha k pt evidence k' result locations mhash"
    by (rule changed_publishes [OF assms])
  then show ?thesis
    by (auto simp: publishes_def Let_def admitted_def world_frontier_current)
qed

lemma storage_published_base:
  assumes "storage_publish sha k t = (k', r) \<or> storage_commit sha k t = (k', r')"
    and "mk_worlds k' \<noteq> mk_worlds k"
  shows "world_frontier k (wt_world t) = wt_base_world_revision t \<and>
    world_frontier k' (wt_world t) = wt_base_world_revision t + 1"
  using assms(1)
proof
  assume "storage_publish sha k t = (k', r)"
  then show ?thesis
  proof (cases rule: storage_publish_cases)
    case (prepared pt result)
    from published_base [OF prepared(3) assms(2)] prepared_okD(2,3) [OF prepared(2)]
    show ?thesis by simp
  qed (use assms(2) in simp)
next
  assume "storage_commit sha k t = (k', r')"
  then show ?thesis
  proof (cases rule: storage_commit_cases)
    case (prepared pt result)
    from published_base [OF prepared(3) assms(2)] prepared_okD(2,3) [OF prepared(2)]
    show ?thesis by simp
  qed (use assms(2) in simp)
qed

text \<open>The acknowledgement of the second transaction gets lost.\<close>

definition armed_kernel :: memory_kernel where
  "armed_kernel = fst (inject_fault_once created_kernel AfterPublishBeforeReceipt)"

definition lost_kernel :: memory_kernel where
  "lost_kernel = fst (storage_publish sample_sha armed_kernel move_transaction)"

lemma reachable_armed: "reachable_kernel sample_sha armed_kernel"
  unfolding armed_kernel_def
  by (rule reachable_step [OF reachable_created kernel_step.armed [OF prod.collapse [symmetric]]])

lemma armed_publish:
  "storage_publish sample_sha armed_kernel move_transaction =
     (lost_kernel, snd (storage_publish sample_sha armed_kernel move_transaction))"
  by (simp add: lost_kernel_def)

lemma lost_frontiers: "world_frontier armed_kernel 7 = 1" "world_frontier lost_kernel 7 = 2"
  "kl_max_retained_receipts_per_world (mk_limits armed_kernel) = 2"
  by code_simp+

lemma lost_changed: "mk_worlds lost_kernel \<noteq> mk_worlds armed_kernel"
  using lost_frontiers by (auto simp: world_frontier_def)

lemma move_world: "wt_world move_transaction = 7"
  by (simp add: move_transaction_def)

text \<open>C5: a transaction that changed a world, by \<open>publish\<close> or \<open>commit\<close>, acknowledged or not, is
  never applied again: after any further operations, submitting it once more through either entry
  point changes no world, also when its receipt has long expired.\<close>

theorem published_once:
  assumes "storage_publish sha k t = (k1, r) \<or> storage_commit sha k t = (k1, r')"
    and "mk_worlds k1 \<noteq> mk_worlds k" and "kernel_run sha k1 k2"
  shows "mk_worlds (fst (storage_publish sha k2 t)) = mk_worlds k2 \<and>
    mk_worlds (fst (storage_commit sha k2 t)) = mk_worlds k2"
proof -
  from storage_published_base [OF assms(1,2)]
  have "wt_base_world_revision t < world_frontier k1 (wt_world t)" by simp
  also have "\<dots> \<le> world_frontier k2 (wt_world t)"
    unfolding world_frontier_current by (rule kernel_run_revision [OF assms(3)])
  finally have late: "world_frontier k2 (wt_world t) \<noteq> wt_base_world_revision t" by simp
  have "mk_worlds k3 = mk_worlds k2"
    if "storage_publish sha k2 t = (k3, s) \<or> storage_commit sha k2 t = (k3, s')" for k3 s s'
    using storage_published_base [OF that] late by blast
  then show ?thesis by (metis prod.collapse)
qed

lemma published_once_witness:
  "mk_worlds (fst (storage_commit sample_sha lost_kernel move_transaction)) = mk_worlds lost_kernel"
  using published_once [OF disjI1 [OF armed_publish] lost_changed kernel_run.start] by blast

lemma published_retry:
  assumes "reachable_kernel sha k" and "storage_publish sha k t = (k1, r)"
    and "mk_worlds k1 \<noteq> mk_worlds k" and "kernel_run sha k1 k2"
    and "world_frontier k2 (wt_world t) <
      world_frontier k1 (wt_world t) + kl_max_retained_receipts_per_world (mk_limits k)"
  obtains pt where "prepared_ok (mk_limits k) t pt"
    "admitted pt (current_world k (wt_world t))"
    "world_frontier k1 (wt_world t) = mw_revision (current_world k (wt_world t)) + 1"
    "storage_publish sha k2 t =
      (k2, Inr ((publication_for pt (current_world k (wt_world t)))\<lparr>pr_replayed := True\<rparr>))"
    "r = Inr (publication_for pt (current_world k (wt_world t))) \<or>
     r = Inl (StorageFault AfterPublishBeforeReceipt)"
  using assms(2)
proof (cases rule: storage_publish_cases)
  case (prepared pt result)
  note ok = reachable_kernel_ok [OF assms(1)] and pt = prepared_okD [OF prepared(2)]
  obtain locations mhash where pub: "publishes sha k pt PublicationEvidence k1 result locations mhash"
    by (rule changed_publishes [OF prepared(3) assms(3)])
  define w where "w = current_world k (wt_world t)"
  let ?receipt = "publication_for pt w"
  have k1: "current_world k1 (wt_world t) = world_after (mk_limits k) pt w locations mhash"
    using pub by (simp add: publishes_def Let_def pt w_def)
  have w: "world_ok (kl_max_retained_receipts_per_world (mk_limits k)) (pt_world pt) w"
    using kernel_ok_current [OF ok] by (simp add: w_def pt)
  have worlds: "\<forall>m \<in> set (pt_mutations pt). ck_world (cm_key m) = pt_world pt"
    using prepared(2) unfolding prepared_ok_def by blast
  have pub': "admitted pt w" "project_entity_locations w (plans_for pt w) = Inr locations"
    using pub by (simp_all add: publishes_def Let_def pt w_def)
  have "0 < kl_max_retained_receipts_per_world (mk_limits k)" using ok by (simp add: kernel_ok_def)
  from world_ok_after(2) [OF w refl this pub'(1) pt(6) worlds pub'(2)]
  have entry: "bt_get (mw_committed_transactions (current_world k1 (wt_world t))) (wt_id t) =
      Some \<lparr>ct_fingerprint = pt_fingerprint pt, ct_publication = ?receipt,
        ct_materialized_chunk_state_hash = mhash\<rparr>"
    by (simp add: k1 pt)
  have limits1: "mk_limits k1 = mk_limits k" using pub by (simp add: publishes_def Let_def)
  have limits2: "mk_limits k2 = mk_limits k" using kernel_run_limits [OF assms(4)] limits1 by simp
  have ok1: "kernel_ok k1" by (rule commit_prepared_ok [OF ok prepared(2,3)])
  have frontier: "world_frontier k1 (wt_world t) = mw_revision w + 1"
    by (simp add: world_frontier_current k1)
  have "bt_get (mw_committed_transactions (current_world k2 (wt_world t))) (wt_id t) =
      Some \<lparr>ct_fingerprint = pt_fingerprint pt, ct_publication = ?receipt,
        ct_materialized_chunk_state_hash = mhash\<rparr>"
    by (rule kernel_run_retained [OF assms(4) ok1 entry])
      (use assms(5) frontier in \<open>simp add: limits1 world_frontier_current [symmetric]\<close>)
  then have "replay_receipt (current_world k2 (pt_world pt)) pt PublicationEvidence =
      Inr (Some (PublicationReceipt (?receipt\<lparr>pr_replayed := True\<rparr>)))"
    by (simp add: replay_receipt_def pt committed_receipt_of_def)
  then have "storage_publish sha k2 t = (k2, Inr (?receipt\<lparr>pr_replayed := True\<rparr>))"
    using prepared(1)
    by (simp add: storage_publish_def limits2 commit_prepared_def Let_def decide_commit_def)
  moreover have "r = Inr ?receipt \<or> r = Inl (StorageFault AfterPublishBeforeReceipt)"
    using pub prepared(4)
    by (auto simp: publishes_def Let_def w_def pt committed_receipt_of_def)
  ultimately show thesis
    using that [of pt] prepared(2) pub'(1) frontier by (simp add: w_def)
qed (use assms(3) in simp)

text \<open>C23: within the receipt horizon a retry finds its receipt. After a \<open>publish\<close> that changed a
  world, acknowledged or not, as long as fewer than the configured number of receipts' later
  transactions were published in that world, publishing the same transaction changes nothing and
  returns the first receipt, marked as a replay.\<close>

theorem retry_window:
  assumes "reachable_kernel sha k" and "storage_publish sha k t = (k1, r)"
    and "mk_worlds k1 \<noteq> mk_worlds k" and "kernel_run sha k1 k2"
    and "world_frontier k2 (wt_world t) <
      world_frontier k1 (wt_world t) + kl_max_retained_receipts_per_world (mk_limits k)"
  shows "\<exists>receipt. storage_publish sha k2 t = (k2, Inr (receipt\<lparr>pr_replayed := True\<rparr>)) \<and>
    pr_world_revision receipt = world_frontier k1 (wt_world t) \<and>
    (r = Inr receipt \<or> r = Inl (StorageFault AfterPublishBeforeReceipt))"
proof -
  obtain pt where "world_frontier k1 (wt_world t) = mw_revision (current_world k (wt_world t)) + 1"
    "storage_publish sha k2 t =
      (k2, Inr ((publication_for pt (current_world k (wt_world t)))\<lparr>pr_replayed := True\<rparr>))"
    "r = Inr (publication_for pt (current_world k (wt_world t))) \<or>
     r = Inl (StorageFault AfterPublishBeforeReceipt)"
    by (rule published_retry [OF assms])
  then show ?thesis
    by (intro exI [of _ "publication_for pt (current_world k (wt_world t))"]) simp
qed

lemma retry_window_witness:
  "\<exists>receipt. storage_publish sample_sha lost_kernel move_transaction =
     (lost_kernel, Inr (receipt\<lparr>pr_replayed := True\<rparr>)) \<and> pr_world_revision receipt = 2"
  using retry_window [OF reachable_armed armed_publish lost_changed kernel_run.start] lost_frontiers
  by (auto simp: move_world)

end
