(* ===== verification/Storage_Handshake.thy ===== *)
theory Storage_Handshake
  imports Storage_Retry Commit_Properties
begin

section \<open>A gameplay plan through the storage kernel\<close>

text \<open>
  The two halves of the protocol together: the applier waits for the storage receipt of its
  pending plan, and the kernel publishes the transaction that carries the plan's chunks. The
  receipt the kernel returns, at once or when the lost acknowledgement is asked for again, is
  the one the applier accepts.
\<close>

definition dimension_chunk :: "chunk_key \<Rightarrow> dimension_chunk_key" where
  "dimension_chunk key = DimensionChunkKey (ck_dimension key) (ck_coordinate key)"

text \<open>\<open>StorageReceiptView\<close>: what \<open>observe_storage_publication\<close> reads of a receipt.\<close>

definition receipt_view :: "publication_receipt \<Rightarrow> storage_receipt" where
  "receipt_view p =
     \<lparr>sr_transaction_id = pr_transaction_id p, sr_world = pr_world p,
      sr_world_revision = pr_world_revision p,
      sr_chunks = map (\<lambda>c. \<lparr>cr_world = ck_world (ccr_key c), cr_chunk = dimension_chunk (ccr_key c),
        cr_revision = ccr_chunk_revision c, cr_changed = ccr_changed_domains c\<rparr>) (pr_chunks p)\<rparr>"

text \<open>The transaction that carries a pending plan: its identity and base revision, one mutation
  for each pending chunk, expected at the loaded revision, with at least the plan's domains.\<close>

definition carries :: "plan_applier \<Rightarrow> pending_storage_commit \<Rightarrow> world_transaction \<Rightarrow> bool" where
  "carries ap pending t \<longleftrightarrow>
     wt_id t = psc_transaction_id pending \<and> wt_world t = ap_world ap \<and>
     wt_base_world_revision t = gs_observed_world_revision (ap_state ap) \<and>
     (dimension_chunk \<circ> cm_key) ` set (wt_mutations t) = set (bt_keys (psc_chunks pending)) \<and>
     (\<forall>m \<in> set (wt_mutations t). \<exists>required revision.
        bt_get (psc_chunks pending) (dimension_chunk (cm_key m)) = Some required \<and>
        domains_contain (cm_changed_domains m) required \<and>
        bt_get (gs_loaded_chunks (ap_state ap)) (dimension_chunk (cm_key m)) = Some revision \<and>
        cm_expected_revision m = ExpectExact revision)"

lemma expected_revision:
  assumes "mutation_ok w m" "cm_expected_revision m = ExpectExact revision"
  shows "mp_chunk_revision (plan_of w m) = Suc revision \<and> Suc revision \<le> u64_max"
  using assms by (auto simp: mutation_ok_def plan_of_def Let_def split: option.splits)

lemma carried_acknowledged:
  assumes carries: "carries ap pending t" and prepared: "prepared_ok limits t pt"
    and adm: "admitted pt w"
  shows "acknowledges ap pending (receipt_view (publication_for pt w))"
proof -
  note pt = prepared_okD [OF prepared]
  have world: "\<forall>m \<in> set (pt_mutations pt). ck_world (cm_key m) = wt_world t"
    using prepared unfolding prepared_ok_def by metis
  let ?crs = "sr_chunks (receipt_view (publication_for pt w))"
  have crs: "?crs = map (\<lambda>m. \<lparr>cr_world = ck_world (cm_key m), cr_chunk = dimension_chunk (cm_key m),
      cr_revision = mp_chunk_revision (plan_of w m), cr_changed = cm_changed_domains m\<rparr>)
    (pt_mutations pt)"
    by (simp add: receipt_view_def publication_for_def staged_receipt_def)
  have chunks: "map cr_chunk ?crs = map (dimension_chunk \<circ> cm_key) (pt_mutations pt)"
    by (simp add: crs)
  have "inj_on (dimension_chunk \<circ> cm_key) (set (pt_mutations pt))"
  proof (rule inj_onI)
    fix m m' assume m: "m \<in> set (pt_mutations pt)" "m' \<in> set (pt_mutations pt)"
      and "(dimension_chunk \<circ> cm_key) m = (dimension_chunk \<circ> cm_key) m'"
    with world have "cm_key m = cm_key m'"
      by (auto simp: dimension_chunk_def chunk_key.expand)
    with pt(6) m show "m = m'" by (auto simp: distinct_map dest: inj_onD)
  qed
  then have distinct: "distinct (map cr_chunk ?crs)"
    using pt(6) by (simp add: chunks distinct_map)
  have each: "chunk_receipt_ok (ap_world ap) (ap_state ap) pending cr" if "cr \<in> set ?crs" for cr
  proof -
    from that obtain m where m: "m \<in> set (pt_mutations pt)"
      and cr: "cr = \<lparr>cr_world = ck_world (cm_key m), cr_chunk = dimension_chunk (cm_key m),
        cr_revision = mp_chunk_revision (plan_of w m), cr_changed = cm_changed_domains m\<rparr>"
      by (auto simp: crs)
    from carries m pt(5) obtain required revision where
      "bt_get (psc_chunks pending) (dimension_chunk (cm_key m)) = Some required"
      "domains_contain (cm_changed_domains m) required"
      "bt_get (gs_loaded_chunks (ap_state ap)) (dimension_chunk (cm_key m)) = Some revision"
      "cm_expected_revision m = ExpectExact revision"
      unfolding carries_def by metis
    moreover have "mutation_ok w m" using adm m by (simp add: admitted_def)
    ultimately show ?thesis
      using expected_revision world m carries by (auto simp: chunk_receipt_ok_def cr carries_def)
  qed
  have "set (map cr_chunk ?crs) = set (bt_keys (psc_chunks pending))"
    using carries by (simp add: chunks pt(5) carries_def)
  with distinct each show ?thesis
    using carries adm pt(1-3)
    by (simp add: acknowledges_def receipt_view_def [of "publication_for pt w"] carries_def admitted_def)
qed

text \<open>C3: a pending plan gets its acknowledgement from storage. When the transaction that carries the
  applier's pending plan has changed the world, the kernel's answer is its receipt or, if the
  armed fault hit after the publication, a lost acknowledgement. Asking for the transaction again
  while the world is fewer than \<open>max_retained_receipts_per_world\<close> revisions further (the receipt
  horizon) returns that receipt marked as a replay, and changes nothing. Both read the same to
  the applier and acknowledge its pending plan. The applier accepts them, and lifts its barrier,
  exactly when the committed gameplay state passes the load barrier; otherwise it rejects them
  and stays as it was (C40 shows that this can happen).\<close>

theorem carried_plan_commits:
  assumes "applier_reachable sha ap" and "ap_pending ap = Some pending"
    and "gs_pending_receipt (ap_state ap) = Some r"
    and "carries ap pending t" and "reachable_kernel sha' k"
    and "storage_publish sha' k t = (k1, answer)" and "mk_worlds k1 \<noteq> mk_worlds k"
    and "kernel_run sha' k1 k2"
    and "world_frontier k2 (wt_world t) <
      world_frontier k1 (wt_world t) + kl_max_retained_receipts_per_world (mk_limits k)"
  shows "\<exists>receipt.
    (answer = Inr receipt \<or> answer = Inl (StorageFault AfterPublishBeforeReceipt)) \<and>
    storage_publish sha' k2 t = (k2, Inr (receipt\<lparr>pr_replayed := True\<rparr>)) \<and>
    receipt_view (receipt\<lparr>pr_replayed := True\<rparr>) = receipt_view receipt \<and>
    acknowledges ap pending (receipt_view receipt) \<and>
    (let s' = committed_state (ap_state ap) r (receipt_view receipt) in
     if validate_loaded sha (ap_catalog ap) s' = Inr ()
     then observe_storage_commit sha ap (receipt_view receipt) =
       (ap\<lparr>ap_state := s', ap_pending := None\<rparr>, Inr ())
     else \<exists>e. observe_storage_commit sha ap (receipt_view receipt) = (ap, Inl e))"
proof -
  obtain pt where pt: "prepared_ok (mk_limits k) t pt"
    "admitted pt (current_world k (wt_world t))"
    "storage_publish sha' k2 t =
      (k2, Inr ((publication_for pt (current_world k (wt_world t)))\<lparr>pr_replayed := True\<rparr>))"
    "answer = Inr (publication_for pt (current_world k (wt_world t))) \<or>
      answer = Inl (StorageFault AfterPublishBeforeReceipt)"
    by (rule published_retry [OF assms(5-9)])
  let ?p = "publication_for pt (current_world k (wt_world t))"
  have view: "receipt_view (?p\<lparr>pr_replayed := True\<rparr>) = receipt_view ?p"
    by (simp add: receipt_view_def)
  have ack: "acknowledges ap pending (receipt_view ?p)"
    by (rule carried_acknowledged [OF assms(4) pt(1,2)])
  note observed = observe_storage_commit_decides [OF assms(1-3) ack]
  show ?thesis
    using pt(3,4) view ack observed unfolding Let_def by (intro exI [of _ ?p] conjI)
qed

subsection \<open>A drop that is stored\<close>

text \<open>The storage world of the sample: its chunk at revision 4, the world at revision 5.\<close>

definition sample_chunk_key :: chunk_key where
  "sample_chunk_key = ChunkKey 7 (dck_dimension sample_chunk) (dck_coordinate sample_chunk)"

definition voxel_transaction :: "nat \<Rightarrow> world_transaction" where
  "voxel_transaction n =
     \<lparr>wt_id = word_of_nat (60 + n), wt_world = 7, wt_base_world_revision = n, wt_mutations =
        [\<lparr>cm_key = (if n = 0 then chunk_at 9 else sample_chunk_key),
          cm_expected_revision = (if n \<le> 1 then ExpectAbsent else ExpectExact (n - 1)),
          cm_changed_domains = (if n \<le> 1 then 15 else 1), cm_data = chunk_with n []\<rparr>]\<rparr>"

definition stored_kernel :: memory_kernel where
  "stored_kernel = foldl (\<lambda>k n. fst (storage_publish sample_sha k (voxel_transaction n)))
     empty_kernel [0, 1, 2, 3, 4]"

definition drop_transaction :: world_transaction where
  "drop_transaction =
     \<lparr>wt_id = 100, wt_world = 7, wt_base_world_revision = 5, wt_mutations =
        [\<lparr>cm_key = sample_chunk_key, cm_expected_revision = ExpectExact 4, cm_changed_domains = 2,
          cm_data = chunk_with 4 [20]\<rparr>]\<rparr>"

definition stored_drop_kernel :: memory_kernel where
  "stored_drop_kernel = fst (storage_publish sample_sha stored_kernel drop_transaction)"

lemma reachable_publishes:
  "reachable_kernel sha k \<Longrightarrow> reachable_kernel sha (foldl (\<lambda>k n. fst (storage_publish sha k (f n))) k ns)"
proof (induction ns arbitrary: k)
  case (Cons n ns)
  have "reachable_kernel sha (fst (storage_publish sha k (f n)))"
    by (rule reachable_step [OF Cons.prems kernel_step.published [OF prod.collapse [symmetric]]])
  then show ?case by (simp add: Cons.IH)
qed simp

lemma stored_frontiers: "world_frontier stored_kernel 7 = 5" "world_frontier stored_drop_kernel 7 = 6"
  "kl_max_retained_receipts_per_world (mk_limits stored_kernel) = 2"
  by code_simp+

lemma stored_drop:
  "storage_publish sample_sha stored_kernel drop_transaction =
     (stored_drop_kernel, snd (storage_publish sample_sha stored_kernel drop_transaction))"
  by (simp add: stored_drop_kernel_def)

lemma stored_changed: "mk_worlds stored_drop_kernel \<noteq> mk_worlds stored_kernel"
  using stored_frontiers by (auto simp: world_frontier_def)

text \<open>What the executed drop waits for, evaluated once.\<close>

definition awaits_drop :: "plan_applier \<times> plan_receipt outcome \<Rightarrow> bool" where
  "awaits_drop z \<longleftrightarrow>
     (case z of
        (ap, Inr r) \<Rightarrow>
          map_option (\<lambda>p. (psc_transaction_id p, bt_keys (psc_chunks p), bt_get (psc_chunks p) sample_chunk))
            (ap_pending ap) = Some (100, [sample_chunk], Some 2) \<and>
          ap_world ap = 7 \<and> gs_observed_world_revision (ap_state ap) = 5 \<and>
          bt_get (gs_loaded_chunks (ap_state ap)) sample_chunk = Some 4 \<and>
          gs_pending_receipt (ap_state ap) = Some r \<and>
          validate_loaded sample_sha (ap_catalog ap)
            (committed_state (ap_state ap) r (entity_commit 100 6 5)) = Inr ()
      | _ \<Rightarrow> False)"

lemma dropped_awaits: "awaits_drop (execute sample_sha sample_applier drop_envelope NoFault)"
  by code_simp

lemma drop_carries:
  assumes "ap_pending dropped_applier = Some pending"
  shows "carries dropped_applier pending drop_transaction"
proof -
  have "dimension_chunk sample_chunk_key = sample_chunk"
    by (simp add: dimension_chunk_def sample_chunk_key_def)
  with dropped_awaits assms show ?thesis
    by (auto simp: awaits_drop_def dropped_applier_def carries_def drop_transaction_def
        domains_contain_def split: prod.splits sum.splits)
qed

lemma drop_loads:
  assumes "gs_pending_receipt (ap_state dropped_applier) = Some r"
  shows "validate_loaded sample_sha (ap_catalog dropped_applier)
    (committed_state (ap_state dropped_applier) r (entity_commit 100 6 5)) = Inr ()"
  using dropped_awaits assms
  by (auto simp: awaits_drop_def dropped_applier_def split: prod.splits sum.splits)

lemma carried_plan_commits_witness:
  "\<exists>receipt ap'. storage_publish sample_sha stored_drop_kernel drop_transaction =
     (stored_drop_kernel, Inr receipt) \<and>
     observe_storage_commit sample_sha dropped_applier (receipt_view receipt) = (ap', Inr ()) \<and>
     ap_pending ap' = None"
proof -
  obtain pending r where p: "ap_pending dropped_applier = Some pending"
    "gs_pending_receipt (ap_state dropped_applier) = Some r" by (rule dropped_pending_parts)
  have "reachable_kernel sample_sha stored_kernel"
    unfolding stored_kernel_def by (rule reachable_publishes [OF reachable_empty])
  from carried_plan_commits [OF dropped_reachable p drop_carries [OF p(1)] this stored_drop
      stored_changed kernel_run.start] stored_frontiers
  obtain first receipt where
    receipt: "storage_publish sample_sha stored_drop_kernel drop_transaction = (stored_drop_kernel, Inr receipt)"
    and same: "receipt_view receipt = receipt_view first"
    and observed: "validate_loaded sample_sha (ap_catalog dropped_applier)
        (committed_state (ap_state dropped_applier) r (receipt_view first)) = Inr () \<Longrightarrow>
      \<exists>ap'. observe_storage_commit sample_sha dropped_applier (receipt_view first) = (ap', Inr ()) \<and>
        ap_pending ap' = None"
    by (auto simp: drop_transaction_def Let_def)
  have "case snd (storage_publish sample_sha stored_drop_kernel drop_transaction) of
      Inl e \<Rightarrow> False | Inr receipt \<Rightarrow> receipt_view receipt = entity_commit 100 6 5" by code_simp
  with receipt have view: "receipt_view receipt = entity_commit 100 6 5" by simp
  from observed [folded same, unfolded view, OF drop_loads [OF p(2)]] receipt show ?thesis
    unfolding view [symmetric] by blast
qed

end
