(* ===== verification/Rust_Text.thy ===== *)
theory Rust_Text
  imports Prelude "HOL-Library.Code_Target_Nat"
begin

section \<open>The string operations of the standard library\<close>

text \<open>
  Strings are lists of bytes, as a Rust \<open>str\<close> is UTF-8. The operations here are the ones
  the identifier and version parsers call: \<open>split_once\<close>, \<open>rsplit_once\<close>, \<open>split\<close>,
  \<open>strip_prefix\<close>, slicing, the white space tests and the parsing of a \<open>u64\<close>. The
  separators are ASCII, so a byte-wise split is a character-wise one.
\<close>

named_theorems text_simps \<open>inversion rules for the string operations\<close>

subsection \<open>Character classes\<close>

definition is_ascii_lowercase :: "char \<Rightarrow> bool" where
  "is_ascii_lowercase c \<longleftrightarrow> c \<in> set ''abcdefghijklmnopqrstuvwxyz''"

definition is_ascii_digit :: "char \<Rightarrow> bool" where
  "is_ascii_digit c \<longleftrightarrow> c \<in> set ''0123456789''"

subsection \<open>Splitting and joining\<close>

fun split_once :: "char \<Rightarrow> string \<Rightarrow> (string \<times> string) option" where
  "split_once c [] = None"
| "split_once c (x # xs) =
     (if x = c then Some ([], xs)
      else case split_once c xs of None \<Rightarrow> None | Some (a, b) \<Rightarrow> Some (x # a, b))"

definition rsplit_once :: "char \<Rightarrow> string \<Rightarrow> (string \<times> string) option" where
  "rsplit_once c s =
     (case split_once c (List.rev s) of
        None \<Rightarrow> None
      | Some (a, b) \<Rightarrow> Some (List.rev b, List.rev a))"

fun split_on :: "char \<Rightarrow> string \<Rightarrow> string list" where
  "split_on c [] = [[]]"
| "split_on c (x # xs) =
     (if x = c then [] # split_on c xs
      else case split_on c xs of [] \<Rightarrow> [[x]] | y # ys \<Rightarrow> (x # y) # ys)"

fun join_with :: "char \<Rightarrow> string list \<Rightarrow> string" where
  "join_with c [] = []"
| "join_with c [s] = s"
| "join_with c (s # ss) = s @ c # join_with c ss"

definition strip_prefix :: "string \<Rightarrow> string \<Rightarrow> string option" where
  "strip_prefix p s =
     (if take (length p) s = p then Some (drop (length p) s) else None)"

definition starts_with :: "string \<Rightarrow> string \<Rightarrow> bool" where
  "starts_with p s \<longleftrightarrow> take (length p) s = p"

definition ends_with :: "string \<Rightarrow> string \<Rightarrow> bool" where
  "ends_with p s \<longleftrightarrow> starts_with (List.rev p) (List.rev s)"

fun contains_text :: "string \<Rightarrow> string \<Rightarrow> bool" where
  "contains_text p [] \<longleftrightarrow> p = []"
| "contains_text p (x # xs) \<longleftrightarrow> starts_with p (x # xs) \<or> contains_text p xs"

text \<open>The slice \<open>&s[from..to]\<close>.\<close>

definition slice :: "nat \<Rightarrow> nat \<Rightarrow> string \<Rightarrow> string" where
  "slice from to s = take (to - from) (drop from s)"

lemma split_once_None [text_simps]: "split_once c s = None \<longleftrightarrow> c \<notin> set s"
  by (induction s) (auto split: option.splits prod.splits)

lemma split_once_Some [text_simps]:
  "split_once c s = Some (a, b) \<longleftrightarrow> s = a @ c # b \<and> c \<notin> set a"
proof (induction s arbitrary: a)
  case Nil
  show ?case by simp
next
  case (Cons x s)
  show ?case
  proof (cases "split_once c s")
    case None
    then have "c \<notin> set s" by (simp add: split_once_None)
    with None show ?thesis by (cases a) auto
  next
    case (Some p)
    then obtain a' b' where p: "split_once c s = Some (a', b')" by (cases p) auto
    show ?thesis
    proof (cases a)
      case Nil
      with p show ?thesis by simp
    next
      case (Cons y a'')
      with p Cons.IH [of a''] show ?thesis by (auto simp del: split_paired_All)
    qed
  qed
qed

lemma rsplit_once_None [text_simps]: "rsplit_once c s = None \<longleftrightarrow> c \<notin> set s"
proof -
  have "rsplit_once c s = None \<longleftrightarrow> split_once c (List.rev s) = None"
    by (simp add: rsplit_once_def split: option.splits prod.splits)
  then show ?thesis by (simp add: split_once_None)
qed

lemma rsplit_once_Some [text_simps]:
  "rsplit_once c s = Some (a, b) \<longleftrightarrow> s = a @ c # b \<and> c \<notin> set b"
proof -
  have "rsplit_once c s = Some (a, b) \<longleftrightarrow>
      split_once c (List.rev s) = Some (List.rev b, List.rev a)"
    by (cases "split_once c (List.rev s)") (auto simp: rsplit_once_def)
  also have "\<dots> \<longleftrightarrow> List.rev s = List.rev (a @ c # b) \<and> c \<notin> set b"
    by (simp add: split_once_Some)
  finally show ?thesis by (simp only: rev_is_rev_conv)
qed

lemma split_on_not_Nil [simp]: "split_on c s \<noteq> []"
  by (cases s) (auto split: list.splits)

lemma join_with_Cons:
  "ss \<noteq> [] \<Longrightarrow> join_with c (s # ss) = s @ c # join_with c ss"
  by (cases ss) auto

lemma join_with_Cons_Cons: "join_with c ((x # s) # ss) = x # join_with c (s # ss)"
  by (cases ss) auto

lemma join_split_on [simp]: "join_with c (split_on c s) = s"
proof (induction s)
  case Nil
  show ?case by simp
next
  case (Cons x s)
  then show ?case
    by (cases "split_on c s") (auto simp: join_with_Cons join_with_Cons_Cons)
qed

lemma split_on_free: "t \<in> set (split_on c s) \<Longrightarrow> c \<notin> set t"
proof (induction s arbitrary: t)
  case Nil
  then show ?case by simp
next
  case (Cons x s)
  then show ?case
    by (cases "split_on c s") (auto split: if_splits)
qed

lemma split_on_append: "c \<notin> set a \<Longrightarrow> split_on c (a @ c # b) = a # split_on c b"
  by (induction a) auto

lemma split_on_single: "c \<notin> set a \<Longrightarrow> split_on c a = [a]"
  by (induction a) auto

lemma split_on_join:
  "ss \<noteq> [] \<Longrightarrow> (\<And>t. t \<in> set ss \<Longrightarrow> c \<notin> set t) \<Longrightarrow> split_on c (join_with c ss) = ss"
proof (induction ss)
  case Nil
  then show ?case by simp
next
  case (Cons s ss)
  then show ?case
    by (cases "ss = []") (auto simp: join_with_Cons split_on_append split_on_single)
qed

lemma set_join_with: "set (join_with c ss) \<subseteq> insert c (\<Union> (set ` set ss))"
  by (induction c ss rule: join_with.induct) auto

lemma starts_with_append [simp]: "starts_with p (p @ s)"
  by (simp add: starts_with_def)

lemma starts_with_iff: "starts_with p s \<longleftrightarrow> (\<exists>t. s = p @ t)"
  by (metis append_take_drop_id starts_with_append starts_with_def)

lemma strip_prefix_Some [text_simps]: "strip_prefix p s = Some t \<longleftrightarrow> s = p @ t"
  by (auto simp: strip_prefix_def) (metis append_take_drop_id)

lemma strip_prefix_None [text_simps]: "strip_prefix p s = None \<longleftrightarrow> \<not> starts_with p s"
  by (auto simp: strip_prefix_def starts_with_def)

lemma contains_text_iff: "contains_text p s \<longleftrightarrow> (\<exists>a b. s = a @ p @ b)"
proof (induction s)
  case Nil
  show ?case by auto
next
  case (Cons x s)
  have "(\<exists>a b. x # s = a @ p @ b) \<longleftrightarrow> (\<exists>b. x # s = p @ b) \<or> (\<exists>a b. s = a @ p @ b)"
  proof (intro iffI; elim disjE exE)
    fix a b
    assume "x # s = a @ p @ b"
    then show "(\<exists>b. x # s = p @ b) \<or> (\<exists>a b. s = a @ p @ b)"
      by (cases a) auto
  next
    fix b
    assume "x # s = p @ b"
    then have "x # s = [] @ p @ b" by simp
    then show "\<exists>a b. x # s = a @ p @ b" by blast
  next
    fix a b
    assume "s = a @ p @ b"
    then have "x # s = (x # a) @ p @ b" by simp
    then show "\<exists>a b. x # s = a @ p @ b" by blast
  qed
  then show ?case by (simp add: Cons.IH starts_with_iff)
qed

lemma contains_char: "contains_text [c] s \<longleftrightarrow> c \<in> set s"
  by (simp add: contains_text_iff in_set_conv_decomp)

subsection \<open>White space\<close>

text \<open>
  \<open>char::is_whitespace\<close> is the Unicode property \<open>White_Space\<close>; the list holds the UTF-8
  encodings of its characters. UTF-8 is self-synchronising: an encoding occurs in a valid
  text only where the character does. \<open>is_ascii_whitespace\<close> lacks the vertical tab.
\<close>

definition ascii_whitespace :: "char list" where
  "ascii_whitespace = [CHR 0x20, CHR 0x09, CHR 0x0A, CHR 0x0C, CHR 0x0D]"

definition whitespace_chars :: "string list" where
  "whitespace_chars =
     List.map (\<lambda>c. [c]) (CHR 0x0B # ascii_whitespace) @
     [[CHR 0xC2, CHR 0x85], [CHR 0xC2, CHR 0xA0], [CHR 0xE1, CHR 0x9A, CHR 0x80],
      [CHR 0xE2, CHR 0x80, CHR 0xA8], [CHR 0xE2, CHR 0x80, CHR 0xA9],
      [CHR 0xE2, CHR 0x80, CHR 0xAF], [CHR 0xE2, CHR 0x81, CHR 0x9F],
      [CHR 0xE3, CHR 0x80, CHR 0x80]] @
     List.map (\<lambda>n. [CHR 0xE2, CHR 0x80, char_of n]) [0x80 ..< 0x8B::nat]"

text \<open>\<open>value.trim() != value\<close>, and \<open>value.contains(char::is_whitespace)\<close>.\<close>

definition trim_changes :: "string \<Rightarrow> bool" where
  "trim_changes s \<longleftrightarrow>
     list_ex (\<lambda>w. starts_with w s) whitespace_chars \<or>
     list_ex (\<lambda>w. ends_with w s) whitespace_chars"

definition contains_whitespace :: "string \<Rightarrow> bool" where
  "contains_whitespace s \<longleftrightarrow> list_ex (\<lambda>w. contains_text w s) whitespace_chars"

text \<open>\<open>split_ascii_whitespace\<close>: the maximal runs of other characters.\<close>

fun ascii_fields :: "string \<Rightarrow> string list" where
  "ascii_fields [] = [[]]"
| "ascii_fields (x # xs) =
     (if x \<in> set ascii_whitespace then [] # ascii_fields xs
      else case ascii_fields xs of [] \<Rightarrow> [[x]] | y # ys \<Rightarrow> (x # y) # ys)"

definition split_ascii_whitespace :: "string \<Rightarrow> string list" where
  "split_ascii_whitespace s = List.filter (\<lambda>t. t \<noteq> []) (ascii_fields s)"

lemma ascii_fields_not_Nil [simp]: "ascii_fields s \<noteq> []"
  by (cases s) (auto split: list.splits)

lemma ascii_fields_word:
  "\<forall>x\<in>set a. x \<notin> set ascii_whitespace \<Longrightarrow> ascii_fields a = [a]"
  by (induction a) auto

lemma ascii_fields_append:
  "\<forall>x\<in>set a. x \<notin> set ascii_whitespace \<Longrightarrow> c \<in> set ascii_whitespace
     \<Longrightarrow> ascii_fields (a @ c # b) = a # ascii_fields b"
  by (induction a) auto

lemma split_ascii_whitespace_join:
  assumes "\<And>t. t \<in> set ts \<Longrightarrow> t \<noteq> [] \<and> (\<forall>x\<in>set t. x \<notin> set ascii_whitespace)"
  shows "split_ascii_whitespace (join_with CHR '' '' ts) = ts"
  using assms
proof (induction ts)
  case Nil
  show ?case by (simp add: split_ascii_whitespace_def)
next
  case (Cons t ts)
  have sp: "CHR '' '' \<in> set ascii_whitespace" by (simp add: ascii_whitespace_def)
  show ?case
  proof (cases "ts = []")
    case True
    with Cons.prems show ?thesis
      by (simp add: split_ascii_whitespace_def ascii_fields_word)
  next
    case False
    have "split_ascii_whitespace (join_with CHR '' '' ts) = ts"
      by (rule Cons.IH) (use Cons.prems in auto)
    moreover have "t \<noteq> []" "\<forall>x\<in>set t. x \<notin> set ascii_whitespace"
      using Cons.prems [of t] by auto
    ultimately show ?thesis
      using False sp
      by (simp add: split_ascii_whitespace_def ascii_fields_append join_with_Cons)
  qed
qed

subsection \<open>Unsigned integers\<close>

text \<open>
  \<open>u64::from_str_radix(s, 10)\<close> of the standard library: an empty text, a lone sign, a
  character that is no digit and a value beyond 64 bits are errors, and a leading
  \<open>+\<close> is skipped. A leading \<open>-\<close> stays and is no digit.
\<close>

definition digit_of :: "char \<Rightarrow> nat" where
  "digit_of c =
     (case map_of (zip ''0123456789'' [0, 1, 2, 3, 4, 5, 6, 7, 8, 9]) c of
        None \<Rightarrow> 0 | Some n \<Rightarrow> n)"

fun parse_digits :: "nat \<Rightarrow> string \<Rightarrow> nat option" where
  "parse_digits acc [] = Some acc"
| "parse_digits acc (c # cs) =
     (if \<not> is_ascii_digit c then None
      else case checked_mul u64_max acc 10 of
        None \<Rightarrow> None
      | Some m \<Rightarrow>
          (case checked_add u64_max m (digit_of c) of
             None \<Rightarrow> None
           | Some a \<Rightarrow> parse_digits a cs))"

definition parse_u64 :: "string \<Rightarrow> u64 option" where
  "parse_u64 s =
     (if s = [] \<or> s = ''+'' \<or> s = ''-'' then None
      else if hd s = CHR ''+'' then parse_digits 0 (tl s)
      else parse_digits 0 s)"

text \<open>\<open>parse::<NonZeroU64>()\<close>.\<close>

definition parse_nonzero_u64 :: "string \<Rightarrow> u64 option" where
  "parse_nonzero_u64 s =
     (case parse_u64 s of
        None \<Rightarrow> None
      | Some n \<Rightarrow> if n = 0 then None else Some n)"

text \<open>The value of a digit string, without a width.\<close>

definition decimal :: "string \<Rightarrow> nat" where
  "decimal s = fold (\<lambda>c acc. 10 * acc + digit_of c) s 0"

lemma fold_digits_mono: "acc \<le> fold (\<lambda>c acc. 10 * acc + digit_of c) s acc"
proof (induction s arbitrary: acc)
  case Nil
  show ?case by simp
next
  case (Cons c s)
  have "acc \<le> 10 * acc + digit_of c" by simp
  also have "\<dots> \<le> fold (\<lambda>c acc. 10 * acc + digit_of c) s (10 * acc + digit_of c)"
    by (rule Cons.IH)
  finally show ?case by simp
qed

lemma parse_digits_iff:
  "parse_digits acc s = Some n \<longleftrightarrow>
     list_all is_ascii_digit s \<and> n = fold (\<lambda>c acc. 10 * acc + digit_of c) s acc \<and>
     (s \<noteq> [] \<longrightarrow> n \<le> u64_max)"
proof (induction s arbitrary: acc)
  case Nil
  show ?case by auto
next
  case (Cons c s)
  let ?a = "10 * acc + digit_of c"
  let ?n = "fold (\<lambda>c acc. 10 * acc + digit_of c) s ?a"
  have step: "parse_digits acc (c # s) =
      (if is_ascii_digit c \<and> ?a \<le> u64_max then parse_digits ?a s else None)"
    by (simp add: checked_mul_def checked_add_def mult.commute)
  have le: "?a \<le> ?n" by (rule fold_digits_mono)
  show ?case
    unfolding step using le Cons.IH [of ?a] by (cases s) auto
qed

lemma parse_u64_iff [text_simps]:
  "parse_u64 s = Some n \<longleftrightarrow>
     (\<exists>d. (s = d \<or> s = CHR ''+'' # d) \<and> d \<noteq> [] \<and> list_all is_ascii_digit d \<and>
        n = decimal d \<and> n \<le> u64_max)"
proof -
  have plus: "\<not> is_ascii_digit CHR ''+''" and minus: "\<not> is_ascii_digit CHR ''-''"
    by (simp_all add: is_ascii_digit_def)
  show ?thesis
  proof (cases s)
    case Nil
    then show ?thesis by (simp add: parse_u64_def)
  next
    case (Cons c cs)
    show ?thesis
    proof (cases "c = CHR ''+''")
      case True
      with Cons plus show ?thesis
        by (cases cs) (auto simp: parse_u64_def parse_digits_iff decimal_def
            simp del: parse_digits.simps)
    next
      case False
      with Cons minus show ?thesis
        by (auto simp: parse_u64_def parse_digits_iff decimal_def simp del: parse_digits.simps)
    qed
  qed
qed

lemma parse_nonzero_u64_iff [text_simps]:
  "parse_nonzero_u64 s = Some n \<longleftrightarrow> parse_u64 s = Some n \<and> 0 < n"
  by (auto simp: parse_nonzero_u64_def split: option.splits)

subsection \<open>The decimal text of a number\<close>

definition digit_char :: "nat \<Rightarrow> char" where
  "digit_char n = ''0123456789'' ! (n mod 10)"

fun show_nat :: "nat \<Rightarrow> string" where
  "show_nat n =
     (if n < 10 then [digit_char n] else show_nat (n div 10) @ [digit_char n])"

declare show_nat.simps [simp del]

lemma digit_char: "is_ascii_digit (digit_char n) \<and> digit_of (digit_char n) = n mod 10"
proof -
  have "n mod 10 \<in> set [0..<10]" by simp
  also have "set [0..<10] = {0, 1, 2, 3, 4, 5, 6, 7, 8, 9}" by code_simp
  finally have "n mod 10 \<in> {0, 1, 2, 3, 4, 5, 6, 7, 8, 9}" .
  then show ?thesis
    unfolding digit_char_def by (auto simp: is_ascii_digit_def digit_of_def)
qed

lemma show_nat_digits:
  "show_nat n \<noteq> [] \<and> list_all is_ascii_digit (show_nat n) \<and> decimal (show_nat n) = n"
proof (induction n rule: show_nat.induct)
  case (1 n)
  show ?case
  proof (cases "n < 10")
    case True
    then show ?thesis
      using digit_char [of n] by (simp add: show_nat.simps [of n] decimal_def)
  next
    case False
    then have IH: "list_all is_ascii_digit (show_nat (n div 10))" "decimal (show_nat (n div 10)) = n div 10"
      using 1 by auto
    from digit_char [of n] IH False show ?thesis
      by (simp add: show_nat.simps [of n] decimal_def)
  qed
qed

end
