(* ===== verification/Identifier.thy ===== *)
theory Identifier
  imports Rust_Text
begin

section \<open>Stable identifiers\<close>

text \<open>
  \<open>identifier.rs\<close> of \<open>latticeaxiom-core\<close>: the registration identifiers
  \<open><namespace>:<kind>/<path>[@<major>]\<close> with their accessors and their specialisations,
  the package names, the target triples and the world identifiers. The first part is the
  code, the second the documented grammar and what the code accepts beyond it.
\<close>

datatype identifier_error =
    InvalidPackageName string string
  | InvalidStableId string string
  | InvalidCapabilityId string string
  | InvalidSchemaId string string
  | InvalidSourceId string string
  | InvalidPackageVersion string string
  | InvalidPackageVersionReq string string
  | InvalidTargetTriple string string
  | InvalidWorldId string string

subsection \<open>Segments\<close>

fun segment_rest :: "char \<Rightarrow> string \<Rightarrow> bool" where
  "segment_rest l [] \<longleftrightarrow> is_ascii_lowercase l \<or> is_ascii_digit l"
| "segment_rest l (c # cs) \<longleftrightarrow>
     (if \<not> is_ascii_lowercase c \<and> \<not> is_ascii_digit c \<and> c \<notin> set ''-_.'' then False
      else segment_rest c cs)"

fun is_identifier_segment :: "string \<Rightarrow> bool" where
  "is_identifier_segment [] \<longleftrightarrow> False"
| "is_identifier_segment (c # cs) \<longleftrightarrow>
     (if \<not> is_ascii_lowercase c \<and> \<not> is_ascii_digit c then False else segment_rest c cs)"

subsection \<open>Package names and target triples\<close>

definition validate_package_name :: "string \<Rightarrow> identifier_error + unit" where
  "validate_package_name v =
     (let invalid = InvalidPackageName v in
      case strip_prefix ''@'' v of
        Some scoped \<Rightarrow>
          (case split_once CHR ''/'' scoped of
             None \<Rightarrow> Inl (invalid ''a scoped name must use `@scope/name`'')
           | Some (scope, name) \<Rightarrow>
               if contains_text ''/'' name
               then Inl (invalid ''a scoped name contains exactly one slash'')
               else if \<not> is_identifier_segment scope \<or> \<not> is_identifier_segment name
               then Inl (invalid ''scope and name must be canonical lowercase segments'')
               else Inr ())
      | None \<Rightarrow>
          if contains_text ''/'' v \<or> contains_text ''@'' v
          then Inl (invalid ''an unscoped name cannot contain `/` or `@`'')
          else if \<not> is_identifier_segment v
          then Inl (invalid ''a root name must be a canonical lowercase segment'')
          else Inr ())"

definition parse_package_name :: "string \<Rightarrow> identifier_error + string" where
  "parse_package_name v = and_then (validate_package_name v) (\<lambda>_. Inr v)"

definition is_scoped :: "string \<Rightarrow> bool" where
  "is_scoped v \<longleftrightarrow> starts_with ''@'' v"

definition is_target_component :: "string \<Rightarrow> bool" where
  "is_target_component v \<longleftrightarrow>
     v \<noteq> [] \<and> list_all (\<lambda>c. is_ascii_lowercase c \<or> is_ascii_digit c \<or> c \<in> set ''_.'') v"

definition validate_target_triple :: "string \<Rightarrow> identifier_error + unit" where
  "validate_target_triple v =
     (let invalid = InvalidTargetTriple v in
      case split_on CHR ''-'' v of
        [] \<Rightarrow> Inl (invalid ''a target triple cannot be empty'')
      | [first] \<Rightarrow>
          Inl (invalid ''a target triple requires at least two hyphen-separated components'')
      | first # second # components \<Rightarrow>
          if \<not> is_target_component first \<or> \<not> is_target_component second \<or>
             \<not> list_all is_target_component components
          then Inl (invalid
            ''components must be non-empty lowercase ASCII letters, digits, `_`, or `.`'')
          else Inr ())"

definition parse_target_triple :: "string \<Rightarrow> identifier_error + string" where
  "parse_target_triple v = and_then (validate_target_triple v) (\<lambda>_. Inr v)"

subsection \<open>Stable identifiers\<close>

record stable_id =
  sid_value :: string
  sid_namespace_end :: usize
  sid_kind_end :: usize
  sid_major_marker :: "usize option"
  sid_major :: "u64 option"

definition sid_namespace :: "stable_id \<Rightarrow> string" where
  "sid_namespace i = slice 0 (sid_namespace_end i) (sid_value i)"

definition sid_kind :: "stable_id \<Rightarrow> string" where
  "sid_kind i = slice (sid_namespace_end i + 1) (sid_kind_end i) (sid_value i)"

definition sid_path :: "stable_id \<Rightarrow> string" where
  "sid_path i =
     (let path_end = (case sid_major_marker i of
                        None \<Rightarrow> length (sid_value i) | Some m \<Rightarrow> m)
      in slice (sid_kind_end i + 1) path_end (sid_value i))"

text \<open>The optional suffix: the base text, the position of the \<open>@\<close> and the major.\<close>

definition parse_major_suffix ::
    "string \<Rightarrow> identifier_error + (string \<times> usize option \<times> u64 option)" where
  "parse_major_suffix v =
     (let invalid = InvalidStableId v in
      case rsplit_once CHR ''@'' v of
        None \<Rightarrow> Inr (v, None, None)
      | Some (base, major_text) \<Rightarrow>
          if contains_text ''@'' base \<or> major_text = []
          then Inl (invalid ''the optional major suffix must be terminal'')
          else if length major_text > 1 \<and> starts_with ''0'' major_text
          then Inl (invalid ''the major suffix cannot contain leading zeroes'')
          else case parse_nonzero_u64 major_text of
            None \<Rightarrow> Inl (invalid ''the major suffix must be a positive integer'')
          | Some major \<Rightarrow> Inr (base, Some (length base), Some major))"

definition parse_stable_id :: "string \<Rightarrow> identifier_error + stable_id" where
  "parse_stable_id v =
     (let invalid = InvalidStableId v in
      and_then (parse_major_suffix v) (\<lambda>(base, major_marker, major).
      case split_once CHR '':'' base of
        None \<Rightarrow> Inl (invalid ''a stable ID requires one namespace separator `:`'')
      | Some (nspace, remainder) \<Rightarrow>
          if contains_text '':'' remainder
          then Inl (invalid ''a stable ID contains exactly one `:`'')
          else case split_once CHR ''/'' remainder of
            None \<Rightarrow>
              Inl (invalid ''a stable ID requires a kind and path separated by `/`'')
          | Some (kind, path) \<Rightarrow>
              if \<not> is_identifier_segment nspace
              then Inl (invalid ''the namespace must be a canonical lowercase segment'')
              else if \<not> is_identifier_segment kind
              then Inl (invalid ''the kind must be a canonical lowercase segment'')
              else if path = [] \<or>
                \<not> list_all is_identifier_segment (split_on CHR ''/'' path)
              then Inl (invalid
                ''every path component must be a canonical lowercase segment'')
              else
                let namespace_end = length nspace;
                    kind_end = namespace_end + 1 + length kind
                in Inr \<lparr>sid_value = v, sid_namespace_end = namespace_end,
                        sid_kind_end = kind_end, sid_major_marker = major_marker,
                        sid_major = major\<rparr>))"

subsection \<open>Specialised identifiers\<close>

record versioned_id =
  vid_stable_id :: stable_id
  vid_major :: u64

definition try_into_capability_id :: "stable_id \<Rightarrow> identifier_error + versioned_id" where
  "try_into_capability_id i =
     (if sid_kind i \<noteq> ''capability''
      then Inl (InvalidCapabilityId (sid_value i) ''registration kind must be `capability`'')
      else case sid_major i of
        None \<Rightarrow> Inl (InvalidCapabilityId (sid_value i)
          ''a capability ID requires a positive major suffix'')
      | Some major \<Rightarrow> Inr \<lparr>vid_stable_id = i, vid_major = major\<rparr>)"

definition parse_capability_id :: "string \<Rightarrow> identifier_error + versioned_id" where
  "parse_capability_id v = and_then (parse_stable_id v) try_into_capability_id"

definition try_into_schema_id :: "stable_id \<Rightarrow> identifier_error + versioned_id" where
  "try_into_schema_id i =
     (if sid_kind i \<noteq> ''schema''
      then Inl (InvalidSchemaId (sid_value i) ''registration kind must be `schema`'')
      else case sid_major i of
        None \<Rightarrow> Inl (InvalidSchemaId (sid_value i)
          ''a schema ID requires a positive major suffix'')
      | Some major \<Rightarrow> Inr \<lparr>vid_stable_id = i, vid_major = major\<rparr>)"

definition parse_schema_id :: "string \<Rightarrow> identifier_error + versioned_id" where
  "parse_schema_id v = and_then (parse_stable_id v) try_into_schema_id"

definition try_into_source_id :: "stable_id \<Rightarrow> identifier_error + stable_id" where
  "try_into_source_id i =
     (if sid_kind i \<noteq> ''source''
      then Inl (InvalidSourceId (sid_value i) ''registration kind must be `source`'')
      else if sid_major i \<noteq> None
      then Inl (InvalidSourceId (sid_value i)
        ''a source ID cannot have a contract major suffix'')
      else Inr i)"

definition parse_source_id :: "string \<Rightarrow> identifier_error + stable_id" where
  "parse_source_id v = and_then (parse_stable_id v) try_into_source_id"

subsection \<open>World identifiers\<close>

text \<open>
  A UUID is its 128 bits in network order. Printing and parsing UUID text belongs to the
  \<open>uuid\<close> crate: both are arguments.
\<close>

definition uuid_byte :: "nat \<Rightarrow> 128 word \<Rightarrow> 8 word" where
  "uuid_byte k u = ucast (drop_bit (8 * (15 - k)) u)"

definition validate_world_uuid ::
    "(128 word \<Rightarrow> string) \<Rightarrow> 128 word \<Rightarrow> identifier_error + unit" where
  "validate_world_uuid show_uuid u =
     (let invalid = InvalidWorldId (show_uuid u) in
      if uuid_byte 6 u AND 0xF0 \<noteq> 0x40
      then Inl (invalid ''a world ID must be UUID version 4'')
      else if uuid_byte 8 u AND 0xC0 \<noteq> 0x80
      then Inl (invalid ''a world ID must use the RFC 4122 variant'')
      else Inr ())"

definition world_id_from_uuid ::
    "(128 word \<Rightarrow> string) \<Rightarrow> 128 word \<Rightarrow> identifier_error + 128 word" where
  "world_id_from_uuid show_uuid u = and_then (validate_world_uuid show_uuid u) (\<lambda>_. Inr u)"

definition parse_world_id ::
    "(string \<Rightarrow> string + 128 word) \<Rightarrow> (128 word \<Rightarrow> string)
      \<Rightarrow> string \<Rightarrow> identifier_error + 128 word" where
  "parse_world_id parse_uuid show_uuid v =
     (case parse_uuid v of
        Inl e \<Rightarrow> Inl (InvalidWorldId v e)
      | Inr parsed \<Rightarrow>
          if show_uuid parsed \<noteq> v
          then Inl (InvalidWorldId v
            ''a world ID must use canonical lowercase hyphenated UUID text'')
          else world_id_from_uuid show_uuid parsed)"

subsection \<open>The grammar\<close>

text \<open>
  What the parser accepts, as predicates and a printing function on the parts of an identifier:
  the grammar the documentation gives, and beside it the texts the parser accepts in addition.
  A canonical segment is a non-empty text of lowercase letters, digits,
  \<open>-\<close>, \<open>_\<close> and \<open>.\<close> that begins and ends with a letter or digit.
\<close>

definition alphanumeric :: "char \<Rightarrow> bool" where
  "alphanumeric c \<longleftrightarrow> is_ascii_lowercase c \<or> is_ascii_digit c"

definition canonical_segment :: "string \<Rightarrow> bool" where
  "canonical_segment s \<longleftrightarrow>
     s \<noteq> [] \<and> alphanumeric (hd s) \<and> alphanumeric (last s) \<and>
     (\<forall>c\<in>set s. alphanumeric c \<or> c \<in> set ''-_.'')"

lemma segment_rest_iff:
  "segment_rest l cs \<longleftrightarrow>
     (\<forall>c\<in>set cs. alphanumeric c \<or> c \<in> set ''-_.'') \<and> alphanumeric (last (l # cs))"
  by (induction cs arbitrary: l) (auto simp: alphanumeric_def)

lemma is_identifier_segment_iff: "is_identifier_segment s \<longleftrightarrow> canonical_segment s"
  by (cases s) (auto simp: canonical_segment_def segment_rest_iff alphanumeric_def)

lemma separator_not_alphanumeric:
  "\<not> alphanumeric CHR '':''" "\<not> alphanumeric CHR ''/''" "\<not> alphanumeric CHR ''@''"
  by (simp_all add: alphanumeric_def is_ascii_lowercase_def is_ascii_digit_def)

lemma canonical_segment_free:
  assumes "canonical_segment s"
  shows "CHR '':'' \<notin> set s" "CHR ''/'' \<notin> set s" "CHR ''@'' \<notin> set s"
  using assms by (auto simp: canonical_segment_def separator_not_alphanumeric)

lemma canonical_segment_not_Nil: "canonical_segment s \<Longrightarrow> s \<noteq> []"
  by (simp add: canonical_segment_def)

text \<open>
  The major suffix. The documentation asks for a positive major, and the parser's own message
  excludes leading zeroes: digits, the first of them not zero. The value is held in 64 bits.
  The parser also accepts a second form that no documentation mentions, a plus sign followed by
  any digits, leading zeroes included.
\<close>

definition canonical_major :: "string \<Rightarrow> u64 \<Rightarrow> bool" where
  "canonical_major t m \<longleftrightarrow>
     t \<noteq> [] \<and> list_all is_ascii_digit t \<and> hd t \<noteq> CHR ''0'' \<and> m = decimal t \<and> 0 < m \<and> m \<le> u64_max"

definition plus_major :: "string \<Rightarrow> u64 \<Rightarrow> bool" where
  "plus_major t m \<longleftrightarrow>
     (\<exists>d. t = CHR ''+'' # d \<and> d \<noteq> [] \<and> list_all is_ascii_digit d \<and> m = decimal d \<and>
        0 < m \<and> m \<le> u64_max)"

definition accepted_major :: "string \<Rightarrow> u64 \<Rightarrow> bool" where
  "accepted_major t m \<longleftrightarrow> canonical_major t m \<or> plus_major t m"

lemmas major_defs = accepted_major_def canonical_major_def plus_major_def

lemma digits_free: "list_all is_ascii_digit d \<Longrightarrow> CHR ''@'' \<notin> set d"
proof -
  have "\<not> is_ascii_digit CHR ''@''" by (simp add: is_ascii_digit_def)
  then show "list_all is_ascii_digit d \<Longrightarrow> ?thesis" by (auto simp: list_all_iff)
qed

lemma accepted_major_free: "accepted_major t m \<Longrightarrow> CHR ''@'' \<notin> set t"
  by (auto simp: major_defs dest: digits_free)

lemma single_zero: "decimal ''0'' = 0"
  by (simp add: decimal_def digit_of_def)

lemma parse_accepted_major:
  "t \<noteq> [] \<and> \<not> (length t > 1 \<and> starts_with ''0'' t) \<and> parse_nonzero_u64 t = Some m
     \<longleftrightarrow> accepted_major t m"
proof -
  have zero: "starts_with ''0'' d \<longleftrightarrow> d \<noteq> [] \<and> hd d = CHR ''0''" for d
    by (cases d) (auto simp: starts_with_def)
  have one: "d = ''0''" if "d \<noteq> []" "hd d = CHR ''0''" "\<not> length d > 1" for d :: string
    using that by (cases d) auto
  show ?thesis
    unfolding major_defs text_simps zero
    by (auto dest: one simp: single_zero)
qed

record id_parts =
  part_namespace :: string
  part_kind :: string
  part_path :: "string list"
  part_major :: "(string \<times> u64) option"

definition well_formed_parts :: "id_parts \<Rightarrow> bool" where
  "well_formed_parts p \<longleftrightarrow>
     canonical_segment (part_namespace p) \<and> canonical_segment (part_kind p) \<and>
     part_path p \<noteq> [] \<and> (\<forall>s\<in>set (part_path p). canonical_segment s)"

text \<open>The identifiers of the documented grammar, and those whose major carries a plus sign.\<close>

definition documented_parts :: "id_parts \<Rightarrow> bool" where
  "documented_parts p \<longleftrightarrow> well_formed_parts p \<and>
     (case part_major p of None \<Rightarrow> True | Some (t, m) \<Rightarrow> canonical_major t m)"

definition plus_parts :: "id_parts \<Rightarrow> bool" where
  "plus_parts p \<longleftrightarrow> well_formed_parts p \<and>
     (case part_major p of None \<Rightarrow> False | Some (t, m) \<Rightarrow> plus_major t m)"

definition valid_parts :: "id_parts \<Rightarrow> bool" where
  "valid_parts p \<longleftrightarrow> well_formed_parts p \<and>
     (case part_major p of None \<Rightarrow> True | Some (t, m) \<Rightarrow> accepted_major t m)"

lemma valid_parts_iff: "valid_parts p \<longleftrightarrow> documented_parts p \<or> plus_parts p"
  by (auto simp: valid_parts_def documented_parts_def plus_parts_def accepted_major_def
      split: option.splits)

definition base_text :: "id_parts \<Rightarrow> string" where
  "base_text p =
     part_namespace p @ '':'' @ part_kind p @ ''/'' @ join_with CHR ''/'' (part_path p)"

definition id_text :: "id_parts \<Rightarrow> string" where
  "id_text p =
     base_text p @ (case part_major p of None \<Rightarrow> [] | Some (t, m) \<Rightarrow> ''@'' @ t)"

text \<open>What the parser returns for the parts.\<close>

definition id_of_parts :: "id_parts \<Rightarrow> stable_id" where
  "id_of_parts p =
     \<lparr>sid_value = id_text p,
      sid_namespace_end = length (part_namespace p),
      sid_kind_end = length (part_namespace p) + 1 + length (part_kind p),
      sid_major_marker = map_option (\<lambda>_. length (base_text p)) (part_major p),
      sid_major = map_option snd (part_major p)\<rparr>"

lemma path_free:
  assumes "\<forall>s\<in>set ss. canonical_segment s"
  shows "CHR '':'' \<notin> set (join_with CHR ''/'' ss)" "CHR ''@'' \<notin> set (join_with CHR ''/'' ss)"
  using assms set_join_with [of "CHR ''/''" ss]
  by (auto dest!: subsetD dest: canonical_segment_free)

lemma base_text_free: "valid_parts p \<Longrightarrow> CHR ''@'' \<notin> set (base_text p)"
  by (auto simp: base_text_def valid_parts_def well_formed_parts_def path_free dest: canonical_segment_free)

lemma parse_major_suffix_iff:
  "parse_major_suffix v = Inr (base, marker, major) \<longleftrightarrow>
     CHR ''@'' \<notin> set base \<and>
     (v = base \<and> marker = None \<and> major = None \<or>
      (\<exists>t m. v = base @ CHR ''@'' # t \<and> accepted_major t m \<and>
         marker = Some (length base) \<and> major = Some m))"
proof (cases "rsplit_once CHR ''@'' v")
  case None
  then have "CHR ''@'' \<notin> set v" by (simp add: text_simps)
  with None show ?thesis by (auto simp: parse_major_suffix_def Let_def)
next
  case (Some q)
  then obtain b t where r: "rsplit_once CHR ''@'' v = Some (b, t)" by (cases q) auto
  then have v: "v = b @ CHR ''@'' # t" and t: "CHR ''@'' \<notin> set t"
    by (simp_all add: text_simps)
  have "parse_major_suffix v = Inr (base, marker, major) \<longleftrightarrow>
      CHR ''@'' \<notin> set b \<and> base = b \<and> marker = Some (length b) \<and>
      (\<exists>m. major = Some m \<and> accepted_major t m)"
    unfolding parse_major_suffix_def parse_accepted_major [symmetric] Let_def
    by (auto simp: r contains_char split: option.splits)
  also have "\<dots> \<longleftrightarrow> CHR ''@'' \<notin> set base \<and>
     (v = base \<and> marker = None \<and> major = None \<or>
      (\<exists>t m. v = base @ CHR ''@'' # t \<and> accepted_major t m \<and>
         marker = Some (length base) \<and> major = Some m))"
  proof -
    have "base = b \<and> t' = t" if "v = base @ CHR ''@'' # t'" "accepted_major t' m" for t' m
    proof -
      have "rsplit_once CHR ''@'' v = Some (base, t')"
        using that by (simp add: text_simps accepted_major_free)
      with r show ?thesis by simp
    qed
    then show ?thesis using v by auto
  qed
  finally show ?thesis .
qed

lemma parse_base_iff:
  "(split_once CHR '':'' base = Some (n, r) \<and> \<not> contains_text '':'' r \<and>
    split_once CHR ''/'' r = Some (k, path) \<and>
    is_identifier_segment n \<and> is_identifier_segment k \<and> path \<noteq> [] \<and>
    list_all is_identifier_segment (split_on CHR ''/'' path)) \<longleftrightarrow>
   (\<exists>ss. base = n @ '':'' @ k @ ''/'' @ join_with CHR ''/'' ss \<and>
      r = k @ ''/'' @ path \<and> path = join_with CHR ''/'' ss \<and>
      canonical_segment n \<and> canonical_segment k \<and> ss \<noteq> [] \<and>
      (\<forall>s\<in>set ss. canonical_segment s))"
  (is "?lhs \<longleftrightarrow> ?rhs")
proof
  assume ?lhs
  then show ?rhs
    by (intro exI [of _ "split_on CHR ''/'' path"])
      (simp add: split_once_Some is_identifier_segment_iff list_all_iff)
next
  assume ?rhs
  then obtain ss where ss: "base = n @ '':'' @ k @ ''/'' @ join_with CHR ''/'' ss"
      "r = k @ ''/'' @ path" "path = join_with CHR ''/'' ss"
      "canonical_segment n" "canonical_segment k" "ss \<noteq> []"
      "\<forall>s\<in>set ss. canonical_segment s"
    by blast
  have sp: "split_on CHR ''/'' path = ss"
    unfolding ss(3) using ss(6,7) by (intro split_on_join) (simp_all add: canonical_segment_free)
  have "path \<noteq> []"
  proof
    assume "path = []"
    with sp have "[] \<in> set ss" by (simp flip: sp)
    with ss(7) show False by (auto dest: canonical_segment_not_Nil)
  qed
  moreover have "CHR '':'' \<notin> set n" "CHR ''/'' \<notin> set k" "CHR '':'' \<notin> set k"
    using ss(4,5) by (simp_all add: canonical_segment_free)
  moreover have "CHR '':'' \<notin> set path"
    unfolding ss(3) by (rule path_free(1) [OF ss(7)])
  ultimately show ?lhs
    using ss(4,5,7)
    by (simp add: split_once_Some contains_char is_identifier_segment_iff list_all_iff sp
        ss(1,2) flip: ss(3))
qed

lemma parse_stable_id_steps:
  "parse_stable_id v = Inr i \<longleftrightarrow>
     (\<exists>base marker major n r k path.
        parse_major_suffix v = Inr (base, marker, major) \<and>
        (split_once CHR '':'' base = Some (n, r) \<and> \<not> contains_text '':'' r \<and>
         split_once CHR ''/'' r = Some (k, path) \<and>
         is_identifier_segment n \<and> is_identifier_segment k \<and> path \<noteq> [] \<and>
         list_all is_identifier_segment (split_on CHR ''/'' path)) \<and>
        i = \<lparr>sid_value = v, sid_namespace_end = length n,
             sid_kind_end = length n + 1 + length k, sid_major_marker = marker,
             sid_major = major\<rparr>)"
  (is "_ \<longleftrightarrow> ?rhs")
proof
  assume ok: "parse_stable_id v = Inr i"
  then obtain base marker major where
      suffix: "parse_major_suffix v = Inr (base, marker, major)"
    unfolding parse_stable_id_def Let_def and_then_Inr by fast
  show ?rhs
  proof (cases "split_once CHR '':'' base")
    case None
    with ok suffix show ?thesis by (simp add: parse_stable_id_def Let_def)
  next
    case (Some q)
    then obtain n r where nr: "split_once CHR '':'' base = Some (n, r)" by (cases q) auto
    show ?thesis
    proof (cases "split_once CHR ''/'' r")
      case None
      with ok suffix nr show ?thesis
        by (simp add: parse_stable_id_def Let_def split: if_splits)
    next
      case (Some q')
      then obtain k path where kp: "split_once CHR ''/'' r = Some (k, path)"
        by (cases q') auto
      show ?thesis
        by (rule exI [of _ base], rule exI [of _ marker], rule exI [of _ major],
            rule exI [of _ n], rule exI [of _ r], rule exI [of _ k], rule exI [of _ path])
          (use ok suffix nr kp in \<open>simp add: parse_stable_id_def Let_def split: if_splits\<close>)
    qed
  qed
next
  assume ?rhs
  then show "parse_stable_id v = Inr i"
    by (elim exE conjE) (simp add: parse_stable_id_def Let_def)
qed

lemma parse_stable_id_parts:
  "parse_stable_id v = Inr i \<longleftrightarrow>
     (\<exists>p. valid_parts p \<and> v = id_text p \<and> i = id_of_parts p)"
proof
  assume "parse_stable_id v = Inr i"
  then obtain base marker major n k ss where
      suffix: "parse_major_suffix v = Inr (base, marker, major)" and
      base: "base = n @ '':'' @ k @ ''/'' @ join_with CHR ''/'' ss"
        "canonical_segment n" "canonical_segment k" "ss \<noteq> []"
        "\<forall>s\<in>set ss. canonical_segment s" and
      i: "i = \<lparr>sid_value = v, sid_namespace_end = length n,
             sid_kind_end = length n + 1 + length k, sid_major_marker = marker,
             sid_major = major\<rparr>"
    unfolding parse_stable_id_steps parse_base_iff by blast
  from suffix consider
      "v = base" "marker = None" "major = None"
    | t m where "v = base @ CHR ''@'' # t" "accepted_major t m"
        "marker = Some (length base)" "major = Some m"
    unfolding parse_major_suffix_iff by blast
  then show "\<exists>p. valid_parts p \<and> v = id_text p \<and> i = id_of_parts p"
  proof cases
    case 1
    then show ?thesis
      using base i
      by (intro exI [of _ "\<lparr>part_namespace = n, part_kind = k, part_path = ss,
              part_major = None\<rparr>"])
        (auto simp: valid_parts_def well_formed_parts_def id_text_def base_text_def id_of_parts_def)
  next
    case 2
    then show ?thesis
      using base i
      by (intro exI [of _ "\<lparr>part_namespace = n, part_kind = k, part_path = ss,
              part_major = Some (t, m)\<rparr>"])
        (auto simp: valid_parts_def well_formed_parts_def id_text_def base_text_def id_of_parts_def)
  qed
next
  assume "\<exists>p. valid_parts p \<and> v = id_text p \<and> i = id_of_parts p"
  then obtain p where p: "valid_parts p" and v: "v = id_text p" and i: "i = id_of_parts p"
    by blast
  have "parse_major_suffix v = Inr (base_text p, sid_major_marker i, sid_major i)"
    unfolding parse_major_suffix_iff
    using p v i base_text_free [OF p]
    by (auto simp: id_text_def id_of_parts_def valid_parts_def well_formed_parts_def split: option.splits prod.splits)
  moreover have "\<exists>ss. base_text p = part_namespace p @ '':'' @ part_kind p @ ''/'' @
        join_with CHR ''/'' ss \<and>
      part_kind p @ ''/'' @ join_with CHR ''/'' (part_path p) =
        part_kind p @ ''/'' @ join_with CHR ''/'' (part_path p) \<and>
      join_with CHR ''/'' (part_path p) = join_with CHR ''/'' ss \<and>
      canonical_segment (part_namespace p) \<and> canonical_segment (part_kind p) \<and>
      ss \<noteq> [] \<and> (\<forall>s\<in>set ss. canonical_segment s)"
    using p by (intro exI [of _ "part_path p"]) (simp add: base_text_def valid_parts_def well_formed_parts_def)
  moreover have "i = \<lparr>sid_value = v, sid_namespace_end = length (part_namespace p),
      sid_kind_end = length (part_namespace p) + 1 + length (part_kind p),
      sid_major_marker = sid_major_marker i, sid_major = sid_major i\<rparr>"
    by (simp add: i v id_of_parts_def)
  ultimately show "parse_stable_id v = Inr i"
    unfolding parse_stable_id_steps parse_base_iff by blast
qed

lemma id_of_parts_accessors:
  "sid_namespace (id_of_parts p) = part_namespace p"
  "sid_kind (id_of_parts p) = part_kind p"
  "sid_path (id_of_parts p) = join_with CHR ''/'' (part_path p)"
  "sid_major (id_of_parts p) = map_option snd (part_major p)"
  "sid_value (id_of_parts p) = id_text p"
  by (auto simp: sid_namespace_def sid_kind_def sid_path_def id_of_parts_def id_text_def
      base_text_def slice_def split: option.splits)

subsection \<open>Properties\<close>

text \<open>C31: the parser of stable identifiers accepts the texts of the documented grammar, whose
  major is a positive decimal of 64 bits without leading zeroes, and besides them exactly the
  texts that have a plus sign and any digits of such a value (\<open>@+1\<close>, \<open>@+01\<close>) for a major, which
  the documentation does not allow: a deviation, not part of the grammar. In both cases the
  accessors of the parsed identifier (slices at the recorded positions) return the namespace,
  the kind, the slash-joined path and the value of the major the text was built from.\<close>

theorem stable_id_grammar:
  "parse_stable_id v = Inr i \<longleftrightarrow>
     (\<exists>p. (documented_parts p \<or> plus_parts p) \<and> v = id_text p \<and> i = id_of_parts p \<and>
        sid_value i = v \<and> sid_namespace i = part_namespace p \<and> sid_kind i = part_kind p \<and>
        sid_path i = join_with CHR ''/'' (part_path p) \<and>
        sid_major i = map_option snd (part_major p))"
  using id_of_parts_accessors unfolding parse_stable_id_parts valid_parts_iff by auto

text \<open>The major of an identifier has aliases. The parser rejects a leading zero, but the
  integer parser it calls skips a plus sign, so distinct texts are accepted as identifiers
  with the same namespace, kind, path and major; as map keys and in the derived equality
  they are different identifiers.\<close>

definition id_view :: "identifier_error + stable_id \<Rightarrow> (string \<times> string \<times> string \<times> u64 option) option"
where
  "id_view r =
     (case r of Inl _ \<Rightarrow> None
      | Inr i \<Rightarrow> Some (sid_namespace i, sid_kind i, sid_path i, sid_major i))"

theorem major_aliases:
  "id_view (parse_stable_id ''a:block/b@1'') = Some (''a'', ''block'', ''b'', Some 1) \<and>
   id_view (parse_stable_id ''a:block/b@+1'') = Some (''a'', ''block'', ''b'', Some 1) \<and>
   id_view (parse_stable_id ''a:block/b@+01'') = Some (''a'', ''block'', ''b'', Some 1) \<and>
   id_view (parse_stable_id ''a:block/b@01'') = None \<and>
   parse_stable_id ''a:block/b@1'' \<noteq> parse_stable_id ''a:block/b@+1''"
  by code_simp

end
