(* ===== verification/Version_Req.thy ===== *)
theory Version_Req
  imports Identifier
begin

section \<open>Package versions and version requirements\<close>

text \<open>
  The second half of \<open>identifier.rs\<close>: package versions, their two orders, and version
  requirements, which are parsed from the exact, comparator, tilde and caret forms into a
  normalised list of comparators and matched against candidates. Parsing and printing a
  version and ordering pre-release and build texts belong to the \<open>semver\<close> crate and are
  fields of a record argument; \<^theory_text>\<open>semver_laws\<close> collects what the code relies on.
\<close>

subsection \<open>Comparison\<close>

datatype ordering = Ord_Less | Ord_Equal | Ord_Greater

definition cmp_of :: "'a::linorder \<Rightarrow> 'a \<Rightarrow> ordering" where
  "cmp_of a b = (if a < b then Ord_Less else if a = b then Ord_Equal else Ord_Greater)"

definition then_with :: "ordering \<Rightarrow> ordering \<Rightarrow> ordering" where
  "then_with a b = (case a of Ord_Equal \<Rightarrow> b | _ \<Rightarrow> a)"

subsection \<open>Versions\<close>

record version =
  v_major :: u64
  v_minor :: u64
  v_patch :: u64
  v_pre :: string
  v_build :: string

definition version_new :: "u64 \<Rightarrow> u64 \<Rightarrow> u64 \<Rightarrow> version" where
  "version_new a b c = \<lparr>v_major = a, v_minor = b, v_patch = c, v_pre = [], v_build = []\<rparr>"

record semver =
  sv_parse :: "string \<Rightarrow> string + version"
  sv_show :: "version \<Rightarrow> string"
  sv_pre_cmp :: "string \<Rightarrow> string \<Rightarrow> ordering"
  sv_build_cmp :: "string \<Rightarrow> string \<Rightarrow> ordering"

definition version_precedence_cmp :: "semver \<Rightarrow> version \<Rightarrow> version \<Rightarrow> ordering" where
  "version_precedence_cmp sv l r =
     then_with (then_with (then_with (cmp_of (v_major l) (v_major r))
       (cmp_of (v_minor l) (v_minor r))) (cmp_of (v_patch l) (v_patch r)))
       (sv_pre_cmp sv (v_pre l) (v_pre r))"

definition version_exact_cmp :: "semver \<Rightarrow> version \<Rightarrow> version \<Rightarrow> ordering" where
  "version_exact_cmp sv l r =
     then_with (version_precedence_cmp sv l r) (sv_build_cmp sv (v_build l) (v_build r))"

definition same_version_core :: "version \<Rightarrow> version \<Rightarrow> bool" where
  "same_version_core l r \<longleftrightarrow>
     v_major l = v_major r \<and> v_minor l = v_minor r \<and> v_patch l = v_patch r"

definition parse_package_version :: "semver \<Rightarrow> string \<Rightarrow> identifier_error + version" where
  "parse_package_version sv t =
     (case sv_parse sv t of
        Inl e \<Rightarrow> Inl (InvalidPackageVersion t e)
      | Inr v \<Rightarrow> Inr v)"

subsection \<open>Comparators and requirements\<close>

datatype comparator_operator = Equal | Less | LessOrEqual | Greater | GreaterOrEqual

fun operator_text :: "comparator_operator \<Rightarrow> string" where
  "operator_text Equal = ''=''"
| "operator_text Less = ''<''"
| "operator_text LessOrEqual = ''<=''"
| "operator_text Greater = ''>''"
| "operator_text GreaterOrEqual = ''>=''"

fun comparator_rank :: "comparator_operator \<Rightarrow> nat" where
  "comparator_rank Equal = 0"
| "comparator_rank GreaterOrEqual = 1"
| "comparator_rank Greater = 2"
| "comparator_rank Less = 3"
| "comparator_rank LessOrEqual = 4"

record version_comparator =
  vc_operator :: comparator_operator
  vc_version :: version

definition comparator_matches :: "semver \<Rightarrow> version_comparator \<Rightarrow> version \<Rightarrow> bool" where
  "comparator_matches sv c candidate =
     (let ordering = version_precedence_cmp sv candidate (vc_version c) in
      case vc_operator c of
        Equal \<Rightarrow> ordering = Ord_Equal
      | Less \<Rightarrow> ordering = Ord_Less
      | LessOrEqual \<Rightarrow> ordering \<noteq> Ord_Greater
      | Greater \<Rightarrow> ordering = Ord_Greater
      | GreaterOrEqual \<Rightarrow> ordering \<noteq> Ord_Less)"

type_synonym version_req = "version_comparator list"

definition req_matches :: "semver \<Rightarrow> version_req \<Rightarrow> version \<Rightarrow> bool" where
  "req_matches sv req candidate =
     (if v_pre candidate \<noteq> [] \<and>
         \<not> list_ex (\<lambda>c. v_pre (vc_version c) \<noteq> [] \<and>
             same_version_core (vc_version c) candidate) req
      then False
      else list_all (\<lambda>c. comparator_matches sv c candidate) req)"

definition show_comparator :: "semver \<Rightarrow> version_comparator \<Rightarrow> string" where
  "show_comparator sv c = operator_text (vc_operator c) @ sv_show sv (vc_version c)"

definition show_req :: "semver \<Rightarrow> version_req \<Rightarrow> string" where
  "show_req sv req = join_with CHR '' '' (List.map (show_comparator sv) req)"

subsection \<open>Normalisation\<close>

text \<open>\<open>sort_by\<close> is stable: an element is inserted before those it compares equal to.\<close>

fun insert_by :: "('a \<Rightarrow> 'a \<Rightarrow> ordering) \<Rightarrow> 'a \<Rightarrow> 'a list \<Rightarrow> 'a list" where
  "insert_by cmp x [] = [x]"
| "insert_by cmp x (y # ys) =
     (if cmp x y = Ord_Greater then y # insert_by cmp x ys else x # y # ys)"

definition sort_by :: "('a \<Rightarrow> 'a \<Rightarrow> ordering) \<Rightarrow> 'a list \<Rightarrow> 'a list" where
  "sort_by cmp xs = foldr (insert_by cmp) xs []"

definition comparator_cmp :: "semver \<Rightarrow> version_comparator \<Rightarrow> version_comparator \<Rightarrow> ordering"
where
  "comparator_cmp sv l r =
     then_with (cmp_of (comparator_rank (vc_operator l)) (comparator_rank (vc_operator r)))
       (version_exact_cmp sv (vc_version l) (vc_version r))"

definition normalize_comparators :: "semver \<Rightarrow> version_req \<Rightarrow> version_req" where
  "normalize_comparators sv cs = remdups_adj (sort_by (comparator_cmp sv) cs)"

subsection \<open>Parsing\<close>

fun identifier_error_text :: "identifier_error \<Rightarrow> string" where
  "identifier_error_text (InvalidPackageName v r) = ''invalid package name `'' @ v @ ''`: '' @ r"
| "identifier_error_text (InvalidStableId v r) = ''invalid stable ID `'' @ v @ ''`: '' @ r"
| "identifier_error_text (InvalidCapabilityId v r) =
     ''invalid capability ID `'' @ v @ ''`: '' @ r"
| "identifier_error_text (InvalidSchemaId v r) = ''invalid schema ID `'' @ v @ ''`: '' @ r"
| "identifier_error_text (InvalidSourceId v r) = ''invalid source ID `'' @ v @ ''`: '' @ r"
| "identifier_error_text (InvalidPackageVersion v r) =
     ''invalid package version `'' @ v @ ''`: '' @ r"
| "identifier_error_text (InvalidPackageVersionReq v r) =
     ''invalid package version requirement `'' @ v @ ''`: '' @ r"
| "identifier_error_text (InvalidTargetTriple v r) = ''invalid target triple `'' @ v @ ''`: '' @ r"
| "identifier_error_text (InvalidWorldId v r) = ''invalid world ID `'' @ v @ ''`: '' @ r"

definition parse_req_version :: "semver \<Rightarrow> string \<Rightarrow> string \<Rightarrow> identifier_error + version" where
  "parse_req_version sv rng t =
     (case parse_package_version sv t of
        Inl e \<Rightarrow> Inl (InvalidPackageVersionReq rng (identifier_error_text e))
      | Inr parsed \<Rightarrow>
          if v_build parsed \<noteq> []
          then Inl (InvalidPackageVersionReq rng
            ''version requirements must not include SemVer build metadata'')
          else Inr parsed)"

definition parse_comparator_version ::
    "semver \<Rightarrow> string \<Rightarrow> string \<Rightarrow> string \<Rightarrow> identifier_error + version" where
  "parse_comparator_version sv rng token prefix =
     parse_req_version sv rng (drop (length prefix) token)"

definition token_operator :: "string \<Rightarrow> (comparator_operator \<times> string) option" where
  "token_operator token =
     (if starts_with ''>='' token then Some (GreaterOrEqual, ''>='')
      else if starts_with ''<='' token then Some (LessOrEqual, ''<='')
      else if starts_with ''>'' token then Some (Greater, ''>'')
      else if starts_with ''<'' token then Some (Less, ''<'')
      else None)"

fun parse_comparators ::
    "semver \<Rightarrow> string \<Rightarrow> string list \<Rightarrow> identifier_error + version_comparator list" where
  "parse_comparators sv v [] = Inr []"
| "parse_comparators sv v (token # tokens) =
     (case token_operator token of
        None \<Rightarrow> Inl (InvalidPackageVersionReq v
          ''only explicit comparator intersections, exact, tilde, or caret ranges are supported'')
      | Some (operator, prefix) \<Rightarrow>
          and_then (parse_comparator_version sv v token prefix) (\<lambda>ver.
          and_then (parse_comparators sv v tokens) (\<lambda>cs.
          Inr (\<lparr>vc_operator = operator, vc_version = ver\<rparr> # cs))))"

definition range_pair :: "semver \<Rightarrow> version \<Rightarrow> version \<Rightarrow> version_req" where
  "range_pair sv lower upper =
     normalize_comparators sv
       [\<lparr>vc_operator = GreaterOrEqual, vc_version = lower\<rparr>,
        \<lparr>vc_operator = Less, vc_version = upper\<rparr>]"

definition parse_tilde :: "semver \<Rightarrow> string \<Rightarrow> string \<Rightarrow> identifier_error + version_req" where
  "parse_tilde sv v version_text =
     (let invalid = InvalidPackageVersionReq v in
      if contains_whitespace version_text
      then Inl (invalid ''tilde ranges contain exactly one complete version'')
      else and_then (parse_req_version sv v version_text) (\<lambda>lower.
        and_then (ok_or (checked_add u64_max (v_minor lower) 1)
            (invalid ''tilde upper bound overflows the minor version'')) (\<lambda>upper_minor.
        Inr (range_pair sv lower (version_new (v_major lower) upper_minor 0)))))"

definition parse_caret :: "semver \<Rightarrow> string \<Rightarrow> string \<Rightarrow> identifier_error + version_req" where
  "parse_caret sv v version_text =
     (let invalid = InvalidPackageVersionReq v in
      if contains_whitespace version_text
      then Inl (invalid ''caret ranges contain exactly one complete version'')
      else and_then (parse_req_version sv v version_text) (\<lambda>lower.
        and_then (ok_or (checked_add u64_max (v_major lower) 1)
            (invalid ''caret upper bound overflows the major version'')) (\<lambda>upper_major.
        Inr (range_pair sv lower (version_new upper_major 0 0)))))"

definition parse_intersection :: "semver \<Rightarrow> string \<Rightarrow> identifier_error + version_req" where
  "parse_intersection sv v =
     (let tokens = split_ascii_whitespace v in
      if tokens = []
      then Inl (InvalidPackageVersionReq v ''a version range requires at least one comparator'')
      else if length tokens = 1 \<and> starts_with ''='' (tokens ! 0)
      then and_then (parse_comparator_version sv v (tokens ! 0) ''='') (\<lambda>ver.
        Inr [\<lparr>vc_operator = Equal, vc_version = ver\<rparr>])
      else and_then (parse_comparators sv v tokens) (\<lambda>cs.
        Inr (normalize_comparators sv cs)))"

definition parse_package_version_req :: "semver \<Rightarrow> string \<Rightarrow> identifier_error + version_req" where
  "parse_package_version_req sv v =
     (let invalid = InvalidPackageVersionReq v in
      if v = [] \<or> trim_changes v
      then Inl (invalid ''a version range must be non-empty without surrounding whitespace'')
      else if contains_text ''||'' v \<or> contains_text ''*'' v
      then Inl (invalid ''unions and wildcard ranges are not supported'')
      else if contains_text '','' v
      then Inl (invalid ''comparator intersections use ASCII whitespace, not commas'')
      else case strip_prefix ''~'' v of
        Some version_text \<Rightarrow> parse_tilde sv v version_text
      | None \<Rightarrow>
          (case strip_prefix ''^'' v of
             Some version_text \<Rightarrow> parse_caret sv v version_text
           | None \<Rightarrow> parse_intersection sv v))"

end
