(* ===== verification/Registration_Ids.thy ===== *)
theory Registration_Ids
  imports Storage Version_Req
begin

section \<open>Typed registration identifiers\<close>

text \<open>
  The identifiers of gameplay registrations (\<open>id.rs\<close>) and the dimension identifier of
  storage (\<open>model.rs\<close>): stable identifiers of a fixed kind, with a required major for the
  versioned contracts. The nine gameplay types are one macro with the kind and the
  requirement as arguments. The other components use the validated texts.
\<close>

datatype gameplay_id_error =
    MalformedStableId identifier_error
  | WrongKind string string string
  | MissingMajor string

definition parse_typed_id :: "string \<Rightarrow> bool \<Rightarrow> string \<Rightarrow> gameplay_id_error + stable_id" where
  "parse_typed_id kind major_required v =
     (case parse_stable_id v of
        Inl e \<Rightarrow> Inl (MalformedStableId e)
      | Inr i \<Rightarrow>
          if sid_kind i \<noteq> kind then Inl (WrongKind kind (sid_kind i) (sid_value i))
          else if major_required \<and> sid_major i = None then Inl (MissingMajor (sid_value i))
          else Inr i)"

definition parse_item_id :: "string \<Rightarrow> gameplay_id_error + stable_id" where
  "parse_item_id = parse_typed_id ''item'' False"

definition parse_block_id :: "string \<Rightarrow> gameplay_id_error + stable_id" where
  "parse_block_id = parse_typed_id ''block'' False"

definition parse_item_tag_id :: "string \<Rightarrow> gameplay_id_error + stable_id" where
  "parse_item_tag_id = parse_typed_id ''item-tag'' True"

definition parse_item_category_id :: "string \<Rightarrow> gameplay_id_error + stable_id" where
  "parse_item_category_id = parse_typed_id ''item-category'' True"

definition parse_item_role_id :: "string \<Rightarrow> gameplay_id_error + stable_id" where
  "parse_item_role_id = parse_typed_id ''item-role'' True"

definition parse_recipe_id :: "string \<Rightarrow> gameplay_id_error + stable_id" where
  "parse_recipe_id = parse_typed_id ''recipe'' True"

definition parse_workstation_id :: "string \<Rightarrow> gameplay_id_error + stable_id" where
  "parse_workstation_id = parse_typed_id ''workstation'' True"

definition parse_process_id :: "string \<Rightarrow> gameplay_id_error + stable_id" where
  "parse_process_id = parse_typed_id ''process'' True"

definition parse_tool_class_id :: "string \<Rightarrow> gameplay_id_error + stable_id" where
  "parse_tool_class_id = parse_typed_id ''tool-class'' True"

definition dimension_id_new :: "stable_id \<Rightarrow> storage_error + stable_id" where
  "dimension_id_new i =
     (if sid_kind i \<noteq> ''dimension''
      then Inl (InvalidDimensionId (sid_value i) ''registration kind must be `dimension`'')
      else Inr i)"

definition parse_dimension_id :: "string \<Rightarrow> storage_error + stable_id" where
  "parse_dimension_id v =
     (case parse_stable_id v of
        Inl e \<Rightarrow> Inl (InvalidDimensionId v (identifier_error_text e))
      | Inr i \<Rightarrow> dimension_id_new i)"

lemma parse_typed_id_Inr:
  "parse_typed_id kind req v = Inr i \<longleftrightarrow>
     parse_stable_id v = Inr i \<and> sid_kind i = kind \<and> (req \<longrightarrow> sid_major i \<noteq> None)"
  by (auto simp: parse_typed_id_def split: sum.splits)

lemma parse_dimension_id_Inr:
  "parse_dimension_id v = Inr i \<longleftrightarrow> parse_stable_id v = Inr i \<and> sid_kind i = ''dimension''"
  by (auto simp: parse_dimension_id_def dimension_id_new_def split: sum.splits)

lemma typed_id_text:
  assumes "parse_typed_id kind req v = Inr i"
  shows "\<exists>p. valid_parts p \<and> v = id_text p \<and> part_kind p = kind \<and>
    (req \<longrightarrow> part_major p \<noteq> None)"
  using assms id_of_parts_accessors
  unfolding parse_typed_id_Inr parse_stable_id_parts by fastforce

lemma typed_id_kind_unique:
  "parse_typed_id kind req v = Inr i \<Longrightarrow> parse_typed_id kind' req' v = Inr i' \<Longrightarrow> kind = kind'"
  by (auto simp: parse_typed_id_Inr)

end
