(* ===== verification/Version_Order.thy ===== *)
theory Version_Order
  imports Version_Req
begin

section \<open>Orders on versions and the normal form of a requirement\<close>

text \<open>
  The comparison functions are total preorders built with \<^theory_text>\<open>then_with\<close>; on comparators the
  order is linear, so that the sorted list without duplicates depends on the set of
  comparators only. What the code relies on of the \<open>semver\<close> crate is stated here.
\<close>

definition preorder_cmp :: "('a \<Rightarrow> 'a \<Rightarrow> ordering) \<Rightarrow> bool" where
  "preorder_cmp c \<longleftrightarrow>
     (\<forall>a. c a a = Ord_Equal) \<and>
     (\<forall>a b. c a b = Ord_Less \<longleftrightarrow> c b a = Ord_Greater) \<and>
     (\<forall>a b d. c a b \<noteq> Ord_Greater \<longrightarrow> c b d \<noteq> Ord_Greater \<longrightarrow> c a d \<noteq> Ord_Greater)"

definition linear_cmp :: "('a \<Rightarrow> 'a \<Rightarrow> ordering) \<Rightarrow> bool" where
  "linear_cmp c \<longleftrightarrow> preorder_cmp c \<and> (\<forall>a b. c a b = Ord_Equal \<longrightarrow> a = b)"

lemma preorder_cmpD:
  assumes "preorder_cmp c"
  shows "c a a = Ord_Equal" "c a b = Ord_Less \<longleftrightarrow> c b a = Ord_Greater"
    "c a b \<noteq> Ord_Greater \<Longrightarrow> c b d \<noteq> Ord_Greater \<Longrightarrow> c a d \<noteq> Ord_Greater"
  using assms unfolding preorder_cmp_def by blast+

lemma preorder_cmp_equal:
  assumes c: "preorder_cmp c"
  shows "c a b = Ord_Equal \<longleftrightarrow> c b a = Ord_Equal"
  using preorder_cmpD(2) [OF c, of a b] preorder_cmpD(2) [OF c, of b a]
  by (cases "c a b"; cases "c b a") auto

lemma preorder_cmp_not_greater:
  assumes c: "preorder_cmp c"
  shows "c a b \<noteq> Ord_Greater \<longleftrightarrow> c b a \<noteq> Ord_Less"
  using preorder_cmpD(2) [OF c, of b a] by simp

lemma preorder_less_trans:
  assumes c: "preorder_cmp c" and ab: "c a b = Ord_Less" and bd: "c b d \<noteq> Ord_Greater"
  shows "c a d = Ord_Less"
proof (rule ccontr)
  assume "c a d \<noteq> Ord_Less"
  then have "c d a \<noteq> Ord_Greater" using preorder_cmpD(2) [OF c] by blast
  then have "c b a \<noteq> Ord_Greater" using preorder_cmpD(3) [OF c bd] by blast
  with ab show False using preorder_cmpD(2) [OF c] by auto
qed

lemma preorder_less_trans2:
  assumes c: "preorder_cmp c" and ab: "c a b \<noteq> Ord_Greater" and bd: "c b d = Ord_Less"
  shows "c a d = Ord_Less"
proof (rule ccontr)
  assume "c a d \<noteq> Ord_Less"
  then have "c d a \<noteq> Ord_Greater" using preorder_cmpD(2) [OF c] by blast
  then have "c d b \<noteq> Ord_Greater" using preorder_cmpD(3) [OF c _ ab] by blast
  with bd show False using preorder_cmpD(2) [OF c] by auto
qed

lemma linear_cmpD:
  "linear_cmp c \<Longrightarrow> preorder_cmp c" "linear_cmp c \<Longrightarrow> c a b = Ord_Equal \<Longrightarrow> a = b"
  by (simp_all add: linear_cmp_def)

lemma linear_cmp_of: "linear_cmp (cmp_of :: 'a::linorder \<Rightarrow> 'a \<Rightarrow> ordering)"
  by (auto simp: linear_cmp_def preorder_cmp_def cmp_of_def split: if_splits)

lemma preorder_cmp_of: "preorder_cmp (cmp_of :: 'a::linorder \<Rightarrow> 'a \<Rightarrow> ordering)"
  using linear_cmp_of by (rule linear_cmpD)

lemma preorder_on_key: "preorder_cmp c \<Longrightarrow> preorder_cmp (\<lambda>a b. c (f a) (f b))"
  unfolding preorder_cmp_def by blast

lemma then_with_simps [simp]:
  "then_with Ord_Less b = Ord_Less" "then_with Ord_Equal b = b"
  "then_with Ord_Greater b = Ord_Greater"
  by (simp_all add: then_with_def)

lemma then_with_Equal: "then_with a b = Ord_Equal \<longleftrightarrow> a = Ord_Equal \<and> b = Ord_Equal"
  by (cases a) auto

lemma then_with_Less:
  "then_with a b = Ord_Less \<longleftrightarrow> a = Ord_Less \<or> a = Ord_Equal \<and> b = Ord_Less"
  by (cases a) auto

lemma then_with_Greater:
  "then_with a b = Ord_Greater \<longleftrightarrow> a = Ord_Greater \<or> a = Ord_Equal \<and> b = Ord_Greater"
  by (cases a) auto

lemma preorder_then_with:
  assumes c: "preorder_cmp c" and d: "preorder_cmp d"
  shows "preorder_cmp (\<lambda>a b. then_with (c a b) (d a b))"
  unfolding preorder_cmp_def
proof (intro conjI allI impI)
  fix x
  show "then_with (c x x) (d x x) = Ord_Equal"
    using preorder_cmpD(1) [OF c] preorder_cmpD(1) [OF d] by simp
next
  fix x y
  show "then_with (c x y) (d x y) = Ord_Less \<longleftrightarrow> then_with (c y x) (d y x) = Ord_Greater"
    using preorder_cmpD(2) [OF c, of x y] preorder_cmpD(2) [OF d, of x y]
      preorder_cmp_equal [OF c, of x y]
    by (simp add: then_with_Less then_with_Greater)
next
  fix x y z
  assume xy: "then_with (c x y) (d x y) \<noteq> Ord_Greater"
    and yz: "then_with (c y z) (d y z) \<noteq> Ord_Greater"
  have cxy: "c x y \<noteq> Ord_Greater" and cyz: "c y z \<noteq> Ord_Greater"
    using xy yz by (auto simp: then_with_Greater)
  show "then_with (c x z) (d x z) \<noteq> Ord_Greater"
  proof (cases "c x z")
    case Ord_Less
    then show ?thesis by simp
  next
    case Ord_Greater
    then show ?thesis using preorder_cmpD(3) [OF c cxy cyz] by simp
  next
    case Ord_Equal
    then have "c x y \<noteq> Ord_Less" "c y z \<noteq> Ord_Less"
      using preorder_less_trans [OF c _ cyz, of x] preorder_less_trans2 [OF c cxy, of z] by auto
    with cxy cyz have "c x y = Ord_Equal" "c y z = Ord_Equal"
      by (cases "c x y"; cases "c y z"; simp)+
    with xy yz Ord_Equal show ?thesis
      using preorder_cmpD(3) [OF d, of x y z] by simp
  qed
qed

subsection \<open>What is relied on of the semver crate\<close>

definition version_char :: "char \<Rightarrow> bool" where
  "version_char c \<longleftrightarrow>
     c \<in> set ''0123456789abcdefghijklmnopqrstuvwxyzABCDEFGHIJKLMNOPQRSTUVWXYZ.-+''"

text \<open>
  \<open>Ord\<close> of \<open>Prerelease\<close> and \<open>BuildMetadata\<close> is a linear order, and a release is
  above its pre-releases. A parsed version, and a version of three 64-bit numbers, prints as
  a text of version characters that parses to the version; the numbers of a parsed version
  fit in 64 bits.
\<close>

definition shows_version :: "semver \<Rightarrow> version \<Rightarrow> bool" where
  "shows_version sv v \<longleftrightarrow>
     sv_parse sv (sv_show sv v) = Inr v \<and> sv_show sv v \<noteq> [] \<and>
     list_all version_char (sv_show sv v)"

definition semver_laws :: "semver \<Rightarrow> bool" where
  "semver_laws sv \<longleftrightarrow>
     linear_cmp (sv_pre_cmp sv) \<and> linear_cmp (sv_build_cmp sv) \<and>
     (\<forall>p. p \<noteq> [] \<longrightarrow> sv_pre_cmp sv p [] = Ord_Less) \<and>
     (\<forall>t v. sv_parse sv t = Inr v \<longrightarrow>
        v_major v \<le> u64_max \<and> v_minor v \<le> u64_max \<and> v_patch v \<le> u64_max \<and>
        shows_version sv v) \<and>
     (\<forall>a b c. a \<le> u64_max \<longrightarrow> b \<le> u64_max \<longrightarrow> c \<le> u64_max \<longrightarrow>
        shows_version sv (version_new a b c))"

lemma semver_lawsD:
  assumes "semver_laws sv"
  shows "linear_cmp (sv_pre_cmp sv)" "linear_cmp (sv_build_cmp sv)"
    "p \<noteq> [] \<Longrightarrow> sv_pre_cmp sv p [] = Ord_Less"
    "sv_parse sv t = Inr v \<Longrightarrow> shows_version sv v"
    "sv_parse sv t = Inr v \<Longrightarrow> v_major v \<le> u64_max"
    "sv_parse sv t = Inr v \<Longrightarrow> v_minor v \<le> u64_max"
    "a \<le> u64_max \<Longrightarrow> b \<le> u64_max \<Longrightarrow> d \<le> u64_max \<Longrightarrow> shows_version sv (version_new a b d)"
  using assms unfolding semver_laws_def by blast+

lemma cmp_of_Equal [simp]: "cmp_of a b = Ord_Equal \<longleftrightarrow> a = b"
  by (auto simp: cmp_of_def)

lemma preorder_precedence:
  assumes "semver_laws sv"
  shows "preorder_cmp (version_precedence_cmp sv)"
proof -
  have pre: "preorder_cmp (sv_pre_cmp sv)"
    using semver_lawsD(1) [OF assms] by (rule linear_cmpD)
  note numbers = preorder_then_with [OF preorder_then_with
      [OF preorder_on_key [OF preorder_cmp_of, of v_major]
          preorder_on_key [OF preorder_cmp_of, of v_minor]]
      preorder_on_key [OF preorder_cmp_of, of v_patch]]
  from preorder_then_with [OF numbers preorder_on_key [OF pre, of v_pre]]
  show ?thesis by (simp add: version_precedence_cmp_def [abs_def])
qed

lemma linear_exact:
  assumes "semver_laws sv"
  shows "linear_cmp (version_exact_cmp sv)"
  unfolding linear_cmp_def
proof (intro conjI allI impI)
  have "preorder_cmp (sv_build_cmp sv)"
    using semver_lawsD(2) [OF assms] by (rule linear_cmpD)
  from preorder_then_with [OF preorder_precedence [OF assms] preorder_on_key [OF this, of v_build]]
  show "preorder_cmp (version_exact_cmp sv)"
    by (simp add: version_exact_cmp_def [abs_def])
next
  fix a b :: version
  assume "version_exact_cmp sv a b = Ord_Equal"
  then show "a = b"
    using linear_cmpD(2) [OF semver_lawsD(1) [OF assms]]
      linear_cmpD(2) [OF semver_lawsD(2) [OF assms]]
    by (intro version.equality)
      (simp_all add: version_exact_cmp_def version_precedence_cmp_def then_with_Equal)
qed

lemma comparator_rank_inj: "comparator_rank a = comparator_rank b \<Longrightarrow> a = b"
  by (cases a; cases b) auto

lemma linear_comparator:
  assumes "semver_laws sv"
  shows "linear_cmp (comparator_cmp sv)"
  unfolding linear_cmp_def
proof (intro conjI allI impI)
  note exact = linear_cmpD(1) [OF linear_exact [OF assms]]
  from preorder_then_with [OF preorder_on_key [OF preorder_cmp_of, of "\<lambda>c. comparator_rank (vc_operator c)"]
      preorder_on_key [OF exact, of vc_version]]
  show "preorder_cmp (comparator_cmp sv)"
    by (simp add: comparator_cmp_def [abs_def])
next
  fix a b :: version_comparator
  assume "comparator_cmp sv a b = Ord_Equal"
  then show "a = b"
    using linear_cmpD(2) [OF linear_exact [OF assms]]
    by (intro version_comparator.equality)
      (auto simp: comparator_cmp_def then_with_Equal dest: comparator_rank_inj)
qed

subsection \<open>Sorting\<close>

lemma set_insert_by [simp]: "set (insert_by c x ys) = insert x (set ys)"
  by (induction ys) auto

lemma set_sort_by [simp]: "set (sort_by c xs) = set xs"
  by (induction xs) (simp_all add: sort_by_def)

definition ascending :: "('a \<Rightarrow> 'a \<Rightarrow> ordering) \<Rightarrow> 'a list \<Rightarrow> bool" where
  "ascending c = sorted_wrt (\<lambda>x y. c x y \<noteq> Ord_Greater)"

definition strictly_ascending :: "('a \<Rightarrow> 'a \<Rightarrow> ordering) \<Rightarrow> 'a list \<Rightarrow> bool" where
  "strictly_ascending c = sorted_wrt (\<lambda>x y. c x y = Ord_Less)"

lemma ascending_insert_by:
  assumes c: "preorder_cmp c" and "ascending c ys"
  shows "ascending c (insert_by c x ys)"
  using assms(2)
proof (induction ys)
  case Nil
  show ?case by (simp add: ascending_def)
next
  case (Cons y ys)
  show ?case
  proof (cases "c x y = Ord_Greater")
    case True
    then have "c y x \<noteq> Ord_Greater" using preorder_cmpD(2) [OF c, of y x] by simp
    with Cons True show ?thesis by (auto simp: ascending_def)
  next
    case False
    then have "\<forall>z\<in>set ys. c x z \<noteq> Ord_Greater"
      using Cons.prems preorder_cmpD(3) [OF c False] by (auto simp: ascending_def)
    with False Cons.prems show ?thesis by (simp add: ascending_def)
  qed
qed

lemma ascending_sort_by: "preorder_cmp c \<Longrightarrow> ascending c (sort_by c xs)"
proof (induction xs)
  case Nil
  show ?case by (simp add: sort_by_def ascending_def)
next
  case (Cons x xs)
  then show ?case using ascending_insert_by [of c "sort_by c xs" x] by (simp add: sort_by_def)
qed

lemma insert_by_ascending:
  assumes "ascending c (x # ys)"
  shows "insert_by c x ys = x # ys"
  using assms by (cases ys) (auto simp: ascending_def)

lemma sort_by_ascending: "ascending c xs \<Longrightarrow> sort_by c xs = xs"
proof (induction xs)
  case Nil
  show ?case by (simp add: sort_by_def)
next
  case (Cons x xs)
  then have "sort_by c xs = xs" by (simp add: ascending_def)
  with insert_by_ascending [OF Cons.prems] show ?case by (simp add: sort_by_def)
qed

lemma strictly_remdups_adj:
  assumes c: "linear_cmp c" and "ascending c xs"
  shows "strictly_ascending c (remdups_adj xs)"
  using assms(2)
proof (induction xs rule: remdups_adj.induct)
  case (3 x y ys)
  note pre = linear_cmpD(1) [OF c]
  show ?case
  proof (cases "x = y")
    case True
    with 3 show ?thesis by (simp add: ascending_def)
  next
    case False
    from 3(3) have xy: "c x y \<noteq> Ord_Greater" and ys: "ascending c (y # ys)"
      by (simp_all add: ascending_def)
    from xy False linear_cmpD(2) [OF c, of x y] have "c x y = Ord_Less"
      by (cases "c x y") auto
    then have "\<forall>z\<in>set (y # ys). c x z = Ord_Less"
      using ys preorder_less_trans [OF pre] by (auto simp: ascending_def)
    with False 3(2) [OF False ys] show ?thesis by (simp add: strictly_ascending_def)
  qed
qed (simp_all add: strictly_ascending_def)

lemma strictly_imp_ascending: "strictly_ascending c xs \<Longrightarrow> ascending c xs"
  unfolding strictly_ascending_def ascending_def by (erule sorted_wrt_mono_rel [rotated]) simp

lemma strictly_not_adjacent:
  assumes c: "preorder_cmp c"
  shows "strictly_ascending c xs \<Longrightarrow> remdups_adj xs = xs"
proof (induction xs rule: remdups_adj.induct)
  case (3 x y ys)
  have "x \<noteq> y"
    using 3(3) preorder_cmpD(1) [OF c, of y] by (auto simp: strictly_ascending_def)
  with 3 show ?case by (simp add: strictly_ascending_def)
qed simp_all

lemma strictly_ascending_unique:
  assumes c: "preorder_cmp c"
  shows "strictly_ascending c xs \<Longrightarrow> strictly_ascending c ys \<Longrightarrow> set xs = set ys \<Longrightarrow> xs = ys"
proof (induction xs arbitrary: ys)
  case Nil
  then show ?case by simp
next
  case (Cons x xs)
  then obtain y ys' where ys: "ys = y # ys'" by (cases ys) auto
  have irrefl: "c a a \<noteq> Ord_Less" for a using preorder_cmpD(1) [OF c, of a] by simp
  have "x = y"
  proof (rule ccontr)
    assume "x \<noteq> y"
    with Cons.prems ys have "x \<in> set ys'" "y \<in> set xs" by auto
    with Cons.prems ys have "c x y = Ord_Less" "c y x = Ord_Less"
      by (auto simp: strictly_ascending_def)
    then show False using preorder_cmpD(2) [OF c, of x y] by simp
  qed
  moreover have "x \<notin> set xs" "y \<notin> set ys'"
    using Cons.prems ys irrefl by (auto simp: strictly_ascending_def)
  ultimately have "set xs = set ys'"
    using Cons.prems(3) ys by (metis insert_ident list.simps(15))
  with Cons ys \<open>x = y\<close> show ?case by (simp add: strictly_ascending_def)
qed

lemma set_normalize [simp]: "set (normalize_comparators sv cs) = set cs"
  by (simp add: normalize_comparators_def)

lemma normalize_strict:
  "semver_laws sv \<Longrightarrow> strictly_ascending (comparator_cmp sv) (normalize_comparators sv cs)"
  unfolding normalize_comparators_def
  by (intro strictly_remdups_adj ascending_sort_by linear_comparator linear_cmpD(1))

lemma normalize_idem:
  assumes sv: "semver_laws sv" and strict: "strictly_ascending (comparator_cmp sv) cs"
  shows "normalize_comparators sv cs = cs"
  using linear_cmpD(1) [OF linear_comparator [OF sv]] strict
  by (simp add: normalize_comparators_def sort_by_ascending strictly_imp_ascending
      strictly_not_adjacent)

lemma req_matches_set:
  "set cs = set ds \<Longrightarrow> req_matches sv cs v \<longleftrightarrow> req_matches sv ds v"
  unfolding req_matches_def list_ex_iff list_all_iff by auto

end
