(* ===== verification/Version_Properties.thy ===== *)
theory Version_Properties
  imports Version_Order
begin

section \<open>What a version requirement accepts, and its text\<close>

text \<open>
  The tilde and caret forms as intervals, the requirement as a function of the set of its
  comparators, and the round trip through the printed form, which is what the serialised
  form of a requirement is.
\<close>

subsection \<open>Intervals\<close>

lemma precedence_numbers:
  "version_precedence_cmp sv l r = Ord_Less \<longleftrightarrow>
     v_major l < v_major r \<or>
     v_major l = v_major r \<and> (v_minor l < v_minor r \<or>
       v_minor l = v_minor r \<and> (v_patch l < v_patch r \<or>
         v_patch l = v_patch r \<and> sv_pre_cmp sv (v_pre l) (v_pre r) = Ord_Less))"
  by (auto simp: version_precedence_cmp_def cmp_of_def)

lemma range_pair_matches:
  "req_matches sv (range_pair sv lower upper) candidate \<longleftrightarrow>
     version_precedence_cmp sv candidate lower \<noteq> Ord_Less \<and>
     version_precedence_cmp sv candidate upper = Ord_Less \<and>
     (v_pre candidate = [] \<or>
      v_pre lower \<noteq> [] \<and> same_version_core lower candidate \<or>
      v_pre upper \<noteq> [] \<and> same_version_core upper candidate)"
proof -
  have "req_matches sv (range_pair sv lower upper) candidate \<longleftrightarrow>
      req_matches sv [\<lparr>vc_operator = GreaterOrEqual, vc_version = lower\<rparr>,
        \<lparr>vc_operator = Less, vc_version = upper\<rparr>] candidate"
    by (intro req_matches_set) (simp add: range_pair_def)
  then show ?thesis
    by (auto simp: req_matches_def comparator_matches_def)
qed

text \<open>
  The version above the range has zeros behind the raised number and no pre-release text:
  it only excludes what differs from the lower bound in that number. The pre-releases
  below it are excluded by the condition on pre-release candidates.
\<close>

definition gated :: "version \<Rightarrow> version \<Rightarrow> bool" where
  "gated lower c \<longleftrightarrow> v_pre c = [] \<or> v_pre lower \<noteq> [] \<and> same_version_core lower c"

lemma release_not_less: "semver_laws sv \<Longrightarrow> sv_pre_cmp sv [] [] \<noteq> Ord_Less"
  using preorder_cmpD(1) [OF linear_cmpD(1) [OF semver_lawsD(1)], of sv "[]"] by simp

lemma caret_upper:
  assumes sv: "semver_laws sv" and ge: "version_precedence_cmp sv c lower \<noteq> Ord_Less"
    and gate: "gated lower c"
  shows "version_precedence_cmp sv c (version_new (v_major lower + 1) 0 0) = Ord_Less \<longleftrightarrow>
    v_major c = v_major lower"
proof -
  have "\<not> v_major c < v_major lower"
    using ge unfolding precedence_numbers by blast
  moreover have "v_major c = v_major lower \<or> v_pre c = []"
    using gate by (auto simp: gated_def same_version_core_def)
  ultimately show ?thesis
    using release_not_less [OF sv]
    by (cases "v_pre c = []") (auto simp: precedence_numbers version_new_def)
qed

lemma tilde_upper:
  assumes sv: "semver_laws sv" and ge: "version_precedence_cmp sv c lower \<noteq> Ord_Less"
    and gate: "gated lower c"
  shows "version_precedence_cmp sv c (version_new (v_major lower) (v_minor lower + 1) 0) = Ord_Less \<longleftrightarrow>
    v_major c = v_major lower \<and> v_minor c = v_minor lower"
proof -
  have "\<not> v_major c < v_major lower"
    "v_major c = v_major lower \<longrightarrow> \<not> v_minor c < v_minor lower"
    using ge unfolding precedence_numbers by blast+
  moreover have "same_version_core lower c \<or> v_pre c = []"
    using gate by (auto simp: gated_def)
  ultimately show ?thesis
    using release_not_less [OF sv]
    by (cases "v_pre c = []") (auto simp: precedence_numbers version_new_def same_version_core_def)
qed

lemma range_pair_new:
  "req_matches sv (range_pair sv lower (version_new a b d)) c \<longleftrightarrow>
     version_precedence_cmp sv c lower \<noteq> Ord_Less \<and> gated lower c \<and>
     version_precedence_cmp sv c (version_new a b d) = Ord_Less"
  by (auto simp: range_pair_matches gated_def version_new_def)

lemma parse_req_version_Inr:
  "parse_req_version sv v t = Inr lower \<longleftrightarrow> sv_parse sv t = Inr lower \<and> v_build lower = []"
  by (auto simp: parse_req_version_def parse_package_version_def split: sum.splits)

lemma parse_caret_Inr:
  "parse_caret sv v t = Inr req \<longleftrightarrow>
     (\<exists>lower. \<not> contains_whitespace t \<and> sv_parse sv t = Inr lower \<and> v_build lower = [] \<and>
        v_major lower + 1 \<le> u64_max \<and>
        req = range_pair sv lower (version_new (v_major lower + 1) 0 0))"
  by (auto simp: parse_caret_def Let_def result_simps checked_simps parse_req_version_Inr)

lemma parse_tilde_Inr:
  "parse_tilde sv v t = Inr req \<longleftrightarrow>
     (\<exists>lower. \<not> contains_whitespace t \<and> sv_parse sv t = Inr lower \<and> v_build lower = [] \<and>
        v_minor lower + 1 \<le> u64_max \<and>
        req = range_pair sv lower (version_new (v_major lower) (v_minor lower + 1) 0))"
  by (auto simp: parse_tilde_def Let_def result_simps checked_simps parse_req_version_Inr)

lemma parse_req_Inr:
  "parse_package_version_req sv v = Inr req \<longleftrightarrow>
     v \<noteq> [] \<and> \<not> trim_changes v \<and> \<not> contains_text ''||'' v \<and> \<not> contains_text ''*'' v \<and>
     \<not> contains_text '','' v \<and>
     (case strip_prefix ''~'' v of
        Some t \<Rightarrow> parse_tilde sv v t = Inr req
      | None \<Rightarrow>
          (case strip_prefix ''^'' v of
             Some t \<Rightarrow> parse_caret sv v t = Inr req
           | None \<Rightarrow> parse_intersection sv v = Inr req))"
  by (simp add: parse_package_version_req_def Let_def split: option.splits)

lemma parse_req_caret:
  "parse_package_version_req sv (CHR ''^'' # t) = Inr req \<Longrightarrow>
     parse_caret sv (CHR ''^'' # t) t = Inr req"
  by (simp add: parse_req_Inr strip_prefix_def)

lemma parse_req_tilde:
  "parse_package_version_req sv (CHR ''~'' # t) = Inr req \<Longrightarrow>
     parse_tilde sv (CHR ''~'' # t) t = Inr req"
  by (simp add: parse_req_Inr strip_prefix_def)

subsection \<open>The printed form\<close>

text \<open>What every parsed requirement satisfies, and what makes its text parse again.\<close>

definition parsed_req :: "semver \<Rightarrow> version_req \<Rightarrow> bool" where
  "parsed_req sv req \<longleftrightarrow>
     req \<noteq> [] \<and>
     (\<forall>c\<in>set req. shows_version sv (vc_version c) \<and> v_build (vc_version c) = []) \<and>
     ((\<exists>v. req = [\<lparr>vc_operator = Equal, vc_version = v\<rparr>]) \<or>
      (\<forall>c\<in>set req. vc_operator c \<noteq> Equal) \<and> strictly_ascending (comparator_cmp sv) req)"

lemma parsed_normalize:
  assumes sv: "semver_laws sv" and "cs \<noteq> []"
    and "\<forall>c\<in>set cs. shows_version sv (vc_version c) \<and> v_build (vc_version c) = [] \<and>
      vc_operator c \<noteq> Equal"
  shows "parsed_req sv (normalize_comparators sv cs)"
proof -
  have "set (normalize_comparators sv cs) \<noteq> {}" using assms(2) by simp
  then have "normalize_comparators sv cs \<noteq> []" by force
  with assms(3) normalize_strict [OF sv] show ?thesis by (simp add: parsed_req_def)
qed

lemma parse_comparators_Inr:
  assumes sv: "semver_laws sv"
  shows "parse_comparators sv v tokens = Inr cs \<Longrightarrow>
    length cs = length tokens \<and>
    (\<forall>c\<in>set cs. shows_version sv (vc_version c) \<and> v_build (vc_version c) = [] \<and>
      vc_operator c \<noteq> Equal)"
proof (induction tokens arbitrary: cs)
  case Nil
  then show ?case by simp
next
  case (Cons token tokens)
  then obtain operator prefix ver cs' where
      op: "token_operator token = Some (operator, prefix)" and
      ver: "parse_comparator_version sv v token prefix = Inr ver" and
      rest: "parse_comparators sv v tokens = Inr cs'" and
      cs: "cs = \<lparr>vc_operator = operator, vc_version = ver\<rparr> # cs'"
    by (auto simp: result_simps split: option.splits prod.splits)
  have "operator \<noteq> Equal" using op by (auto simp: token_operator_def split: if_splits)
  moreover have "shows_version sv ver" "v_build ver = []"
    using ver semver_lawsD(4) [OF sv]
    by (auto simp: parse_comparator_version_def parse_req_version_Inr)
  ultimately show ?case using Cons.IH [OF rest] cs by simp
qed

lemma parsed_range_pair:
  assumes sv: "semver_laws sv" and "sv_parse sv t = Inr lower" "v_build lower = []"
    and "a \<le> u64_max" "b \<le> u64_max"
  shows "parsed_req sv (range_pair sv lower (version_new a b 0))"
  unfolding range_pair_def
  by (rule parsed_normalize [OF sv])
    (use assms semver_lawsD(4,7) [OF sv] in \<open>auto simp: version_new_def\<close>)

lemma parse_parsed:
  assumes sv: "semver_laws sv" and "parse_package_version_req sv v = Inr req"
  shows "parsed_req sv req"
proof -
  from assms(2) consider
      t where "parse_tilde sv v t = Inr req"
    | t where "parse_caret sv v t = Inr req"
    | "parse_intersection sv v = Inr req"
    unfolding parse_req_Inr by (auto split: option.splits)
  then show ?thesis
  proof cases
    case 1
    then show ?thesis
      using parsed_range_pair [OF sv] semver_lawsD(5) [OF sv] by (auto simp: parse_tilde_Inr)
  next
    case 2
    then show ?thesis
      using parsed_range_pair [OF sv] by (auto simp: parse_caret_Inr)
  next
    case 3
    let ?tokens = "split_ascii_whitespace v"
    have ne: "?tokens \<noteq> []" using 3 by (auto simp: parse_intersection_def)
    show ?thesis
    proof (cases "length ?tokens = 1 \<and> starts_with ''='' (?tokens ! 0)")
      case True
      with 3 ne obtain ver where
          "parse_comparator_version sv v (?tokens ! 0) ''='' = Inr ver"
          "req = [\<lparr>vc_operator = Equal, vc_version = ver\<rparr>]"
        by (auto simp: parse_intersection_def Let_def result_simps)
      then show ?thesis
        using semver_lawsD(4) [OF sv]
        by (auto simp: parsed_req_def parse_comparator_version_def parse_req_version_Inr)
    next
      case False
      with 3 ne obtain cs where cs: "parse_comparators sv v ?tokens = Inr cs"
          "req = normalize_comparators sv cs"
        by (auto simp: parse_intersection_def Let_def result_simps split: if_splits)
      with parse_comparators_Inr [OF sv cs(1)] ne show ?thesis
        using parsed_normalize [OF sv, of cs] by (cases cs) auto
    qed
  qed
qed

text \<open>The characters of a printed requirement.\<close>

lemma version_char_facts:
  "\<not> version_char CHR ''=''" "\<not> version_char CHR ''<''" "\<not> version_char CHR ''>''"
  "\<not> version_char CHR ''*''" "\<not> version_char CHR '',''" "\<not> version_char CHR ''|''"
  "\<not> version_char CHR '' ''"
  by (simp_all add: version_char_def)

lemma ascii_whitespace_not_version:
  "list_all (\<lambda>c. \<not> version_char c \<and> c \<notin> set ''<>='') ascii_whitespace"
  by code_simp

lemma whitespace_chars_not_version:
  "list_all (\<lambda>w. w \<noteq> [] \<and> hd w \<notin> set ''<>='' \<and> \<not> version_char (last w)) whitespace_chars"
  by code_simp

lemma token_operator_show:
  assumes "op \<noteq> Equal" and "t \<noteq> []" and "list_all version_char t"
  shows "token_operator (operator_text op @ t) = Some (op, operator_text op)"
proof -
  obtain x t' where t: "t = x # t'" "version_char x"
    using assms(2,3) by (cases t) auto
  then have "x \<noteq> CHR ''=''" using version_char_facts(1) by blast
  with assms(1) t show ?thesis
    by (cases op) (simp_all add: token_operator_def starts_with_def)
qed

lemma parse_comparators_show:
  assumes "\<forall>c\<in>set cs. shows_version sv (vc_version c) \<and> v_build (vc_version c) = [] \<and>
    vc_operator c \<noteq> Equal"
  shows "parse_comparators sv v (List.map (show_comparator sv) cs) = Inr cs"
  using assms
proof (induction cs)
  case Nil
  show ?case by simp
next
  case (Cons c cs)
  then have c: "shows_version sv (vc_version c)" "v_build (vc_version c) = []"
      "vc_operator c \<noteq> Equal"
    by simp_all
  then have "token_operator (show_comparator sv c) =
      Some (vc_operator c, operator_text (vc_operator c))"
    unfolding show_comparator_def by (intro token_operator_show) (auto simp: shows_version_def)
  moreover have "parse_comparator_version sv v (show_comparator sv c) (operator_text (vc_operator c))
      = Inr (vc_version c)"
    using c by (simp add: parse_comparator_version_def show_comparator_def parse_req_version_Inr
        shows_version_def)
  ultimately show ?case using Cons by simp
qed

lemma show_comparator_chars:
  assumes "shows_version sv (vc_version c)"
  shows "show_comparator sv c \<noteq> []"
    "hd (show_comparator sv c) \<in> set ''<>=''"
    "version_char (last (show_comparator sv c))"
    "x \<in> set (show_comparator sv c) \<Longrightarrow> version_char x \<or> x \<in> set ''<>=''"
  using assms
  by (cases "vc_operator c";
      auto simp: show_comparator_def shows_version_def list_all_iff)+

lemma join_with_ends:
  "ts \<noteq> [] \<Longrightarrow> \<forall>t\<in>set ts. t \<noteq> [] \<Longrightarrow>
     join_with c ts \<noteq> [] \<and> hd (join_with c ts) = hd (hd ts) \<and>
     last (join_with c ts) = last (last ts)"
  by (induction c ts rule: join_with.induct) auto

lemma show_req_chars:
  assumes "req \<noteq> []" and "\<forall>c\<in>set req. shows_version sv (vc_version c)"
  shows "show_req sv req \<noteq> []" "hd (show_req sv req) \<in> set ''<>=''"
    "version_char (last (show_req sv req))"
    "x \<in> set (show_req sv req) \<Longrightarrow> version_char x \<or> x \<in> set ''<>= ''"
proof -
  let ?ts = "List.map (show_comparator sv) req"
  have ends: "join_with CHR '' '' ?ts \<noteq> [] \<and> hd (join_with CHR '' '' ?ts) = hd (hd ?ts) \<and>
      last (join_with CHR '' '' ?ts) = last (last ?ts)"
    using assms by (intro join_with_ends) (auto simp: show_comparator_chars)
  show "show_req sv req \<noteq> []" using ends by (simp add: show_req_def)
  show "hd (show_req sv req) \<in> set ''<>=''"
    using ends assms show_comparator_chars(2) [of sv "hd req"] by (simp add: show_req_def hd_map)
  show "version_char (last (show_req sv req))"
    using ends assms show_comparator_chars(3) [of sv "last req"] by (simp add: show_req_def last_map)
  show "version_char x \<or> x \<in> set ''<>= ''" if "x \<in> set (show_req sv req)"
    using that assms(2) set_join_with [of "CHR '' ''" ?ts] show_comparator_chars(4) [of sv]
    by (fastforce simp: show_req_def)
qed

lemma trim_keeps:
  assumes "s \<noteq> []" and "hd s \<in> set ''<>=''" and "version_char (last s)"
  shows "\<not> trim_changes s"
proof
  assume "trim_changes s"
  then obtain w where w: "w \<in> set whitespace_chars" and "starts_with w s \<or> ends_with w s"
    by (auto simp: trim_changes_def list_ex_iff)
  moreover from w have ne: "w \<noteq> []" and "hd w \<notin> set ''<>=''" "\<not> version_char (last w)"
    using whitespace_chars_not_version by (auto simp: list_all_iff)
  moreover have "hd s = hd w" if "starts_with w s"
    using that ne by (auto simp: starts_with_iff)
  moreover have "last s = last w" if "ends_with w s"
  proof -
    from that obtain t where "List.rev s = List.rev w @ t"
      by (auto simp: ends_with_def starts_with_iff)
    then have "s = List.rev t @ w" by (metis rev_append rev_rev_ident)
    with ne show ?thesis by simp
  qed
  ultimately show False using assms by auto
qed

lemma contains_text_chars: "contains_text p s \<Longrightarrow> set p \<subseteq> set s"
  by (auto simp: contains_text_iff)

lemma parsed_parse:
  assumes sv: "semver_laws sv" and req: "parsed_req sv req"
  shows "parse_package_version_req sv (show_req sv req) = Inr req"
proof -
  have ne: "req \<noteq> []" and vs: "\<forall>c\<in>set req. shows_version sv (vc_version c)"
    and build: "\<forall>c\<in>set req. v_build (vc_version c) = []"
    using req by (auto simp: parsed_req_def)
  note chars = show_req_chars [OF ne vs]
  let ?s = "show_req sv req" and ?ts = "List.map (show_comparator sv) req"
  have tokens: "split_ascii_whitespace ?s = ?ts"
    unfolding show_req_def
  proof (rule split_ascii_whitespace_join)
    fix t
    assume "t \<in> set ?ts"
    then obtain c where c: "c \<in> set req" "t = show_comparator sv c" by auto
    then show "t \<noteq> [] \<and> (\<forall>x\<in>set t. x \<notin> set ascii_whitespace)"
      using vs show_comparator_chars(1,4) [of sv c] ascii_whitespace_not_version
      by (auto simp: list_all_iff)
  qed
  have inter: "parse_intersection sv ?s = Inr req"
  proof (cases "\<exists>v. req = [\<lparr>vc_operator = Equal, vc_version = v\<rparr>]")
    case True
    then show ?thesis
      using vs build
      by (auto simp: parse_intersection_def tokens show_comparator_def starts_with_def
          parse_comparator_version_def parse_req_version_Inr shows_version_def result_simps)
  next
    case False
    then have ops: "\<forall>c\<in>set req. vc_operator c \<noteq> Equal"
      and strict: "strictly_ascending (comparator_cmp sv) req"
      using req by (auto simp: parsed_req_def)
    have "\<not> starts_with ''='' (?ts ! 0)"
      using ne ops by (cases req; cases "vc_operator (hd req)")
        (auto simp: show_comparator_def starts_with_def)
    moreover have "parse_comparators sv ?s ?ts = Inr req"
      using vs build ops by (intro parse_comparators_show) auto
    ultimately show ?thesis
      using ne normalize_idem [OF sv strict] by (simp add: parse_intersection_def tokens)
  qed
  have no: "\<not> contains_text ''||'' ?s" "\<not> contains_text ''*'' ?s" "\<not> contains_text '','' ?s"
    using chars(4) [of "CHR ''|''"] chars(4) [of "CHR ''*''"] chars(4) [of "CHR '',''"]
      version_char_facts
    by (auto dest!: contains_text_chars)
  have "strip_prefix ''~'' ?s = None" "strip_prefix ''^'' ?s = None"
    using chars(1,2) by (cases ?s; auto simp: strip_prefix_def)+
  then show ?thesis
    using chars(1) no trim_keeps [OF chars(1-3)] inter by (simp add: parse_req_Inr)
qed

subsection \<open>A version library of release versions\<close>

text \<open>
  An instance of the argument for the witnesses: versions of three numbers in decimal
  without leading zeros, no pre-releases and no build texts.
\<close>

definition text_cmp :: "string \<Rightarrow> string \<Rightarrow> ordering" where
  "text_cmp a b = (if a = b then Ord_Equal
     else if b = [] then Ord_Less else if a = [] then Ord_Greater else cmp_of a b)"

definition show_release :: "version \<Rightarrow> string" where
  "show_release v =
     show_nat (v_major v) @ ''.'' @ show_nat (v_minor v) @ ''.'' @ show_nat (v_patch v)"

definition parse_release :: "string \<Rightarrow> string + version" where
  "parse_release t =
     (case split_on CHR ''.'' t of
        [a, b, c] \<Rightarrow>
          (case (parse_u64 a, parse_u64 b, parse_u64 c) of
             (Some x, Some y, Some z) \<Rightarrow>
               if show_release (version_new x y z) = t then Inr (version_new x y z)
               else Inl ''not canonical''
           | _ \<Rightarrow> Inl ''not a number'')
      | _ \<Rightarrow> Inl ''not three numbers'')"

definition release_semver :: semver where
  "release_semver =
     \<lparr>sv_parse = parse_release, sv_show = show_release, sv_pre_cmp = text_cmp,
      sv_build_cmp = text_cmp\<rparr>"

lemma digit_version_char: "is_ascii_digit c \<Longrightarrow> version_char c \<and> c \<noteq> CHR ''.''"
  by (auto simp: is_ascii_digit_def version_char_def)

lemma show_nat_free: "CHR ''.'' \<notin> set (show_nat n)"
  using show_nat_digits [of n] by (auto simp: list_all_iff dest: digit_version_char)

lemma parse_show_nat: "n \<le> u64_max \<Longrightarrow> parse_u64 (show_nat n) = Some n"
  unfolding parse_u64_iff using show_nat_digits [of n] by (intro exI [of _ "show_nat n"]) auto

lemma show_release_parts:
  "show_release v = join_with CHR ''.'' [show_nat (v_major v), show_nat (v_minor v), show_nat (v_patch v)]"
  by (simp add: show_release_def)

lemma release_shows:
  assumes "a \<le> u64_max" "b \<le> u64_max" "c \<le> u64_max"
  shows "shows_version release_semver (version_new a b c)"
proof -
  let ?v = "version_new a b c"
  have "split_on CHR ''.'' (show_release ?v) = [show_nat a, show_nat b, show_nat c]"
    unfolding show_release_parts
    by (subst split_on_join) (auto simp: show_nat_free version_new_def)
  then have "parse_release (show_release ?v) = Inr ?v"
    using assms by (simp add: parse_release_def parse_show_nat)
  moreover have "list_all version_char (show_nat n)" for n
    using show_nat_digits [of n] by (auto simp: list_all_iff dest: digit_version_char)
  ultimately show ?thesis
    by (simp add: shows_version_def release_semver_def show_release_def version_char_def
        show_nat_digits)
qed

lemma text_cmp_linear: "linear_cmp text_cmp"
  unfolding linear_cmp_def preorder_cmp_def
  by (auto simp: text_cmp_def cmp_of_def split: if_splits)

lemma parse_release_Inr:
  assumes "parse_release t = Inr v"
  shows "\<exists>a b c. v = version_new a b c \<and> a \<le> u64_max \<and> b \<le> u64_max \<and> c \<le> u64_max"
  using assms
  by (auto simp: parse_release_def parse_u64_iff split: list.splits option.splits if_splits)

lemma release_semver_laws: "semver_laws release_semver"
  unfolding semver_laws_def
proof (intro conjI allI impI)
  fix t v
  assume "sv_parse release_semver t = Inr v"
  then obtain a b c where v: "v = version_new a b c" "a \<le> u64_max" "b \<le> u64_max" "c \<le> u64_max"
    using parse_release_Inr [of t v] by (auto simp: release_semver_def)
  then show "shows_version release_semver v" by (simp add: release_shows)
  show "v_major v \<le> u64_max" "v_minor v \<le> u64_max" "v_patch v \<le> u64_max"
    using v by (simp_all add: version_new_def)
qed (auto simp: release_shows, auto simp: release_semver_def text_cmp_linear text_cmp_def)

subsection \<open>Properties\<close>

text \<open>C33: the caret form accepts exactly the versions of the same major that are not below the
  given one, and the tilde form those of the same major and minor; a pre-release is accepted
  only if the given version is a pre-release with the same three numbers, so no pre-release
  of the excluded upper version slips in.\<close>

theorem caret_and_tilde_ranges:
  assumes "semver_laws sv" and "mark \<in> {CHR ''^'', CHR ''~''}"
    and "parse_package_version_req sv (mark # t) = Inr req"
  shows "\<exists>lower. sv_parse sv t = Inr lower \<and>
    (\<forall>c. req_matches sv req c =
       (version_precedence_cmp sv c lower \<noteq> Ord_Less \<and> v_major c = v_major lower \<and>
        (mark = CHR ''^'' \<or> v_minor c = v_minor lower) \<and>
        (v_pre c = [] \<or> v_pre lower \<noteq> [] \<and> same_version_core lower c)))"
proof (cases "mark = CHR ''^''")
  case True
  with assms(3) obtain lower where lower: "sv_parse sv t = Inr lower"
      and req: "req = range_pair sv lower (version_new (v_major lower + 1) 0 0)"
    by (auto dest!: parse_req_caret simp: parse_caret_Inr)
  have "req_matches sv req c \<longleftrightarrow>
      version_precedence_cmp sv c lower \<noteq> Ord_Less \<and> v_major c = v_major lower \<and> gated lower c"
    for c
    unfolding req range_pair_new using caret_upper [OF assms(1), of c lower] by auto
  with lower True show ?thesis by (auto simp: gated_def)
next
  case False
  with assms(2,3) obtain lower where lower: "sv_parse sv t = Inr lower"
      and req: "req = range_pair sv lower (version_new (v_major lower) (v_minor lower + 1) 0)"
    by (auto dest!: parse_req_tilde simp: parse_tilde_Inr)
  have "req_matches sv req c \<longleftrightarrow>
      version_precedence_cmp sv c lower \<noteq> Ord_Less \<and> v_major c = v_major lower \<and>
      v_minor c = v_minor lower \<and> gated lower c" for c
    unfolding req range_pair_new using tilde_upper [OF assms(1), of c lower] by auto
  with lower False show ?thesis by (auto simp: gated_def)
qed

text \<open>C32: the printed form of a parsed requirement, which is also its serialised form, parses
  to the same requirement, whichever of the four forms it was written in.\<close>

theorem req_text_roundtrip:
  assumes "semver_laws sv" and "parse_package_version_req sv v = Inr req"
  shows "parse_package_version_req sv (show_req sv req) = Inr req"
  by (rule parsed_parse [OF assms(1) parse_parsed [OF assms]])

text \<open>Normalisation is canonical. Two comparator lists with the same elements, in any order
  and with any repetitions, normalise to the same list, and normalising changes the accepted
  versions of neither.\<close>

theorem normalize_canonical:
  assumes "semver_laws sv" and "set cs = set ds"
  shows "normalize_comparators sv cs = normalize_comparators sv ds \<and>
    req_matches sv (normalize_comparators sv cs) = req_matches sv ds"
proof
  show "normalize_comparators sv cs = normalize_comparators sv ds"
    by (rule strictly_ascending_unique
        [OF linear_cmpD(1) [OF linear_comparator [OF assms(1)]]
          normalize_strict [OF assms(1)] normalize_strict [OF assms(1)]])
      (simp add: assms(2))
  show "req_matches sv (normalize_comparators sv cs) = req_matches sv ds"
    by (intro ext req_matches_set) (simp add: assms(2))
qed

text \<open>Witnesses.\<close>

lemma caret_and_tilde_ranges_witness:
  "\<exists>lower. sv_parse release_semver ''0.2.3'' = Inr lower \<and>
    (\<forall>c. req_matches release_semver
         [\<lparr>vc_operator = GreaterOrEqual, vc_version = version_new 0 2 3\<rparr>,
          \<lparr>vc_operator = Less, vc_version = version_new 1 0 0\<rparr>] c =
       (version_precedence_cmp release_semver c lower \<noteq> Ord_Less \<and> v_major c = v_major lower \<and>
        (CHR ''^'' = CHR ''^'' \<or> v_minor c = v_minor lower) \<and>
        (v_pre c = [] \<or> v_pre lower \<noteq> [] \<and> same_version_core lower c)))"
  by (rule caret_and_tilde_ranges [OF release_semver_laws]) (simp, code_simp)

lemma req_text_roundtrip_witness:
  "parse_package_version_req release_semver
     (show_req release_semver
       [\<lparr>vc_operator = GreaterOrEqual, vc_version = version_new 1 2 3\<rparr>,
        \<lparr>vc_operator = Less, vc_version = version_new 2 0 0\<rparr>]) =
   Inr [\<lparr>vc_operator = GreaterOrEqual, vc_version = version_new 1 2 3\<rparr>,
        \<lparr>vc_operator = Less, vc_version = version_new 2 0 0\<rparr>]"
  by (rule req_text_roundtrip [OF release_semver_laws, of "''<2.0.0  >=1.2.3 <2.0.0''"]) code_simp

lemma normalize_canonical_witness:
  "let a = \<lparr>vc_operator = GreaterOrEqual, vc_version = version_new 1 2 3\<rparr>;
       b = \<lparr>vc_operator = Less, vc_version = version_new 2 0 0\<rparr>
   in normalize_comparators release_semver [a, b] = normalize_comparators release_semver [b, a, b] \<and>
      req_matches release_semver (normalize_comparators release_semver [a, b]) =
      req_matches release_semver [b, a, b]"
  unfolding Let_def by (rule normalize_canonical [OF release_semver_laws]) auto

end
