(* ===== verification/Grant_Pattern.thy ===== *)
theory Grant_Pattern
  imports Identifier BTree_Map
begin

section \<open>Namespace grant patterns\<close>

text \<open>
  \<open>registration.rs\<close> of \<open>latticeaxiom-core\<close>: registration namespaces, the permission
  patterns \<open><namespace>:<kind>/<path-pattern>\<close> with \<open>*\<close> and a terminal \<open>**\<close>, the two
  relations on them, and the owner-bound grants. Normalisation of Unicode text belongs to a
  third-party crate: the test for it is an argument.
\<close>

subsection \<open>Namespaces\<close>

datatype registration_namespace_error =
    NamespaceEmpty
  | NamespaceTooLong usize usize
  | NamespaceInvalidGrammar

definition namespace_max_byte_length :: usize where "namespace_max_byte_length = 255"

definition validate_namespace :: "string \<Rightarrow> registration_namespace_error + unit" where
  "validate_namespace v =
     (if v = [] then Inl NamespaceEmpty
      else if length v > namespace_max_byte_length
      then Inl (NamespaceTooLong (length v) namespace_max_byte_length)
      else if \<not> is_identifier_segment v then Inl NamespaceInvalidGrammar
      else Inr ())"

definition registration_namespace_new :: "string \<Rightarrow> registration_namespace_error + string" where
  "registration_namespace_new v = and_then (validate_namespace v) (\<lambda>_. Inr v)"

definition namespace_contains :: "string \<Rightarrow> stable_id \<Rightarrow> bool" where
  "namespace_contains n i \<longleftrightarrow> n = sid_namespace i"

subsection \<open>Patterns\<close>

datatype grant_pattern =
  GrantPattern (gp_value: string) (gp_namespace_end: usize) (gp_kind_end: usize)

instantiation grant_pattern :: linorder
begin

definition less_eq_grant_pattern :: "grant_pattern \<Rightarrow> grant_pattern \<Rightarrow> bool" where
  "a \<le> b \<longleftrightarrow>
     (gp_value a, gp_namespace_end a, gp_kind_end a) \<le> (gp_value b, gp_namespace_end b, gp_kind_end b)"

definition less_grant_pattern :: "grant_pattern \<Rightarrow> grant_pattern \<Rightarrow> bool" where
  "a < b \<longleftrightarrow>
     (gp_value a, gp_namespace_end a, gp_kind_end a) < (gp_value b, gp_namespace_end b, gp_kind_end b)"

instance
  by standard
    (auto simp: less_eq_grant_pattern_def less_grant_pattern_def grant_pattern.expand)

end

datatype grant_pattern_error =
    PatternEmpty
  | PatternTooLong usize usize
  | PatternNonNfc
  | PatternInvalidNamespaceSeparator
  | PatternInvalidNamespace registration_namespace_error
  | PatternMissingPath
  | PatternKindTooLong usize usize
  | PatternInvalidKind
  | PatternContractMajorNotAllowed
  | PatternEmptyPathSegment
  | PatternDotSegment string
  | PatternPathSegmentTooLong usize usize
  | PatternInvalidLiteral
  | PatternEmbeddedWildcard
  | PatternNonTerminalRecursiveWildcard

definition pattern_max_byte_length :: usize where "pattern_max_byte_length = 4096"
definition pattern_max_segment_byte_length :: usize where "pattern_max_segment_byte_length = 255"

text \<open>The loop over the path segments; \<open>peek\<close> sees whether one follows.\<close>

fun validate_pattern_segments :: "string list \<Rightarrow> grant_pattern_error + unit" where
  "validate_pattern_segments [] = Inr ()"
| "validate_pattern_segments (segment # segments) =
     (if segment = [] then Inl PatternEmptyPathSegment
      else if segment = ''.'' then Inl (PatternDotSegment ''.'')
      else if segment = ''..'' then Inl (PatternDotSegment ''..'')
      else if segment = ''**'' then
        (if segments \<noteq> [] then Inl PatternNonTerminalRecursiveWildcard
         else validate_pattern_segments segments)
      else if segment = ''*'' then validate_pattern_segments segments
      else if contains_text ''*'' segment then Inl PatternEmbeddedWildcard
      else if length segment > pattern_max_segment_byte_length
      then Inl (PatternPathSegmentTooLong (length segment) pattern_max_segment_byte_length)
      else if \<not> is_identifier_segment segment then Inl PatternInvalidLiteral
      else validate_pattern_segments segments)"

definition map_err :: "('e \<Rightarrow> 'f) \<Rightarrow> 'e + 'a \<Rightarrow> 'f + 'a" where
  "map_err f r = (case r of Inl e \<Rightarrow> Inl (f e) | Inr a \<Rightarrow> Inr a)"

definition validate_pattern ::
    "(string \<Rightarrow> bool) \<Rightarrow> string \<Rightarrow> grant_pattern_error + (usize \<times> usize)" where
  "validate_pattern is_nfc v =
     (if v = [] then Inl PatternEmpty
      else if length v > pattern_max_byte_length
      then Inl (PatternTooLong (length v) pattern_max_byte_length)
      else if \<not> is_nfc v then Inl PatternNonNfc
      else case split_once CHR '':'' v of
        None \<Rightarrow> Inl PatternInvalidNamespaceSeparator
      | Some (nspace, remainder) \<Rightarrow>
          if contains_text '':'' remainder then Inl PatternInvalidNamespaceSeparator
          else and_then (map_err PatternInvalidNamespace (validate_namespace nspace)) (\<lambda>_.
            case split_once CHR ''/'' remainder of
              None \<Rightarrow> Inl PatternMissingPath
            | Some (kind, path_pattern) \<Rightarrow>
                if length kind > pattern_max_segment_byte_length
                then Inl (PatternKindTooLong (length kind) pattern_max_segment_byte_length)
                else if \<not> is_identifier_segment kind then Inl PatternInvalidKind
                else if contains_text ''@'' v then Inl PatternContractMajorNotAllowed
                else and_then (validate_pattern_segments (split_on CHR ''/'' path_pattern)) (\<lambda>_.
                  Inr (length nspace, length nspace + 1 + length kind))))"

definition grant_pattern_new ::
    "(string \<Rightarrow> bool) \<Rightarrow> string \<Rightarrow> grant_pattern_error + grant_pattern" where
  "grant_pattern_new is_nfc v =
     and_then (validate_pattern is_nfc v) (\<lambda>(namespace_end, kind_end).
       Inr (GrantPattern v namespace_end kind_end))"

definition gp_namespace :: "grant_pattern \<Rightarrow> string" where
  "gp_namespace p = slice 0 (gp_namespace_end p) (gp_value p)"

definition gp_kind :: "grant_pattern \<Rightarrow> string" where
  "gp_kind p = slice (gp_namespace_end p + 1) (gp_kind_end p) (gp_value p)"

definition gp_path_pattern :: "grant_pattern \<Rightarrow> string" where
  "gp_path_pattern p = drop (gp_kind_end p + 1) (gp_value p)"

fun match_segments :: "string list \<Rightarrow> string list \<Rightarrow> bool" where
  "match_segments [] path = (path = [])"
| "match_segments (s # pattern) path =
     (if s = ''**'' then True
      else if s = ''*'' then (case path of [] \<Rightarrow> False | _ # path' \<Rightarrow> match_segments pattern path')
      else (case path of
              [] \<Rightarrow> False
            | x # path' \<Rightarrow> if x \<noteq> s then False else match_segments pattern path'))"

definition pattern_matches :: "grant_pattern \<Rightarrow> stable_id \<Rightarrow> bool" where
  "pattern_matches p i \<longleftrightarrow>
     (if gp_namespace p \<noteq> sid_namespace i \<or> gp_kind p \<noteq> sid_kind i then False
      else match_segments (split_on CHR ''/'' (gp_path_pattern p)) (split_on CHR ''/'' (sid_path i)))"

text \<open>Both lists are read at the same index, so the loop is a recursion on their rests.\<close>

fun cover_segments :: "string list \<Rightarrow> string list \<Rightarrow> bool" where
  "cover_segments [] child = (child = [])"
| "cover_segments (p # parent) child =
     (if p = ''**'' then True
      else case child of
        [] \<Rightarrow> False
      | c # child' \<Rightarrow>
          if p = ''*'' then (if c = ''**'' then False else cover_segments parent child')
          else if p \<noteq> c then False
          else cover_segments parent child')"

definition pattern_covers :: "grant_pattern \<Rightarrow> grant_pattern \<Rightarrow> bool" where
  "pattern_covers p child \<longleftrightarrow>
     (if gp_namespace p \<noteq> gp_namespace child \<or> gp_kind p \<noteq> gp_kind child then False
      else cover_segments (split_on CHR ''/'' (gp_path_pattern p))
        (split_on CHR ''/'' (gp_path_pattern child)))"

subsection \<open>Grants\<close>

datatype namespace_grantor = ProfileGrantor stable_id | PackageGrantor string

datatype namespace_grantor_error = InvalidProfileId stable_id

definition grantor_profile :: "stable_id \<Rightarrow> namespace_grantor_error + namespace_grantor" where
  "grantor_profile profile =
     (if sid_kind profile \<noteq> ''profile'' then Inl (InvalidProfileId profile)
      else Inr (ProfileGrantor profile))"

type_synonym pattern_set = "(grant_pattern, unit) btree"

record namespace_grant =
  ng_namespace :: string
  ng_grantor :: namespace_grantor
  ng_grantee :: string
  ng_patterns :: pattern_set

datatype namespace_grant_error =
    EmptyPatterns
  | PatternNamespaceMismatch string grant_pattern

definition namespace_grant_new ::
    "string \<Rightarrow> namespace_grantor \<Rightarrow> string \<Rightarrow> pattern_set \<Rightarrow> namespace_grant_error + namespace_grant"
where
  "namespace_grant_new nspace grantor grantee patterns =
     (if bt_len patterns = 0 then Inl EmptyPatterns
      else case find (\<lambda>p. gp_namespace p \<noteq> nspace) (bt_keys patterns) of
        Some p \<Rightarrow> Inl (PatternNamespaceMismatch nspace p)
      | None \<Rightarrow> Inr \<lparr>ng_namespace = nspace, ng_grantor = grantor, ng_grantee = grantee,
                    ng_patterns = patterns\<rparr>)"

end
