(* ===== verification/Namespace_Authority.thy ===== *)
theory Namespace_Authority
  imports Grant_Pattern
begin

section \<open>Namespace authority\<close>

text \<open>
  \<open>compiler.rs\<close> of \<open>latticeaxiom-registration\<close>: the structural validation of the locked
  package graph, the validation of the namespace grants with the rounds that resolve
  delegations, and the check every registration goes through. Of the compiler's input the
  model keeps what these functions read. Hash checks of the composition and of the graph,
  which come first in the code, are not part of it.
\<close>

subsection \<open>Input and errors\<close>

type_synonym name_set = "(string, unit) btree"

record locked_package =
  lp_name :: string
  lp_version :: string
  lp_dependencies :: "(string, string) btree"

record locked_graph =
  lg_roots :: name_set
  lg_packages :: "(string, locked_package) btree"
  lg_capability_providers :: "(string, string list) btree"
  lg_namespace_grants :: "namespace_grant list"

record authority_input =
  ai_graph :: locked_graph
  ai_profile :: stable_id
  ai_policy_grants :: "(string, pattern_set) btree"

datatype registration_error =
    MissingRoot string
  | PackageKeyMismatch string string
  | MissingDependency string string
  | DependencyVersionMismatch string string string string
  | NonCanonicalCapabilityProviders string
  | MissingCapabilityProvider string string
  | UnreachablePackage string
  | EmptyNamespaceGrant string
  | UnexpectedPackageInput string
  | NamespacePatternMismatch string grant_pattern
  | UnauthorizedNamespaceGrant string
  | ProfileNamespaceGrantMismatch
  | NamespaceDelegationOutsideDependency string string
  | NamespaceDelegationExpansion string string
  | MissingNamespaceGrant string stable_id
  | UnknownStage string string
  | UnknownScheduleTarget string string
  | CrossStageScheduleEdge string string string string
  | ScheduleCycle string "string list"
  | LimitExceeded string nat nat

definition bs_extend :: "'k::linorder list \<Rightarrow> ('k, unit) btree \<Rightarrow> ('k, unit) btree" where
  "bs_extend ks s = fold (\<lambda>k. bt_insert k ()) ks s"

subsection \<open>The locked graph\<close>

definition check_dependency ::
    "locked_graph \<Rightarrow> string \<Rightarrow> string \<times> string \<Rightarrow> registration_error + unit" where
  "check_dependency g key e =
     (case e of (dependency, edge_version) \<Rightarrow>
       case bt_get (lg_packages g) dependency of
         None \<Rightarrow> Inl (MissingDependency key dependency)
       | Some node \<Rightarrow>
           ensure (edge_version = lp_version node)
             (DependencyVersionMismatch key dependency edge_version (lp_version node)))"

definition check_package ::
    "locked_graph \<Rightarrow> string \<times> locked_package \<Rightarrow> registration_error + unit" where
  "check_package g e =
     (case e of (key, package) \<Rightarrow>
       and_then (ensure (key = lp_name package) (PackageKeyMismatch key (lp_name package)))
         (\<lambda>_. try_each (check_dependency g key) (entries (lp_dependencies package))))"

definition check_providers ::
    "locked_graph \<Rightarrow> string \<times> string list \<Rightarrow> registration_error + unit" where
  "check_providers g e =
     (case e of (capability, providers) \<Rightarrow>
       and_then (ensure (providers \<noteq> [] \<and> distinct providers)
           (NonCanonicalCapabilityProviders capability))
         (\<lambda>_. try_each (\<lambda>provider. ensure (bt_contains (lg_packages g) provider)
            (MissingCapabilityProvider capability provider)) providers))"

text \<open>One pass of the closure loop: the dependencies of what is reachable so far.\<close>

definition dependencies_of :: "locked_graph \<Rightarrow> name_set \<Rightarrow> string list" where
  "dependencies_of g reachable =
     concat (List.map (\<lambda>package.
       case bt_get (lg_packages g) package of
         None \<Rightarrow> [] | Some p \<Rightarrow> bt_keys (lp_dependencies p)) (bt_keys reachable))"

definition dependency_names :: "locked_graph \<Rightarrow> string set" where
  "dependency_names g =
     (\<Union>p\<in>set (bt_values (lg_packages g)). set (bt_keys (lp_dependencies p)))"

lemma finite_dependency_names [simp]: "finite (dependency_names g)"
  by (simp add: dependency_names_def)

lemma dependencies_of_names: "set (dependencies_of g r) \<subseteq> dependency_names g"
proof
  fix x
  assume "x \<in> set (dependencies_of g r)"
  then obtain k p where "bt_get (lg_packages g) k = Some p"
      and "x \<in> set (bt_keys (lp_dependencies p))"
    unfolding dependencies_of_def by (auto split: option.splits) metis
  then show "x \<in> dependency_names g"
    unfolding dependency_names_def UN_iff using bt_values_iff by fast
qed

lemma keys_bs_extend: "set (bt_keys (bs_extend ks s)) = set ks \<union> set (bt_keys s)"
proof (induction ks arbitrary: s)
  case Nil
  show ?case by (simp add: bs_extend_def)
next
  case (Cons k ks)
  have "set (bt_keys (bt_insert k () s)) = insert k (set (bt_keys s))"
    by (auto simp: bt_contains_iff [symmetric] bt_contains_def bt.get_insert split: if_splits)
  with Cons [of "bt_insert k () s"] show ?case by (simp add: bs_extend_def)
qed

function reachable_closure :: "locked_graph \<Rightarrow> name_set \<Rightarrow> name_set" where
  "reachable_closure g reachable =
     (let before = bt_len reachable;
          reachable' = bs_extend (dependencies_of g reachable) reachable
      in if bt_len reachable' = before then reachable' else reachable_closure g reachable')"
  by pat_completeness auto
termination
proof (relation "measure (\<lambda>(g, r). card (dependency_names g - set (bt_keys r)))")
  fix g r before reachable'
  assume before: "before = bt_len r"
    and r': "reachable' = bs_extend (dependencies_of g r) r"
    and ne: "bt_len reachable' \<noteq> before"
  have keys: "set (bt_keys reachable') = set (dependencies_of g r) \<union> set (bt_keys r)"
    by (simp add: r' keys_bs_extend)
  obtain x where x: "x \<in> set (dependencies_of g r)" "x \<notin> set (bt_keys r)"
  proof -
    have "set (bt_keys reachable') \<noteq> set (bt_keys r)"
      using ne by (auto simp: before bt_len_card)
    then show ?thesis using that keys by auto
  qed
  then have "dependency_names g - set (bt_keys reachable') \<subset> dependency_names g - set (bt_keys r)"
    using dependencies_of_names keys by fastforce
  then show "((g, reachable'), (g, r)) \<in>
      measure (\<lambda>(g, r). card (dependency_names g - set (bt_keys r)))"
    by (simp add: psubset_card_mono)
qed simp

declare reachable_closure.simps [simp del]

definition validate_graph_structure :: "locked_graph \<Rightarrow> registration_error + unit" where
  "validate_graph_structure g =
     and_then (try_each (\<lambda>root. ensure (bt_contains (lg_packages g) root) (MissingRoot root))
       (bt_keys (lg_roots g))) (\<lambda>_.
     and_then (try_each (check_package g) (entries (lg_packages g))) (\<lambda>_.
     and_then (try_each (check_providers g) (entries (lg_capability_providers g))) (\<lambda>_.
     let reachable = reachable_closure g
       (bs_extend (concat (bt_values (lg_capability_providers g))) (lg_roots g))
     in case find (\<lambda>package. \<not> bt_contains reachable package) (bt_keys (lg_packages g)) of
          Some package \<Rightarrow> Inl (UnreachablePackage package)
        | None \<Rightarrow> Inr ())))"

subsection \<open>Grants\<close>

type_synonym profile_grants = "(string \<times> string, pattern_set) btree"
type_synonym effective_grants = "(string, pattern_set) btree"

definition expect_pattern ::
    "string \<Rightarrow> grant_pattern \<Rightarrow> profile_grants \<Rightarrow> registration_error + profile_grants" where
  "expect_pattern grantee pattern expected =
     and_then (map_err (\<lambda>_. ProfileNamespaceGrantMismatch)
       (registration_namespace_new (gp_namespace pattern))) (\<lambda>nspace.
     let old = (case bt_get expected (grantee, nspace) of None \<Rightarrow> bt_empty | Some s \<Rightarrow> s)
     in Inr (bt_insert (grantee, nspace) (bt_insert pattern () old) expected))"

definition expected_profile_namespace_grants ::
    "authority_input \<Rightarrow> registration_error + profile_grants" where
  "expected_profile_namespace_grants inp =
     try_fold (\<lambda>(grantee, patterns). try_fold (expect_pattern grantee) (bt_keys patterns))
       (entries (ai_policy_grants inp)) bt_empty"

record grant_state =
  gs_effective :: effective_grants
  gs_actual :: profile_grants
  gs_delegations :: "namespace_grant list"

definition extend_patterns ::
    "string \<Rightarrow> pattern_set \<Rightarrow> effective_grants \<Rightarrow> effective_grants" where
  "extend_patterns grantee patterns effective =
     (case bt_get effective grantee of
        None \<Rightarrow> effective
      | Some old \<Rightarrow> bt_insert grantee (bs_extend (bt_keys patterns) old) effective)"

definition accept_grant ::
    "authority_input \<Rightarrow> namespace_grant \<Rightarrow> grant_state \<Rightarrow> registration_error + grant_state" where
  "accept_grant inp grant st =
     (let graph = ai_graph inp; grantee = ng_grantee grant in
      if bt_len (ng_patterns grant) = 0 then Inl (EmptyNamespaceGrant grantee)
      else if \<not> bt_contains (lg_packages graph) grantee then Inl (UnexpectedPackageInput grantee)
      else case find (\<lambda>p. gp_namespace p \<noteq> ng_namespace grant) (bt_keys (ng_patterns grant)) of
        Some p \<Rightarrow> Inl (NamespacePatternMismatch (ng_namespace grant) p)
      | None \<Rightarrow>
          (case ng_grantor grant of
             ProfileGrantor profile \<Rightarrow>
               if profile \<noteq> ai_profile inp \<or> \<not> bt_contains (lg_roots graph) grantee
               then Inl (UnauthorizedNamespaceGrant grantee)
               else if bt_contains (gs_actual st) (grantee, ng_namespace grant)
               then Inl ProfileNamespaceGrantMismatch
               else Inr (st\<lparr>gs_actual := bt_insert (grantee, ng_namespace grant)
                              (ng_patterns grant) (gs_actual st),
                            gs_effective := extend_patterns grantee (ng_patterns grant)
                              (gs_effective st)\<rparr>)
           | PackageGrantor package \<Rightarrow>
               (case bt_get (lg_packages graph) package of
                  None \<Rightarrow> Inl (UnauthorizedNamespaceGrant grantee)
                | Some grantor \<Rightarrow>
                    if \<not> bt_contains (lp_dependencies grantor) grantee
                    then Inl (NamespaceDelegationOutsideDependency package grantee)
                    else Inr (st\<lparr>gs_delegations := gs_delegations st @ [grant]\<rparr>))))"

text \<open>
  One round over the pending delegations: a grant whose patterns are all covered by the
  grantor's present patterns is applied, the others wait for the next round.
\<close>

definition grant_covered :: "pattern_set \<Rightarrow> namespace_grant \<Rightarrow> bool" where
  "grant_covered parents grant \<longleftrightarrow>
     list_all (\<lambda>child. list_ex (\<lambda>parent. pattern_covers parent child) (bt_keys parents))
       (bt_keys (ng_patterns grant))"

fun delegation_round ::
    "namespace_grant list \<Rightarrow> effective_grants \<Rightarrow> namespace_grant list \<Rightarrow> bool
      \<Rightarrow> registration_error + (effective_grants \<times> namespace_grant list \<times> bool)" where
  "delegation_round [] effective waiting progress = Inr (effective, waiting, progress)"
| "delegation_round (grant # pending) effective waiting progress =
     (case ng_grantor grant of
        ProfileGrantor _ \<Rightarrow> delegation_round pending effective waiting progress
      | PackageGrantor package \<Rightarrow>
          (case bt_get effective package of
             None \<Rightarrow> Inl (UnauthorizedNamespaceGrant (ng_grantee grant))
           | Some parents \<Rightarrow>
               if grant_covered parents grant
               then delegation_round pending
                 (extend_patterns (ng_grantee grant) (ng_patterns grant) effective) waiting True
               else delegation_round pending effective (waiting @ [grant]) progress))"

lemma delegation_round_waiting:
  "delegation_round pending effective waiting progress = Inr (effective', waiting', progress') \<Longrightarrow>
     length waiting' \<le> length waiting + length pending \<and>
     (progress' \<longrightarrow> progress \<or> length waiting' < length waiting + length pending)"
proof (induction pending effective waiting progress rule: delegation_round.induct)
  case (2 grant pending effective waiting progress)
  show ?case
  proof (cases "ng_grantor grant")
    case (ProfileGrantor q)
    with 2 show ?thesis by auto
  next
    case (PackageGrantor package)
    with 2(4) obtain parents where parents: "bt_get effective package = Some parents"
      by (auto split: option.splits)
    show ?thesis
    proof (cases "grant_covered parents grant")
      case True
      then have "delegation_round pending
          (extend_patterns (ng_grantee grant) (ng_patterns grant) effective) waiting True =
        Inr (effective', waiting', progress')"
        using 2(4) PackageGrantor parents by simp
      from 2(2) [OF PackageGrantor parents True this] show ?thesis by auto
    next
      case False
      then have "delegation_round pending effective (waiting @ [grant]) progress =
        Inr (effective', waiting', progress')"
        using 2(4) PackageGrantor parents by simp
      from 2(3) [OF PackageGrantor parents False this] show ?thesis by auto
    qed
  qed
qed simp

function resolve_delegations ::
    "authority_input \<Rightarrow> namespace_grant list \<Rightarrow> effective_grants
      \<Rightarrow> registration_error + effective_grants" where
  "resolve_delegations inp pending effective =
     (if pending = [] then Inr effective
      else case delegation_round pending effective [] False of
        Inl e \<Rightarrow> Inl e
      | Inr (effective', waiting, progress) \<Rightarrow>
          if progress then resolve_delegations inp waiting effective'
          else case waiting of
            [] \<Rightarrow> Inl (LimitExceeded ''namespace-delegation-chain'' 0
                     (length (lg_namespace_grants (ai_graph inp))))
          | grant # _ \<Rightarrow>
              (let grantor = (case ng_grantor grant of
                  PackageGrantor package \<Rightarrow> package | ProfileGrantor _ \<Rightarrow> ng_grantee grant)
               in Inl (NamespaceDelegationExpansion grantor (ng_grantee grant))))"
  by pat_completeness auto
termination
  by (relation "measure (\<lambda>(inp, pending, effective). length pending)")
    (auto dest!: delegation_round_waiting)

declare resolve_delegations.simps [simp del]

definition initial_effective :: "locked_graph \<Rightarrow> effective_grants" where
  "initial_effective g =
     fold (\<lambda>package. bt_insert package bt_empty) (bt_keys (lg_packages g)) bt_empty"

definition validate_namespace_grants ::
    "authority_input \<Rightarrow> registration_error + effective_grants" where
  "validate_namespace_grants inp =
     and_then (expected_profile_namespace_grants inp) (\<lambda>expected.
     and_then (try_fold (accept_grant inp) (lg_namespace_grants (ai_graph inp))
       \<lparr>gs_effective = initial_effective (ai_graph inp), gs_actual = bt_empty,
        gs_delegations = []\<rparr>) (\<lambda>st.
     if gs_actual st \<noteq> expected then Inl ProfileNamespaceGrantMismatch
     else resolve_delegations inp (gs_delegations st) (gs_effective st)))"

definition ensure_namespace_authority ::
    "effective_grants \<Rightarrow> string \<Rightarrow> stable_id \<Rightarrow> registration_error + unit" where
  "ensure_namespace_authority grants package i =
     (if (case bt_get grants package of
            None \<Rightarrow> False
          | Some patterns \<Rightarrow> list_ex (\<lambda>p. pattern_matches p i) (bt_keys patterns))
      then Inr ()
      else Inl (MissingNamespaceGrant package i))"

end
