(* ===== verification/Grant_Cover.thy ===== *)
theory Grant_Cover
  imports Grant_Pattern
begin

section \<open>When one grant pattern contains another\<close>

text \<open>
  The syntactic test \<open>covers\<close>, which decides every delegation of authority, against its
  meaning: the identifiers the patterns match. The test is sound, and it misses exactly one
  containment.
\<close>

named_theorems grant_simps \<open>inversion rules for the construction of patterns\<close>

subsection \<open>Parsed patterns\<close>

definition pattern_segment :: "string \<Rightarrow> bool" where
  "pattern_segment s \<longleftrightarrow> s = ''*'' \<or> s = ''**'' \<or> canonical_segment s"

definition pattern_path :: "string list \<Rightarrow> bool" where
  "pattern_path ss \<longleftrightarrow>
     ss \<noteq> [] \<and> (\<forall>s\<in>set ss. pattern_segment s) \<and> (\<forall>s\<in>set (butlast ss). s \<noteq> ''**'')"

lemma star_not_canonical: "\<not> canonical_segment ''*''" "\<not> canonical_segment ''**''"
proof -
  have "\<not> alphanumeric CHR ''*''"
    by (simp add: alphanumeric_def is_ascii_lowercase_def is_ascii_digit_def)
  then show "\<not> canonical_segment ''*''" "\<not> canonical_segment ''**''"
    by (simp_all add: canonical_segment_def)
qed

lemma validate_pattern_segments_ok:
  "validate_pattern_segments ss = Inr u \<Longrightarrow>
     (\<forall>s\<in>set ss. pattern_segment s) \<and> (\<forall>s\<in>set (butlast ss). s \<noteq> ''**'')"
proof (induction ss arbitrary: u)
  case Nil
  then show ?case by simp
next
  case (Cons s ss)
  have rest: "validate_pattern_segments ss = Inr u"
    using Cons.prems by (auto split: if_splits)
  have "s = ''**'' \<Longrightarrow> ss = []"
    using Cons.prems by (auto split: if_splits)
  moreover have "pattern_segment s"
    using Cons.prems by (auto simp: pattern_segment_def is_identifier_segment_iff split: if_splits)
  ultimately show ?case using Cons.IH [OF rest] by (cases ss) auto
qed

text \<open>What \<open>NamespaceGrantPattern::new\<close> guarantees.\<close>

definition valid_pattern :: "grant_pattern \<Rightarrow> bool" where
  "valid_pattern p \<longleftrightarrow>
     canonical_segment (gp_namespace p) \<and> canonical_segment (gp_kind p) \<and>
     pattern_path (split_on CHR ''/'' (gp_path_pattern p))"

lemma grant_pattern_new_valid:
  assumes "grant_pattern_new is_nfc v = Inr p"
  shows "valid_pattern p \<and> gp_value p = v"
proof -
  from assms obtain ne ke where v: "validate_pattern is_nfc v = Inr (ne, ke)"
      and p: "p = GrantPattern v ne ke"
    by (auto simp: grant_pattern_new_def result_simps)
  from v obtain n r where nr: "split_once CHR '':'' v = Some (n, r)"
    unfolding validate_pattern_def by (auto split: if_splits option.splits)
  with v obtain k path where kp: "split_once CHR ''/'' r = Some (k, path)"
    unfolding validate_pattern_def
    by (auto simp: result_simps split: if_splits option.splits)
  from v nr kp have ok: "validate_namespace n = Inr ()" "is_identifier_segment k"
      "validate_pattern_segments (split_on CHR ''/'' path) = Inr ()"
      "ne = length n" "ke = length n + 1 + length k"
    unfolding validate_pattern_def
    by (auto simp: result_simps map_err_def split: if_splits sum.splits)
  have v_eq: "v = n @ CHR '':'' # k @ CHR ''/'' # path"
    using nr kp by (simp add: split_once_Some)
  have "gp_namespace p = n" "gp_kind p = k" "gp_path_pattern p = path"
    by (simp_all add: gp_namespace_def gp_kind_def gp_path_pattern_def slice_def p ok(4,5) v_eq)
  moreover have "canonical_segment n"
    using ok(1) by (simp add: validate_namespace_def is_identifier_segment_iff split: if_splits)
  moreover have "pattern_path (split_on CHR ''/'' path)"
    using validate_pattern_segments_ok [OF ok(3)] by (simp add: pattern_path_def)
  ultimately show ?thesis
    using ok(2) by (simp add: valid_pattern_def is_identifier_segment_iff p)
qed

subsection \<open>Soundness\<close>

lemma cover_segments_sound:
  "cover_segments ps cs \<Longrightarrow> match_segments cs xs \<Longrightarrow> match_segments ps xs"
proof (induction ps arbitrary: cs xs)
  case Nil
  then show ?case by simp
next
  case (Cons p ps)
  show ?case
  proof (cases "p = ''**''")
    case True
    then show ?thesis by simp
  next
    case False
    with Cons.prems(1) obtain c cs' where cs: "cs = c # cs'"
      by (cases cs) auto
    have c: "c \<noteq> ''**''" and cover: "cover_segments ps cs'" and pc: "p = ''*'' \<or> p = c"
      using Cons.prems(1) False cs by (auto split: if_splits)
    from Cons.prems(2) cs c obtain x xs' where xs: "xs = x # xs'"
        and m: "match_segments cs' xs'" and x: "c = ''*'' \<or> x = c"
      by (cases xs) (auto split: if_splits)
    from Cons.IH [OF cover m] have "match_segments ps xs'" .
    with xs x pc False show ?thesis by auto
  qed
qed

lemma pattern_covers_sound:
  "pattern_covers p c \<Longrightarrow> pattern_matches c i \<Longrightarrow> pattern_matches p i"
  using cover_segments_sound
  by (auto simp: pattern_covers_def pattern_matches_def split: if_splits)

lemma cover_segments_refl: "cover_segments ss ss"
  by (induction ss) auto

lemma pattern_covers_refl: "pattern_covers p p"
  by (simp add: pattern_covers_def cover_segments_refl)

subsection \<open>Completeness\<close>

text \<open>A path each pattern matches, and one that avoids a given segment.\<close>

definition other_segment :: "string \<Rightarrow> string" where
  "other_segment s = (if s = ''a'' then ''b'' else ''a'')"

definition sample_segment :: "string \<Rightarrow> string" where
  "sample_segment s = (if s = ''*'' \<or> s = ''**'' then ''a'' else s)"

lemma other_segment: "canonical_segment (other_segment s)" "other_segment s \<noteq> s"
  by (simp_all add: other_segment_def canonical_segment_def alphanumeric_def
      is_ascii_lowercase_def)

lemma sample_segment: "pattern_segment s \<Longrightarrow> canonical_segment (sample_segment s)"
  by (auto simp: sample_segment_def pattern_segment_def canonical_segment_def alphanumeric_def
      is_ascii_lowercase_def)

lemma match_sample: "match_segments ss (List.map sample_segment ss)"
  by (induction ss) (auto simp: sample_segment_def)

lemma cover_segments_complete:
  assumes "\<not> cover_segments ps cs" and "\<forall>s\<in>set ps. pattern_segment s"
    and "\<forall>s\<in>set cs. pattern_segment s"
  shows "\<exists>xs. (\<forall>x\<in>set xs. canonical_segment x) \<and> match_segments cs xs \<and> \<not> match_segments ps xs"
  using assms
proof (induction ps arbitrary: cs)
  case Nil
  then obtain c cs' where "cs = c # cs'" by (cases cs) auto
  then have "match_segments cs (List.map sample_segment cs) \<and>
      \<not> match_segments [] (List.map sample_segment cs)"
    by (simp only: match_sample) simp
  moreover have "\<forall>x\<in>set (List.map sample_segment cs). canonical_segment x"
    using Nil.prems(3) by (simp add: sample_segment)
  ultimately show ?case by blast
next
  case (Cons p ps)
  have p: "p \<noteq> ''**''" using Cons.prems(1) by auto
  show ?case
  proof (cases cs)
    case Nil
    with p show ?thesis by (intro exI [of _ "[]"]) simp
  next
    case (Cons c cs')
    let ?rest = "List.map sample_segment cs'"
    have rest: "\<forall>x\<in>set ?rest. canonical_segment x" "match_segments cs' ?rest"
      using Cons.prems(3) Cons by (simp_all add: sample_segment match_sample)
    consider "c = ''**''" | "c \<noteq> ''**''" "p \<noteq> ''*''" "p \<noteq> c"
      | "c \<noteq> ''**''" "p = ''*'' \<or> p = c" by blast
    then show ?thesis
    proof cases
      case 1
      with Cons p show ?thesis by (intro exI [of _ "[]"]) simp
    next
      case 2
      let ?x = "if c = ''*'' then other_segment p else c"
      have "canonical_segment ?x"
        using 2(1) Cons.prems(3) Cons by (auto simp: other_segment pattern_segment_def)
      moreover have "?x \<noteq> p" using 2(3) other_segment(2) [of p] by auto
      ultimately show ?thesis
        using Cons p 2 rest by (intro exI [of _ "?x # ?rest"]) auto
    next
      case 3
      have "\<not> cover_segments ps cs'"
        using Cons.prems(1) Cons p 3 by (auto split: if_splits)
      with Cons.IH [of cs'] Cons.prems(2,3) Cons obtain xs where
          xs: "\<forall>x\<in>set xs. canonical_segment x" "match_segments cs' xs" "\<not> match_segments ps xs"
        by auto
      moreover have "canonical_segment (sample_segment c)"
        using Cons.prems(3) Cons by (simp add: sample_segment)
      moreover have "match_segments cs (sample_segment c # xs)"
        using xs(2) Cons 3(1) by (auto simp: sample_segment_def)
      moreover have "\<not> match_segments (p # ps) (sample_segment c # xs)"
        using xs(3) p 3 by (auto simp: sample_segment_def)
      ultimately show ?thesis by (intro exI [of _ "sample_segment c # xs"]) auto
    qed
  qed
qed

text \<open>
  The path of an identifier is never empty. That removes the one difference between the
  empty path and the others: \<open>*/**\<close> matches every path, as \<open>**\<close> does, but the test
  says it does not contain \<open>**\<close>.
\<close>

lemma cover_segments_path:
  assumes "\<not> cover_segments ps cs" and ps: "pattern_path ps" and cs: "pattern_path cs"
    and exception: "\<not> (ps = [''*'', ''**''] \<and> cs = [''**''])"
  shows "\<exists>xs. xs \<noteq> [] \<and> (\<forall>x\<in>set xs. canonical_segment x) \<and>
    match_segments cs xs \<and> \<not> match_segments ps xs"
proof -
  obtain p ps' where p: "ps = p # ps'" using ps by (cases ps) (auto simp: pattern_path_def)
  obtain c cs' where c: "cs = c # cs'" using cs by (cases cs) (auto simp: pattern_path_def)
  have seg: "\<forall>s\<in>set ps. pattern_segment s" "\<forall>s\<in>set cs. pattern_segment s"
    using ps cs by (simp_all add: pattern_path_def)
  have a: "canonical_segment ''a''"
    by (simp add: canonical_segment_def alphanumeric_def is_ascii_lowercase_def)
  show ?thesis
  proof (cases "c = ''**''")
    case False
    from cover_segments_complete [OF assms(1) seg] obtain xs where
        "\<forall>x\<in>set xs. canonical_segment x" "match_segments cs xs" "\<not> match_segments ps xs"
      by blast
    moreover have "xs \<noteq> []" using \<open>match_segments cs xs\<close> c False by (auto split: if_splits)
    ultimately show ?thesis by blast
  next
    case True
    with cs c have cs1: "cs' = []" by (cases cs') (auto simp: pattern_path_def)
    have pne: "p \<noteq> ''**''" using assms(1) p by auto
    show ?thesis
    proof (cases "p = ''*''")
      case False
      have "match_segments cs [other_segment p]" "\<not> match_segments ps [other_segment p]"
        using c True p pne False other_segment(2) [of p] by auto
      then show ?thesis
        by (intro exI [of _ "[other_segment p]"]) (simp add: other_segment)
    next
      case star: True
      show ?thesis
      proof (cases ps')
        case Nil
        then have "match_segments cs [''a'', ''a'']" "\<not> match_segments ps [''a'', ''a'']"
          using c True p star by auto
        then show ?thesis using a by (intro exI [of _ "[''a'', ''a'']"]) simp
      next
        case (Cons q ps'')
        have "q \<noteq> ''**''"
        proof
          assume q: "q = ''**''"
          with ps p Cons have "ps'' = []" by (cases ps'') (auto simp: pattern_path_def)
          with q exception p star Cons c True cs1 show False by simp
        qed
        then have "match_segments cs [''a'']" "\<not> match_segments ps [''a'']"
          using c True p star Cons by auto
        then show ?thesis using a by (intro exI [of _ "[''a'']"]) simp
      qed
    qed
  qed
qed

lemma id_of_segments:
  assumes "canonical_segment n" "canonical_segment k" "xs \<noteq> []"
    "\<forall>x\<in>set xs. canonical_segment x"
  obtains i v where "parse_stable_id v = Inr i" "sid_namespace i = n" "sid_kind i = k"
    "split_on CHR ''/'' (sid_path i) = xs"
proof -
  let ?p = "\<lparr>part_namespace = n, part_kind = k, part_path = xs, part_major = None\<rparr>"
  have "valid_parts ?p" using assms by (simp add: valid_parts_def well_formed_parts_def)
  then have "parse_stable_id (id_text ?p) = Inr (id_of_parts ?p)"
    unfolding parse_stable_id_parts by blast
  moreover have "split_on CHR ''/'' (sid_path (id_of_parts ?p)) = xs"
    unfolding id_of_parts_accessors id_parts.simps
    using assms(3,4) by (intro split_on_join) (auto simp: canonical_segment_free)
  ultimately show ?thesis
    using that by (simp add: id_of_parts_accessors)
qed

lemma split_on_star:
  "split_on CHR ''/'' s = [''*'', ''**''] \<longleftrightarrow> s = ''*/**''"
  "split_on CHR ''/'' s = [''**''] \<longleftrightarrow> s = ''**''"
proof -
  have "s = ''*/**''" if "split_on CHR ''/'' s = [''*'', ''**'']"
    using that join_split_on [of "CHR ''/''" s] by simp
  then show "split_on CHR ''/'' s = [''*'', ''**''] \<longleftrightarrow> s = ''*/**''" by auto
  have "s = ''**''" if "split_on CHR ''/'' s = [''**'']"
    using that join_split_on [of "CHR ''/''" s] by simp
  then show "split_on CHR ''/'' s = [''**''] \<longleftrightarrow> s = ''**''" by auto
qed

subsection \<open>Properties\<close>

text \<open>C25: on validated patterns the test \<open>covers\<close> is containment of the matched
  identifiers, except that it denies that \<open>*/**\<close> contains \<open>**\<close>: whatever it accepts
  widens nothing, and whatever else it rejects has an identifier that only the child
  matches.\<close>

theorem covers_is_containment:
  assumes "grant_pattern_new is_nfc v = Inr p" and "grant_pattern_new is_nfc w = Inr c"
  shows "pattern_covers p c =
    ((\<forall>i. parse_stable_id (sid_value i) = Inr i \<and> pattern_matches c i \<longrightarrow> pattern_matches p i) \<and>
     \<not> (gp_path_pattern p = ''*/**'' \<and> gp_path_pattern c = ''**''))"
proof -
  have vp: "valid_pattern p" and vc: "valid_pattern c"
    using assms grant_pattern_new_valid by blast+
  let ?ps = "split_on CHR ''/'' (gp_path_pattern p)"
  let ?cs = "split_on CHR ''/'' (gp_path_pattern c)"
  note special = split_on_star(1) [of "gp_path_pattern p", symmetric]
    split_on_star(2) [of "gp_path_pattern c", symmetric]
  have parsed: "parse_stable_id (sid_value i) = Inr i" if "parse_stable_id v = Inr i" for v i
    using that id_of_parts_accessors(5) unfolding parse_stable_id_parts by metis
  show ?thesis
  proof (intro iffI conjI allI impI)
    assume cov: "pattern_covers p c"
    show "pattern_matches p i" if "parse_stable_id (sid_value i) = Inr i \<and> pattern_matches c i" for i
      using that cov pattern_covers_sound by blast
    show "\<not> (gp_path_pattern p = ''*/**'' \<and> gp_path_pattern c = ''**'')"
      using cov by (auto simp: pattern_covers_def split: if_splits)
  next
    assume r: "(\<forall>i. parse_stable_id (sid_value i) = Inr i \<and> pattern_matches c i \<longrightarrow> pattern_matches p i) \<and>
      \<not> (gp_path_pattern p = ''*/**'' \<and> gp_path_pattern c = ''**'')"
    then have contained: "pattern_matches p i"
      if "parse_stable_id v = Inr i" "pattern_matches c i" for i v
      using parsed [OF that(1)] that(2) by blast
    have cs: "canonical_segment (gp_namespace c)" "canonical_segment (gp_kind c)"
      "pattern_path ?cs"
      using vc by (simp_all add: valid_pattern_def)
    have sample: "List.map sample_segment ?cs \<noteq> []"
      "\<forall>x\<in>set (List.map sample_segment ?cs). canonical_segment x"
      using cs(3) by (auto simp: pattern_path_def sample_segment)
    obtain i v where i: "parse_stable_id v = Inr i" "sid_namespace i = gp_namespace c"
        "sid_kind i = gp_kind c" "split_on CHR ''/'' (sid_path i) = List.map sample_segment ?cs"
      by (rule id_of_segments [OF cs(1,2) sample])
    have "pattern_matches c i" by (simp add: pattern_matches_def i match_sample)
    with contained [OF i(1)] have eq: "gp_namespace p = gp_namespace c" "gp_kind p = gp_kind c"
      by (auto simp: pattern_matches_def i split: if_splits)
    show "pattern_covers p c"
    proof (rule ccontr)
      assume "\<not> pattern_covers p c"
      then have nc: "\<not> cover_segments ?ps ?cs" by (simp add: pattern_covers_def eq)
      have "pattern_path ?ps" using vp by (simp add: valid_pattern_def)
      moreover have "\<not> (?ps = [''*'', ''**''] \<and> ?cs = [''**''])" using r special by blast
      ultimately obtain xs where xs: "xs \<noteq> []" "\<forall>x\<in>set xs. canonical_segment x"
          "match_segments ?cs xs" "\<not> match_segments ?ps xs"
        using cover_segments_path [OF nc _ cs(3)] by blast
      obtain j w where j: "parse_stable_id w = Inr j" "sid_namespace j = gp_namespace c"
          "sid_kind j = gp_kind c" "split_on CHR ''/'' (sid_path j) = xs"
        by (rule id_of_segments [OF cs(1,2) xs(1,2)])
      have "pattern_matches c j" by (simp add: pattern_matches_def j xs(3))
      with contained [OF j(1)] have "pattern_matches p j" by blast
      with xs(4) show False by (simp add: pattern_matches_def j eq)
    qed
  qed
qed

end
