(* ===== verification/Authority_Properties.thy ===== *)
theory Authority_Properties
  imports Namespace_Authority Grant_Cover
begin

section \<open>Authority comes from the profile and is never widened\<close>

text \<open>
  The authority a grant list conveys is an inductive relation; the validated table of
  effective patterns is that relation, delegation rounds accept exactly the lists whose
  delegations are all covered, and every identifier a package may register is one the
  profile granted to a root that depends on the package.
\<close>

lemma try_fold_prefix:
  assumes "try_fold f xs s = Inr t" and "P [] s"
    and "\<And>done x s s'. set (done @ [x]) \<subseteq> set xs \<Longrightarrow> P done s \<Longrightarrow> f x s = Inr s' \<Longrightarrow> P (done @ [x]) s'"
  shows "P xs t"
proof -
  have "try_fold f ys s' = Inr t \<Longrightarrow> P done s' \<Longrightarrow> xs = done @ ys \<Longrightarrow> P xs t" for ys "done" s'
  proof (induction ys arbitrary: "done" s')
    case Nil
    then show ?case by simp
  next
    case (Cons y ys)
    from Cons.prems(1) obtain r where "f y s' = Inr r" "try_fold f ys r = Inr t"
      by (auto simp: result_simps)
    with Cons.IH [of r "done @ [y]"] Cons.prems(2,3) assms(3) [of "done" y s' r]
    show ?case by auto
  qed
  from this [OF assms(1,2)] show ?thesis by simp
qed

subsection \<open>The conveyed authority\<close>

inductive authority :: "authority_input \<Rightarrow> string \<Rightarrow> grant_pattern \<Rightarrow> bool"
  for inp :: authority_input where
  profile:
    "grant \<in> set (lg_namespace_grants (ai_graph inp)) \<Longrightarrow> ng_grantor grant = ProfileGrantor q \<Longrightarrow>
     p \<in> set (bt_keys (ng_patterns grant)) \<Longrightarrow> authority inp (ng_grantee grant) p"
| delegated:
    "grant \<in> set (lg_namespace_grants (ai_graph inp)) \<Longrightarrow> ng_grantor grant = PackageGrantor package \<Longrightarrow>
     \<forall>child\<in>set (bt_keys (ng_patterns grant)).
       \<exists>parent. authority inp package parent \<and> pattern_covers parent child \<Longrightarrow>
     p \<in> set (bt_keys (ng_patterns grant)) \<Longrightarrow> authority inp (ng_grantee grant) p"

definition patterns_of :: "effective_grants \<Rightarrow> string \<Rightarrow> grant_pattern set" where
  "patterns_of effective package =
     (case bt_get effective package of None \<Rightarrow> {} | Some s \<Rightarrow> set (bt_keys s))"

definition included :: "effective_grants \<Rightarrow> namespace_grant \<Rightarrow> bool" where
  "included effective grant \<longleftrightarrow>
     set (bt_keys (ng_patterns grant)) \<subseteq> patterns_of effective (ng_grantee grant)"

lemma grant_covered_iff:
  assumes "bt_get effective package = Some parents"
  shows "grant_covered parents grant \<longleftrightarrow>
    (\<forall>child\<in>set (bt_keys (ng_patterns grant)).
       \<exists>parent\<in>patterns_of effective package. pattern_covers parent child)"
  using assms by (simp add: grant_covered_def patterns_of_def list_all_iff list_ex_iff)

lemma patterns_of_extend:
  assumes "bt_contains effective g"
  shows "patterns_of (extend_patterns g ps effective) k =
      (if k = g then set (bt_keys ps) \<union> patterns_of effective g else patterns_of effective k)"
    and "bt_contains (extend_patterns g ps effective) k \<longleftrightarrow> bt_contains effective k"
  using assms
  by (auto simp: extend_patterns_def patterns_of_def bt_contains_def bt.get_insert keys_bs_extend
      split: option.splits)

lemma included_extend:
  assumes "bt_contains effective (ng_grantee grant)"
  shows "included (extend_patterns (ng_grantee grant) (ng_patterns grant) effective) grant"
    and "included effective g \<Longrightarrow>
      included (extend_patterns (ng_grantee grant) (ng_patterns grant) effective) g"
  using patterns_of_extend(1) [OF assms] by (auto simp: included_def split: if_splits)

subsection \<open>The front half\<close>

text \<open>What is known of a grant once it is accepted.\<close>

definition accepted :: "authority_input \<Rightarrow> profile_grants \<Rightarrow> namespace_grant \<Rightarrow> bool" where
  "accepted inp actual grant \<longleftrightarrow>
     bt_contains (lg_packages (ai_graph inp)) (ng_grantee grant) \<and>
     (case ng_grantor grant of
        ProfileGrantor profile \<Rightarrow>
          bt_contains (lg_roots (ai_graph inp)) (ng_grantee grant) \<and>
          bt_get actual (ng_grantee grant, ng_namespace grant) = Some (ng_patterns grant)
      | PackageGrantor package \<Rightarrow>
          (\<exists>node. bt_get (lg_packages (ai_graph inp)) package = Some node \<and>
             bt_contains (lp_dependencies node) (ng_grantee grant)))"

definition by_package :: "namespace_grant \<Rightarrow> bool" where
  "by_package grant \<longleftrightarrow> (\<exists>package. ng_grantor grant = PackageGrantor package)"

definition front_inv :: "authority_input \<Rightarrow> namespace_grant list \<Rightarrow> grant_state \<Rightarrow> bool" where
  "front_inv inp gs st \<longleftrightarrow>
     (\<forall>k. bt_contains (gs_effective st) k \<longleftrightarrow> bt_contains (lg_packages (ai_graph inp)) k) \<and>
     (\<forall>grant\<in>set gs. accepted inp (gs_actual st) grant) \<and>
     gs_delegations st = List.filter by_package gs \<and>
     (\<forall>grant\<in>set gs. \<not> by_package grant \<longrightarrow> included (gs_effective st) grant) \<and>
     (\<forall>k. \<forall>p\<in>patterns_of (gs_effective st) k. authority inp k p)"

lemma accept_grant_cases:
  assumes "accept_grant inp grant st = Inr st'"
  obtains (profile) profile where "ng_grantor grant = ProfileGrantor profile"
      "bt_contains (lg_packages (ai_graph inp)) (ng_grantee grant)"
      "bt_contains (lg_roots (ai_graph inp)) (ng_grantee grant)"
      "bt_get (gs_actual st) (ng_grantee grant, ng_namespace grant) = None"
      "st' = st\<lparr>gs_actual := bt_insert (ng_grantee grant, ng_namespace grant)
                   (ng_patterns grant) (gs_actual st),
                gs_effective := extend_patterns (ng_grantee grant) (ng_patterns grant)
                   (gs_effective st)\<rparr>"
    | (package) package node where "ng_grantor grant = PackageGrantor package"
      "bt_contains (lg_packages (ai_graph inp)) (ng_grantee grant)"
      "bt_get (lg_packages (ai_graph inp)) package = Some node"
      "bt_contains (lp_dependencies node) (ng_grantee grant)"
      "st' = st\<lparr>gs_delegations := gs_delegations st @ [grant]\<rparr>"
  using assms unfolding accept_grant_def Let_def
  by (auto simp: bt_contains_def split: if_splits option.splits namespace_grantor.splits)

lemma accepted_insert:
  assumes "accepted inp actual grant" and "bt_get actual key = None"
  shows "accepted inp (bt_insert key v actual) grant"
  using assms by (auto simp: accepted_def bt.get_insert split: namespace_grantor.splits)

lemma front_inv_step:
  assumes inv: "front_inv inp gs st" and step: "accept_grant inp grant st = Inr st'"
    and grant: "grant \<in> set (lg_namespace_grants (ai_graph inp))"
  shows "front_inv inp (gs @ [grant]) st'"
  using step
proof (cases rule: accept_grant_cases)
  case (profile q)
  have g: "bt_contains (gs_effective st) (ng_grantee grant)"
    using inv profile(2) by (simp add: front_inv_def)
  have "\<not> by_package grant" using profile(1) by (simp add: by_package_def)
  moreover have "authority inp (ng_grantee grant) p" if "p \<in> set (bt_keys (ng_patterns grant))" for p
    by (rule authority.profile [OF grant profile(1) that])
  moreover have "accepted inp (gs_actual st') grant"
    using profile by (simp add: accepted_def bt.get_insert)
  moreover have "accepted inp (gs_actual st') h" if "accepted inp (gs_actual st) h" for h
    using accepted_insert [OF that profile(4)] profile(5) by simp
  ultimately show ?thesis
    using inv included_extend [OF g] patterns_of_extend [OF g]
    unfolding front_inv_def profile(5) by auto
next
  case (package q node)
  have "by_package grant" using package(1) by (simp add: by_package_def)
  moreover have "accepted inp (gs_actual st') grant"
    using package by (auto simp: accepted_def)
  ultimately show ?thesis
    using inv unfolding front_inv_def package(5) by auto
qed

lemma keys_empty [simp]: "bt_keys bt_empty = []"
  by (simp add: bt_keys_def bt_empty.rep_eq)

lemma keys_initial_effective:
  "bt_contains (initial_effective g) k \<longleftrightarrow> bt_contains (lg_packages g) k"
  "patterns_of (initial_effective g) k = {}"
proof -
  have "bt_get (fold (\<lambda>package. bt_insert package bt_empty) ks m) k =
      (if k \<in> set ks then Some bt_empty else bt_get m k)" for ks and m :: effective_grants
    by (induction ks arbitrary: m) (auto simp: bt.get_insert)
  then have get: "bt_get (initial_effective g) k =
      (if bt_contains (lg_packages g) k then Some bt_empty else None)"
    by (simp add: initial_effective_def bt.get_empty bt_contains_iff)
  with keys_empty get show "bt_contains (initial_effective g) k \<longleftrightarrow> bt_contains (lg_packages g) k"
    "patterns_of (initial_effective g) k = {}"
    by (simp_all add: bt_contains_def patterns_of_def)
qed

definition collect_grants :: "authority_input \<Rightarrow> registration_error + grant_state" where
  "collect_grants inp =
     try_fold (accept_grant inp) (lg_namespace_grants (ai_graph inp))
       \<lparr>gs_effective = initial_effective (ai_graph inp), gs_actual = bt_empty,
        gs_delegations = []\<rparr>"

lemma collect_grants_inv:
  assumes "collect_grants inp = Inr st"
  shows "front_inv inp (lg_namespace_grants (ai_graph inp)) st"
  using assms unfolding collect_grants_def
proof (rule try_fold_prefix)
  show "front_inv inp [] \<lparr>gs_effective = initial_effective (ai_graph inp), gs_actual = bt_empty,
      gs_delegations = []\<rparr>"
    by (simp add: front_inv_def keys_initial_effective)
next
  fix gs grant st st'
  assume "set (gs @ [grant]) \<subseteq> set (lg_namespace_grants (ai_graph inp))"
    and "front_inv inp gs st" and "accept_grant inp grant st = Inr st'"
  then show "front_inv inp (gs @ [grant]) st'" by (auto intro: front_inv_step)
qed

subsection \<open>The rounds\<close>

definition sound :: "authority_input \<Rightarrow> effective_grants \<Rightarrow> bool" where
  "sound inp effective \<longleftrightarrow> (\<forall>k. \<forall>p\<in>patterns_of effective k. authority inp k p)"

text \<open>The delegations a round may work on, and how the table may grow.\<close>

definition workable :: "authority_input \<Rightarrow> effective_grants \<Rightarrow> namespace_grant list \<Rightarrow> bool" where
  "workable inp effective gs \<longleftrightarrow>
     (\<forall>grant\<in>set gs. grant \<in> set (lg_namespace_grants (ai_graph inp)) \<and>
        bt_contains effective (ng_grantee grant) \<and>
        (\<exists>package. ng_grantor grant = PackageGrantor package \<and> bt_contains effective package))"

definition grows :: "effective_grants \<Rightarrow> effective_grants \<Rightarrow> bool" where
  "grows effective effective' \<longleftrightarrow>
     (\<forall>k. bt_contains effective' k = bt_contains effective k) \<and>
     (\<forall>k. patterns_of effective k \<subseteq> patterns_of effective' k)"

lemma grows_refl [simp]: "grows e e" by (simp add: grows_def)

lemma grows_trans: "grows a b \<Longrightarrow> grows b c \<Longrightarrow> grows a c"
  unfolding grows_def by blast

lemma grows_extend:
  "bt_contains e g \<Longrightarrow> grows e (extend_patterns g ps e)"
  using patterns_of_extend [of e g ps] by (auto simp: grows_def)

lemma grows_included: "grows e e' \<Longrightarrow> included e g \<Longrightarrow> included e' g"
  unfolding grows_def included_def by blast

text \<open>A grant that has been applied: its patterns are in the table, and rightly so.\<close>

definition settled :: "effective_grants \<Rightarrow> namespace_grant \<Rightarrow> bool" where
  "settled e grant \<longleftrightarrow> included e grant \<and>
     (\<forall>package. ng_grantor grant = PackageGrantor package \<longrightarrow>
        (\<forall>child\<in>set (bt_keys (ng_patterns grant)).
           \<exists>parent\<in>patterns_of e package. pattern_covers parent child))"

lemma grows_settled: "grows e e' \<Longrightarrow> settled e g \<Longrightarrow> settled e' g"
  unfolding settled_def using grows_included unfolding grows_def by blast

lemma settled_extend:
  assumes "bt_contains e (ng_grantee grant)" and "ng_grantor grant = PackageGrantor q"
    and "bt_get e q = Some parents" and "grant_covered parents grant"
  shows "settled (extend_patterns (ng_grantee grant) (ng_patterns grant) e) grant"
  using included_extend(1) [OF assms(1)] grows_extend [OF assms(1), of "ng_patterns grant"] assms(2,4)
  unfolding settled_def grant_covered_iff [OF assms(3)] grows_def by fastforce

lemma grows_workable: "grows e e' \<Longrightarrow> workable inp e gs \<Longrightarrow> workable inp e' gs"
  unfolding grows_def workable_def by metis

lemma sound_extend:
  assumes s: "sound inp e" and w: "workable inp e [grant]" and q: "ng_grantor grant = PackageGrantor q"
    and parents: "bt_get e q = Some parents" and cov: "grant_covered parents grant"
  shows "sound inp (extend_patterns (ng_grantee grant) (ng_patterns grant) e)"
proof -
  have "\<forall>child\<in>set (bt_keys (ng_patterns grant)).
      \<exists>parent. authority inp q parent \<and> pattern_covers parent child"
    using cov s unfolding grant_covered_iff [OF parents] sound_def by blast
  then have "authority inp (ng_grantee grant) p" if "p \<in> set (bt_keys (ng_patterns grant))" for p
    using w q that by (intro authority.delegated [of grant inp q]) (auto simp: workable_def)
  then show ?thesis
    using s w patterns_of_extend(1) [of e "ng_grantee grant" "ng_patterns grant"]
    by (auto simp: sound_def workable_def split: if_splits)
qed

lemma delegation_round_total:
  "workable inp e pending \<Longrightarrow>
     \<exists>e' waiting' progress'. delegation_round pending e waiting progress = Inr (e', waiting', progress')"
proof (induction pending arbitrary: e waiting progress)
  case Nil
  show ?case by simp
next
  case (Cons grant pending)
  then obtain q parents where q: "ng_grantor grant = PackageGrantor q"
      and parents: "bt_get e q = Some parents" and g: "bt_contains e (ng_grantee grant)"
    by (auto simp: workable_def bt_contains_def)
  have w: "workable inp e pending" using Cons.prems by (simp add: workable_def)
  then have "workable inp (extend_patterns (ng_grantee grant) (ng_patterns grant) e) pending"
    by (rule grows_workable [OF grows_extend [OF g]])
  with Cons.IH w q parents show ?case by simp
qed

definition round_post ::
    "authority_input \<Rightarrow> effective_grants \<Rightarrow> effective_grants \<Rightarrow> namespace_grant list
      \<Rightarrow> namespace_grant list \<Rightarrow> bool" where
  "round_post inp e e' pending waiting' \<longleftrightarrow>
     sound inp e' \<and> grows e e' \<and> (\<forall>g\<in>set pending. g \<in> set waiting' \<or> settled e' g)"

lemma delegation_round_post:
  "delegation_round pending e waiting progress = Inr (e', waiting', progress') \<Longrightarrow>
     workable inp e pending \<Longrightarrow> sound inp e \<Longrightarrow>
     round_post inp e e' pending waiting' \<and>
     set waiting \<subseteq> set waiting' \<and> set waiting' \<subseteq> set waiting \<union> set pending \<and>
     (progress \<longrightarrow> progress') \<and>
     (\<not> progress' \<longrightarrow> e' = e \<and> waiting' = waiting @ pending \<and>
        (\<forall>g\<in>set pending. \<exists>q parents. ng_grantor g = PackageGrantor q \<and>
           bt_get e q = Some parents \<and> \<not> grant_covered parents g))"
proof (induction pending arbitrary: e waiting progress)
  case Nil
  then show ?case by (simp add: round_post_def)
next
  case (Cons grant pending)
  then obtain q parents where q: "ng_grantor grant = PackageGrantor q"
      and parents: "bt_get e q = Some parents" and g: "bt_contains e (ng_grantee grant)"
    by (auto simp: workable_def bt_contains_def)
  have w: "workable inp e pending" "workable inp e [grant]"
    using Cons.prems(2) by (simp_all add: workable_def)
  let ?e = "extend_patterns (ng_grantee grant) (ng_patterns grant) e"
  show ?case
  proof (cases "grant_covered parents grant")
    case True
    have gr: "grows e ?e" by (rule grows_extend [OF g])
    have run: "delegation_round pending ?e waiting True = Inr (e', waiting', progress')"
      using Cons.prems(1) q parents True by simp
    note IH = Cons.IH [OF run grows_workable [OF gr w(1)]
        sound_extend [OF Cons.prems(3) w(2) q parents True]]
    have "settled e' grant"
      using IH grows_settled settled_extend [OF g q parents True] by (auto simp: round_post_def)
    with IH grows_trans [OF gr] show ?thesis by (auto simp: round_post_def)
  next
    case False
    have run: "delegation_round pending e (waiting @ [grant]) progress = Inr (e', waiting', progress')"
      using Cons.prems(1) q parents False by simp
    from Cons.IH [OF run w(1) Cons.prems(3)] q parents False show ?thesis
      by (auto simp: round_post_def)
  qed
qed

text \<open>The outcome of the rounds: everything applied, or a grant nobody can cover.\<close>

definition stuck :: "effective_grants \<Rightarrow> namespace_grant list \<Rightarrow> bool" where
  "stuck e gs \<longleftrightarrow> gs \<noteq> [] \<and>
     (\<forall>g\<in>set gs. \<exists>q parents. ng_grantor g = PackageGrantor q \<and>
        bt_get e q = Some parents \<and> \<not> grant_covered parents g)"

lemma resolve_delegations_outcome:
  assumes "workable inp e pending" and "sound inp e"
  shows "(\<exists>e'. resolve_delegations inp pending e = Inr e' \<and> sound inp e' \<and> grows e e' \<and>
       (\<forall>g\<in>set pending. settled e' g)) \<or>
    (\<exists>err e' waiting. resolve_delegations inp pending e = Inl err \<and> sound inp e' \<and> grows e e' \<and>
       set waiting \<subseteq> set pending \<and> stuck e' waiting \<and>
       (\<forall>g\<in>set pending. g \<in> set waiting \<or> settled e' g))"
  using assms
proof (induction inp pending e rule: resolve_delegations.induct)
  case (1 inp pending e)
  show ?case
  proof (cases "pending = []")
    case True
    then show ?thesis using 1(3) by (intro disjI1) (simp add: resolve_delegations.simps)
  next
    case False
    obtain e' waiting progress where
        run: "delegation_round pending e [] False = Inr (e', waiting, progress)"
      using delegation_round_total [OF 1(2)] by blast
    note post = delegation_round_post [OF run 1(2,3)]
    then have pst: "sound inp e'" "grows e e'" "set waiting \<subseteq> set pending"
        "\<forall>g\<in>set pending. g \<in> set waiting \<or> settled e' g"
      by (simp_all add: round_post_def)
    show ?thesis
    proof (cases progress)
      case True
      have eq: "resolve_delegations inp pending e = resolve_delegations inp waiting e'"
        using False True run by (simp add: resolve_delegations.simps [of inp pending])
      have "workable inp e' pending" by (rule grows_workable [OF pst(2) 1(2)])
      then have "workable inp e' waiting" using pst(3) by (auto simp: workable_def)
      from 1(1) [OF False run refl refl True this pst(1)] show ?thesis
        unfolding eq using pst(2-4) grows_trans grows_settled
        by (elim disjE exE conjE) blast+
    next
      case no: False
      with post have waiting: "waiting = pending" by simp
      obtain grant rest where "waiting = grant # rest" using waiting False by (cases pending) auto
      then have "\<exists>err. resolve_delegations inp pending e = Inl err"
        using run no False
        by (simp add: resolve_delegations.simps [of inp pending] Let_def del: delegation_round.simps)
      moreover have "stuck e' waiting"
        using post no False by (auto simp: stuck_def)
      ultimately show ?thesis using pst by blast
    qed
  qed
qed

subsection \<open>The table is the relation\<close>

lemma authority_included:
  assumes "\<forall>g\<in>set (lg_namespace_grants (ai_graph inp)). included e g" and "authority inp k p"
  shows "p \<in> patterns_of e k"
  using assms(2,1) by (induction rule: authority.induct) (auto simp: included_def)

lemma authority_stuck:
  assumes "\<forall>g\<in>set (lg_namespace_grants (ai_graph inp)). g \<in> set waiting \<or> included e g"
    and "\<forall>g\<in>set waiting. \<exists>q parents. ng_grantor g = PackageGrantor q \<and>
        bt_get e q = Some parents \<and> \<not> grant_covered parents g"
    and "authority inp k p"
  shows "p \<in> patterns_of e k"
  using assms(3)
proof (induction rule: authority.induct)
  case (profile grant q p)
  then have "included e grant" using assms(1,2) by fastforce
  with profile show ?case by (auto simp: included_def)
next
  case (delegated grant package p)
  have "included e grant"
  proof (rule ccontr)
    assume "\<not> included e grant"
    with assms(1) delegated(1) have "grant \<in> set waiting" by blast
    with assms(2) delegated(2) obtain parents where parents: "bt_get e package = Some parents"
        and "\<not> grant_covered parents grant" by auto
    then obtain child where "child \<in> set (bt_keys (ng_patterns grant))"
        "\<forall>parent\<in>patterns_of e package. \<not> pattern_covers parent child"
      unfolding grant_covered_iff [OF parents] by blast
    with delegated.IH show False by blast
  qed
  with delegated.hyps(3) show ?case by (auto simp: included_def)
qed

lemma front_workable:
  assumes "collect_grants inp = Inr st"
  shows "workable inp (gs_effective st) (gs_delegations st)" "sound inp (gs_effective st)"
proof -
  note inv = collect_grants_inv [OF assms]
  show "sound inp (gs_effective st)" using inv by (simp add: front_inv_def sound_def)
  show "workable inp (gs_effective st) (gs_delegations st)"
    unfolding workable_def
  proof
    fix grant
    assume "grant \<in> set (gs_delegations st)"
    then have g: "grant \<in> set (lg_namespace_grants (ai_graph inp))" "by_package grant"
      using inv by (auto simp: front_inv_def)
    then obtain q where q: "ng_grantor grant = PackageGrantor q" by (auto simp: by_package_def)
    have "accepted inp (gs_actual st) grant" using inv g by (simp add: front_inv_def)
    then have "bt_contains (gs_effective st) (ng_grantee grant)" "bt_contains (gs_effective st) q"
      using inv q by (auto simp: accepted_def front_inv_def bt_contains_def)
    with g q show "grant \<in> set (lg_namespace_grants (ai_graph inp)) \<and>
        bt_contains (gs_effective st) (ng_grantee grant) \<and>
        (\<exists>package. ng_grantor grant = PackageGrantor package \<and> bt_contains (gs_effective st) package)"
      by blast
  qed
qed

lemma front_settled:
  assumes st: "collect_grants inp = Inr st" and grows: "grows (gs_effective st) e"
    and rest: "\<forall>g\<in>set (gs_delegations st). g \<in> set waiting \<or> settled e g"
    and g: "g \<in> set (lg_namespace_grants (ai_graph inp))"
  shows "g \<in> set waiting \<or> settled e g"
proof (cases "by_package g")
  case True
  with collect_grants_inv [OF st] g rest show ?thesis by (simp add: front_inv_def)
next
  case False
  with collect_grants_inv [OF st] g have "settled (gs_effective st) g"
    by (auto simp: front_inv_def settled_def by_package_def)
  with grows_settled [OF grows] show ?thesis by blast
qed

lemma validate_namespace_grants_Inr:
  assumes "validate_namespace_grants inp = Inr e"
  obtains st where "expected_profile_namespace_grants inp = Inr (gs_actual st)"
    "collect_grants inp = Inr st"
    "resolve_delegations inp (gs_delegations st) (gs_effective st) = Inr e"
  using assms unfolding validate_namespace_grants_def collect_grants_def
  by (auto simp: result_simps split: if_splits)

lemma effective_relation:
  assumes "validate_namespace_grants inp = Inr e"
  shows "p \<in> patterns_of e k \<longleftrightarrow> authority inp k p"
proof -
  from assms obtain st where st: "collect_grants inp = Inr st"
      and run: "resolve_delegations inp (gs_delegations st) (gs_effective st) = Inr e"
    by (rule validate_namespace_grants_Inr)
  from resolve_delegations_outcome [OF front_workable [OF st]] run
  have out: "sound inp e" "grows (gs_effective st) e" "\<forall>g\<in>set (gs_delegations st). settled e g"
    by auto
  have "\<forall>g\<in>set (lg_namespace_grants (ai_graph inp)). included e g"
    using front_settled [OF st out(2), of "[]"] out(3) by (auto simp: settled_def)
  with out(1) show ?thesis using authority_included by (auto simp: sound_def)
qed

subsection \<open>Where authority comes from\<close>

definition dependency_edges :: "locked_graph \<Rightarrow> (string \<times> string) set" where
  "dependency_edges g =
     {(a, b). \<exists>node. bt_get (lg_packages g) a = Some node \<and> bt_contains (lp_dependencies node) b}"

definition from_policy :: "authority_input \<Rightarrow> profile_grants \<Rightarrow> bool" where
  "from_policy inp expected \<longleftrightarrow>
     (\<forall>g n s p. bt_get expected (g, n) = Some s \<longrightarrow> p \<in> set (bt_keys s) \<longrightarrow>
        (\<exists>patterns. bt_get (ai_policy_grants inp) g = Some patterns \<and> p \<in> set (bt_keys patterns)))"

lemma bt_keys_insert: "set (bt_keys (bt_insert k v m)) = insert k (set (bt_keys m))"
  by (auto simp: bt_contains_iff [symmetric] bt_contains_def bt.get_insert split: if_splits)

lemma expect_pattern_policy:
  assumes "expect_pattern g p ex = Inr ex'" and "from_policy inp ex"
    and "bt_get (ai_policy_grants inp) g = Some patterns" and "p \<in> set (bt_keys patterns)"
  shows "from_policy inp ex'"
proof -
  from assms(1) obtain n where ex': "ex' = bt_insert (g, n) (bt_insert p ()
      (case bt_get ex (g, n) of None \<Rightarrow> bt_empty | Some s \<Rightarrow> s)) ex"
    by (auto simp: expect_pattern_def result_simps Let_def)
  show ?thesis
    unfolding from_policy_def
  proof (intro allI impI)
    fix g' n' s p'
    assume get: "bt_get ex' (g', n') = Some s" and p': "p' \<in> set (bt_keys s)"
    show "\<exists>patterns. bt_get (ai_policy_grants inp) g' = Some patterns \<and> p' \<in> set (bt_keys patterns)"
    proof (cases "(g', n') = (g, n)")
      case False
      then have "bt_get ex (g', n') = Some s" using get by (auto simp: ex' bt.get_insert)
      with assms(2) p' show ?thesis unfolding from_policy_def by blast
    next
      case True
      then have "p' = p \<or> (\<exists>old. bt_get ex (g, n) = Some old \<and> p' \<in> set (bt_keys old))"
        using get p' by (auto simp: ex' bt.get_insert bt_keys_insert split: option.splits)
      then show ?thesis
        using True assms(2-4) unfolding from_policy_def by blast
    qed
  qed
qed

lemma expected_from_policy:
  assumes "expected_profile_namespace_grants inp = Inr ex"
  shows "from_policy inp ex"
  using assms unfolding expected_profile_namespace_grants_def
proof (rule try_fold_invariant)
  show "from_policy inp bt_empty" by (simp add: from_policy_def bt.get_empty)
next
  fix e ex ex'
  assume e: "e \<in> set (entries (ai_policy_grants inp))" and ex: "from_policy inp ex"
    and step: "(case e of (grantee, patterns) \<Rightarrow> try_fold (expect_pattern grantee) (bt_keys patterns)) ex
      = Inr ex'"
  obtain g patterns where gp: "e = (g, patterns)" by (cases e)
  have "try_fold (expect_pattern g) (bt_keys patterns) ex = Inr ex'" using step gp by simp
  then show "from_policy inp ex'"
  proof (rule try_fold_invariant)
    show "from_policy inp ex" by (rule ex)
  next
    fix p s t
    assume p: "p \<in> set (bt_keys patterns)" and s: "from_policy inp s"
      and t: "expect_pattern g p s = Inr t"
    have "bt_get (ai_policy_grants inp) g = Some patterns"
      using e gp by (simp add: bt.entries_get)
    from expect_pattern_policy [OF t s this p] show "from_policy inp t" .
  qed
qed

definition granted_to_root :: "authority_input \<Rightarrow> string \<Rightarrow> stable_id \<Rightarrow> bool" where
  "granted_to_root inp k i \<longleftrightarrow>
     (\<exists>root patterns top. bt_contains (lg_roots (ai_graph inp)) root \<and>
        (root, k) \<in> (dependency_edges (ai_graph inp))\<^sup>* \<and>
        bt_get (ai_policy_grants inp) root = Some patterns \<and> top \<in> set (bt_keys patterns) \<and>
        pattern_matches top i)"

lemma authority_origin:
  assumes st: "collect_grants inp = Inr st"
    and ex: "expected_profile_namespace_grants inp = Inr (gs_actual st)"
    and "authority inp k p" and "pattern_matches p i"
  shows "granted_to_root inp k i"
  using assms(3,4)
proof (induction arbitrary: i rule: authority.induct)
  case (profile grant q p)
  have "accepted inp (gs_actual st) grant"
    using collect_grants_inv [OF st] profile(1) by (simp add: front_inv_def)
  then have root: "bt_contains (lg_roots (ai_graph inp)) (ng_grantee grant)"
      and "bt_get (gs_actual st) (ng_grantee grant, ng_namespace grant) = Some (ng_patterns grant)"
    using profile(2) by (simp_all add: accepted_def)
  with expected_from_policy [OF ex] profile(3) obtain patterns where
      "bt_get (ai_policy_grants inp) (ng_grantee grant) = Some patterns" "p \<in> set (bt_keys patterns)"
    unfolding from_policy_def by blast
  with root profile(4) show ?case unfolding granted_to_root_def by blast
next
  case (delegated grant package p)
  have "accepted inp (gs_actual st) grant"
    using collect_grants_inv [OF st] delegated(1) by (simp add: front_inv_def)
  then have edge: "(package, ng_grantee grant) \<in> dependency_edges (ai_graph inp)"
    using delegated(2) by (auto simp: accepted_def dependency_edges_def)
  from delegated.IH delegated.hyps(3) obtain parent where
      "\<And>i. pattern_matches parent i \<Longrightarrow> granted_to_root inp package i" "pattern_covers parent p"
    by blast
  with pattern_covers_sound delegated.prems have "granted_to_root inp package i" by blast
  with edge show ?case unfolding granted_to_root_def by (meson rtrancl.rtrancl_into_rtrancl)
qed

subsection \<open>The locked graph\<close>

lemma dependencies_of_iff:
  "b \<in> set (dependencies_of g r) \<longleftrightarrow> (\<exists>a\<in>set (bt_keys r). (a, b) \<in> dependency_edges g)"
proof -
  have "b \<in> set (dependencies_of g r) \<longleftrightarrow>
      (\<exists>a\<in>set (bt_keys r). b \<in> set (case bt_get (lg_packages g) a of
         None \<Rightarrow> [] | Some p \<Rightarrow> bt_keys (lp_dependencies p)))"
    by (simp add: dependencies_of_def)
  also have "\<dots> \<longleftrightarrow> (\<exists>a\<in>set (bt_keys r). (a, b) \<in> dependency_edges g)"
  proof (intro bex_cong refl)
    fix a
    show "b \<in> set (case bt_get (lg_packages g) a of None \<Rightarrow> [] | Some p \<Rightarrow> bt_keys (lp_dependencies p))
        \<longleftrightarrow> (a, b) \<in> dependency_edges g"
      by (cases "bt_get (lg_packages g) a") (simp_all add: dependency_edges_def bt_contains_iff)
  qed
  finally show ?thesis .
qed

lemma reachable_closure_image:
  "set (bt_keys (reachable_closure g r)) = (dependency_edges g)\<^sup>* `` set (bt_keys r)"
proof (induction g r rule: reachable_closure.induct)
  case (1 g r)
  let ?r = "bs_extend (dependencies_of g r) r"
  let ?E = "dependency_edges g"
  have step: "set (bt_keys ?r) = ?E `` set (bt_keys r) \<union> set (bt_keys r)"
    unfolding keys_bs_extend using dependencies_of_iff by blast
  show ?case
  proof (cases "bt_len ?r = bt_len r")
    case True
    have "set (bt_keys r) \<subseteq> set (bt_keys ?r)" using step by blast
    with True have same: "set (bt_keys ?r) = set (bt_keys r)"
      using card_subset_eq [of "set (bt_keys ?r)" "set (bt_keys r)"] by (simp add: bt_len_card)
    then have "?E `` set (bt_keys r) \<subseteq> set (bt_keys r)" using step by blast
    then have "?E\<^sup>* `` set (bt_keys r) = set (bt_keys r)" by (rule Image_closed_trancl)
    with True same show ?thesis by (simp add: reachable_closure.simps [of g r])
  next
    case False
    have "?E\<^sup>* `` (?E `` set (bt_keys r) \<union> set (bt_keys r)) = ?E\<^sup>* `` set (bt_keys r)"
      by (auto intro: converse_rtrancl_into_rtrancl)
    with False 1 [OF refl refl] step show ?thesis by (simp add: reachable_closure.simps [of g r])
  qed
qed

definition dependency_edge_ok :: "locked_graph \<Rightarrow> string \<times> string \<Rightarrow> bool" where
  "dependency_edge_ok g e \<longleftrightarrow>
     (\<exists>node. bt_get (lg_packages g) (fst e) = Some node \<and> snd e = lp_version node)"

lemma check_dependency_Inr:
  "check_dependency g key e = Inr () \<longleftrightarrow> dependency_edge_ok g e"
  by (cases e)
    (auto simp: check_dependency_def dependency_edge_ok_def result_simps split: option.splits)

lemma check_package_Inr:
  "check_package g e = Inr () \<longleftrightarrow>
     fst e = lp_name (snd e) \<and> (\<forall>d\<in>set (entries (lp_dependencies (snd e))). dependency_edge_ok g d)"
  by (cases e) (auto simp: check_package_def result_simps check_dependency_Inr)

lemma check_providers_Inr:
  "check_providers g e = Inr () \<longleftrightarrow>
     snd e \<noteq> [] \<and> distinct (snd e) \<and> (\<forall>p\<in>set (snd e). bt_contains (lg_packages g) p)"
  by (cases e) (auto simp: check_providers_def result_simps)

subsection \<open>Properties\<close>

text \<open>C8: whatever identifier a package is allowed to register matches a pattern that the
  evaluated profile granted to a root package, and the package is a transitive dependency of
  that root. Delegation never widens what the profile gave.\<close>

theorem authority_bounded:
  assumes "validate_namespace_grants inp = Inr effective"
    and "ensure_namespace_authority effective package i = Inr ()"
  shows "\<exists>root patterns top. bt_contains (lg_roots (ai_graph inp)) root \<and>
    (root, package) \<in> (dependency_edges (ai_graph inp))\<^sup>* \<and>
    bt_get (ai_policy_grants inp) root = Some patterns \<and> top \<in> set (bt_keys patterns) \<and>
    pattern_matches top i"
proof -
  from assms(2) obtain p where "p \<in> patterns_of effective package" "pattern_matches p i"
    by (auto simp: ensure_namespace_authority_def patterns_of_def list_ex_iff
        split: if_splits option.splits)
  with effective_relation [OF assms(1)] have p: "authority inp package p" "pattern_matches p i"
    by auto
  from assms(1) obtain st where "expected_profile_namespace_grants inp = Inr (gs_actual st)"
      "collect_grants inp = Inr st"
    by (rule validate_namespace_grants_Inr)
  from authority_origin [OF this(2,1) p] show ?thesis by (simp add: granted_to_root_def)
qed

text \<open>C16: once the grants are well formed and the profile's grants are the expected ones, the
  rounds accept exactly when every delegated pattern is covered by a pattern the grantor
  holds, whatever the order of the grants and the length of the chains, and the resulting
  table is the least relation that follows the grants.\<close>

theorem delegations_exact:
  assumes "collect_grants inp = Inr st"
    and "expected_profile_namespace_grants inp = Inr (gs_actual st)"
  shows "(\<exists>effective. validate_namespace_grants inp = Inr effective) =
      (\<forall>grant \<in> set (lg_namespace_grants (ai_graph inp)). \<forall>package.
         ng_grantor grant = PackageGrantor package \<longrightarrow>
         (\<forall>child \<in> set (bt_keys (ng_patterns grant)).
            \<exists>parent. authority inp package parent \<and> pattern_covers parent child))
    \<and> (\<forall>effective. validate_namespace_grants inp = Inr effective \<longrightarrow>
        (\<forall>k p. (p \<in> patterns_of effective k) = authority inp k p))"
proof
  show "\<forall>effective. validate_namespace_grants inp = Inr effective \<longrightarrow>
      (\<forall>k p. (p \<in> patterns_of effective k) = authority inp k p)"
    using effective_relation by blast
  have run: "validate_namespace_grants inp =
      resolve_delegations inp (gs_delegations st) (gs_effective st)"
    using assms by (simp add: validate_namespace_grants_def collect_grants_def)
  let ?covered = "\<lambda>grant. \<forall>package. ng_grantor grant = PackageGrantor package \<longrightarrow>
      (\<forall>child \<in> set (bt_keys (ng_patterns grant)).
         \<exists>parent. authority inp package parent \<and> pattern_covers parent child)"
  from resolve_delegations_outcome [OF front_workable [OF assms(1)]]
  consider (ok) e where "validate_namespace_grants inp = Inr e" "sound inp e"
      "grows (gs_effective st) e" "\<forall>g\<in>set (gs_delegations st). settled e g"
    | (bad) err e waiting where "validate_namespace_grants inp = Inl err" "sound inp e"
      "grows (gs_effective st) e" "set waiting \<subseteq> set (gs_delegations st)" "stuck e waiting"
      "\<forall>g\<in>set (gs_delegations st). g \<in> set waiting \<or> settled e g"
    unfolding run by blast
  then show "(\<exists>effective. validate_namespace_grants inp = Inr effective) =
      (\<forall>grant \<in> set (lg_namespace_grants (ai_graph inp)). ?covered grant)"
  proof cases
    case ok
    have "settled e grant" if "grant \<in> set (lg_namespace_grants (ai_graph inp))" for grant
      using front_settled [OF assms(1) ok(3), of "[]"] ok(4) that by auto
    then have "?covered grant" if "grant \<in> set (lg_namespace_grants (ai_graph inp))" for grant
      using that ok(2) unfolding settled_def sound_def by blast
    with ok(1) show ?thesis by blast
  next
    case bad
    have all: "g \<in> set waiting \<or> settled e g" if "g \<in> set (lg_namespace_grants (ai_graph inp))" for g
      using front_settled [OF assms(1) bad(3,6)] that by blast
    obtain grant q parents where g: "grant \<in> set waiting" "ng_grantor grant = PackageGrantor q"
        and parents: "bt_get e q = Some parents" and unc: "\<not> grant_covered parents grant"
      using bad(5) unfolding stuck_def by (cases waiting) auto
    have "grant \<in> set (lg_namespace_grants (ai_graph inp))"
      using g(1) bad(4) collect_grants_inv [OF assms(1)] by (auto simp: front_inv_def)
    moreover have "\<not> ?covered grant"
    proof
      assume "?covered grant"
      moreover have "parent \<in> patterns_of e q" if "authority inp q parent" for parent
        using authority_stuck [OF _ _ that, of waiting e] all bad(5)
        by (auto simp: settled_def stuck_def)
      ultimately have "grant_covered parents grant"
        unfolding grant_covered_iff [OF parents] using g(2) by blast
      with unc show False by blast
    qed
    ultimately show ?thesis using bad(1) by auto
  qed
qed

lemma option_None_Inr: "(case m of Some a \<Rightarrow> Inl (f a) | None \<Rightarrow> Inr ()) = Inr () \<longleftrightarrow> m = None"
  by (cases m) simp_all

text \<open>C26: the structural check of a locked graph accepts exactly the closed graphs: all roots,
  dependencies and capability providers are nodes, edges carry the version of their node,
  keys are names, provider lists are non-empty and free of repetitions, and every node is
  reachable from a root or a provider along dependencies.\<close>

theorem graph_structure_exact:
  "validate_graph_structure g = Inr () \<longleftrightarrow>
     (\<forall>root\<in>set (bt_keys (lg_roots g)). bt_contains (lg_packages g) root) \<and>
     (\<forall>e\<in>set (entries (lg_packages g)). fst e = lp_name (snd e) \<and>
        (\<forall>d\<in>set (entries (lp_dependencies (snd e))). dependency_edge_ok g d)) \<and>
     (\<forall>e\<in>set (entries (lg_capability_providers g)).
        snd e \<noteq> [] \<and> distinct (snd e) \<and> (\<forall>p\<in>set (snd e). bt_contains (lg_packages g) p)) \<and>
     (\<forall>k\<in>set (bt_keys (lg_packages g)). \<exists>start.
        (start \<in> set (bt_keys (lg_roots g)) \<or>
         (\<exists>providers\<in>set (bt_values (lg_capability_providers g)). start \<in> set providers)) \<and>
        (start, k) \<in> (dependency_edges g)\<^sup>*)"
proof -
  let ?start = "bs_extend (concat (bt_values (lg_capability_providers g))) (lg_roots g)"
  have "(find (\<lambda>package. \<not> bt_contains (reachable_closure g ?start) package)
      (bt_keys (lg_packages g)) = None) \<longleftrightarrow>
    (\<forall>k\<in>set (bt_keys (lg_packages g)). k \<in> (dependency_edges g)\<^sup>* `` set (bt_keys ?start))"
    unfolding find_None_iff bt_contains_iff reachable_closure_image by blast
  also have "\<dots> \<longleftrightarrow> (\<forall>k\<in>set (bt_keys (lg_packages g)). \<exists>start.
        (start \<in> set (bt_keys (lg_roots g)) \<or>
         (\<exists>providers\<in>set (bt_values (lg_capability_providers g)). start \<in> set providers)) \<and>
        (start, k) \<in> (dependency_edges g)\<^sup>*)"
    unfolding Image_iff keys_bs_extend by (intro ball_cong refl) auto
  finally have reach: "(case find (\<lambda>package. \<not> bt_contains (reachable_closure g ?start) package)
      (bt_keys (lg_packages g)) of Some package \<Rightarrow> Inl (UnreachablePackage package) | None \<Rightarrow> Inr ())
      = Inr () \<longleftrightarrow> (\<forall>k\<in>set (bt_keys (lg_packages g)). \<exists>start.
        (start \<in> set (bt_keys (lg_roots g)) \<or>
         (\<exists>providers\<in>set (bt_values (lg_capability_providers g)). start \<in> set providers)) \<and>
        (start, k) \<in> (dependency_edges g)\<^sup>*)"
    unfolding option_None_Inr .
  show ?thesis
    unfolding validate_graph_structure_def Let_def and_then_Inr reach
    by (simp add: result_simps check_package_Inr check_providers_Inr)
qed

subsection \<open>Witnesses\<close>

text \<open>
  A profile grants its root \<open>app\<close> the blocks of a namespace; \<open>app\<close> delegates a part of
  them to \<open>lib\<close>, which passes one block on to \<open>leaf\<close>.
\<close>

definition pattern_of :: "string \<Rightarrow> grant_pattern" where
  "pattern_of v = (case grant_pattern_new (\<lambda>_. True) v of Inr p \<Rightarrow> p | Inl _ \<Rightarrow> GrantPattern [] 0 0)"

definition id_of_text :: "string \<Rightarrow> stable_id" where
  "id_of_text v = (case parse_stable_id v of Inr i \<Rightarrow> i
     | Inl _ \<Rightarrow> \<lparr>sid_value = [], sid_namespace_end = 0, sid_kind_end = 0,
                sid_major_marker = None, sid_major = None\<rparr>)"

definition grant_of :: "namespace_grantor \<Rightarrow> string \<Rightarrow> string \<Rightarrow> namespace_grant" where
  "grant_of grantor grantee v =
     \<lparr>ng_namespace = ''app'', ng_grantor = grantor, ng_grantee = grantee,
      ng_patterns = bt_insert (pattern_of v) () bt_empty\<rparr>"

definition chain_input :: authority_input where
  "chain_input =
     (let node = (\<lambda>n deps. \<lparr>lp_name = n, lp_version = ''1.0.0'',
            lp_dependencies = fold (\<lambda>d. bt_insert d ''1.0.0'') deps bt_empty\<rparr>);
          profile = id_of_text ''app:profile/main''
      in \<lparr>ai_graph =
           \<lparr>lg_roots = bt_insert ''app'' () bt_empty,
            lg_packages = bt_insert ''app'' (node ''app'' [''lib''])
              (bt_insert ''lib'' (node ''lib'' [''leaf'']) (bt_insert ''leaf'' (node ''leaf'' []) bt_empty)),
            lg_capability_providers = bt_empty,
            lg_namespace_grants =
              [grant_of (PackageGrantor ''lib'') ''leaf'' ''app:block/lib/stone'',
               grant_of (PackageGrantor ''app'') ''lib'' ''app:block/lib/**'',
               grant_of (ProfileGrantor profile) ''app'' ''app:block/**'']\<rparr>,
          ai_profile = profile,
          ai_policy_grants = bt_insert ''app'' (bt_insert (pattern_of ''app:block/**'') () bt_empty) bt_empty\<rparr>)"

definition right_of :: "'e + 'a \<Rightarrow> 'a" where
  "right_of r = (case r of Inr a \<Rightarrow> a)"

lemma chain_accepted:
  "is_ok (validate_namespace_grants chain_input) \<and>
   is_ok (ensure_namespace_authority (right_of (validate_namespace_grants chain_input)) ''leaf''
     (id_of_text ''app:block/lib/stone@2''))"
  by code_simp

lemma chain_collected:
  "is_ok (collect_grants chain_input) \<and>
   expected_profile_namespace_grants chain_input = Inr (gs_actual (right_of (collect_grants chain_input)))"
  by code_simp

lemma is_ok_right: "is_ok r \<Longrightarrow> r = Inr (right_of r)"
  by (cases r) (simp_all add: right_of_def)

lemma authority_bounded_witness:
  "\<exists>root patterns top. bt_contains (lg_roots (ai_graph chain_input)) root \<and>
    (root, ''leaf'') \<in> (dependency_edges (ai_graph chain_input))\<^sup>* \<and>
    bt_get (ai_policy_grants chain_input) root = Some patterns \<and> top \<in> set (bt_keys patterns) \<and>
    pattern_matches top (id_of_text ''app:block/lib/stone@2'')"
  by (rule authority_bounded [of _ "right_of (validate_namespace_grants chain_input)"])
    (use chain_accepted in \<open>auto simp: is_ok_iff right_of_def\<close>)

lemma delegations_exact_witness:
  "authority chain_input ''leaf'' (pattern_of ''app:block/lib/stone'')"
proof -
  have "validate_namespace_grants chain_input = Inr (right_of (validate_namespace_grants chain_input))"
    using chain_accepted is_ok_right by blast
  moreover have "pattern_of ''app:block/lib/stone'' \<in>
      patterns_of (right_of (validate_namespace_grants chain_input)) ''leaf''"
    unfolding patterns_of_def by code_simp
  moreover have "collect_grants chain_input = Inr (right_of (collect_grants chain_input))"
    using chain_collected is_ok_right by blast
  ultimately show ?thesis
    using delegations_exact [of chain_input "right_of (collect_grants chain_input)"] chain_collected
    by blast
qed

lemma graph_structure_exact_witness:
  "\<exists>start. (start \<in> set (bt_keys (lg_roots (ai_graph chain_input))) \<or>
      (\<exists>providers\<in>set (bt_values (lg_capability_providers (ai_graph chain_input))). start \<in> set providers)) \<and>
    (start, ''leaf'') \<in> (dependency_edges (ai_graph chain_input))\<^sup>*"
proof -
  have "validate_graph_structure (ai_graph chain_input) = Inr ()" by code_simp
  moreover have "''leaf'' \<in> set (bt_keys (lg_packages (ai_graph chain_input)))" by code_simp
  ultimately show ?thesis unfolding graph_structure_exact by blast
qed

text \<open>A child the parent does not contain, and an identifier that shows it.\<close>

lemma covers_is_containment_witness:
  "\<exists>i. parse_stable_id (sid_value i) = Inr i \<and> pattern_matches (pattern_of ''app:block/**'') i \<and>
     \<not> pattern_matches (pattern_of ''app:block/*'') i"
proof -
  have "grant_pattern_new (\<lambda>_. True) ''app:block/*'' = Inr (pattern_of ''app:block/*'')"
    "grant_pattern_new (\<lambda>_. True) ''app:block/**'' = Inr (pattern_of ''app:block/**'')"
    by code_simp+
  note exact = covers_is_containment [OF this]
  have "\<not> pattern_covers (pattern_of ''app:block/*'') (pattern_of ''app:block/**'')"
    "\<not> (gp_path_pattern (pattern_of ''app:block/*'') = ''*/**'' \<and>
        gp_path_pattern (pattern_of ''app:block/**'') = ''**'')"
    by code_simp+
  with exact show ?thesis by blast
qed

end
