(* ===== verification/System_Schedule.thy ===== *)
theory System_Schedule
  imports Namespace_Authority
begin

section \<open>The system schedule\<close>

text \<open>
  \<open>schedule.rs\<close> of \<open>latticeaxiom-registration\<close>: the systems of every stage are ordered
  topologically along their \<open>before\<close> and \<open>after\<close> sets, smallest identifier first.
  The loop over the ready set is a \<^theory_text>\<open>partial_function\<close>: for arbitrary edge tables it
  need not end, and that it does end on the tables the code builds is a theorem.
\<close>

record system_declaration =
  sd_id :: string
  sd_stage :: string
  sd_after :: name_set
  sd_before :: name_set

type_synonym systems = "(string, system_declaration) btree"
type_synonym edge_table = "(string, name_set) btree"
type_synonym count_table = "(string, usize) btree"

definition system_stages :: "string list" where
  "system_stages =
     [''latticeaxiom:system-stage/input/sample@1'',
      ''latticeaxiom:system-stage/gameplay/fixed-pre@1'',
      ''latticeaxiom:system-stage/gameplay/fixed@1'',
      ''latticeaxiom:system-stage/physics/integrate@1'',
      ''latticeaxiom:system-stage/world/commands-apply@1'',
      ''latticeaxiom:system-stage/world/revision-commit@1'',
      ''latticeaxiom:system-stage/derived-work/queue@1'',
      ''latticeaxiom:system-stage/persistence/capture@1'',
      ''latticeaxiom:system-stage/async-results/observe@1'',
      ''latticeaxiom:system-stage/presentation/update@1'']"

definition add_edge ::
    "systems \<Rightarrow> string \<Rightarrow> string \<Rightarrow> edge_table \<times> count_table
      \<Rightarrow> registration_error + (edge_table \<times> count_table)" where
  "add_edge systems a b tables =
     (case tables of (outgoing, incoming) \<Rightarrow>
      case bt_get systems a of
        None \<Rightarrow> Inl (UnknownScheduleTarget b a)
      | Some from_system \<Rightarrow>
          (case bt_get systems b of
             None \<Rightarrow> Inl (UnknownScheduleTarget a b)
           | Some to_system \<Rightarrow>
               if sd_stage from_system \<noteq> sd_stage to_system
               then Inl (CrossStageScheduleEdge a (sd_stage from_system) b (sd_stage to_system))
               else case bt_get outgoing a of
                 None \<Rightarrow> Inr (outgoing, incoming)
               | Some targets \<Rightarrow>
                   if bt_contains targets b then Inr (outgoing, incoming)
                   else case bt_get incoming b of
                     None \<Rightarrow> Inl (UnknownScheduleTarget a b)
                   | Some count \<Rightarrow>
                       and_then (ok_or (checked_add usize_max count 1)
                           (LimitExceeded ''schedule-edges'' usize_max (usize_max - 1)))
                         (\<lambda>count'. Inr (bt_insert a (bt_insert b () targets) outgoing,
                                       bt_insert b count' incoming))))"

definition add_system ::
    "systems \<Rightarrow> system_declaration \<Rightarrow> edge_table \<times> count_table
      \<Rightarrow> registration_error + (edge_table \<times> count_table)" where
  "add_system systems system tables =
     and_then (try_fold (\<lambda>target. add_edge systems (sd_id system) target)
       (bt_keys (sd_before system)) tables)
     (try_fold (\<lambda>target. add_edge systems target (sd_id system)) (bt_keys (sd_after system)))"

definition relax_target ::
    "string \<Rightarrow> string \<Rightarrow> count_table \<times> name_set \<Rightarrow> registration_error + (count_table \<times> name_set)"
where
  "relax_target current target st =
     (case st of (incoming, ready) \<Rightarrow>
      case bt_get incoming target of
        None \<Rightarrow> Inl (UnknownScheduleTarget current target)
      | Some count \<Rightarrow>
          let count' = count - 1
          in Inr (bt_insert target count' incoming,
                  if count' = 0 then bt_insert target () ready else ready))"

partial_function (option) ready_loop ::
    "edge_table \<Rightarrow> count_table \<Rightarrow> name_set \<Rightarrow> string list
      \<Rightarrow> (registration_error + (count_table \<times> string list)) option" where
  "ready_loop outgoing incoming ready ordered =
     (case bt_keys ready of
        [] \<Rightarrow> Some (Inr (incoming, ordered))
      | current # _ \<Rightarrow>
          (case try_fold (relax_target current)
              (case bt_get outgoing current of None \<Rightarrow> [] | Some targets \<Rightarrow> bt_keys targets)
              (incoming, bt_remove current ready) of
             Inl e \<Rightarrow> Some (Inl e)
           | Inr (incoming', ready') \<Rightarrow>
               ready_loop outgoing incoming' ready' (ordered @ [current])))"

declare ready_loop.simps [code]

definition empty_outgoing :: "systems \<Rightarrow> edge_table" where
  "empty_outgoing systems = fold (\<lambda>k. bt_insert k bt_empty) (bt_keys systems) bt_empty"

definition zero_incoming :: "systems \<Rightarrow> count_table" where
  "zero_incoming systems = fold (\<lambda>k. bt_insert k 0) (bt_keys systems) bt_empty"

definition initially_ready :: "count_table \<Rightarrow> name_set" where
  "initially_ready incoming =
     bs_extend (List.map fst (List.filter (\<lambda>(_, count). count = 0) (entries incoming))) bt_empty"

definition finish_stage ::
    "systems \<Rightarrow> count_table \<times> string list \<Rightarrow> registration_error + string list" where
  "finish_stage systems r =
     (case r of (incoming, ordered) \<Rightarrow>
      if length ordered \<noteq> bt_len systems
      then case bt_values systems of
          [] \<Rightarrow> Inl (LimitExceeded ''schedule-cycle-diagnostic'' 0 0)
        | system # _ \<Rightarrow>
            Inl (ScheduleCycle (sd_stage system)
              (List.map fst (List.filter (\<lambda>(_, count). count > 0) (entries incoming))))
      else Inr ordered)"

definition build_tables :: "systems \<Rightarrow> registration_error + (edge_table \<times> count_table)" where
  "build_tables systems =
     try_fold (add_system systems) (bt_values systems)
       (empty_outgoing systems, zero_incoming systems)"

definition compile_stage :: "systems \<Rightarrow> (registration_error + string list) option" where
  "compile_stage systems =
     (case build_tables systems of
        Inl e \<Rightarrow> Some (Inl e)
      | Inr (outgoing, incoming) \<Rightarrow>
          (case ready_loop outgoing incoming (initially_ready incoming) [] of
             None \<Rightarrow> None
           | Some (Inl e) \<Rightarrow> Some (Inl e)
           | Some (Inr r) \<Rightarrow> Some (finish_stage systems r)))"

definition stage_systems :: "systems \<Rightarrow> string \<Rightarrow> systems" where
  "stage_systems systems stage = bt_retain (\<lambda>(_, system). sd_stage system = stage) systems"

fun compile_stages ::
    "systems \<Rightarrow> string list \<Rightarrow> string list \<Rightarrow> (registration_error + string list) option" where
  "compile_stages systems [] output = Some (Inr output)"
| "compile_stages systems (stage # stages) output =
     (if bt_len (stage_systems systems stage) = 0 then compile_stages systems stages output
      else case compile_stage (stage_systems systems stage) of
        None \<Rightarrow> None
      | Some (Inl e) \<Rightarrow> Some (Inl e)
      | Some (Inr ordered) \<Rightarrow> compile_stages systems stages (output @ ordered))"

definition compile_schedule :: "systems \<Rightarrow> (registration_error + string list) option" where
  "compile_schedule systems =
     (case try_each (\<lambda>system. ensure (sd_stage system \<in> set system_stages)
             (UnknownStage (sd_id system) (sd_stage system))) (bt_values systems) of
        Inl e \<Rightarrow> Some (Inl e)
      | Inr _ \<Rightarrow> compile_stages systems system_stages [])"

end
