(* ===== verification/Schedule_Order.thy ===== *)
theory Schedule_Order
  imports System_Schedule Authority_Properties
begin

section \<open>The schedule is the least topological order\<close>

text \<open>
  The abstract specification of the ready loop takes the least system all of whose
  predecessors are placed, until there is none. The loop over the tables computes it and
  therefore ends; what it leaves over are the systems behind a cycle.
\<close>

subsection \<open>Greedy placement\<close>

definition ready_set :: "'a set \<Rightarrow> ('a \<times> 'a) set \<Rightarrow> 'a set \<Rightarrow> 'a set" where
  "ready_set V E D = {v \<in> V - D. \<forall>u. (u, v) \<in> E \<longrightarrow> u \<in> D}"

inductive greedy :: "'a::linorder set \<Rightarrow> ('a \<times> 'a) set \<Rightarrow> 'a list \<Rightarrow> 'a list \<Rightarrow> bool"
  for V E where
  stop: "ready_set V E (set D) = {} \<Longrightarrow> greedy V E D D"
| step: "ready_set V E (set D) \<noteq> {} \<Longrightarrow>
     greedy V E (D @ [Min (ready_set V E (set D))]) D' \<Longrightarrow> greedy V E D D'"

inductive_cases greedyE: "greedy V E D D'"

definition prefix_closed :: "('a \<times> 'a) set \<Rightarrow> 'a list \<Rightarrow> bool" where
  "prefix_closed E D \<longleftrightarrow>
     (\<forall>xs v ys. D = xs @ v # ys \<longrightarrow> (\<forall>u. (u, v) \<in> E \<longrightarrow> u \<in> set xs))"

definition precedes :: "'a list \<Rightarrow> 'a \<Rightarrow> 'a \<Rightarrow> bool" where
  "precedes D u v \<longleftrightarrow> (\<exists>xs ys. D = xs @ v # ys \<and> u \<in> set xs)"

lemma prefix_closed_snoc:
  assumes "prefix_closed E D" and "\<forall>u. (u, x) \<in> E \<longrightarrow> u \<in> set D"
  shows "prefix_closed E (D @ [x])"
  unfolding prefix_closed_def
proof (intro allI impI)
  fix xs v ys u
  assume eq: "D @ [x] = xs @ v # ys" and u: "(u, v) \<in> E"
  show "u \<in> set xs"
  proof (cases ys rule: rev_cases)
    case Nil
    with eq assms(2) u show ?thesis by simp
  next
    case (snoc zs z)
    with eq have "D = xs @ v # zs" by simp
    with assms(1) u show ?thesis unfolding prefix_closed_def by blast
  qed
qed

lemma prefix_closed_precedes:
  "prefix_closed E D \<Longrightarrow> (u, v) \<in> E \<Longrightarrow> v \<in> set D \<Longrightarrow> precedes D u v"
  unfolding prefix_closed_def precedes_def by (metis split_list)

lemma prefix_closed_trancl:
  assumes "prefix_closed E D" and "(u, v) \<in> E\<^sup>+"
  shows "D = xs @ v # ys \<Longrightarrow> u \<in> set xs"
  using assms(2)
proof (induction arbitrary: xs ys rule: trancl_induct)
  case (base v)
  with assms(1) show ?case unfolding prefix_closed_def by blast
next
  case (step w v)
  then have "w \<in> set xs" using assms(1) unfolding prefix_closed_def by blast
  then obtain as bs where "xs = as @ w # bs" by (metis split_list)
  with step.IH [of as "bs @ v # ys"] step.prems show ?case by simp
qed

lemma prefix_closed_acyclic:
  assumes "prefix_closed E D" and "distinct D" and "v \<in> set D"
  shows "(v, v) \<notin> E\<^sup>+"
proof
  assume c: "(v, v) \<in> E\<^sup>+"
  obtain xs ys where "D = xs @ v # ys" using assms(3) by (metis split_list)
  with prefix_closed_trancl [OF assms(1) c this] assms(2) show False by simp
qed

text \<open>What holds of a list of placed systems.\<close>

definition placed :: "'a set \<Rightarrow> ('a \<times> 'a) set \<Rightarrow> 'a list \<Rightarrow> bool" where
  "placed V E D \<longleftrightarrow> distinct D \<and> set D \<subseteq> V \<and> prefix_closed E D"

lemma placed_Nil [simp]: "placed V E []"
  by (simp add: placed_def prefix_closed_def)

lemma placed_snoc: "placed V E D \<Longrightarrow> x \<in> ready_set V E (set D) \<Longrightarrow> placed V E (D @ [x])"
  using prefix_closed_snoc [of E D x] by (auto simp: placed_def ready_set_def)

lemma finite_ready_set: "finite V \<Longrightarrow> finite (ready_set V E D)"
  by (simp add: ready_set_def)

lemma greedy_placed:
  assumes "greedy V E D D'" and "finite V" and "placed V E D"
  shows "placed V E D' \<and> ready_set V E (set D') = {}"
  using assms(1,3)
proof (induction rule: greedy.induct)
  case (stop D)
  then show ?case by simp
next
  case (step D D')
  have "Min (ready_set V E (set D)) \<in> ready_set V E (set D)"
    using step(1) finite_ready_set [OF assms(2)] by simp
  from step.IH [OF placed_snoc [OF step.prems this]] show ?case .
qed

lemma greedy_unique: "greedy V E D D' \<Longrightarrow> greedy V E D D'' \<Longrightarrow> D' = D''"
proof (induction rule: greedy.induct)
  case (stop D)
  then show ?case by (auto elim: greedyE)
next
  case (step D D')
  then show ?case by (auto elim: greedyE [of V E D])
qed

definition behind_cycle :: "'a set \<Rightarrow> ('a \<times> 'a) set \<Rightarrow> 'a set" where
  "behind_cycle V E = {v \<in> V. \<exists>c. (c, c) \<in> E\<^sup>+ \<and> (c, v) \<in> E\<^sup>*}"

lemma left_over:
  assumes fin: "finite V" and E: "E \<subseteq> V \<times> V" and D: "placed V E D"
    and stop: "ready_set V E (set D) = {}"
  shows "V - set D = behind_cycle V E"
proof
  show "behind_cycle V E \<subseteq> V - set D"
  proof
    fix v
    assume "v \<in> behind_cycle V E"
    then obtain c where v: "v \<in> V" and c: "(c, c) \<in> E\<^sup>+" "(c, v) \<in> E\<^sup>*"
      by (auto simp: behind_cycle_def)
    show "v \<in> V - set D"
    proof (rule ccontr)
      assume "v \<notin> V - set D"
      with v have vD: "v \<in> set D" by simp
      then obtain xs ys where split: "D = xs @ v # ys" by (metis split_list)
      have "c \<in> set D"
      proof (cases "c = v")
        case False
        with c(2) have "(c, v) \<in> E\<^sup>+" by (meson rtranclD)
        with prefix_closed_trancl [OF _ this split] D split show ?thesis by (auto simp: placed_def)
      qed (use vD in simp)
      with prefix_closed_acyclic [of E D c] D c(1) show False by (simp add: placed_def)
    qed
  qed
next
  show "V - set D \<subseteq> behind_cycle V E"
  proof
    fix v
    assume v: "v \<in> V - set D"
    define P where "P = {u \<in> V - set D. (u, v) \<in> E\<^sup>*}"
    have pred: "\<exists>u\<in>P. (u, w) \<in> E" if "w \<in> P" for w
    proof -
      have "w \<notin> ready_set V E (set D)" "w \<in> V - set D"
        using stop that by (simp_all add: P_def)
      then obtain u where u: "(u, w) \<in> E" "u \<notin> set D" by (auto simp: ready_set_def)
      moreover have "u \<in> V" using u(1) E by blast
      ultimately show ?thesis
        using that by (auto simp: P_def intro: converse_rtrancl_into_rtrancl)
    qed
    have vP: "v \<in> P" using v by (simp add: P_def)
    have "\<not> acyclic (E \<inter> P \<times> P)"
    proof
      assume "acyclic (E \<inter> P \<times> P)"
      moreover have "finite (E \<inter> P \<times> P)"
        using fin E by (meson finite_Int finite_SigmaI finite_subset)
      ultimately have "wf (E \<inter> P \<times> P)" by (rule finite_acyclic_wf [rotated])
      then obtain w where "w \<in> P" "\<forall>u. (u, w) \<in> E \<inter> P \<times> P \<longrightarrow> u \<notin> P"
        using vP by (meson wfE_min)
      with pred show False by blast
    qed
    then obtain c where c: "(c, c) \<in> (E \<inter> P \<times> P)\<^sup>+" by (auto simp: acyclic_def)
    then have "c \<in> P" by (metis IntD2 SigmaD1 tranclD)
    moreover have "(c, c) \<in> E\<^sup>+" using c by (rule trancl_mono) blast
    ultimately show "v \<in> behind_cycle V E" using v by (auto simp: behind_cycle_def P_def)
  qed
qed

lemma behind_cycle_empty:
  assumes "E \<subseteq> V \<times> V"
  shows "behind_cycle V E = {} \<longleftrightarrow> acyclic E"
proof
  assume empty: "behind_cycle V E = {}"
  show "acyclic E"
    unfolding acyclic_def
  proof (intro allI notI)
    fix c
    assume c: "(c, c) \<in> E\<^sup>+"
    then have "c \<in> V" using assms by (meson SigmaD1 subsetD tranclD)
    with c empty show False by (auto simp: behind_cycle_def)
  qed
next
  assume "acyclic E"
  then show "behind_cycle V E = {}" by (auto simp: behind_cycle_def acyclic_def)
qed

subsection \<open>The tables\<close>

definition edge_rel :: "edge_table \<Rightarrow> (string \<times> string) set" where
  "edge_rel outgoing = {(a, b). \<exists>t. bt_get outgoing a = Some t \<and> bt_contains t b}"

definition system_names :: "systems \<Rightarrow> string set" where
  "system_names systems = set (bt_keys systems)"

definition system_edges :: "systems \<Rightarrow> (string \<times> string) set" where
  "system_edges systems =
     {(a, b). \<exists>s\<in>set (bt_values systems).
        a = sd_id s \<and> b \<in> set (bt_keys (sd_before s)) \<or>
        b = sd_id s \<and> a \<in> set (bt_keys (sd_after s))}"

lemma finite_system_names [simp]: "finite (system_names systems)"
  by (simp add: system_names_def)

lemma system_names_get: "k \<in> system_names systems \<longleftrightarrow> (\<exists>s. bt_get systems k = Some s)"
  by (auto simp: system_names_def bt_contains_iff [symmetric] bt_contains_def)

lemma bt_len_names: "bt_len systems = card (system_names systems)"
  by (simp add: system_names_def bt_len_card)

definition tables_ok :: "string set \<Rightarrow> edge_table \<times> count_table \<Rightarrow> bool" where
  "tables_ok V tables \<longleftrightarrow>
     (\<forall>k. bt_contains (fst tables) k \<longleftrightarrow> k \<in> V) \<and>
     edge_rel (fst tables) \<subseteq> V \<times> V \<and>
     (\<forall>k. bt_get (snd tables) k =
        (if k \<in> V then Some (card {u. (u, k) \<in> edge_rel (fst tables)}) else None))"

lemma tables_get:
  assumes "tables_ok V (outgoing, incoming)"
  shows "a \<in> V \<Longrightarrow> \<exists>t. bt_get outgoing a = Some t"
    and "b \<in> V \<Longrightarrow> bt_get incoming b = Some (card {u. (u, b) \<in> edge_rel outgoing})"
  using assms by (simp_all add: tables_ok_def bt_contains_def)

lemma edge_rel_insert:
  assumes "bt_get outgoing a = Some t"
  shows "edge_rel (bt_insert a (bt_insert b () t) outgoing) = insert (a, b) (edge_rel outgoing)"
  using assms by (auto simp: edge_rel_def bt_contains_def bt.get_insert split: if_splits)

text \<open>An edge is acceptable when both ends are systems of the table and of one stage.\<close>

definition edge_ok :: "systems \<Rightarrow> string \<Rightarrow> string \<Rightarrow> bool" where
  "edge_ok systems a b \<longleftrightarrow>
     (\<exists>s t. bt_get systems a = Some s \<and> bt_get systems b = Some t \<and> sd_stage s = sd_stage t)"

lemma add_edge_Inr:
  assumes ok: "tables_ok (system_names systems) tables" and add: "add_edge systems a b tables = Inr tables'"
  shows "edge_ok systems a b \<and> tables_ok (system_names systems) tables' \<and>
    edge_rel (fst tables') = insert (a, b) (edge_rel (fst tables))"
proof -
  obtain outgoing incoming where tables: "tables = (outgoing, incoming)" by (cases tables)
  let ?V = "system_names systems"
  from add tables obtain s t where st: "bt_get systems a = Some s" "bt_get systems b = Some t"
      "sd_stage s = sd_stage t"
    by (auto simp: add_edge_def split: option.splits if_splits)
  then have V: "a \<in> ?V" "b \<in> ?V" by (auto simp: system_names_get)
  obtain targets where targets: "bt_get outgoing a = Some targets"
    using tables_get(1) ok V(1) unfolding tables by blast
  define count where "count = card {u. (u, b) \<in> edge_rel outgoing}"
  have count: "bt_get incoming b = Some count" "count = card {u. (u, b) \<in> edge_rel outgoing}"
    using tables_get(2) ok V(2) unfolding tables count_def by blast+
  show ?thesis
  proof (cases "bt_contains targets b")
    case True
    then have "(a, b) \<in> edge_rel outgoing" using targets by (simp add: edge_rel_def)
    moreover have "tables' = tables"
      using add tables st targets True by (simp add: add_edge_def)
    ultimately show ?thesis using ok tables st by (auto simp: edge_ok_def)
  next
    case False
    let ?out = "bt_insert a (bt_insert b () targets) outgoing"
    have t': "tables' = (?out, bt_insert b (count + 1) incoming)"
      using add tables st targets False count(1)
      by (auto simp: add_edge_def result_simps checked_simps)
    have rel: "edge_rel ?out = insert (a, b) (edge_rel outgoing)"
      by (rule edge_rel_insert [OF targets])
    have new: "(a, b) \<notin> edge_rel outgoing" using targets False by (simp add: edge_rel_def)
    have fin: "finite {u. (u, b) \<in> edge_rel outgoing}"
      using ok tables finite_subset [of "{u. (u, b) \<in> edge_rel outgoing}" ?V]
      by (auto simp: tables_ok_def)
    have "{u. (u, b) \<in> edge_rel ?out} = insert a {u. (u, b) \<in> edge_rel outgoing}"
      using rel by auto
    then have "card {u. (u, b) \<in> edge_rel ?out} = count + 1"
      using new fin count(2) by simp
    moreover have "{u. (u, k) \<in> edge_rel ?out} = {u. (u, k) \<in> edge_rel outgoing}" if "k \<noteq> b" for k
      using rel that by auto
    ultimately show ?thesis
      using ok V rel st unfolding t' tables
      by (auto simp: tables_ok_def edge_ok_def bt.get_insert bt_contains_def)
  qed
qed

lemma add_edge_succeeds:
  assumes ok: "tables_ok (system_names systems) tables" and edge: "edge_ok systems a b"
    and len: "bt_len systems \<le> usize_max"
  shows "\<exists>tables'. add_edge systems a b tables = Inr tables'"
proof -
  obtain outgoing incoming where tables: "tables = (outgoing, incoming)" by (cases tables)
  let ?V = "system_names systems"
  from edge obtain s t where st: "bt_get systems a = Some s" "bt_get systems b = Some t"
      "sd_stage s = sd_stage t"
    by (auto simp: edge_ok_def)
  then have V: "a \<in> ?V" "b \<in> ?V" by (auto simp: system_names_get)
  obtain targets where targets: "bt_get outgoing a = Some targets"
    using tables_get(1) ok V(1) unfolding tables by blast
  define count where "count = card {u. (u, b) \<in> edge_rel outgoing}"
  have count: "bt_get incoming b = Some count" "count = card {u. (u, b) \<in> edge_rel outgoing}"
    using tables_get(2) ok V(2) unfolding tables count_def by blast+
  show ?thesis
  proof (cases "bt_contains targets b")
    case True
    with st targets tables show ?thesis by (simp add: add_edge_def)
  next
    case False
    then have "(a, b) \<notin> edge_rel outgoing" using targets by (simp add: edge_rel_def)
    moreover have "edge_rel outgoing \<subseteq> ?V \<times> ?V"
      using ok unfolding tables tables_ok_def fst_conv by blast
    ultimately have "{u. (u, b) \<in> edge_rel outgoing} \<subset> ?V" using V(1) by blast
    then have "count < card ?V" unfolding count(2) by (rule psubset_card_mono [rotated]) simp
    then have "count + 1 \<le> usize_max" using len by (simp add: bt_len_names)
    with st targets False tables count(1) show ?thesis
      by (simp add: add_edge_def checked_add_def)
  qed
qed

text \<open>A loop of edge insertions, over the systems and over their sets.\<close>

lemma try_fold_edges:
  assumes "try_fold f xs tables = Inr tables'" and "tables_ok V tables"
    and "\<And>x s s'. x \<in> set xs \<Longrightarrow> tables_ok V s \<Longrightarrow> f x s = Inr s' \<Longrightarrow>
      P x \<and> tables_ok V s' \<and> edge_rel (fst s') = g x \<union> edge_rel (fst s)"
  shows "(\<forall>x\<in>set xs. P x) \<and> tables_ok V tables' \<and>
    edge_rel (fst tables') = (\<Union>x\<in>set xs. g x) \<union> edge_rel (fst tables)"
  using assms
proof (induction xs arbitrary: tables)
  case Nil
  then show ?case by simp
next
  case (Cons x xs)
  from Cons.prems(1) obtain r where r: "f x tables = Inr r" "try_fold f xs r = Inr tables'"
    by (auto simp: result_simps)
  have x: "P x" "tables_ok V r" "edge_rel (fst r) = g x \<union> edge_rel (fst tables)"
    using Cons.prems(3) [OF _ Cons.prems(2) r(1)] by simp_all
  have "(\<forall>x\<in>set xs. P x) \<and> tables_ok V tables' \<and>
      edge_rel (fst tables') = (\<Union>x\<in>set xs. g x) \<union> edge_rel (fst r)"
  proof (rule Cons.IH [OF r(2) x(2)])
    fix y s s'
    assume "y \<in> set xs" "tables_ok V s" "f y s = Inr s'"
    then show "P y \<and> tables_ok V s' \<and> edge_rel (fst s') = g y \<union> edge_rel (fst s)"
      by (intro Cons.prems(3)) simp_all
  qed
  with x show ?case by (simp add: Un_assoc Un_left_commute)
qed

lemma try_fold_succeeds:
  assumes "P s" and "\<And>x s. x \<in> set xs \<Longrightarrow> P s \<Longrightarrow> \<exists>s'. f x s = Inr s' \<and> P s'"
  shows "\<exists>s'. try_fold f xs s = Inr s' \<and> P s'"
  using assms
proof (induction xs arbitrary: s)
  case Nil
  then show ?case by simp
next
  case (Cons x xs)
  then obtain r where "f x s = Inr r" "P r" by (meson list.set_intros(1))
  with Cons.IH [of r] Cons.prems(2) show ?case by simp
qed

definition own_edges :: "system_declaration \<Rightarrow> (string \<times> string) set" where
  "own_edges s = {sd_id s} \<times> set (bt_keys (sd_before s)) \<union> set (bt_keys (sd_after s)) \<times> {sd_id s}"

lemma system_edges_own: "system_edges systems = (\<Union>s\<in>set (bt_values systems). own_edges s)"
  by (auto simp: system_edges_def own_edges_def)

lemma add_system_Inr:
  assumes "tables_ok (system_names systems) tables" and "add_system systems s tables = Inr tables'"
  shows "(\<forall>(a, b)\<in>own_edges s. edge_ok systems a b) \<and> tables_ok (system_names systems) tables' \<and>
    edge_rel (fst tables') = own_edges s \<union> edge_rel (fst tables)"
proof -
  let ?V = "system_names systems"
  from assms(2) obtain mid where
      before: "try_fold (add_edge systems (sd_id s)) (bt_keys (sd_before s)) tables = Inr mid" and
      after: "try_fold (\<lambda>target. add_edge systems target (sd_id s)) (bt_keys (sd_after s)) mid = Inr tables'"
    by (auto simp: add_system_def result_simps)
  have 1: "(\<forall>b\<in>set (bt_keys (sd_before s)). edge_ok systems (sd_id s) b) \<and> tables_ok ?V mid \<and>
      edge_rel (fst mid) = (\<Union>b\<in>set (bt_keys (sd_before s)). {(sd_id s, b)}) \<union> edge_rel (fst tables)"
    by (rule try_fold_edges [OF before assms(1)]) (use add_edge_Inr in auto)
  have 2: "(\<forall>a\<in>set (bt_keys (sd_after s)). edge_ok systems a (sd_id s)) \<and> tables_ok ?V tables' \<and>
      edge_rel (fst tables') = (\<Union>a\<in>set (bt_keys (sd_after s)). {(a, sd_id s)}) \<union> edge_rel (fst mid)"
    by (rule try_fold_edges [OF after]) (use 1 add_edge_Inr in auto)
  show ?thesis using 1 2 by (auto simp: own_edges_def)
qed

lemma add_system_succeeds:
  assumes "tables_ok (system_names systems) tables" and "bt_len systems \<le> usize_max"
    and "\<forall>(a, b)\<in>own_edges s. edge_ok systems a b"
  shows "\<exists>tables'. add_system systems s tables = Inr tables' \<and> tables_ok (system_names systems) tables'"
proof -
  let ?P = "tables_ok (system_names systems)"
  have "\<exists>mid. try_fold (add_edge systems (sd_id s)) (bt_keys (sd_before s)) tables = Inr mid \<and> ?P mid"
    using assms add_edge_succeeds add_edge_Inr
    by (intro try_fold_succeeds) (fastforce simp: own_edges_def)+
  then obtain mid where mid:
      "try_fold (add_edge systems (sd_id s)) (bt_keys (sd_before s)) tables = Inr mid" "?P mid"
    by blast
  have "\<exists>r. try_fold (\<lambda>target. add_edge systems target (sd_id s)) (bt_keys (sd_after s)) mid = Inr r \<and> ?P r"
    using mid(2) assms add_edge_succeeds add_edge_Inr
    by (intro try_fold_succeeds) (fastforce simp: own_edges_def)+
  with mid(1) show ?thesis by (simp add: add_system_def)
qed

lemma initial_tables_ok:
  "tables_ok (system_names systems) (empty_outgoing systems, zero_incoming systems)"
  "edge_rel (empty_outgoing systems) = {}"
proof -
  have get: "bt_get (fold (\<lambda>k. bt_insert k c) ks m) k = (if k \<in> set ks then Some c else bt_get m k)"
    for ks k c and m :: "(string, 'a) btree"
    by (induction ks arbitrary: m) (auto simp: bt.get_insert)
  show rel: "edge_rel (empty_outgoing systems) = {}"
    by (auto simp: edge_rel_def empty_outgoing_def bt.get_empty bt_contains_def get split: if_splits)
  have get': "bt_get (fold (\<lambda>k. bt_insert k c) ks m) k = (if k \<in> set ks then Some c else bt_get m k)"
    for ks k c and m :: "(string, nat) btree"
    by (induction ks arbitrary: m) (auto simp: bt.get_insert)
  have get'': "bt_get (fold (\<lambda>k. bt_insert k c) ks m) k = (if k \<in> set ks then Some c else bt_get m k)"
    for ks k c and m :: edge_table
    by (induction ks arbitrary: m) (auto simp: bt.get_insert)
  show "tables_ok (system_names systems) (empty_outgoing systems, zero_incoming systems)"
    unfolding tables_ok_def fst_conv snd_conv rel
    by (simp add: empty_outgoing_def zero_incoming_def get' get'' bt.get_empty bt_contains_def
        system_names_def)
qed

lemma build_tables_Inr:
  assumes "build_tables systems = Inr tables"
  shows "tables_ok (system_names systems) tables \<and> edge_rel (fst tables) = system_edges systems \<and>
    (\<forall>(a, b)\<in>system_edges systems. edge_ok systems a b)"
proof -
  have "(\<forall>s\<in>set (bt_values systems). \<forall>(a, b)\<in>own_edges s. edge_ok systems a b) \<and>
      tables_ok (system_names systems) tables \<and>
      edge_rel (fst tables) = (\<Union>s\<in>set (bt_values systems). own_edges s) \<union>
        edge_rel (fst (empty_outgoing systems, zero_incoming systems))"
    using assms unfolding build_tables_def
    by (rule try_fold_edges [OF _ initial_tables_ok(1)]) (rule add_system_Inr)
  then show ?thesis using initial_tables_ok(2) by (auto simp: system_edges_own)
qed

lemma build_tables_succeeds:
  assumes "bt_len systems \<le> usize_max" and "\<forall>(a, b)\<in>system_edges systems. edge_ok systems a b"
  shows "\<exists>tables. build_tables systems = Inr tables"
proof -
  have "\<exists>tables. try_fold (add_system systems) (bt_values systems)
      (empty_outgoing systems, zero_incoming systems) = Inr tables \<and> tables_ok (system_names systems) tables"
  proof (rule try_fold_succeeds [where P = "tables_ok (system_names systems)"])
    show "tables_ok (system_names systems) (empty_outgoing systems, zero_incoming systems)"
      by (rule initial_tables_ok)
  next
    fix s tables
    assume "s \<in> set (bt_values systems)" and ok: "tables_ok (system_names systems) tables"
    with assms(2) have "\<forall>(a, b)\<in>own_edges s. edge_ok systems a b"
      by (auto simp: system_edges_own)
    from add_system_succeeds [OF ok assms(1) this]
    show "\<exists>t. add_system systems s tables = Inr t \<and> tables_ok (system_names systems) t" .
  qed
  then show ?thesis by (auto simp: build_tables_def)
qed

subsection \<open>The loop\<close>

definition loop_inv ::
    "string set \<Rightarrow> (string \<times> string) set \<Rightarrow> count_table \<Rightarrow> name_set \<Rightarrow> string list \<Rightarrow> bool" where
  "loop_inv V E incoming ready D \<longleftrightarrow>
     placed V E D \<and> set (bt_keys ready) = ready_set V E (set D) \<and>
     (\<forall>k. bt_get incoming k =
        (if k \<in> V then Some (card {u. (u, k) \<in> E \<and> u \<notin> set D}) else None))"

lemma relax_targets:
  assumes "distinct ts" and "\<forall>t\<in>set ts. \<exists>c. bt_get incoming t = Some c"
  shows "\<exists>incoming' ready'. try_fold (relax_target current) ts (incoming, ready) = Inr (incoming', ready') \<and>
    (\<forall>k. bt_get incoming' k =
       (if k \<in> set ts then map_option (\<lambda>c. c - 1) (bt_get incoming k) else bt_get incoming k)) \<and>
    set (bt_keys ready') =
      set (bt_keys ready) \<union> {t \<in> set ts. \<exists>c. bt_get incoming t = Some c \<and> c - 1 = 0}"
  using assms
proof (induction ts arbitrary: incoming ready)
  case Nil
  show ?case by simp
next
  case (Cons t ts)
  obtain c where c: "bt_get incoming t = Some c" using Cons.prems(2) by auto
  let ?i = "bt_insert t (c - 1) incoming"
  let ?r = "if c - 1 = 0 then bt_insert t () ready else ready"
  have get: "bt_get ?i k = (if k = t then Some (c - 1) else bt_get incoming k)" for k
    by (simp add: bt.get_insert)
  have "\<forall>s\<in>set ts. \<exists>c. bt_get ?i s = Some c"
    unfolding get using Cons.prems(2) by simp
  with Cons.IH [of ?i ?r] Cons.prems(1) obtain i' r' where
      run: "try_fold (relax_target current) ts (?i, ?r) = Inr (i', r')" and
      i': "\<forall>k. bt_get i' k = (if k \<in> set ts then map_option (\<lambda>c. c - 1) (bt_get ?i k) else bt_get ?i k)" and
      r': "set (bt_keys r') = set (bt_keys ?r) \<union> {s \<in> set ts. \<exists>c. bt_get ?i s = Some c \<and> c - 1 = 0}"
    by auto
  have nt: "t \<notin> set ts" using Cons.prems(1) by simp
  have "try_fold (relax_target current) (t # ts) (incoming, ready) = Inr (i', r')"
    using run c by (simp add: relax_target_def)
  moreover have "bt_get i' k =
      (if k \<in> set (t # ts) then map_option (\<lambda>c. c - 1) (bt_get incoming k) else bt_get incoming k)" for k
    unfolding i' [rule_format, of k] get using nt c by auto
  moreover have "{s \<in> set ts. \<exists>c. bt_get ?i s = Some c \<and> c - 1 = 0} =
      {s \<in> set ts. \<exists>c. bt_get incoming s = Some c \<and> c - 1 = 0}"
    unfolding get using nt by auto
  then have "set (bt_keys r') = set (bt_keys ?r) \<union>
      {s \<in> set ts. \<exists>c. bt_get incoming s = Some c \<and> c - 1 = 0}"
    unfolding r' by (rule arg_cong)
  then have "set (bt_keys r') = set (bt_keys ready) \<union>
      {s \<in> set (t # ts). \<exists>c. bt_get incoming s = Some c \<and> c - 1 = 0}"
    using c by (cases "c - 1 = 0") (auto simp: bt_keys_insert)
  ultimately show ?case by blast
qed

lemma bt_keys_remove: "set (bt_keys (bt_remove k m)) = set (bt_keys m) - {k}"
  by (auto simp: bt_contains_iff [symmetric] bt_contains_def bt.get_remove split: if_splits)

lemma bt_keys_Min:
  assumes "bt_keys m = k # ks"
  shows "k = Min (set (bt_keys m))"
proof -
  have "sorted_wrt (<) (k # ks)"
    using bt.entries_sorted [of m] unfolding bt_keys_def [symmetric] assms .
  then show ?thesis
    unfolding assms by (intro Min_eqI [symmetric]) (auto simp: less_imp_le)
qed

lemma loop_step:
  assumes inv: "loop_inv V E incoming ready D" and E: "E \<subseteq> V \<times> V" and fin: "finite V"
    and rel: "edge_rel outgoing = E"
    and ready: "bt_keys ready = current # rest"
  obtains incoming' ready' where
    "try_fold (relax_target current)
        (case bt_get outgoing current of None \<Rightarrow> [] | Some targets \<Rightarrow> bt_keys targets)
        (incoming, bt_remove current ready) = Inr (incoming', ready')"
    "loop_inv V E incoming' ready' (D @ [current])"
    "current = Min (ready_set V E (set D))" "current \<in> ready_set V E (set D)"
proof -
  let ?ts = "case bt_get outgoing current of None \<Rightarrow> [] | Some targets \<Rightarrow> bt_keys targets"
  have ts: "set ?ts = {b. (current, b) \<in> E}" "distinct ?ts"
    unfolding rel [symmetric] edge_rel_def
    by (cases "bt_get outgoing current"; simp add: bt_contains_iff distinct_bt_keys)+
  have keys: "set (bt_keys ready) = ready_set V E (set D)"
    and pl: "placed V E D"
    and get: "\<And>k. bt_get incoming k = (if k \<in> V then Some (card {u. (u, k) \<in> E \<and> u \<notin> set D}) else None)"
    using inv by (simp_all add: loop_inv_def)
  have cur: "current \<in> ready_set V E (set D)" unfolding keys [symmetric] ready by simp
  have min: "current = Min (ready_set V E (set D))"
    using bt_keys_Min [OF ready] keys by simp
  have "\<forall>t\<in>set ?ts. \<exists>c. bt_get incoming t = Some c" using ts(1) E get by auto
  from relax_targets [OF ts(2) this, of current "bt_remove current ready"]
  obtain i' r' where run: "try_fold (relax_target current) ?ts (incoming, bt_remove current ready) = Inr (i', r')"
      and i': "\<And>k. bt_get i' k =
        (if k \<in> set ?ts then map_option (\<lambda>c. c - 1) (bt_get incoming k) else bt_get incoming k)"
      and r': "set (bt_keys r') = set (bt_keys (bt_remove current ready)) \<union>
        {t \<in> set ?ts. \<exists>c. bt_get incoming t = Some c \<and> c - 1 = 0}"
    by blast
  have cD: "current \<notin> set D" "current \<in> V" and pre: "\<And>u. (u, current) \<in> E \<Longrightarrow> u \<in> set D"
    using cur by (auto simp: ready_set_def)
  have left: "{u. (u, k) \<in> E \<and> u \<notin> set (D @ [current])} = {u. (u, k) \<in> E \<and> u \<notin> set D} - {current}" for k
    by auto
  have finu: "finite {u. (u, k) \<in> E \<and> u \<notin> set D}" for k
    using finite_subset [of "{u. (u, k) \<in> E \<and> u \<notin> set D}" V] E fin by auto
  have hit: "card ({u. (u, k) \<in> E \<and> u \<notin> set D} - {current}) = card {u. (u, k) \<in> E \<and> u \<notin> set D} - 1"
    if "(current, k) \<in> E" for k
    using that cD(1) finu by (intro card_Diff_singleton) simp_all
  have miss: "{u. (u, k) \<in> E \<and> u \<notin> set D} - {current} = {u. (u, k) \<in> E \<and> u \<notin> set D}"
    if "(current, k) \<notin> E" for k
    using that by auto
  have counts: "bt_get i' k =
      (if k \<in> V then Some (card {u. (u, k) \<in> E \<and> u \<notin> set (D @ [current])}) else None)" for k
  proof (cases "(current, k) \<in> E")
    case True
    with E have "k \<in> V" by blast
    with True show ?thesis unfolding left using i' [of k] ts(1) get [of k] hit by simp
  next
    case False
    then show ?thesis unfolding left miss [OF False] using i' [of k] ts(1) get [of k] by simp
  qed
  have new: "ready_set V E (set (D @ [current])) = (ready_set V E (set D) - {current}) \<union>
      {t. (current, t) \<in> E \<and> card {u. (u, t) \<in> E \<and> u \<notin> set D} - 1 = 0}"
  proof (rule set_eqI)
    fix t
    show "t \<in> ready_set V E (set (D @ [current])) \<longleftrightarrow>
        t \<in> (ready_set V E (set D) - {current}) \<union>
          {t. (current, t) \<in> E \<and> card {u. (u, t) \<in> E \<and> u \<notin> set D} - 1 = 0}"
    proof (cases "(current, t) \<in> E")
      case False
      then show ?thesis by (auto simp: ready_set_def)
    next
      case True
      then have t: "t \<in> V" "t \<noteq> current" using E pre cD(1) by blast+
      have tD: "t \<notin> set D"
      proof
        assume "t \<in> set D"
        then obtain xs ys where "D = xs @ t # ys" by (metis split_list)
        with pl True cD(1) show False unfolding placed_def prefix_closed_def by auto
      qed
      have "card {u. (u, t) \<in> E \<and> u \<notin> set D} - 1 = 0 \<longleftrightarrow>
          {u. (u, t) \<in> E \<and> u \<notin> set D} - {current} = {}"
        unfolding hit [OF True, symmetric] using finu by (simp only: card_eq_0_iff finite_Diff) simp
      then show ?thesis using True t tD cD(1) by (auto simp: ready_set_def)
    qed
  qed
  have "set (bt_keys r') = ready_set V E (set (D @ [current]))"
    unfolding new r' bt_keys_remove keys ts(1) using E get by auto
  then have "loop_inv V E i' r' (D @ [current])"
    using placed_snoc [OF pl cur] counts by (simp add: loop_inv_def)
  from that [OF run this min cur] show ?thesis .
qed

lemma ready_loop_greedy:
  assumes "finite V" and "E \<subseteq> V \<times> V" and "edge_rel outgoing = E"
  shows "loop_inv V E incoming ready D \<Longrightarrow>
    \<exists>incoming' ready' D'. ready_loop outgoing incoming ready D = Some (Inr (incoming', D')) \<and>
      greedy V E D D' \<and> loop_inv V E incoming' ready' D'"
proof (induction "card (V - set D)" arbitrary: incoming ready D rule: less_induct)
  case less
  show ?case
  proof (cases "bt_keys ready")
    case Nil
    then have "ready_loop outgoing incoming ready D = Some (Inr (incoming, D))"
      by (simp add: ready_loop.simps)
    moreover have "ready_set V E (set D) = {}"
      using less.prems Nil by (simp add: loop_inv_def)
    ultimately show ?thesis using less.prems greedy.stop by blast
  next
    case (Cons current rest)
    obtain i r where
        run: "try_fold (relax_target current)
          (case bt_get outgoing current of None \<Rightarrow> [] | Some targets \<Rightarrow> bt_keys targets)
          (incoming, bt_remove current ready) = Inr (i, r)" and
        inv: "loop_inv V E i r (D @ [current])" and
        cur: "current = Min (ready_set V E (set D))" "current \<in> ready_set V E (set D)"
      by (rule loop_step [OF less.prems assms(2,1,3) Cons])
    have eq: "ready_loop outgoing incoming ready D = ready_loop outgoing i r (D @ [current])"
      using run Cons by (simp add: ready_loop.simps [of outgoing incoming])
    have "card (V - set (D @ [current])) < card (V - set D)"
      using cur(2) assms(1) by (intro psubset_card_mono) (auto simp: ready_set_def)
    from less.hyps [OF this inv] obtain i' r' D' where
        "ready_loop outgoing i r (D @ [current]) = Some (Inr (i', D'))"
        "greedy V E (D @ [current]) D'" "loop_inv V E i' r' D'"
      by blast
    moreover have "greedy V E D D'"
      by (rule greedy.step) (use cur calculation(2) in auto)
    ultimately show ?thesis unfolding eq by blast
  qed
qed

lemma keys_initially_ready:
  "set (bt_keys (initially_ready incoming)) = {k. bt_get incoming k = Some 0}"
  by (auto simp: initially_ready_def keys_bs_extend bt.entries_get image_iff)

lemma initial_loop_inv:
  assumes "tables_ok V (outgoing, incoming)" and "finite V"
  shows "loop_inv V (edge_rel outgoing) incoming (initially_ready incoming) []"
proof -
  have E: "edge_rel outgoing \<subseteq> V \<times> V" using assms(1) by (simp add: tables_ok_def)
  have get: "bt_get incoming k = (if k \<in> V then Some (card {u. (u, k) \<in> edge_rel outgoing}) else None)"
    for k using assms(1) by (simp add: tables_ok_def)
  have "card {u. (u, k) \<in> edge_rel outgoing} = 0 \<longleftrightarrow> (\<forall>u. (u, k) \<notin> edge_rel outgoing)" for k
  proof -
    have "finite {u. (u, k) \<in> edge_rel outgoing}"
      using finite_subset [of "{u. (u, k) \<in> edge_rel outgoing}" V] E assms(2) by auto
    then show ?thesis by (simp add: card_eq_0_iff)
  qed
  then have "set (bt_keys (initially_ready incoming)) = ready_set V (edge_rel outgoing) {}"
    unfolding keys_initially_ready by (auto simp: get ready_set_def split: if_splits)
  with get show ?thesis by (simp add: loop_inv_def)
qed

subsection \<open>One stage\<close>

lemma compile_stage_run:
  assumes "build_tables systems = Inr (outgoing, incoming)"
  obtains incoming' ready' D where
    "ready_loop outgoing incoming (initially_ready incoming) [] = Some (Inr (incoming', D))"
    "greedy (system_names systems) (system_edges systems) [] D"
    "loop_inv (system_names systems) (system_edges systems) incoming' ready' D"
    "system_edges systems \<subseteq> system_names systems \<times> system_names systems"
proof -
  note built = build_tables_Inr [OF assms]
  let ?V = "system_names systems" and ?E = "system_edges systems"
  have rel: "edge_rel outgoing = ?E" and tab: "tables_ok ?V (outgoing, incoming)"
    using built by simp_all
  have E: "?E \<subseteq> ?V \<times> ?V" using tab rel by (simp add: tables_ok_def)
  have "loop_inv ?V ?E incoming (initially_ready incoming) []"
    using initial_loop_inv [OF tab] rel by simp
  from ready_loop_greedy [OF _ E rel this] that E show ?thesis by auto
qed

lemma greedy_from_Nil:
  assumes "greedy (system_names systems) (system_edges systems) [] D"
    and "system_edges systems \<subseteq> system_names systems \<times> system_names systems"
  shows "placed (system_names systems) (system_edges systems) D"
    and "system_names systems - set D = behind_cycle (system_names systems) (system_edges systems)"
proof -
  have p: "placed (system_names systems) (system_edges systems) D"
      "ready_set (system_names systems) (system_edges systems) (set D) = {}"
    using greedy_placed [OF assms(1)] by simp_all
  then show "placed (system_names systems) (system_edges systems) D" by simp
  show "system_names systems - set D = behind_cycle (system_names systems) (system_edges systems)"
    using left_over [OF _ assms(2) p] by simp
qed

lemma placed_all:
  assumes "placed V E D" and "finite V"
  shows "length D = card V \<longleftrightarrow> set D = V"
  using assms card_subset_eq [of V "set D"] by (auto simp: placed_def distinct_card)

lemma compile_stage_total: "\<exists>r. compile_stage systems = Some r"
proof (cases "build_tables systems")
  case (Inl e)
  then show ?thesis by (simp add: compile_stage_def)
next
  case (Inr tables)
  then obtain o' i' where b: "build_tables systems = Inr (o', i')" by (cases tables) auto
  from compile_stage_run [OF b] obtain r where
      "ready_loop o' i' (initially_ready i') [] = Some (Inr r)" by metis
  with b show ?thesis by (simp add: compile_stage_def)
qed

lemma compile_stage_Inr:
  assumes "compile_stage systems = Some (Inr out)"
  shows "greedy (system_names systems) (system_edges systems) [] out \<and>
    set out = system_names systems \<and> placed (system_names systems) (system_edges systems) out \<and>
    (\<forall>(a, b)\<in>system_edges systems. edge_ok systems a b)"
proof -
  from assms obtain o' i' where b: "build_tables systems = Inr (o', i')"
    by (auto simp: compile_stage_def split: sum.splits)
  from compile_stage_run [OF b] obtain i'' r D where
      run: "ready_loop o' i' (initially_ready i') [] = Some (Inr (i'', D))" and
      D: "greedy (system_names systems) (system_edges systems) [] D"
        "system_edges systems \<subseteq> system_names systems \<times> system_names systems"
    by metis
  from assms b run have "finish_stage systems (i'', D) = Inr out"
    by (simp add: compile_stage_def)
  then have "D = out" "length D = bt_len systems"
    by (auto simp: finish_stage_def split: if_splits list.splits)
  with placed_all [OF greedy_from_Nil(1) [OF D] finite_system_names]
  have "set out = system_names systems" by (simp add: bt_len_names)
  with \<open>D = out\<close> D(1) greedy_from_Nil(1) [OF D] build_tables_Inr [OF b] show ?thesis by simp
qed

lemma compile_stage_succeeds:
  assumes "bt_len systems \<le> usize_max" and "\<forall>(a, b)\<in>system_edges systems. edge_ok systems a b"
    and "acyclic (system_edges systems)"
  shows "\<exists>out. compile_stage systems = Some (Inr out)"
proof -
  from build_tables_succeeds [OF assms(1,2)] obtain o' i' where b: "build_tables systems = Inr (o', i')"
    by auto
  from compile_stage_run [OF b] obtain i'' r D where
      run: "ready_loop o' i' (initially_ready i') [] = Some (Inr (i'', D))" and
      D: "greedy (system_names systems) (system_edges systems) [] D"
        "system_edges systems \<subseteq> system_names systems \<times> system_names systems"
    by metis
  have "system_names systems - set D = {}"
    using greedy_from_Nil(2) [OF D] behind_cycle_empty [OF D(2)] assms(3) by simp
  with greedy_from_Nil(1) [OF D] have "set D = system_names systems" by (auto simp: placed_def)
  with placed_all [OF greedy_from_Nil(1) [OF D] finite_system_names] have "length D = bt_len systems"
    by (simp add: bt_len_names)
  with b run show ?thesis by (simp add: compile_stage_def finish_stage_def)
qed

lemma try_fold_Inl: "try_fold f xs s = Inl e \<Longrightarrow> \<exists>x\<in>set xs. \<exists>s'. f x s' = Inl e"
  by (induction xs arbitrary: s) (auto simp: result_simps)

lemma try_each_Inl_member: "try_each f xs = Inl e \<Longrightarrow> \<exists>x\<in>set xs. f x = Inl e"
  by (induction xs) (auto simp: result_simps)

definition edge_error :: "systems \<Rightarrow> registration_error \<Rightarrow> bool" where
  "edge_error systems e \<longleftrightarrow>
     (\<exists>a b. e = UnknownScheduleTarget a b) \<or>
     (\<exists>a s b t. bt_get systems a = Some s \<and> bt_get systems b = Some t \<and>
        sd_stage s \<noteq> sd_stage t \<and> e = CrossStageScheduleEdge a (sd_stage s) b (sd_stage t)) \<or>
     e = LimitExceeded ''schedule-edges'' usize_max (usize_max - 1)"

lemma add_edge_Inl: "add_edge systems a b tables = Inl e \<Longrightarrow> edge_error systems e"
  by (auto simp: add_edge_def edge_error_def result_simps split: prod.splits option.splits if_splits)

lemma build_tables_Inl:
  assumes "build_tables systems = Inl e"
  shows "edge_error systems e"
proof -
  obtain s tables where "add_system systems s tables = Inl e"
    using try_fold_Inl [OF assms [unfolded build_tables_def]] by blast
  then consider t u where "try_fold (\<lambda>t. add_edge systems (sd_id s) t) t u = Inl e"
    | t u where "try_fold (\<lambda>t. add_edge systems t (sd_id s)) t u = Inl e"
    unfolding add_system_def and_then_Inl by blast
  then show ?thesis
  proof cases
    case 1
    from try_fold_Inl [OF this] show ?thesis using add_edge_Inl by blast
  next
    case 2
    from try_fold_Inl [OF this] show ?thesis using add_edge_Inl by blast
  qed
qed

lemma sorted_filtered_keys: "sorted_wrt (<) (List.map fst (List.filter P (entries m)))"
proof -
  have "sorted_wrt (<) (List.map fst (List.filter P xs))"
    if "sorted_wrt (<) (List.map fst xs)" for xs :: "('a::linorder \<times> 'b) list" and P
    using that by (induction xs) auto
  from this [OF bt.entries_sorted] show ?thesis .
qed

lemma compile_stage_cycle:
  assumes "compile_stage systems = Some (Inl (ScheduleCycle stage ids))"
  shows "set ids = behind_cycle (system_names systems) (system_edges systems) \<and> sorted_wrt (<) ids \<and> ids \<noteq> []"
proof -
  let ?V = "system_names systems" and ?E = "system_edges systems"
  have "build_tables systems \<noteq> Inl (ScheduleCycle stage ids)"
    using build_tables_Inl [of systems "ScheduleCycle stage ids"] by (auto simp: edge_error_def)
  with assms obtain o' i' where b: "build_tables systems = Inr (o', i')"
    by (auto simp: compile_stage_def split: sum.splits)
  from compile_stage_run [OF b] obtain i'' r D where
      run: "ready_loop o' i' (initially_ready i') [] = Some (Inr (i'', D))" and
      D: "greedy ?V ?E [] D" "?E \<subseteq> ?V \<times> ?V" and inv: "loop_inv ?V ?E i'' r D"
    by metis
  from assms b run have fin: "finish_stage systems (i'', D) = Inl (ScheduleCycle stage ids)"
    by (simp add: compile_stage_def)
  then have ids: "ids = List.map fst (List.filter (\<lambda>(_, count). count > 0) (entries i''))"
      and short: "length D \<noteq> bt_len systems"
    by (auto simp: finish_stage_def split: if_splits list.splits)
  have get: "bt_get i'' k = (if k \<in> ?V then Some (card {u. (u, k) \<in> ?E \<and> u \<notin> set D}) else None)" for k
    using inv by (simp add: loop_inv_def)
  have "k \<in> set ids \<longleftrightarrow> k \<in> ?V - set D" for k
  proof -
    have "k \<in> set ids \<longleftrightarrow> (\<exists>c>0. bt_get i'' k = Some c)"
      unfolding ids by (force simp: bt.entries_get)
    also have "\<dots> \<longleftrightarrow> k \<in> ?V \<and> {u. (u, k) \<in> ?E \<and> u \<notin> set D} \<noteq> {}"
    proof -
      have "finite {u. (u, k) \<in> ?E \<and> u \<notin> set D}"
        using finite_subset [of "{u. (u, k) \<in> ?E \<and> u \<notin> set D}" ?V] D(2) by auto
      then show ?thesis by (auto simp: get card_gt_0_iff)
    qed
    also have "\<dots> \<longleftrightarrow> k \<in> ?V - set D"
    proof -
      have "ready_set ?V ?E (set D) = {}" using greedy_placed [OF D(1)] by simp
      moreover have "{u. (u, k) \<in> ?E \<and> u \<notin> set D} = {}" if "k \<in> set D"
        using that greedy_from_Nil(1) [OF D] split_list [of k D]
        unfolding placed_def prefix_closed_def by fastforce
      ultimately show ?thesis by (auto simp: ready_set_def)
    qed
    finally show ?thesis .
  qed
  then have set: "set ids = ?V - set D" by blast
  have "set D \<noteq> ?V"
    using short placed_all [OF greedy_from_Nil(1) [OF D] finite_system_names] by (simp add: bt_len_names)
  then have "?V - set D \<noteq> {}" using greedy_from_Nil(1) [OF D] by (auto simp: placed_def)
  then have "ids \<noteq> []" using set by auto
  moreover have "sorted_wrt (<) ids" unfolding ids by (rule sorted_filtered_keys)
  ultimately show ?thesis using set greedy_from_Nil(2) [OF D] by simp
qed

end
