(* ===== verification/System_Order.thy ===== *)
theory System_Order
  imports Schedule_Order
begin

section \<open>The compiled schedule\<close>

text \<open>
  The stages put together: compiling the schedule ends on every table of systems, succeeds
  exactly on the schedules without cycles, unknown targets and cross-stage edges, and its
  output orders the stages, and within a stage the systems, as declared.
\<close>

subsection \<open>The systems of one stage\<close>

definition keyed :: "systems \<Rightarrow> bool" where
  "keyed systems \<longleftrightarrow> (\<forall>e\<in>set (entries systems). sd_id (snd e) = fst e)"

lemma keyed_get: "keyed systems \<Longrightarrow> bt_get systems k = Some s \<Longrightarrow> sd_id s = k"
  using bt.entries_get [of k s systems] by (force simp: keyed_def)

lemma entries_retain: "entries (bt_retain P m) = List.filter P (entries m)"
  by transfer simp

lemma stage_systems_get:
  "bt_get (stage_systems systems stage) k = Some s \<longleftrightarrow> bt_get systems k = Some s \<and> sd_stage s = stage"
  using bt.entries_get [of k s "stage_systems systems stage"] bt.entries_get [of k s systems]
  by (simp add: stage_systems_def entries_retain)

lemma stage_values:
  "s \<in> set (bt_values (stage_systems systems stage)) \<longleftrightarrow> s \<in> set (bt_values systems) \<and> sd_stage s = stage"
  by (auto simp: bt_values_iff stage_systems_get)

lemma stage_len: "bt_len (stage_systems systems stage) \<le> bt_len systems"
  by (simp add: bt_len_def stage_systems_def entries_retain)

lemma stage_names:
  "k \<in> system_names (stage_systems systems stage) \<longleftrightarrow> (\<exists>s. bt_get systems k = Some s \<and> sd_stage s = stage)"
  by (simp add: system_names_get stage_systems_get)

lemma stage_edges_subset: "system_edges (stage_systems systems stage) \<subseteq> system_edges systems"
  by (auto simp: system_edges_own stage_values)

lemma stage_edge_ok:
  "edge_ok (stage_systems systems stage) a b \<longleftrightarrow>
     (\<exists>s t. bt_get systems a = Some s \<and> bt_get systems b = Some t \<and> sd_stage s = stage \<and> sd_stage t = stage)"
  by (auto simp: edge_ok_def stage_systems_get)

text \<open>An edge belongs to the stage of the system that declares it.\<close>

lemma system_edge_stage:
  assumes "(a, b) \<in> system_edges systems"
  obtains s where "s \<in> set (bt_values systems)"
    "(a, b) \<in> system_edges (stage_systems systems (sd_stage s))" "sd_id s = a \<or> sd_id s = b"
proof -
  from assms obtain s where s: "s \<in> set (bt_values systems)" "(a, b) \<in> own_edges s"
    by (auto simp: system_edges_own)
  then have "(a, b) \<in> system_edges (stage_systems systems (sd_stage s))"
    by (auto simp: system_edges_own stage_values)
  with s that show ?thesis by (auto simp: own_edges_def)
qed

lemma keyed_stage_edge:
  assumes "keyed systems" and "(a, b) \<in> system_edges (stage_systems systems stage)"
    and "edge_ok systems a b"
  shows "edge_ok (stage_systems systems stage) a b"
proof -
  from assms(2) obtain s where s: "s \<in> set (bt_values systems)" "sd_stage s = stage" "sd_id s = a \<or> sd_id s = b"
    by (auto simp: system_edges_own stage_values own_edges_def)
  then obtain k where "bt_get systems k = Some s" by (auto simp: bt_values_iff)
  with keyed_get [OF assms(1) this] s assms(3) show ?thesis
    by (auto simp: edge_ok_def stage_systems_get)
qed

lemma stage_edge_ok_full: "edge_ok (stage_systems systems stage) a b \<Longrightarrow> edge_ok systems a b"
  by (auto simp: edge_ok_def stage_systems_get)

subsection \<open>All stages\<close>

definition stage_order :: "systems \<Rightarrow> string list \<Rightarrow> bool" where
  "stage_order systems D \<longleftrightarrow>
     greedy (system_names systems) (system_edges systems) [] D \<and> set D = system_names systems \<and>
     placed (system_names systems) (system_edges systems) D \<and>
     (\<forall>(a, b)\<in>system_edges systems. edge_ok systems a b)"

lemma stage_order_empty:
  assumes "bt_len systems = 0"
  shows "stage_order systems []"
proof -
  have "entries systems = []" using assms by (simp add: bt_len_def)
  then have none: "system_names systems = {}" "system_edges systems = {}"
    by (simp_all add: system_names_def bt_keys_def system_edges_def bt_values_def)
  have "greedy {} {} [] ([] :: string list)" by (rule greedy.stop) (simp add: ready_set_def)
  then show ?thesis by (simp add: stage_order_def none)
qed

lemma compile_stages_Inr:
  "compile_stages systems stages acc = Some (Inr out) \<Longrightarrow>
     \<exists>outs. out = acc @ concat outs \<and>
       list_all2 (\<lambda>stage. stage_order (stage_systems systems stage)) stages outs"
proof (induction stages arbitrary: acc)
  case Nil
  then show ?case by simp
next
  case (Cons stage stages)
  show ?case
  proof (cases "bt_len (stage_systems systems stage) = 0")
    case True
    with Cons.prems have "compile_stages systems stages acc = Some (Inr out)" by simp
    from Cons.IH [OF this] obtain outs where outs: "out = acc @ concat outs"
      "list_all2 (\<lambda>stage. stage_order (stage_systems systems stage)) stages outs" by blast
    show ?thesis by (rule exI [of _ "[] # outs"]) (simp add: outs stage_order_empty [OF True])
  next
    case False
    with Cons.prems obtain D where D: "compile_stage (stage_systems systems stage) = Some (Inr D)"
      "compile_stages systems stages (acc @ D) = Some (Inr out)"
      by (auto split: option.splits sum.splits)
    from Cons.IH [OF D(2)] obtain outs where outs: "out = (acc @ D) @ concat outs"
      "list_all2 (\<lambda>stage. stage_order (stage_systems systems stage)) stages outs" by blast
    have "stage_order (stage_systems systems stage) D"
      using compile_stage_Inr [OF D(1)] by (simp add: stage_order_def)
    with outs show ?thesis by (intro exI [of _ "D # outs"]) simp
  qed
qed

lemma compile_stages_Inl:
  "compile_stages systems stages acc = Some (Inl e) \<Longrightarrow>
     \<exists>stage\<in>set stages. compile_stage (stage_systems systems stage) = Some (Inl e)"
  by (induction stages arbitrary: acc) (auto split: if_splits option.splits sum.splits)

lemma compile_stages_total: "\<exists>r. compile_stages systems stages acc = Some r"
proof (induction stages arbitrary: acc)
  case (Cons stage stages)
  obtain r where r: "compile_stage (stage_systems systems stage) = Some r"
    using compile_stage_total by blast
  show ?case using Cons.IH r by (cases r) simp_all
qed simp

lemma compile_schedule_Inr:
  "compile_schedule systems = Some (Inr out) \<longleftrightarrow>
     (\<forall>s\<in>set (bt_values systems). sd_stage s \<in> set system_stages) \<and>
     compile_stages systems system_stages [] = Some (Inr out)"
proof -
  let ?r = "try_each (\<lambda>system. ensure (sd_stage system \<in> set system_stages)
    (UnknownStage (sd_id system) (sd_stage system))) (bt_values systems)"
  have "?r = Inr () \<longleftrightarrow> (\<forall>s\<in>set (bt_values systems). sd_stage s \<in> set system_stages)"
    by (simp add: result_simps)
  then show ?thesis by (cases ?r) (auto simp: compile_schedule_def)
qed

lemma stages_disjoint:
  assumes "list_all2 (\<lambda>stage. stage_order (stage_systems systems stage)) stages outs" and "distinct stages"
  shows "distinct (concat outs) \<and>
    set (concat outs) = {k. \<exists>s. bt_get systems k = Some s \<and> sd_stage s \<in> set stages}"
  using assms
proof (induction rule: list_all2_induct)
  case Nil
  then show ?case by simp
next
  case (Cons stage stages D outs)
  then have D: "distinct D" "set D = {k. \<exists>s. bt_get systems k = Some s \<and> sd_stage s = stage}"
    by (auto simp: stage_order_def placed_def stage_names)
  show ?case using Cons D by fastforce
qed

lemma precedes_append1: "precedes D a b \<Longrightarrow> precedes (D @ D') a b"
  unfolding precedes_def by (metis append.assoc append_Cons)

lemma precedes_append2: "precedes D a b \<Longrightarrow> precedes (D' @ D) a b"
proof -
  assume "precedes D a b"
  then obtain xs ys where "D = xs @ b # ys" "a \<in> set xs" by (auto simp: precedes_def)
  then have "D' @ D = (D' @ xs) @ b # ys" "a \<in> set (D' @ xs)" by simp_all
  then show ?thesis unfolding precedes_def by blast
qed

lemma precedes_concat: "D \<in> set outs \<Longrightarrow> precedes D a b \<Longrightarrow> precedes (concat outs) a b"
  by (induction outs) (auto intro: precedes_append1 precedes_append2)

lemma list_all2_member1: "list_all2 P xs ys \<Longrightarrow> x \<in> set xs \<Longrightarrow> \<exists>y\<in>set ys. P x y"
  by (induction rule: list_all2_induct) auto

lemma compiled_order:
  assumes "compile_schedule systems = Some (Inr out)"
  obtains outs where "out = concat outs"
    "list_all2 (\<lambda>stage. stage_order (stage_systems systems stage)) system_stages outs"
    "distinct out" "set out = system_names systems"
    "\<forall>(a, b)\<in>system_edges systems. precedes out a b \<and> edge_ok systems a b"
proof -
  from assms have known: "\<forall>s\<in>set (bt_values systems). sd_stage s \<in> set system_stages"
    and "compile_stages systems system_stages [] = Some (Inr out)"
    unfolding compile_schedule_Inr by blast+
  from compile_stages_Inr [OF this(2)] obtain outs where outs: "out = concat outs"
    "list_all2 (\<lambda>stage. stage_order (stage_systems systems stage)) system_stages outs" by auto
  have "distinct system_stages" by (simp add: system_stages_def)
  note all = stages_disjoint [OF outs(2) this]
  have "set out = system_names systems"
  proof -
    have "sd_stage s \<in> set system_stages" if "bt_get systems k = Some s" for k s
      using known that bt_values_iff by metis
    then show ?thesis
      unfolding outs(1) all [THEN conjunct2] by (auto simp: system_names_get)
  qed
  moreover have "precedes out a b \<and> edge_ok systems a b" if e: "(a, b) \<in> system_edges systems" for a b
  proof -
    from e obtain s where s: "s \<in> set (bt_values systems)"
        "(a, b) \<in> system_edges (stage_systems systems (sd_stage s))"
      by (rule system_edge_stage)
    with known list_all2_member1 [OF outs(2)] obtain D where D: "D \<in> set outs"
        "stage_order (stage_systems systems (sd_stage s)) D"
      by blast
    then have ok: "edge_ok (stage_systems systems (sd_stage s)) a b" "set D = system_names (stage_systems systems (sd_stage s))"
        "prefix_closed (system_edges (stage_systems systems (sd_stage s))) D"
      using s(2) by (auto simp: stage_order_def placed_def)
    then have "b \<in> set D" by (auto simp: stage_edge_ok stage_names)
    with prefix_closed_precedes [OF ok(3) s(2)] precedes_concat [OF D(1)] stage_edge_ok_full [OF ok(1)]
    show ?thesis by (simp add: outs(1))
  qed
  ultimately show ?thesis using that outs all by blast
qed

text \<open>Edges along a list without repetitions form no cycle.\<close>

lemma precedes_acyclic:
  assumes "distinct D" and "\<forall>(a, b)\<in>E. precedes D a b"
  shows "acyclic E"
proof -
  have "E \<subseteq> measure (\<lambda>x. length (takeWhile (\<lambda>y. y \<noteq> x) D))"
  proof
    fix e
    assume e: "e \<in> E"
    obtain a b where ab: "e = (a, b)" by (cases e)
    with e assms(2) obtain xs ys where D: "D = xs @ b # ys" "a \<in> set xs"
      by (auto simp: precedes_def)
    then obtain as bs where xs: "xs = as @ a # bs" by (meson split_list)
    have "b \<notin> set xs" "a \<notin> set as" using assms(1) D xs by auto
    then have "takeWhile (\<lambda>y. y \<noteq> b) D = xs" "takeWhile (\<lambda>y. y \<noteq> a) D = as"
      unfolding D xs by (auto simp: takeWhile_append takeWhile_eq_all_conv)
    then show "e \<in> measure (\<lambda>x. length (takeWhile (\<lambda>y. y \<noteq> x) D))"
      by (simp add: ab xs)
  qed
  then show ?thesis using wf_measure wf_subset wf_acyclic by metis
qed

lemma compile_stages_succeeds:
  assumes "\<And>stage. \<exists>D. compile_stage (stage_systems systems stage) = Some (Inr D)"
  shows "\<exists>out. compile_stages systems stages acc = Some (Inr out)"
proof (induction stages arbitrary: acc)
  case (Cons stage stages)
  obtain D where "compile_stage (stage_systems systems stage) = Some (Inr D)" using assms by blast
  with Cons.IH show ?case by simp
qed simp

lemma compile_stage_Inl:
  assumes "compile_stage systems = Some (Inl e)"
  shows "edge_error systems e \<or> (\<exists>system\<in>set (bt_values systems). \<exists>ids. e = ScheduleCycle (sd_stage system) ids)"
proof (cases "build_tables systems")
  case (Inl e')
  with assms build_tables_Inl show ?thesis by (auto simp: compile_stage_def)
next
  case (Inr tables)
  then obtain o' i' where b: "build_tables systems = Inr (o', i')" by (cases tables) auto
  from compile_stage_run [OF b] obtain i'' r D where
      run: "ready_loop o' i' (initially_ready i') [] = Some (Inr (i'', D))" and
      D: "greedy (system_names systems) (system_edges systems) [] D"
        "system_edges systems \<subseteq> system_names systems \<times> system_names systems"
    by metis
  from assms b run have fin: "finish_stage systems (i'', D) = Inl e" by (simp add: compile_stage_def)
  then have short: "length D \<noteq> bt_len systems" by (auto simp: finish_stage_def)
  have "length D \<le> bt_len systems"
    using greedy_from_Nil(1) [OF D] card_mono [of "system_names systems" "set D"]
    by (auto simp: placed_def bt_len_names distinct_card)
  with short have "bt_len systems \<noteq> 0" by auto
  then have "bt_values systems \<noteq> []" by (auto simp: bt_len_def bt_values_def)
  with fin short show ?thesis by (cases "bt_values systems") (auto simp: finish_stage_def)
qed

lemma compile_schedule_stage_error:
  assumes "compile_schedule systems = Some (Inl e)" and "\<And>a b. e \<noteq> UnknownStage a b"
  obtains stage where "compile_stage (stage_systems systems stage) = Some (Inl e)"
proof (cases "try_each (\<lambda>system. ensure (sd_stage system \<in> set system_stages)
    (UnknownStage (sd_id system) (sd_stage system))) (bt_values systems)")
  case (Inl e')
  with assms(1) have "e' = e" by (simp add: compile_schedule_def)
  obtain s :: system_declaration where
      "ensure (sd_stage s \<in> set system_stages) (UnknownStage (sd_id s) (sd_stage s)) = Inl e'"
    using try_each_Inl_member [OF Inl] by blast
  with assms(2) \<open>e' = e\<close> show ?thesis by (auto simp: ensure_def split: if_splits)
next
  case (Inr r)
  with assms(1) have "compile_stages systems system_stages [] = Some (Inl e)"
    by (simp add: compile_schedule_def)
  with compile_stages_Inl that show ?thesis by blast
qed

definition stage_pair :: "systems \<Rightarrow> string \<Rightarrow> string \<Rightarrow> bool" where
  "stage_pair systems a b \<longleftrightarrow>
     (case (bt_get systems a, bt_get systems b) of
        (Some s, Some t) \<Rightarrow> sd_stage s = sd_stage t | _ \<Rightarrow> False)"

lemma stage_pair_edge_ok: "stage_pair systems a b \<longleftrightarrow> edge_ok systems a b"
  by (simp add: stage_pair_def edge_ok_def split: option.splits)

subsection \<open>Properties\<close>

text \<open>Compiling a schedule always ends, on any table of systems: no loop of the ready set
  runs forever, also when the declared order has cycles.\<close>

theorem schedule_terminates: "\<exists>r. compile_schedule systems = Some r"
proof (cases "try_each (\<lambda>system. ensure (sd_stage system \<in> set system_stages)
    (UnknownStage (sd_id system) (sd_stage system))) (bt_values systems)")
  case (Inr r)
  with compile_stages_total show ?thesis by (simp add: compile_schedule_def)
qed (simp add: compile_schedule_def)

text \<open>C13: a compiled schedule lists every system once and respects every declared edge. It is
  the stages in catalog order, and in each stage the order that always places the least
  system whose predecessors are placed.\<close>

theorem schedule_order:
  assumes "compile_schedule systems = Some (Inr out)"
  shows "distinct out \<and> set out = system_names systems \<and>
    (\<forall>(a, b)\<in>system_edges systems. precedes out a b) \<and>
    (\<exists>outs. out = concat outs \<and>
       list_all2 (\<lambda>stage D. set D = system_names (stage_systems systems stage) \<and>
           greedy (system_names (stage_systems systems stage))
             (system_edges (stage_systems systems stage)) [] D)
         system_stages outs)"
proof -
  obtain outs where outs: "out = concat outs"
    "list_all2 (\<lambda>stage. stage_order (stage_systems systems stage)) system_stages outs"
    "distinct out" "set out = system_names systems"
    "\<forall>(a, b)\<in>system_edges systems. precedes out a b \<and> edge_ok systems a b"
    by (rule compiled_order [OF assms])
  have "list_all2 (\<lambda>stage D. set D = system_names (stage_systems systems stage) \<and>
           greedy (system_names (stage_systems systems stage))
             (system_edges (stage_systems systems stage)) [] D) system_stages outs"
    using outs(2) by (rule list_all2_mono) (simp add: stage_order_def)
  with outs show ?thesis by blast
qed

text \<open>C15: a schedule compiles exactly when every stage is known, every edge joins two systems
  of one stage and no declared order is cyclic.\<close>

theorem schedule_exact:
  assumes "keyed systems" and "bt_len systems \<le> usize_max"
  shows "(\<exists>out. compile_schedule systems = Some (Inr out)) \<longleftrightarrow>
    (\<forall>s\<in>set (bt_values systems). sd_stage s \<in> set system_stages) \<and>
    (\<forall>(a, b)\<in>system_edges systems. edge_ok systems a b) \<and> acyclic (system_edges systems)"
proof
  assume "\<exists>out. compile_schedule systems = Some (Inr out)"
  then obtain out where out: "compile_schedule systems = Some (Inr out)" ..
  obtain outs where dist: "distinct out"
      and edges: "\<forall>(a, b)\<in>system_edges systems. precedes out a b \<and> edge_ok systems a b"
    by (rule compiled_order [OF out])
  have "\<forall>(a, b)\<in>system_edges systems. precedes out a b" using edges by blast
  with dist have "acyclic (system_edges systems)" by (rule precedes_acyclic)
  moreover have "\<forall>(a, b)\<in>system_edges systems. edge_ok systems a b" using edges by blast
  moreover have "\<forall>s\<in>set (bt_values systems). sd_stage s \<in> set system_stages"
    using out unfolding compile_schedule_Inr by blast
  ultimately show "(\<forall>s\<in>set (bt_values systems). sd_stage s \<in> set system_stages) \<and>
      (\<forall>(a, b)\<in>system_edges systems. edge_ok systems a b) \<and> acyclic (system_edges systems)"
    by blast
next
  assume good: "(\<forall>s\<in>set (bt_values systems). sd_stage s \<in> set system_stages) \<and>
    (\<forall>(a, b)\<in>system_edges systems. edge_ok systems a b) \<and> acyclic (system_edges systems)"
  have "\<exists>D. compile_stage (stage_systems systems stage) = Some (Inr D)" for stage
  proof (rule compile_stage_succeeds)
    show "bt_len (stage_systems systems stage) \<le> usize_max"
      using stage_len assms(2) by (rule order_trans)
    show "\<forall>(a, b)\<in>system_edges (stage_systems systems stage). edge_ok (stage_systems systems stage) a b"
    proof clarify
      fix a b
      assume e: "(a, b) \<in> system_edges (stage_systems systems stage)"
      then have "(a, b) \<in> system_edges systems" by (rule subsetD [OF stage_edges_subset])
      with good have "edge_ok systems a b" by blast
      with assms(1) e show "edge_ok (stage_systems systems stage) a b" by (rule keyed_stage_edge)
    qed
    show "acyclic (system_edges (stage_systems systems stage))"
      by (rule acyclic_subset [OF _ stage_edges_subset]) (use good in simp)
  qed
  then have "\<exists>out. compile_stages systems system_stages [] = Some (Inr out)"
    by (rule compile_stages_succeeds)
  with good show "\<exists>out. compile_schedule systems = Some (Inr out)"
    unfolding compile_schedule_Inr by blast
qed

text \<open>The list of a cycle error is exactly the systems of the stage that lie on a cycle of
  the declared order or behind one, in ascending order.\<close>

theorem cycle_report_exact:
  assumes "compile_schedule systems = Some (Inl (ScheduleCycle stage ids))"
  shows "sorted_wrt (<) ids \<and> ids \<noteq> [] \<and>
    set ids = behind_cycle (system_names (stage_systems systems stage))
      (system_edges (stage_systems systems stage))"
proof -
  obtain st where st: "compile_stage (stage_systems systems st) = Some (Inl (ScheduleCycle stage ids))"
    by (rule compile_schedule_stage_error [OF assms]) auto
  then have "stage = st"
    using compile_stage_Inl [OF st] by (auto simp: edge_error_def stage_values)
  with compile_stage_cycle [OF st] show ?thesis by simp
qed

text \<open>The error for an edge across stages is never returned: a stage is compiled with its own
  systems only, so that such an edge counts as one to an unknown system.\<close>

theorem cross_stage_unreachable:
  "compile_schedule systems \<noteq> Some (Inl (CrossStageScheduleEdge a sa b sb))"
proof
  assume e: "compile_schedule systems = Some (Inl (CrossStageScheduleEdge a sa b sb))"
  obtain st where "compile_stage (stage_systems systems st) = Some (Inl (CrossStageScheduleEdge a sa b sb))"
    by (rule compile_schedule_stage_error [OF e]) auto
  from compile_stage_Inl [OF this] show False
    by (auto simp: edge_error_def stage_systems_get)
qed

subsection \<open>Witnesses\<close>

text \<open>Two stages; \<open>b\<close> runs before \<open>a\<close>, and \<open>c\<close> after \<open>a\<close>.\<close>

definition system_of :: "string \<Rightarrow> string \<Rightarrow> string list \<Rightarrow> string list \<Rightarrow> system_declaration" where
  "system_of name stage before after =
     \<lparr>sd_id = name, sd_stage = stage, sd_after = bs_extend after bt_empty,
      sd_before = bs_extend before bt_empty\<rparr>"

definition systems_of :: "system_declaration list \<Rightarrow> systems" where
  "systems_of ss = fold (\<lambda>s. bt_insert (sd_id s) s) ss bt_empty"

definition ordered_systems :: systems where
  "ordered_systems = systems_of
     [system_of ''a'' (system_stages ! 2) [] [],
      system_of ''b'' (system_stages ! 2) [''a''] [],
      system_of ''c'' (system_stages ! 2) [] [''a''],
      system_of ''z'' (system_stages ! 0) [] []]"

text \<open>\<open>a\<close> and \<open>b\<close> form a cycle; \<open>c\<close> only runs after it.\<close>

definition cyclic_systems :: systems where
  "cyclic_systems = systems_of
     [system_of ''a'' (system_stages ! 2) [''b''] [],
      system_of ''b'' (system_stages ! 2) [''a''] [],
      system_of ''c'' (system_stages ! 2) [] [''a'']]"

text \<open>\<open>a\<close> orders against a system of a later stage.\<close>

definition crossing_systems :: systems where
  "crossing_systems = systems_of
     [system_of ''a'' (system_stages ! 0) [''b''] [], system_of ''b'' (system_stages ! 2) [] []]"

lemma ordered_compiles:
  "compile_schedule ordered_systems = Some (Inr [''z'', ''b'', ''a'', ''c''])"
  by code_simp

lemma cyclic_reported:
  "compile_schedule cyclic_systems =
     Some (Inl (ScheduleCycle (system_stages ! 2) [''a'', ''b'', ''c'']))"
  by code_simp

lemma crossing_reported:
  "compile_schedule crossing_systems = Some (Inl (UnknownScheduleTarget ''a'' ''b''))"
  by code_simp

lemma schedule_order_witness:
  "\<exists>outs. [''z'', ''b'', ''a'', ''c''] = concat outs \<and>
     list_all2 (\<lambda>stage D. set D = system_names (stage_systems ordered_systems stage) \<and>
         greedy (system_names (stage_systems ordered_systems stage))
           (system_edges (stage_systems ordered_systems stage)) [] D)
       system_stages outs"
  using schedule_order [OF ordered_compiles] by blast

lemma schedule_exact_witness: "\<not> acyclic (system_edges cyclic_systems) \<and> acyclic (system_edges ordered_systems)"
proof -
  have keyed: "keyed cyclic_systems" "keyed ordered_systems"
    unfolding keyed_def by code_simp+
  have len: "bt_len cyclic_systems \<le> usize_max" "bt_len ordered_systems \<le> usize_max"
    by code_simp+
  have "\<forall>s\<in>set (bt_values cyclic_systems). sd_stage s \<in> set system_stages" by code_simp
  moreover have "\<forall>s\<in>set (bt_values cyclic_systems).
      (\<forall>b\<in>set (bt_keys (sd_before s)). stage_pair cyclic_systems (sd_id s) b) \<and>
      (\<forall>a\<in>set (bt_keys (sd_after s)). stage_pair cyclic_systems a (sd_id s))" by code_simp
  then have "\<forall>(a, b)\<in>system_edges cyclic_systems. edge_ok cyclic_systems a b"
    by (auto simp: system_edges_def stage_pair_edge_ok)
  ultimately show ?thesis
    using schedule_exact [OF keyed(1) len(1)] schedule_exact [OF keyed(2) len(2)]
      cyclic_reported ordered_compiles by auto
qed

lemma cycle_report_exact_witness:
  "''c'' \<in> behind_cycle (system_names (stage_systems cyclic_systems (system_stages ! 2)))
     (system_edges (stage_systems cyclic_systems (system_stages ! 2)))"
  using cycle_report_exact [OF cyclic_reported] by auto

end
