(* ===== verification/Fluid_Update.thy ===== *)
theory Fluid_Update
  imports BTree_Map Scope
begin

section \<open>Fluid updates\<close>

text \<open>
  \<open>fluid.rs\<close> of \<open>latticeaxiom-voxel-runtime\<close>: planning one bounded tick of flowing water or
  lava over a cubic chunk, and the rejection of stale plans. The mutable locals of the
  planner are the record \<open>tick_state\<close>. The saturating operations have the largest value of
  the type as an argument; the 16-bit and 32-bit casts between bounds that exclude loss are
  left out.
\<close>

subsection \<open>Data\<close>

definition fluid_chunk_edge :: u16 where "fluid_chunk_edge = 32"
definition cell_account_bytes :: u32 where "cell_account_bytes = 64"

datatype stale_reason =
    StaleTargetEvicted | StaleWorldRevision | StaleChunkRevision | StaleVoxelRevision
  | StaleNeighborRevision nat | StaleMeshSemantics | StaleColliderSemantics | StaleWorldEpoch

datatype fluid_error =
    FluidInvalidLimit string
  | FluidInvalidLevel u8
  | FluidLocalOutOfRange u16 u16 u16 u16
  | FluidLimitExceeded string u32 u32
  | FluidMixing
  | FluidStale stale_reason

datatype fluid_collision_kind = NoFluidCollision | VolumeCollision
datatype fluid_selection_kind = NoFluidSelection | SourceSelection | VolumeSelection

datatype fluid_flow = Still | Down | East | West | South | North

definition horizontal_flows :: "fluid_flow list" where
  "horizontal_flows = [East, West, South, North]"

fun flow_tag :: "fluid_flow \<Rightarrow> u16" where
  "flow_tag Still = 0"
| "flow_tag Down = 1"
| "flow_tag East = 2"
| "flow_tag West = 3"
| "flow_tag South = 4"
| "flow_tag North = 5"

definition flow_from_tag :: "u16 \<Rightarrow> fluid_flow option" where
  "flow_from_tag tag =
     (if tag = 0 then Some Still else if tag = 1 then Some Down else if tag = 2 then Some East
      else if tag = 3 then Some West else if tag = 4 then Some South
      else if tag = 5 then Some North else None)"

fun flow_step :: "fluid_flow \<Rightarrow> int \<times> int \<times> int" where
  "flow_step Still = (0, 0, 0)"
| "flow_step Down = (0, -1, 0)"
| "flow_step East = (1, 0, 0)"
| "flow_step West = (-1, 0, 0)"
| "flow_step South = (0, 0, 1)"
| "flow_step North = (0, 0, -1)"

text \<open>A fluid is named by its validated stable identifier.\<close>

datatype fluid_cell = NoFluid | Fluid (fluid_id: string) (fluid_level: u8) (fluid_flow: fluid_flow)

definition is_source :: "fluid_cell \<Rightarrow> bool" where
  "is_source c = (case c of NoFluid \<Rightarrow> False | Fluid _ level _ \<Rightarrow> level = 0)"

definition fluid_identity :: "fluid_cell \<Rightarrow> string option" where
  "fluid_identity c = (case c of NoFluid \<Rightarrow> None | Fluid i _ _ \<Rightarrow> Some i)"

definition level_of :: "fluid_cell \<Rightarrow> u8 option" where
  "level_of c = (case c of NoFluid \<Rightarrow> None | Fluid _ level _ \<Rightarrow> Some level)"

record runtime_cell =
  rc_solid_occupied :: bool
  rc_fluid :: fluid_cell

definition empty_cell :: runtime_cell where
  "empty_cell = \<lparr>rc_solid_occupied = False, rc_fluid = NoFluid\<rparr>"

definition collision_occupied :: "runtime_cell \<Rightarrow> fluid_collision_kind \<Rightarrow> bool" where
  "collision_occupied c kind \<longleftrightarrow>
     rc_solid_occupied c \<or> (kind = VolumeCollision \<and> rc_fluid c \<noteq> NoFluid)"

definition fluid_selectable :: "runtime_cell \<Rightarrow> fluid_selection_kind \<Rightarrow> bool" where
  "fluid_selectable c kind \<longleftrightarrow>
     (if rc_solid_occupied c \<or> rc_fluid c = NoFluid then False
      else case kind of
        NoFluidSelection \<Rightarrow> False
      | SourceSelection \<Rightarrow> is_source (rc_fluid c)
      | VolumeSelection \<Rightarrow> True)"

record fluid_budget =
  fb_max_cells_per_tick :: u32
  fb_max_queue_depth :: u32
  fb_max_in_flight_bytes :: u32

record revision_stamp =
  rs_world :: world_revision
  rs_chunk :: chunk_revision
  rs_voxel :: u64

record fluid_mutation =
  fm_x :: u16
  fm_y :: u16
  fm_z :: u16
  fm_from :: fluid_cell
  fm_to :: fluid_cell

record boundary_intent =
  bi_neighbor :: chunk_coordinate
  bi_x :: u16
  bi_y :: u16
  bi_z :: u16
  bi_fluid :: fluid_cell

record fluid_tick_plan =
  fp_captured :: revision_stamp
  fp_coordinate :: chunk_coordinate
  fp_cells_examined :: u32
  fp_cells_changed :: u32
  fp_queue_depth :: u32
  fp_in_flight_bytes :: u32
  fp_mutations :: "fluid_mutation list"
  fp_boundaries :: "boundary_intent list"
  fp_next_frontier :: "(u16 \<times> u16 \<times> u16) list"

definition admit_fluid_completion :: "revision_stamp \<Rightarrow> revision_stamp \<Rightarrow> fluid_error + unit" where
  "admit_fluid_completion captured current =
     (if rs_world captured \<noteq> rs_world current then Inl (FluidStale StaleWorldRevision)
      else if rs_chunk captured \<noteq> rs_chunk current then Inl (FluidStale StaleChunkRevision)
      else if rs_voxel captured \<noteq> rs_voxel current then Inl (FluidStale StaleVoxelRevision)
      else Inr ())"

subsection \<open>Arithmetic and bounds\<close>

definition sat_add :: "nat \<Rightarrow> nat \<Rightarrow> nat \<Rightarrow> nat" where
  "sat_add hi a b = min hi (a + b)"

definition sat_mul :: "nat \<Rightarrow> nat \<Rightarrow> nat \<Rightarrow> nat" where
  "sat_mul hi a b = min hi (a * b)"

definition enforce :: "string \<Rightarrow> u32 \<Rightarrow> u32 \<Rightarrow> fluid_error + unit" where
  "enforce resource actual limit =
     (if actual > limit then Inl (FluidLimitExceeded resource actual limit) else Inr ())"

definition linear_index :: "u16 \<Rightarrow> u16 \<Rightarrow> u16 \<Rightarrow> u16 \<Rightarrow> fluid_error + usize" where
  "linear_index edge x y z =
     (if x \<ge> edge \<or> y \<ge> edge \<or> z \<ge> edge then Inl (FluidLocalOutOfRange x y z edge)
      else Inr (x + edge * (z + edge * y)))"

definition volume_cell_count :: "u16 \<Rightarrow> fluid_error + usize" where
  "volume_cell_count edge =
     ok_or (case checked_mul usize_max edge edge of
              None \<Rightarrow> None | Some area \<Rightarrow> checked_mul usize_max area edge)
       (FluidLocalOutOfRange 0 0 0 0)"

type_synonym frontier_set = "(u16 \<times> u16 \<times> u16, unit) btree"

definition enqueue :: "fluid_budget \<Rightarrow> u16 \<Rightarrow> u16 \<Rightarrow> u16 \<Rightarrow> frontier_set \<Rightarrow> fluid_error + frontier_set"
where
  "enqueue budget x y z queue =
     (let queue' = bt_insert (y, z, x) () queue;
          depth = min u32_max (bt_len queue')
      in and_then (enforce ''fluid_queue_depth'' depth (fb_max_queue_depth budget)) (\<lambda>_. Inr queue'))"

subsection \<open>Neighbours\<close>

datatype neighbor =
    Inside u16 u16 u16
  | Boundary chunk_coordinate u16 u16 u16
  | OutOfWorld

definition i32_checked :: "int \<Rightarrow> int option" where
  "i32_checked c = (if - (2 ^ 31) \<le> c \<and> c \<le> 2 ^ 31 - 1 then Some c else None)"

text \<open>The code repeats this once per axis: the local coordinate wraps into the next chunk.\<close>

definition wrap_axis :: "u16 \<Rightarrow> int \<Rightarrow> int \<Rightarrow> (int \<times> int) option" where
  "wrap_axis edge n chunk =
     (if n < 0 then map_option (Pair (n + int edge)) (i32_checked (chunk - 1))
      else if n \<ge> int edge then map_option (Pair (n - int edge)) (i32_checked (chunk + 1))
      else Some (n, chunk))"

definition u16_try_from :: "int \<Rightarrow> u16 option" where
  "u16_try_from n = (if 0 \<le> n \<and> n \<le> int u16_max then Some (nat n) else None)"

definition neighbor_cell ::
    "chunk_coordinate \<Rightarrow> u16 \<Rightarrow> u16 \<Rightarrow> u16 \<Rightarrow> u16 \<Rightarrow> fluid_flow \<Rightarrow> neighbor" where
  "neighbor_cell coordinate edge x y z flow =
     (case flow_step flow of (dx, dy, dz) \<Rightarrow>
      case wrap_axis edge (int x + dx) (cc_x coordinate) of
        None \<Rightarrow> OutOfWorld
      | Some (nx, cx) \<Rightarrow>
      case wrap_axis edge (int y + dy) (cc_y coordinate) of
        None \<Rightarrow> OutOfWorld
      | Some (ny, cy) \<Rightarrow>
      case wrap_axis edge (int z + dz) (cc_z coordinate) of
        None \<Rightarrow> OutOfWorld
      | Some (nz, cz) \<Rightarrow>
      case (u16_try_from nx, u16_try_from ny, u16_try_from nz) of
        (Some x', Some y', Some z') \<Rightarrow>
          if ChunkCoordinate cx cy cz = coordinate then Inside x' y' z'
          else Boundary (ChunkCoordinate cx cy cz) x' y' z'
      | _ \<Rightarrow> OutOfWorld)"

subsection \<open>Spreading\<close>

record tick_state =
  ts_planned :: "runtime_cell list"
  ts_examined :: u32
  ts_changed :: u32
  ts_mutations :: "fluid_mutation list"
  ts_boundaries :: "boundary_intent list"
  ts_next :: frontier_set

definition spread_level :: "u8 \<Rightarrow> fluid_flow \<Rightarrow> u8 option" where
  "spread_level level flow =
     (if flow = Down then Some level
      else case checked_add 255 level 1 of
        None \<Rightarrow> None | Some l \<Rightarrow> if l \<le> 7 then Some l else None)"

text \<open>The write of a destination cell inside the chunk.\<close>

definition write_fluid ::
    "fluid_budget \<Rightarrow> u16 \<Rightarrow> u16 \<Rightarrow> u16 \<Rightarrow> usize \<Rightarrow> fluid_cell \<Rightarrow> tick_state \<Rightarrow> fluid_error + tick_state"
where
  "write_fluid budget x y z index to st =
     (let current = ts_planned st ! index;
          changed = sat_add u32_max (ts_changed st) 1
      in and_then (enforce ''fluid_cells_per_tick'' changed (fb_max_cells_per_tick budget)) (\<lambda>_.
         and_then (enqueue budget x y z (ts_next st)) (\<lambda>queue.
           Inr (st\<lparr>ts_planned := (ts_planned st)[index := current\<lparr>rc_fluid := to\<rparr>],
                   ts_changed := changed,
                   ts_mutations := ts_mutations st @
                     [\<lparr>fm_x = x, fm_y = y, fm_z = z, fm_from = rc_fluid current, fm_to = to\<rparr>],
                   ts_next := queue\<rparr>))))"

definition spread_inside ::
    "u16 \<Rightarrow> fluid_budget \<Rightarrow> u16 \<Rightarrow> u16 \<Rightarrow> u16 \<Rightarrow> string \<Rightarrow> u8 \<Rightarrow> fluid_flow \<Rightarrow> tick_state
      \<Rightarrow> fluid_error + (bool \<times> tick_state)" where
  "spread_inside edge budget x y z i dest_level flow st =
     and_then (linear_index edge x y z) (\<lambda>index.
     let current = ts_planned st ! index;
         write = and_then (write_fluid budget x y z index (Fluid i dest_level flow) st)
           (\<lambda>st'. Inr (True, st'))
     in if rc_solid_occupied current then Inr (False, st)
        else case rc_fluid current of
          NoFluid \<Rightarrow> write
        | Fluid existing existing_level _ \<Rightarrow>
            if existing \<noteq> i then Inl FluidMixing
            else if existing_level \<le> dest_level then Inr (False, st)
            else write)"

definition try_spread ::
    "chunk_coordinate \<Rightarrow> u16 \<Rightarrow> fluid_budget \<Rightarrow> u16 \<Rightarrow> u16 \<Rightarrow> u16 \<Rightarrow> string \<Rightarrow> u8 \<Rightarrow> fluid_flow
      \<Rightarrow> tick_state \<Rightarrow> fluid_error + (bool \<times> tick_state)" where
  "try_spread coordinate edge budget x y z i level flow st =
     (case spread_level level flow of
        None \<Rightarrow> Inr (False, st)
      | Some dest_level \<Rightarrow>
          (case neighbor_cell coordinate edge x y z flow of
             Inside nx ny nz \<Rightarrow> spread_inside edge budget nx ny nz i dest_level flow st
           | Boundary n nx ny nz \<Rightarrow>
               Inr (False, st\<lparr>ts_boundaries := ts_boundaries st @
                 [\<lparr>bi_neighbor = n, bi_x = nx, bi_y = ny, bi_z = nz,
                   bi_fluid = Fluid i dest_level flow\<rparr>]\<rparr>)
           | OutOfWorld \<Rightarrow> Inr (False, st)))"

definition spread_horizontally ::
    "chunk_coordinate \<Rightarrow> u16 \<Rightarrow> fluid_budget \<Rightarrow> u16 \<Rightarrow> u16 \<Rightarrow> u16 \<Rightarrow> string \<Rightarrow> u8 \<Rightarrow> tick_state
      \<Rightarrow> fluid_error + tick_state" where
  "spread_horizontally coordinate edge budget x y z i level st =
     try_fold (\<lambda>flow st. and_then (try_spread coordinate edge budget x y z i level flow st)
         (\<lambda>(_, st'). Inr st'))
       horizontal_flows st"

text \<open>One pass of the loop over the sorted queue.\<close>

definition tick_cell ::
    "chunk_coordinate \<Rightarrow> u16 \<Rightarrow> fluid_budget \<Rightarrow> u16 \<times> u16 \<times> u16 \<Rightarrow> tick_state
      \<Rightarrow> fluid_error + tick_state" where
  "tick_cell coordinate edge budget p st =
     (case p of (y, z, x) \<Rightarrow>
      let examined = sat_add u32_max (ts_examined st) 1 in
      and_then (enforce ''fluid_cells_per_tick'' examined (fb_max_cells_per_tick budget)) (\<lambda>_.
      and_then (linear_index edge x y z) (\<lambda>index.
      let source = ts_planned st ! index; st = st\<lparr>ts_examined := examined\<rparr> in
      if rc_solid_occupied source then Inr st
      else case rc_fluid source of
        NoFluid \<Rightarrow> Inr st
      | Fluid i level _ \<Rightarrow>
          if level > 7 then Inl (FluidInvalidLevel level)
          else and_then (try_spread coordinate edge budget x y z i level Down st)
            (\<lambda>(fell, st'). if fell \<or> level \<ge> 7 then Inr st'
               else spread_horizontally coordinate edge budget x y z i level st'))))"

definition plan_of_tick ::
    "chunk_coordinate \<Rightarrow> revision_stamp \<Rightarrow> nat \<Rightarrow> fluid_budget \<Rightarrow> tick_state
      \<Rightarrow> fluid_error + fluid_tick_plan" where
  "plan_of_tick coordinate captured frontier_len budget st =
     (let mutations = sort_key (\<lambda>m. (fm_y m, fm_z m, fm_x m)) (ts_mutations st);
          boundaries = sort_key (\<lambda>b. (cc_y (bi_neighbor b), cc_z (bi_neighbor b), cc_x (bi_neighbor b),
            bi_y b, bi_z b, bi_x b)) (ts_boundaries st);
          next_frontier = map (\<lambda>(y, z, x). (x, y, z)) (bt_keys (ts_next st));
          queue_depth = min u32_max (frontier_len + length next_frontier);
          in_flight_bytes = sat_mul u32_max
            (sat_add u32_max (min u32_max (length mutations)) (min u32_max (length boundaries)))
            cell_account_bytes
      in and_then (enforce ''fluid_in_flight_bytes'' in_flight_bytes (fb_max_in_flight_bytes budget))
        (\<lambda>_. Inr \<lparr>fp_captured = captured, fp_coordinate = coordinate,
                   fp_cells_examined = ts_examined st, fp_cells_changed = ts_changed st,
                   fp_queue_depth = queue_depth, fp_in_flight_bytes = in_flight_bytes,
                   fp_mutations = mutations, fp_boundaries = boundaries,
                   fp_next_frontier = next_frontier\<rparr>))"

definition fill_queue ::
    "u16 \<Rightarrow> fluid_budget \<Rightarrow> (u16 \<times> u16 \<times> u16) list \<Rightarrow> fluid_error + frontier_set" where
  "fill_queue edge budget frontier =
     try_fold (\<lambda>(x, y, z) queue.
         and_then (linear_index edge x y z) (\<lambda>_. enqueue budget x y z queue))
       frontier bt_empty"

definition plan_fluid_tick ::
    "chunk_coordinate \<Rightarrow> revision_stamp \<Rightarrow> runtime_cell list \<Rightarrow> (u16 \<times> u16 \<times> u16) list \<Rightarrow> fluid_budget
      \<Rightarrow> fluid_error + fluid_tick_plan" where
  "plan_fluid_tick coordinate captured cells frontier budget =
     (let edge = fluid_chunk_edge in
      and_then (volume_cell_count edge) (\<lambda>expected.
      if length cells \<noteq> expected then Inl (FluidLocalOutOfRange 0 0 0 edge)
      else and_then (fill_queue edge budget frontier) (\<lambda>queue.
      and_then (try_fold (tick_cell coordinate edge budget) (bt_keys queue)
        \<lparr>ts_planned = cells, ts_examined = 0, ts_changed = 0, ts_mutations = [],
         ts_boundaries = [], ts_next = bt_empty\<rparr>)
      (plan_of_tick coordinate captured (length frontier) budget))))"

end
