(* ===== verification/Fluid_Spread.thy ===== *)
theory Fluid_Spread
  imports Fluid_Update
begin

section \<open>What a fluid tick writes\<close>

text \<open>
  The invariant of the loop over the frontier: replaying the recorded mutations on the
  captured cells gives the planned cells, cells only gain fluid of their own kind, every
  written cell is fed by a neighbour, and the total of the levels falls with every write.
\<close>

subsection \<open>Indices\<close>

definition cell_index :: "u16 \<Rightarrow> u16 \<Rightarrow> u16 \<Rightarrow> u16 \<Rightarrow> usize" where
  "cell_index e x y z = x + e * (z + e * y)"

definition local_cell :: "u16 \<Rightarrow> u16 \<Rightarrow> u16 \<Rightarrow> u16 \<Rightarrow> bool" where
  "local_cell e x y z \<longleftrightarrow> x < e \<and> y < e \<and> z < e"

lemma linear_index_Inr: "linear_index e x y z = Inr i \<longleftrightarrow> local_cell e x y z \<and> i = cell_index e x y z"
  by (auto simp: linear_index_def local_cell_def cell_index_def)

lemma pair_index_bound: "a < e \<Longrightarrow> b < n \<Longrightarrow> a + e * b < e * (n :: nat)"
proof -
  assume a: "a < e" and b: "b < n"
  have "a + e * b < e * Suc b" using a by simp
  also have "\<dots> \<le> e * n" using b by (intro mult_le_mono2) simp
  finally show ?thesis .
qed

lemma cell_index_bound: "local_cell e x y z \<Longrightarrow> cell_index e x y z < e * e * e"
  unfolding cell_index_def local_cell_def using pair_index_bound [of z e y e] pair_index_bound [of x e]
  by (metis mult.assoc)

lemma pair_index_inject:
  fixes a b c d e :: nat
  assumes "a < e" "c < e" "a + e * b = c + e * d"
  shows "a = c \<and> b = d"
proof -
  have "(a + e * b) mod e = a" "(c + e * d) mod e = c" using assms(1,2) by simp_all
  with assms(3) have "a = c" by simp
  moreover have "(a + e * b) div e = b" "(c + e * d) div e = d" using assms(1,2) by simp_all
  with assms(3) have "b = d" by simp
  ultimately show ?thesis ..
qed

lemma cell_index_inject:
  assumes "local_cell e x y z" "local_cell e x' y' z'"
  shows "cell_index e x y z = cell_index e x' y' z' \<longleftrightarrow> x = x' \<and> y = y' \<and> z = z'"
  using assms pair_index_inject [of x e x' "z + e * y" "z' + e * y'"] pair_index_inject [of z e z' y y']
  by (auto simp: cell_index_def local_cell_def)

subsection \<open>Neighbours\<close>

lemma wrap_axis_Some:
  assumes "wrap_axis e n c = Some (n', c')" and "- 1 \<le> n" "n \<le> int e" "0 < e"
  shows "0 \<le> n' \<and> n' < int e \<and> int e * c' + n' = int e * c + n \<and> (c' = c \<longleftrightarrow> 0 \<le> n \<and> n < int e)"
  using assms by (auto simp: wrap_axis_def i32_checked_def algebra_simps split: if_splits)

definition offset :: "u16 \<times> u16 \<times> u16 \<Rightarrow> fluid_flow \<Rightarrow> int \<times> int \<times> int" where
  "offset p flow =
     (case p of (x, y, z) \<Rightarrow> case flow_step flow of (dx, dy, dz) \<Rightarrow> (int x + dx, int y + dy, int z + dz))"

definition world_position :: "u16 \<Rightarrow> chunk_coordinate \<Rightarrow> int \<times> int \<times> int \<Rightarrow> int \<times> int \<times> int" where
  "world_position e c p =
     (case p of (x, y, z) \<Rightarrow> (int e * cc_x c + x, int e * cc_y c + y, int e * cc_z c + z))"

lemma step_small:
  assumes "flow_step flow = (dx, dy, dz)" and "local_cell e x y z"
  shows "- 1 \<le> int x + dx \<and> int x + dx \<le> int e \<and> - 1 \<le> int y + dy \<and> int y + dy \<le> int e \<and>
    - 1 \<le> int z + dz \<and> int z + dz \<le> int e \<and> 0 < e"
  using assms by (cases flow) (auto simp: local_cell_def)

lemma neighbor_cell_inside:
  assumes "neighbor_cell c e x y z flow = Inside x' y' z'" and "local_cell e x y z"
  shows "local_cell e x' y' z' \<and> offset (x, y, z) flow = (int x', int y', int z')"
proof -
  obtain dx dy dz where d: "flow_step flow = (dx, dy, dz)" by (cases "flow_step flow")
  note b = step_small [OF d assms(2)]
  from assms(1) obtain nx cx ny cy nz cz where
      w: "wrap_axis e (int x + dx) (cc_x c) = Some (nx, cx)" "wrap_axis e (int y + dy) (cc_y c) = Some (ny, cy)"
        "wrap_axis e (int z + dz) (cc_z c) = Some (nz, cz)" and
      u: "u16_try_from nx = Some x'" "u16_try_from ny = Some y'" "u16_try_from nz = Some z'" and
      c: "ChunkCoordinate cx cy cz = c"
    by (auto simp: neighbor_cell_def d split: option.splits if_splits)
  have n: "nx = int x'" "ny = int y'" "nz = int z'" using u by (auto simp: u16_try_from_def split: if_splits)
  have "cx = cc_x c" "cy = cc_y c" "cz = cc_z c" using c by auto
  with wrap_axis_Some [OF w(1)] wrap_axis_Some [OF w(2)] wrap_axis_Some [OF w(3)] b n
  show ?thesis by (simp add: local_cell_def offset_def d)
qed

lemma neighbor_cell_boundary:
  assumes "neighbor_cell c e x y z flow = Boundary c' x' y' z'" and "local_cell e x y z"
  shows "local_cell e x' y' z' \<and> c' \<noteq> c \<and>
    world_position e c' (int x', int y', int z') = world_position e c (offset (x, y, z) flow)"
proof -
  obtain dx dy dz where d: "flow_step flow = (dx, dy, dz)" by (cases "flow_step flow")
  note b = step_small [OF d assms(2)]
  from assms(1) obtain nx cx ny cy nz cz where
      w: "wrap_axis e (int x + dx) (cc_x c) = Some (nx, cx)" "wrap_axis e (int y + dy) (cc_y c) = Some (ny, cy)"
        "wrap_axis e (int z + dz) (cc_z c) = Some (nz, cz)" and
      u: "u16_try_from nx = Some x'" "u16_try_from ny = Some y'" "u16_try_from nz = Some z'" and
      c: "c' = ChunkCoordinate cx cy cz" "c' \<noteq> c"
    by (auto simp: neighbor_cell_def d split: option.splits if_splits)
  have n: "nx = int x'" "ny = int y'" "nz = int z'" using u by (auto simp: u16_try_from_def split: if_splits)
  from wrap_axis_Some [OF w(1)] wrap_axis_Some [OF w(2)] wrap_axis_Some [OF w(3)] b n c
  show ?thesis by (simp add: local_cell_def offset_def world_position_def d)
qed

subsection \<open>Replaying mutations\<close>

definition mutation_index :: "u16 \<Rightarrow> fluid_mutation \<Rightarrow> usize" where
  "mutation_index e m = cell_index e (fm_x m) (fm_y m) (fm_z m)"

definition mutation_local :: "u16 \<Rightarrow> fluid_mutation \<Rightarrow> bool" where
  "mutation_local e m \<longleftrightarrow> local_cell e (fm_x m) (fm_y m) (fm_z m)"

definition mutate :: "fluid_mutation \<Rightarrow> runtime_cell \<Rightarrow> runtime_cell option" where
  "mutate m c = (if rc_fluid c = fm_from m then Some (c\<lparr>rc_fluid := fm_to m\<rparr>) else None)"

fun replay :: "u16 \<Rightarrow> fluid_mutation list \<Rightarrow> runtime_cell list \<Rightarrow> runtime_cell list option" where
  "replay e [] cells = Some cells"
| "replay e (m # ms) cells =
     (let i = mutation_index e m
      in if i < length cells
         then case mutate m (cells ! i) of None \<Rightarrow> None | Some c \<Rightarrow> replay e ms (cells[i := c])
         else None)"

fun chain :: "fluid_mutation list \<Rightarrow> runtime_cell \<Rightarrow> runtime_cell option" where
  "chain [] c = Some c"
| "chain (m # ms) c = (case mutate m c of None \<Rightarrow> None | Some c' \<Rightarrow> chain ms c')"

lemma replay_append: "replay e (ms @ ns) cells = (case replay e ms cells of None \<Rightarrow> None | Some c \<Rightarrow> replay e ns c)"
  by (induction ms arbitrary: cells) (auto simp: Let_def split: option.splits)

lemma replay_chain:
  assumes "\<forall>m\<in>set ms. mutation_index e m < length cells"
  shows "replay e ms cells = Some planned \<longleftrightarrow> length planned = length cells \<and>
    (\<forall>i<length cells. chain (filter (\<lambda>m. mutation_index e m = i) ms) (cells ! i) = Some (planned ! i))"
  using assms
proof (induction ms arbitrary: cells)
  case Nil
  show ?case by (auto simp: list_eq_iff_nth_eq)
next
  case (Cons m ms)
  let ?j = "mutation_index e m"
  have j: "?j < length cells" using Cons.prems by simp
  show ?case
  proof (cases "mutate m (cells ! ?j)")
    case None
    then have "chain (filter (\<lambda>m. mutation_index e m = ?j) (m # ms)) (cells ! ?j) = None" by simp
    moreover have "replay e (m # ms) cells = None" using None j by (simp add: Let_def)
    ultimately show ?thesis using j by (metis option.distinct(1))
  next
    case (Some c)
    have "replay e (m # ms) cells = Some planned \<longleftrightarrow> replay e ms (cells[?j := c]) = Some planned"
      using j Some by (simp add: Let_def)
    also have "\<dots> \<longleftrightarrow> length planned = length cells \<and>
        (\<forall>i<length cells. chain (filter (\<lambda>m. mutation_index e m = i) ms) (cells[?j := c] ! i) = Some (planned ! i))"
      using Cons.IH [of "cells[?j := c]"] Cons.prems by simp
    also have "\<dots> \<longleftrightarrow> length planned = length cells \<and>
        (\<forall>i<length cells. chain (filter (\<lambda>m. mutation_index e m = i) (m # ms)) (cells ! i) = Some (planned ! i))"
      using j Some by (auto simp: nth_list_update)
    finally show ?thesis .
  qed
qed

lemma replay_sorted:
  assumes "\<forall>m\<in>set ms. mutation_local e m" and "length cells = e * e * e"
  shows "replay e (sort_key (\<lambda>m. (fm_y m, fm_z m, fm_x m)) ms) cells = replay e ms cells"
proof -
  let ?k = "\<lambda>m. (fm_y m, fm_z m, fm_x m)"
  have bound: "\<forall>m\<in>set ms. mutation_index e m < length cells"
    using assms cell_index_bound by (simp add: mutation_index_def mutation_local_def)
  have same: "filter (\<lambda>m. mutation_index e m = i) (sort_key ?k ms) = filter (\<lambda>m. mutation_index e m = i) ms"
    for i
  proof -
    have "\<exists>p. \<forall>m\<in>set (filter (\<lambda>m. mutation_index e m = i) ms). ?k m = p"
    proof (cases "filter (\<lambda>m. mutation_index e m = i) ms")
      case (Cons m rest)
      then have m: "m \<in> set ms" "mutation_index e m = i"
        using list.set_intros(1) [of m rest] unfolding Cons [symmetric] by simp_all
      have "?k n = ?k m" if "n \<in> set ms" "mutation_index e n = i" for n
        using cell_index_inject [of e "fm_x n" "fm_y n" "fm_z n" "fm_x m" "fm_y m" "fm_z m"] that m assms(1)
        by (simp add: mutation_index_def mutation_local_def)
      then show ?thesis by auto
    qed simp
    then obtain p where "\<forall>m\<in>set (filter (\<lambda>m. mutation_index e m = i) ms). ?k m = p" by blast
    then have "map ?k (filter (\<lambda>m. mutation_index e m = i) ms) =
        replicate (length (filter (\<lambda>m. mutation_index e m = i) ms)) p"
      by (intro replicate_eqI) auto
    then have "sorted (map ?k (filter (\<lambda>m. mutation_index e m = i) ms))" by simp
    then show ?thesis unfolding filter_sort by (rule sort_key_id_if_sorted)
  qed
  have "replay e (sort_key ?k ms) cells = Some planned \<longleftrightarrow> replay e ms cells = Some planned" for planned
    using replay_chain [OF bound] replay_chain [of "sort_key ?k ms" e cells planned] bound by (simp add: same)
  then show ?thesis by (metis not_Some_eq)
qed

subsection \<open>The order of cells\<close>

text \<open>A cell gains fluid of its own kind only, and never a higher level.\<close>

definition flows_into :: "runtime_cell \<Rightarrow> runtime_cell \<Rightarrow> bool" where
  "flows_into a b \<longleftrightarrow> rc_solid_occupied b = rc_solid_occupied a \<and>
     (rc_fluid b = rc_fluid a \<or>
      \<not> rc_solid_occupied a \<and>
      (case rc_fluid b of NoFluid \<Rightarrow> False
       | Fluid i l _ \<Rightarrow> l \<le> 7 \<and>
           (case rc_fluid a of NoFluid \<Rightarrow> True | Fluid i' l' _ \<Rightarrow> i = i' \<and> l < l')))"

lemma flows_into_refl [simp]: "flows_into a a"
  by (simp add: flows_into_def)

lemma flows_into_trans: "flows_into a b \<Longrightarrow> flows_into b c \<Longrightarrow> flows_into a c"
  by (auto simp: flows_into_def split: fluid_cell.splits)

definition all_flow :: "runtime_cell list \<Rightarrow> runtime_cell list \<Rightarrow> bool" where
  "all_flow cells planned \<longleftrightarrow> list_all2 flows_into cells planned"

lemma all_flow_refl [simp]: "all_flow cells cells"
  by (simp add: all_flow_def list_all2_refl)

lemma all_flow_trans: "all_flow a b \<Longrightarrow> all_flow b c \<Longrightarrow> all_flow a c"
  unfolding all_flow_def by (rule list_all2_trans [where ?P1.0 = flows_into]) (rule flows_into_trans)

lemma all_flow_length: "all_flow a b \<Longrightarrow> length a = length b"
  unfolding all_flow_def by (rule list_all2_lengthD)

lemma all_flow_nth: "all_flow a b \<Longrightarrow> i < length a \<Longrightarrow> flows_into (a ! i) (b ! i)"
  unfolding all_flow_def by (rule list_all2_nthD)

lemma all_flow_update: "i < length a \<Longrightarrow> flows_into (a ! i) c \<Longrightarrow> all_flow a (a[i := c])"
  by (simp add: all_flow_def list_all2_conv_all_nth nth_list_update)

text \<open>Fluid \<open>i\<close> stands in a free cell at a level of at most \<open>l\<close>.\<close>

definition holds :: "runtime_cell \<Rightarrow> string \<Rightarrow> u8 \<Rightarrow> bool" where
  "holds c i l \<longleftrightarrow> \<not> rc_solid_occupied c \<and> (\<exists>l' f. rc_fluid c = Fluid i l' f \<and> l' \<le> l)"

lemma holds_flows: "holds a i l \<Longrightarrow> flows_into a b \<Longrightarrow> holds b i l"
  by (auto simp: holds_def flows_into_def split: fluid_cell.splits)

definition at :: "u16 \<Rightarrow> runtime_cell list \<Rightarrow> u16 \<Rightarrow> u16 \<Rightarrow> u16 \<Rightarrow> runtime_cell" where
  "at e cells x y z = cells ! cell_index e x y z"

lemma holds_at_flow:
  assumes "holds (at e a x y z) i l" and "all_flow a b" and "local_cell e x y z" and "length a = e * e * e"
  shows "holds (at e b x y z) i l"
  using holds_flows all_flow_nth [OF assms(2)] assms cell_index_bound by (simp add: at_def)

text \<open>
  A cell with fluid is fed when a neighbour holds the same fluid upstream: above it at no
  higher level, or beside it at a lower one.
\<close>

definition feeds :: "u16 \<Rightarrow> runtime_cell list \<Rightarrow> u16 \<times> u16 \<times> u16 \<Rightarrow> fluid_flow \<Rightarrow> string \<Rightarrow> u8 \<Rightarrow> bool" where
  "feeds e cells p flow i l \<longleftrightarrow>
     (case p of (x, y, z) \<Rightarrow> local_cell e x y z \<and> l \<le> 7 \<and>
       (flow = Down \<and> holds (at e cells x y z) i l \<or>
        flow \<in> set horizontal_flows \<and> 0 < l \<and> holds (at e cells x y z) i (l - 1)))"

definition fed :: "u16 \<Rightarrow> runtime_cell list \<Rightarrow> u16 \<Rightarrow> u16 \<Rightarrow> u16 \<Rightarrow> bool" where
  "fed e cells x y z \<longleftrightarrow>
     (\<exists>i l flow p. rc_fluid (at e cells x y z) = Fluid i l flow \<and>
        offset p flow = (int x, int y, int z) \<and> feeds e cells p flow i l)"

lemma feeds_flow:
  "feeds e a p flow i l \<Longrightarrow> all_flow a b \<Longrightarrow> length a = e * e * e \<Longrightarrow> feeds e b p flow i l"
  using holds_at_flow [of e a _ _ _ i _ b] by (auto simp: feeds_def split: prod.splits)

subsection \<open>The total level\<close>

definition cell_rank :: "runtime_cell \<Rightarrow> nat" where
  "cell_rank c = (case rc_fluid c of NoFluid \<Rightarrow> 256 | Fluid _ l _ \<Rightarrow> l)"

definition total_rank :: "runtime_cell list \<Rightarrow> nat" where
  "total_rank cells = sum_list (map cell_rank cells)"

definition levels_typed :: "runtime_cell list \<Rightarrow> bool" where
  "levels_typed cells \<longleftrightarrow> list_all (\<lambda>c. case rc_fluid c of NoFluid \<Rightarrow> True | Fluid _ l _ \<Rightarrow> l \<le> 255) cells"

lemma total_rank_bound: "levels_typed cells \<Longrightarrow> total_rank cells \<le> 256 * length cells"
  unfolding levels_typed_def total_rank_def
  by (induction cells) (auto simp: cell_rank_def split: fluid_cell.splits)

lemma total_rank_update:
  assumes "i < length cells" and "cell_rank c < cell_rank (cells ! i)"
  shows "total_rank (cells[i := c]) < total_rank cells"
  using sum_list_update_nat [OF assms(1), of cell_rank c] assms(2) by (simp add: total_rank_def)

subsection \<open>The invariant\<close>

definition boundary_from :: "u16 \<Rightarrow> chunk_coordinate \<Rightarrow> runtime_cell list \<Rightarrow> boundary_intent \<Rightarrow> bool" where
  "boundary_from e c planned b \<longleftrightarrow>
     (\<exists>i l flow x y z. bi_fluid b = Fluid i l flow \<and> feeds e planned (x, y, z) flow i l \<and>
        neighbor_cell c e x y z flow = Boundary (bi_neighbor b) (bi_x b) (bi_y b) (bi_z b))"

definition mutation_key :: "fluid_mutation \<Rightarrow> u16 \<times> u16 \<times> u16" where
  "mutation_key m = (fm_y m, fm_z m, fm_x m)"

definition tick_inv ::
    "u16 \<Rightarrow> chunk_coordinate \<Rightarrow> fluid_budget \<Rightarrow> runtime_cell list \<Rightarrow> tick_state \<Rightarrow> bool" where
  "tick_inv e c budget cells st \<longleftrightarrow>
     all_flow cells (ts_planned st) \<and>
     replay e (ts_mutations st) cells = Some (ts_planned st) \<and>
     (\<forall>m\<in>set (ts_mutations st). mutation_local e m) \<and>
     (\<forall>x y z. local_cell e x y z \<longrightarrow> at e (ts_planned st) x y z \<noteq> at e cells x y z \<longrightarrow>
        fed e (ts_planned st) x y z) \<and>
     set (bt_keys (ts_next st)) = mutation_key ` set (ts_mutations st) \<and>
     total_rank (ts_planned st) + length (ts_mutations st) \<le> total_rank cells \<and>
     ts_changed st = length (ts_mutations st) \<and>
     ts_changed st \<le> fb_max_cells_per_tick budget \<and>
     ts_examined st \<le> fb_max_cells_per_tick budget \<and>
     bt_len (ts_next st) \<le> fb_max_queue_depth budget \<and>
     (\<forall>b\<in>set (ts_boundaries st). boundary_from e c (ts_planned st) b)"

definition tick_start :: "runtime_cell list \<Rightarrow> tick_state" where
  "tick_start cells =
     \<lparr>ts_planned = cells, ts_examined = 0, ts_changed = 0, ts_mutations = [],
      ts_boundaries = [], ts_next = bt_empty\<rparr>"

lemma bt_keys_empty [simp]: "bt_keys bt_empty = []"
  by (simp add: bt_keys_def bt_empty.rep_eq)

lemma tick_inv_start: "tick_inv e c budget cells (tick_start cells)"
  by (simp add: tick_inv_def tick_start_def bt_len_card)

lemma enforce_Inr: "enforce r a limit = Inr u \<longleftrightarrow> a \<le> limit"
  by (auto simp: enforce_def)

lemma enqueue_Inr:
  "enqueue budget x y z q = Inr q' \<longleftrightarrow>
     q' = bt_insert (y, z, x) () q \<and> min u32_max (bt_len q') \<le> fb_max_queue_depth budget"
  by (auto simp: enqueue_def result_simps enforce_Inr Let_def)

lemma bt_keys_insert_unit: "set (bt_keys (bt_insert k v q)) = insert k (set (bt_keys q))"
  by (auto simp: bt_contains_iff [symmetric] bt_contains_def bt.get_insert split: if_splits)

lemma fed_flow:
  assumes "fed e a x y z" and "all_flow a b" and "length a = e * e * e"
    and "at e b x y z = at e a x y z"
  shows "fed e b x y z"
  using assms feeds_flow unfolding fed_def by metis

lemma boundary_flow:
  assumes "boundary_from e c a b" and "all_flow a a'" and "length a = e * e * e"
  shows "boundary_from e c a' b"
  using assms feeds_flow unfolding boundary_from_def by metis

lemma card_image_length: "card (f ` set xs) \<le> length xs"
  by (metis card_length length_map set_map)

lemma write_fluid_inv:
  assumes inv: "tick_inv e c budget cells st" and len: "length cells = e * e * e"
    and rank: "total_rank cells \<le> u32_max" and loc: "local_cell e x y z"
    and free: "\<not> rc_solid_occupied (at e (ts_planned st) x y z)"
    and old: "case rc_fluid (at e (ts_planned st) x y z) of NoFluid \<Rightarrow> True | Fluid i' l' _ \<Rightarrow> i' = i \<and> l < l'"
    and src: "feeds e (ts_planned st) p flow i l" and off: "offset p flow = (int x, int y, int z)"
    and run: "write_fluid budget x y z (cell_index e x y z) (Fluid i l flow) st = Inr st'"
  shows "tick_inv e c budget cells st' \<and> all_flow (ts_planned st) (ts_planned st') \<and>
    ts_examined st' = ts_examined st"
proof -
  let ?i = "cell_index e x y z" and ?a = "ts_planned st"
  let ?cur = "?a ! ?i" and ?to = "Fluid i l flow"
  let ?new = "?cur\<lparr>rc_fluid := ?to\<rparr>"
  let ?m = "\<lparr>fm_x = x, fm_y = y, fm_z = z, fm_from = rc_fluid ?cur, fm_to = ?to\<rparr>"
  note inv' = inv [unfolded tick_inv_def]
  have lena: "length ?a = e * e * e" using inv' all_flow_length len by metis
  have ib: "?i < length ?a" using cell_index_bound [OF loc] lena by simp
  have l7: "l \<le> 7" using src by (auto simp: feeds_def split: prod.splits)
  have cur: "\<not> rc_solid_occupied ?cur" using free by (simp add: at_def)
  have fl: "flows_into ?cur ?new"
    using cur old l7 by (auto simp: flows_into_def at_def split: fluid_cell.splits)
  have "cell_rank ?new < cell_rank ?cur"
    using old l7 by (auto simp: cell_rank_def at_def split: fluid_cell.splits)
  from total_rank_update [OF ib this] have tr: "total_rank (?a[?i := ?new]) < total_rank ?a" .
  have lenm: "length (ts_mutations st) + 1 \<le> u32_max" using inv' tr rank by linarith
  have st': "st' = st\<lparr>ts_planned := ?a[?i := ?new], ts_changed := ts_changed st + 1,
      ts_mutations := ts_mutations st @ [?m], ts_next := bt_insert (y, z, x) () (ts_next st)\<rparr>"
    and ch: "ts_changed st + 1 \<le> fb_max_cells_per_tick budget"
    and q: "min u32_max (bt_len (bt_insert (y, z, x) () (ts_next st))) \<le> fb_max_queue_depth budget"
    using run inv' lenm
    by (auto simp: write_fluid_def Let_def result_simps enforce_Inr enqueue_Inr sat_add_def min_absorb2)
  have af: "all_flow ?a (?a[?i := ?new])" by (rule all_flow_update [OF ib fl])
  have rep: "replay e (ts_mutations st @ [?m]) cells = Some (?a[?i := ?new])"
    using inv' ib by (simp add: replay_append mutate_def mutation_index_def Let_def)
  have keys: "set (bt_keys (bt_insert (y, z, x) () (ts_next st))) = mutation_key ` set (ts_mutations st @ [?m])"
    using inv' by (auto simp: bt_keys_insert_unit mutation_key_def)
  have "bt_len (bt_insert (y, z, x) () (ts_next st)) \<le> length (ts_mutations st @ [?m])"
    unfolding bt_len_card keys by (rule card_image_length)
  then have q': "bt_len (bt_insert (y, z, x) () (ts_next st)) \<le> fb_max_queue_depth budget"
    using q lenm by simp
  have fedn: "fed e (?a[?i := ?new]) x' y' z'"
    if loc': "local_cell e x' y' z'" and ne: "at e (?a[?i := ?new]) x' y' z' \<noteq> at e cells x' y' z'" for x' y' z'
  proof (cases "x' = x \<and> y' = y \<and> z' = z")
    case True
    have "rc_fluid (at e (?a[?i := ?new]) x y z) = Fluid i l flow" using ib by (simp add: at_def)
    with True off feeds_flow [OF src af lena] show ?thesis unfolding fed_def by blast
  next
    case False
    then have "cell_index e x' y' z' \<noteq> ?i" using cell_index_inject [OF loc' loc] by blast
    then have eq: "at e (?a[?i := ?new]) x' y' z' = at e ?a x' y' z'" by (simp add: at_def)
    with inv' loc' ne have "fed e ?a x' y' z'" by metis
    from fed_flow [OF this af lena eq] show ?thesis .
  qed
  have bnd: "\<forall>b\<in>set (ts_boundaries st). boundary_from e c (?a[?i := ?new]) b"
    using inv' boundary_flow [OF _ af lena] by blast
  have "tick_inv e c budget cells st'"
    unfolding tick_inv_def st'
    using inv' all_flow_trans [OF _ af] rep loc fedn keys tr ch q' bnd
    by (auto simp: mutation_local_def)
  then show ?thesis using af st' by simp
qed

subsection \<open>The steps keep the invariant\<close>

lemma spread_inside_inv:
  assumes inv: "tick_inv e c budget cells st" and len: "length cells = e * e * e"
    and rank: "total_rank cells \<le> u32_max"
    and src: "feeds e (ts_planned st) p flow i l" and off: "offset p flow = (int x, int y, int z)"
    and run: "spread_inside e budget x y z i l flow st = Inr (b, st')"
  shows "tick_inv e c budget cells st' \<and> all_flow (ts_planned st) (ts_planned st') \<and>
    ts_examined st' = ts_examined st"
proof -
  from run have loc: "local_cell e x y z"
    by (auto simp: spread_inside_def result_simps linear_index_Inr)
  let ?cur = "ts_planned st ! cell_index e x y z"
  have rest: "st' = st \<or> \<not> rc_solid_occupied ?cur \<and>
      (case rc_fluid ?cur of NoFluid \<Rightarrow> True | Fluid i' l' _ \<Rightarrow> i' = i \<and> l < l') \<and>
      write_fluid budget x y z (cell_index e x y z) (Fluid i l flow) st = Inr st'"
    using run by (auto simp: spread_inside_def result_simps linear_index_Inr Let_def
        split: if_splits fluid_cell.splits)
  show ?thesis
  proof (cases "st' = st")
    case True
    with inv show ?thesis by simp
  next
    case False
    with rest show ?thesis
      by (intro write_fluid_inv [OF inv len rank loc _ _ src off]) (simp_all add: at_def)
  qed
qed

lemma spread_level_feeds:
  assumes "spread_level level flow = Some l" and "local_cell e x y z" and "level \<le> 7"
    and "holds (at e a x y z) i level" and "flow = Down \<or> flow \<in> set horizontal_flows"
  shows "feeds e a (x, y, z) flow i l"
  using assms by (auto simp: spread_level_def feeds_def checked_add_def horizontal_flows_def split: if_splits)

lemma try_spread_inv:
  assumes inv: "tick_inv e c budget cells st" and len: "length cells = e * e * e"
    and rank: "total_rank cells \<le> u32_max" and loc: "local_cell e x y z" and lev: "level \<le> 7"
    and src: "holds (at e (ts_planned st) x y z) i level"
    and flow: "flow = Down \<or> flow \<in> set horizontal_flows"
    and run: "try_spread c e budget x y z i level flow st = Inr (b, st')"
  shows "tick_inv e c budget cells st' \<and> all_flow (ts_planned st) (ts_planned st') \<and>
    ts_examined st' = ts_examined st"
proof (cases "spread_level level flow")
  case None
  with run inv show ?thesis by (simp add: try_spread_def)
next
  case (Some l)
  note feeds = spread_level_feeds [OF Some loc lev src flow]
  show ?thesis
  proof (cases "neighbor_cell c e x y z flow")
    case (Inside nx ny nz)
    then have "offset (x, y, z) flow = (int nx, int ny, int nz)"
      using neighbor_cell_inside [OF _ loc] by blast
    moreover have "spread_inside e budget nx ny nz i l flow st = Inr (b, st')"
      using run Some Inside by (simp add: try_spread_def)
    ultimately show ?thesis by (rule spread_inside_inv [OF inv len rank feeds])
  next
    case (Boundary n nx ny nz)
    let ?b = "\<lparr>bi_neighbor = n, bi_x = nx, bi_y = ny, bi_z = nz, bi_fluid = Fluid i l flow\<rparr>"
    have "st' = st\<lparr>ts_boundaries := ts_boundaries st @ [?b]\<rparr>"
      using run Some Boundary by (simp add: try_spread_def)
    moreover have "boundary_from e c (ts_planned st) ?b"
      using feeds Boundary by (auto simp: boundary_from_def)
    ultimately show ?thesis using inv by (auto simp: tick_inv_def)
  next
    case OutOfWorld
    with run Some inv show ?thesis by (simp add: try_spread_def)
  qed
qed

lemma spread_horizontally_inv:
  assumes inv: "tick_inv e c budget cells st" and len: "length cells = e * e * e"
    and rank: "total_rank cells \<le> u32_max" and loc: "local_cell e x y z" and lev: "level \<le> 7"
    and src: "holds (at e (ts_planned st) x y z) i level"
    and run: "spread_horizontally c e budget x y z i level st = Inr st'"
  shows "tick_inv e c budget cells st' \<and> ts_examined st' = ts_examined st"
proof -
  let ?P = "\<lambda>s. tick_inv e c budget cells s \<and> ts_examined s = ts_examined st \<and>
    holds (at e (ts_planned s) x y z) i level"
  have "?P st'"
  proof (rule try_fold_invariant [where P = ?P, OF run [unfolded spread_horizontally_def]])
    show "?P st" using inv src by simp
  next
    fix flow s t
    assume flow: "flow \<in> set horizontal_flows" and s: "?P s"
      and step: "and_then (try_spread c e budget x y z i level flow s) (\<lambda>(_, st'). Inr st') = Inr t"
    from step obtain b where "try_spread c e budget x y z i level flow s = Inr (b, t)"
      by (auto simp: result_simps)
    with s flow have t: "tick_inv e c budget cells t \<and> all_flow (ts_planned s) (ts_planned t) \<and>
        ts_examined t = ts_examined s"
      by (intro try_spread_inv [OF _ len rank loc lev]) auto
    have "length (ts_planned s) = e * e * e" using s all_flow_length len by (metis tick_inv_def)
    with s t holds_at_flow [OF _ _ loc] show "?P t" by metis
  qed
  then show ?thesis by simp
qed

lemma tick_cell_inv:
  assumes inv: "tick_inv e c budget cells st" and len: "length cells = e * e * e"
    and rank: "total_rank cells \<le> u32_max" and run: "tick_cell c e budget p st = Inr st'"
  shows "tick_inv e c budget cells st' \<and> ts_examined st' = sat_add u32_max (ts_examined st) 1"
proof -
  obtain y z x where p: "p = (y, z, x)" by (cases p)
  let ?st = "st\<lparr>ts_examined := sat_add u32_max (ts_examined st) 1\<rparr>"
  let ?cur = "ts_planned st ! cell_index e x y z"
  have loc: "local_cell e x y z" and "ts_examined ?st \<le> fb_max_cells_per_tick budget"
    using run by (auto simp: tick_cell_def p Let_def result_simps enforce_Inr linear_index_Inr)
  then have inv': "tick_inv e c budget cells ?st" using inv by (simp add: tick_inv_def)
  have cases: "st' = ?st \<or> (\<exists>i level f fell mid. \<not> rc_solid_occupied ?cur \<and> rc_fluid ?cur = Fluid i level f \<and>
      level \<le> 7 \<and> try_spread c e budget x y z i level Down ?st = Inr (fell, mid) \<and>
      (st' = mid \<or> spread_horizontally c e budget x y z i level mid = Inr st'))"
    using run by (auto simp: tick_cell_def p Let_def result_simps enforce_Inr linear_index_Inr
        split: if_splits fluid_cell.splits)
  show ?thesis
  proof (cases "st' = ?st")
    case True
    with inv' show ?thesis by simp
  next
    case False
    with cases obtain i level f fell mid where cur: "\<not> rc_solid_occupied ?cur" "rc_fluid ?cur = Fluid i level f"
        and lev: "level \<le> 7" and down: "try_spread c e budget x y z i level Down ?st = Inr (fell, mid)"
        and st': "st' = mid \<or> spread_horizontally c e budget x y z i level mid = Inr st'"
      by blast
    have src: "holds (at e (ts_planned ?st) x y z) i level" using cur by (simp add: holds_def at_def)
    note mid = try_spread_inv [OF inv' len rank loc lev src _ down]
    have "length (ts_planned st) = e * e * e" using inv all_flow_length len by (metis tick_inv_def)
    with mid src holds_at_flow [OF src _ loc] have still: "holds (at e (ts_planned mid) x y z) i level"
      by simp
    from st' show ?thesis
    proof
      assume "st' = mid"
      with mid show ?thesis by simp
    next
      assume "spread_horizontally c e budget x y z i level mid = Inr st'"
      from spread_horizontally_inv [OF _ len rank loc lev still this] mid show ?thesis by simp
    qed
  qed
qed

lemma tick_inv_run:
  assumes "length cells = e * e * e" and "total_rank cells \<le> u32_max"
  shows "try_fold (tick_cell c e budget) ps st = Inr st' \<Longrightarrow> tick_inv e c budget cells st \<Longrightarrow>
    ts_examined st + length ps \<le> u32_max \<Longrightarrow>
    tick_inv e c budget cells st' \<and> ts_examined st' = ts_examined st + length ps"
proof (induction ps arbitrary: st)
  case Nil
  then show ?case by simp
next
  case (Cons p ps)
  from Cons.prems(1) obtain mid where mid: "tick_cell c e budget p st = Inr mid"
      "try_fold (tick_cell c e budget) ps mid = Inr st'"
    by (auto simp: result_simps)
  from tick_cell_inv [OF Cons.prems(2) assms mid(1)] Cons.prems(3)
  have "tick_inv e c budget cells mid" "ts_examined mid = ts_examined st + 1"
    by (simp_all add: sat_add_def)
  with Cons.IH [OF mid(2)] Cons.prems(3) show ?case by simp
qed

end
