(* ===== verification/Fluid_Properties.thy ===== *)
theory Fluid_Properties
  imports Fluid_Spread "HOL-Library.Code_Target_Nat"
begin

section \<open>Properties of fluid ticks\<close>

text \<open>
  A successful plan is replayable and physically grounded, stays within its budget without
  leaving frontier cells out, addresses neighbour chunks at the adjacent cells, and ticking on
  comes to rest.
\<close>

subsection \<open>From the planner to its loop\<close>

abbreviation volume :: nat where "volume \<equiv> fluid_chunk_edge * fluid_chunk_edge * fluid_chunk_edge"

lemma volume_cell_count_edge: "volume_cell_count fluid_chunk_edge = Inr volume"
  by code_simp

lemma total_rank_typed:
  assumes "levels_typed cells" and "length cells = volume"
  shows "total_rank cells \<le> u32_max"
proof -
  have "256 * volume \<le> u32_max" by code_simp
  with total_rank_bound [OF assms(1)] assms(2) show ?thesis by simp
qed

lemma plan_fluid_tick_Inr:
  assumes "plan_fluid_tick c stamp cells frontier budget = Inr p"
  obtains queue st where "length cells = volume"
    "fill_queue fluid_chunk_edge budget frontier = Inr queue"
    "try_fold (tick_cell c fluid_chunk_edge budget) (bt_keys queue) (tick_start cells) = Inr st"
    "plan_of_tick c stamp (length frontier) budget st = Inr p"
  using assms that
  by (auto simp: plan_fluid_tick_def volume_cell_count_edge result_simps tick_start_def split: if_splits)

definition plan_from :: "tick_state \<Rightarrow> fluid_tick_plan \<Rightarrow> bool" where
  "plan_from st p \<longleftrightarrow>
     fp_mutations p = sort_key (\<lambda>m. (fm_y m, fm_z m, fm_x m)) (ts_mutations st) \<and>
     set (fp_boundaries p) = set (ts_boundaries st) \<and>
     fp_next_frontier p = map (\<lambda>(y, z, x). (x, y, z)) (bt_keys (ts_next st)) \<and>
     fp_cells_examined p = ts_examined st \<and> fp_cells_changed p = ts_changed st"

lemma plan_of_tick_Inr:
  assumes "plan_of_tick c stamp n budget st = Inr p"
  shows "plan_from st p" "fp_in_flight_bytes p \<le> fb_max_in_flight_bytes budget"
  using assms by (auto simp: plan_of_tick_def plan_from_def Let_def result_simps enforce_Inr)

lemma enqueue_local:
  assumes "(\<lambda>(x, y, z) queue. and_then (linear_index e x y z) (\<lambda>_. enqueue budget x y z queue)) p queue = Inr queue'"
  shows "set (bt_keys queue') = insert (case p of (x, y, z) \<Rightarrow> (y, z, x)) (set (bt_keys queue)) \<and>
    (case p of (x, y, z) \<Rightarrow> local_cell e x y z)"
  using assms by (cases p) (auto simp: result_simps linear_index_Inr enqueue_Inr bt_keys_insert_unit)

lemma fill_queue_keys:
  assumes "fill_queue e budget frontier = Inr queue"
  shows "set (bt_keys queue) = (\<lambda>(x, y, z). (y, z, x)) ` set frontier \<and>
    (\<forall>(x, y, z)\<in>set frontier. local_cell e x y z)"
proof -
  let ?f = "\<lambda>(x, y, z) queue. and_then (linear_index e x y z) (\<lambda>_. enqueue budget x y z queue)"
  have "set (bt_keys q') = (\<lambda>(x, y, z). (y, z, x)) ` set frontier \<union> set (bt_keys q) \<and>
      (\<forall>(x, y, z)\<in>set frontier. local_cell e x y z)"
    if "try_fold ?f frontier q = Inr q'" for q q'
    using that
  proof (induction frontier arbitrary: q)
    case Nil
    then show ?case by simp
  next
    case (Cons p ps)
    from Cons.prems obtain mid where mid: "?f p q = Inr mid" "try_fold ?f ps mid = Inr q'"
      unfolding try_fold.simps and_then_Inr by blast
    from Cons.IH [OF mid(2)] enqueue_local [OF mid(1)] show ?case by auto
  qed
  from this [OF assms [unfolded fill_queue_def]] show ?thesis by simp
qed

lemma fill_queue_length:
  assumes "fill_queue e budget frontier = Inr queue"
  shows "length (bt_keys queue) = card (set frontier)" "card (set frontier) \<le> e * e * e"
proof -
  note keys = fill_queue_keys [OF assms]
  have inj: "inj_on (\<lambda>(x, y, z). (y, z, x)) (set frontier)" by (auto simp: inj_on_def)
  have "length (bt_keys queue) = card (set (bt_keys queue))"
    by (rule distinct_card [OF distinct_bt_keys, symmetric])
  then show "length (bt_keys queue) = card (set frontier)"
    using keys card_image [OF inj] by simp
  have "set frontier \<subseteq> {..<e} \<times> {..<e} \<times> {..<e}" using keys by (auto simp: local_cell_def)
  from card_mono [OF _ this] show "card (set frontier) \<le> e * e * e" by (simp add: mult.assoc)
qed

lemma planned_tick:
  assumes "plan_fluid_tick c stamp cells frontier budget = Inr p" and "levels_typed cells"
  obtains st where "tick_inv fluid_chunk_edge c budget cells st" "plan_from st p"
    "replay fluid_chunk_edge (fp_mutations p) cells = Some (ts_planned st)" "length cells = volume"
    "fp_cells_examined p = card (set frontier)" "fp_in_flight_bytes p \<le> fb_max_in_flight_bytes budget"
proof -
  obtain queue st where len: "length cells = volume"
    and queue: "fill_queue fluid_chunk_edge budget frontier = Inr queue"
    and run: "try_fold (tick_cell c fluid_chunk_edge budget) (bt_keys queue) (tick_start cells) = Inr st"
    and plan: "plan_of_tick c stamp (length frontier) budget st = Inr p"
    by (rule plan_fluid_tick_Inr [OF assms(1)])
  have "volume \<le> u32_max" by code_simp
  then have "ts_examined (tick_start cells) + length (bt_keys queue) \<le> u32_max"
    using fill_queue_length [OF queue] by (simp add: tick_start_def)
  from tick_inv_run [OF len total_rank_typed [OF assms(2) len] run tick_inv_start this]
  have inv: "tick_inv fluid_chunk_edge c budget cells st" and ex: "ts_examined st = card (set frontier)"
    using fill_queue_length(1) [OF queue] by (simp_all add: tick_start_def)
  note facts = plan_of_tick_Inr [OF plan]
  have "replay fluid_chunk_edge (fp_mutations p) cells = Some (ts_planned st)"
    using inv facts(1) replay_sorted [OF _ len, of "ts_mutations st"] by (simp add: tick_inv_def plan_from_def)
  with inv facts len ex that show ?thesis by (metis plan_from_def)
qed

lemma levels_typed_flow:
  assumes "levels_typed a" and "all_flow a b"
  shows "levels_typed b"
proof -
  have "case rc_fluid (b ! k) of NoFluid \<Rightarrow> True | Fluid _ l _ \<Rightarrow> l \<le> 255" if "k < length b" for k
  proof -
    have k: "k < length a" using that all_flow_length [OF assms(2)] by simp
    have "case rc_fluid (a ! k) of NoFluid \<Rightarrow> True | Fluid _ l _ \<Rightarrow> l \<le> 255"
      using assms(1) k by (simp add: levels_typed_def list_all_length)
    with all_flow_nth [OF assms(2) k] show ?thesis
      by (auto simp: flows_into_def split: fluid_cell.splits)
  qed
  then show ?thesis by (simp add: levels_typed_def list_all_length)
qed

subsection \<open>Ticking on\<close>

text \<open>
  A chunk on its own: the mutations of each plan are applied and its next frontier is planned
  again. \<open>None\<close> means that the fuel ran out.
\<close>

fun settle ::
    "nat \<Rightarrow> chunk_coordinate \<Rightarrow> revision_stamp \<Rightarrow> fluid_budget \<Rightarrow> runtime_cell list
      \<Rightarrow> (u16 \<times> u16 \<times> u16) list \<Rightarrow> (fluid_error + runtime_cell list) option" where
  "settle 0 c stamp budget cells frontier = None"
| "settle (Suc n) c stamp budget cells frontier =
     (case plan_fluid_tick c stamp cells frontier budget of
        Inl e \<Rightarrow> Some (Inl e)
      | Inr p \<Rightarrow>
          (case replay fluid_chunk_edge (fp_mutations p) cells of
             None \<Rightarrow> None
           | Some planned \<Rightarrow>
               if fp_next_frontier p = [] then Some (Inr planned)
               else settle n c stamp budget planned (fp_next_frontier p)))"

lemma settle_rank:
  "total_rank cells < n \<Longrightarrow> levels_typed cells \<Longrightarrow> \<exists>r. settle n c stamp budget cells frontier = Some r"
proof (induction n arbitrary: cells frontier)
  case 0
  then show ?case by simp
next
  case (Suc n)
  show ?case
  proof (cases "plan_fluid_tick c stamp cells frontier budget")
    case (Inl e)
    then show ?thesis by simp
  next
    case (Inr p)
    obtain st where inv: "tick_inv fluid_chunk_edge c budget cells st" and p: "plan_from st p"
      and replay: "replay fluid_chunk_edge (fp_mutations p) cells = Some (ts_planned st)"
      by (rule planned_tick [OF Inr Suc.prems(2)])
    show ?thesis
    proof (cases "fp_next_frontier p = []")
      case True
      with Inr replay show ?thesis by simp
    next
      case False
      then have "set (bt_keys (ts_next st)) \<noteq> {}" using p by (auto simp: plan_from_def)
      then have "ts_mutations st \<noteq> []" using inv by (auto simp: tick_inv_def)
      then have "0 < length (ts_mutations st)" by simp
      moreover have "total_rank (ts_planned st) + length (ts_mutations st) \<le> total_rank cells"
        using inv by (simp add: tick_inv_def)
      ultimately have "total_rank (ts_planned st) < n" using Suc.prems(1) by linarith
      moreover have "levels_typed (ts_planned st)"
        using levels_typed_flow [OF Suc.prems(2)] inv by (simp add: tick_inv_def)
      ultimately show ?thesis using Suc.IH Inr replay False by simp
    qed
  qed
qed

subsection \<open>Properties\<close>

text \<open>C11: a plan can be replayed on the cells it was made for, and the result is sound: no solid
  cell changes, no fluid replaces another or a level rises, and every changed cell holds fluid
  that stands above it or beside it further upstream.\<close>

theorem fluid_plan_sound:
  assumes "plan_fluid_tick c stamp cells frontier budget = Inr p" and "levels_typed cells"
  shows "\<exists>planned. replay fluid_chunk_edge (fp_mutations p) cells = Some planned \<and>
    length planned = length cells \<and>
    (\<forall>k<length cells. flows_into (cells ! k) (planned ! k)) \<and>
    (\<forall>x y z. local_cell fluid_chunk_edge x y z \<longrightarrow>
       at fluid_chunk_edge planned x y z \<noteq> at fluid_chunk_edge cells x y z \<longrightarrow>
       fed fluid_chunk_edge planned x y z)"
proof -
  obtain st where inv: "tick_inv fluid_chunk_edge c budget cells st"
    and replay: "replay fluid_chunk_edge (fp_mutations p) cells = Some (ts_planned st)"
    by (rule planned_tick [OF assms])
  have flow: "all_flow cells (ts_planned st)" using inv by (simp add: tick_inv_def)
  show ?thesis
    using replay all_flow_length [OF flow] all_flow_nth [OF flow] inv [unfolded tick_inv_def]
    by (intro exI [of _ "ts_planned st"]) simp
qed

text \<open>C29: a plan stays within its budget and cuts nothing off: all cells of the frontier were
  examined, at most as many cells as allowed were examined and written, the cells written are
  exactly the next frontier, in \<open>(y, z, x)\<close> order, and they fit the queue.\<close>

theorem fluid_plan_bounds:
  assumes "plan_fluid_tick c stamp cells frontier budget = Inr p" and "levels_typed cells"
  shows "fp_cells_examined p = card (set frontier) \<and>
    fp_cells_examined p \<le> fb_max_cells_per_tick budget \<and>
    fp_cells_changed p = length (fp_mutations p) \<and>
    fp_cells_changed p \<le> fb_max_cells_per_tick budget \<and>
    set (fp_next_frontier p) = (\<lambda>m. (fm_x m, fm_y m, fm_z m)) ` set (fp_mutations p) \<and>
    sorted_wrt (<) (map (\<lambda>(x, y, z). (y, z, x)) (fp_next_frontier p)) \<and>
    length (fp_next_frontier p) \<le> fb_max_queue_depth budget \<and>
    fp_in_flight_bytes p \<le> fb_max_in_flight_bytes budget"
proof -
  obtain st where inv: "tick_inv fluid_chunk_edge c budget cells st" and p: "plan_from st p"
    and rest: "fp_cells_examined p = card (set frontier)"
      "fp_in_flight_bytes p \<le> fb_max_in_flight_bytes budget"
    by (rule planned_tick [OF assms])
  have keys: "set (bt_keys (ts_next st)) = mutation_key ` set (ts_mutations st)"
    using inv by (simp add: tick_inv_def)
  have "set (fp_next_frontier p) = (\<lambda>(y, z, x). (x, y, z)) ` mutation_key ` set (ts_mutations st)"
    using p keys by (simp add: plan_from_def)
  also have "\<dots> = (\<lambda>m. (fm_x m, fm_y m, fm_z m)) ` set (fp_mutations p)"
    using p by (simp add: plan_from_def image_image mutation_key_def)
  finally have cells: "set (fp_next_frontier p) = (\<lambda>m. (fm_x m, fm_y m, fm_z m)) ` set (fp_mutations p)" .
  have "map (\<lambda>(x, y, z). (y, z, x)) (fp_next_frontier p) = bt_keys (ts_next st)"
    using p by (simp add: plan_from_def o_def case_prod_unfold)
  then have sorted: "sorted_wrt (<) (map (\<lambda>(x, y, z). (y, z, x)) (fp_next_frontier p))"
    using bt.entries_sorted [of "ts_next st"] by (simp add: bt_keys_def)
  have "length (fp_next_frontier p) = bt_len (ts_next st)"
    using p by (simp add: plan_from_def bt_keys_def bt_len_def)
  with inv p rest cells sorted show ?thesis by (simp add: tick_inv_def plan_from_def)
qed

text \<open>Fluid that leaves the chunk is offered to the neighbour chunk at exactly the adjacent
  cell of the world, and it comes from a cell that feeds it.\<close>

theorem fluid_boundaries_adjacent:
  assumes "plan_fluid_tick c stamp cells frontier budget = Inr p" and "levels_typed cells"
    and "b \<in> set (fp_boundaries p)"
  shows "\<exists>planned i l flow q. replay fluid_chunk_edge (fp_mutations p) cells = Some planned \<and>
    bi_fluid b = Fluid i l flow \<and> feeds fluid_chunk_edge planned q flow i l \<and>
    bi_neighbor b \<noteq> c \<and> local_cell fluid_chunk_edge (bi_x b) (bi_y b) (bi_z b) \<and>
    world_position fluid_chunk_edge (bi_neighbor b) (int (bi_x b), int (bi_y b), int (bi_z b)) =
      world_position fluid_chunk_edge c (offset q flow)"
proof -
  obtain st where inv: "tick_inv fluid_chunk_edge c budget cells st" and p: "plan_from st p"
    and replay: "replay fluid_chunk_edge (fp_mutations p) cells = Some (ts_planned st)"
    by (rule planned_tick [OF assms(1,2)])
  have "boundary_from fluid_chunk_edge c (ts_planned st) b"
    using inv p assms(3) by (simp add: tick_inv_def plan_from_def)
  then obtain i l flow x y z where b: "bi_fluid b = Fluid i l flow"
      "feeds fluid_chunk_edge (ts_planned st) (x, y, z) flow i l"
      "neighbor_cell c fluid_chunk_edge x y z flow = Boundary (bi_neighbor b) (bi_x b) (bi_y b) (bi_z b)"
    by (auto simp: boundary_from_def)
  then have "local_cell fluid_chunk_edge x y z" by (simp add: feeds_def)
  from neighbor_cell_boundary [OF b(3) this] b replay show ?thesis by metis
qed

text \<open>C21: flowing comes to rest. Applying plan after plan on a chunk ends, with an error or with
  an empty frontier, after at most as many ticks as the cells can fall in level altogether.\<close>

theorem fluid_settles:
  assumes "levels_typed cells" and "length cells = volume"
  shows "\<exists>r. settle (256 * volume + 1) c stamp budget cells frontier = Some r"
  using total_rank_bound [OF assms(1)] assms by (intro settle_rank) simp_all

subsection \<open>Witnesses\<close>

text \<open>
  Water at the bottom edge of an empty chunk: it leaves the chunk downwards and to the east
  and spreads to the three other sides.
\<close>

definition empty_volume :: "runtime_cell list" where
  "empty_volume = replicate volume empty_cell"

definition spring_cells :: "runtime_cell list" where
  "spring_cells = empty_volume[191 := \<lparr>rc_solid_occupied = False, rc_fluid = Fluid ''a:fluid/w'' 0 Still\<rparr>]"

definition spring_chunk :: chunk_coordinate where "spring_chunk = ChunkCoordinate 7 0 4"

definition spring_stamp :: revision_stamp where
  "spring_stamp = \<lparr>rs_world = 1, rs_chunk = 1, rs_voxel = 1\<rparr>"

definition spring_budget :: fluid_budget where
  "spring_budget =
     \<lparr>fb_max_cells_per_tick = 64, fb_max_queue_depth = 3, fb_max_in_flight_bytes = 4096\<rparr>"

definition spring_mutation :: "u16 \<Rightarrow> u16 \<Rightarrow> u16 \<Rightarrow> fluid_flow \<Rightarrow> fluid_mutation" where
  "spring_mutation x y z flow =
     \<lparr>fm_x = x, fm_y = y, fm_z = z, fm_from = NoFluid, fm_to = Fluid ''a:fluid/w'' 1 flow\<rparr>"

definition spring_intents :: "boundary_intent list" where
  "spring_intents =
     [\<lparr>bi_neighbor = ChunkCoordinate 7 (-1) 4, bi_x = 31, bi_y = 31, bi_z = 5,
       bi_fluid = Fluid ''a:fluid/w'' 0 Down\<rparr>,
      \<lparr>bi_neighbor = ChunkCoordinate 8 0 4, bi_x = 0, bi_y = 0, bi_z = 5,
       bi_fluid = Fluid ''a:fluid/w'' 1 East\<rparr>]"

definition spring_plan :: fluid_tick_plan where
  "spring_plan =
     \<lparr>fp_captured = spring_stamp, fp_coordinate = spring_chunk, fp_cells_examined = 1,
      fp_cells_changed = 3, fp_queue_depth = 4, fp_in_flight_bytes = 320,
      fp_mutations = [spring_mutation 31 0 4 North, spring_mutation 30 0 5 West,
        spring_mutation 31 0 6 South],
      fp_boundaries = spring_intents,
      fp_next_frontier = [(31, 0, 4), (30, 0, 5), (31, 0, 6)]\<rparr>"

lemma volume_number: "volume = 32768"
  by code_simp

lemma length_empty_volume: "length empty_volume = 32768"
  by (simp only: empty_volume_def length_replicate volume_number)

lemma nth_empty_volume: "i < 32768 \<Longrightarrow> empty_volume ! i = empty_cell"
  by (simp only: empty_volume_def volume_number nth_replicate)

lemma spring_neighbors:
  "neighbor_cell spring_chunk 32 31 0 5 Down = Boundary (ChunkCoordinate 7 (-1) 4) 31 31 5"
  "neighbor_cell spring_chunk 32 31 0 5 East = Boundary (ChunkCoordinate 8 0 4) 0 0 5"
  "neighbor_cell spring_chunk 32 31 0 5 West = Inside 30 0 5"
  "neighbor_cell spring_chunk 32 31 0 5 South = Inside 31 0 6"
  "neighbor_cell spring_chunk 32 31 0 5 North = Inside 31 0 4"
  by code_simp+

lemma spring_indices:
  "linear_index 32 31 0 5 = Inr 191" "linear_index 32 30 0 5 = Inr 190"
  "linear_index 32 31 0 6 = Inr 223" "linear_index 32 31 0 4 = Inr 159"
  by code_simp+

definition spring_queue :: "nat \<Rightarrow> frontier_set" where
  "spring_queue n =
     fold (\<lambda>k. bt_insert k ()) (take n [(0, 5, 30), (0, 6, 31), (0, 4, 31)]) bt_empty"

lemma spring_enqueues:
  "bt_empty = spring_queue 0"
  "enqueue spring_budget 30 0 5 (spring_queue 0) = Inr (spring_queue 1)"
  "enqueue spring_budget 31 0 6 (spring_queue 1) = Inr (spring_queue 2)"
  "enqueue spring_budget 31 0 4 (spring_queue 2) = Inr (spring_queue 3)"
  by code_simp+

lemma spring_levels:
  "spread_level 0 Down = Some 0" "spread_level 0 East = Some 1" "spread_level 0 West = Some 1"
  "spread_level 0 South = Some 1" "spread_level 0 North = Some 1"
  by code_simp+

definition spring_state :: "runtime_cell list \<Rightarrow> tick_state" where
  "spring_state planned =
     \<lparr>ts_planned = planned, ts_examined = 1, ts_changed = 3,
      ts_mutations = [spring_mutation 30 0 5 West, spring_mutation 31 0 6 South,
        spring_mutation 31 0 4 North],
      ts_boundaries = spring_intents, ts_next = spring_queue 3\<rparr>"

lemma spring_budget_fields [simp]:
  "fb_max_cells_per_tick spring_budget = 64" "fb_max_queue_depth spring_budget = 3"
  "fb_max_in_flight_bytes spring_budget = 4096"
  by (simp_all add: spring_budget_def)

lemma spring_counts:
  "sat_add u32_max 0 1 = 1" "sat_add u32_max 1 1 = 2" "sat_add u32_max 2 1 = 3"
  "enforce r 1 64 = Inr ()" "enforce r 2 64 = Inr ()" "enforce r 3 64 = Inr ()"
  by (simp_all add: sat_add_def u32_max_def enforce_def)

lemma spring_source:
  "spring_cells ! 191 = \<lparr>rc_solid_occupied = False, rc_fluid = Fluid ''a:fluid/w'' 0 Still\<rparr>"
  "k < 32768 \<Longrightarrow> k \<noteq> 191 \<Longrightarrow> spring_cells ! k = empty_cell"
  "length spring_cells = 32768"
  by (simp_all add: spring_cells_def length_empty_volume nth_empty_volume)

lemma spring_tick:
  "\<exists>planned. tick_cell spring_chunk 32 spring_budget (0, 5, 31) (tick_start spring_cells) =
     Inr (spring_state planned)"
  by (simp add: tick_cell_def tick_start_def Let_def spring_indices spring_counts spring_source
      try_spread_def spring_neighbors spring_levels spread_horizontally_def horizontal_flows_def
      spread_inside_def write_fluid_def nth_list_update empty_cell_def spring_enqueues(2-4)
      spring_enqueues(1) spring_state_def spring_mutation_def spring_intents_def
      del: One_nat_def)

lemma spring_planned: "plan_of_tick spring_chunk spring_stamp 1 spring_budget (spring_state planned) = Inr spring_plan"
proof -
  have keys: "bt_keys (spring_queue 3) = [(0, 4, 31), (0, 5, 30), (0, 6, 31)]" by code_simp
  show ?thesis
    by (simp add: plan_of_tick_def spring_state_def spring_plan_def keys spring_mutation_def
        spring_intents_def Let_def enforce_def sat_add_def sat_mul_def u32_max_def cell_account_bytes_def)
qed

lemma spring_plans:
  "plan_fluid_tick spring_chunk spring_stamp spring_cells [(31, 0, 5)] spring_budget = Inr spring_plan"
proof -
  obtain planned where tick: "tick_cell spring_chunk 32 spring_budget (0, 5, 31) (tick_start spring_cells) =
     Inr (spring_state planned)"
    using spring_tick by blast
  have queue: "fill_queue 32 spring_budget [(31, 0, 5)] = Inr (bt_insert (0, 5, 31) () bt_empty)"
    "bt_keys (bt_insert (0 :: nat, 5 :: nat, 31 :: nat) () bt_empty) = [(0, 5, 31)]"
    by code_simp+
  have count: "volume_cell_count 32 = Inr 32768" by code_simp
  show ?thesis
    using tick spring_planned [of planned] queue
    by (simp add: plan_fluid_tick_def fluid_chunk_edge_def count spring_source(3) tick_start_def Let_def)
qed

lemma spring_typed: "levels_typed spring_cells"
proof -
  have "set spring_cells \<subseteq> insert \<lparr>rc_solid_occupied = False, rc_fluid = Fluid ''a:fluid/w'' 0 Still\<rparr>
      (set empty_volume)"
    unfolding spring_cells_def by (rule set_update_subset_insert)
  moreover have "set empty_volume \<subseteq> {empty_cell}" by (auto simp: empty_volume_def)
  ultimately have "c = \<lparr>rc_solid_occupied = False, rc_fluid = Fluid ''a:fluid/w'' 0 Still\<rparr> \<or> c = empty_cell"
    if "c \<in> set spring_cells" for c
    using that by blast
  then show ?thesis by (fastforce simp: levels_typed_def list_all_iff empty_cell_def)
qed

lemma fluid_plan_sound_witness:
  "\<exists>planned. replay fluid_chunk_edge (fp_mutations spring_plan) spring_cells = Some planned \<and>
     fed fluid_chunk_edge planned 30 0 5"
proof -
  obtain planned where planned: "replay fluid_chunk_edge (fp_mutations spring_plan) spring_cells = Some planned"
      "\<forall>x y z. local_cell fluid_chunk_edge x y z \<longrightarrow>
         at fluid_chunk_edge planned x y z \<noteq> at fluid_chunk_edge spring_cells x y z \<longrightarrow>
         fed fluid_chunk_edge planned x y z"
    using fluid_plan_sound [OF spring_plans spring_typed] by blast
  have index: "cell_index fluid_chunk_edge 30 0 5 = 190" "cell_index fluid_chunk_edge 31 0 4 = 159"
      "cell_index fluid_chunk_edge 31 0 6 = 223" "local_cell fluid_chunk_edge 30 0 5"
    by code_simp+
  have "planned ! 190 \<noteq> spring_cells ! 190"
    using planned(1)
    by (auto simp: spring_plan_def spring_mutation_def mutation_index_def index mutate_def
        spring_source nth_list_update empty_cell_def Let_def)
  with planned index show ?thesis by (metis at_def)
qed

lemma fluid_plan_bounds_witness:
  "fp_cells_examined spring_plan = card {(31 :: nat, 0 :: nat, 5 :: nat)} \<and>
   length (fp_next_frontier spring_plan) \<le> 3 \<and> fp_queue_depth spring_plan = 4"
  using fluid_plan_bounds [OF spring_plans spring_typed] by (simp add: spring_plan_def)

lemma fluid_boundaries_adjacent_witness:
  "\<exists>planned i l flow q. replay fluid_chunk_edge (fp_mutations spring_plan) spring_cells = Some planned \<and>
    feeds fluid_chunk_edge planned q flow i l \<and>
    world_position fluid_chunk_edge (ChunkCoordinate 8 0 4) (0, 0, 5) =
      world_position fluid_chunk_edge spring_chunk (offset q flow)"
proof -
  let ?b = "\<lparr>bi_neighbor = ChunkCoordinate 8 0 4, bi_x = 0, bi_y = 0, bi_z = 5,
      bi_fluid = Fluid ''a:fluid/w'' 1 East\<rparr>"
  have "?b \<in> set (fp_boundaries spring_plan)" by (simp add: spring_plan_def spring_intents_def)
  from fluid_boundaries_adjacent [OF spring_plans spring_typed this] show ?thesis by fastforce
qed

lemma fluid_settles_witness:
  "\<exists>r. settle (256 * volume + 1) spring_chunk spring_stamp spring_budget spring_cells [(31, 0, 5)] = Some r"
  by (rule fluid_settles [OF spring_typed]) (simp only: spring_source(3) volume_number)

end
