(* ===== verification/Palette_Codec.thy ===== *)
theory Palette_Codec
  imports Registration_Ids
begin

section \<open>Palette snapshots\<close>

text \<open>
  \<open>solid_fluid_palette.rs\<close> of \<open>latticeaxiom-world-wire\<close>: the persisted form of a chunk's two
  layers. A snapshot holds two sorted palettes and, bit-packed in the width of the palette,
  one index per cell. The payload itself is serialised by a third-party crate; of the code
  that scans the payload first the model has the reader of its integers and their length.
  The constructors of \<open>wire_segment\<close> carry a suffix, as some of the code's names are taken,
  and the text of an I/O error is a string.
\<close>

datatype wire_segment = DimensionSegment | RecordOwnerSegment | SchemaSegment | OwnerSegment | PayloadSegment

datatype codec_resource =
    PayloadBytes | NestedPayloadBytes | NestedPayloadTotalBytes | IdentifierBytes
  | CollectionElements | NestingDepth

datatype wire_error =
    WireInvalidLimit string u64
  | LimitExceedsHardMaximum string u64 u64
  | LengthOverflow wire_segment
  | SegmentTooLong wire_segment u64 u64
  | WireTruncated string usize usize
  | TruncatedStream string
  | WireIo string string
  | UnsupportedKeyMajor u16
  | ReadOnlyRecordKind u16
  | InvalidSnapshotMagic "u8 list"
  | UnsupportedEnvelopeMajor u16
  | WireInvalidUtf8 wire_segment
  | WireInvalidWorldId string
  | WireInvalidDimensionId string
  | InvalidRecordOwnerId string
  | WireInvalidSchemaId string
  | InvalidSnapshotOwner string
  | UnknownSchema versioned_id
  | UnknownOwner string
  | UnsupportedSchemaVersion u32 u32
  | InvalidSchemaVersion
  | PayloadLengthMismatch u64 u64
  | TrailingKeyBytes usize
  | TrailingEnvelopeData
  | DigestMismatch "u8 list" "u8 list"
  | CodecBudgetExceeded codec_resource u64 u64
  | PostcardEncode string
  | NonCanonicalPayload string
  | MalformedPayload string
  | TrailingPayloadBytes usize
  | UnknownNumericTag string u16

definition fluid_state_schema :: string where
  "fluid_state_schema = ''latticeaxiom:schema/fluid-state@1''"

definition wire_chunk_edge :: u16 where "wire_chunk_edge = 32"
definition max_identifier_bytes :: u64 where "max_identifier_bytes = 1024"
definition fluid_kind_empty :: u16 where "fluid_kind_empty = 0"
definition fluid_kind_fluid :: u16 where "fluid_kind_fluid = 1"
definition flow_tags :: "u16 list" where "flow_tags = [0, 1, 2, 3, 4, 5]"

record solid_entry =
  se_block :: string
  se_state_schema :: string
  se_state_schema_version :: u32
  se_canonical_state_bytes :: "u8 list"

record fluid_entry =
  fe_kind_tag :: u16
  fe_fluid :: string
  fe_state_schema :: string
  fe_state_schema_version :: u32
  fe_level :: u8
  fe_flow_tag :: u16

definition empty_fluid_entry :: fluid_entry where
  "empty_fluid_entry =
     \<lparr>fe_kind_tag = fluid_kind_empty, fe_fluid = [], fe_state_schema = [],
      fe_state_schema_version = 0, fe_level = 0, fe_flow_tag = 0\<rparr>"

definition fluid_entry_of :: "string \<Rightarrow> string \<Rightarrow> u32 \<Rightarrow> u8 \<Rightarrow> u16 \<Rightarrow> fluid_entry" where
  "fluid_entry_of fluid schema version level flow =
     \<lparr>fe_kind_tag = fluid_kind_fluid, fe_fluid = fluid, fe_state_schema = schema,
      fe_state_schema_version = version, fe_level = level, fe_flow_tag = flow\<rparr>"

definition entry_is_empty :: "fluid_entry \<Rightarrow> bool" where
  "entry_is_empty e \<longleftrightarrow> fe_kind_tag e = fluid_kind_empty"

record palette_snapshot =
  ps_key :: chunk_key
  ps_captured_world_revision :: world_revision
  ps_chunk_revision :: chunk_revision
  ps_voxel_revision :: u64
  ps_chunk_edge :: u16
  ps_solid_palette :: "solid_entry list"
  ps_fluid_palette :: "fluid_entry list"
  ps_packed_solid :: "u8 list"
  ps_packed_fluid :: "u8 list"
  ps_fluid_state_schema :: string
  ps_fluid_state_schema_version :: u32

subsection \<open>Packed indices\<close>

definition wire_cells :: usize where "wire_cells = 32 * 32 * 32"

text \<open>The floor of the binary logarithm of a positive number.\<close>

fun ilog2 :: "nat \<Rightarrow> nat" where
  "ilog2 n = (if n < 2 then 0 else Suc (ilog2 (n div 2)))"

declare ilog2.simps [simp del]

definition palette_bit_width :: "usize \<Rightarrow> u32" where
  "palette_bit_width len = ilog2 (max (len - 1) 1) + 1"

definition volume_reason :: "string \<Rightarrow> string" where
  "volume_reason what = what @ '' is not a 32'' @ [CHR 0xC2, CHR 0xB3] @ '' volume''"

definition div_ceil :: "nat \<Rightarrow> nat \<Rightarrow> nat" where
  "div_ceil a b = (a + b - 1) div b"

text \<open>The bits of one index; the width is at most 16, so that no shift of a \<open>u16\<close> overflows.\<close>

definition or_bit :: "usize \<Rightarrow> u8 list \<Rightarrow> u8 list" where
  "or_bit position packed =
     packed[position div 8 := packed ! (position div 8) OR push_bit (position mod 8) 1]"

definition pack_cell ::
    "usize \<Rightarrow> usize \<Rightarrow> usize \<times> u16 \<Rightarrow> u8 list \<Rightarrow> wire_error + u8 list" where
  "pack_cell palette_len width e packed =
     (case e of (c, index) \<Rightarrow>
      if index \<ge> palette_len then Inl (NonCanonicalPayload ''palette index exceeds palette length'')
      else and_then (ok_or (checked_mul usize_max c width) (LengthOverflow PayloadSegment))
        (\<lambda>bit_offset. Inr (fold (\<lambda>b packed. if index AND push_bit b 1 \<noteq> 0
             then or_bit (bit_offset + b) packed else packed) [0..<width] packed)))"

definition pack_indices :: "u16 list \<Rightarrow> usize \<Rightarrow> wire_error + u8 list" where
  "pack_indices indices palette_len =
     (if length indices \<noteq> wire_cells
      then Inl (NonCanonicalPayload (volume_reason ''packed index count''))
      else let width = palette_bit_width palette_len in
        and_then (ok_or (checked_mul usize_max wire_cells width) (LengthOverflow PayloadSegment))
          (\<lambda>bit_len. try_fold (pack_cell palette_len width) (zip [0..<length indices] indices)
            (replicate (div_ceil bit_len 8) 0)))"

definition unpack_value :: "u8 list \<Rightarrow> usize \<Rightarrow> usize \<Rightarrow> u16" where
  "unpack_value packed width c =
     fold (\<lambda>b v. if packed ! ((c * width + b) div 8) AND push_bit ((c * width + b) mod 8) 1 \<noteq> 0
         then v OR push_bit b 1 else v) [0..<width] 0"

definition unpack_cell ::
    "u8 list \<Rightarrow> usize \<Rightarrow> usize \<Rightarrow> usize \<Rightarrow> u16 list \<Rightarrow> wire_error + u16 list" where
  "unpack_cell packed palette_len width c indices =
     (let v = unpack_value packed width c
      in if v \<ge> palette_len
         then Inl (NonCanonicalPayload ''decoded palette index exceeds palette length'')
         else Inr (indices[c := v]))"

definition unpack_indices :: "u8 list \<Rightarrow> usize \<Rightarrow> wire_error + u16 list" where
  "unpack_indices packed palette_len =
     (let width = palette_bit_width palette_len in
      and_then (ok_or (checked_mul usize_max wire_cells width) (LengthOverflow PayloadSegment))
        (\<lambda>bit_len. if length packed \<noteq> div_ceil bit_len 8
           then Inl (NonCanonicalPayload ''packed section length does not match palette bit width'')
           else try_fold (unpack_cell packed palette_len width) [0..<wire_cells]
             (replicate wire_cells 0)))"

subsection \<open>Canonical palettes\<close>

definition sort_key_order :: "('a \<Rightarrow> 'k::linorder) \<Rightarrow> 'a list \<Rightarrow> wire_error + ('a list \<times> u16 list)" where
  "sort_key_order key rows =
     (if length rows > u16_max + 1 then Inl (LengthOverflow PayloadSegment)
      else let keyed = sort_key fst (zip (map key rows) [0..<length rows])
        in if list_ex (\<lambda>(a, b). fst a = fst b) (zip keyed (tl keyed))
           then Inl (NonCanonicalPayload ''duplicate palette entry'')
           else Inr (sort_key key rows,
             fold (\<lambda>(new, _, old) remap. remap[old := new]) (zip [0..<length keyed] keyed)
               (replicate (length keyed) 0)))"

definition remap_indices :: "u16 list \<Rightarrow> u16 list \<Rightarrow> wire_error + u16 list" where
  "remap_indices indices old_to_new =
     (if length indices \<noteq> wire_cells
      then Inl (NonCanonicalPayload (volume_reason ''index buffer''))
      else try_fold (\<lambda>old out. and_then (ok_or (get_index old_to_new old)
             (NonCanonicalPayload ''palette index exceeds palette length'')) (\<lambda>v. Inr (out @ [v])))
           indices [])"

definition solid_key :: "solid_entry \<Rightarrow> string \<times> string \<times> u32 \<times> u8 list" where
  "solid_key e = (se_block e, se_state_schema e, se_state_schema_version e, se_canonical_state_bytes e)"

definition fluid_key :: "fluid_entry \<Rightarrow> string \<times> string \<times> u32 \<times> u32" where
  "fluid_key e = (fe_fluid e, fe_state_schema e, fe_level e, fe_flow_tag e)"

definition canonicalize_solid ::
    "solid_entry list \<Rightarrow> u16 list \<Rightarrow> wire_error + (solid_entry list \<times> u16 list)" where
  "canonicalize_solid palette indices =
     (if palette = []
      then Inl (NonCanonicalPayload ''solid palette must contain at least one entry'')
      else and_then (sort_key_order solid_key palette) (\<lambda>(palette', order).
        and_then (remap_indices indices order) (\<lambda>indices'. Inr (palette', indices'))))"

definition canonicalize_fluid ::
    "fluid_entry list \<Rightarrow> u16 list \<Rightarrow> wire_error + (fluid_entry list \<times> u16 list)" where
  "canonicalize_fluid palette indices =
     (if palette = [] \<or> \<not> entry_is_empty (palette ! 0)
      then Inl (NonCanonicalPayload ''fluid palette index 0 must be Empty'')
      else if list_ex entry_is_empty (drop 1 palette)
      then Inl (NonCanonicalPayload ''Empty fluid may appear only at index zero'')
      else and_then (sort_key_order fluid_key (drop 1 palette)) (\<lambda>(rest, rest_remap).
        and_then (try_fold (\<lambda>(old_rest, new_rest) remap.
            and_then (ok_or (checked_add u16_max new_rest 1) (LengthOverflow PayloadSegment)) (\<lambda>new.
              if old_rest + 1 \<ge> length remap
              then Inl (NonCanonicalPayload ''fluid palette remap lost an entry'')
              else Inr (remap[old_rest + 1 := new])))
            (zip [0..<length rest_remap] rest_remap) (replicate (length rest_remap + 1) 0)) (\<lambda>remap.
        and_then (remap_indices indices remap) (\<lambda>indices'. Inr (palette ! 0 # rest, indices')))))"

subsection \<open>Validation\<close>

definition check_identifier_bytes :: "usize \<Rightarrow> wire_error + unit" where
  "check_identifier_bytes actual =
     (if actual > max_identifier_bytes
      then Inl (CodecBudgetExceeded IdentifierBytes actual max_identifier_bytes) else Inr ())"

definition require_numeric_tag :: "string \<Rightarrow> u16 \<Rightarrow> u16 list \<Rightarrow> wire_error + unit" where
  "require_numeric_tag field found allowed =
     (if found \<in> set allowed then Inr () else Inl (UnknownNumericTag field found))"

definition wire_schema_id :: "string \<Rightarrow> wire_error + versioned_id" where
  "wire_schema_id v =
     (case parse_schema_id v of
        Inl e \<Rightarrow> Inl (WireInvalidSchemaId (identifier_error_text e)) | Inr i \<Rightarrow> Inr i)"

definition unknown_schema :: "string \<Rightarrow> wire_error + unit" where
  "unknown_schema v = and_then (wire_schema_id v) (\<lambda>i. Inl (UnknownSchema i))"

text \<open>An exact registration identity: of the kind, without a major.\<close>

definition exact_identity :: "string \<Rightarrow> string \<Rightarrow> string \<Rightarrow> string \<Rightarrow> wire_error + unit" where
  "exact_identity kind malformed inexact v =
     (case parse_stable_id v of
        Inl e \<Rightarrow> Inl (MalformedPayload (malformed @ identifier_error_text e))
      | Inr i \<Rightarrow>
          ensure (sid_kind i = kind \<and> sid_major i = None) (NonCanonicalPayload inexact))"

text \<open>The loops carry the key of the previous entry.\<close>

definition check_solid_entry ::
    "solid_entry \<Rightarrow> (string \<times> string \<times> u32 \<times> u8 list) option
      \<Rightarrow> wire_error + (string \<times> string \<times> u32 \<times> u8 list) option" where
  "check_solid_entry e previous =
     and_then (check_identifier_bytes (length (se_block e))) (\<lambda>_.
     and_then (check_identifier_bytes (length (se_state_schema e))) (\<lambda>_.
     and_then (exact_identity ''block'' ''invalid solid palette block: ''
       ''solid palette block must be an exact block identity'' (se_block e)) (\<lambda>_.
     and_then (wire_schema_id (se_state_schema e)) (\<lambda>_.
     if se_state_schema_version e = 0 then Inl InvalidSchemaVersion
     else if (case previous of None \<Rightarrow> False | Some p \<Rightarrow> p \<ge> solid_key e)
     then Inl (NonCanonicalPayload ''solid palette is not strictly ordered'')
     else Inr (Some (solid_key e))))))"

definition validate_solid_palette :: "solid_entry list \<Rightarrow> wire_error + unit" where
  "validate_solid_palette palette =
     (if palette = []
      then Inl (NonCanonicalPayload ''solid palette must contain at least one entry'')
      else and_then (try_fold check_solid_entry palette None) (\<lambda>_. Inr ()))"

definition validate_empty_row :: "fluid_entry \<Rightarrow> wire_error + unit" where
  "validate_empty_row e =
     and_then (require_numeric_tag ''fluid.kind'' (fe_kind_tag e) [fluid_kind_empty]) (\<lambda>_.
     if fe_fluid e \<noteq> [] \<or> fe_state_schema e \<noteq> [] \<or> fe_state_schema_version e \<noteq> 0 \<or>
        fe_level e \<noteq> 0 \<or> fe_flow_tag e \<noteq> 0
     then Inl (NonCanonicalPayload ''empty fluid row must not carry identity or state'')
     else Inr ())"

definition check_fluid_entry ::
    "fluid_entry \<Rightarrow> (string \<times> u8 \<times> u16) option \<Rightarrow> wire_error + (string \<times> u8 \<times> u16) option" where
  "check_fluid_entry e previous =
     and_then (require_numeric_tag ''fluid.kind'' (fe_kind_tag e) [fluid_kind_fluid]) (\<lambda>_.
     and_then (require_numeric_tag ''fluid.flow'' (fe_flow_tag e) flow_tags) (\<lambda>_.
     if fe_level e > 7 then Inl (NonCanonicalPayload ''fluid level is outside 0..=7'')
     else
     and_then (check_identifier_bytes (length (fe_fluid e))) (\<lambda>_.
     and_then (check_identifier_bytes (length (fe_state_schema e))) (\<lambda>_.
     and_then (exact_identity ''fluid'' ''invalid fluid palette identity: ''
       ''fluid palette identity must be an exact fluid identity'' (fe_fluid e)) (\<lambda>_.
     and_then (if fe_state_schema e \<noteq> fluid_state_schema then unknown_schema (fe_state_schema e)
       else Inr ()) (\<lambda>_.
     if fe_state_schema_version e \<noteq> 1
     then Inl (UnsupportedSchemaVersion (fe_state_schema_version e) 1)
     else if (case previous of None \<Rightarrow> False
              | Some p \<Rightarrow> p \<ge> (fe_fluid e, fe_level e, fe_flow_tag e))
     then Inl (NonCanonicalPayload ''fluid palette is not strictly ordered'')
     else Inr (Some (fe_fluid e, fe_level e, fe_flow_tag e))))))))"

definition validate_fluid_palette :: "fluid_entry list \<Rightarrow> wire_error + unit" where
  "validate_fluid_palette palette =
     (if palette = [] \<or> \<not> entry_is_empty (palette ! 0)
      then Inl (NonCanonicalPayload ''fluid palette index 0 must be Empty'')
      else and_then (validate_empty_row (palette ! 0)) (\<lambda>_.
        and_then (try_fold check_fluid_entry (drop 1 palette) None) (\<lambda>_. Inr ())))"

definition unpacked_fluid :: "u8 list \<Rightarrow> usize \<Rightarrow> wire_error + u16 list" where
  "unpacked_fluid packed palette_len =
     (if packed = [] then Inr (replicate wire_cells 0) else unpack_indices packed palette_len)"

definition unpacked_solid_indices :: "palette_snapshot \<Rightarrow> wire_error + u16 list" where
  "unpacked_solid_indices s = unpack_indices (ps_packed_solid s) (length (ps_solid_palette s))"

definition unpacked_fluid_indices :: "palette_snapshot \<Rightarrow> wire_error + u16 list" where
  "unpacked_fluid_indices s = unpacked_fluid (ps_packed_fluid s) (length (ps_fluid_palette s))"

definition validate_snapshot :: "palette_snapshot \<Rightarrow> wire_error + unit" where
  "validate_snapshot s =
     (if ps_chunk_edge s \<noteq> wire_chunk_edge then Inl (NonCanonicalPayload ''chunk edge must be 32'')
      else if ps_chunk_revision s > ps_captured_world_revision s
      then Inl (NonCanonicalPayload ''chunk revision exceeds its captured world revision'')
      else if ps_voxel_revision s > ps_chunk_revision s
      then Inl (NonCanonicalPayload ''voxel revision exceeds the complete chunk revision'')
      else
      and_then (if ps_fluid_state_schema s \<noteq> fluid_state_schema
        then unknown_schema (ps_fluid_state_schema s) else Inr ()) (\<lambda>_.
      if ps_fluid_state_schema_version s \<noteq> 1
      then Inl (UnsupportedSchemaVersion (ps_fluid_state_schema_version s) 1)
      else
      and_then (check_identifier_bytes (length (ck_dimension (ps_key s)))) (\<lambda>_.
      and_then (check_identifier_bytes (length (ps_fluid_state_schema s))) (\<lambda>_.
      and_then (validate_solid_palette (ps_solid_palette s)) (\<lambda>_.
      and_then (validate_fluid_palette (ps_fluid_palette s)) (\<lambda>_.
      and_then (unpacked_solid_indices s) (\<lambda>_.
      and_then (unpacked_fluid_indices s) (\<lambda>fluid_indices.
      if ps_packed_fluid s = [] \<and> list_ex (\<lambda>i. i \<noteq> 0) fluid_indices
      then Inl (NonCanonicalPayload ''missing fluid layer is reserved for all-empty volumes'')
      else if ps_packed_fluid s \<noteq> [] \<and> list_all (\<lambda>i. i = 0) fluid_indices
      then Inl (NonCanonicalPayload ''all-empty fluid must omit the packed fluid section'')
      else Inr ()))))))))"

definition from_layers ::
    "chunk_key \<Rightarrow> world_revision \<Rightarrow> chunk_revision \<Rightarrow> u64 \<Rightarrow> solid_entry list \<Rightarrow> fluid_entry list
      \<Rightarrow> u16 list \<Rightarrow> u16 list \<Rightarrow> wire_error + palette_snapshot" where
  "from_layers key world_revision chunk_revision voxel_revision solid fluid solid_indices fluid_indices =
     and_then (canonicalize_solid solid solid_indices) (\<lambda>(solid', solid_indices').
     and_then (canonicalize_fluid fluid fluid_indices) (\<lambda>(fluid', fluid_indices').
     and_then (pack_indices solid_indices' (length solid')) (\<lambda>packed_solid.
     and_then (if list_all (\<lambda>i. i = 0) fluid_indices' then Inr []
       else pack_indices fluid_indices' (length fluid')) (\<lambda>packed_fluid.
     let snapshot =
       \<lparr>ps_key = key, ps_captured_world_revision = world_revision,
        ps_chunk_revision = chunk_revision, ps_voxel_revision = voxel_revision,
        ps_chunk_edge = wire_chunk_edge, ps_solid_palette = solid', ps_fluid_palette = fluid',
        ps_packed_solid = packed_solid, ps_packed_fluid = packed_fluid,
        ps_fluid_state_schema = fluid_state_schema, ps_fluid_state_schema_version = 1\<rparr>
     in and_then (validate_snapshot snapshot) (\<lambda>_. Inr snapshot)))))"

subsection \<open>Integers of the payload\<close>

record payload_cursor =
  pc_bytes :: "u8 list"
  pc_position :: usize

definition read_exact :: "usize \<Rightarrow> string \<Rightarrow> payload_cursor \<Rightarrow> wire_error + (u8 list \<times> payload_cursor)"
where
  "read_exact len section cur =
     and_then (ok_or (checked_add usize_max (pc_position cur) len)
       (MalformedPayload (section @ '' length overflow''))) (\<lambda>e.
     if e > length (pc_bytes cur) then Inl (MalformedPayload (''truncated '' @ section))
     else Inr (take len (drop (pc_position cur) (pc_bytes cur)), cur\<lparr>pc_position := e\<rparr>))"

text \<open>
  The loop over the ten indices; the first argument counts the rest of them. The shift of the
  last index keeps its value only because \<open>low\<close> is at most one there.
\<close>

fun read_varint_loop ::
    "nat \<Rightarrow> string \<Rightarrow> u64 \<Rightarrow> u64 \<Rightarrow> payload_cursor \<Rightarrow> wire_error + (u64 \<times> payload_cursor)" where
  "read_varint_loop 0 section maximum v cur =
     Inl (MalformedPayload (''unterminated '' @ section @ '' varint''))"
| "read_varint_loop (Suc n) section maximum v cur =
     (let index = 9 - n in
      and_then (read_exact 1 section cur) (\<lambda>(bytes, cur').
      let b = bytes ! 0; low = b AND 127 in
      if index = 9 \<and> low > 1
      then Inl (MalformedPayload (section @ '' varint overflows u64''))
      else let v' = v OR (push_bit (index * 7) low mod 2 ^ 64) in
        if b AND 128 = 0 then
          (if index > 0 \<and> low = 0
           then Inl (NonCanonicalPayload (section @ '' uses a redundant varint byte''))
           else if v' > maximum
           then Inl (MalformedPayload (section @ '' exceeds its fixed integer width''))
           else Inr (v', cur'))
        else read_varint_loop n section maximum v' cur'))"

definition read_varint ::
    "string \<Rightarrow> u64 \<Rightarrow> payload_cursor \<Rightarrow> wire_error + (u64 \<times> payload_cursor)" where
  "read_varint section maximum cur = read_varint_loop 10 section maximum 0 cur"

function varint_length :: "u64 \<Rightarrow> usize" where
  "varint_length v = (if v \<ge> 128 then varint_length (drop_bit 7 v) + 1 else 1)"
  by pat_completeness auto
termination
  by (relation "measure id") (auto simp: drop_bit_eq_div)

declare varint_length.simps [simp del]

end
