(* ===== verification/Palette_Bits.thy ===== *)
theory Palette_Bits
  imports Palette_Codec
begin

section \<open>Packed indices and their bits\<close>

text \<open>
  The packed bytes as a set of bit positions. Packing puts bit \<open>b\<close> of the index of a cell at
  position \<open>cell * width + b\<close>, unpacking reads it there, so each undoes the other.
\<close>

subsection \<open>The width\<close>

lemma ilog2_bounds: "0 < n \<Longrightarrow> 2 ^ ilog2 n \<le> n \<and> n < 2 ^ (ilog2 n + 1)"
proof (induction n rule: ilog2.induct)
  case (1 n)
  show ?case
  proof (cases "n < 2")
    case True
    with 1 have "n = 1" by simp
    then show ?thesis by (simp add: ilog2.simps)
  next
    case False
    with 1 have "2 ^ ilog2 (n div 2) \<le> n div 2 \<and> n div 2 < 2 ^ (ilog2 (n div 2) + 1)" by simp
    moreover have "ilog2 n = Suc (ilog2 (n div 2))" using False ilog2.simps [of n] by simp
    ultimately show ?thesis by (simp add: less_mult_imp_div_less) linarith
  qed
qed

lemma width_covers: "0 < len \<Longrightarrow> i < len \<Longrightarrow> i < 2 ^ palette_bit_width len"
proof -
  assume "0 < len" "i < len"
  then have "i \<le> max (len - 1) 1" by simp
  also have "max (len - 1) 1 < 2 ^ palette_bit_width len"
    unfolding palette_bit_width_def by (rule ilog2_bounds [THEN conjunct2]) simp
  finally show ?thesis .
qed

lemma width_pos: "0 < palette_bit_width len"
  by (simp add: palette_bit_width_def)

lemma width_u16:
  assumes "len \<le> 65536"
  shows "palette_bit_width len \<le> 16"
proof (rule ccontr)
  let ?n = "max (len - 1) 1"
  assume "\<not> palette_bit_width len \<le> 16"
  then have "16 \<le> ilog2 ?n" by (simp add: palette_bit_width_def)
  then have "(2 :: nat) ^ 16 \<le> 2 ^ ilog2 ?n" by (rule power_increasing) simp
  also have "\<dots> \<le> ?n" using ilog2_bounds [of ?n] by simp
  finally show False using assms by simp
qed

subsection \<open>Positions\<close>

definition get_bit :: "u8 list \<Rightarrow> nat \<Rightarrow> bool" where
  "get_bit packed p \<longleftrightarrow> bit (packed ! (p div 8)) (p mod 8)"

lemma and_power_bit: "a AND push_bit n 1 \<noteq> 0 \<longleftrightarrow> bit (a :: nat) n"
  by (simp add: push_bit_eq_mult and_exp_eq_0_iff_not_bit)

lemma bit_shifted_one: "bit (push_bit m (1 :: nat)) n \<longleftrightarrow> n = m"
  by (auto simp: push_bit_eq_mult bit_exp_iff)

lemma length_or_bit [simp]: "length (or_bit q packed) = length packed"
  by (simp add: or_bit_def)

lemma get_or_bit:
  assumes "q div 8 < length packed" and "p div 8 < length packed"
  shows "get_bit (or_bit q packed) p \<longleftrightarrow> get_bit packed p \<or> p = q"
proof -
  have "bit (push_bit (q mod 8) (1 :: nat)) (p mod 8) \<longleftrightarrow> p mod 8 = q mod 8"
    by (rule bit_shifted_one)
  moreover have "p = q \<longleftrightarrow> p div 8 = q div 8 \<and> p mod 8 = q mod 8" by (metis div_mult_mod_eq)
  ultimately show ?thesis
    using assms by (auto simp: get_bit_def or_bit_def nth_list_update bit_or_iff)
qed

lemma length_pack_bits:
  "length (fold (\<lambda>b pk. if P b then or_bit (off + b) pk else pk) bs packed) = length packed"
  by (induction bs arbitrary: packed) simp_all

lemma pack_bits:
  assumes "\<forall>b<w. (off + b) div 8 < length packed" and "p div 8 < length packed"
  shows "length (fold (\<lambda>b pk. if P b then or_bit (off + b) pk else pk) [0..<w] packed) = length packed \<and>
    (get_bit (fold (\<lambda>b pk. if P b then or_bit (off + b) pk else pk) [0..<w] packed) p \<longleftrightarrow>
     get_bit packed p \<or> (\<exists>b<w. P b \<and> p = off + b))"
  using assms
proof (induction w)
  case 0
  then show ?case by simp
next
  case (Suc w)
  let ?f = "fold (\<lambda>b pk. if P b then or_bit (off + b) pk else pk) [0..<w] packed"
  from Suc have IH: "length ?f = length packed"
      "get_bit ?f p \<longleftrightarrow> get_bit packed p \<or> (\<exists>b<w. P b \<and> p = off + b)"
    by simp_all
  have "get_bit (or_bit (off + w) ?f) p \<longleftrightarrow> get_bit ?f p \<or> p = off + w"
    using Suc.prems IH(1) by (intro get_or_bit) auto
  with IH show ?case by (auto simp: less_Suc_eq)
qed

lemma pack_loop:
  assumes "(k + length xs) * w \<le> 8 * length packed" and "8 * length packed \<le> usize_max"
  shows "(if \<forall>x\<in>set xs. x < len
    then \<exists>packed'. try_fold (pack_cell len w) (zip [k..<k + length xs] xs) packed = Inr packed' \<and>
      length packed' = length packed \<and>
      (\<forall>p<8 * length packed. get_bit packed' p \<longleftrightarrow>
         get_bit packed p \<or> (\<exists>j<length xs. \<exists>b<w. bit (xs ! j) b \<and> p = (k + j) * w + b))
    else \<exists>e. try_fold (pack_cell len w) (zip [k..<k + length xs] xs) packed = Inl e)"
  using assms
proof (induction xs arbitrary: k packed)
  case Nil
  then show ?case by simp
next
  case (Cons x xs)
  have zip: "zip [k..<k + length (x # xs)] (x # xs) = (k, x) # zip [Suc k..<Suc k + length xs] xs"
    by (simp add: upt_conv_Cons del: upt_Suc)
  have small: "(Suc k + length xs) * w \<le> 8 * length packed" using Cons.prems by simp
  show ?case
  proof (cases "x < len")
    case False
    then show ?thesis unfolding zip by (auto simp: pack_cell_def)
  next
    case True
    define mid where "mid = fold (\<lambda>b pk. if x AND push_bit b 1 \<noteq> 0 then or_bit (k * w + b) pk else pk) [0..<w] packed"
    have room: "k * w + w \<le> 8 * length packed"
      using small by (simp add: algebra_simps)
    have bits: "\<forall>b<w. (k * w + b) div 8 < length packed" using room by auto
    have len: "length mid = length packed"
      unfolding mid_def by (rule length_pack_bits)
    have mid: "get_bit mid p \<longleftrightarrow> get_bit packed p \<or> (\<exists>b<w. bit x b \<and> p = k * w + b)"
      if "p < 8 * length packed" for p
    proof -
      have "p div 8 < length packed" using that by simp
      from pack_bits [OF bits this, of "bit x"] show ?thesis unfolding mid_def and_power_bit by blast
    qed
    have "k * w \<le> usize_max" using room Cons.prems(2) by simp
    then have cell: "pack_cell len w (k, x) packed = Inr mid"
      using True by (simp add: pack_cell_def mid_def checked_mul_def)
    have split: "(\<exists>j<length (x # xs). \<exists>b<w. bit ((x # xs) ! j) b \<and> p = (k + j) * w + b) \<longleftrightarrow>
        (\<exists>b<w. bit x b \<and> p = k * w + b) \<or>
        (\<exists>j<length xs. \<exists>b<w. bit (xs ! j) b \<and> p = (Suc k + j) * w + b)" for p
    proof -
      have "(\<exists>j<Suc (length xs). Q j) \<longleftrightarrow> Q 0 \<or> (\<exists>j<length xs. Q (Suc j))" for Q
        by (auto simp: less_Suc_eq_0_disj)
      from this [of "\<lambda>j. \<exists>b<w. bit ((x # xs) ! j) b \<and> p = (k + j) * w + b"] show ?thesis by simp
    qed
    have "(Suc k + length xs) * w \<le> 8 * length mid" "8 * length mid \<le> usize_max"
      using small Cons.prems(2) len by simp_all
    note IH = Cons.IH [OF this]
    show ?thesis
    proof (cases "\<forall>x\<in>set xs. x < len")
      case False
      from IH [unfolded if_not_P [OF False]] obtain e where
          "try_fold (pack_cell len w) (zip [Suc k..<Suc k + length xs] xs) mid = Inl e" ..
      with cell have run: "try_fold (pack_cell len w) (zip [k..<k + length (x # xs)] (x # xs)) packed = Inl e"
        unfolding zip by simp
      have out: "\<not> (\<forall>y\<in>set (x # xs). y < len)" using False by simp
      show ?thesis unfolding if_not_P [OF out] using run by blast
    next
      case all: True
      from IH [unfolded if_P [OF all] len] obtain packed' where
          run: "try_fold (pack_cell len w) (zip [Suc k..<Suc k + length xs] xs) mid = Inr packed'" and
          l: "length packed' = length packed" and
          b: "\<forall>p<8 * length packed. get_bit packed' p \<longleftrightarrow>
            get_bit mid p \<or> (\<exists>j<length xs. \<exists>b<w. bit (xs ! j) b \<and> p = (Suc k + j) * w + b)"
        by blast
      have "\<forall>p<8 * length packed. get_bit packed' p \<longleftrightarrow>
          get_bit packed p \<or> (\<exists>j<length (x # xs). \<exists>b<w. bit ((x # xs) ! j) b \<and> p = (k + j) * w + b)"
      proof (intro allI impI)
        fix p
        assume p: "p < 8 * length packed"
        with b have "get_bit packed' p \<longleftrightarrow>
            get_bit mid p \<or> (\<exists>j<length xs. \<exists>b<w. bit (xs ! j) b \<and> p = (Suc k + j) * w + b)"
          by (simp only:)
        then show "get_bit packed' p \<longleftrightarrow> get_bit packed p \<or>
            (\<exists>j<length (x # xs). \<exists>b<w. bit ((x # xs) ! j) b \<and> p = (k + j) * w + b)"
          unfolding split mid [OF p] by (simp only: disj_assoc)
      qed
      moreover have inside: "\<forall>y\<in>set (x # xs). y < len" using all True by simp
      moreover have "try_fold (pack_cell len w) (zip [k..<k + length (x # xs)] (x # xs)) packed = Inr packed'"
        unfolding zip using cell run by simp
      ultimately show ?thesis using l unfolding if_P [OF inside] by blast
    qed
  qed
qed

lemma unpack_value_bit: "bit (unpack_value packed w c) b \<longleftrightarrow> b < w \<and> get_bit packed (c * w + b)"
proof -
  have "bit (fold (\<lambda>b v. if P b then v OR push_bit b 1 else v) [0..<w] (0 :: nat)) b \<longleftrightarrow> b < w \<and> P b"
    for w P
  proof (induction w)
    case (Suc w)
    let ?F = "fold (\<lambda>b v. if P b then v OR push_bit b 1 else v) [0..<w] (0 :: nat)"
    have step: "fold (\<lambda>b v. if P b then v OR push_bit b 1 else v) [0..<Suc w] 0 =
        (if P w then ?F OR push_bit w 1 else ?F)" by simp
    have "bit (if P w then ?F OR push_bit w 1 else ?F) b \<longleftrightarrow> bit ?F b \<or> P w \<and> b = w"
      by (simp only: bit_or_iff bit_shifted_one split: if_split) blast
    then show ?case unfolding step using Suc by (auto simp: less_Suc_eq)
  qed simp
  then show ?thesis unfolding unpack_value_def get_bit_def and_power_bit .
qed

lemma unpack_loop:
  "n \<le> m \<Longrightarrow> (if \<forall>c<n. unpack_value packed w c < len
     then try_fold (unpack_cell packed len w) [0..<n] (replicate m 0) =
       Inr (map (unpack_value packed w) [0..<n] @ replicate (m - n) 0)
     else \<exists>e. try_fold (unpack_cell packed len w) [0..<n] (replicate m 0) = Inl e)"
proof (induction n)
  case 0
  then show ?case by simp
next
  case (Suc n)
  let ?v = "unpack_value packed w"
  show ?case
  proof (cases "\<forall>c<n. ?v c < len")
    case False
    with Suc obtain e where "try_fold (unpack_cell packed len w) [0..<n] (replicate m 0) = Inl e" by auto
    with False show ?thesis by (auto simp: try_fold_append less_Suc_eq)
  next
    case True
    with Suc have run: "try_fold (unpack_cell packed len w) [0..<n] (replicate m 0) =
        Inr (map ?v [0..<n] @ replicate (m - n) 0)" by simp
    have "m - n = Suc (m - Suc n)" using Suc.prems by simp
    then have "(map ?v [0..<n] @ replicate (m - n) 0)[n := ?v n] =
        map ?v [0..<Suc n] @ replicate (m - Suc n) 0"
      by (simp add: list_update_append)
    with run have "try_fold (unpack_cell packed len w) [0..<Suc n] (replicate m 0) =
        (if ?v n < len then Inr (map ?v [0..<Suc n] @ replicate (m - Suc n) 0)
         else Inl (NonCanonicalPayload ''decoded palette index exceeds palette length''))"
      by (simp add: try_fold_append unpack_cell_def [of packed len w n])
    with True show ?thesis by (auto simp: less_Suc_eq)
  qed
qed

subsection \<open>Packing and unpacking\<close>

lemma packed_size:
  assumes "w \<le> 16"
  shows "checked_mul usize_max wire_cells w = Some (wire_cells * w)"
    and "8 * div_ceil (wire_cells * w) 8 = wire_cells * w"
    and "8 * div_ceil (wire_cells * w) 8 \<le> usize_max"
proof -
  have "wire_cells * w \<le> 32768 * 16" using assms by (simp add: wire_cells_def)
  then have "wire_cells * w \<le> usize_max" by (simp add: usize_max_def)
  then show "checked_mul usize_max wire_cells w = Some (wire_cells * w)" by (simp add: checked_mul_def)
  show eq: "8 * div_ceil (wire_cells * w) 8 = wire_cells * w"
    by (simp add: div_ceil_def wire_cells_def)
  show "8 * div_ceil (wire_cells * w) 8 \<le> usize_max"
    unfolding eq by fact
qed

lemma pack_indices_cases:
  assumes "len \<le> 65536" and "length xs = wire_cells"
  shows "(if \<forall>x\<in>set xs. x < len
    then \<exists>packed. pack_indices xs len = Inr packed \<and>
      8 * length packed = wire_cells * palette_bit_width len \<and>
      (\<forall>p<8 * length packed. get_bit packed p \<longleftrightarrow>
         (\<exists>j<wire_cells. \<exists>b<palette_bit_width len. bit (xs ! j) b \<and> p = j * palette_bit_width len + b))
    else \<exists>e. pack_indices xs len = Inl e)"
proof -
  let ?w = "palette_bit_width len"
  note size = packed_size [OF width_u16 [OF assms(1)]]
  let ?z = "replicate (div_ceil (wire_cells * ?w) 8) (0 :: nat)"
  have "(0 + length xs) * ?w \<le> 8 * length ?z" "8 * length ?z \<le> usize_max"
    using size assms(2) by simp_all
  note loop = pack_loop [OF this, of len]
  have "\<not> get_bit ?z p" if "p < 8 * length ?z" for p
    using that by (simp add: get_bit_def div_less_iff_less_mult)
  with loop size assms show ?thesis
    by (auto simp: pack_indices_def Let_def split: if_splits)
qed

lemma unpack_indices_Inr:
  assumes "len \<le> 65536"
  shows "unpack_indices packed len = Inr xs \<longleftrightarrow> 8 * length packed = wire_cells * palette_bit_width len \<and>
    (\<forall>c<wire_cells. unpack_value packed (palette_bit_width len) c < len) \<and>
    xs = map (unpack_value packed (palette_bit_width len)) [0..<wire_cells]"
proof -
  let ?w = "palette_bit_width len"
  note size = packed_size [OF width_u16 [OF assms(1)]]
  have "length packed = div_ceil (wire_cells * ?w) 8 \<longleftrightarrow> 8 * length packed = wire_cells * ?w"
    using size(2) by auto
  with size(1) unpack_loop [of wire_cells wire_cells packed ?w len] show ?thesis
    by (auto simp: unpack_indices_def Let_def split: if_splits)
qed

lemma position_inject:
  assumes "b < w" "b' < w" "j * w + b = j' * w + (b' :: nat)"
  shows "j = j' \<and> b = b'"
proof -
  have "(j * w + b) div w = j" "(j' * w + b') div w = j'" using assms(1,2) by simp_all
  with assms(3) show ?thesis by simp
qed

lemma position_bound: "j < n \<Longrightarrow> b < w \<Longrightarrow> j * w + b < n * (w :: nat)"
proof -
  assume "j < n" "b < w"
  then have "j * w + b < Suc j * w" by simp
  also have "\<dots> \<le> n * w" using \<open>j < n\<close> by (intro mult_le_mono1) simp
  finally show ?thesis .
qed

lemma unpack_pack:
  assumes "len \<le> 65536" and "pack_indices xs len = Inr packed"
  shows "unpack_indices packed len = Inr xs"
proof -
  let ?w = "palette_bit_width len"
  have xs: "length xs = wire_cells"
    using assms(2) by (auto simp: pack_indices_def split: if_splits)
  from pack_indices_cases [OF assms(1) xs] assms(2) have
      all: "\<forall>x\<in>set xs. x < len" and
      size: "8 * length packed = wire_cells * ?w" and
      bits: "\<forall>p<8 * length packed. get_bit packed p \<longleftrightarrow>
        (\<exists>j<wire_cells. \<exists>b<?w. bit (xs ! j) b \<and> p = j * ?w + b)"
    by (auto split: if_splits)
  have v: "unpack_value packed ?w c = xs ! c" if c: "c < wire_cells" for c
  proof (rule bit_eqI)
    fix b
    show "bit (unpack_value packed ?w c) b \<longleftrightarrow> bit (xs ! c) b"
    proof (cases "b < ?w")
      case True
      have "c * ?w + b < 8 * length packed" unfolding size by (rule position_bound [OF c True])
      with bits have "get_bit packed (c * ?w + b) \<longleftrightarrow>
          (\<exists>j<wire_cells. \<exists>b'<?w. bit (xs ! j) b' \<and> c * ?w + b = j * ?w + b')" by blast
      also have "\<dots> \<longleftrightarrow> bit (xs ! c) b" using c True position_inject by blast
      finally show ?thesis using True by (simp add: unpack_value_bit)
    next
      case False
      have "xs ! c < len" using all c xs by simp
      then have "xs ! c < 2 ^ ?w" by (intro width_covers) simp_all
      also have "\<dots> \<le> 2 ^ b" using False by (intro power_increasing) simp_all
      finally have "\<not> bit (xs ! c) b" by (simp add: bit_iff_odd)
      with False show ?thesis by (simp add: unpack_value_bit)
    qed
  qed
  have "xs = map (unpack_value packed ?w) [0..<wire_cells]"
    using v xs by (intro nth_equalityI) simp_all
  moreover have "\<forall>c<wire_cells. unpack_value packed ?w c < len" using v all xs by simp
  ultimately show ?thesis unfolding unpack_indices_Inr [OF assms(1)] using size by blast
qed

lemma pack_indices_succeeds:
  assumes "len \<le> 65536" and "length xs = wire_cells" and "\<forall>x\<in>set xs. x < len"
  shows "\<exists>packed. pack_indices xs len = Inr packed"
  using pack_indices_cases [OF assms(1,2)] assms(3) by auto

lemma pack_indices_range:
  assumes "len \<le> 65536" and "pack_indices xs len = Inr packed"
  shows "length xs = wire_cells \<and> (\<forall>x\<in>set xs. x < len) \<and> packed \<noteq> []"
proof -
  have xs: "length xs = wire_cells"
    using assms(2) by (auto simp: pack_indices_def split: if_splits)
  from pack_indices_cases [OF assms(1) xs] assms(2) xs width_pos [of len] show ?thesis
    by (auto simp: wire_cells_def split: if_splits)
qed

end
