(* ===== verification/Palette_Properties.thy ===== *)
theory Palette_Properties
  imports Palette_Bits
begin

section \<open>Properties of palette snapshots\<close>

text \<open>
  Sorting a palette and renaming its indices keeps every cell, and the snapshot of a chunk does not
  depend on the order of its palettes.
\<close>

subsection \<open>Sorted palettes\<close>

lemma sorted_distinct_eq:
  fixes xs ys :: "'a::linorder list"
  shows "sorted xs \<Longrightarrow> sorted ys \<Longrightarrow> distinct xs \<Longrightarrow> distinct ys \<Longrightarrow> set xs = set ys \<Longrightarrow> xs = ys"
  by (rule sorted_distinct_set_unique)

lemma map_eq_inj:
  assumes "map f xs = map f ys" and "inj_on f (set xs \<union> set ys)"
  shows "xs = ys"
  using assms by (rule map_inj_on)

lemma sort_key_unique:
  assumes "distinct (map key xs)" and "distinct (map key ys)" and "set xs = set ys"
  shows "sort_key key xs = sort_key key ys"
proof (rule map_eq_inj)
  show "map key (sort_key key xs) = map key (sort_key key ys)"
    using assms by (intro sorted_distinct_eq)
      (simp_all add: distinct_map inj_on_def)
  show "inj_on key (set (sort_key key xs) \<union> set (sort_key key ys))"
    using assms by (simp add: distinct_map)
qed

lemma adjacent_distinct:
  fixes ps :: "('k::linorder \<times> 'b) list"
  assumes "sorted (map fst ps)" and "\<not> list_ex (\<lambda>(a, b). fst a = fst b) (zip ps (tl ps))"
  shows "distinct (map fst ps)"
  using assms
proof (induction ps)
  case Nil
  then show ?case by simp
next
  case (Cons p ps)
  show ?case
  proof (cases ps)
    case Nil
    then show ?thesis by simp
  next
    case (Cons q qs)
    with Cons.prems have "fst p \<noteq> fst q" "distinct (map fst ps)"
      using Cons.IH by auto
    moreover have "fst p < fst r" if "r \<in> set ps" for r
      using Cons.prems(1) Cons that \<open>fst p \<noteq> fst q\<close> by fastforce
    ultimately show ?thesis by force
  qed
qed

lemma fold_remap:
  assumes "distinct (map snd ps)" and "\<forall>p\<in>set ps. snd p < length r"
  shows "length (fold (\<lambda>(new, _, old) r. r[old := new]) (zip [k..<k + length ps] ps) r) = length r \<and>
    (\<forall>i<length ps. fold (\<lambda>(new, _, old) r. r[old := new]) (zip [k..<k + length ps] ps) r ! snd (ps ! i) = k + i) \<and>
    (\<forall>o'. o' \<notin> snd ` set ps \<longrightarrow>
      fold (\<lambda>(new, _, old) r. r[old := new]) (zip [k..<k + length ps] ps) r ! o' = r ! o')"
  using assms
proof (induction ps arbitrary: k r)
  case Nil
  then show ?case by simp
next
  case (Cons p ps)
  let ?F = "\<lambda>k ps r. fold (\<lambda>(new, _, old) r. r[old := new]) (zip [k..<k + length ps] ps) r"
  have step: "?F k (p # ps) r = ?F (Suc k) ps (r[snd p := k])"
    by (cases p) (simp add: upt_conv_Cons del: upt_Suc)
  have "distinct (map snd ps)" "\<forall>p\<in>set ps. snd p < length (r[snd p := k])" using Cons.prems by simp_all
  note IH = Cons.IH [of "r[snd p := k]" "Suc k"]
  have IH': "length (?F (Suc k) ps (r[snd p := k])) = length r \<and>
      (\<forall>i<length ps. ?F (Suc k) ps (r[snd p := k]) ! snd (ps ! i) = Suc k + i) \<and>
      (\<forall>o'. o' \<notin> snd ` set ps \<longrightarrow> ?F (Suc k) ps (r[snd p := k]) ! o' = r[snd p := k] ! o')"
    using IH Cons.prems by simp
  have "snd p \<notin> snd ` set ps" "snd p < length r" using Cons.prems by auto
  with IH' show ?case
    unfolding step by (auto simp: nth_Cons less_Suc_eq_0_disj split: nat.splits)
qed

lemma sort_key_order_Inr:
  assumes "sort_key_order key rows = Inr (rows', remap)"
  shows "length rows \<le> 65536" "distinct (map key rows)" "rows' = sort_key key rows"
    "length remap = length rows" "\<forall>i<length rows. remap ! i < length rows \<and> rows' ! (remap ! i) = rows ! i"
proof -
  define pairs where "pairs = zip (map key rows) [0..<length rows]"
  define keyed where "keyed = sort_key fst pairs"
  from assms have size: "length rows \<le> 65536"
    and dup: "\<not> list_ex (\<lambda>(a, b). fst a = fst b) (zip keyed (tl keyed))"
    and rows': "rows' = sort_key key rows"
    and remap: "remap = fold (\<lambda>(new, _, old) remap. remap[old := new]) (zip [0..<length keyed] keyed)
        (replicate (length keyed) 0)"
    by (auto simp: sort_key_order_def Let_def keyed_def pairs_def u16_max_def split: if_splits)
  have len: "length keyed = length rows" by (simp add: keyed_def pairs_def)
  have set: "set keyed = (\<lambda>i. (key (rows ! i), i)) ` {..<length rows}"
    by (force simp: keyed_def pairs_def set_zip image_iff)
  have dk: "distinct (map fst keyed)"
    by (rule adjacent_distinct [OF _ dup]) (simp add: keyed_def)
  have "distinct (map fst pairs)"
    using dk by (simp add: keyed_def distinct_map)
  then show dist: "distinct (map key rows)" by (simp add: pairs_def map_fst_zip)
  have "distinct (map snd pairs)" by (simp add: pairs_def map_snd_zip)
  then have ds: "distinct (map snd keyed)" by (simp add: keyed_def distinct_map)
  have "map key rows' = map fst keyed"
  proof (rule sorted_distinct_eq)
    show "sorted (map key rows')" by (simp add: rows')
    show "sorted (map fst keyed)" by (simp add: keyed_def)
    show "distinct (map key rows')" using dist by (simp add: rows' distinct_map)
    show "distinct (map fst keyed)" by (rule dk)
    have "set rows = (!) rows ` {..<length rows}" by (auto simp: set_conv_nth)
    then show "set (map key rows') = set (map fst keyed)" by (simp add: rows' set image_image)
  qed
  then have keys: "key (rows' ! j) = fst (keyed ! j)" if "j < length rows" for j
    using that len by (metis length_map nth_map length_sort rows')
  have row: "rows' ! j = rows ! snd (keyed ! j)" if j: "j < length rows" for j
  proof -
    have "keyed ! j \<in> set keyed" using j len by simp
    then have "fst (keyed ! j) = key (rows ! snd (keyed ! j))" "snd (keyed ! j) < length rows"
      unfolding set by auto
    moreover have "rows' ! j \<in> set rows" using j by (metis length_sort nth_mem rows' set_sort)
    ultimately show ?thesis
      using keys [OF j] dist by (metis distinct_map inj_onD nth_mem)
  qed
  have bound: "\<forall>p\<in>set keyed. snd p < length (replicate (length keyed) (0 :: nat))"
    using set len by auto
  note F = fold_remap [OF ds bound, of 0]
  have F': "length remap = length keyed" "\<forall>i<length keyed. remap ! snd (keyed ! i) = i"
    using F by (simp_all add: remap)
  show "length rows \<le> 65536" "rows' = sort_key key rows" by (rule size, rule rows')
  show "length remap = length rows" using F'(1) len by simp
  show "\<forall>i<length rows. remap ! i < length rows \<and> rows' ! (remap ! i) = rows ! i"
  proof (intro allI impI)
    fix i
    assume i: "i < length rows"
    then have "(key (rows ! i), i) \<in> set keyed" unfolding set by auto
    then obtain j where "j < length keyed" "keyed ! j = (key (rows ! i), i)"
      by (auto simp: in_set_conv_nth)
    with F'(2) row len show "remap ! i < length rows \<and> rows' ! (remap ! i) = rows ! i"
      by (metis snd_conv)
  qed
qed

lemma remap_indices_Inr:
  "remap_indices xs r = Inr ys \<longleftrightarrow> length xs = wire_cells \<and> (\<forall>x\<in>set xs. x < length r) \<and> ys = map ((!) r) xs"
proof -
  have "try_fold (\<lambda>old out. and_then (ok_or (get_index r old) e) (\<lambda>v. Inr (out @ [v]))) xs acc = Inr ys \<longleftrightarrow>
      (\<forall>x\<in>set xs. x < length r) \<and> ys = acc @ map ((!) r) xs" for acc and e :: wire_error
    by (induction xs arbitrary: acc) (auto simp: result_simps)
  from this [of _ "[]"] show ?thesis by (simp add: remap_indices_def)
qed

text \<open>What a canonical layer keeps: the row every cell points to.\<close>

definition same_cells :: "'a list \<Rightarrow> u16 list \<Rightarrow> 'a list \<Rightarrow> u16 list \<Rightarrow> bool" where
  "same_cells rows xs rows' ys \<longleftrightarrow> length xs = wire_cells \<and> length ys = wire_cells \<and>
     (\<forall>c<wire_cells. xs ! c < length rows \<and> ys ! c < length rows' \<and> rows' ! (ys ! c) = rows ! (xs ! c))"

lemma same_cells_map:
  assumes "remap_indices xs r = Inr ys" and "length r = length rows"
    and "\<forall>i<length rows. r ! i < length rows' \<and> rows' ! (r ! i) = rows ! i"
  shows "same_cells rows xs rows' ys"
  using assms by (auto simp: remap_indices_Inr same_cells_def)

lemma canonicalize_solid_Inr:
  assumes "canonicalize_solid rows xs = Inr (rows', ys)"
  shows "rows' = sort_key solid_key rows" "distinct (map solid_key rows)" "same_cells rows xs rows' ys"
    "length rows' \<le> 65536"
proof -
  from assms obtain order where o: "sort_key_order solid_key rows = Inr (rows', order)"
      "remap_indices xs order = Inr ys"
    by (auto simp: canonicalize_solid_def result_simps split: if_splits)
  note s = sort_key_order_Inr [OF o(1)]
  show "rows' = sort_key solid_key rows" "distinct (map solid_key rows)" by (rule s(3), rule s(2))
  show "same_cells rows xs rows' ys" using same_cells_map [OF o(2) s(4)] s(3,5) by simp
  show "length rows' \<le> 65536" using s(1,3) by simp
qed

lemma shift_remap:
  "try_fold (\<lambda>(old_rest, new_rest) remap.
       and_then (ok_or (checked_add u16_max new_rest 1) e) (\<lambda>new.
         if old_rest + 1 \<ge> length remap then Inl e' else Inr (remap[old_rest + 1 := new])))
     (zip [k..<k + length rr] rr) r = Inr remap \<Longrightarrow> length r = k + 1 + length rr \<Longrightarrow>
   remap = take (k + 1) r @ map Suc rr \<and> (\<forall>x\<in>set rr. x < u16_max)"
proof (induction rr arbitrary: k r)
  case Nil
  then show ?case by simp
next
  case (Cons x rr)
  let ?f = "\<lambda>(old_rest, new_rest) remap.
       and_then (ok_or (checked_add u16_max new_rest 1) e) (\<lambda>new.
         if old_rest + 1 \<ge> length remap then Inl e' else Inr (remap[old_rest + 1 := new]))"
  have zip: "zip [k..<k + length (x # rr)] (x # rr) = (k, x) # zip [Suc k..<Suc k + length rr] rr"
    by (simp add: upt_conv_Cons del: upt_Suc)
  from Cons.prems(1) obtain mid where mid: "?f (k, x) r = Inr mid"
      "try_fold ?f (zip [Suc k..<Suc k + length rr] rr) mid = Inr remap"
    unfolding zip try_fold.simps and_then_Inr by blast
  from mid(1) have x: "x + 1 \<le> u16_max" "mid = r[k + 1 := x + 1]"
    by (auto simp: result_simps checked_simps split: if_splits)
  have "length mid = Suc k + 1 + length rr" using Cons.prems(2) x by simp
  from Cons.IH [OF mid(2) this] have IH: "remap = take (Suc k + 1) mid @ map Suc rr" "\<forall>y\<in>set rr. y < u16_max"
    by simp_all
  have "take (Suc k + 1) mid = take (k + 1) r @ [Suc x]"
    using Cons.prems(2) x by (simp add: take_Suc_conv_app_nth)
  with IH x show ?case by simp
qed

lemma and_then_pair:
  "and_then r (\<lambda>(a, b). f a b) = Inr d \<longleftrightarrow> (\<exists>a b. r = Inr (a, b) \<and> f a b = Inr d)"
  by (auto simp: and_then_Inr)

lemma guarded_Inr: "(if P then Inl e else r) = Inr d \<longleftrightarrow> \<not> P \<and> r = Inr d"
  by simp

lemma canonicalize_fluid_Inr:
  assumes "canonicalize_fluid rows xs = Inr (rows', ys)"
  shows "rows \<noteq> []" "entry_is_empty (rows ! 0)" "\<forall>e\<in>set (drop 1 rows). \<not> entry_is_empty e"
    "rows' = rows ! 0 # sort_key fluid_key (drop 1 rows)" "distinct (map fluid_key (drop 1 rows))"
    "same_cells rows xs rows' ys" "length rows' \<le> 65536"
proof -
  from assms obtain rest rr remap where o: "rows \<noteq> []" "entry_is_empty (rows ! 0)"
      "\<not> list_ex entry_is_empty (drop 1 rows)"
      "sort_key_order fluid_key (drop 1 rows) = Inr (rest, rr)"
      "try_fold (\<lambda>(old_rest, new_rest) remap.
          and_then (ok_or (checked_add u16_max new_rest 1) (LengthOverflow PayloadSegment)) (\<lambda>new.
            if old_rest + 1 \<ge> length remap
            then Inl (NonCanonicalPayload ''fluid palette remap lost an entry'')
            else Inr (remap[old_rest + 1 := new])))
          (zip [0..<length rr] rr) (replicate (length rr + 1) 0) = Inr remap"
      "remap_indices xs remap = Inr ys" "rows' = rows ! 0 # rest"
    unfolding canonicalize_fluid_def guarded_Inr and_then_pair
    by (force simp only: and_then_Inr sum.inject prod.inject de_Morgan_disj not_not)
  note s = sort_key_order_Inr [OF o(4)]
  have "try_fold (\<lambda>(old_rest, new_rest) remap.
          and_then (ok_or (checked_add u16_max new_rest 1) (LengthOverflow PayloadSegment)) (\<lambda>new.
            if old_rest + 1 \<ge> length remap
            then Inl (NonCanonicalPayload ''fluid palette remap lost an entry'')
            else Inr (remap[old_rest + 1 := new])))
          (zip [0..<0 + length rr] rr) (replicate (length rr + 1) 0) = Inr remap"
    using o(5) by (simp only: add_0)
  from shift_remap [OF this] have remap: "remap = 0 # map Suc rr" and small: "\<forall>x\<in>set rr. x < u16_max"
    by simp_all
  have n: "length rr = length rows - 1" "length rest = length rows - 1" using s(3,4) by simp_all
  have "rr ! i = rr ! j \<Longrightarrow> i = j" if "i < length rr" "j < length rr" for i j
    using s(2,4,5) that by (metis distinct_map nth_eq_iff_index_eq)
  then have "distinct rr" by (auto simp: distinct_conv_nth)
  then have "length rr = card (set rr)" by (simp add: distinct_card)
  also have "\<dots> \<le> card {..<u16_max}" using small by (intro card_mono) auto
  finally have "length rr \<le> u16_max" by simp
  then show "length rows' \<le> 65536" using n o(1,7) by (simp add: u16_max_def)
  show "rows \<noteq> []" "entry_is_empty (rows ! 0)" by (rule o)+
  show "\<forall>e\<in>set (drop 1 rows). \<not> entry_is_empty e" using o(3) by (simp add: list_ex_iff)
  show "rows' = rows ! 0 # sort_key fluid_key (drop 1 rows)" using o(7) s(3) by simp
  show "distinct (map fluid_key (drop 1 rows))" by (rule s(2))
  have "\<forall>i<length rows. remap ! i < length rows' \<and> rows' ! (remap ! i) = rows ! i"
  proof (intro allI impI)
    fix i
    assume i: "i < length rows"
    show "remap ! i < length rows' \<and> rows' ! (remap ! i) = rows ! i"
    proof (cases i)
      case 0
      then show ?thesis by (simp add: remap o(7))
    next
      case (Suc j)
      then have "j < length (drop 1 rows)" using i by simp
      with s(5) have "rr ! j < length (drop 1 rows)" "rest ! (rr ! j) = drop 1 rows ! j" by blast+
      with i Suc n show ?thesis by (simp add: remap o(7))
    qed
  qed
  moreover have "length remap = length rows" using n o(1) by (simp add: remap)
  ultimately show "same_cells rows xs rows' ys" by (intro same_cells_map [OF o(6)])
qed

subsection \<open>Snapshots\<close>

lemma from_layers_Inr:
  assumes "from_layers key w c v solid fluid si fi = Inr s"
  obtains si' fi' where
    "canonicalize_solid solid si = Inr (ps_solid_palette s, si')"
    "canonicalize_fluid fluid fi = Inr (ps_fluid_palette s, fi')"
    "pack_indices si' (length (ps_solid_palette s)) = Inr (ps_packed_solid s)"
    "(if list_all (\<lambda>i. i = 0) fi' then Inr [] else pack_indices fi' (length (ps_fluid_palette s)))
       = Inr (ps_packed_fluid s)"
    "s = \<lparr>ps_key = key, ps_captured_world_revision = w, ps_chunk_revision = c,
        ps_voxel_revision = v, ps_chunk_edge = wire_chunk_edge, ps_solid_palette = ps_solid_palette s,
        ps_fluid_palette = ps_fluid_palette s, ps_packed_solid = ps_packed_solid s,
        ps_packed_fluid = ps_packed_fluid s, ps_fluid_state_schema = fluid_state_schema,
        ps_fluid_state_schema_version = 1\<rparr>"
proof -
  from assms obtain solid' si' fluid' fi' packed_solid packed_fluid where
      r: "canonicalize_solid solid si = Inr (solid', si')"
        "canonicalize_fluid fluid fi = Inr (fluid', fi')"
        "pack_indices si' (length solid') = Inr packed_solid"
        "(if list_all (\<lambda>i. i = 0) fi' then Inr [] else pack_indices fi' (length fluid')) = Inr packed_fluid"
      and s: "s = \<lparr>ps_key = key, ps_captured_world_revision = w, ps_chunk_revision = c,
        ps_voxel_revision = v, ps_chunk_edge = wire_chunk_edge, ps_solid_palette = solid',
        ps_fluid_palette = fluid', ps_packed_solid = packed_solid,
        ps_packed_fluid = packed_fluid, ps_fluid_state_schema = fluid_state_schema,
        ps_fluid_state_schema_version = 1\<rparr>"
    unfolding from_layers_def Let_def and_then_pair unfolding and_then_pair
    unfolding and_then_Inr by (auto simp only: sum.inject)
  have p: "ps_solid_palette s = solid'" "ps_fluid_palette s = fluid'"
      "ps_packed_solid s = packed_solid" "ps_packed_fluid s = packed_fluid"
    by (simp_all add: s)
  show ?thesis by (rule that [of si' fi'], unfold p) (rule r s)+
qed

lemma from_layers_unpack:
  assumes "from_layers key w c v solid fluid si fi = Inr s"
  obtains si' fi' where "unpacked_solid_indices s = Inr si'" "unpacked_fluid_indices s = Inr fi'"
    "canonicalize_solid solid si = Inr (ps_solid_palette s, si')"
    "canonicalize_fluid fluid fi = Inr (ps_fluid_palette s, fi')"
proof -
  obtain si' fi' where r: "canonicalize_solid solid si = Inr (ps_solid_palette s, si')"
      "canonicalize_fluid fluid fi = Inr (ps_fluid_palette s, fi')"
      "pack_indices si' (length (ps_solid_palette s)) = Inr (ps_packed_solid s)"
      "(if list_all (\<lambda>i. i = 0) fi' then Inr [] else pack_indices fi' (length (ps_fluid_palette s)))
         = Inr (ps_packed_fluid s)"
    by (rule from_layers_Inr [OF assms])
  note solid = canonicalize_solid_Inr [OF r(1)] and fluid = canonicalize_fluid_Inr [OF r(2)]
  have "unpacked_solid_indices s = Inr si'"
    unfolding unpacked_solid_indices_def by (rule unpack_pack [OF solid(4) r(3)])
  moreover have "unpacked_fluid_indices s = Inr fi'"
  proof (cases "list_all (\<lambda>i. i = 0) fi'")
    case True
    have "length fi' = wire_cells" using fluid(6) by (simp add: same_cells_def)
    with True have "fi' = replicate wire_cells 0"
      by (intro nth_equalityI) (auto simp: list_all_length)
    with True r(4) show ?thesis by (simp add: unpacked_fluid_indices_def unpacked_fluid_def)
  next
    case False
    with r(4) have p: "pack_indices fi' (length (ps_fluid_palette s)) = Inr (ps_packed_fluid s)" by simp
    from unpack_pack [OF fluid(7) p] pack_indices_range [OF fluid(7) p] show ?thesis
      by (simp add: unpacked_fluid_indices_def unpacked_fluid_def)
  qed
  ultimately show ?thesis using that r(1,2) by blast
qed

lemma same_cells_unique:
  assumes "same_cells rows xs rows' ys" and "same_cells rows2 xs2 rows' ys2" and "distinct rows'"
    and "\<forall>c<wire_cells. rows ! (xs ! c) = rows2 ! (xs2 ! c)"
  shows "ys = ys2"
proof (rule nth_equalityI)
  show "length ys = length ys2" using assms(1,2) by (simp add: same_cells_def)
next
  fix c
  assume "c < length ys"
  then have "c < wire_cells" using assms(1) by (simp add: same_cells_def)
  with assms show "ys ! c = ys2 ! c" unfolding same_cells_def by (metis nth_eq_iff_index_eq)
qed

subsection \<open>Witnesses\<close>

text \<open>A chunk of air: two solid rows, only one of them used, and no fluid.\<close>

definition air_row :: solid_entry where
  "air_row = \<lparr>se_block = ''fixture:block/air'', se_state_schema = ''fixture:schema/block-state@1'',
     se_state_schema_version = 1, se_canonical_state_bytes = []\<rparr>"

definition stone_row :: solid_entry where
  "stone_row = \<lparr>se_block = ''fixture:block/stone'', se_state_schema = ''fixture:schema/block-state@1'',
     se_state_schema_version = 1, se_canonical_state_bytes = [7]\<rparr>"

definition sample_chunk :: chunk_key where
  "sample_chunk = ChunkKey 7 ''fixture:dimension/surface'' (ChunkCoordinate 0 (-1) 2)"

lemma sample_palettes:
  "solid_key air_row < solid_key stone_row"
  "validate_solid_palette [air_row, stone_row] = Inr ()"
  "validate_fluid_palette [empty_fluid_entry] = Inr ()"
  "sort_key_order solid_key [air_row, stone_row] = Inr ([air_row, stone_row], [0, 1])"
  "sort_key_order solid_key [stone_row, air_row] = Inr ([air_row, stone_row], [1, 0])"
  "sort_key_order fluid_key [] = Inr ([], [])"
  "entry_is_empty empty_fluid_entry"
  "check_identifier_bytes (length (ck_dimension sample_chunk)) = Inr ()"
  "check_identifier_bytes (length fluid_state_schema) = Inr ()"
  by code_simp+

lemma sample_fluid:
  "canonicalize_fluid [empty_fluid_entry] (replicate wire_cells 0)
     = Inr ([empty_fluid_entry], replicate wire_cells 0)"
  by (simp add: canonicalize_fluid_def sample_palettes remap_indices_Inr and_then_Inr)

lemma sample_solid:
  "canonicalize_solid [air_row, stone_row] (replicate wire_cells 0)
     = Inr ([air_row, stone_row], replicate wire_cells 0)"
  "canonicalize_solid [stone_row, air_row] (replicate wire_cells 1)
     = Inr ([air_row, stone_row], replicate wire_cells 0)"
  by (simp_all add: canonicalize_solid_def sample_palettes remap_indices_Inr and_then_Inr)

lemma sample_snapshot:
  assumes "canonicalize_solid solid si = Inr ([air_row, stone_row], replicate wire_cells 0)"
  shows "\<exists>s. from_layers sample_chunk 5 3 2 solid [empty_fluid_entry] si (replicate wire_cells 0) = Inr s"
proof -
  obtain packed where p: "pack_indices (replicate wire_cells 0) (length [air_row, stone_row]) = Inr packed"
    using pack_indices_succeeds [of "length [air_row, stone_row]" "replicate wire_cells 0"] by auto
  have u: "unpack_indices packed (length [air_row, stone_row]) = Inr (replicate wire_cells 0)"
    by (rule unpack_pack [OF _ p]) simp
  show ?thesis
    unfolding from_layers_def Let_def assms and_then_simps prod.case sample_fluid p
    by (simp add: and_then_Inr list_all_iff validate_snapshot_def sample_palettes
        unpacked_solid_indices_def unpacked_fluid_indices_def unpacked_fluid_def
        u [simplified] list_ex_iff)
qed

subsection \<open>Properties\<close>

text \<open>C14: a snapshot describes the chunk it was made from. Unpacking its sections gives, for
  every cell, an index into the stored palettes whose row is the row the original index named;
  a fluid layer stored as a missing section unpacks to the empty fluid.\<close>

theorem palette_roundtrip:
  assumes "from_layers key w c v solid fluid si fi = Inr s"
  shows "\<exists>si' fi'. unpacked_solid_indices s = Inr si' \<and> unpacked_fluid_indices s = Inr fi' \<and>
    same_cells solid si (ps_solid_palette s) si' \<and> same_cells fluid fi (ps_fluid_palette s) fi'"
proof -
  obtain si' fi' where r: "unpacked_solid_indices s = Inr si'" "unpacked_fluid_indices s = Inr fi'"
    "canonicalize_solid solid si = Inr (ps_solid_palette s, si')"
    "canonicalize_fluid fluid fi = Inr (ps_fluid_palette s, fi')"
    by (rule from_layers_unpack [OF assms])
  with canonicalize_solid_Inr(3) [OF r(3)] canonicalize_fluid_Inr(6) [OF r(4)] show ?thesis by blast
qed

theorem palette_roundtrip_witness:
  "\<exists>s. from_layers sample_chunk 5 3 2 [stone_row, air_row] [empty_fluid_entry]
      (replicate wire_cells 1) (replicate wire_cells 0) = Inr s \<and>
    (\<exists>si' fi'. unpacked_solid_indices s = Inr si' \<and> unpacked_fluid_indices s = Inr fi' \<and>
      same_cells [stone_row, air_row] (replicate wire_cells 1) (ps_solid_palette s) si' \<and>
      same_cells [empty_fluid_entry] (replicate wire_cells 0) (ps_fluid_palette s) fi')"
proof -
  obtain s where s: "from_layers sample_chunk 5 3 2 [stone_row, air_row] [empty_fluid_entry]
      (replicate wire_cells 1) (replicate wire_cells 0) = Inr s"
    using sample_snapshot [OF sample_solid(2)] by blast
  from s palette_roundtrip [OF s] show ?thesis by blast
qed

lemma canonicalize_solid_unique:
  assumes "canonicalize_solid solid si = Inr (p, si')" and "canonicalize_solid solid2 si2 = Inr (p2, si2')"
    and "set solid = set solid2" and "\<forall>k<wire_cells. solid ! (si ! k) = solid2 ! (si2 ! k)"
  shows "p = p2 \<and> si' = si2'"
proof -
  note a = canonicalize_solid_Inr [OF assms(1)] and a2 = canonicalize_solid_Inr [OF assms(2)]
  have p: "p = p2" unfolding a(1) a2(1) by (rule sort_key_unique [OF a(2) a2(2) assms(3)])
  have "distinct p" using a(1,2) by (simp add: distinct_map)
  then have "si' = si2'" using same_cells_unique [OF a(3) _ _ assms(4)] a2(3) p by simp
  with p show ?thesis ..
qed

lemma canonicalize_fluid_unique:
  assumes "canonicalize_fluid fluid fi = Inr (p, fi')" and "canonicalize_fluid fluid2 fi2 = Inr (p2, fi2')"
    and "set fluid = set fluid2" and "\<forall>k<wire_cells. fluid ! (fi ! k) = fluid2 ! (fi2 ! k)"
  shows "p = p2 \<and> fi' = fi2'"
proof -
  note b = canonicalize_fluid_Inr [OF assms(1)] and b2 = canonicalize_fluid_Inr [OF assms(2)]
  have split: "set xs = insert (xs ! 0) (set (drop 1 xs))" if "xs \<noteq> []" for xs :: "fluid_entry list"
    using that by (cases xs) simp_all
  note split = split [OF b(1)] split [OF b2(1)]
  have "fluid ! 0 \<in> set fluid2" using split(1) assms(3) by blast
  then have zero: "fluid ! 0 = fluid2 ! 0" using b(2) b2(3) split(2) by blast
  have rest: "set (drop 1 fluid) = set (drop 1 fluid2)"
  proof (rule set_eqI)
    fix e
    show "e \<in> set (drop 1 fluid) \<longleftrightarrow> e \<in> set (drop 1 fluid2)"
      using split assms(3) zero b(2,3) b2(2,3) by (metis insert_iff)
  qed
  have p: "p = p2" unfolding b(4) b2(4) zero sort_key_unique [OF b(5) b2(5) rest] by (rule refl)
  have "fluid ! 0 \<notin> set (drop 1 fluid)" using b(2,3) by blast
  then have "distinct p" using b(4,5) by (simp add: distinct_map)
  then have "fi' = fi2'" using same_cells_unique [OF b(6) _ _ assms(4)] b2(6) p by simp
  with p show ?thesis ..
qed

text \<open>C20: snapshots are canonical. Two descriptions of the same chunk over the same rows, listed
  in any order, give the same snapshot, so its bytes and their hash do not depend on the
  order in which palettes were collected.\<close>

theorem palette_canonical:
  assumes "from_layers key w c v solid fluid si fi = Inr s"
    and "from_layers key w c v solid2 fluid2 si2 fi2 = Inr s2"
    and "set solid = set solid2" and "set fluid = set fluid2"
    and "\<forall>k<wire_cells. solid ! (si ! k) = solid2 ! (si2 ! k)"
    and "\<forall>k<wire_cells. fluid ! (fi ! k) = fluid2 ! (fi2 ! k)"
  shows "s = s2"
proof -
  obtain si' fi' where r: "canonicalize_solid solid si = Inr (ps_solid_palette s, si')"
      "canonicalize_fluid fluid fi = Inr (ps_fluid_palette s, fi')"
      "pack_indices si' (length (ps_solid_palette s)) = Inr (ps_packed_solid s)"
      "(if list_all (\<lambda>i. i = 0) fi' then Inr [] else pack_indices fi' (length (ps_fluid_palette s)))
         = Inr (ps_packed_fluid s)"
    and s: "s = \<lparr>ps_key = key, ps_captured_world_revision = w, ps_chunk_revision = c,
        ps_voxel_revision = v, ps_chunk_edge = wire_chunk_edge, ps_solid_palette = ps_solid_palette s,
        ps_fluid_palette = ps_fluid_palette s, ps_packed_solid = ps_packed_solid s,
        ps_packed_fluid = ps_packed_fluid s, ps_fluid_state_schema = fluid_state_schema,
        ps_fluid_state_schema_version = 1\<rparr>"
    by (rule from_layers_Inr [OF assms(1)])
  obtain si2' fi2' where r2: "canonicalize_solid solid2 si2 = Inr (ps_solid_palette s2, si2')"
      "canonicalize_fluid fluid2 fi2 = Inr (ps_fluid_palette s2, fi2')"
      "pack_indices si2' (length (ps_solid_palette s2)) = Inr (ps_packed_solid s2)"
      "(if list_all (\<lambda>i. i = 0) fi2' then Inr [] else pack_indices fi2' (length (ps_fluid_palette s2)))
         = Inr (ps_packed_fluid s2)"
    and s2: "s2 = \<lparr>ps_key = key, ps_captured_world_revision = w, ps_chunk_revision = c,
        ps_voxel_revision = v, ps_chunk_edge = wire_chunk_edge, ps_solid_palette = ps_solid_palette s2,
        ps_fluid_palette = ps_fluid_palette s2, ps_packed_solid = ps_packed_solid s2,
        ps_packed_fluid = ps_packed_fluid s2, ps_fluid_state_schema = fluid_state_schema,
        ps_fluid_state_schema_version = 1\<rparr>"
    by (rule from_layers_Inr [OF assms(2)])
  note solid = canonicalize_solid_unique [OF r(1) r2(1) assms(3,5)]
  note fluid = canonicalize_fluid_unique [OF r(2) r2(2) assms(4,6)]
  have "ps_packed_solid s = ps_packed_solid s2" using r(3) r2(3) solid by simp
  moreover have "ps_packed_fluid s = ps_packed_fluid s2" using r(4) r2(4) fluid by (metis sum.inject(2))
  ultimately show ?thesis using s s2 solid fluid by metis
qed

theorem palette_canonical_witness:
  "\<exists>s. from_layers sample_chunk 5 3 2 [air_row, stone_row] [empty_fluid_entry]
      (replicate wire_cells 0) (replicate wire_cells 0) = Inr s \<and>
    from_layers sample_chunk 5 3 2 [stone_row, air_row] [empty_fluid_entry]
      (replicate wire_cells 1) (replicate wire_cells 0) = Inr s"
proof -
  obtain s s2 where s: "from_layers sample_chunk 5 3 2 [air_row, stone_row] [empty_fluid_entry]
        (replicate wire_cells 0) (replicate wire_cells 0) = Inr s"
      "from_layers sample_chunk 5 3 2 [stone_row, air_row] [empty_fluid_entry]
        (replicate wire_cells 1) (replicate wire_cells 0) = Inr s2"
    using sample_snapshot [OF sample_solid(1)] sample_snapshot [OF sample_solid(2)] by blast
  have "s = s2" by (rule palette_canonical [OF s]) auto
  with s show ?thesis by blast
qed

end
