(* ===== verification/Varint_Exact.thy ===== *)
theory Varint_Exact
  imports Palette_Codec
begin

section \<open>The integers of a payload\<close>

text \<open>
  The payload writes an integer seven bits to a byte, the least significant first, and marks
  all bytes but the last one. \<open>read_varint\<close> accepts an integer in its shortest form only,
  so that every payload has one encoding.
\<close>

fun leb128 :: "nat \<Rightarrow> nat list" where
  "leb128 v = (if v < 128 then [v] else (v mod 128 + 128) # leb128 (v div 128))"

declare leb128.simps [simp del]

lemma leb128_small: "v < 128 \<Longrightarrow> leb128 v = [v]"
  by (subst leb128.simps) simp

lemma leb128_large:
  assumes "low < 128" and "0 < w"
  shows "leb128 (low + 128 * w) = (low + 128) # leb128 w"
  using assms by (subst leb128.simps) simp

lemma leb128_length: "length (leb128 v) = varint_length v"
proof (induction v rule: leb128.induct)
  case (1 v)
  show ?case
  proof (cases "v < 128")
    case True
    then show ?thesis by (simp add: leb128_small varint_length.simps [of v])
  next
    case False
    with 1 show ?thesis
      by (simp add: leb128.simps [of v] varint_length.simps [of v] drop_bit_eq_div)
  qed
qed

lemma leb128_starts:
  assumes "b < 256"
  shows "take (length (leb128 w)) (b # rest) = leb128 w \<longleftrightarrow>
    (if b < 128 then w = b
     else \<exists>w'. 0 < w' \<and> w = (b - 128) + 128 * w' \<and> take (length (leb128 w')) rest = leb128 w')"
proof (cases "w < 128")
  case True
  then show ?thesis by (auto simp: leb128_small)
next
  case False
  define low w' where "low = w mod 128" and "w' = w div 128"
  have w: "w = low + 128 * w'" "low < 128" "0 < w'" using False by (simp_all add: low_def w'_def)
  have unique: "low + 128 * w' = c + 128 * u \<longleftrightarrow> c = low \<and> u = w'" if "c < 128" for c u
  proof
    assume eq: "low + 128 * w' = c + 128 * u"
    have "(low + 128 * w') mod 128 = low" "(c + 128 * u) mod 128 = c"
      using w(2) that by simp_all
    then have "c = low" using eq by metis
    with eq show "c = low \<and> u = w'" by simp
  qed simp
  have leb: "leb128 w = (low + 128) # leb128 w'" unfolding w(1) by (rule leb128_large [OF w(2,3)])
  show ?thesis
  proof (cases "b < 128")
    case True
    then have "w \<noteq> b" "b \<noteq> low + 128" using False by simp_all
    with True show ?thesis by (simp add: leb)
  next
    case b: False
    then have c: "b - 128 < 128" using assms by simp
    have eq: "w = b - 128 + 128 * u \<longleftrightarrow> b - 128 = low \<and> u = w'" for u
      using unique [OF c, of u] unfolding w(1) [symmetric] .
    have "b = low + 128 \<longleftrightarrow> b - 128 = low" using b by auto
    then show ?thesis using b w(3) unfolding leb eq by auto
  qed
qed

lemma or_disjoint:
  fixes v :: nat
  assumes "v < 2 ^ k"
  shows "v OR push_bit k low = v + 2 ^ k * low"
proof -
  have "v AND push_bit k low = 0"
  proof (rule bit_eqI)
    fix n
    have "\<not> bit v n" if "k \<le> n"
      using assms that by (metis bit_take_bit_iff leD take_bit_nat_eq_self)
    then show "bit (v AND push_bit k low) n = bit 0 n" by (auto simp: bit_simps)
  qed
  then have "v OR push_bit k low = v + push_bit k low"
    using disjunctive_add_eq_or [of v "push_bit k low"] by simp
  then show ?thesis by (simp add: push_bit_eq_mult mult.commute)
qed

lemma byte_parts:
  fixes b :: nat
  assumes "b < 256"
  shows "b AND 127 = b mod 128" "b AND 128 = 0 \<longleftrightarrow> b < 128"
proof -
  have "b AND 127 = take_bit 7 b" using take_bit_eq_mask [of 7 b] by (simp add: mask_eq_exp_minus_1)
  then show "b AND 127 = b mod 128" by (simp add: take_bit_eq_mod)
  have "b AND 2 ^ 7 = 0 \<longleftrightarrow> \<not> bit b 7" by (rule and_exp_eq_0_iff_not_bit)
  moreover have "(2 :: nat) ^ 7 = 128" by simp
  ultimately have "b AND 128 = 0 \<longleftrightarrow> even (b div 128)" by (metis bit_iff_odd)
  moreover have "b div 128 < 2" using assms by (simp add: less_mult_imp_div_less)
  then have "even (b div 128) \<longleftrightarrow> b div 128 = 0" by (auto simp: less_2_cases_iff)
  ultimately show "b AND 128 = 0 \<longleftrightarrow> b < 128" by (simp add: div_eq_0_iff)
qed

lemma read_byte:
  assumes "length (pc_bytes cur) \<le> usize_max"
  shows "read_exact 1 section cur = Inr (bytes, cur') \<longleftrightarrow>
    pc_position cur < length (pc_bytes cur) \<and> bytes = [pc_bytes cur ! pc_position cur] \<and>
    cur' = cur\<lparr>pc_position := pc_position cur + 1\<rparr>"
  using assms
  by (auto simp: read_exact_def result_simps checked_simps take_Suc_conv_app_nth Cons_nth_drop_Suc [symmetric]
      split: if_splits)


lemma read_varint_loop_exact:
  assumes "length (pc_bytes cur) \<le> usize_max" and "\<forall>b\<in>set (pc_bytes cur). b < 256"
    and "maximum \<le> u64_max" and "n \<le> 10" and "v < 2 ^ (7 * (10 - n))"
  shows "read_varint_loop n section maximum v cur = Inr (r, cur') \<longleftrightarrow>
    (\<exists>w. r = v + 2 ^ (7 * (10 - n)) * w \<and> (n = 10 \<or> 0 < w) \<and> r \<le> maximum \<and>
      take (length (leb128 w)) (drop (pc_position cur) (pc_bytes cur)) = leb128 w \<and>
      cur' = cur\<lparr>pc_position := pc_position cur + length (leb128 w)\<rparr>)"
  using assms
proof (induction n arbitrary: v cur)
  case 0
  have "\<not> v + 2 ^ (7 * (10 - 0)) * w \<le> maximum" if "0 < w" for w
    using 0(3) that by (simp add: u64_max_def)
  then show ?case by auto
next
  case (Suc n)
  let ?pos = "pc_position cur" and ?bytes = "pc_bytes cur" and ?e = "7 * (10 - Suc n)"
  let ?next = "cur\<lparr>pc_position := pc_position cur + 1\<rparr>"
  have e: "7 * (10 - n) = ?e + 7" using Suc.prems(4) by simp
  show ?case
  proof (cases "?pos < length ?bytes")
    case False
    then have "\<not> (\<exists>x. read_exact 1 section cur = Inr x)"
      using read_byte [OF Suc.prems(1)] by auto
    then obtain err where "read_exact 1 section cur = Inl err" by (metis sum.exhaust)
    then have "read_varint_loop (Suc n) section maximum v cur = Inl err" by (simp del: One_nat_def)
    moreover have "[] \<noteq> leb128 w" for w by (subst leb128.simps) simp
    ultimately show ?thesis using False by simp
  next
    case True
    define b where "b = ?bytes ! ?pos"
    define rest where "rest = drop (?pos + 1) ?bytes"
    define low where "low = b mod 128"
    have b: "b < 256" using Suc.prems(2) True by (simp add: b_def)
    have drop: "drop ?pos ?bytes = b # rest" using True by (simp add: b_def rest_def Cons_nth_drop_Suc)
    have read: "read_exact 1 section cur = Inr ([b], ?next)"
      using read_byte [OF Suc.prems(1)] True by (simp add: b_def)
    have low: "low < 128" "b AND 127 = low" "b AND 128 = 0 \<longleftrightarrow> b < 128"
      using byte_parts [OF b] by (simp_all add: low_def)
    have parts: "low = (if b < 128 then b else b - 128)" using b by (auto simp: low_def mod_if)
    note starts = leb128_starts [OF b, of _ rest, folded drop]
    define p where "p = (2 :: nat) ^ ?e"
    have p: "v < p" "2 ^ (7 * (10 - n)) = p * 128" "0 < p"
      using Suc.prems(5) unfolding e by (simp_all add: p_def power_add)
    show ?thesis
    proof (cases "n = 0 \<and> 1 < low")
      case True
      have "\<not> v + p * w \<le> maximum" if "take (length (leb128 w)) (drop ?pos ?bytes) = leb128 w" for w
      proof -
        have "2 \<le> w" using that True parts unfolding starts by (auto split: if_splits)
        then have "2 ^ 63 * 2 \<le> p * w" using True by (intro mult_le_mono) (simp_all add: p_def)
        moreover have "maximum < 2 ^ 63 * 2" using Suc.prems(3) by (simp add: u64_max_def)
        ultimately show ?thesis by linarith
      qed
      moreover have "read_varint_loop (Suc n) section maximum v cur
          = Inl (MalformedPayload (section @ '' varint overflows u64''))"
        using True low by (simp add: read del: One_nat_def)
      ultimately show ?thesis unfolding p_def by auto
    next
      case False
      have small: "p * low < 2 ^ 64"
      proof (cases "n = 0")
        case True
        then have "p * low \<le> 2 ^ 63 * 1" using False by (intro mult_le_mono) (simp_all add: p_def)
        then show ?thesis by simp
      next
        case n: False
        have "?e \<le> 56" using n by simp
        then have "p \<le> 2 ^ 56" unfolding p_def by (rule power_increasing) simp
        then have "p * low \<le> 2 ^ 56 * 127" using low(1) by (intro mult_le_mono) simp_all
        then show ?thesis by simp
      qed
      have "(9 - n) * 7 = ?e" by simp
      then have v': "v OR (push_bit ((9 - n) * 7) low mod 2 ^ 64) = v + p * low"
        using small or_disjoint [of v ?e low] p(1)
        by (simp add: push_bit_eq_mult mult.commute p_def)
      have step: "read_varint_loop (Suc n) section maximum v cur =
          (if b < 128 then
             (if 0 < 9 - n \<and> low = 0
              then Inl (NonCanonicalPayload (section @ '' uses a redundant varint byte''))
              else if v + p * low > maximum
              then Inl (MalformedPayload (section @ '' exceeds its fixed integer width''))
              else Inr (v + p * low, ?next))
           else read_varint_loop n section maximum (v + p * low) ?next)"
        using False low v' by (auto simp: read Let_def simp del: One_nat_def)
      show ?thesis
      proof (cases "b < 128")
        case True
        then show ?thesis
          unfolding step starts p_def [symmetric] using parts Suc.prems(4) by (auto simp: leb128_small)
      next
        case large: False
        have "v + p * low < p * 128"
        proof -
          have "v + p * low < p * (low + 1)" using p(1) by simp
          also have "\<dots> \<le> p * 128" using low(1) by (intro mult_le_mono) simp_all
          finally show ?thesis .
        qed
        then have IH: "read_varint_loop n section maximum (v + p * low) ?next = Inr (r, cur') \<longleftrightarrow>
            (\<exists>w. r = v + p * low + p * 128 * w \<and> (n = 10 \<or> 0 < w) \<and> r \<le> maximum \<and>
              take (length (leb128 w)) rest = leb128 w \<and>
              cur' = ?next\<lparr>pc_position := ?pos + 1 + length (leb128 w)\<rparr>)"
          using Suc.IH [of ?next "v + p * low"] Suc.prems p(2) by (simp add: rest_def)
        have low_eq: "low = b - 128" using parts large by simp
        have len: "length (leb128 (low + 128 * w)) = Suc (length (leb128 w))" if "0 < w" for w
          using leb128_large [OF low(1) that] by simp
        have sum: "v + p * (low + 128 * w) = v + p * low + p * 128 * w" for w
          by (simp add: distrib_left)
        have "n \<noteq> 10" using Suc.prems(4) by simp
        then show ?thesis
          unfolding step starts p_def [symmetric] if_not_P [OF large] IH low_eq [symmetric]
            sum [symmetric]
          using p(3) by (auto simp: len)
      qed
    qed
  qed
qed


text \<open>C19: an integer of a payload is read exactly when its shortest encoding stands at the cursor
  and it does not exceed the width of its field; the cursor then stands behind the encoding. A
  longer encoding of the same integer is rejected, so that equal payloads are equal bytes.\<close>

theorem varint_exact:
  assumes "length (pc_bytes cur) \<le> usize_max" and "\<forall>b\<in>set (pc_bytes cur). b < 256"
    and "maximum \<le> u64_max"
  shows "read_varint section maximum cur = Inr (r, cur') \<longleftrightarrow>
    r \<le> maximum \<and>
    take (varint_length r) (drop (pc_position cur) (pc_bytes cur)) = leb128 r \<and>
    cur' = cur\<lparr>pc_position := pc_position cur + varint_length r\<rparr>"
  using read_varint_loop_exact [OF assms, of 10 0 "section" r cur']
  by (simp add: read_varint_def leb128_length del: One_nat_def)

text \<open>The number 300 is read from the middle of a payload; its form with a zero byte is not.\<close>

theorem varint_exact_witness:
  "read_varint ''field'' u32_max \<lparr>pc_bytes = [9, 172, 2, 5], pc_position = 1\<rparr>
     = Inr (300, \<lparr>pc_bytes = [9, 172, 2, 5], pc_position = 3\<rparr>) \<and>
   (\<nexists>cur'. read_varint ''field'' u32_max \<lparr>pc_bytes = [172, 130, 0], pc_position = 0\<rparr> = Inr (300, cur'))"
proof -
  have "varint_length 300 = 2" "leb128 300 = [172, 2]"
    by (simp_all add: varint_length.simps [of 300] varint_length.simps [of 2]
        leb128.simps [of 300] leb128.simps [of 2] drop_bit_eq_div)
  then show ?thesis
    using varint_exact [of "\<lparr>pc_bytes = [9, 172, 2, 5], pc_position = 1\<rparr>" u32_max "''field''" 300]
      varint_exact [of "\<lparr>pc_bytes = [172, 130, 0], pc_position = 0\<rparr>" u32_max "''field''" 300]
    by (simp add: u32_max_def usize_max_def u64_max_def)
qed

end
