(* ===== verification/Spec2Isabelle.thy ===== *)
theory Spec2Isabelle
  imports Catalog_Compile Encoding Slots Applier_Properties Commit_Properties Shared_Mining World_Properties Schedule_Properties
    Storage_Evidence Storage_Handshake Registration_Ids Version_Properties
    Authority_Properties System_Order Fluid_Properties Palette_Properties Varint_Exact
begin

text \<open>
  A verification development for Lattice Axiom, a voxel game engine in Rust. It models the
  deterministic core of the packages under \<open>packages/latticeaxiom\<close>: the authoritative gameplay
  kernel, the world storage it hands its plans to, the identifiers, versions, namespace grants
  and schedules that the kernel packages compile, the ticks of flowing fluids and the persisted
  form of a chunk's palettes.

  \<^bold>\<open>The parts and how they interact.\<close>
  A client sends a command in an envelope (a transaction identifier, the world revision it was
  made for, the command). The planner (\<open>GameplayKernel\<close> in \<open>kernel.rs\<close> of \<open>latticeaxiom-gameplay\<close>)
  reads the loaded state and returns a plan: a list of edits, each with the value it expects and
  the value it writes, an outcome, and fingerprints. The applier (\<open>ReferencePlanApplier\<close>) checks
  the plan against the retry ledger and its state, applies the edits in order, rolls back on the
  first failure, and publishes a receipt. A plan that touches stored domains leaves the applier
  behind a barrier until storage acknowledges it. The storage kernel (\<open>MemoryTransactionKernel\<close> in
  \<open>memory.rs\<close> of \<open>latticeaxiom-storage\<close>) commits a transaction of chunk replacements optimistically,
  answers retries from its receipt history, and returns a receipt whose view
  (\<open>StorageReceiptView\<close>) the applier observes. The rules of the game come from a catalog that is
  compiled once (\<open>catalog.rs\<close>). Every key in these parts is an identifier of \<open>latticeaxiom-core\<close>;
  \<open>latticeaxiom-registration\<close> decides which package may register which identifier, and orders the
  systems of a schedule. The voxel runtime ticks fluids on the cells of a chunk
  (\<open>fluid.rs\<close>), whose layers \<open>latticeaxiom-world-wire\<close> stores as a palette snapshot.

  \<^bold>\<open>Conventions.\<close>
  A Rust struct is a record and an enum a datatype with the same constructors. \<open>Result\<close> is a sum
  with the error on the left; \<open>and_then\<close>, \<open>ok_or\<close>, \<open>try_fold\<close> and \<open>try_each\<close> (\<open>Prelude\<close>) stand for
  \<open>?\<close> and the fallible loops, so each early return of the code is a branch of the model. A method
  that takes a mutable receiver returns the new value beside its result. Machine integers are
  natural numbers with the checked and saturating operations of the standard library written
  out; identifiers of 128 bits, and bytes, are words. A \<open>BTreeMap\<close> is a list sorted by its keys
  (\<open>BTree_Map\<close>), used through the interface \<open>ordered_map\<close>. Text is a list of bytes (\<open>Rust_Text\<close>).

  \<^bold>\<open>The theories and the code.\<close>
  \<^item> \<open>Prelude\<close>, \<open>BTree_Map\<close>, \<open>Rust_Text\<close>: the parts of Rust's standard library the code uses.
  \<^item> \<open>Scope\<close> (\<open>storage_scope.rs\<close>), \<open>Catalog\<close> and \<open>Catalog_Compile\<close> (\<open>catalog.rs\<close>), \<open>Model\<close> and \<open>State\<close>
    (\<open>model.rs\<close>), \<open>Hash\<close> (\<open>hash.rs\<close>), and from \<open>kernel.rs\<close>: \<open>Slots\<close> (the movement of stacks), \<open>Ingredient_Flow\<close>
    (shaped and shapeless recipes), \<open>Planner\<close> (the twelve commands), \<open>Apply\<close> (edits, rollback, the
    batch) and \<open>Applier\<close> (execute, apply, ledger, storage receipts): the gameplay kernel.
  \<^item> \<open>Storage\<close> (\<open>model.rs\<close>, \<open>error.rs\<close>), \<open>Storage_Hash\<close> (\<open>canonical_hash.rs\<close>), \<open>Storage_Kernel\<close> (\<open>memory.rs\<close>): the
    storage kernel, and \<open>Storage_Handshake\<close> (the receipt view and the transaction of a plan).
  \<^item> \<open>Identifier\<close> and \<open>Version_Req\<close> (\<open>identifier.rs\<close>), \<open>Grant_Pattern\<close> (\<open>registration.rs\<close>), \<open>Registration_Ids\<close>
    (\<open>id.rs\<close> and the dimension identifiers): identifiers, versions, grants.
  \<^item> \<open>Namespace_Authority\<close> (\<open>compiler.rs\<close>, \<open>graph.rs\<close>) and \<open>System_Schedule\<close> (\<open>schedule.rs\<close>): the checks of
    the registration compiler that decide authority and order.
  \<^item> \<open>Fluid_Update\<close> (\<open>fluid.rs\<close>) and \<open>Palette_Codec\<close> (\<open>solid_fluid_palette.rs\<close>).

  The remaining theories hold no code, only specifications and proofs; \<open>Example\<close> holds the sample
  catalog and world of the concrete theorems.

  \<^bold>\<open>What is shown.\<close>
  \<^item> Planning and applying (\<open>Plan_Effects\<close>, \<open>Plan_Commands\<close>, \<open>Applier_Correct\<close>, \<open>Applier_Properties\<close>): for every
    command the planner accepts, the staged edits pass the admission check, apply to the state
    they were planned on, and lead to a state that is written out. So a planned command executes,
    except that a process under a continuation identifier that is taken plans and is then
    rejected. An error changes nothing, any plan applies wholly or not at all, a retry gets the
    first answer, before and after its storage commit.
  \<^item> The ledger and the barrier (\<open>Commit_Properties\<close>, \<open>Shared_Mining\<close>): the invariant of every reachable
    applier, when a storage receipt is accepted and all it changes, and the state in which none
    is accepted any more (a bug of the code).
  \<^item> Items (\<open>World_Items\<close>, \<open>World_Processes\<close>, \<open>World_Craft\<close>, \<open>World_Effects\<close>, \<open>World_Properties\<close>,
    \<open>Schedule_Properties\<close>): an account of the units of every item in the world; moving conserves them,
    crafting, mining and processes change them by what the rules say, an advance completes the
    earliest due processes and skips none.
  \<^item> Shapeless recipes (\<open>Flow_Search\<close>, \<open>Flow_Max\<close>, \<open>Flow_Build\<close>, \<open>Flow_Assign\<close>, \<open>Shapeless\<close>): the augmenting-path loop
    computes a maximum flow, so consumption succeeds exactly when an assignment exists.
  \<^item> Fingerprints (\<open>Encoding\<close>): the bytes hashed for an envelope or a plan determine it; the encoders are
    composed as instances of the locale \<open>prefix_code\<close>.
  \<^item> Storage (\<open>Storage_Plans\<close>, \<open>Storage_Invariant\<close>, \<open>Storage_Commit\<close>, \<open>Storage_Spec\<close>, \<open>Storage_Safety\<close>, \<open>Storage_Retry\<close>,
    \<open>Storage_Evidence\<close>, \<open>Storage_Handshake\<close>): the invariant of every reachable kernel, the refinement of an
    abstract store, all or nothing under every injected fault, no double application, retries
    within the receipt horizon, the evidence hashes, the payload meter, and the way of a gameplay
    plan through storage and back.
  \<^item> Identifiers, versions, grants (\<open>Identifier\<close>, \<open>Version_Order\<close>, \<open>Version_Properties\<close>, \<open>Grant_Cover\<close>,
    \<open>Authority_Properties\<close>): the texts the parsers accept, with the one form the documentation does not
    allow stated apart; the meaning and the printed form of version requirements; covering as
    containment; and that delegation never widens authority.
  \<^item> Schedules (\<open>Schedule_Order\<close>, \<open>System_Order\<close>): termination, order, and exactly when one compiles.
  \<^item> Fluids (\<open>Fluid_Spread\<close>, \<open>Fluid_Properties\<close>): a plan replays, respects its bounds, lets no fluid rise or
    mix, and ticking comes to rest.
  \<^item> Palettes (\<open>Palette_Bits\<close>, \<open>Palette_Properties\<close>, \<open>Varint_Exact\<close>): packing and unpacking keep every cell,
    snapshots do not depend on the order of palettes, and the reader of variable-length integers
    accepts exactly the shortest encodings.

  \<^bold>\<open>Interfaces.\<close>
  \<open>ordered_map\<close> (interpreted on the B-tree model), \<open>reversible_edits\<close> (an edit and its inverse give an
  atomic batch; interpreted on \<open>apply_intent\<close> and \<open>rollback_intent\<close>), \<open>slot_owner\<close> (slot edits of a player's
  inventory and of a container) and \<open>prefix_code\<close> (one instance per encoder).

  \<^bold>\<open>Steps.\<close>
  \<open>applier_reachable\<close> starts from a loaded state and takes commands, plans of any content, storage
  receipts of any content, faults, and the host's seeding and unloading. \<open>reachable_kernel\<close> starts
  empty and takes commits, publications, releases of persisted copies and armed faults.

  \<^bold>\<open>Loops, fuel and bounds.\<close>
  \<open>bfs\<close>, \<open>flow_loop\<close>, \<open>reachable_closure\<close>, \<open>resolve_delegations\<close> and \<open>validate_predicate_loop\<close> have measures.
  \<open>path_back\<close> has the number of nodes for fuel; a path of a search tree visits a node at most once, so
  this is enough (\<open>Flow_Search\<close>). \<open>ready_loop\<close> is a partial function, total on the tables the code builds
  (\<open>Schedule_Order\<close>). \<open>settle\<close>, the repetition of fluid ticks, is not code; \<open>256 * volume + 1\<close> ticks are enough
  because every write lowers the total of the levels. \<open>usize\<close> has 64 bits.

  \<^bold>\<open>Parameters.\<close>
  SHA-256 is an arbitrary function \<open>sha\<close>; no theorem assumes that it has no collisions. Parsing and
  comparing versions is the \<open>semver\<close> crate's: \<open>semver_laws\<close> states what its documentation says and is
  instantiated. Printing and parsing of UUIDs and Unicode normalisation are arguments.

  \<^bold>\<open>Not modelled.\<close>
  Locks and their poisoning; serde, postcard and the payload scan of the palette codec; the hash
  checks, catalog collection and receipts of the registration compiler; read-only inspection
  views; and the crates for rendering, input, user interface, worlds on disk, package resolution,
  terrain and territory generation, the launcher and the host, which are glue over third-party
  code, floating-point geometry or outside the chosen core. Random identifiers are inputs.

  \<^bold>\<open>Where the code and its documentation part.\<close>
  Progress of a second player on a broken block blocks every later storage receipt
  (\<open>Shared_Mining\<close>). Majors of stable identifiers may carry a plus sign (\<open>Identifier\<close>). \<open>*/**\<close> does not cover
  \<open>**\<close> (\<open>Grant_Cover\<close>). A cycle report also names the systems behind a cycle, and an edge across stages
  is reported as an unknown system (\<open>System_Order\<close>). The reported queue depth of a fluid plan can
  exceed its bound (\<open>Fluid_Properties\<close>).
\<close>

end
